(* ===== verification/Prelude.thy ===== *)
theory Prelude
  imports Main "HOL-Library.Word" "HOL-Library.AList"
begin

text \<open>
  Shared vocabulary of the development.

  \<^item> \<open>error\<close>: one constructor per kind of exception the chain library throws; \<open>'a result\<close>
    is a sum whose left side is the exception. \<open>rbind\<close> sequences fallible steps, \<open>require\<close>
    is an \<^verbatim>\<open>FC_ASSERT\<close> in the middle of such a sequence.
  \<^item> \<open>fc_lib\<close>: the arithmetic that the sources take from the \<^verbatim>\<open>fc\<close> and Boost libraries, whose
    code is not part of the repository. It is an argument of every definition that uses it, and
    \<open>fc_lib_ok\<close> is the documented behaviour the chain code relies on.
  \<^item> the protocol constants of \<^verbatim>\<open>config.hpp\<close>.
  \<^item> generic lemmas on association lists used as object indexes.
\<close>

section \<open>Results and errors\<close>

text \<open>
  \<open>Assert_failed\<close> stands for \<^verbatim>\<open>fc::assert_exception\<close> (every plain \<^verbatim>\<open>FC_ASSERT\<close>),
  \<open>Overflow\<close> for the exception of \<^verbatim>\<open>fc::safe\<close>, \<open>Not_found\<close> for the assertion in
  \<^verbatim>\<open>index::get\<close> that an object id exists; the others are the named exceptions of
  \<^verbatim>\<open>exceptions.hpp\<close>.
\<close>

datatype error =
    Assert_failed
  | Overflow
  | Not_found
  | Unlinkable_block
  | Insufficient_fee
  | Transfer_from_account_not_whitelisted
  | Transfer_to_account_not_whitelisted
  | Transfer_restricted_transfer_asset
  | Override_transfer_not_permitted
  | Tx_missing_active_auth
  | Tx_missing_owner_auth
  | Tx_missing_other_auth
  | Tx_irrelevant_sig
  | Tx_duplicate_sig
  | Undo_database_exception
  | Invalid_committee_approval
  | Bad_rational
  | Bad_iterator
  | Black_swan
  | Insufficient_feeds
  | Unfilled_margin_call
  | Out_of_fuel

type_synonym 'a result = "error + 'a"

definition rbind :: "'a result \<Rightarrow> ('a \<Rightarrow> 'b result) \<Rightarrow> 'b result" where
  "rbind m f = (case m of Inl e \<Rightarrow> Inl e | Inr x \<Rightarrow> f x)"

definition require :: "bool \<Rightarrow> error \<Rightarrow> 'a result \<Rightarrow> 'a result" where
  "require b e k = (if b then k else Inl e)"

definition of_option :: "error \<Rightarrow> 'a option \<Rightarrow> 'a result" where
  "of_option e x = (case x of None \<Rightarrow> Inl e | Some y \<Rightarrow> Inr y)"

named_theorems result_simps \<open>evaluation of sequenced results\<close>

lemma rbind_Inl [simp, result_simps]: "rbind (Inl e) f = Inl e"
  by (simp add: rbind_def)

lemma rbind_Inr [simp, result_simps]: "rbind (Inr x) f = f x"
  by (simp add: rbind_def)

lemma rbind_eq_Inr [simp, result_simps]:
  "rbind m f = Inr y \<longleftrightarrow> (\<exists>x. m = Inr x \<and> f x = Inr y)"
  by (cases m) (auto simp: rbind_def)

lemma rbind_eq_Inl:
  "rbind m f = Inl e \<longleftrightarrow> m = Inl e \<or> (\<exists>x. m = Inr x \<and> f x = Inl e)"
  by (cases m) (auto simp: rbind_def)

lemma rbind_cong [fundef_cong]: "m = m' \<Longrightarrow> (\<And>x. m' = Inr x \<Longrightarrow> f x = g x) \<Longrightarrow> rbind m f = rbind m' g"
  by (cases m') simp_all

lemma rbind_assoc: "rbind (rbind m f) g = rbind m (\<lambda>x. rbind (f x) g)"
  by (cases m) simp_all

lemma require_True [simp, result_simps]: "require True e k = k"
  by (simp add: require_def)

lemma require_False [simp, result_simps]: "require False e k = Inl e"
  by (simp add: require_def)

lemma require_eq_Inr [simp, result_simps]: "require b e k = Inr y \<longleftrightarrow> b \<and> k = Inr y"
  by (simp add: require_def)

lemma of_option_eq_Inr [simp, result_simps]: "of_option e x = Inr y \<longleftrightarrow> x = Some y"
  by (auto simp: of_option_def split: option.splits)

lemma of_option_Some [simp, result_simps]: "of_option e (Some y) = Inr y"
  by (simp add: of_option_def)

lemma of_option_None [simp, result_simps]: "of_option e None = Inl e"
  by (simp add: of_option_def)

text \<open>\<open>succeeds\<close>: the step returns (throws nothing).\<close>

definition succeeds :: "'a result \<Rightarrow> bool" where
  "succeeds m \<longleftrightarrow> (case m of Inl _ \<Rightarrow> False | Inr _ \<Rightarrow> True)"

lemma succeeds_simps [simp]: "succeeds (Inr x)" "\<not> succeeds (Inl e)"
  by (simp_all add: succeeds_def)

lemma succeeds_iff: "succeeds m \<longleftrightarrow> (\<exists>x. m = Inr x)"
  by (cases m) auto

section \<open>Machine integers and library arithmetic\<close>

definition in_int64 :: "int \<Rightarrow> bool" where
  "in_int64 x \<longleftrightarrow> - (2 ^ 63) \<le> x \<and> x < 2 ^ 63"

definition in_uint32 :: "int \<Rightarrow> bool" where
  "in_uint32 x \<longleftrightarrow> 0 \<le> x \<and> x < 2 ^ 32"

text \<open>
  What the chain code uses of \<^verbatim>\<open>fc::safe<int64_t>\<close> (the type \<^verbatim>\<open>share_type\<close>) and of
  \<^verbatim>\<open>boost::rational<int128_t>\<close>: the checked operators, \<open>None\<close> where they throw, and the
  normalising constructor, \<open>None\<close> where it throws \<^verbatim>\<open>bad_rational\<close>, and the product of two rationals.
\<close>

record fc_lib =
  safe_add :: "int \<Rightarrow> int \<Rightarrow> int option"
  safe_sub :: "int \<Rightarrow> int \<Rightarrow> int option"
  safe_neg :: "int \<Rightarrow> int option"
  rational_of :: "int \<Rightarrow> int \<Rightarrow> (int \<times> int) option"
  rational_mul :: "int \<times> int \<Rightarrow> int \<times> int \<Rightarrow> int \<times> int"

definition checked64 :: "int \<Rightarrow> int option" where
  "checked64 x = (if in_int64 x then Some x else None)"

definition normal_fraction :: "int \<Rightarrow> int \<Rightarrow> int \<times> int" where
  "normal_fraction n d = (sgn d * n div gcd n d, \<bar>d\<bar> div gcd n d)"

definition fc_lib_ok :: "fc_lib \<Rightarrow> bool" where
  "fc_lib_ok F \<longleftrightarrow>
     (\<forall>a b. safe_add F a b = checked64 (a + b)) \<and>
     (\<forall>a b. safe_sub F a b = checked64 (a - b)) \<and>
     (\<forall>a. safe_neg F a = checked64 (- a)) \<and>
     (\<forall>n d. rational_of F n d = (if d = 0 then None else Some (normal_fraction n d))) \<and>
     (\<forall>p q. rational_mul F p q = normal_fraction (fst p * fst q) (snd p * snd q))"

text \<open>A concrete library that meets the documented behaviour; the witnesses run on it.\<close>

definition fc_reference :: fc_lib where
  "fc_reference =
     \<lparr>safe_add = (\<lambda>a b. checked64 (a + b)), safe_sub = (\<lambda>a b. checked64 (a - b)),
      safe_neg = (\<lambda>a. checked64 (- a)),
      rational_of = (\<lambda>n d. if d = 0 then None else Some (normal_fraction n d)),
      rational_mul = (\<lambda>p q. normal_fraction (fst p * fst q) (snd p * snd q))\<rparr>"

lemma fc_reference_ok [simp, intro]: "fc_lib_ok fc_reference"
  by (simp add: fc_lib_ok_def fc_reference_def)

lemma fc_reference_simps [simp]:
  "safe_add fc_reference a b = checked64 (a + b)"
  "safe_sub fc_reference a b = checked64 (a - b)"
  "safe_neg fc_reference a = checked64 (- a)"
  "rational_of fc_reference n d = (if d = 0 then None else Some (normal_fraction n d))"
  "rational_mul fc_reference p q = normal_fraction (fst p * fst q) (snd p * snd q)"
  by (simp_all add: fc_reference_def)

text \<open>The interface the chain code programs against, stated once.\<close>

locale fc_arith =
  fixes F :: fc_lib
  assumes ok: "fc_lib_ok F"
begin

lemma safe_add_eq: "safe_add F a b = checked64 (a + b)"
  using ok by (simp add: fc_lib_ok_def)

lemma safe_sub_eq: "safe_sub F a b = checked64 (a - b)"
  using ok by (simp add: fc_lib_ok_def)

lemma safe_neg_eq: "safe_neg F a = checked64 (- a)"
  using ok by (simp add: fc_lib_ok_def)

lemma rational_of_eq: "rational_of F n d = (if d = 0 then None else Some (normal_fraction n d))"
  using ok by (simp add: fc_lib_ok_def)

lemma rational_mul_eq: "rational_mul F p q = normal_fraction (fst p * fst q) (snd p * snd q)"
  using ok unfolding fc_lib_ok_def by blast

lemma safe_add_in_range: "in_int64 (a + b) \<Longrightarrow> safe_add F a b = Some (a + b)"
  by (simp add: safe_add_eq checked64_def)

lemma safe_sub_in_range: "in_int64 (a - b) \<Longrightarrow> safe_sub F a b = Some (a - b)"
  by (simp add: safe_sub_eq checked64_def)

lemma safe_neg_in_range: "in_int64 (- a) \<Longrightarrow> safe_neg F a = Some (- a)"
  by (simp add: safe_neg_eq checked64_def)

end

interpretation fc_ref: fc_arith fc_reference
  by unfold_locales simp

lemma checked64_eq_Some [simp]: "checked64 x = Some y \<longleftrightarrow> in_int64 x \<and> y = x"
  by (auto simp: checked64_def)

lemma checked64_numeral [simp]:
  "checked64 0 = Some 0" "checked64 1 = Some 1"
  "checked64 (numeral k) = (if in_int64 (numeral k) then Some (numeral k) else None)"
  "checked64 (- numeral k) = (if in_int64 (- numeral k) then Some (- numeral k) else None)"
  by (simp_all add: checked64_def in_int64_def)

lemmas fc_safe_simps =
  fc_arith.safe_add_eq [OF fc_arith.intro] fc_arith.safe_sub_eq [OF fc_arith.intro]
  fc_arith.safe_neg_eq [OF fc_arith.intro] fc_arith.rational_of_eq [OF fc_arith.intro]
  fc_arith.rational_mul_eq [OF fc_arith.intro]

lemma normal_fraction_pos:
  assumes "n > 0" and "d > 0"
  shows "fst (normal_fraction n d) > 0" and "snd (normal_fraction n d) > 0"
    and "fst (normal_fraction n d) \<le> n" and "snd (normal_fraction n d) \<le> d"
proof -
  have g: "gcd n d > 0" using assms by simp
  have le: "gcd n d \<le> n" "gcd n d \<le> d"
    using assms by (simp_all add: gcd_le1_int gcd_le2_int)
  have le_g: "1 \<le> gcd n d" using g by linarith
  have nf: "normal_fraction n d = (n div gcd n d, d div gcd n d)"
    using assms by (simp add: normal_fraction_def)
  show "fst (normal_fraction n d) > 0" "snd (normal_fraction n d) > 0"
    unfolding nf using le pos_imp_zdiv_pos_iff [OF g] by simp_all
  show "fst (normal_fraction n d) \<le> n" "snd (normal_fraction n d) \<le> d"
    unfolding nf using assms le_g zdiv_mono2 [of n 1 "gcd n d"]
      zdiv_mono2 [of d 1 "gcd n d"] by simp_all
qed

lemma normal_fraction_ratio:
  assumes "d > 0"
  shows "fst (normal_fraction n d) * d = n * snd (normal_fraction n d)"
proof -
  obtain n' d' where nd: "n = gcd n d * n'" "d = gcd n d * d'"
    by (metis dvd_def gcd_dvd1 gcd_dvd2)
  have g: "gcd n d \<noteq> 0" using assms by simp
  have "n div gcd n d = n'" "d div gcd n d = d'"
    using nd g by (metis nonzero_mult_div_cancel_left)+
  then show ?thesis
    using assms nd by (simp add: normal_fraction_def) (metis mult.assoc mult.commute)
qed

section \<open>Association lists as maps\<close>

lemma map_add_Cons_update:
  assumes "k \<notin> fst ` set xs"
  shows "(m(k \<mapsto> v)) ++ map_of xs = m ++ map_of ((k, v) # xs)"
proof (rule ext)
  fix a
  have "map_of xs k = None" using assms by (simp add: map_of_eq_None_iff)
  then show "((m(k \<mapsto> v)) ++ map_of xs) a = (m ++ map_of ((k, v) # xs)) a"
    by (cases "a = k") (simp_all add: map_add_def split: option.splits)
qed

section \<open>Protocol constants\<close>

text \<open>The constants of \<^verbatim>\<open>libraries/chain/include/graphene/chain/config.hpp\<close> and the
  \<^verbatim>\<open>hardfork.d\<close> activation times that the modelled code reads.\<close>

definition GRAPHENE_MAX_SHARE_SUPPLY :: int where
  "GRAPHENE_MAX_SHARE_SUPPLY = 1000000000000000"

definition GRAPHENE_100_PERCENT :: int where
  "GRAPHENE_100_PERCENT = 10000"

definition GRAPHENE_COLLATERAL_RATIO_DENOM :: int where
  "GRAPHENE_COLLATERAL_RATIO_DENOM = 1000"

definition GRAPHENE_MIN_COLLATERAL_RATIO :: int where
  "GRAPHENE_MIN_COLLATERAL_RATIO = 1001"

definition GRAPHENE_MAX_COLLATERAL_RATIO :: int where
  "GRAPHENE_MAX_COLLATERAL_RATIO = 32000"

lemmas config_defs = GRAPHENE_MAX_SHARE_SUPPLY_def GRAPHENE_100_PERCENT_def
  GRAPHENE_COLLATERAL_RATIO_DENOM_def GRAPHENE_MIN_COLLATERAL_RATIO_def
  GRAPHENE_MAX_COLLATERAL_RATIO_def

end
