(* ===== verification/Object_Id.thy ===== *)
theory Object_Id
  imports Prelude
begin

unbundle bit_operations_syntax

text \<open>
  Object identifiers, \<^verbatim>\<open>db/object_id.hpp\<close>: a 64-bit number that packs an 8-bit space, an
  8-bit type and a 48-bit instance.
\<close>

record object_id_type =
  number :: "64 word"

definition GRAPHENE_DB_MAX_INSTANCE_ID :: "64 word" where
  "GRAPHENE_DB_MAX_INSTANCE_ID = drop_bit 16 (- 1)"

definition mk_object_id :: "8 word \<Rightarrow> 8 word \<Rightarrow> 64 word \<Rightarrow> object_id_type result" where
  "mk_object_id s t i =
     require (drop_bit 48 i = 0) Assert_failed
       (Inr \<lparr>number = push_bit 56 (ucast s) OR push_bit 48 (ucast t) OR i\<rparr>)"

definition id_space :: "object_id_type \<Rightarrow> 8 word" where
  "id_space x = ucast (drop_bit 56 (number x))"

definition id_type :: "object_id_type \<Rightarrow> 8 word" where
  "id_type x = ucast (drop_bit 48 (number x) AND 0x00ff)"

definition id_space_type :: "object_id_type \<Rightarrow> 16 word" where
  "id_space_type x = ucast (drop_bit 48 (number x))"

definition id_instance :: "object_id_type \<Rightarrow> 64 word" where
  "id_instance x = number x AND GRAPHENE_DB_MAX_INSTANCE_ID"

definition id_is_null :: "object_id_type \<Rightarrow> bool" where
  "id_is_null x = (number x = 0)"

definition id_less :: "object_id_type \<Rightarrow> object_id_type \<Rightarrow> bool" where
  "id_less a b = (number a < number b)"

definition id_incr :: "object_id_type \<Rightarrow> object_id_type" where
  "id_incr x = \<lparr>number = number x + 1\<rparr>"

definition id_add :: "object_id_type \<Rightarrow> 64 word \<Rightarrow> object_id_type result" where
  "id_add a delta = mk_object_id (id_space a) (id_type a) (id_instance a + delta)"

definition id_is :: "8 word \<Rightarrow> 8 word \<Rightarrow> object_id_type \<Rightarrow> bool" where
  "id_is s t x = (drop_bit 48 (number x) = push_bit 8 (ucast s) OR ucast t)"

section \<open>Packing and unpacking\<close>

lemma max_instance_mask: "GRAPHENE_DB_MAX_INSTANCE_ID = mask 48"
  unfolding GRAPHENE_DB_MAX_INSTANCE_ID_def by (rule bit_word_eqI) (auto simp: bit_simps)

lemma byte_mask: "(0xff :: 64 word) = mask 8"
  by (simp add: mask_eq_exp_minus_1)

lemma instance_high_bits:
  assumes "drop_bit 48 (i :: 64 word) = 0" and "48 \<le> n"
  shows "\<not> bit i n"
proof -
  have "bit i n = bit (drop_bit 48 i) (n - 48)" using assms(2) by (simp add: bit_drop_bit_eq)
  then show ?thesis using assms(1) by simp
qed

lemma unpack_space:
  assumes "drop_bit 48 (i :: 64 word) = 0"
  shows "ucast (drop_bit 56 (push_bit 56 (ucast (s :: 8 word)) OR push_bit 48 (ucast (t :: 8 word)) OR i :: 64 word)) = s"
  by (rule bit_word_eqI) (auto simp: bit_simps instance_high_bits [OF assms] dest: bit_imp_le_length)

lemma unpack_type:
  assumes "drop_bit 48 (i :: 64 word) = 0"
  shows "ucast (drop_bit 48 (push_bit 56 (ucast (s :: 8 word)) OR push_bit 48 (ucast (t :: 8 word)) OR i :: 64 word) AND 0x00ff) = t"
  unfolding byte_mask
  by (rule bit_word_eqI) (auto simp: bit_simps instance_high_bits [OF assms] dest: bit_imp_le_length)

lemma unpack_instance:
  assumes "drop_bit 48 (i :: 64 word) = 0"
  shows "(push_bit 56 (ucast (s :: 8 word)) OR push_bit 48 (ucast (t :: 8 word)) OR i :: 64 word) AND GRAPHENE_DB_MAX_INSTANCE_ID = i"
  unfolding max_instance_mask
  using instance_high_bits [OF assms] linorder_not_less
  by (intro bit_word_eqI) (auto simp: bit_simps dest: bit_imp_le_length)

section \<open>Properties\<close>

text \<open>C30. An object id is built exactly when the instance fits 48 bits, and its space, type and
  instance read back as given: distinct triples have distinct ids.\<close>

theorem object_id_round_trip:
  "mk_object_id s t i = Inr x \<longleftrightarrow>
     drop_bit 48 i = 0 \<and> id_space x = s \<and> id_type x = t \<and> id_instance x = i"
proof
  assume "mk_object_id s t i = Inr x"
  then have d: "drop_bit 48 i = 0"
    and x: "number x = push_bit 56 (ucast s) OR push_bit 48 (ucast t) OR i"
    by (auto simp: mk_object_id_def)
  show "drop_bit 48 i = 0 \<and> id_space x = s \<and> id_type x = t \<and> id_instance x = i"
    by (simp only: id_space_def id_type_def id_instance_def x unpack_space [OF d] unpack_type [OF d]
        unpack_instance [OF d] d)
next
  assume r: "drop_bit 48 i = 0 \<and> id_space x = s \<and> id_type x = t \<and> id_instance x = i"
  have "number x = push_bit 56 (ucast (id_space x)) OR push_bit 48 (ucast (id_type x)) OR id_instance x"
    unfolding id_space_def id_type_def id_instance_def byte_mask max_instance_mask
  proof (rule bit_word_eqI)
    fix n
    assume n: "n < LENGTH(64)"
    consider "n < 48" | "48 \<le> n" "n < 56" | "56 \<le> n" by linarith
    then show "bit (number x) n = bit (push_bit 56 (ucast (ucast (drop_bit 56 (number x)) :: 8 word)) OR
        push_bit 48 (ucast (ucast (drop_bit 48 (number x) AND mask 8) :: 8 word)) OR
        number x AND mask 48) n"
      using n by cases (auto simp: bit_simps dest: bit_imp_le_length)
  qed
  with r show "mk_object_id s t i = Inr x" by (simp add: mk_object_id_def)
qed

end
