(* ===== verification/Object_Index.thy ===== *)
theory Object_Index
  imports Prelude
begin

text \<open>
  The object indexes of \<^verbatim>\<open>db/index.hpp\<close> and \<^verbatim>\<open>db/generic_index.hpp\<close>. An index holds the objects
  of one (space, type) pair by instance number, and the next instance to hand out. The unique
  secondary keys of the \<^verbatim>\<open>boost::multi_index\<close> container enter as \<open>clash\<close>: two objects clash
  when some unique key of theirs is equal. An insertion that clashes is refused; a modification
  that clashes fails and, as in \<^verbatim>\<open>multi_index\<close>, the container drops the modified element.
\<close>

record 'o index =
  next_id :: nat
  objects :: "(nat \<times> 'o) list"

definition empty_index :: "'o index" where
  "empty_index = \<lparr>next_id = 0, objects = []\<rparr>"

definition index_find :: "'o index \<Rightarrow> nat \<Rightarrow> 'o option" where
  "index_find ix i = map_of (objects ix) i"

definition index_get :: "'o index \<Rightarrow> nat \<Rightarrow> 'o result" where
  "index_get ix i = of_option Not_found (index_find ix i)"

definition clashes :: "('o \<Rightarrow> 'o \<Rightarrow> bool) \<Rightarrow> 'o index \<Rightarrow> nat \<Rightarrow> 'o \<Rightarrow> bool" where
  "clashes clash ix i ob = list_ex (\<lambda>(j, q). j \<noteq> i \<and> clash q ob) (objects ix)"

definition index_insert :: "('o \<Rightarrow> 'o \<Rightarrow> bool) \<Rightarrow> nat \<Rightarrow> 'o \<Rightarrow> 'o index \<Rightarrow> 'o index result" where
  "index_insert clash i ob ix =
     require (index_find ix i = None \<and> \<not> clashes clash ix i ob) Assert_failed
       (Inr (ix\<lparr>objects := objects ix @ [(i, ob)]\<rparr>))"

definition use_next_id :: "'o index \<Rightarrow> 'o index" where
  "use_next_id ix = ix\<lparr>next_id := next_id ix + 1\<rparr>"

definition set_next_id :: "nat \<Rightarrow> 'o index \<Rightarrow> 'o index" where
  "set_next_id i ix = ix\<lparr>next_id := i\<rparr>"

definition index_create ::
  "('o \<Rightarrow> 'o \<Rightarrow> bool) \<Rightarrow> (nat \<Rightarrow> 'o result) \<Rightarrow> 'o index \<Rightarrow> (nat \<times> 'o index) result" where
  "index_create clash constructor ix =
     rbind (constructor (next_id ix)) (\<lambda>item.
     rbind (index_insert clash (next_id ix) item ix) (\<lambda>ix'.
     Inr (next_id ix, use_next_id ix')))"

text \<open>The flag is false where the code throws; the index is what is left then.\<close>

definition index_modify ::
  "('o \<Rightarrow> 'o \<Rightarrow> bool) \<Rightarrow> nat \<Rightarrow> ('o \<Rightarrow> 'o) \<Rightarrow> 'o index \<Rightarrow> 'o index \<times> bool" where
  "index_modify clash i m ix =
     (case index_find ix i of
        None \<Rightarrow> (ix, False)
      | Some ob \<Rightarrow>
          if clashes clash ix i (m ob)
          then (ix\<lparr>objects := AList.delete i (objects ix)\<rparr>, False)
          else (ix\<lparr>objects := AList.update i (m ob) (objects ix)\<rparr>, True))"

definition index_remove :: "nat \<Rightarrow> 'o index \<Rightarrow> 'o index result" where
  "index_remove i ix =
     require (index_find ix i \<noteq> None) Assert_failed
       (Inr (ix\<lparr>objects := AList.delete i (objects ix)\<rparr>))"

section \<open>Laws of an index\<close>

lemma index_find_simps [simp]:
  "index_find (ix\<lparr>next_id := n\<rparr>) = index_find ix"
  "index_find (ix\<lparr>objects := AList.delete i (objects ix)\<rparr>) = (index_find ix)(i := None)"
  "index_find (ix\<lparr>objects := AList.update i ob (objects ix)\<rparr>) = (index_find ix)(i \<mapsto> ob)"
  "index_find (use_next_id ix) = index_find ix"
  "index_find (set_next_id n ix) = index_find ix"
  "index_find empty_index = Map.empty"
  by (auto simp: index_find_def fun_eq_iff delete_conv' update_conv' use_next_id_def set_next_id_def
      empty_index_def)

lemma next_id_simps [simp]:
  "next_id (use_next_id ix) = next_id ix + 1" "next_id (set_next_id n ix) = n"
  by (simp_all add: use_next_id_def set_next_id_def)

lemma clashes_iff:
  "distinct (map fst (objects ix)) \<Longrightarrow>
     clashes clash ix i ob \<longleftrightarrow> (\<exists>j q. j \<noteq> i \<and> index_find ix j = Some q \<and> clash q ob)"
  by (auto simp: clashes_def list_ex_iff index_find_def)

definition index_ok :: "'o index \<Rightarrow> bool" where
  "index_ok ix \<longleftrightarrow> distinct (map fst (objects ix)) \<and> (\<forall>i ob. index_find ix i = Some ob \<longrightarrow> i < next_id ix)"

definition clash_free :: "('o \<Rightarrow> 'o \<Rightarrow> bool) \<Rightarrow> (nat \<rightharpoonup> 'o) \<Rightarrow> bool" where
  "clash_free clash M \<longleftrightarrow> (\<forall>i j a b. M i = Some a \<and> M j = Some b \<and> clash a b \<longrightarrow> i = j)"

text \<open>
  What users of an index rely on: lookups after each update, and that the well-formedness
  (unique instances, all below the next one) is kept.
\<close>

locale object_index =
  fixes clash :: "'o \<Rightarrow> 'o \<Rightarrow> bool"
    and find :: "'i \<Rightarrow> nat \<Rightarrow> 'o option"
    and next_instance :: "'i \<Rightarrow> nat"
    and ok :: "'i \<Rightarrow> bool"
    and create :: "(nat \<Rightarrow> 'o result) \<Rightarrow> 'i \<Rightarrow> (nat \<times> 'i) result"
    and modify :: "nat \<Rightarrow> ('o \<Rightarrow> 'o) \<Rightarrow> 'i \<Rightarrow> 'i \<times> bool"
    and remove :: "nat \<Rightarrow> 'i \<Rightarrow> 'i result"
  assumes create_law: "ok x \<Longrightarrow> create c x = Inr (i, y) \<Longrightarrow>
      i = next_instance x \<and> next_instance y = Suc i \<and> ok y \<and>
      (\<exists>ob. c i = Inr ob \<and> find y = (find x)(i \<mapsto> ob))"
    and modify_law: "ok x \<Longrightarrow> modify i m x = (y, True) \<Longrightarrow>
      ok y \<and> next_instance y = next_instance x \<and>
      (\<exists>ob. find x i = Some ob \<and> find y = (find x)(i \<mapsto> m ob))"
    and remove_law: "ok x \<Longrightarrow> remove i x = Inr y \<Longrightarrow>
      ok y \<and> next_instance y = next_instance x \<and> find x i \<noteq> None \<and> find y = (find x)(i := None)"
    and bound_law: "ok x \<Longrightarrow> find x i = Some ob \<Longrightarrow> i < next_instance x"
begin

lemma create_fresh: "ok x \<Longrightarrow> create c x = Inr (i, y) \<Longrightarrow> find x i = None"
  using create_law [of x c i y] bound_law [of x i] by (cases "find x i") auto

lemma create_keeps: "ok x \<Longrightarrow> create c x = Inr (i, y) \<Longrightarrow> find x j = Some ob \<Longrightarrow> find y j = Some ob"
  using create_law [of x c i y] create_fresh [of x c i y] by auto

lemma removed_id_not_reused:
  "ok x \<Longrightarrow> remove i x = Inr y \<Longrightarrow> create c y = Inr (j, z) \<Longrightarrow> j \<noteq> i"
  using remove_law [of x i y] create_law [of y c j z] bound_law [of x i] by (cases "find x i") auto

end

lemma index_insert_ok:
  assumes "index_ok ix" and "index_insert clash i ob ix = Inr iy"
  shows "index_find iy = (index_find ix)(i \<mapsto> ob)" "next_id iy = next_id ix"
    "distinct (map fst (objects iy))" "index_find ix i = None"
proof -
  have r: "iy = ix\<lparr>objects := objects ix @ [(i, ob)]\<rparr>" "map_of (objects ix) i = None"
    using assms(2) by (auto simp: index_insert_def index_find_def)
  then show "index_find iy = (index_find ix)(i \<mapsto> ob)"
    by (auto simp: index_find_def fun_eq_iff map_add_Some_iff map_add_def split: option.splits)
  show "next_id iy = next_id ix" "index_find ix i = None" using r by (simp_all add: index_find_def)
  show "distinct (map fst (objects iy))"
    using assms(1) r by (auto simp: index_ok_def map_of_eq_None_iff)
qed

interpretation gi: object_index clash index_find next_id index_ok "index_create clash" "index_modify clash" index_remove
  for clash :: "'o \<Rightarrow> 'o \<Rightarrow> bool"
proof unfold_locales
  fix x y :: "'o index" and c i
  assume ok: "index_ok x" and "index_create clash c x = Inr (i, y)"
  then obtain ob z where z: "c i = Inr ob" "index_insert clash i ob x = Inr z" "i = next_id x"
      "y = use_next_id z" by (auto simp: index_create_def)
  note Z = index_insert_ok [OF ok z(2)]
  have "index_ok y"
    using ok Z z by (auto simp: index_ok_def use_next_id_def less_Suc_eq split: if_splits)
  then show "i = next_id x \<and> next_id y = Suc i \<and> index_ok y \<and>
      (\<exists>ob. c i = Inr ob \<and> index_find y = (index_find x)(i \<mapsto> ob))"
    using Z z by simp
next
  fix x y :: "'o index" and i m
  assume "index_ok x" and "index_modify clash i m x = (y, True)"
  then show "index_ok y \<and> next_id y = next_id x \<and>
      (\<exists>ob. index_find x i = Some ob \<and> index_find y = (index_find x)(i \<mapsto> m ob))"
    by (auto simp: index_modify_def index_ok_def distinct_update split: option.splits if_splits)
next
  fix x y :: "'o index" and i
  assume "index_ok x" and "index_remove i x = Inr y"
  then show "index_ok y \<and> next_id y = next_id x \<and> index_find x i \<noteq> None \<and> index_find y = (index_find x)(i := None)"
    by (auto simp: index_remove_def index_ok_def distinct_delete split: if_splits)
next
  fix x :: "'o index" and i ob
  assume "index_ok x" and "index_find x i = Some ob"
  then show "i < next_id x" by (simp add: index_ok_def)
qed

end
