(* ===== verification/Undo_Database.thy ===== *)
theory Undo_Database
  imports Object_Index
begin

text \<open>
  The object database with its undo history: \<^verbatim>\<open>db/object_database.hpp\<close>,
  \<^verbatim>\<open>db/undo_database.hpp\<close> and \<^verbatim>\<open>db/undo_database.cpp\<close>.

  An object id is a pair of the index key (space, type) and the instance. The containers of an
  \<^verbatim>\<open>undo_state\<close> are association lists and an id list, and the loops over them are folds. The
  deque \<^verbatim>\<open>_stack\<close> is a list whose head is \<^verbatim>\<open>_stack.back()\<close>. \<open>U k\<close> is the clash relation of the
  index \<open>k\<close>. A modification whose callback throws halfway is a modification by what the callback
  did until then, followed by the throw: \<open>m\<close> is any function on objects.
\<close>

type_synonym index_key = "nat \<times> nat"
type_synonym object_id = "index_key \<times> nat"
type_synonym 'o uniqueness = "index_key \<Rightarrow> 'o \<Rightarrow> 'o \<Rightarrow> bool"
type_synonym 'o indexes = "index_key \<rightharpoonup> 'o index"

section \<open>State\<close>

record 'o undo_state =
  old_values :: "(object_id \<times> 'o) list"
  old_index_next_ids :: "(index_key \<times> nat) list"
  new_ids :: "object_id list"
  removed :: "(object_id \<times> 'o) list"

record 'o undo_database =
  active_sessions :: nat
  disabled :: bool
  stack :: "'o undo_state list"
  max_size :: nat

record session =
  apply_undo :: bool
  disable_on_exit :: bool

record 'o object_database =
  index_table :: "'o indexes"
  undo_db :: "'o undo_database"

definition empty_undo_state :: "'o undo_state" where
  "empty_undo_state = \<lparr>old_values = [], old_index_next_ids = [], new_ids = [], removed = []\<rparr>"

definition initial_undo_database :: "'o undo_database" where
  "initial_undo_database = \<lparr>active_sessions = 0, disabled = True, stack = [], max_size = 256\<rparr>"

section \<open>Recording changes\<close>

definition enable :: "'o undo_database \<Rightarrow> 'o undo_database" where
  "enable u = u\<lparr>disabled := False\<rparr>"

definition disable :: "'o undo_database \<Rightarrow> 'o undo_database" where
  "disable u = u\<lparr>disabled := True\<rparr>"

function pop_oldest :: "nat \<Rightarrow> 'o undo_state list \<Rightarrow> 'o undo_state list" where
  "pop_oldest n st = (if length st > n then pop_oldest n (butlast st) else st)"
  by pat_completeness auto
termination
  by (relation "measure (\<lambda>(n, st). length st)") auto

declare pop_oldest.simps [simp del]

definition start_undo_session :: "bool \<Rightarrow> 'o undo_database \<Rightarrow> session \<times> 'o undo_database" where
  "start_undo_session force_enable u =
     (if disabled u \<and> \<not> force_enable then (\<lparr>apply_undo = True, disable_on_exit = False\<rparr>, u)
      else
        let disable_on_exit' = (disabled u \<and> force_enable);
            u1 = (if force_enable then u\<lparr>disabled := False\<rparr> else u);
            u2 = u1\<lparr>stack := pop_oldest (max_size u1) (stack u1)\<rparr>;
            u3 = u2\<lparr>stack := empty_undo_state # stack u2\<rparr>;
            u4 = u3\<lparr>active_sessions := active_sessions u3 + 1\<rparr>
        in (\<lparr>apply_undo = True, disable_on_exit = disable_on_exit'\<rparr>, u4))"

definition with_head :: "('o undo_state \<Rightarrow> 'o undo_state) \<Rightarrow> 'o undo_database \<Rightarrow> 'o undo_database" where
  "with_head f u =
     (if disabled u then u
      else
        let st = (if stack u = [] then [empty_undo_state] else stack u)
        in u\<lparr>stack := f (hd st) # tl st\<rparr>)"

definition record_create :: "object_id \<Rightarrow> 'o undo_state \<Rightarrow> 'o undo_state" where
  "record_create oid s =
     (let s1 = (if map_of (old_index_next_ids s) (fst oid) = None
                then s\<lparr>old_index_next_ids := (fst oid, snd oid) # old_index_next_ids s\<rparr> else s)
      in s1\<lparr>new_ids := List.insert oid (new_ids s1)\<rparr>)"

definition record_modify :: "object_id \<Rightarrow> 'o \<Rightarrow> 'o undo_state \<Rightarrow> 'o undo_state" where
  "record_modify oid ob s =
     (if oid \<in> set (new_ids s) then s
      else if map_of (old_values s) oid \<noteq> None then s
      else s\<lparr>old_values := (oid, ob) # old_values s\<rparr>)"

definition record_remove :: "object_id \<Rightarrow> 'o \<Rightarrow> 'o undo_state \<Rightarrow> 'o undo_state" where
  "record_remove oid ob s =
     (if oid \<in> set (new_ids s) then s\<lparr>new_ids := removeAll oid (new_ids s)\<rparr>
      else case map_of (old_values s) oid of
        Some old \<Rightarrow> s\<lparr>removed := AList.update oid old (removed s),
                      old_values := AList.delete oid (old_values s)\<rparr>
      | None \<Rightarrow>
          if map_of (removed s) oid \<noteq> None then s
          else s\<lparr>removed := (oid, ob) # removed s\<rparr>)"

definition on_create :: "object_id \<Rightarrow> 'o undo_database \<Rightarrow> 'o undo_database" where
  "on_create oid = with_head (record_create oid)"

definition on_modify :: "object_id \<Rightarrow> 'o \<Rightarrow> 'o undo_database \<Rightarrow> 'o undo_database" where
  "on_modify oid ob = with_head (record_modify oid ob)"

definition on_remove :: "object_id \<Rightarrow> 'o \<Rightarrow> 'o undo_database \<Rightarrow> 'o undo_database" where
  "on_remove oid ob = with_head (record_remove oid ob)"

section \<open>Changing objects\<close>

definition get_index :: "'o indexes \<Rightarrow> index_key \<Rightarrow> 'o index result" where
  "get_index t k = of_option Assert_failed (t k)"

definition find_object :: "'o indexes \<Rightarrow> object_id \<Rightarrow> 'o option" where
  "find_object t oid = Option.bind (t (fst oid)) (\<lambda>ix. index_find ix (snd oid))"

definition db_create ::
  "'o uniqueness \<Rightarrow> index_key \<Rightarrow> (nat \<Rightarrow> 'o result) \<Rightarrow> 'o object_database \<Rightarrow> (object_id \<times> 'o object_database) result" where
  "db_create U k constructor db =
     rbind (get_index (index_table db) k) (\<lambda>ix.
     rbind (index_create (U k) constructor ix) (\<lambda>(i, ix').
     Inr ((k, i), db\<lparr>index_table := (index_table db)(k \<mapsto> ix'),
                     undo_db := on_create (k, i) (undo_db db)\<rparr>)))"

definition db_modify ::
  "'o uniqueness \<Rightarrow> object_id \<Rightarrow> ('o \<Rightarrow> 'o) \<Rightarrow> 'o object_database \<Rightarrow> 'o object_database result" where
  "db_modify U oid m db =
     rbind (get_index (index_table db) (fst oid)) (\<lambda>ix.
     rbind (index_get ix (snd oid)) (\<lambda>ob.
     let u = on_modify oid ob (undo_db db); r = index_modify (U (fst oid)) (snd oid) m ix
     in require (snd r) Assert_failed
          (Inr (db\<lparr>index_table := (index_table db)(fst oid \<mapsto> fst r), undo_db := u\<rparr>))))"

definition db_remove :: "object_id \<Rightarrow> 'o object_database \<Rightarrow> 'o object_database result" where
  "db_remove oid db =
     rbind (get_index (index_table db) (fst oid)) (\<lambda>ix.
     rbind (index_get ix (snd oid)) (\<lambda>ob.
     let u = on_remove oid ob (undo_db db)
     in rbind (index_remove (snd oid) ix) (\<lambda>ix'.
          Inr (db\<lparr>index_table := (index_table db)(fst oid \<mapsto> ix'), undo_db := u\<rparr>))))"

section \<open>Undoing a state\<close>

text \<open>Errors of the first two loops are caught and logged; what the failed call left stays.\<close>

definition restore_value :: "'o uniqueness \<Rightarrow> object_id \<times> 'o \<Rightarrow> 'o indexes \<Rightarrow> 'o indexes" where
  "restore_value U = (\<lambda>(oid, old) t.
     case t (fst oid) of
       None \<Rightarrow> t
     | Some ix \<Rightarrow> t(fst oid \<mapsto> fst (index_modify (U (fst oid)) (snd oid) (\<lambda>_. old) ix)))"

definition drop_new :: "object_id \<Rightarrow> 'o indexes \<Rightarrow> 'o indexes" where
  "drop_new oid t =
     (case t (fst oid) of
        None \<Rightarrow> t
      | Some ix \<Rightarrow> (case index_remove (snd oid) ix of Inl e \<Rightarrow> t | Inr ix' \<Rightarrow> t(fst oid \<mapsto> ix')))"

definition reset_next_id :: "index_key \<times> nat \<Rightarrow> 'o indexes result \<Rightarrow> 'o indexes result" where
  "reset_next_id = (\<lambda>(k, i) r.
     rbind r (\<lambda>t. rbind (get_index t k) (\<lambda>ix. Inr (t(k \<mapsto> set_next_id i ix)))))"

definition reinsert :: "'o uniqueness \<Rightarrow> object_id \<times> 'o \<Rightarrow> 'o indexes result \<Rightarrow> 'o indexes result" where
  "reinsert U = (\<lambda>(oid, ob) r.
     rbind r (\<lambda>t. rbind (get_index t (fst oid)) (\<lambda>ix.
       rbind (index_insert (U (fst oid)) (snd oid) ob ix) (\<lambda>ix'. Inr (t(fst oid \<mapsto> ix'))))))"

definition rollback :: "'o uniqueness \<Rightarrow> 'o undo_state \<Rightarrow> 'o indexes \<Rightarrow> 'o indexes result" where
  "rollback U s t =
     (let t1 = fold (restore_value U) (old_values s) t;
          t2 = fold drop_new (new_ids s) t1;
          r3 = fold reset_next_id (old_index_next_ids s) (Inr t2)
      in fold (reinsert U) (removed s) r3)"

definition undo :: "'o uniqueness \<Rightarrow> 'o object_database \<Rightarrow> 'o object_database result" where
  "undo U db =
     require (\<not> disabled (undo_db db)) Assert_failed
    (require (active_sessions (undo_db db) > 0) Assert_failed
    (case stack (undo_db db) of
       [] \<Rightarrow> Inl Assert_failed
     | s # rest \<Rightarrow>
         rbind (rollback U s (index_table db)) (\<lambda>t.
         Inr (db\<lparr>index_table := t,
                 undo_db := (undo_db db)\<lparr>stack := rest, disabled := False,
                                         active_sessions := active_sessions (undo_db db) - 1\<rparr>\<rparr>))))"

definition pop_commit :: "'o uniqueness \<Rightarrow> 'o object_database \<Rightarrow> 'o object_database result" where
  "pop_commit U db =
     require (active_sessions (undo_db db) = 0) Assert_failed
    (case stack (undo_db db) of
       [] \<Rightarrow> Inl Assert_failed
     | s # rest \<Rightarrow>
         rbind (rollback U s (index_table db)) (\<lambda>t.
         Inr (db\<lparr>index_table := t,
                 undo_db := (undo_db db)\<lparr>stack := rest, disabled := False\<rparr>\<rparr>)))"

section \<open>Merging and committing\<close>

definition merge_old :: "object_id \<times> 'o \<Rightarrow> 'o undo_state \<Rightarrow> 'o undo_state" where
  "merge_old = (\<lambda>(oid, ob) prev.
     if oid \<in> set (new_ids prev) then prev
     else if map_of (old_values prev) oid \<noteq> None then prev
     else prev\<lparr>old_values := (oid, ob) # old_values prev\<rparr>)"

definition merge_new :: "object_id \<Rightarrow> 'o undo_state \<Rightarrow> 'o undo_state" where
  "merge_new oid prev = prev\<lparr>new_ids := List.insert oid (new_ids prev)\<rparr>"

definition merge_next :: "index_key \<times> nat \<Rightarrow> 'o undo_state \<Rightarrow> 'o undo_state" where
  "merge_next = (\<lambda>(k, i) prev.
     if map_of (old_index_next_ids prev) k = None
     then prev\<lparr>old_index_next_ids := (k, i) # old_index_next_ids prev\<rparr> else prev)"

definition merge_removed :: "object_id \<times> 'o \<Rightarrow> 'o undo_state \<Rightarrow> 'o undo_state" where
  "merge_removed = (\<lambda>(oid, ob) prev.
     if oid \<in> set (new_ids prev) then prev\<lparr>new_ids := removeAll oid (new_ids prev)\<rparr>
     else case map_of (old_values prev) oid of
       Some old \<Rightarrow> prev\<lparr>removed := AList.update oid old (removed prev),
                        old_values := AList.delete oid (old_values prev)\<rparr>
     | None \<Rightarrow> prev\<lparr>removed := AList.update oid ob (removed prev)\<rparr>)"

definition merge_states :: "'o undo_state \<Rightarrow> 'o undo_state \<Rightarrow> 'o undo_state" where
  "merge_states prev s =
     fold merge_removed (removed s)
      (fold merge_next (old_index_next_ids s)
       (fold merge_new (new_ids s)
        (fold merge_old (old_values s) prev)))"

definition merge :: "'o undo_database \<Rightarrow> 'o undo_database result" where
  "merge u =
     require (active_sessions u > 0) Assert_failed
    (if active_sessions u = 1 \<and> length (stack u) = 1
     then Inr (u\<lparr>stack := [], active_sessions := active_sessions u - 1\<rparr>)
     else case stack u of
       s # prev # rest \<Rightarrow>
         Inr (u\<lparr>stack := merge_states prev s # rest, active_sessions := active_sessions u - 1\<rparr>)
     | _ \<Rightarrow> Inl Assert_failed)"

definition commit :: "'o undo_database \<Rightarrow> 'o undo_database result" where
  "commit u =
     require (active_sessions u > 0) Assert_failed
       (Inr (u\<lparr>active_sessions := active_sessions u - 1\<rparr>))"

section \<open>Sessions\<close>

definition session_commit :: "session \<times> 'o object_database \<Rightarrow> (session \<times> 'o object_database) result" where
  "session_commit = (\<lambda>(ss, db).
     rbind (commit (undo_db db)) (\<lambda>u. Inr (ss\<lparr>apply_undo := False\<rparr>, db\<lparr>undo_db := u\<rparr>)))"

definition session_undo :: "'o uniqueness \<Rightarrow> session \<times> 'o object_database \<Rightarrow> (session \<times> 'o object_database) result" where
  "session_undo U = (\<lambda>(ss, db).
     rbind (if apply_undo ss then undo U db else Inr db) (\<lambda>db'. Inr (ss\<lparr>apply_undo := False\<rparr>, db')))"

definition session_merge :: "session \<times> 'o object_database \<Rightarrow> (session \<times> 'o object_database) result" where
  "session_merge = (\<lambda>(ss, db).
     rbind (if apply_undo ss then rbind (merge (undo_db db)) (\<lambda>u. Inr (db\<lparr>undo_db := u\<rparr>)) else Inr db)
       (\<lambda>db'. Inr (ss\<lparr>apply_undo := False\<rparr>, db')))"

definition session_close :: "'o uniqueness \<Rightarrow> session \<times> 'o object_database \<Rightarrow> 'o object_database result" where
  "session_close U = (\<lambda>(ss, db).
     rbind (if apply_undo ss then undo U db else Inr db) (\<lambda>db'.
     Inr (if disable_on_exit ss then db'\<lparr>undo_db := disable (undo_db db')\<rparr> else db')))"

definition db_start_session :: "bool \<Rightarrow> 'o object_database \<Rightarrow> session \<times> 'o object_database" where
  "db_start_session force db =
     (let (ss, u) = start_undo_session force (undo_db db) in (ss, db\<lparr>undo_db := u\<rparr>))"

end
