(* ===== verification/Undo_Proofs.thy ===== *)
theory Undo_Proofs
  imports Undo_Database
begin

text \<open>
  Correctness of the undo history. The observable state of the object database is its \<open>view\<close>:
  the object behind every id and the next instance of every index. Each recorded \<open>undo_state\<close>
  describes an earlier view (\<open>rewind\<close>), so a database stands for its current view and a stack of
  snapshots; starting a session pushes the current view, undoing pops and restores it, merging
  drops the inner one, and no change in between touches a snapshot. The one thing the
  history relies on is that modifications leave the unique secondary keys of an object alone.
\<close>

type_synonym 'o view = "(object_id \<rightharpoonup> 'o) \<times> (index_key \<rightharpoonup> nat)"

definition nexts :: "'o indexes \<Rightarrow> index_key \<rightharpoonup> nat" where
  "nexts t k = map_option next_id (t k)"

definition view :: "'o indexes \<Rightarrow> 'o view" where
  "view t = (find_object t, nexts t)"

definition rewind :: "'o undo_state \<Rightarrow> 'o view \<Rightarrow> 'o view" where
  "rewind s V =
     (\<lambda>oid. if oid \<in> set (new_ids s) then None
            else case map_of (removed s) oid of
                   Some ob \<Rightarrow> Some ob
                 | None \<Rightarrow> (case map_of (old_values s) oid of Some ob \<Rightarrow> Some ob | None \<Rightarrow> fst V oid),
      \<lambda>k. case map_of (old_index_next_ids s) k of Some i \<Rightarrow> Some i | None \<Rightarrow> snd V k)"

definition same_key :: "('o \<Rightarrow> 'o \<Rightarrow> bool) \<Rightarrow> 'o \<Rightarrow> 'o \<Rightarrow> bool" where
  "same_key c a b \<longleftrightarrow> (\<forall>x. c x a = c x b \<and> c a x = c b x)"

definition clash_free_objects :: "'o uniqueness \<Rightarrow> (object_id \<rightharpoonup> 'o) \<Rightarrow> bool" where
  "clash_free_objects U M \<longleftrightarrow>
     (\<forall>k i j a b. M (k, i) = Some a \<and> M (k, j) = Some b \<and> U k a b \<longrightarrow> i = j)"

definition view_ok :: "'o uniqueness \<Rightarrow> 'o view \<Rightarrow> bool" where
  "view_ok U V \<longleftrightarrow> clash_free_objects U (fst V) \<and>
     (\<forall>oid ob. fst V oid = Some ob \<longrightarrow> (\<exists>n. snd V (fst oid) = Some n \<and> snd oid < n))"

definition state_wf :: "'o uniqueness \<Rightarrow> 'o undo_state \<Rightarrow> 'o view \<Rightarrow> bool" where
  "state_wf U s V \<longleftrightarrow>
     distinct (map fst (old_values s)) \<and> distinct (map fst (removed s)) \<and>
     distinct (map fst (old_index_next_ids s)) \<and>
     set (new_ids s) \<subseteq> dom (fst V) \<and> dom (map_of (old_values s)) \<subseteq> dom (fst V) \<and>
     dom (map_of (removed s)) \<inter> dom (fst V) = {} \<and>
     dom (map_of (old_values s)) \<inter> set (new_ids s) = {} \<and>
     (\<forall>k i. map_of (old_index_next_ids s) k = Some i \<longrightarrow> (\<exists>n. snd V k = Some n \<and> i \<le> n)) \<and>
     (\<forall>oid old ob. map_of (old_values s) oid = Some old \<and> fst V oid = Some ob \<longrightarrow>
        same_key (U (fst oid)) old ob) \<and>
     (\<forall>oid\<in>set (new_ids s). \<exists>i. map_of (old_index_next_ids s) (fst oid) = Some i \<and> i \<le> snd oid) \<and>
     view_ok U (rewind s V)"

fun stack_wf :: "'o uniqueness \<Rightarrow> 'o undo_state list \<Rightarrow> 'o view \<Rightarrow> bool" where
  "stack_wf U [] V = True"
| "stack_wf U (s # ss) V = (state_wf U s V \<and> stack_wf U ss (rewind s V))"

fun snapshots :: "'o undo_state list \<Rightarrow> 'o view \<Rightarrow> 'o view list" where
  "snapshots [] V = []"
| "snapshots (s # ss) V = rewind s V # snapshots ss (rewind s V)"

definition table_ok :: "'o indexes \<Rightarrow> bool" where
  "table_ok t \<longleftrightarrow> (\<forall>k ix. t k = Some ix \<longrightarrow> distinct (map fst (objects ix)))"

definition db_ok :: "'o uniqueness \<Rightarrow> 'o object_database \<Rightarrow> bool" where
  "db_ok U db \<longleftrightarrow> table_ok (index_table db) \<and> view_ok U (view (index_table db)) \<and>
     \<not> disabled (undo_db db) \<and> stack_wf U (stack (undo_db db)) (view (index_table db))"

section \<open>Lookups in an updated table\<close>

lemma find_object_update [simp]:
  "find_object (t(k \<mapsto> ix)) oid = (if fst oid = k then index_find ix (snd oid) else find_object t oid)"
  by (simp add: find_object_def)

lemma nexts_update [simp]: "nexts (t(k \<mapsto> ix)) = (nexts t)(k \<mapsto> next_id ix)"
  by (auto simp: nexts_def)

lemma table_okD: "table_ok t \<Longrightarrow> t k = Some ix \<Longrightarrow> distinct (map fst (objects ix))"
  by (simp add: table_ok_def del: split_paired_All)

lemma table_ok_update: "table_ok t \<Longrightarrow> distinct (map fst (objects ix)) \<Longrightarrow> table_ok (t(k \<mapsto> ix))"
  by (auto simp: table_ok_def)

lemma find_object_Some: "find_object t oid = Some ob \<longleftrightarrow> (\<exists>ix. t (fst oid) = Some ix \<and> index_find ix (snd oid) = Some ob)"
  by (auto simp: find_object_def bind_eq_Some_conv)

lemma nexts_Some: "nexts t k = Some n \<longleftrightarrow> (\<exists>ix. t k = Some ix \<and> next_id ix = n)"
  by (auto simp: nexts_def)

lemma clashes_table:
  assumes "table_ok t" and "t k = Some ix"
  shows "clashes (U k) ix i ob \<longleftrightarrow> (\<exists>j q. j \<noteq> i \<and> find_object t (k, j) = Some q \<and> U k q ob)"
  using assms(2) clashes_iff [OF table_okD [OF assms], of "U k" i ob] by (simp add: find_object_def)

lemma clash_free_update:
  assumes "clash_free_objects U M" and "M oid = Some ob" and "same_key (U (fst oid)) old ob"
  shows "clash_free_objects U (M(oid \<mapsto> old))"
proof -
  obtain k i where oid: "oid = (k, i)" by (cases oid)
  have c: "M (k, a) = Some x \<Longrightarrow> M (k, b) = Some y \<Longrightarrow> U k x y \<Longrightarrow> a = b" for k a b x y
    using assms(1) unfolding clash_free_objects_def by blast
  have key: "U k x old = U k x ob" "U k old x = U k ob x" for x
    using assms(3) oid by (simp_all add: same_key_def)
  show ?thesis
    unfolding clash_free_objects_def using assms(2) oid c key by (auto split: if_splits) blast+
qed

section \<open>Rolling back one state\<close>

lemma restore_value_step:
  assumes "table_ok t" and "clash_free_objects U (find_object t)"
    and "find_object t oid = Some ob" and "same_key (U (fst oid)) old ob"
  shows "find_object (restore_value U (oid, old) t) = (find_object t)(oid \<mapsto> old)"
    and "nexts (restore_value U (oid, old) t) = nexts t"
    and "table_ok (restore_value U (oid, old) t)"
    and "clash_free_objects U (find_object (restore_value U (oid, old) t))"
proof -
  obtain k i where oid: "oid = (k, i)" by (cases oid)
  obtain ix where ix: "t k = Some ix" "index_find ix i = Some ob"
    using assms(3) oid by (auto simp: find_object_Some)
  have "\<not> clashes (U k) ix i old"
    using assms(2-4) oid unfolding clashes_table [OF assms(1) ix(1)] clash_free_objects_def same_key_def
    by (metis fst_conv)
  then have r: "restore_value U (oid, old) t = t(k \<mapsto> ix\<lparr>objects := AList.update i old (objects ix)\<rparr>)"
    using ix oid by (simp add: restore_value_def index_modify_def)
  show f: "find_object (restore_value U (oid, old) t) = (find_object t)(oid \<mapsto> old)"
    using ix oid unfolding r by (auto simp: fun_eq_iff find_object_def)
  show "nexts (restore_value U (oid, old) t) = nexts t"
    using ix unfolding r by (auto simp: fun_eq_iff nexts_def)
  show "table_ok (restore_value U (oid, old) t)"
    using assms(1) table_okD [OF assms(1) ix(1)] unfolding r
    by (intro table_ok_update) (simp_all add: distinct_update)
  show "clash_free_objects U (find_object (restore_value U (oid, old) t))"
    unfolding f using clash_free_update [OF assms(2-4)] .
qed

lemma restore_values:
  assumes "table_ok t" and "clash_free_objects U (find_object t)" and "distinct (map fst xs)"
    and "\<And>oid old. (oid, old) \<in> set xs \<Longrightarrow> \<exists>ob. find_object t oid = Some ob \<and> same_key (U (fst oid)) old ob"
  shows "find_object (fold (restore_value U) xs t) = (find_object t) ++ map_of xs \<and>
     nexts (fold (restore_value U) xs t) = nexts t \<and> table_ok (fold (restore_value U) xs t)"
  using assms
proof (induction xs arbitrary: t)
  case Nil
  then show ?case by simp
next
  case (Cons x xs)
  obtain oid old where x: "x = (oid, old)" by (cases x)
  obtain ob where ob: "find_object t oid = Some ob" "same_key (U (fst oid)) old ob"
    using Cons.prems(4) [of oid old] x by auto
  note S = restore_value_step [OF Cons.prems(1,2) ob]
  have "find_object (fold (restore_value U) xs (restore_value U (oid, old) t)) =
      (find_object (restore_value U (oid, old) t)) ++ map_of xs \<and>
     nexts (fold (restore_value U) xs (restore_value U (oid, old) t)) = nexts (restore_value U (oid, old) t) \<and>
     table_ok (fold (restore_value U) xs (restore_value U (oid, old) t))"
  proof (rule Cons.IH [OF S(3,4)])
    show "distinct (map fst xs)" using Cons.prems(3) by simp
    fix oid' old'
    assume "(oid', old') \<in> set xs"
    moreover from this have "oid' \<noteq> oid" using Cons.prems(3) x by force
    ultimately show "\<exists>ob. find_object (restore_value U (oid, old) t) oid' = Some ob \<and> same_key (U (fst oid')) old' ob"
      using Cons.prems(4) [of oid' old'] by (simp add: S(1))
  qed
  moreover have "((find_object t)(oid \<mapsto> old)) ++ map_of xs = find_object t ++ map_of (x # xs)"
    unfolding x by (rule map_add_Cons_update) (use Cons.prems(3) x in simp)
  moreover have "fold (restore_value U) (x # xs) t = fold (restore_value U) xs (restore_value U (oid, old) t)"
    using x by simp
  ultimately show ?case unfolding S(1,2) by metis
qed

lemma drop_new_step:
  "find_object (drop_new oid t) = (find_object t)(oid := None)"
  "nexts (drop_new oid t) = nexts t"
  "table_ok t \<Longrightarrow> table_ok (drop_new oid t)"
  by (cases oid; auto simp: drop_new_def index_remove_def require_def fun_eq_iff find_object_def nexts_def
      intro!: table_ok_update distinct_delete dest: table_okD split: option.splits)+

lemma drop_news:
  "find_object (fold drop_new xs t) = (find_object t) |` (- set xs) \<and>
   nexts (fold drop_new xs t) = nexts t \<and> (table_ok t \<longrightarrow> table_ok (fold drop_new xs t))"
proof (induction xs arbitrary: t)
  case Nil
  then show ?case by (simp add: fun_eq_iff restrict_map_def)
next
  case (Cons x xs)
  then show ?case by (auto simp: drop_new_step fun_eq_iff restrict_map_def)
qed

lemma reset_next_ids:
  assumes "distinct (map fst xs)" and "\<And>k i. (k, i) \<in> set xs \<Longrightarrow> t k \<noteq> None"
  shows "\<exists>t'. fold reset_next_id xs (Inr t) = Inr t' \<and> find_object t' = find_object t \<and>
     nexts t' = nexts t ++ map_of xs \<and> (table_ok t \<longrightarrow> table_ok t')"
  using assms
proof (induction xs arbitrary: t)
  case Nil
  then show ?case by simp
next
  case (Cons x xs)
  obtain k i where x: "x = (k, i)" by (cases x)
  obtain ix where ix: "t k = Some ix" using Cons.prems(2) [of k i] x by auto
  let ?t = "t(k \<mapsto> set_next_id i ix)"
  have "\<exists>t'. fold reset_next_id xs (Inr ?t) = Inr t' \<and> find_object t' = find_object ?t \<and>
     nexts t' = nexts ?t ++ map_of xs \<and> (table_ok ?t \<longrightarrow> table_ok t')"
  proof (rule Cons.IH)
    show "distinct (map fst xs)" using Cons.prems(1) by simp
    show "?t k' \<noteq> None" if "(k', i') \<in> set xs" for k' i'
      using Cons.prems(2) [of k' i'] that by simp
  qed
  then obtain t' where t': "fold reset_next_id xs (Inr ?t) = Inr t'" "find_object t' = find_object ?t"
      "nexts t' = nexts ?t ++ map_of xs" "table_ok ?t \<longrightarrow> table_ok t'"
    by blast
  have "nexts ?t ++ map_of xs = nexts t ++ map_of (x # xs)"
    unfolding x nexts_update next_id_simps by (rule map_add_Cons_update) (use Cons.prems(1) x in simp)
  moreover have "find_object ?t = find_object t" using ix by (auto simp: fun_eq_iff find_object_def)
  moreover have "table_ok ?t" if "table_ok t"
    using table_ok_update [OF that] table_okD [OF that ix] by (simp add: set_next_id_def)
  moreover have "fold reset_next_id (x # xs) (Inr t) = fold reset_next_id xs (Inr ?t)"
    using x ix by (simp add: reset_next_id_def get_index_def)
  ultimately show ?case using t' by metis
qed

lemma reinsert_step:
  assumes "table_ok t" and "t (fst oid) \<noteq> None" and "find_object t oid = None"
    and "\<And>j q. find_object t (fst oid, j) = Some q \<Longrightarrow> \<not> U (fst oid) q ob"
  shows "\<exists>t'. reinsert U (oid, ob) (Inr t) = Inr t' \<and> find_object t' = (find_object t)(oid \<mapsto> ob) \<and>
     nexts t' = nexts t \<and> table_ok t' \<and> (\<forall>k. t k \<noteq> None \<longrightarrow> t' k \<noteq> None)"
proof -
  obtain k i where oid: "oid = (k, i)" by (cases oid)
  obtain ix where ix: "t k = Some ix" using assms(2) oid by auto
  have "\<not> clashes (U k) ix i ob"
    using assms(4) oid unfolding clashes_table [OF assms(1) ix] by auto
  moreover have none: "index_find ix i = None" using assms(3) oid ix by (simp add: find_object_def)
  ultimately have r: "reinsert U (oid, ob) (Inr t) = Inr (t(k \<mapsto> ix\<lparr>objects := objects ix @ [(i, ob)]\<rparr>))"
    using oid ix by (simp add: reinsert_def get_index_def index_insert_def)
  have "find_object (t(k \<mapsto> ix\<lparr>objects := objects ix @ [(i, ob)]\<rparr>)) = (find_object t)(oid \<mapsto> ob)"
    using oid ix none by (auto simp: fun_eq_iff find_object_def index_find_def map_add_def split: option.splits)
  moreover have "nexts (t(k \<mapsto> ix\<lparr>objects := objects ix @ [(i, ob)]\<rparr>)) = nexts t"
    using ix by (auto simp: fun_eq_iff nexts_def)
  moreover have "table_ok (t(k \<mapsto> ix\<lparr>objects := objects ix @ [(i, ob)]\<rparr>))"
    using none table_okD [OF assms(1) ix]
    by (intro table_ok_update assms(1)) (auto simp: index_find_def map_of_eq_None_iff)
  ultimately show ?thesis using r by auto
qed

lemma reinserts:
  assumes "table_ok t" and "distinct (map fst xs)" and "clash_free_objects U (find_object t ++ map_of xs)"
    and "\<And>oid ob. (oid, ob) \<in> set xs \<Longrightarrow> find_object t oid = None \<and> t (fst oid) \<noteq> None"
  shows "\<exists>t'. fold (reinsert U) xs (Inr t) = Inr t' \<and> find_object t' = find_object t ++ map_of xs \<and>
     nexts t' = nexts t \<and> table_ok t'"
  using assms
proof (induction xs arbitrary: t)
  case Nil
  then show ?case by simp
next
  case (Cons x xs)
  obtain oid ob where x: "x = (oid, ob)" by (cases x)
  let ?F = "find_object t ++ map_of (x # xs)"
  have dom_xs: "find_object t o' = Some q \<Longrightarrow> ?F o' = Some q" for o' q
    using Cons.prems(4) [of o'] map_of_SomeD [of "x # xs" o']
    by (cases "map_of (x # xs) o'") (auto simp: map_add_def)
  have oid_F: "?F oid = Some ob" using x by simp
  have "\<not> U (fst oid) q ob" if "find_object t (fst oid, j) = Some q" for j q
  proof
    assume "U (fst oid) q ob"
    then have "j = snd oid"
      using Cons.prems(3) dom_xs [OF that] oid_F unfolding clash_free_objects_def
      by (metis prod.collapse)
    then show False using that Cons.prems(4) [of oid ob] x by simp
  qed
  then obtain t1 where t1: "reinsert U (oid, ob) (Inr t) = Inr t1" "find_object t1 = (find_object t)(oid \<mapsto> ob)"
      "nexts t1 = nexts t" "table_ok t1" "\<And>k. t k \<noteq> None \<Longrightarrow> t1 k \<noteq> None"
    using reinsert_step [OF Cons.prems(1), of oid U ob] Cons.prems(4) [of oid ob] x by auto
  have F: "find_object t1 ++ map_of xs = ?F"
    unfolding t1 x by (rule map_add_Cons_update) (use Cons.prems(2) x in simp)
  have "\<exists>t'. fold (reinsert U) xs (Inr t1) = Inr t' \<and> find_object t' = find_object t1 ++ map_of xs \<and>
     nexts t' = nexts t1 \<and> table_ok t'"
  proof (rule Cons.IH [OF t1(4)])
    show "distinct (map fst xs)" using Cons.prems(2) by simp
    show "clash_free_objects U (find_object t1 ++ map_of xs)" unfolding F by (rule Cons.prems(3))
    fix o' ob'
    assume o': "(o', ob') \<in> set xs"
    then have "o' \<noteq> oid" using Cons.prems(2) x by force
    then show "find_object t1 o' = None \<and> t1 (fst o') \<noteq> None"
      using o' Cons.prems(4) [of o' ob'] t1(2,5) by simp
  qed
  moreover have "fold (reinsert U) (x # xs) (Inr t) = fold (reinsert U) xs (Inr t1)"
    using x t1(1) by simp
  ultimately show ?case using F t1(3) by metis
qed

lemma rollback_correct:
  assumes "table_ok t" and "clash_free_objects U (find_object t)" and "state_wf U s (view t)"
  shows "\<exists>t'. rollback U s t = Inr t' \<and> view t' = rewind s (view t) \<and> table_ok t'"
proof -
  let ?old = "map_of (old_values s)" and ?rem = "map_of (removed s)" and ?new = "set (new_ids s)"
  have wf: "distinct (map fst (old_values s))" "distinct (map fst (removed s))"
      "distinct (map fst (old_index_next_ids s))" "dom ?rem \<inter> dom (find_object t) = {}"
      "dom ?old \<subseteq> dom (find_object t)" "?new \<subseteq> dom (find_object t)" "view_ok U (rewind s (view t))"
    and key: "\<And>oid old ob. ?old oid = Some old \<Longrightarrow> find_object t oid = Some ob \<Longrightarrow> same_key (U (fst oid)) old ob"
    and nxt: "\<And>k i. map_of (old_index_next_ids s) k = Some i \<Longrightarrow> \<exists>n. nexts t k = Some n \<and> i \<le> n"
    using assms(3) unfolding state_wf_def view_def fst_conv snd_conv by blast+
  define t1 where "t1 = fold (restore_value U) (old_values s) t"
  have t1: "find_object t1 = find_object t ++ ?old" "nexts t1 = nexts t" "table_ok t1"
    using restore_values [OF assms(1,2) wf(1)] key wf(1,5) unfolding t1_def
    by (metis (no_types, lifting) domD domI map_of_eq_Some_iff subsetD)+
  define t2 where "t2 = fold drop_new (new_ids s) t1"
  have t2: "find_object t2 = (find_object t ++ ?old) |` (- ?new)" "nexts t2 = nexts t" "table_ok t2"
    using drop_news [of "new_ids s" t1] t1 unfolding t2_def by auto
  have in_t2: "t2 k \<noteq> None" if "nexts t k \<noteq> None" for k
    using that unfolding t2(2) [symmetric] by (simp add: nexts_def)
  have "t2 k \<noteq> None" if "(k, i) \<in> set (old_index_next_ids s)" for k i
    using nxt [of k i] that wf(3) by (intro in_t2) auto
  then obtain t3 where t3: "fold reset_next_id (old_index_next_ids s) (Inr t2) = Inr t3"
      "find_object t3 = find_object t2" "nexts t3 = nexts t ++ map_of (old_index_next_ids s)" "table_ok t3"
    using reset_next_ids [OF wf(3), of t2] t2 by auto
  have objs: "find_object t3 ++ ?rem = fst (rewind s (view t))"
    using wf(4,6) unfolding t3 t2 rewind_def view_def fst_conv
    by (auto simp: fun_eq_iff map_add_def restrict_map_def split: option.splits)
  have nxts: "nexts t3 = snd (rewind s (view t))"
    unfolding t3 rewind_def view_def by (auto simp: fun_eq_iff map_add_def split: option.splits)
  have "find_object t3 oid = None \<and> t3 (fst oid) \<noteq> None" if "(oid, ob) \<in> set (removed s)" for oid ob
  proof -
    have r: "?rem oid = Some ob" using that wf(2) by simp
    then have n: "find_object t oid = None" using wf(4) by auto
    then have n': "find_object t3 oid = None" using wf(5) unfolding t3 t2
      by (auto simp: map_add_def restrict_map_def split: option.splits)
    have "fst (rewind s (view t)) oid = Some ob" unfolding objs [symmetric] using r by simp
    then obtain n where "snd (rewind s (view t)) (fst oid) = Some n"
      using wf(7) unfolding view_ok_def by blast
    then show ?thesis using n' nxts by (metis (mono_tags, lifting) map_option_is_None nexts_def option.distinct(1))
  qed
  moreover have "clash_free_objects U (find_object t3 ++ ?rem)"
    using wf(7) unfolding objs view_ok_def by blast
  ultimately obtain t4 where "fold (reinsert U) (removed s) (Inr t3) = Inr t4"
      "find_object t4 = find_object t3 ++ ?rem" "nexts t4 = nexts t3" "table_ok t4"
    using reinserts [OF t3(4) wf(2)] by metis
  then show ?thesis
    using t3(1) objs nxts unfolding rollback_def Let_def t1_def t2_def view_def
    by (metis prod.collapse)
qed

section \<open>Recording keeps the snapshots\<close>

lemma state_wfD:
  assumes "state_wf U s V"
  shows "distinct (map fst (old_values s))" "distinct (map fst (removed s))"
    "distinct (map fst (old_index_next_ids s))" "set (new_ids s) \<subseteq> dom (fst V)"
    "dom (map_of (old_values s)) \<subseteq> dom (fst V)" "dom (map_of (removed s)) \<inter> dom (fst V) = {}"
    "dom (map_of (old_values s)) \<inter> set (new_ids s) = {}" "view_ok U (rewind s V)"
    and "\<And>k i. map_of (old_index_next_ids s) k = Some i \<Longrightarrow> \<exists>n. snd V k = Some n \<and> i \<le> n"
    and "\<And>oid old ob. map_of (old_values s) oid = Some old \<Longrightarrow> fst V oid = Some ob \<Longrightarrow> same_key (U (fst oid)) old ob"
    and "\<And>oid. oid \<in> set (new_ids s) \<Longrightarrow> \<exists>i. map_of (old_index_next_ids s) (fst oid) = Some i \<and> i \<le> snd oid"
  using assms unfolding state_wf_def by blast+

lemma state_wfI:
  assumes "distinct (map fst (old_values s))" "distinct (map fst (removed s))"
    "distinct (map fst (old_index_next_ids s))" "set (new_ids s) \<subseteq> dom (fst V)"
    "dom (map_of (old_values s)) \<subseteq> dom (fst V)" "dom (map_of (removed s)) \<inter> dom (fst V) = {}"
    "dom (map_of (old_values s)) \<inter> set (new_ids s) = {}" "view_ok U (rewind s V)"
    and "\<And>k i. map_of (old_index_next_ids s) k = Some i \<Longrightarrow> \<exists>n. snd V k = Some n \<and> i \<le> n"
    and "\<And>oid old ob. map_of (old_values s) oid = Some old \<Longrightarrow> fst V oid = Some ob \<Longrightarrow> same_key (U (fst oid)) old ob"
    and "\<And>oid. oid \<in> set (new_ids s) \<Longrightarrow> \<exists>i. map_of (old_index_next_ids s) (fst oid) = Some i \<and> i \<le> snd oid"
  shows "state_wf U s V"
  using assms unfolding state_wf_def by blast

lemma same_key_refl [simp]: "same_key c a a"
  by (simp add: same_key_def)

lemma same_key_trans: "same_key c a b \<Longrightarrow> same_key c b d \<Longrightarrow> same_key c a d"
  by (simp add: same_key_def)

lemma removed_below_next:
  assumes "state_wf U s V" and "map_of (removed s) oid = Some ob"
  shows "\<exists>n. snd V (fst oid) = Some n \<and> snd oid < n"
proof -
  have "oid \<notin> set (new_ids s)" using state_wfD(4,6) [OF assms(1)] assms(2) by blast
  then have "fst (rewind s V) oid = Some ob" using assms(2) by (simp add: rewind_def)
  then obtain i where i: "snd (rewind s V) (fst oid) = Some i" "snd oid < i"
    using state_wfD(8) [OF assms(1)] unfolding view_ok_def by blast
  then show ?thesis
    using state_wfD(9) [OF assms(1), of "fst oid"]
    by (cases "map_of (old_index_next_ids s) (fst oid)") (auto simp: rewind_def)
qed

lemma record_create_wf:
  fixes ob :: 'o
  assumes wf: "state_wf U s (M, N)" and n: "N (fst oid) = Some (snd oid)" and new: "M oid = None"
  defines "V \<equiv> (M(oid \<mapsto> ob), N(fst oid \<mapsto> Suc (snd oid)))"
  shows "rewind (record_create oid s) V = rewind s (M, N)"
    and "state_wf U (record_create oid s) V"
proof -
  note W = state_wfD [OF wf, unfolded fst_conv snd_conv]
  have fresh: "map_of (removed s) oid = None"
    using removed_below_next [OF wf, of oid] n by (cases "map_of (removed s) oid") auto
  have none: "map_of (old_values s) oid = None" "oid \<notin> set (new_ids s)"
    using W(4,5) new by (auto dest: domI)
  show r: "rewind (record_create oid s) V = rewind s (M, N)"
    using fresh none n new unfolding rewind_def V_def record_create_def Let_def
    by (auto simp: fun_eq_iff split: option.splits)
  show "state_wf U (record_create oid s) V"
  proof (rule state_wfI)
    show "\<exists>i. map_of (old_index_next_ids (record_create oid s)) (fst o') = Some i \<and> i \<le> snd o'" if "o' \<in> set (new_ids (record_create oid s))" for o'
      using that W(11) [of o'] W(9) [of "fst oid"] n by (auto simp: record_create_def Let_def split: if_splits)
    show "view_ok U (rewind (record_create oid s) V)" unfolding r by (rule W(8))
    show "dom (map_of (removed (record_create oid s))) \<inter> dom (fst V) = {}"
      using W(6) fresh by (auto simp: record_create_def V_def)
    show "\<exists>m. snd V k = Some m \<and> i \<le> m" if "map_of (old_index_next_ids (record_create oid s)) k = Some i" for k i
      using that W(9) [of k i] n by (auto simp: record_create_def V_def split: if_splits)
    show "same_key (U (fst o')) old ob'" if "map_of (old_values (record_create oid s)) o' = Some old" "fst V o' = Some ob'" for o' old ob'
      using that W(10) [of o' old ob'] none by (auto simp: record_create_def V_def split: if_splits)
    show "set (new_ids (record_create oid s)) \<subseteq> dom (fst V)"
      using W(4) by (auto simp: record_create_def V_def)
    show "dom (map_of (old_values (record_create oid s))) \<subseteq> dom (fst V)"
      using W(5) by (auto simp: record_create_def V_def)
    show "dom (map_of (old_values (record_create oid s))) \<inter> set (new_ids (record_create oid s)) = {}"
      using W(7) none by (auto simp: record_create_def)
    show "distinct (map fst (old_index_next_ids (record_create oid s)))"
      using W(3) by (auto simp: record_create_def Let_def map_of_eq_None_iff)
  qed (use W(1,2) in \<open>simp_all add: record_create_def Let_def\<close>)
qed

lemma record_modify_wf:
  assumes wf: "state_wf U s (M, N)" and ob: "M oid = Some ob" and key: "same_key (U (fst oid)) ob ob'"
  shows "rewind (record_modify oid ob s) (M(oid \<mapsto> ob'), N) = rewind s (M, N)"
    and "state_wf U (record_modify oid ob s) (M(oid \<mapsto> ob'), N)"
proof -
  note W = state_wfD [OF wf, unfolded fst_conv snd_conv]
  have fresh: "map_of (removed s) oid = None" using W(6) ob by auto
  show r: "rewind (record_modify oid ob s) (M(oid \<mapsto> ob'), N) = rewind s (M, N)"
    using fresh ob unfolding rewind_def record_modify_def
    by (auto simp: fun_eq_iff split: option.splits)
  show "state_wf U (record_modify oid ob s) (M(oid \<mapsto> ob'), N)"
  proof (rule state_wfI)
    show "\<exists>i. map_of (old_index_next_ids (record_modify oid ob s)) (fst o') = Some i \<and> i \<le> snd o'" if "o' \<in> set (new_ids (record_modify oid ob s))" for o'
      using that W(11) [of o'] by (auto simp: record_modify_def Let_def split: if_splits)
    show "view_ok U (rewind (record_modify oid ob s) (M(oid \<mapsto> ob'), N))" unfolding r by (rule W(8))
    show "same_key (U (fst o')) old q" if "map_of (old_values (record_modify oid ob s)) o' = Some old"
        "fst (M(oid \<mapsto> ob'), N) o' = Some q" for o' old q
      using that W(10) [of o' old] ob key same_key_trans [of "U (fst o')" old ob ob']
      by (auto simp: record_modify_def split: if_splits)
    show "dom (map_of (removed (record_modify oid ob s))) \<inter> dom (fst (M(oid \<mapsto> ob'), N)) = {}"
      using W(6) fresh by (auto simp: record_modify_def)
    show "set (new_ids (record_modify oid ob s)) \<subseteq> dom (fst (M(oid \<mapsto> ob'), N))"
      using W(4) by (auto simp: record_modify_def)
    show "dom (map_of (old_values (record_modify oid ob s))) \<subseteq> dom (fst (M(oid \<mapsto> ob'), N))"
      using W(5) by (auto simp: record_modify_def)
    show "dom (map_of (old_values (record_modify oid ob s))) \<inter> set (new_ids (record_modify oid ob s)) = {}"
      using W(7) by (auto simp: record_modify_def)
    show "distinct (map fst (old_values (record_modify oid ob s)))"
      using W(1) by (auto simp: record_modify_def map_of_eq_None_iff)
    show "\<exists>m. snd (M(oid \<mapsto> ob'), N) k = Some m \<and> i \<le> m" if "map_of (old_index_next_ids (record_modify oid ob s)) k = Some i" for k i
      using that W(9) [of k i] by (auto simp: record_modify_def split: if_splits)
  qed (use W(2,3) in \<open>simp_all add: record_modify_def\<close>)
qed

lemma record_remove_wf:
  assumes wf: "state_wf U s (M, N)" and ob: "M oid = Some ob"
  shows "rewind (record_remove oid ob s) (M(oid := None), N) = rewind s (M, N)"
    and "state_wf U (record_remove oid ob s) (M(oid := None), N)"
proof -
  note W = state_wfD [OF wf, unfolded fst_conv snd_conv]
  note upd = update_conv' delete_conv'
  have fresh: "map_of (removed s) oid = None" using W(6) ob by auto
  have new_old: "oid \<in> set (new_ids s) \<Longrightarrow> map_of (old_values s) oid = None"
    using W(7) by auto
  show r: "rewind (record_remove oid ob s) (M(oid := None), N) = rewind s (M, N)"
    using fresh ob new_old unfolding rewind_def record_remove_def
    by (auto simp: fun_eq_iff upd split: option.splits)
  show "state_wf U (record_remove oid ob s) (M(oid := None), N)"
  proof (rule state_wfI)
    show "\<exists>i. map_of (old_index_next_ids (record_remove oid ob s)) (fst o') = Some i \<and> i \<le> snd o'" if "o' \<in> set (new_ids (record_remove oid ob s))" for o'
      using that W(11) [of o'] by (auto simp: record_remove_def Let_def split: if_splits option.splits)
    show "view_ok U (rewind (record_remove oid ob s) (M(oid := None), N))" unfolding r by (rule W(8))
    show "same_key (U (fst o')) old q" if "map_of (old_values (record_remove oid ob s)) o' = Some old"
        "fst (M(oid := None), N) o' = Some q" for o' old q
      using that W(10) [of o' old q]
      by (auto simp: record_remove_def upd split: if_splits option.splits)
    show "dom (map_of (removed (record_remove oid ob s))) \<inter> dom (fst (M(oid := None), N)) = {}"
      using W(6) by (auto simp: record_remove_def upd split: option.splits)
    show "set (new_ids (record_remove oid ob s)) \<subseteq> dom (fst (M(oid := None), N))"
      using W(4) by (auto simp: record_remove_def split: option.splits)
    show "dom (map_of (old_values (record_remove oid ob s))) \<subseteq> dom (fst (M(oid := None), N))"
      using W(5) new_old by (auto simp: record_remove_def upd split: option.splits)
    show "dom (map_of (old_values (record_remove oid ob s))) \<inter> set (new_ids (record_remove oid ob s)) = {}"
      using W(7) by (auto simp: record_remove_def upd split: option.splits)
    show "distinct (map fst (old_values (record_remove oid ob s)))"
      using W(1) by (auto simp: record_remove_def distinct_delete split: option.splits)
    show "distinct (map fst (removed (record_remove oid ob s)))"
      using W(2) by (auto simp: record_remove_def distinct_update map_of_eq_None_iff split: option.splits)
    show "\<exists>m. snd (M(oid := None), N) k = Some m \<and> i \<le> m" if "map_of (old_index_next_ids (record_remove oid ob s)) k = Some i" for k i
      using that W(9) [of k i] by (auto simp: record_remove_def split: if_splits option.splits)
  qed (use W(3) in \<open>auto simp: record_remove_def split: option.splits\<close>)
qed

section \<open>Merging two states\<close>

lemma merge_old_fields [simp]:
  "new_ids (merge_old x p) = new_ids p" "removed (merge_old x p) = removed p"
  "old_index_next_ids (merge_old x p) = old_index_next_ids p"
  by (simp_all add: merge_old_def split: prod.splits)

lemma merge_old_distinct: "distinct (map fst (old_values p)) \<Longrightarrow> distinct (map fst (old_values (merge_old x p)))"
  by (simp add: merge_old_def map_of_eq_None_iff split: prod.splits)

lemma merge_old_lookup:
  "map_of (old_values (merge_old x p)) a =
     (if a = fst x \<and> a \<notin> set (new_ids p) \<and> map_of (old_values p) a = None then Some (snd x) else map_of (old_values p) a)"
  by (cases x) (auto simp: merge_old_def)

lemma fold_merge_old_fields [simp]:
  "new_ids (fold merge_old xs p) = new_ids p" "removed (fold merge_old xs p) = removed p"
  "old_index_next_ids (fold merge_old xs p) = old_index_next_ids p"
  "distinct (map fst (old_values p)) \<Longrightarrow> distinct (map fst (old_values (fold merge_old xs p)))"
  by (induction xs arbitrary: p) (simp_all add: merge_old_distinct)

lemma fold_merge_old_lookup:
  "map_of (old_values (fold merge_old xs p)) a =
     (case map_of (old_values p) a of Some v \<Rightarrow> Some v
      | None \<Rightarrow> if a \<in> set (new_ids p) then None else map_of xs a)"
  by (induction xs arbitrary: p) (simp_all add: merge_old_lookup split: option.splits)

lemma fold_merge_new [simp]:
  "old_values (fold merge_new xs p) = old_values p" "removed (fold merge_new xs p) = removed p"
  "old_index_next_ids (fold merge_new xs p) = old_index_next_ids p"
  "set (new_ids (fold merge_new xs p)) = set (new_ids p) \<union> set xs"
  by (induction xs arbitrary: p) (auto simp: merge_new_def)

lemma merge_next_fields [simp]:
  "new_ids (merge_next x p) = new_ids p" "removed (merge_next x p) = removed p"
  "old_values (merge_next x p) = old_values p"
  by (simp_all add: merge_next_def split: prod.splits)

lemma merge_next_distinct:
  "distinct (map fst (old_index_next_ids p)) \<Longrightarrow> distinct (map fst (old_index_next_ids (merge_next x p)))"
  by (simp add: merge_next_def map_of_eq_None_iff split: prod.splits)

lemma merge_next_lookup:
  "map_of (old_index_next_ids (merge_next x p)) a =
     (if a = fst x \<and> map_of (old_index_next_ids p) a = None then Some (snd x) else map_of (old_index_next_ids p) a)"
  by (cases x) (auto simp: merge_next_def)

lemma fold_merge_next [simp]:
  "new_ids (fold merge_next xs p) = new_ids p" "removed (fold merge_next xs p) = removed p"
  "old_values (fold merge_next xs p) = old_values p"
  "distinct (map fst (old_index_next_ids p)) \<Longrightarrow> distinct (map fst (old_index_next_ids (fold merge_next xs p)))"
  by (induction xs arbitrary: p) (simp_all add: merge_next_distinct)

lemma fold_merge_next_lookup:
  "map_of (old_index_next_ids (fold merge_next xs p)) a =
     (case map_of (old_index_next_ids p) a of Some v \<Rightarrow> Some v | None \<Rightarrow> map_of xs a)"
  by (induction xs arbitrary: p) (simp_all add: merge_next_lookup split: option.splits)

lemma merge_removed_fields:
  "old_index_next_ids (merge_removed x p) = old_index_next_ids p"
  "set (new_ids (merge_removed x p)) = set (new_ids p) - {fst x}"
  "distinct (map fst (old_values p)) \<Longrightarrow> distinct (map fst (old_values (merge_removed x p)))"
  "distinct (map fst (removed p)) \<Longrightarrow> distinct (map fst (removed (merge_removed x p)))"
  by (auto simp: merge_removed_def distinct_update distinct_delete split: option.splits prod.splits)

lemma merge_removed_lookup:
  "map_of (old_values (merge_removed x p)) a =
     (if a = fst x \<and> a \<notin> set (new_ids p) then None else map_of (old_values p) a)"
  "map_of (removed (merge_removed x p)) a =
     (if a = fst x \<and> a \<notin> set (new_ids p)
      then (case map_of (old_values p) a of Some old \<Rightarrow> Some old | None \<Rightarrow> Some (snd x))
      else map_of (removed p) a)"
  by (cases x; cases "a = fst x"; simp add: merge_removed_def update_conv' delete_conv' split: option.split)+

lemma fold_merge_removed_fields:
  "old_index_next_ids (fold merge_removed xs p) = old_index_next_ids p"
  "set (new_ids (fold merge_removed xs p)) = set (new_ids p) - fst ` set xs"
  "distinct (map fst (old_values p)) \<Longrightarrow> distinct (map fst (old_values (fold merge_removed xs p)))"
  "distinct (map fst (removed p)) \<Longrightarrow> distinct (map fst (removed (fold merge_removed xs p)))"
  by (induction xs arbitrary: p) (auto simp: merge_removed_fields)

lemma fold_merge_removed_lookup:
  "distinct (map fst xs) \<Longrightarrow> map_of (old_values (fold merge_removed xs p)) a =
     (if map_of xs a \<noteq> None \<and> a \<notin> set (new_ids p) then None else map_of (old_values p) a)"
  "distinct (map fst xs) \<Longrightarrow> map_of (removed (fold merge_removed xs p)) a =
     (if map_of xs a \<noteq> None \<and> a \<notin> set (new_ids p)
      then (case map_of (old_values p) a of Some old \<Rightarrow> Some old | None \<Rightarrow> map_of xs a)
      else map_of (removed p) a)"
proof (induction xs arbitrary: p)
  case (Cons x xs)
  { case 1
    then show ?case
      using Cons.IH(1) [of "merge_removed x p"]
      by (cases "a = fst x") (simp_all add: merge_removed_lookup merge_removed_fields map_of_eq_None_iff)
  next
    case 2
    then have "map_of xs (fst x) = None" by (simp add: map_of_eq_None_iff)
    then show ?case
      using Cons.IH(2) [of "merge_removed x p"] 2
      by (cases "a = fst x"; cases x) (simp_all add: merge_removed_lookup merge_removed_fields split: option.splits)
  }
qed simp_all

lemma merge_states_lookup:
  assumes "distinct (map fst (removed s))"
  shows "map_of (old_index_next_ids (merge_states p s)) k =
      (case map_of (old_index_next_ids p) k of Some i \<Rightarrow> Some i | None \<Rightarrow> map_of (old_index_next_ids s) k)"
    and "set (new_ids (merge_states p s)) = (set (new_ids p) \<union> set (new_ids s)) - dom (map_of (removed s))"
    and "map_of (old_values (merge_states p s)) oid =
      (if oid \<in> dom (map_of (removed s)) \<and> oid \<notin> set (new_ids p) \<union> set (new_ids s) then None
       else case map_of (old_values p) oid of Some v \<Rightarrow> Some v
            | None \<Rightarrow> if oid \<in> set (new_ids p) then None else map_of (old_values s) oid)"
    and "map_of (removed (merge_states p s)) oid =
      (if oid \<in> dom (map_of (removed s)) \<and> oid \<notin> set (new_ids p) \<union> set (new_ids s)
       then (case map_of (old_values p) oid of Some v \<Rightarrow> Some v
             | None \<Rightarrow> (case map_of (old_values s) oid of Some v \<Rightarrow> Some v | None \<Rightarrow> map_of (removed s) oid))
       else map_of (removed p) oid)"
  using assms unfolding merge_states_def
  by (simp_all add: fold_merge_removed_fields fold_merge_removed_lookup fold_merge_next_lookup
      fold_merge_old_lookup dom_map_of_conv_image_fst [symmetric] domIff split: option.split)

text \<open>How two consecutive states of the history constrain each other.\<close>

lemma merge_disjoint:
  assumes ws: "state_wf U s V" and wp: "state_wf U p (rewind s V)"
  shows "oid \<in> set (new_ids s) \<Longrightarrow> oid \<notin> set (new_ids p) \<and> map_of (old_values p) oid = None \<and> map_of (removed p) oid = None"
    and "map_of (removed s) oid \<noteq> None \<Longrightarrow> map_of (removed p) oid = None \<and> map_of (old_values s) oid = None \<and>
      oid \<notin> set (new_ids s) \<and> fst V oid = None"
    and "oid \<in> set (new_ids p) \<Longrightarrow> map_of (removed p) oid = None \<and> map_of (old_values p) oid = None"
proof -
  note S = state_wfD [OF ws] and P = state_wfD [OF wp]
  show "oid \<notin> set (new_ids p) \<and> map_of (old_values p) oid = None \<and> map_of (removed p) oid = None"
    if new: "oid \<in> set (new_ids s)"
  proof -
    have none: "fst (rewind s V) oid = None" using new by (simp add: rewind_def)
    then have "oid \<notin> set (new_ids p)" "map_of (old_values p) oid = None" using P(4,5) by (auto simp: domIff)
    moreover have "map_of (removed p) oid = None"
    proof (rule ccontr)
      assume "map_of (removed p) oid \<noteq> None"
      then obtain n where "snd (rewind s V) (fst oid) = Some n" "snd oid < n"
        using removed_below_next [OF wp] by blast
      then show False using S(11) [OF new] by (auto simp: rewind_def)
    qed
    ultimately show ?thesis by blast
  qed
  show "map_of (removed p) oid = None \<and> map_of (old_values s) oid = None \<and> oid \<notin> set (new_ids s) \<and> fst V oid = None"
    if rem: "map_of (removed s) oid \<noteq> None"
  proof -
    have none: "fst V oid = None" using S(6) rem by (auto simp: domIff)
    then have "oid \<notin> set (new_ids s)" "map_of (old_values s) oid = None" using S(4,5) by (auto simp: domIff)
    moreover from this have "fst (rewind s V) oid \<noteq> None" using rem by (auto simp: rewind_def)
    then have "map_of (removed p) oid = None" using P(6) by (auto simp: domIff)
    ultimately show ?thesis using none by blast
  qed
  show "map_of (removed p) oid = None \<and> map_of (old_values p) oid = None" if "oid \<in> set (new_ids p)"
    using that P(4,6,7) by (auto simp: domIff)
qed

lemma merge_states_rewind:
  assumes ws: "state_wf U s V" and wp: "state_wf U p (rewind s V)"
  shows "rewind (merge_states p s) V = rewind p (rewind s V)"
proof -
  note L = merge_states_lookup [OF state_wfD(2) [OF ws], of p] and D = merge_disjoint [OF ws wp]
  have "fst (rewind (merge_states p s) V) oid = fst (rewind p (rewind s V)) oid" for oid
    using D [of oid] unfolding rewind_def fst_conv L
    by (cases "oid \<in> set (new_ids p)"; cases "oid \<in> set (new_ids s)"; cases "map_of (removed s) oid";
        cases "map_of (old_values p) oid"; simp add: domIff split: option.split)
  moreover have "snd (rewind (merge_states p s) V) k = snd (rewind p (rewind s V)) k" for k
    unfolding rewind_def snd_conv L by (simp split: option.split)
  ultimately show ?thesis by (auto simp: prod_eq_iff fun_eq_iff simp del: split_paired_All)
qed

lemma merge_states_wf:
  assumes ws: "state_wf U s V" and wp: "state_wf U p (rewind s V)"
  shows "state_wf U (merge_states p s) V"
proof (rule state_wfI)
  note S = state_wfD [OF ws] and P = state_wfD [OF wp]
  note L = merge_states_lookup [OF S(2), of p] and D = merge_disjoint [OF ws wp]
  have dom_rw: "fst (rewind s V) oid \<noteq> None \<Longrightarrow> map_of (removed s) oid = None \<Longrightarrow> fst V oid \<noteq> None" for oid
    using S(5) by (auto simp: rewind_def domIff split: if_splits option.splits)
  show "view_ok U (rewind (merge_states p s) V)" unfolding merge_states_rewind [OF ws wp] by (rule P(8))
  show "distinct (map fst (old_values (merge_states p s)))" "distinct (map fst (removed (merge_states p s)))"
    "distinct (map fst (old_index_next_ids (merge_states p s)))"
    using P(1,2,3) unfolding merge_states_def by (simp_all add: fold_merge_removed_fields)
  show "set (new_ids (merge_states p s)) \<subseteq> dom (fst V)"
    using P(4) S(4) dom_rw unfolding L by (auto simp: subset_iff domIff)
  show "dom (map_of (old_values (merge_states p s))) \<subseteq> dom (fst V)"
    using P(5) S(5) D dom_rw by (auto simp: subset_iff L domIff split: if_splits option.splits)
  show "dom (map_of (removed (merge_states p s))) \<inter> dom (fst V) = {}"
  proof -
    have "map_of (removed p) oid = None \<or> fst V oid = None" for oid
    proof -
      have "map_of (removed p) oid = None \<or> fst (rewind s V) oid = None" using P(6) by blast
      then show ?thesis using D(1) [of oid] by (auto simp: rewind_def split: if_splits option.splits)
    qed
    then have "map_of (removed (merge_states p s)) oid = None \<or> fst V oid = None" for oid
      using D(2) [of oid] by (simp add: L domIff)
    then show ?thesis unfolding disjoint_iff domIff by metis
  qed
  show "dom (map_of (old_values (merge_states p s))) \<inter> set (new_ids (merge_states p s)) = {}"
  proof -
    have "map_of (old_values (merge_states p s)) oid = None" if "oid \<in> set (new_ids (merge_states p s))" for oid
    proof -
      have "map_of (old_values s) oid = None" if "oid \<in> set (new_ids s)" using that S(7) by blast
      then show ?thesis using that D(1,3) [of oid] unfolding L by auto
    qed
    then show ?thesis unfolding disjoint_iff domIff by metis
  qed
  show "\<exists>n. snd V k = Some n \<and> i \<le> n" if "map_of (old_index_next_ids (merge_states p s)) k = Some i" for k i
    using that P(9) [of k i] S(9) [of k] by (fastforce simp: L rewind_def split: option.splits)
  show "same_key (U (fst oid)) old ob"
    if "map_of (old_values (merge_states p s)) oid = Some old" "fst V oid = Some ob" for oid old ob
  proof (cases "map_of (old_values p) oid")
    case None
    then show ?thesis using that S(10) [of oid old ob] by (auto simp: L split: if_splits)
  next
    case (Some v)
    have r: "map_of (removed s) oid = None" using that(2) D(2) [of oid] by force
    then have "v = old" using that(1) Some by (simp add: L domIff)
    moreover have "oid \<notin> set (new_ids s)" using D(1) [of oid] Some by auto
    ultimately show ?thesis
      using r Some that(2) P(10) [of oid old] S(10) [of oid _ ob] same_key_trans
      by (cases "map_of (old_values s) oid") (auto simp: rewind_def)
  qed
  show "\<exists>i. map_of (old_index_next_ids (merge_states p s)) (fst oid) = Some i \<and> i \<le> snd oid"
    if "oid \<in> set (new_ids (merge_states p s))" for oid
  proof (cases "oid \<in> set (new_ids p)")
    case True
    then show ?thesis using P(11) [of oid] by (auto simp: L)
  next
    case False
    then have "oid \<in> set (new_ids s)" using that unfolding L by blast
    then obtain i where i: "map_of (old_index_next_ids s) (fst oid) = Some i" "i \<le> snd oid"
      using S(11) [of oid] by blast
    then show ?thesis using P(9) [of "fst oid"] by (fastforce simp: L rewind_def split: option.split)
  qed
qed

section \<open>Changes inside a session\<close>

definition uniqueness_ok :: "'o uniqueness \<Rightarrow> bool" where
  "uniqueness_ok U \<longleftrightarrow> (\<forall>k. symp (U k))"

inductive change :: "'o uniqueness \<Rightarrow> 'o object_database \<Rightarrow> 'o object_database \<Rightarrow> bool" for U where
  change_create: "db_create U k c db = Inr (oid, db') \<Longrightarrow> change U db db'"
| change_modify: "db_modify U oid m db = Inr db' \<Longrightarrow>
    (\<And>ob. find_object (index_table db) oid = Some ob \<Longrightarrow> same_key (U (fst oid)) ob (m ob)) \<Longrightarrow> change U db db'"
| change_remove: "db_remove oid db = Inr db' \<Longrightarrow> change U db db'"

definition saved :: "'o object_database \<Rightarrow> 'o view list" where
  "saved db = snapshots (stack (undo_db db)) (view (index_table db))"

definition current :: "'o object_database \<Rightarrow> 'o view" where
  "current db = view (index_table db)"

lemma saved_Nil: "saved db = [] \<longleftrightarrow> stack (undo_db db) = []"
  unfolding saved_def by (cases "stack (undo_db db)") simp_all

lemma db_okD:
  assumes "db_ok U db"
  shows "table_ok (index_table db)" "view_ok U (view (index_table db))" "\<not> disabled (undo_db db)"
    "stack_wf U (stack (undo_db db)) (view (index_table db))"
    "clash_free_objects U (find_object (index_table db))"
  using assms by (auto simp: db_ok_def view_ok_def view_def)

lemma view_ok_bound: "view_ok U V \<Longrightarrow> fst V oid = Some ob \<Longrightarrow> \<exists>n. snd V (fst oid) = Some n \<and> snd oid < n"
  unfolding view_ok_def by blast

lemma same_key_sym: "same_key c a b \<Longrightarrow> same_key c b a"
  by (simp add: same_key_def)

lemma head_update:
  assumes "db_ok U db" and st: "stack (undo_db db) = s # rest" and "table_ok t"
    and "rewind (f s) (view t) = rewind s (view (index_table db))" and "state_wf U (f s) (view t)"
    and "view_ok U (view t)"
  defines "db' \<equiv> db\<lparr>index_table := t, undo_db := with_head f (undo_db db)\<rparr>"
  shows "db_ok U db' \<and> saved db' = saved db \<and> active_sessions (undo_db db') = active_sessions (undo_db db)"
  using assms(1,3-6) st by (simp add: db_ok_def saved_def db'_def with_head_def)

lemma view_ok_insert:
  assumes "uniqueness_ok U" and "view_ok U (M, N)" and "N (fst oid) = Some (snd oid)"
    and "\<And>j q. M (fst oid, j) = Some q \<Longrightarrow> \<not> U (fst oid) q ob"
  shows "view_ok U (M(oid \<mapsto> ob), N(fst oid \<mapsto> Suc (snd oid)))"
  using assms unfolding view_ok_def clash_free_objects_def uniqueness_ok_def symp_def
  by (cases oid) (auto split: if_splits; fastforce)

lemma db_create_facts:
  assumes ok: "db_ok U db" and c: "db_create U k c db = Inr (oid, db')"
  shows "fst oid = k \<and> nexts (index_table db) k = Some (snd oid) \<and> find_object (index_table db) oid = None \<and>
    table_ok (index_table db') \<and>
    (\<exists>ob. c (snd oid) = Inr ob \<and> (\<forall>j q. find_object (index_table db) (k, j) = Some q \<longrightarrow> \<not> U k q ob) \<and>
      view (index_table db') = ((find_object (index_table db))(oid \<mapsto> ob), (nexts (index_table db))(k \<mapsto> Suc (snd oid)))) \<and>
    db' = db\<lparr>index_table := index_table db', undo_db := with_head (record_create oid) (undo_db db)\<rparr>"
proof -
  let ?t = "index_table db"
  obtain ix ob iy where ix: "?t k = Some ix" "oid = (k, next_id ix)" "c (next_id ix) = Inr ob"
      "index_insert (U k) (next_id ix) ob ix = Inr iy"
      "db' = db\<lparr>index_table := ?t(k \<mapsto> use_next_id iy), undo_db := on_create oid (undo_db db)\<rparr>"
    using c by (auto simp: db_create_def get_index_def index_create_def)
  have ok_ix: "index_ok ix" unfolding index_ok_def
    using table_okD [OF db_okD(1) [OF ok] ix(1)] view_ok_bound [OF db_okD(2) [OF ok], of "(k, _)"] ix(1)
    by (auto simp: view_def find_object_def nexts_def)
  note I = index_insert_ok [OF ok_ix ix(4)]
  have t': "index_table db' = ?t(k \<mapsto> use_next_id iy)" using ix(5) by simp
  have "table_ok (index_table db')"
    unfolding t' using I(3) by (intro table_ok_update db_okD(1) [OF ok]) (simp add: use_next_id_def)
  moreover have "view (index_table db') = ((find_object ?t)(oid \<mapsto> ob), (nexts ?t)(k \<mapsto> Suc (snd oid)))"
    unfolding view_def t' using I(1,2) ix(1,2) by (auto simp: fun_eq_iff find_object_def nexts_def)
  moreover have "\<forall>j q. find_object ?t (k, j) = Some q \<longrightarrow> \<not> U k q ob"
    using ix(4) I(4) unfolding index_insert_def require_def clashes_table [OF db_okD(1) [OF ok] ix(1)]
    by (force simp: find_object_def ix(1) split: if_splits)
  ultimately show ?thesis
    using ix I(4) t' by (auto simp: nexts_def find_object_def on_create_def)
qed

lemma head_facts:
  assumes "db_ok U db" and "stack (undo_db db) = s # rest"
  shows "state_wf U s (find_object (index_table db), nexts (index_table db))"
    "view_ok U (find_object (index_table db), nexts (index_table db))"
  using db_okD(2,4) [OF assms(1)] assms(2) by (simp_all add: view_def)

lemma db_create_keeps:
  assumes sym: "uniqueness_ok U" and ok: "db_ok U db" and st: "stack (undo_db db) = s # rest"
    and op: "db_create U k c db = Inr (oid, db')"
  shows "db_ok U db' \<and> saved db' = saved db \<and> active_sessions (undo_db db') = active_sessions (undo_db db)"
proof -
  let ?t = "index_table db"
  note H = head_facts [OF ok st]
  obtain ob where F: "fst oid = k" "nexts ?t k = Some (snd oid)" "find_object ?t oid = None" "table_ok (index_table db')"
    "\<And>j q. find_object ?t (k, j) = Some q \<Longrightarrow> \<not> U k q ob"
    "view (index_table db') = ((find_object ?t)(oid \<mapsto> ob), (nexts ?t)(k \<mapsto> Suc (snd oid)))"
    "db' = db\<lparr>index_table := index_table db', undo_db := with_head (record_create oid) (undo_db db)\<rparr>"
    using db_create_facts [OF ok op] by blast
  have w: "rewind (record_create oid s) (view (index_table db')) = rewind s (view ?t)"
      "state_wf U (record_create oid s) (view (index_table db'))"
    using record_create_wf [OF H(1), of oid ob] F(1-3) unfolding F(6) by (simp_all add: view_def)
  have "view_ok U (view (index_table db'))"
    using view_ok_insert [OF sym H(2), of oid ob] F(1,2,5) unfolding F(6) by simp
  then show ?thesis using head_update [OF ok st F(4), where f = "record_create oid"] w F(7) by metis
qed

lemma modify_keeps:
  assumes ok: "db_ok U db" and st: "stack (undo_db db) = s # rest"
    and op: "db_modify U oid m db = Inr db'"
    and op_key: "\<And>ob. find_object (index_table db) oid = Some ob \<Longrightarrow> same_key (U (fst oid)) ob (m ob)"
  shows "db_ok U db' \<and> saved db' = saved db \<and> active_sessions (undo_db db') = active_sessions (undo_db db)"
proof -
  let ?t = "index_table db"
  note H = head_facts [OF ok st]
  obtain k i where oid: "oid = (k, i)" by (cases oid)
  obtain ix ob where F: "?t k = Some ix" "index_find ix i = Some ob"
      "db' = db\<lparr>index_table := ?t(k \<mapsto> ix\<lparr>objects := AList.update i (m ob) (objects ix)\<rparr>),
              undo_db := with_head (record_modify oid ob) (undo_db db)\<rparr>"
    using op oid
    by (auto simp: db_modify_def get_index_def index_get_def index_modify_def on_modify_def Let_def split: if_splits)
  have ob: "find_object ?t oid = Some ob" using F oid by (simp add: find_object_def)
  note key = op_key [OF ob]
  have v: "view (index_table db') = ((find_object ?t)(oid \<mapsto> m ob), nexts ?t)"
    using F oid by (auto simp: view_def fun_eq_iff find_object_def nexts_def)
  have t: "table_ok (index_table db')"
    using F table_okD [OF db_okD(1) [OF ok] F(1)]
    by (simp add: table_ok_update [OF db_okD(1) [OF ok]] distinct_update)
  have w: "rewind (record_modify oid ob s) (view (index_table db')) = rewind s (view ?t)"
      "state_wf U (record_modify oid ob s) (view (index_table db'))"
    using record_modify_wf [OF H(1) ob key] unfolding v by (simp_all add: view_def)
  have "view_ok U (view (index_table db'))"
    using clash_free_update [OF db_okD(5) [OF ok] ob same_key_sym [OF key]] H(2) ob
    unfolding v view_ok_def by auto
  then show ?thesis using head_update [OF ok st t, where f = "record_modify oid ob"] w F(3) by simp
qed

lemma remove_keeps:
  assumes ok: "db_ok U db" and st: "stack (undo_db db) = s # rest"
    and op: "db_remove oid db = Inr db'"
  shows "db_ok U db' \<and> saved db' = saved db \<and> active_sessions (undo_db db') = active_sessions (undo_db db)"
proof -
  let ?t = "index_table db"
  note H = head_facts [OF ok st]
  obtain k i where oid: "oid = (k, i)" by (cases oid)
  obtain ix ob where F: "?t k = Some ix" "index_find ix i = Some ob"
      "db' = db\<lparr>index_table := ?t(k \<mapsto> ix\<lparr>objects := AList.delete i (objects ix)\<rparr>),
              undo_db := with_head (record_remove oid ob) (undo_db db)\<rparr>"
    using op oid
    by (auto simp: db_remove_def get_index_def index_get_def index_remove_def on_remove_def Let_def)
  have ob: "find_object ?t oid = Some ob" using F oid by (simp add: find_object_def)
  have v: "view (index_table db') = ((find_object ?t)(oid := None), nexts ?t)"
    using F oid by (auto simp: view_def fun_eq_iff find_object_def nexts_def)
  have t: "table_ok (index_table db')"
    using F table_okD [OF db_okD(1) [OF ok] F(1)]
    by (simp add: table_ok_update [OF db_okD(1) [OF ok]] distinct_delete)
  have w: "rewind (record_remove oid ob s) (view (index_table db')) = rewind s (view ?t)"
      "state_wf U (record_remove oid ob s) (view (index_table db'))"
    using record_remove_wf [OF H(1) ob] unfolding v by (simp_all add: view_def)
  have "view_ok U (view (index_table db'))"
    using H(2) unfolding v view_ok_def clash_free_objects_def by (auto split: if_splits)
  then show ?thesis using head_update [OF ok st t, where f = "record_remove oid ob"] w F(3) by simp
qed

lemma change_keeps:
  assumes "uniqueness_ok U" and ok: "db_ok U db" and "stack (undo_db db) \<noteq> []" and "change U db db'"
  shows "db_ok U db' \<and> saved db' = saved db \<and> active_sessions (undo_db db') = active_sessions (undo_db db)"
proof -
  obtain s rest where st: "stack (undo_db db) = s # rest" using assms(3) by (cases "stack (undo_db db)") auto
  from assms(4) show ?thesis
    by cases (use db_create_keeps [OF assms(1) ok st] modify_keeps [OF ok st] remove_keeps [OF ok st] in blast)+
qed

end
