(* ===== verification/Undo_Sessions.thy ===== *)
theory Undo_Sessions
  imports Undo_Proofs
begin

text \<open>
  The undo history as a stack of snapshots. The locale \<open>snapshot_store\<close> is the contract the chain
  uses (\<^verbatim>\<open>start_undo_session\<close>, changes, \<^verbatim>\<open>undo\<close>, \<^verbatim>\<open>merge\<close>); it is interpreted on the object database of
  \<open>Undo_Database\<close>, with the invariant and the simulation proved in \<open>Undo_Proofs\<close>.
\<close>

section \<open>The contract\<close>

text \<open>
  What the chain relies on: a stack of snapshots. \<open>nested_run\<close> is any work inside a session:
  changes, and complete inner sessions that end in an undo or in a merge.
\<close>

inductive nested_run ::
  "('s \<Rightarrow> 's \<Rightarrow> bool) \<Rightarrow> ('s \<Rightarrow> bool) \<Rightarrow> ('s \<Rightarrow> 's) \<Rightarrow> ('s \<Rightarrow> 's result) \<Rightarrow> ('s \<Rightarrow> 's result) \<Rightarrow> 's \<Rightarrow> 's \<Rightarrow> bool"
  for change room start undo merge where
  run_done: "nested_run change room start undo merge x x"
| run_change: "nested_run change room start undo merge x y \<Longrightarrow> change y z \<Longrightarrow>
    nested_run change room start undo merge x z"
| run_undone: "nested_run change room start undo merge x y \<Longrightarrow> room y \<Longrightarrow>
    nested_run change room start undo merge (start y) z \<Longrightarrow> undo z = Inr w \<Longrightarrow>
    nested_run change room start undo merge x w"
| run_merged: "nested_run change room start undo merge x y \<Longrightarrow> room y \<Longrightarrow>
    nested_run change room start undo merge (start y) z \<Longrightarrow> merge z = Inr w \<Longrightarrow>
    nested_run change room start undo merge x w"

locale snapshot_store =
  fixes ok :: "'s \<Rightarrow> bool"
    and current :: "'s \<Rightarrow> 'v"
    and saved :: "'s \<Rightarrow> 'v list"
    and level :: "'s \<Rightarrow> nat"
    and room :: "'s \<Rightarrow> bool"
    and change :: "'s \<Rightarrow> 's \<Rightarrow> bool"
    and start :: "'s \<Rightarrow> 's"
    and undo :: "'s \<Rightarrow> 's result"
    and merge :: "'s \<Rightarrow> 's result"
  assumes change_law: "ok x \<Longrightarrow> saved x \<noteq> [] \<Longrightarrow> change x y \<Longrightarrow> ok y \<and> saved y = saved x \<and> level y = level x"
    and start_law: "ok x \<Longrightarrow> ok (start x) \<and> level (start x) = Suc (level x) \<and>
      (\<exists>n. saved (start x) = current x # take n (saved x)) \<and>
      (room x \<longrightarrow> saved (start x) = current x # saved x)"
    and undo_law: "ok x \<Longrightarrow> saved x = v # vs \<Longrightarrow> level x > 0 \<Longrightarrow>
      \<exists>y. undo x = Inr y \<and> ok y \<and> current y = v \<and> saved y = vs \<and> Suc (level y) = level x"
    and merge_law: "ok x \<Longrightarrow> saved x = v # w # vs \<Longrightarrow> level x > 0 \<Longrightarrow>
      \<exists>y. merge x = Inr y \<and> ok y \<and> current y = current x \<and> saved y = w # vs \<and> Suc (level y) = level x"
begin

lemma run_keeps:
  "nested_run change room start undo merge x y \<Longrightarrow> ok x \<Longrightarrow> saved x \<noteq> [] \<Longrightarrow>
     ok y \<and> saved y = saved x \<and> level y = level x"
proof (induction rule: nested_run.induct)
  case (run_undone x y z w)
  then have y: "ok y" "saved y = saved x" "level y = level x" by blast+
  then have "ok z" "saved z = current y # saved x" "level z = Suc (level x)"
    using run_undone start_law [OF y(1)] by auto
  then show ?case using undo_law [of z "current y" "saved x"] run_undone.hyps by auto
next
  case (run_merged x y z w)
  then have y: "ok y" "saved y = saved x" "level y = level x" by blast+
  then have z: "ok z" "saved z = current y # saved x" "level z = Suc (level x)"
    using run_merged start_law [OF y(1)] by auto
  obtain v vs where "saved x = v # vs" using run_merged.prems by (cases "saved x") auto
  then show ?case using z merge_law [of z "current y" v vs] run_merged.hyps by auto
next
  case (run_change x y z)
  then show ?case using change_law [of y z] by simp
qed simp

lemma undo_after_run:
  assumes "ok x" and "nested_run change room start undo merge (start x) y"
  shows "\<exists>z. undo y = Inr z \<and> ok z \<and> current z = current x \<and> level z = level x"
proof -
  obtain n where s: "ok (start x)" "level (start x) = Suc (level x)" "saved (start x) = current x # take n (saved x)"
    using start_law [OF assms(1)] by blast
  have "ok y \<and> saved y = saved (start x) \<and> level y = level (start x)"
    using run_keeps [OF assms(2) s(1)] s(3) by simp
  then show ?thesis using s undo_law [of y "current x" "take n (saved x)"] by auto
qed

lemma merge_then_undo:
  assumes "ok x" and "saved x = v # w # vs" and "level x > 1"
  shows "\<exists>y z. merge x = Inr y \<and> undo y = Inr z \<and> current z = w \<and>
     (\<exists>a b. undo x = Inr a \<and> undo a = Inr b \<and> current b = w)"
proof -
  obtain y where y: "merge x = Inr y" "ok y" "saved y = w # vs" "Suc (level y) = level x"
    using merge_law [OF assms(1,2)] assms(3) by auto
  obtain a where a: "undo x = Inr a" "ok a" "saved a = w # vs" "Suc (level a) = level x"
    using undo_law [OF assms(1,2)] assms(3) by auto
  show ?thesis
    using y undo_law [OF y(2,3)] a undo_law [OF a(2,3)] assms(3) by auto
qed

end

section \<open>The object database meets the contract\<close>

definition open_session :: "'o object_database \<Rightarrow> 'o object_database" where
  "open_session db = snd (db_start_session False db)"

definition merge_db :: "'o object_database \<Rightarrow> 'o object_database result" where
  "merge_db db = rbind (merge (undo_db db)) (\<lambda>u. Inr (db\<lparr>undo_db := u\<rparr>))"

definition has_room :: "'o object_database \<Rightarrow> bool" where
  "has_room db \<longleftrightarrow> length (stack (undo_db db)) \<le> max_size (undo_db db)"

abbreviation session_level :: "'o object_database \<Rightarrow> nat" where
  "session_level db \<equiv> active_sessions (undo_db db)"

lemma pop_oldest_take: "pop_oldest n st = take n st"
proof (induction n st rule: pop_oldest.induct)
  case (1 n st)
  then show ?case by (subst pop_oldest.simps) (auto simp: take_butlast min_def butlast_conv_take)
qed

lemma snapshots_take: "snapshots (take n st) V = take n (snapshots st V)"
  by (induction st arbitrary: n V) (simp_all add: take_Cons split: nat.split)

lemma stack_wf_take: "stack_wf U st V \<Longrightarrow> stack_wf U (take n st) V"
  by (induction st arbitrary: n V) (simp_all add: take_Cons split: nat.split)

lemma rewind_empty [simp]: "rewind empty_undo_state V = V"
  by (simp add: rewind_def empty_undo_state_def)

lemma empty_state_wf: "view_ok U V \<Longrightarrow> state_wf U empty_undo_state V"
  by (rule state_wfI) (simp_all add: empty_undo_state_def rewind_def)

lemma length_snapshots [simp]: "length (snapshots st V) = length st"
  by (induction st arbitrary: V) simp_all

lemma open_session_law:
  assumes "db_ok U db"
  shows "db_ok U (open_session db) \<and> session_level (open_session db) = Suc (session_level db) \<and>
    (\<exists>n. saved (open_session db) = current db # take n (saved db)) \<and>
    (has_room db \<longrightarrow> saved (open_session db) = current db # saved db)"
  using assms db_okD [OF assms]
  by (auto simp: open_session_def db_start_session_def start_undo_session_def Let_def saved_def current_def
      has_room_def db_ok_def pop_oldest_take snapshots_take stack_wf_take empty_state_wf)

lemma undo_law:
  assumes "db_ok U db" and "saved db = v # vs" and "session_level db > 0"
  shows "\<exists>db'. undo U db = Inr db' \<and> db_ok U db' \<and> current db' = v \<and> saved db' = vs \<and>
    Suc (session_level db') = session_level db"
proof -
  obtain s rest where st: "stack (undo_db db) = s # rest"
    using assms(2) by (cases "stack (undo_db db)") (auto simp: saved_def)
  note D = db_okD [OF assms(1)]
  have wf: "state_wf U s (view (index_table db))" using D(4) st by simp
  obtain t where t: "rollback U s (index_table db) = Inr t" "view t = rewind s (view (index_table db))" "table_ok t"
    using rollback_correct [OF D(1,5) wf] by blast
  then show ?thesis
    using st assms(2,3) D state_wfD(8) [OF wf] by (auto simp: undo_def saved_def current_def db_ok_def)
qed

lemma merge_law:
  assumes "db_ok U db" and "saved db = v # w # vs" and "session_level db > 0"
  shows "\<exists>db'. merge_db db = Inr db' \<and> db_ok U db' \<and> current db' = current db \<and> saved db' = w # vs \<and>
    Suc (session_level db') = session_level db"
proof -
  obtain s p rest where st: "stack (undo_db db) = s # p # rest"
    using assms(2) by (cases "stack (undo_db db)"; cases "tl (stack (undo_db db))") (auto simp: saved_def)
  note D = db_okD [OF assms(1)]
  have wf: "state_wf U s (view (index_table db))" "state_wf U p (rewind s (view (index_table db)))" using D(4) st by simp_all
  then show ?thesis
    using st assms D merge_states_rewind [OF wf] merge_states_wf [OF wf]
    by (auto simp: merge_db_def merge_def require_def saved_def current_def db_ok_def)
qed

interpretation udb: snapshot_store "\<lambda>db. uniqueness_ok U \<and> db_ok U db" current saved
    "\<lambda>db. session_level db" has_room "change U" open_session "undo U" merge_db
  for U :: "'o uniqueness"
  by unfold_locales (use change_keeps open_session_law undo_law merge_law saved_Nil in \<open>blast+\<close>)

section \<open>Properties\<close>

abbreviation work :: "'o uniqueness \<Rightarrow> 'o object_database \<Rightarrow> 'o object_database \<Rightarrow> bool" where
  "work U \<equiv> nested_run (change U) has_room open_session (undo U) merge_db"

text \<open>C6. Undoing a session restores the database. Objects may be created and removed, and modified in ways that keep their unique secondary keys (\<open>change\<close>),
  after the session is opened, and inner sessions opened while the history has room for them (\<open>has_room\<close>) may be undone or merged meanwhile: \<^verbatim>\<open>undo\<close> succeeds
  and leaves every object, and the next id of every index, exactly as it was when the session was opened.\<close>

theorem undo_restores:
  assumes "uniqueness_ok U" and "db_ok U db" and "work U (open_session db) db'"
  shows "\<exists>db''. undo U db' = Inr db'' \<and> view (index_table db'') = view (index_table db) \<and> db_ok U db''"
  using udb.undo_after_run [of U db db'] assms by (auto simp: current_def)


text \<open>A committed block can still be taken back: committing the only open session and then
  popping the commit (what the chain does to leave a fork) restores the database as it was
  before the session.\<close>

theorem pop_commit_restores:
  assumes "uniqueness_ok U" and "db_ok U db" and "active_sessions (undo_db db) = 0"
    and "work U (open_session db) db'"
  shows "\<exists>u db''. commit (undo_db db') = Inr u \<and> pop_commit U (db'\<lparr>undo_db := u\<rparr>) = Inr db'' \<and>
     view (index_table db'') = view (index_table db) \<and> db_ok U db''"
proof -
  obtain n where n: "db_ok U (open_session db)" "session_level (open_session db) = 1"
      "saved (open_session db) = current db # take n (saved db)"
    using open_session_law [OF assms(2)] assms(3) by auto
  have d: "db_ok U db'" "saved db' = current db # take n (saved db)" "session_level db' = 1"
    using udb.run_keeps [OF assms(4)] assms(1) n by auto
  obtain db'' where u: "undo U db' = Inr db''" "db_ok U db''" "current db'' = current db"
    using undo_law [OF d(1,2)] d(3) by auto
  then obtain s rest t where t: "stack (undo_db db') = s # rest" "rollback U s (index_table db') = Inr t"
      "db'' = db'\<lparr>index_table := t, undo_db := (undo_db db')\<lparr>stack := rest, disabled := False, active_sessions := 0\<rparr>\<rparr>"
    using d(3) by (auto simp: undo_def split: list.splits)
  then show ?thesis
    using u d(3) by (auto simp: commit_def pop_commit_def current_def db_ok_def)
qed

section \<open>Witnesses\<close>

text \<open>A database with one index whose objects are numbers, and a clash on equal numbers.\<close>

definition sample_db :: "nat object_database" where
  "sample_db = \<lparr>index_table = [(1, 2) \<mapsto> \<lparr>next_id = 1, objects = [(0, 7)]\<rparr>],
     undo_db = \<lparr>active_sessions = 0, disabled = False, stack = [], max_size = 256\<rparr>\<rparr>"

definition equal_keys :: "nat uniqueness" where
  "equal_keys k a b \<longleftrightarrow> a = b"

lemma sample_ok: "uniqueness_ok equal_keys" "db_ok equal_keys sample_db"
  by (auto simp: uniqueness_ok_def symp_def equal_keys_def db_ok_def sample_db_def table_ok_def view_ok_def view_def
      clash_free_objects_def find_object_def index_find_def nexts_def split: if_splits)

definition sample_created :: "nat object_database" where
  "sample_created = snd (projr (db_create equal_keys (1, 2) (\<lambda>i. Inr 9) (open_session sample_db)))"

definition sample_removed :: "nat object_database" where
  "sample_removed = projr (db_remove ((1, 2), 0) sample_created)"

lemmas sample_defs = sample_db_def sample_created_def sample_removed_def open_session_def db_start_session_def
  start_undo_session_def pop_oldest.simps empty_undo_state_def db_create_def db_remove_def get_index_def
  index_create_def index_insert_def index_find_def index_get_def index_remove_def clashes_def equal_keys_def
  on_create_def on_remove_def with_head_def record_create_def record_remove_def use_next_id_def

lemma sample_work: "work equal_keys (open_session sample_db) sample_removed"
proof (rule run_change [OF run_change [OF run_done]])
  have "db_create equal_keys (1, 2) (\<lambda>i. Inr 9) (open_session sample_db) = Inr (((1, 2), 1), sample_created)"
    by (simp add: sample_defs)
  then show "change equal_keys (open_session sample_db) sample_created" by (rule change_create)
  have "db_remove ((1, 2), 0) sample_created = Inr sample_removed"
    by (simp add: sample_defs)
  then show "change equal_keys sample_created sample_removed" by (rule change_remove)
qed

theorem undo_restores_witness:
  "\<exists>db''. undo equal_keys sample_removed = Inr db'' \<and>
     view (index_table db'') = view (index_table sample_db) \<and> db_ok equal_keys db''"
  by (rule undo_restores [OF sample_ok sample_work])

theorem pop_commit_restores_witness:
  "\<exists>u db''. commit (undo_db sample_removed) = Inr u \<and>
     pop_commit equal_keys (sample_removed\<lparr>undo_db := u\<rparr>) = Inr db'' \<and>
     view (index_table db'') = view (index_table sample_db) \<and> db_ok equal_keys db''"
  by (rule pop_commit_restores [OF sample_ok _ sample_work]) (simp add: sample_db_def)

lemma sample_nested:
  "db_ok equal_keys (open_session sample_removed)" "length (stack (undo_db (open_session sample_removed))) = 2"
  "active_sessions (undo_db (open_session sample_removed)) = 2"
proof -
  have "db_ok equal_keys (open_session sample_db)" "saved (open_session sample_db) \<noteq> []"
    using open_session_law [OF sample_ok(2)] by auto
  then show "db_ok equal_keys (open_session sample_removed)"
    using udb.run_keeps [OF sample_work] sample_ok(1) open_session_law by blast
  show "length (stack (undo_db (open_session sample_removed))) = 2"
    "active_sessions (undo_db (open_session sample_removed)) = 2"
    by (simp_all add: sample_defs)
qed


lemma undo_drops_reused:
  assumes ok: "index_ok ix" and m: "index_modify clash i m ix = (ix1, True)" and c: "index_create clash c ix1 = Inr (j, ix2)"
    and b: "index_find ix2 j = Some B" and cl: "clash B A"
  shows "\<exists>ix4. index_remove j (fst (index_modify clash i (\<lambda>_. A) ix2)) = Inr ix4 \<and> index_find ix4 i = None"
proof -
  obtain ob where ob: "index_find ix i = Some ob" "index_find ix1 = (index_find ix)(i \<mapsto> m ob)" "index_ok ix1"
    using gi.modify_law [OF ok m] by blast
  have C: "index_ok ix2" "index_find ix2 i = Some (m ob)"
    using gi.create_law [OF ob(3) c] gi.create_keeps [OF ob(3) c, of i] ob(2) by auto
  have ji: "j \<noteq> i" using gi.create_fresh [OF ob(3) c] ob(2) by auto
  have "clashes clash ix2 i A" using clashes_iff [of ix2 clash i A] C(1) b cl ji by (auto simp: index_ok_def)
  then have "fst (index_modify clash i (\<lambda>_. A) ix2) = ix2\<lparr>objects := AList.delete i (objects ix2)\<rparr>" using C(2) by (simp add: index_modify_def)
  then show ?thesis using b ji by (auto simp: index_remove_def index_find_def delete_conv')
qed

text \<open>C29. Why keys must be kept: \<^verbatim>\<open>undo\<close> restores modified objects before it removes new ones. Whenever
  a session modifies an object and then creates a new object that clashes with the old value of the first (it took over its unique key), the
  restore clashes, the container drops the object, the exception is swallowed, and after a
  successful undo the object that was there before the session is gone.\<close>

theorem undo_loses_object_on_key_reuse:
  assumes "db_ok U db" and "find_object (index_table db) (k, i) = Some A"
    and "db_modify U (k, i) m (open_session db) = Inr db1"
    and "db_create U k c db1 = Inr ((k, j), db2)" and "find_object (index_table db2) (k, j) = Some B" and "U k B A"
  shows "\<exists>db3. undo U db2 = Inr db3 \<and> find_object (index_table db3) (k, i) = None"
proof -
  let ?s = "open_session db"
  have en: "\<not> disabled (undo_db db)" using assms(1) by (simp add: db_ok_def)
  then have s: "\<not> disabled (undo_db ?s)" "index_table ?s = index_table db" "\<exists>rest. stack (undo_db ?s) = empty_undo_state # rest" "session_level ?s > 0"
    by (simp_all add: open_session_def db_start_session_def start_undo_session_def Let_def)
  obtain ix where ix: "index_table db k = Some ix" "index_find ix i = Some A" using assms(2) by (auto simp: find_object_def bind_eq_Some_conv)
  have "distinct (map fst (objects ix))" using db_okD(1) [OF assms(1)] ix(1) unfolding table_ok_def by blast
  moreover have "n < next_id ix" if "index_find ix n = Some ob" for n ob
    using view_ok_bound [OF db_okD(2) [OF assms(1)], of "(k, n)" ob] that ix(1) by (auto simp: view_def find_object_def nexts_def)
  ultimately have iok: "index_ok ix" unfolding index_ok_def by blast
  obtain ix1 where m: "index_modify (U k) i m ix = (ix1, True)" "index_table db1 = (index_table db)(k \<mapsto> ix1)"
      "undo_db db1 = on_modify (k, i) A (undo_db ?s)"
    using assms(3) ix s(2) by (auto simp: db_modify_def get_index_def index_get_def Let_def prod_eq_iff)
  obtain ix2 where c: "index_create (U k) c ix1 = Inr (j, ix2)" "index_table db2 = (index_table db)(k \<mapsto> ix2)"
      "undo_db db2 = on_create (k, j) (on_modify (k, i) A (undo_db ?s))"
    using assms(4) m by (auto simp: db_create_def get_index_def)
  have b: "index_find ix2 j = Some B" using assms(5) c(2) by (simp add: find_object_def)
  obtain ix4 where 4: "index_remove j (fst (index_modify (U k) i (\<lambda>_. A) ix2)) = Inr ix4" "index_find ix4 i = None"
    using undo_drops_reused [OF iok m(1) c(1) b assms(6)] by blast
  have "\<exists>rest. stack (undo_db db2) = \<lparr>old_values = [((k, i), A)], old_index_next_ids = [(k, j)], new_ids = [(k, j)], removed = []\<rparr> # rest"
    using s(1,3) by (auto simp: c(3) on_create_def on_modify_def with_head_def record_modify_def record_create_def empty_undo_state_def)
  then obtain rest where st: "stack (undo_db db2) = \<lparr>old_values = [((k, i), A)], old_index_next_ids = [(k, j)], new_ids = [(k, j)], removed = []\<rparr> # rest" by blast
  have lv: "\<not> disabled (undo_db db2)" "session_level db2 > 0" using s(1,4) by (simp_all add: c(3) on_create_def on_modify_def with_head_def Let_def)
  show ?thesis using 4 lv st
    by (simp add: undo_def rollback_def restore_value_def drop_new_def reset_next_id_def get_index_def c(2) find_object_def)
qed

theorem undo_loses_object_on_key_reuse_witness:
  "\<exists>db1 db2 db3. db_modify equal_keys ((1, 2), 0) (\<lambda>_. 8) (open_session sample_db) = Inr db1 \<and>
     db_create equal_keys (1, 2) (\<lambda>i. Inr 7) db1 = Inr (((1, 2), 1), db2) \<and>
     undo equal_keys db2 = Inr db3 \<and>
     find_object (index_table sample_db) ((1, 2), 0) = Some 7 \<and>
     find_object (index_table db3) ((1, 2), 0) = None"
proof -
  have f: "find_object (index_table sample_db) ((1, 2), 0) = Some 7" by (simp add: sample_db_def find_object_def index_find_def)
  obtain db1 db2 where d: "db_modify equal_keys ((1, 2), 0) (\<lambda>_. 8) (open_session sample_db) = Inr db1"
    "db_create equal_keys (1, 2) (\<lambda>i. Inr 7) db1 = Inr (((1, 2), 1), db2)" "find_object (index_table db2) ((1, 2), 1) = Some 7"
    by (simp add: sample_defs db_modify_def index_modify_def on_modify_def record_modify_def find_object_def)
  have "equal_keys (1, 2) 7 7" by (simp add: equal_keys_def)
  with undo_loses_object_on_key_reuse [OF sample_ok(2) f d] f d(1,2) show ?thesis by blast
qed

end
