(* ===== verification/Fork_Database.thy ===== *)
theory Fork_Database
  imports Prelude
begin

text \<open>
  Block ids (\<^verbatim>\<open>protocol/block.cpp\<close>) and the tree of recent blocks (\<^verbatim>\<open>fork_database.cpp\<close>).

  A \<^verbatim>\<open>block_id_type\<close> is five 32-bit words; the first holds the block number in network order, so an
  id is modelled as the number and the other 128 bits. The hash is a library function and enters
  as the parameter \<open>sha\<close>. Items are heap objects: \<open>fork_heap\<close> maps addresses to the items ever
  allocated, the indexes and \<open>fork_head\<close> hold addresses (\<^verbatim>\<open>shared_ptr\<close>), and \<open>prev\<close> is a
  \<^verbatim>\<open>weak_ptr\<close>: locking it succeeds while one of them still owns the item. What a block carries besides
  its predecessor is the type parameter.
\<close>

datatype block_id = Block_id (id_num: "32 word") (id_hash: nat)

record 'p signed_block =
  previous :: block_id
  body :: 'p

definition null_block_id :: block_id where
  "null_block_id = Block_id 0 0"

definition num_from_id :: "block_id \<Rightarrow> 32 word" where
  "num_from_id i = id_num i"

definition block_num :: "'p signed_block \<Rightarrow> 32 word" where
  "block_num b = num_from_id (previous b) + 1"

definition block_id_of :: "('p signed_block \<Rightarrow> nat) \<Rightarrow> 'p signed_block \<Rightarrow> block_id" where
  "block_id_of sha b = Block_id (block_num b) (sha b)"

section \<open>State\<close>

record 'p fork_item =
  prev :: "nat option"
  num :: "32 word"
  item_id :: block_id
  data :: "'p signed_block"

record 'p fork_database =
  fork_max_size :: "32 word"
  fork_heap :: "(nat \<times> 'p fork_item) list"
  unlinked_index :: "nat list"
  fork_index :: "nat list"
  fork_head :: "nat option"

definition initial_fork_database :: "'p fork_database" where
  "initial_fork_database =
     \<lparr>fork_max_size = 1024, fork_heap = [], unlinked_index = [], fork_index = [], fork_head = None\<rparr>"

definition item_at :: "'p fork_database \<Rightarrow> nat \<Rightarrow> 'p fork_item option" where
  "item_at fd a = map_of (fork_heap fd) a"

definition alive :: "'p fork_database \<Rightarrow> nat \<Rightarrow> bool" where
  "alive fd a \<longleftrightarrow> a \<in> set (fork_index fd) \<or> a \<in> set (unlinked_index fd) \<or> fork_head fd = Some a"

definition lock :: "'p fork_database \<Rightarrow> nat option \<Rightarrow> nat option" where
  "lock fd w = (case w of None \<Rightarrow> None | Some a \<Rightarrow> if alive fd a then Some a else None)"

definition fork_item_of :: "('p signed_block \<Rightarrow> nat) \<Rightarrow> 'p signed_block \<Rightarrow> 'p fork_item" where
  "fork_item_of sha d = \<lparr>prev = None, num = block_num d, item_id = block_id_of sha d, data = d\<rparr>"

definition make_shared :: "'p fork_item \<Rightarrow> 'p fork_database \<Rightarrow> nat \<times> 'p fork_database" where
  "make_shared it fd = (length (fork_heap fd), fd\<lparr>fork_heap := (length (fork_heap fd), it) # fork_heap fd\<rparr>)"

text \<open>Lookup in an index by a key of the item; items are found through their addresses.\<close>

definition find_by :: "('p fork_item \<Rightarrow> bool) \<Rightarrow> 'p fork_database \<Rightarrow> nat list \<Rightarrow> nat option" where
  "find_by P fd as = find (\<lambda>a. case item_at fd a of None \<Rightarrow> False | Some it \<Rightarrow> P it) as"

definition find_block :: "'p fork_database \<Rightarrow> block_id \<Rightarrow> nat option" where
  "find_block fd i = find_by (\<lambda>it. item_id it = i) fd (fork_index fd)"

text \<open>\<^verbatim>\<open>_index.insert\<close>: a second item with the id of an indexed one is ignored.\<close>

definition index_item :: "nat \<Rightarrow> 'p fork_item \<Rightarrow> 'p fork_database \<Rightarrow> 'p fork_database" where
  "index_item a it fd =
     (if find_block fd (item_id it) = None then fd\<lparr>fork_index := a # fork_index fd\<rparr> else fd)"

definition drop_below :: "int \<Rightarrow> 'p fork_database \<Rightarrow> nat list \<Rightarrow> nat list" where
  "drop_below n fd as = filter (\<lambda>a. case item_at fd a of None \<Rightarrow> False | Some it \<Rightarrow> \<not> uint (num it) < n) as"

section \<open>Operations\<close>

definition reset :: "'p fork_database \<Rightarrow> 'p fork_database" where
  "reset fd = fd\<lparr>fork_head := None, fork_index := []\<rparr>"

definition fork_pop_block :: "'p fork_database \<Rightarrow> 'p fork_database result" where
  "fork_pop_block fd =
     rbind (of_option Assert_failed (Option.bind (fork_head fd) (item_at fd))) (\<lambda>h.
     rbind (of_option Assert_failed (lock fd (prev h))) (\<lambda>p.
     Inr (fd\<lparr>fork_head := Some p\<rparr>)))"

definition start_block :: "('p signed_block \<Rightarrow> nat) \<Rightarrow> 'p signed_block \<Rightarrow> 'p fork_database \<Rightarrow> 'p fork_database" where
  "start_block sha b fd =
     (let it = fork_item_of sha b; (a, fd1) = make_shared it fd
      in (index_item a it fd1)\<lparr>fork_head := Some a\<rparr>)"

definition head_item :: "'p fork_database \<Rightarrow> 'p fork_item option" where
  "head_item fd = Option.bind (fork_head fd) (item_at fd)"

text \<open>The part of \<^verbatim>\<open>_push_block\<close> after the item was indexed: it may become the head, and then the
  items that are too old are dropped.\<close>

definition raise_head :: "nat \<Rightarrow> 'p fork_item \<Rightarrow> 'p fork_database \<Rightarrow> 'p fork_database" where
  "raise_head a it fd =
     (case head_item fd of
        None \<Rightarrow> fd\<lparr>fork_head := Some a\<rparr>
      | Some h \<Rightarrow>
          if num it > num h
          then
            let fd1 = fd\<lparr>fork_head := Some a\<rparr>;
                min_num = num it - min (fork_max_size fd) (num it)
            in fd1\<lparr>fork_index := drop_below (uint min_num) fd1 (fork_index fd1),
                   unlinked_index := filter (\<lambda>u. case item_at fd1 u of
                       None \<Rightarrow> True | Some q \<Rightarrow> num q \<noteq> num it - fork_max_size fd) (unlinked_index fd1)\<rparr>
          else fd)"

definition push_item :: "'p fork_item \<Rightarrow> 'p fork_database \<Rightarrow> 'p fork_database result" where
  "push_item it fd =
     require (case head_item fd of
                None \<Rightarrow> True
              | Some h \<Rightarrow> uint (num it) > max 0 (uint (num h) - uint (fork_max_size fd))) Assert_failed
    (rbind (if head_item fd \<noteq> None \<and> previous (data it) \<noteq> null_block_id
            then rbind (of_option Unlinkable_block (find_block fd (previous (data it))))
                   (\<lambda>p. Inr (it\<lparr>prev := Some p\<rparr>))
            else Inr it) (\<lambda>it'.
     let (a, fd1) = make_shared it' fd
     in Inr (raise_head a it' (index_item a it' fd1))))"

definition fork_push_block ::
  "('p signed_block \<Rightarrow> nat) \<Rightarrow> 'p signed_block \<Rightarrow> 'p fork_database \<Rightarrow> 'p fork_database result" where
  "fork_push_block sha b fd = push_item (fork_item_of sha b) fd"

definition set_max_size :: "32 word \<Rightarrow> 'p fork_database \<Rightarrow> 'p fork_database" where
  "set_max_size s fd =
     (let fd1 = fd\<lparr>fork_max_size := s\<rparr>
      in case head_item fd1 of
           None \<Rightarrow> fd1
         | Some h \<Rightarrow>
             let n = max 0 (uint (num h) - uint s)
             in fd1\<lparr>fork_index := drop_below n fd1 (fork_index fd1),
                    unlinked_index := drop_below n fd1 (unlinked_index fd1)\<rparr>)"

definition is_known_block :: "'p fork_database \<Rightarrow> block_id \<Rightarrow> bool" where
  "is_known_block fd i \<longleftrightarrow>
     find_block fd i \<noteq> None \<or> find_by (\<lambda>it. item_id it = i) fd (unlinked_index fd) \<noteq> None"

definition fetch_block :: "'p fork_database \<Rightarrow> block_id \<Rightarrow> nat option" where
  "fetch_block fd i =
     (case find_block fd i of
        Some a \<Rightarrow> Some a
      | None \<Rightarrow> find_by (\<lambda>it. item_id it = i) fd (unlinked_index fd))"

definition fetch_block_by_number :: "'p fork_database \<Rightarrow> 32 word \<Rightarrow> nat list" where
  "fetch_block_by_number fd n =
     filter (\<lambda>a. case item_at fd a of None \<Rightarrow> False | Some it \<Rightarrow> num it = n) (fork_index fd)"

definition set_head :: "nat option \<Rightarrow> 'p fork_database \<Rightarrow> 'p fork_database" where
  "set_head h fd = fd\<lparr>fork_head := h\<rparr>"

definition fork_remove :: "block_id \<Rightarrow> 'p fork_database \<Rightarrow> 'p fork_database" where
  "fork_remove i fd =
     fd\<lparr>fork_index := filter (\<lambda>a. case item_at fd a of None \<Rightarrow> True | Some it \<Rightarrow> item_id it \<noteq> i) (fork_index fd)\<rparr>"

section \<open>Branches\<close>

text \<open>The item one step back. The fuel of the loops is spent one unit per iteration.\<close>

definition step_back :: "'p fork_database \<Rightarrow> 'p fork_item \<Rightarrow> 'p fork_item result" where
  "step_back fd it = of_option Assert_failed (Option.bind (lock fd (prev it)) (item_at fd))"

fun walk_down :: "nat \<Rightarrow> 'p fork_database \<Rightarrow> 32 word \<Rightarrow> 'p fork_item \<Rightarrow> 'p fork_item list \<Rightarrow>
    ('p fork_item \<times> 'p fork_item list) result" where
  "walk_down 0 fd n it acc = Inl Out_of_fuel"
| "walk_down (Suc f) fd n it acc =
     (if block_num (data it) > n
      then rbind (step_back fd it) (\<lambda>it'. walk_down f fd n it' (acc @ [it]))
      else Inr (it, acc))"

fun walk_both :: "nat \<Rightarrow> 'p fork_database \<Rightarrow> 'p fork_item \<Rightarrow> 'p fork_item \<Rightarrow> 'p fork_item list \<Rightarrow> 'p fork_item list \<Rightarrow>
    ('p fork_item list \<times> 'p fork_item list) result" where
  "walk_both 0 fd x y bx by' = Inl Out_of_fuel"
| "walk_both (Suc f) fd x y bx by' =
     (if previous (data x) \<noteq> previous (data y)
      then rbind (step_back fd x) (\<lambda>x'.
           rbind (step_back fd y) (\<lambda>y'. walk_both f fd x' y' (bx @ [x]) (by' @ [y])))
      else Inr (bx @ [x], by' @ [y]))"

definition fetch_branch_from ::
  "nat \<Rightarrow> 'p fork_database \<Rightarrow> block_id \<Rightarrow> block_id \<Rightarrow> ('p fork_item list \<times> 'p fork_item list) result" where
  "fetch_branch_from f fd first second =
     rbind (of_option Assert_failed (Option.bind (find_block fd first) (item_at fd))) (\<lambda>x.
     rbind (of_option Assert_failed (Option.bind (find_block fd second) (item_at fd))) (\<lambda>y.
     rbind (walk_down f fd (block_num (data y)) x []) (\<lambda>(x', bx).
     rbind (walk_down f fd (block_num (data x')) y []) (\<lambda>(y', by').
     walk_both f fd x' y' bx by'))))"

end
