(* ===== verification/Fork_Proofs.thy ===== *)
theory Fork_Proofs
  imports Fork_Database
begin

text \<open>
  Invariant of the fork database and correctness of its operations: the items form a tree in
  which a link goes to the block with the previous id and the number one lower, ids are unique
  in the index, and nothing is ever cached as unlinked.
\<close>

definition item_ok :: "('p signed_block \<Rightarrow> nat) \<Rightarrow> 'p fork_database \<Rightarrow> 'p fork_item \<Rightarrow> bool" where
  "item_ok sha fd it \<longleftrightarrow> num it = block_num (data it) \<and> item_id it = block_id_of sha (data it) \<and>
     (\<forall>p. prev it = Some p \<longrightarrow> num it > 0 \<and> (\<exists>q. item_at fd p = Some q \<and> item_id q = previous (data it)))"

definition fork_ok :: "('p signed_block \<Rightarrow> nat) \<Rightarrow> 'p fork_database \<Rightarrow> bool" where
  "fork_ok sha fd \<longleftrightarrow>
     (\<forall>a. item_at fd a \<noteq> None \<longleftrightarrow> a < length (fork_heap fd)) \<and>
     (\<forall>a it. item_at fd a = Some it \<longrightarrow> item_ok sha fd it) \<and>
     (\<forall>a\<in>set (fork_index fd). item_at fd a \<noteq> None) \<and>
     (\<forall>a. fork_head fd = Some a \<longrightarrow> item_at fd a \<noteq> None) \<and>
     distinct (fork_index fd) \<and>
     (\<forall>a\<in>set (fork_index fd). \<forall>b\<in>set (fork_index fd).
        map_option item_id (item_at fd a) = map_option item_id (item_at fd b) \<longrightarrow> a = b) \<and>
     unlinked_index fd = []"

lemma fork_okD:
  assumes "fork_ok sha fd"
  shows "\<And>a. item_at fd a \<noteq> None \<longleftrightarrow> a < length (fork_heap fd)"
    and "\<And>a it. item_at fd a = Some it \<Longrightarrow> item_ok sha fd it"
    and "\<And>a. a \<in> set (fork_index fd) \<Longrightarrow> item_at fd a \<noteq> None"
    and "\<And>a. fork_head fd = Some a \<Longrightarrow> item_at fd a \<noteq> None"
    and "distinct (fork_index fd)"
    and "\<And>a b. a \<in> set (fork_index fd) \<Longrightarrow> b \<in> set (fork_index fd) \<Longrightarrow>
      map_option item_id (item_at fd a) = map_option item_id (item_at fd b) \<Longrightarrow> a = b"
    and "unlinked_index fd = []"
  using assms unfolding fork_ok_def by blast+

section \<open>The invariant\<close>

lemma item_at_simps [simp]:
  "item_at (fd\<lparr>fork_index := x\<rparr>) = item_at fd" "item_at (fd\<lparr>unlinked_index := x\<rparr>) = item_at fd"
  "item_at (fd\<lparr>fork_head := h\<rparr>) = item_at fd" "item_at (fd\<lparr>fork_max_size := s\<rparr>) = item_at fd"
  by (simp_all add: item_at_def fun_eq_iff)

lemma item_ok_cong: "item_at fd' = item_at fd \<Longrightarrow> item_ok sha fd' it = item_ok sha fd it"
  by (simp add: item_ok_def)

lemma fork_ok_shrink:
  assumes "fork_ok sha fd" and "fork_heap fd' = fork_heap fd" and "unlinked_index fd' = []"
    and "distinct (fork_index fd')" and "set (fork_index fd') \<subseteq> set (fork_index fd)"
    and "\<And>a. fork_head fd' = Some a \<Longrightarrow> item_at fd a \<noteq> None"
  shows "fork_ok sha fd'"
proof -
  have at: "item_at fd' = item_at fd" using assms(2) by (simp add: item_at_def fun_eq_iff)
  note O = fork_okD [OF assms(1)]
  show ?thesis
    unfolding fork_ok_def at item_ok_cong [OF at] assms(2)
    using O(1,2) O(3,6) assms(3-6) by blast
qed

lemma find_by_Some:
  "find_by P fd as = Some a \<Longrightarrow> a \<in> set as \<and> (\<exists>it. item_at fd a = Some it \<and> P it)"
  unfolding find_by_def by (auto simp: find_Some_iff split: option.splits)

lemma find_by_None:
  "find_by P fd as = None \<Longrightarrow> a \<in> set as \<Longrightarrow> item_at fd a = Some it \<Longrightarrow> \<not> P it"
  unfolding find_by_def find_None_iff by (auto split: option.splits)

lemma item_at_make_shared:
  "fork_ok sha fd \<Longrightarrow> make_shared it fd = (a, fd1) \<Longrightarrow>
     a = length (fork_heap fd) \<and> item_at fd1 = (item_at fd)(a \<mapsto> it) \<and> item_at fd a = None \<and>
     fork_index fd1 = fork_index fd \<and> fork_head fd1 = fork_head fd \<and> unlinked_index fd1 = unlinked_index fd \<and>
     fork_max_size fd1 = fork_max_size fd \<and> length (fork_heap fd1) = Suc (length (fork_heap fd))"
  using fork_okD(1) [of sha fd "length (fork_heap fd)"]
  by (auto simp: make_shared_def item_at_def fun_eq_iff)

lemma find_block_make_shared:
  assumes "fork_ok sha fd" and "make_shared it fd = (a, fd1)"
  shows "find_block fd1 i = find_block fd i"
proof -
  note S = item_at_make_shared [OF assms]
  have "a \<notin> set (fork_index fd)" using S fork_okD(3) [OF assms(1), of a] by blast
  then have "a' \<in> set (fork_index fd) \<Longrightarrow> item_at fd1 a' = item_at fd a'" for a'
    using S by auto
  then show ?thesis unfolding find_block_def find_by_def using S by (metis (no_types, lifting) find_cong)
qed

lemma index_item_ok:
  assumes ok: "fork_ok sha fd" and sh: "make_shared it fd = (a, fd1)" and it: "item_ok sha fd it"
  defines "fd2 \<equiv> index_item a it fd1"
  shows "fork_ok sha fd2" "item_at fd2 = (item_at fd)(a \<mapsto> it)" "fork_head fd2 = fork_head fd"
    "fork_max_size fd2 = fork_max_size fd"
    "set (fork_index fd2) = (if find_block fd (item_id it) = None then insert a (set (fork_index fd)) else set (fork_index fd))"
proof -
  note S = item_at_make_shared [OF ok sh] and F = find_block_make_shared [OF ok sh] and O = fork_okD [OF ok]
  show at: "item_at fd2 = (item_at fd)(a \<mapsto> it)" and h: "fork_head fd2 = fork_head fd"
    and "fork_max_size fd2 = fork_max_size fd"
    and ix: "set (fork_index fd2) = (if find_block fd (item_id it) = None then insert a (set (fork_index fd)) else set (fork_index fd))"
    using S F by (auto simp: fd2_def index_item_def)
  have heap: "length (fork_heap fd2) = Suc a" "unlinked_index fd2 = []"
    using S O(7) by (auto simp: fd2_def index_item_def)
  have "a \<notin> set (fork_index fd)" using S O(3) [of a] by blast
  then have dist: "distinct (fork_index fd2)"
    using S O(5) by (auto simp: fd2_def index_item_def)
  have new: "item_id q \<noteq> item_id it" if "find_block fd (item_id it) = None" "b \<in> set (fork_index fd)" "item_at fd b = Some q" for b q
    using find_by_None [OF that(1) [unfolded find_block_def] that(2,3)] .
  have old: "item_ok sha fd q \<Longrightarrow> item_ok sha fd2 q" for q
    using S unfolding item_ok_def at by fastforce
  have old_at: "item_at fd2 x = item_at fd x" "x \<noteq> a" if "x \<in> set (fork_index fd)" for x
    using that S O(3) [of x] unfolding at by (auto simp del: not_None_eq)
  have "x = y" if "x \<in> set (fork_index fd2)" "y \<in> set (fork_index fd2)"
    "map_option item_id (item_at fd2 x) = map_option item_id (item_at fd2 y)" for x y
  proof (cases "x = a \<or> y = a")
    case True
    have no: "map_option item_id (item_at fd2 z) \<noteq> Some (item_id it)"
      if "z \<in> set (fork_index fd)" "find_block fd (item_id it) = None" for z
      using new [OF that(2,1)] that(1) old_at(1) by auto
    have "map_option item_id (item_at fd2 a) = Some (item_id it)" by (simp add: at)
    then show ?thesis
      using True that no [of x] no [of y] old_at(2) unfolding ix by (metis insertE)
  next
    case False
    then show ?thesis using that O(6) [of x y] old_at unfolding ix by (auto split: if_splits)
  qed
  then have "\<forall>x\<in>set (fork_index fd2). \<forall>y\<in>set (fork_index fd2).
      map_option item_id (item_at fd2 x) = map_option item_id (item_at fd2 y) \<longrightarrow> x = y" by blast
  moreover have "\<forall>x. (item_at fd2 x \<noteq> None) = (x < length (fork_heap fd2))"
    using O(1) S unfolding at heap by (auto simp: less_Suc_eq)
  moreover have "\<forall>x q. item_at fd2 x = Some q \<longrightarrow> item_ok sha fd2 q"
    using O(2) old it unfolding at by auto
  moreover have "\<forall>x\<in>set (fork_index fd2). item_at fd2 x \<noteq> None" "\<forall>x. fork_head fd2 = Some x \<longrightarrow> item_at fd2 x \<noteq> None"
    using O(3,4) unfolding ix at h by auto
  ultimately show "fork_ok sha fd2" unfolding fork_ok_def using dist heap(2) by blast
qed

lemma head_item_Some:
  "fork_ok sha fd \<Longrightarrow> fork_head fd = Some a \<Longrightarrow> \<exists>h. head_item fd = Some h \<and> item_at fd a = Some h"
  using fork_okD(4) [of sha fd a] by (auto simp: head_item_def)

lemma head_item_None: "fork_ok sha fd \<Longrightarrow> head_item fd = None \<longleftrightarrow> fork_head fd = None"
  using fork_okD(4) [of sha fd] by (cases "fork_head fd") (auto simp: head_item_def)

lemma drop_below_subset: "set (drop_below n fd as) \<subseteq> set as" "distinct as \<Longrightarrow> distinct (drop_below n fd as)"
  by (auto simp: drop_below_def)

lemma raise_head_ok:
  assumes "fork_ok sha fd" and "item_at fd a \<noteq> None"
  shows "fork_ok sha (raise_head a it fd)"
proof (cases "head_item fd")
  case None
  then show ?thesis
    using assms fork_okD(5,7) [OF assms(1)] by (auto simp: raise_head_def intro!: fork_ok_shrink [OF assms(1)])
next
  case (Some h)
  then show ?thesis
    using assms fork_okD(5,7) [OF assms(1)] drop_below_subset
    by (auto simp: raise_head_def Let_def split: if_splits intro!: fork_ok_shrink [OF assms(1)]; blast)
qed

lemma item_ok_fresh: "item_ok sha fd (fork_item_of sha b)"
  by (simp add: item_ok_def fork_item_of_def)

lemma item_ok_linked:
  assumes "fork_ok sha fd" and "find_block fd (previous b) = Some p" and "block_num b > 0"
  shows "item_ok sha fd ((fork_item_of sha b)\<lparr>prev := Some p\<rparr>)"
  using find_by_Some [OF assms(2) [unfolded find_block_def]] assms(3)
  by (auto simp: item_ok_def fork_item_of_def)

lemma push_cases:
  assumes "fork_ok sha fd" and "fork_push_block sha b fd = Inr fd'"
  obtains it a fd1 where "it = fork_item_of sha b \<or> (\<exists>p. it = (fork_item_of sha b)\<lparr>prev := Some p\<rparr>)"
    "item_ok sha fd it" "make_shared it fd = (a, fd1)" "fd' = raise_head a it (index_item a it fd1)"
proof (cases "head_item fd \<noteq> None \<and> previous b \<noteq> null_block_id")
  case True
  then obtain h where h: "head_item fd = Some h" by blast
  have d: "data (fork_item_of sha b) = b" "num (fork_item_of sha b) = block_num b"
    by (simp_all add: fork_item_of_def)
  from assms(2) True h obtain p where p: "find_block fd (previous b) = Some p"
      "uint (block_num b) > max 0 (uint (num h) - uint (fork_max_size fd))"
    by (auto simp: fork_push_block_def push_item_def Let_def d case_prod_beta)
  then have "block_num b > 0" by (simp add: word_less_def max_def split: if_splits)
  then have ok: "item_ok sha fd ((fork_item_of sha b)\<lparr>prev := Some p\<rparr>)"
    using item_ok_linked [OF assms(1) p(1)] by simp
  show ?thesis
    using assms(2) True p(1) that [OF _ ok surjective_pairing]
    by (auto simp: fork_push_block_def push_item_def Let_def d case_prod_beta)
next
  case False
  have d: "data (fork_item_of sha b) = b" by (simp add: fork_item_of_def)
  show ?thesis
    using assms(2) False that [OF _ item_ok_fresh surjective_pairing]
    by (auto simp: fork_push_block_def push_item_def Let_def d case_prod_beta split: if_splits)
qed

lemma push_ok:
  assumes "fork_ok sha fd" and "fork_push_block sha b fd = Inr fd'"
  shows "fork_ok sha fd'"
proof -
  obtain it a fd1 where it: "item_ok sha fd it" "make_shared it fd = (a, fd1)" "fd' = raise_head a it (index_item a it fd1)"
    using push_cases [OF assms] by metis
  note I = index_item_ok [OF assms(1) it(2,1)]
  show ?thesis unfolding it(3) by (rule raise_head_ok [OF I(1)]) (simp add: I(2))
qed

section \<open>Reachable states\<close>

inductive fork_reachable :: "('p signed_block \<Rightarrow> nat) \<Rightarrow> 'p fork_database \<Rightarrow> bool" for sha where
  reach_initial: "fork_reachable sha initial_fork_database"
| reach_reset: "fork_reachable sha fd \<Longrightarrow> fork_reachable sha (reset fd)"
| reach_start: "fork_reachable sha fd \<Longrightarrow> fork_reachable sha (start_block sha b fd)"
| reach_push: "fork_reachable sha fd \<Longrightarrow> fork_push_block sha b fd = Inr fd' \<Longrightarrow> fork_reachable sha fd'"
| reach_pop: "fork_reachable sha fd \<Longrightarrow> fork_pop_block fd = Inr fd' \<Longrightarrow> fork_reachable sha fd'"
| reach_max_size: "fork_reachable sha fd \<Longrightarrow> fork_reachable sha (set_max_size s fd)"
| reach_set_head: "fork_reachable sha fd \<Longrightarrow> alive fd a \<Longrightarrow> fork_reachable sha (set_head (Some a) fd)"
| reach_remove: "fork_reachable sha fd \<Longrightarrow> fork_reachable sha (fork_remove i fd)"

lemma alive_item: "fork_ok sha fd \<Longrightarrow> alive fd a \<Longrightarrow> item_at fd a \<noteq> None"
  using fork_okD(3,4,7) [of sha fd] by (auto simp: alive_def simp del: not_None_eq)

lemma initial_ok: "fork_ok sha initial_fork_database"
  by (simp add: fork_ok_def initial_fork_database_def item_at_def)

lemma start_block_ok:
  assumes "fork_ok sha fd"
  shows "fork_ok sha (start_block sha b fd)"
proof -
  obtain a fd1 where sh: "make_shared (fork_item_of sha b) fd = (a, fd1)" by fastforce
  note I = index_item_ok [OF assms sh item_ok_fresh]
  have "start_block sha b fd = (index_item a (fork_item_of sha b) fd1)\<lparr>fork_head := Some a\<rparr>"
    using sh by (simp add: start_block_def)
  then show ?thesis
    using fork_okD(5,7) [OF I(1)] by (auto intro!: fork_ok_shrink [OF I(1)] simp: I(2))
qed

lemma reachable_ok: "fork_reachable sha fd \<Longrightarrow> fork_ok sha fd"
proof (induction rule: fork_reachable.induct)
  case (reach_pop fd fd')
  then obtain a where "fd' = fd\<lparr>fork_head := Some a\<rparr>" "alive fd a"
    by (auto simp: fork_pop_block_def lock_def split: option.splits if_splits)
  then show ?case
    using reach_pop fork_okD(5,7) [OF reach_pop.IH] alive_item [OF reach_pop.IH]
    by (auto intro!: fork_ok_shrink [OF reach_pop.IH])
next
  case (reach_reset fd)
  then show ?case using fork_okD(7) [OF reach_reset.IH]
    by (auto simp: reset_def intro!: fork_ok_shrink [OF reach_reset.IH])
next
  case (reach_max_size fd s)
  have "drop_below n fd' [] = []" for n and fd' :: "'a fork_database" by (simp add: drop_below_def)
  then show ?case using fork_okD(4,5,7) [OF reach_max_size.IH] drop_below_subset
    by (auto simp: set_max_size_def Let_def split: option.splits intro!: fork_ok_shrink [OF reach_max_size.IH]; blast)
next
  case (reach_set_head fd a)
  then show ?case using fork_okD(5,7) [OF reach_set_head.IH] alive_item [OF reach_set_head.IH]
    by (auto simp: set_head_def intro!: fork_ok_shrink [OF reach_set_head.IH])
next
  case (reach_remove fd i)
  then show ?case using fork_okD(4,5,7) [OF reach_remove.IH]
    by (auto simp: fork_remove_def intro!: fork_ok_shrink [OF reach_remove.IH])
qed (auto intro: initial_ok start_block_ok push_ok)

section \<open>Walking back\<close>

definition link :: "'p fork_item \<Rightarrow> 'p fork_item \<Rightarrow> bool" where
  "link x y \<longleftrightarrow> item_id y = previous (data x) \<and> uint (num x) = uint (num y) + 1"

definition stored :: "'p fork_database \<Rightarrow> 'p fork_item \<Rightarrow> bool" where
  "stored fd it \<longleftrightarrow> (\<exists>a. item_at fd a = Some it)"

lemma uint_pred: "(n :: 32 word) = m + 1 \<Longrightarrow> n > 0 \<Longrightarrow> uint n = uint m + 1"
proof -
  assume n: "n = m + 1" "n > 0"
  have "uint m + 1 < 2 ^ 32"
  proof (rule ccontr)
    assume "\<not> uint m + 1 < 2 ^ 32"
    then have "uint m = 2 ^ 32 - 1" using uint_lt2p [of m] by simp
    then have "uint n = 0" using n(1) by (simp add: uint_word_ariths)
    then show False using n(2) by (simp add: word_less_def)
  qed
  then show "uint n = uint m + 1" using n(1) by (simp add: uint_word_ariths mod_pos_pos_trivial)
qed

lemma step_back_link:
  assumes "fork_ok sha fd" and "stored fd it" and "step_back fd it = Inr it'"
  shows "stored fd it' \<and> link it it'"
proof -
  obtain p where p: "prev it = Some p" "item_at fd p = Some it'"
    using assms(3) by (auto simp: step_back_def lock_def split: option.splits if_splits)
  obtain a where "item_at fd a = Some it" using assms(2) by (auto simp: stored_def)
  then have "item_ok sha fd it" by (rule fork_okD(2) [OF assms(1)])
  then have it: "num it = block_num (data it)" "num it > 0" "item_id it' = previous (data it)"
    using p by (auto simp: item_ok_def)
  have "num it' = id_num (item_id it')"
    using fork_okD(2) [OF assms(1) p(2)] by (simp add: item_ok_def block_id_of_def)
  then have "num it = num it' + 1" using it by (simp add: block_num_def num_from_id_def)
  then show ?thesis using p(2) it(2,3) uint_pred by (auto simp: stored_def link_def)
qed

lemma link_unat: "link x y \<Longrightarrow> unat (num x) = Suc (unat (num y))"
  by (simp add: link_def flip: of_nat_eq_iff [where 'a = int])

lemma stored_num: "fork_ok sha fd \<Longrightarrow> stored fd it \<Longrightarrow> block_num (data it) = num it"
  using fork_okD(2) [of sha fd] by (auto simp: stored_def item_ok_def)

definition path :: "'p fork_database \<Rightarrow> 'p fork_item list \<Rightarrow> bool" where
  "path fd xs \<longleftrightarrow> successively link xs \<and> (\<forall>u\<in>set xs. stored fd u)"

lemma path_extend:
  assumes "fork_ok sha fd" and "path fd (xs @ [x])" and "step_back fd x = Inr y"
  shows "path fd ((xs @ [x]) @ [y])" and "link x y" and "stored fd y"
proof -
  have "stored fd x" using assms(2) by (simp add: path_def)
  then show l: "link x y" "stored fd y" using step_back_link [OF assms(1) _ assms(3)] by simp_all
  show "path fd ((xs @ [x]) @ [y])"
    using assms(2) l by (simp add: path_def successively_append_iff)
qed

lemma path_num:
  "path fd (xs @ [x]) \<Longrightarrow> u \<in> set xs \<Longrightarrow> uint (num u) > uint (num x)"
proof (induction xs arbitrary: u)
  case (Cons a xs)
  then have IH: "v \<in> set xs \<Longrightarrow> uint (num v) > uint (num x)" for v
    by (auto simp: path_def successively_Cons)
  have "link a (hd (xs @ [x]))" using Cons.prems by (simp add: path_def successively_Cons)
  then have "uint (num a) > uint (num x)" using IH [of "hd xs"] by (cases xs) (auto simp: link_def)
  then show ?case using IH Cons.prems by auto
qed simp

lemma walk_down_spec:
  assumes "fork_ok sha fd"
  shows "path fd (acc @ [it]) \<Longrightarrow> walk_down f fd n it acc = Inr (it', acc') \<Longrightarrow>
     path fd (acc' @ [it']) \<and> uint (num it') \<le> uint n \<and>
     (uint (num it) \<ge> uint n \<longrightarrow> num it' = n) \<and> (uint (num it) \<le> uint n \<longrightarrow> it' = it \<and> acc' = acc) \<and>
     hd (acc' @ [it']) = hd (acc @ [it])"
proof (induction f arbitrary: it acc)
  case (Suc f)
  have it: "block_num (data it) = num it" using Suc.prems(1) stored_num [OF assms] by (simp add: path_def)
  show ?case
  proof (cases "num it > n")
    case True
    then obtain y where y: "step_back fd it = Inr y" "walk_down f fd n y (acc @ [it]) = Inr (it', acc')"
      using Suc.prems it by auto
    note L = path_extend [OF assms Suc.prems(1) y(1)]
    have "uint n < uint (num it)" "uint (num it) = uint (num y) + 1"
      using True L(2) by (simp_all add: word_less_def link_def)
    then show ?thesis using Suc.IH [OF L(1) y(2)] by (auto simp: hd_append)
  next
    case False
    then have "uint (num it) \<le> uint n" by (simp add: word_less_def)
    then show ?thesis using False Suc.prems it by (auto simp: word_uint_eq_iff)
  qed
qed simp

lemma walk_down_fuel:
  assumes "fork_ok sha fd"
  shows "stored fd it \<Longrightarrow> f > unat (num it) \<Longrightarrow> walk_down f fd n it acc \<noteq> Inl Out_of_fuel"
proof (induction f arbitrary: it acc)
  case (Suc f)
  have "walk_down f fd n y (acc @ [it]) \<noteq> Inl Out_of_fuel" if "step_back fd it = Inr y" for y
    using step_back_link [OF assms Suc.prems(1) that] Suc.prems(2) by (intro Suc.IH) (auto dest: link_unat)
  then show ?case by (cases "step_back fd it") (auto simp: step_back_def of_option_def split: option.splits)
qed simp

definition apart :: "'p fork_item list \<Rightarrow> 'p fork_item list \<Rightarrow> bool" where
  "apart xs ys \<longleftrightarrow> (\<forall>u\<in>set xs. \<forall>v\<in>set ys. previous (data u) \<noteq> previous (data v))"

lemma same_previous_num:
  "fork_ok sha fd \<Longrightarrow> stored fd u \<Longrightarrow> stored fd v \<Longrightarrow> previous (data u) = previous (data v) \<Longrightarrow> num u = num v"
  using stored_num [of sha fd u] stored_num [of sha fd v] by (simp add: block_num_def)

lemma apart_ends:
  assumes "fork_ok sha fd" and "path fd (bx @ [x])" and "path fd (by' @ [y])" and "num x = num y" and "apart bx by'"
  shows "u \<in> set (bx @ [x]) \<Longrightarrow> v \<in> set (by' @ [y]) \<Longrightarrow> previous (data u) = previous (data v) \<Longrightarrow> u = x \<and> v = y"
proof -
  assume u: "u \<in> set (bx @ [x])" and v: "v \<in> set (by' @ [y])" and p: "previous (data u) = previous (data v)"
  have n: "num u = num v"
    using same_previous_num [OF assms(1) _ _ p] u v assms(2,3) unfolding path_def by blast
  have "u \<in> set bx \<Longrightarrow> uint (num u) > uint (num x)" "v \<in> set by' \<Longrightarrow> uint (num v) > uint (num y)"
    using path_num [OF assms(2)] path_num [OF assms(3)] by blast+
  then show "u = x \<and> v = y"
    using u v p n assms(4,5) by (auto simp: apart_def)
qed

lemma walk_both_spec:
  assumes "fork_ok sha fd"
  shows "path fd (bx @ [x]) \<Longrightarrow> path fd (by' @ [y]) \<Longrightarrow> num x = num y \<Longrightarrow> apart bx by' \<Longrightarrow>
     walk_both f fd x y bx by' = Inr (rx, ry) \<Longrightarrow>
     path fd rx \<and> path fd ry \<and> rx \<noteq> [] \<and> ry \<noteq> [] \<and> hd rx = hd (bx @ [x]) \<and> hd ry = hd (by' @ [y]) \<and>
     previous (data (last rx)) = previous (data (last ry)) \<and> apart (butlast rx) ry \<and> apart rx (butlast ry)"
proof (induction f arbitrary: x y bx by')
  case (Suc f)
  note ends = apart_ends [OF assms Suc.prems(1-4)]
  show ?case
  proof (cases "previous (data x) = previous (data y)")
    case True
    then have r: "rx = bx @ [x]" "ry = by' @ [y]" using Suc.prems(5) by simp_all
    have "x \<notin> set bx" "y \<notin> set by'" using path_num [OF Suc.prems(1)] path_num [OF Suc.prems(2)] by blast+
    moreover from this have "apart bx (by' @ [y])" "apart (bx @ [x]) by'" 
      unfolding apart_def using ends by (metis Un_iff set_append)+
    ultimately show ?thesis unfolding r using True Suc.prems(1,2) by simp
  next
    case False
    then obtain x' y' where s: "step_back fd x = Inr x'" "step_back fd y = Inr y'"
        "walk_both f fd x' y' (bx @ [x]) (by' @ [y]) = Inr (rx, ry)"
      using Suc.prems(5) by auto
    note X = path_extend [OF assms Suc.prems(1) s(1)] and Y = path_extend [OF assms Suc.prems(2) s(2)]
    have "num x' = num y'" using X(2) Y(2) Suc.prems(3) by (auto simp: link_def word_uint_eq_iff)
    moreover have "apart (bx @ [x]) (by' @ [y])" using ends False unfolding apart_def by blast
    ultimately show ?thesis using Suc.IH [OF X(1) Y(1) _ _ s(3)] by (auto simp: hd_append)
  qed
qed simp

lemma walk_both_fuel:
  assumes "fork_ok sha fd"
  shows "stored fd x \<Longrightarrow> stored fd y \<Longrightarrow> f > unat (num x) \<Longrightarrow> walk_both f fd x y bx by' \<noteq> Inl Out_of_fuel"
proof (induction f arbitrary: x y bx by')
  case (Suc f)
  have "walk_both f fd x' y' (bx @ [x]) (by' @ [y]) \<noteq> Inl Out_of_fuel"
    if "step_back fd x = Inr x'" "step_back fd y = Inr y'" for x' y'
    using step_back_link [OF assms Suc.prems(1) that(1)] step_back_link [OF assms Suc.prems(2) that(2)] Suc.prems(3)
    by (intro Suc.IH) (auto dest: link_unat)
  then show ?case
    by (cases "step_back fd x"; cases "step_back fd y") (auto simp: step_back_def of_option_def split: option.splits)
qed simp

section \<open>Properties\<close>

text \<open>C24. In every state the fork database can reach by its operations, the items form a tree:
  each link leads to the block with the previous id, one number lower; ids are unique in the
  index; and the cache of unlinked blocks is always empty (a block that does not link is
  refused, never cached).\<close>

theorem fork_tree:
  assumes "fork_reachable sha fd"
  shows "unlinked_index fd = [] \<and>
     (\<forall>a it p. item_at fd a = Some it \<and> prev it = Some p \<longrightarrow>
        (\<exists>q. item_at fd p = Some q \<and> item_id q = previous (data it) \<and> uint (num it) = uint (num q) + 1)) \<and>
     (\<forall>a b x y. a \<in> set (fork_index fd) \<and> b \<in> set (fork_index fd) \<and> item_at fd a = Some x \<and>
        item_at fd b = Some y \<and> item_id x = item_id y \<longrightarrow> a = b)"
proof -
  have ok: "fork_ok sha fd" using assms by (rule reachable_ok)
  have "\<exists>q. item_at fd p = Some q \<and> item_id q = previous (data it) \<and> uint (num it) = uint (num q) + 1"
    if it: "item_at fd a = Some it" "prev it = Some p" for a it p
  proof -
    obtain q where q: "item_at fd p = Some q" "item_id q = previous (data it)" "num it > 0" "num it = block_num (data it)"
      using fork_okD(2) [OF ok it(1)] it(2) by (auto simp: item_ok_def)
    have "num q = id_num (item_id q)" using fork_okD(2) [OF ok q(1)] by (simp add: item_ok_def block_id_of_def)
    then show ?thesis using q uint_pred [of "num it" "num q"] by (auto simp: block_num_def num_from_id_def)
  qed
  then have "\<forall>a it p. item_at fd a = Some it \<and> prev it = Some p \<longrightarrow>
      (\<exists>q. item_at fd p = Some q \<and> item_id q = previous (data it) \<and> uint (num it) = uint (num q) + 1)" by blast
  then show ?thesis using fork_okD(6,7) [OF ok] by auto
qed

lemma find_block_iff:
  "find_block fd i \<noteq> None \<longleftrightarrow> (\<exists>z\<in>set (fork_index fd). \<exists>q. item_at fd z = Some q \<and> item_id q = i)"
  using find_by_Some [of "\<lambda>it. item_id it = i" fd "fork_index fd"]
    find_by_None [of "\<lambda>it. item_id it = i" fd "fork_index fd"]
  unfolding find_block_def by (cases "find_by (\<lambda>it. item_id it = i) fd (fork_index fd)") auto

text \<open>The state after a successful push, before and after the head is raised.\<close>

lemma push_state:
  assumes "fork_ok sha fd" and "fork_push_block sha b fd = Inr fd'"
  obtains it a fd2 where "num it = block_num b" "item_id it = block_id_of sha b" "item_at fd a = None"
    "fork_ok sha fd2" "item_at fd2 = (item_at fd)(a \<mapsto> it)" "head_item fd2 = head_item fd"
    "fork_max_size fd2 = fork_max_size fd" "set (fork_index fd2) \<subseteq> insert a (set (fork_index fd))"
    "find_block fd2 (block_id_of sha b) \<noteq> None" "fd' = raise_head a it fd2"
proof -
  obtain it a fd1 where it: "it = fork_item_of sha b \<or> (\<exists>p. it = (fork_item_of sha b)\<lparr>prev := Some p\<rparr>)"
      "item_ok sha fd it" "make_shared it fd = (a, fd1)" "fd' = raise_head a it (index_item a it fd1)"
    using push_cases [OF assms] by metis
  note I = index_item_ok [OF assms(1) it(3,2)]
  have d: "num it = block_num b" "item_id it = block_id_of sha b" using it(1) by (auto simp: fork_item_of_def)
  have a0: "item_at fd a = None" using item_at_make_shared [OF assms(1) it(3)] by blast
  have h2: "head_item (index_item a it fd1) = head_item fd"
    using I(2,3) a0 fork_okD(4) [OF assms(1)] by (cases "fork_head fd") (auto simp: head_item_def)
  have ix: "set (fork_index (index_item a it fd1)) \<subseteq> insert a (set (fork_index fd))" using I(5) by (auto split: if_splits)
  have "find_block (index_item a it fd1) (block_id_of sha b) \<noteq> None"
  proof (cases "find_block fd (block_id_of sha b)")
    case None
    then show ?thesis unfolding find_block_iff I(5) using d(2) by (auto simp: I(2))
  next
    case (Some z)
    then have "find_block fd (block_id_of sha b) \<noteq> None" by simp
    then obtain w q where "w \<in> set (fork_index fd)" "item_at fd w = Some q" "item_id q = block_id_of sha b"
      unfolding find_block_iff by blast
    moreover from this have "w \<in> set (fork_index (index_item a it fd1))" "w \<noteq> a" using I(5) a0 by (auto split: if_splits)
    ultimately show ?thesis unfolding find_block_iff I(2) by auto
  qed
  then show ?thesis by (rule that [OF d a0 I(1,2) h2 I(4) ix _ it(4)])
qed

lemma raise_head_at [simp]: "item_at (raise_head a it fd) = item_at fd"
  by (simp add: raise_head_def Let_def split: option.splits)

lemma raise_head_item:
  assumes "item_at fd a = Some it"
  shows "head_item (raise_head a it fd) =
     (case head_item fd of None \<Rightarrow> Some it | Some h \<Rightarrow> if num it > num h then Some it else Some h)"
  using assms by (auto simp: raise_head_def head_item_def Let_def split: option.splits)

lemma raise_head_index:
  "set (fork_index (raise_head a it fd)) =
     (case head_item fd of None \<Rightarrow> set (fork_index fd)
      | Some h \<Rightarrow> if num it > num h
          then {z \<in> set (fork_index fd). \<exists>q. item_at fd z = Some q \<and> num it - min (fork_max_size fd) (num it) \<le> num q}
          else set (fork_index fd))"
  by (cases "head_item fd"; auto simp: raise_head_def Let_def drop_below_def not_less word_le_def [symmetric] split: option.splits)

text \<open>Pushing a block that is accepted makes it known; the head becomes that block if its
  number is higher than the head's (or there was none) and stays the same otherwise.\<close>

theorem push_block_head:
  assumes "fork_ok sha fd" and "fork_push_block sha b fd = Inr fd'"
  shows "is_known_block fd' (block_id_of sha b) \<and>
     (\<exists>h. head_item fd' = Some h \<and> num h \<ge> block_num b \<and>
        (case head_item fd of
           None \<Rightarrow> item_id h = block_id_of sha b
         | Some h0 \<Rightarrow> if block_num b > num h0 then item_id h = block_id_of sha b else h = h0))"
proof -
  obtain it a fd2 where it: "num it = block_num b" "item_id it = block_id_of sha b"
    "fork_ok sha fd2" "item_at fd2 = (item_at fd)(a \<mapsto> it)" "head_item fd2 = head_item fd"
    "find_block fd2 (block_id_of sha b) \<noteq> None" "fd' = raise_head a it fd2"
    by (rule push_state [OF assms]) blast
  obtain z q where z: "z \<in> set (fork_index fd2)" "item_at fd2 z = Some q" "item_id q = block_id_of sha b"
    using it(6) unfolding find_block_iff by blast
  have "num q = block_num b"
    using fork_okD(2) [OF it(3) z(2)] z(3) by (simp add: item_ok_def block_id_of_def)
  then have "z \<in> set (fork_index fd')"
    using z it(1,7) by (auto simp: raise_head_index word_sub_le split: option.splits)
  then have "find_block fd' (block_id_of sha b) \<noteq> None" unfolding find_block_iff using z(2,3) it(7) by auto
  then show ?thesis
    using raise_head_item [of fd2 a it] it by (auto simp: is_known_block_def not_less split: option.splits)
qed

text \<open>Longest fork and size limit: if no indexed block is higher than the head, the same
  holds after a push; and when a push moves the head, no block more than \<^verbatim>\<open>_max_size\<close> below the new
  head stays in the index.\<close>

theorem push_block_longest:
  assumes "fork_ok sha fd" and "head_item fd = Some h" and "fork_push_block sha b fd = Inr fd'"
    and "\<And>z q. z \<in> set (fork_index fd) \<Longrightarrow> item_at fd z = Some q \<Longrightarrow> num q \<le> num h"
  shows "\<exists>h'. head_item fd' = Some h' \<and>
     (\<forall>z\<in>set (fork_index fd'). \<forall>q. item_at fd' z = Some q \<longrightarrow>
        num q \<le> num h' \<and> (num h' > num h \<longrightarrow> uint (num q) \<ge> uint (num h') - uint (fork_max_size fd)))"
proof -
  obtain it a fd2 where it: "num it = block_num b" "item_at fd a = None" "item_at fd2 = (item_at fd)(a \<mapsto> it)"
    "head_item fd2 = head_item fd" "fork_max_size fd2 = fork_max_size fd"
    "set (fork_index fd2) \<subseteq> insert a (set (fork_index fd))" "fd' = raise_head a it fd2"
    by (rule push_state [OF assms(1,3)]) blast
  have at: "item_at fd2 a = Some it" using it(3) by simp
  have le: "num q \<le> num h" if "z \<in> set (fork_index fd2)" "item_at fd2 z = Some q" "z \<noteq> a" for z q
    using that assms(4) [of z q] it(3,6) by auto
  have low: "uint (n - min m n) \<ge> uint n - uint m" for n m :: "32 word"
    by (auto simp: min_def uint_minus_simple_alt word_le_def uint_sub_if')
  show ?thesis
  proof (cases "num it > num h")
    case True
    then have "head_item fd' = Some it" using raise_head_item [OF at] it(4,7) assms(2) by simp
    moreover have "num q \<le> num it \<and> uint (num q) \<ge> uint (num it) - uint (fork_max_size fd)"
      if "z \<in> set (fork_index fd')" "item_at fd' z = Some q" for z q
      using that True le [of z q] at low [of "num it" "fork_max_size fd"] it(4,5,7) assms(2)
      by (cases "z = a") (auto simp: raise_head_index word_le_def word_less_def)
    ultimately show ?thesis by blast
  next
    case False
    then have "head_item fd' = Some h" using raise_head_item [OF at] it(4,7) assms(2) by simp
    moreover have "num q \<le> num h" if "z \<in> set (fork_index fd')" "item_at fd' z = Some q" for z q
      using that False le [of z q] at it(4,7) assms(2)
      by (cases "z = a") (auto simp: raise_head_index)
    ultimately show ?thesis by auto
  qed
qed

lemma found_item:
  assumes "fork_ok sha fd" and "Option.bind (find_block fd i) (item_at fd) = Some x"
  shows "stored fd x \<and> item_id x = i \<and> num x = num_from_id i"
proof -
  obtain a where a: "find_block fd i = Some a" "item_at fd a = Some x" using assms(2) by (auto simp: bind_eq_Some_conv)
  then have "item_id x = i" using find_by_Some [of "\<lambda>it. item_id it = i" fd "fork_index fd" a] by (auto simp: find_block_def)
  then show ?thesis
    using fork_okD(2) [OF assms(1) a(2)] a(2) by (auto simp: stored_def item_ok_def block_id_of_def num_from_id_def)
qed

text \<open>The state before the third loop: both walks stand at the same number, and at most one of
  them has moved.\<close>

lemma walks_level:
  assumes ok: "fork_ok sha fd" and x: "stored fd x" and y: "stored fd y"
    and wx: "walk_down f fd (block_num (data y)) x [] = Inr (x', bx)"
    and wy: "walk_down f fd (block_num (data x')) y [] = Inr (y', by')"
  shows "path fd (bx @ [x'])" "path fd (by' @ [y'])" "num x' = num y'" "apart bx by'"
    "hd (bx @ [x']) = x" "hd (by' @ [y']) = y"
proof -
  have X: "path fd (bx @ [x']) \<and> uint (num x') \<le> uint (num y) \<and> (uint (num x) \<ge> uint (num y) \<longrightarrow> num x' = num y) \<and>
      (uint (num x) \<le> uint (num y) \<longrightarrow> x' = x \<and> bx = []) \<and> hd (bx @ [x']) = x"
    using walk_down_spec [OF ok _ wx] x stored_num [OF ok y] by (simp add: path_def)
  then have x': "stored fd x'" by (simp add: path_def)
  have Y: "path fd (by' @ [y']) \<and> (uint (num y) \<ge> uint (num x') \<longrightarrow> num y' = num x') \<and>
      (uint (num y) \<le> uint (num x') \<longrightarrow> by' = []) \<and> hd (by' @ [y']) = y"
    using walk_down_spec [OF ok _ wy] y stored_num [OF ok x'] by (simp add: path_def)
  show "path fd (bx @ [x'])" "path fd (by' @ [y'])" "num x' = num y'" "hd (bx @ [x']) = x" "hd (by' @ [y']) = y"
    using X Y by auto
  show "apart bx by'" using X Y by (cases "uint (num x) \<le> uint (num y)") (auto simp: apart_def)
qed

lemma path_links: "path fd xs \<Longrightarrow> successively (\<lambda>a b. previous (data a) = item_id b) xs"
  by (auto simp: path_def link_def elim: successively_mono)

lemma fetch_branch_spec:
  assumes "fork_ok sha fd" and "f > unat (num_from_id first)" and "f > unat (num_from_id second)"
  shows "fetch_branch_from f fd first second \<noteq> Inl Out_of_fuel \<and>
     (\<forall>xs ys. fetch_branch_from f fd first second = Inr (xs, ys) \<longrightarrow>
        path fd xs \<and> path fd ys \<and> xs \<noteq> [] \<and> ys \<noteq> [] \<and> item_id (hd xs) = first \<and> item_id (hd ys) = second \<and>
        previous (data (last xs)) = previous (data (last ys)) \<and> apart (butlast xs) ys \<and> apart xs (butlast ys))"
proof (cases "Option.bind (find_block fd first) (item_at fd)")
  case None
  then show ?thesis by (simp add: fetch_branch_from_def)
next
  case X: (Some x)
  note x = found_item [OF assms(1) X]
  show ?thesis
  proof (cases "Option.bind (find_block fd second) (item_at fd)")
    case None
    then show ?thesis using X by (simp add: fetch_branch_from_def)
  next
    case Y: (Some y)
    note y = found_item [OF assms(1) Y]
    have e: "fetch_branch_from f fd first second =
        rbind (walk_down f fd (block_num (data y)) x []) (\<lambda>(x', bx).
        rbind (walk_down f fd (block_num (data x')) y []) (\<lambda>(y', by'). walk_both f fd x' y' bx by'))"
      using X Y by (simp add: fetch_branch_from_def)
    have fuel: "walk_down f fd n x [] \<noteq> Inl Out_of_fuel" "walk_down f fd n y [] \<noteq> Inl Out_of_fuel" for n
      using walk_down_fuel [OF assms(1)] x y assms(2,3) by auto
    have level: "walk_both f fd x' y' bx by' \<noteq> Inl Out_of_fuel"
      if w: "walk_down f fd (block_num (data y)) x [] = Inr (x', bx)" "walk_down f fd (block_num (data x')) y [] = Inr (y', by')"
      for x' bx y' by'
    proof -
      note L = walks_level [OF assms(1) conjunct1 [OF x] conjunct1 [OF y] w]
      have "uint (num x') \<le> uint (num x)" using path_num [OF L(1)] L(5) by (cases bx) fastforce+
      then have "unat (num x') < f" using assms(2) x by (simp add: word_le_def [symmetric] word_le_nat_alt)
      then show ?thesis using walk_both_fuel [OF assms(1)] L(1,2) by (simp add: path_def)
    qed
    have "fetch_branch_from f fd first second \<noteq> Inl Out_of_fuel"
      unfolding e using fuel level by (auto simp: rbind_eq_Inl)
    moreover have "path fd xs \<and> path fd ys \<and> xs \<noteq> [] \<and> ys \<noteq> [] \<and> hd xs = x \<and> hd ys = y \<and>
        previous (data (last xs)) = previous (data (last ys)) \<and> apart (butlast xs) ys \<and> apart xs (butlast ys)"
      if r: "fetch_branch_from f fd first second = Inr (xs, ys)" for xs ys
    proof -
      obtain x' bx y' by' where w: "walk_down f fd (block_num (data y)) x [] = Inr (x', bx)"
          "walk_down f fd (block_num (data x')) y [] = Inr (y', by')" "walk_both f fd x' y' bx by' = Inr (xs, ys)"
        using r unfolding e by auto
      note L = walks_level [OF assms(1) conjunct1 [OF x] conjunct1 [OF y] w(1,2)]
      show ?thesis using walk_both_spec [OF assms(1) L(1-4) w(3)] L(5,6) by simp
    qed
    ultimately show ?thesis using x y by metis
  qed
qed

text \<open>C19. \<^verbatim>\<open>fetch_branch_from\<close> returns the two branches down to the common ancestor: they start
  at the two given blocks, every block in them links to the next one, the last blocks of both
  have the same predecessor, and no other pair of blocks has. With more fuel than the larger
  block number the loops never run out of it.\<close>

theorem fetch_branch_from_correct:
  assumes "fork_ok sha fd" and "f > unat (num_from_id first)" and "f > unat (num_from_id second)"
  shows "fetch_branch_from f fd first second \<noteq> Inl Out_of_fuel \<and>
     (\<forall>xs ys. fetch_branch_from f fd first second = Inr (xs, ys) \<longrightarrow>
        xs \<noteq> [] \<and> ys \<noteq> [] \<and> item_id (hd xs) = first \<and> item_id (hd ys) = second \<and>
        successively (\<lambda>a b. previous (data a) = item_id b) xs \<and>
        successively (\<lambda>a b. previous (data a) = item_id b) ys \<and>
        previous (data (last xs)) = previous (data (last ys)) \<and>
        (\<forall>x\<in>set (butlast xs). \<forall>y\<in>set ys. previous (data x) \<noteq> previous (data y)) \<and>
        (\<forall>x\<in>set xs. \<forall>y\<in>set (butlast ys). previous (data x) \<noteq> previous (data y)))"
  using fetch_branch_spec [OF assms] path_links unfolding apart_def by metis

definition descends :: "'p fork_database \<Rightarrow> 'p fork_item \<Rightarrow> 'p fork_item \<Rightarrow> bool" where
  "descends fd = (\<lambda>a b. step_back fd a = Inr b)\<^sup>*\<^sup>*"

lemma descends_step:
  assumes "descends fd x z" and "x \<noteq> z"
  obtains y where "step_back fd x = Inr y" "descends fd y z"
  using assms unfolding descends_def by (metis (mono_tags, lifting) converse_rtranclpE)

lemma descends_num:
  assumes "fork_ok sha fd"
  shows "descends fd x z \<Longrightarrow> stored fd x \<Longrightarrow> stored fd z \<and> uint (num z) \<le> uint (num x) \<and> (num x = num z \<longrightarrow> x = z)"
  unfolding descends_def
proof (induction rule: converse_rtranclp_induct)
  case (step x y)
  then show ?case using step_back_link [OF assms step.prems step.hyps(1)] by (auto simp: link_def)
qed simp

lemma walk_down_succeeds:
  assumes "fork_ok sha fd"
  shows "stored fd x \<Longrightarrow> descends fd x z \<Longrightarrow> uint (num z) \<le> uint n \<Longrightarrow> f > unat (num x) \<Longrightarrow>
     \<exists>x' acc'. walk_down f fd n x acc = Inr (x', acc') \<and> descends fd x' z \<and> stored fd x'"
proof (induction f arbitrary: x acc)
  case (Suc f)
  show ?case
  proof (cases "num x > n")
    case True
    then have "x \<noteq> z" using Suc.prems(3) by (auto simp: word_less_def)
    then obtain y where y: "step_back fd x = Inr y" "descends fd y z" by (rule descends_step [OF Suc.prems(2)])
    note L = step_back_link [OF assms Suc.prems(1) y(1)]
    then show ?thesis
      using Suc.IH [OF _ y(2) Suc.prems(3), of "acc @ [x]"] y(1) True Suc.prems(4) stored_num [OF assms Suc.prems(1)]
      by (auto dest: link_unat)
  next
    case False
    then show ?thesis using Suc.prems stored_num [OF assms Suc.prems(1)] by simp
  qed
qed simp

lemma walk_both_succeeds:
  assumes "fork_ok sha fd"
  shows "stored fd x \<Longrightarrow> stored fd y \<Longrightarrow> num x = num y \<Longrightarrow> descends fd x z \<Longrightarrow> descends fd y z \<Longrightarrow> f > unat (num x) \<Longrightarrow>
     \<exists>r. walk_both f fd x y bx by' = Inr r"
proof (induction f arbitrary: x y bx by')
  case (Suc f)
  show ?case
  proof (cases "previous (data x) = previous (data y)")
    case False
    then have "x \<noteq> y" by auto
    then have "x \<noteq> z" "y \<noteq> z"
      using descends_num [OF assms Suc.prems(4,1)] descends_num [OF assms Suc.prems(5,2)] Suc.prems(3) by auto
    obtain x' where x': "step_back fd x = Inr x'" "descends fd x' z" by (rule descends_step [OF Suc.prems(4) \<open>x \<noteq> z\<close>])
    obtain y' where y': "step_back fd y = Inr y'" "descends fd y' z" by (rule descends_step [OF Suc.prems(5) \<open>y \<noteq> z\<close>])
    note L = step_back_link [OF assms Suc.prems(1) x'(1)] step_back_link [OF assms Suc.prems(2) y'(1)]
    have "num x' = num y'" using L Suc.prems(3) by (auto simp: link_def word_uint_eq_iff)
    moreover have "unat (num x') < f" using L(1) Suc.prems(6) by (auto dest: link_unat)
    ultimately show ?thesis using Suc.IH [OF _ _ _ x'(2) y'(2)] L x'(1) y'(1) False by simp
  qed simp
qed simp

text \<open>\<^verbatim>\<open>fetch_branch_from\<close> succeeds for every two indexed blocks that still have a common
  ancestor in the database.\<close>

theorem fetch_branch_from_succeeds:
  assumes "fork_ok sha fd" and "f > unat (num_from_id first)" and "f > unat (num_from_id second)"
    and "Option.bind (find_block fd first) (item_at fd) = Some x"
    and "Option.bind (find_block fd second) (item_at fd) = Some y"
    and "descends fd x z" and "descends fd y z"
  shows "\<exists>xs ys. fetch_branch_from f fd first second = Inr (xs, ys)"
proof -
  note x = found_item [OF assms(1,4)] and y = found_item [OF assms(1,5)]
  have zy: "uint (num z) \<le> uint (num y)" using descends_num [OF assms(1,7)] y by blast
  obtain x' bx where wx: "walk_down f fd (block_num (data y)) x [] = Inr (x', bx)" "descends fd x' z" "stored fd x'"
    using walk_down_succeeds [OF assms(1) _ assms(6), of "num y" f "[]"] zy x y assms(2) stored_num [OF assms(1), of y] by auto
  have "uint (num z) \<le> uint (num x')" using descends_num [OF assms(1) wx(2,3)] by blast
  then obtain y' by' where wy: "walk_down f fd (block_num (data x')) y [] = Inr (y', by')" "descends fd y' z" "stored fd y'"
    using walk_down_succeeds [OF assms(1) _ assms(7), of "num x'" f "[]"] y assms(3) stored_num [OF assms(1) wx(3)] by auto
  note L = walks_level [OF assms(1) conjunct1 [OF x] conjunct1 [OF y] wx(1) wy(1)]
  have "uint (num x') \<le> uint (num x)" using path_num [OF L(1)] L(5) by (cases bx) fastforce+
  then have "unat (num x') < f" using assms(2) x by (simp add: word_le_def [symmetric] word_le_nat_alt)
  then obtain r where "walk_both f fd x' y' bx by' = Inr r"
    using walk_both_succeeds [OF assms(1) wx(3) wy(3) L(3) wx(2) wy(2)] by blast
  then show ?thesis using assms(4,5) wx(1) wy(1) by (cases r) (simp add: fetch_branch_from_def)
qed

section \<open>Witnesses\<close>

text \<open>Two forks on one first block; the payload of a block serves as its hash.\<close>

definition sample_block :: "block_id \<Rightarrow> nat \<Rightarrow> nat signed_block" where
  "sample_block p n = \<lparr>previous = p, body = n\<rparr>"

definition sample_root :: "nat fork_database" where
  "sample_root = projr (fork_push_block body (sample_block null_block_id 11) initial_fork_database)"

definition sample_head :: "nat fork_database" where
  "sample_head = projr (fork_push_block body (sample_block (Block_id 1 11) 21) sample_root)"

definition sample_forks :: "nat fork_database" where
  "sample_forks = projr (fork_push_block body (sample_block (Block_id 1 11) 22) sample_head)"

lemmas fork_eval = sample_block_def fork_push_block_def push_item_def fork_item_of_def initial_fork_database_def
  head_item_def block_num_def num_from_id_def block_id_of_def null_block_id_def make_shared_def index_item_def
  raise_head_def find_block_def find_by_def item_at_def drop_below_def Let_def
  sample_root_def sample_head_def sample_forks_def

lemma sample_forks_eq:
  "sample_forks = \<lparr>fork_max_size = 1024,
     fork_heap = [(2, \<lparr>prev = Some 0, num = 2, item_id = Block_id 2 22, data = sample_block (Block_id 1 11) 22\<rparr>),
                  (1, \<lparr>prev = Some 0, num = 2, item_id = Block_id 2 21, data = sample_block (Block_id 1 11) 21\<rparr>),
                  (0, \<lparr>prev = None, num = 1, item_id = Block_id 1 11, data = sample_block null_block_id 11\<rparr>)],
     unlinked_index = [], fork_index = [2, 1, 0], fork_head = Some 1\<rparr>"
  by (simp add: fork_eval)

lemma sample_pushes:
  "fork_push_block body (sample_block null_block_id 11) initial_fork_database = Inr sample_root"
  "fork_push_block body (sample_block (Block_id 1 11) 21) sample_root = Inr sample_head"
  "fork_push_block body (sample_block (Block_id 1 11) 22) sample_head = Inr sample_forks"
  by (simp_all add: fork_eval)

lemma sample_reachable: "fork_reachable body sample_root" "fork_reachable body sample_head" "fork_reachable body sample_forks"
  using sample_pushes by (blast intro: reach_push reach_initial)+

theorem fork_tree_witness:
  "unlinked_index sample_forks = [] \<and> (\<exists>q. item_at sample_forks 0 = Some q \<and> item_id q = Block_id 1 11 \<and> uint (num q) + 1 = 2)"
proof -
  have "item_at sample_forks 2 = Some \<lparr>prev = Some 0, num = 2, item_id = Block_id 2 22, data = sample_block (Block_id 1 11) 22\<rparr>"
    by (simp add: sample_forks_eq item_at_def)
  then show ?thesis using fork_tree [OF sample_reachable(3)] by (fastforce simp: sample_block_def)
qed

theorem push_block_head_witness:
  "is_known_block sample_head (Block_id 2 21) \<and> (\<exists>h. head_item sample_head = Some h \<and> num h \<ge> 2)"
  using push_block_head [OF reachable_ok [OF sample_reachable(1)] sample_pushes(2)]
  by (auto simp: sample_block_def block_id_of_def block_num_def num_from_id_def)

theorem push_block_longest_witness:
  "\<exists>h'. head_item sample_head = Some h' \<and>
     (\<forall>z\<in>set (fork_index sample_head). \<forall>q. item_at sample_head z = Some q \<longrightarrow> num q \<le> num h')"
proof -
  have root: "head_item sample_root = Some \<lparr>prev = None, num = 1, item_id = Block_id 1 11, data = sample_block null_block_id 11\<rparr>"
    by (simp add: fork_eval)
  have "num q \<le> 1" if "z \<in> set (fork_index sample_root)" "item_at sample_root z = Some q" for z q
    using that by (auto simp: fork_eval split: if_splits)
  then show ?thesis
    using push_block_longest [OF reachable_ok [OF sample_reachable(1)] root sample_pushes(2)] by fastforce
qed

theorem fetch_branch_from_correct_witness:
  "\<exists>xs ys. fetch_branch_from 3 sample_forks (Block_id 2 21) (Block_id 2 22) = Inr (xs, ys) \<and>
     item_id (hd xs) = Block_id 2 21 \<and> previous (data (last xs)) = previous (data (last ys))"
proof -
  have "\<exists>xs ys. fetch_branch_from 3 sample_forks (Block_id 2 21) (Block_id 2 22) = Inr (xs, ys)"
    unfolding sample_forks_eq by (simp add: fetch_branch_from_def fork_eval eval_nat_numeral)
  then show ?thesis
    using fetch_branch_from_correct [OF reachable_ok [OF sample_reachable(3)], of "Block_id 2 21" 3 "Block_id 2 22"]
    by (auto simp: num_from_id_def)
qed

theorem fetch_branch_from_succeeds_witness:
  "\<exists>xs ys. fetch_branch_from 3 sample_forks (Block_id 2 21) (Block_id 2 22) = Inr (xs, ys)"
proof (rule fetch_branch_from_succeeds [OF reachable_ok [OF sample_reachable(3)]])
  let ?x = "\<lparr>prev = Some 0, num = 2, item_id = Block_id 2 21, data = sample_block (Block_id 1 11) 21\<rparr>"
    and ?y = "\<lparr>prev = Some 0, num = 2, item_id = Block_id 2 22, data = sample_block (Block_id 1 11) 22\<rparr>"
    and ?z = "\<lparr>prev = None, num = 1, item_id = Block_id 1 11, data = sample_block null_block_id 11\<rparr>"
  show "Option.bind (find_block sample_forks (Block_id 2 21)) (item_at sample_forks) = Some ?x"
    "Option.bind (find_block sample_forks (Block_id 2 22)) (item_at sample_forks) = Some ?y"
    unfolding sample_forks_eq by (simp_all add: fork_eval)
  show "descends sample_forks ?x ?z" "descends sample_forks ?y ?z"
    unfolding descends_def sample_forks_eq
    by (rule r_into_rtranclp, simp add: step_back_def lock_def alive_def item_at_def)+
qed (simp_all add: num_from_id_def)

end
