(* ===== verification/Block_Chain.thy ===== *)
theory Block_Chain
  imports Fork_Proofs
begin

text \<open>
  Pushing and popping blocks: \<^verbatim>\<open>database::push_block\<close>, \<^verbatim>\<open>pop_block\<close> and the pending transactions of
  \<^verbatim>\<open>db_block.cpp\<close>, over the fork database and the undo history.

  The object state is a type parameter \<open>'s\<close>, and what a block or a transaction does to it is given
  by the environment: nothing here depends on it. The undo history is the stack of snapshots that
  \<open>Undo_Sessions\<close> shows the undo database to be: a session saves the current state, \<^verbatim>\<open>commit\<close> keeps
  the snapshot, \<^verbatim>\<open>pop_undo\<close> returns to it, and a session left by an exception is undone.
  What a block that throws has changed by then is \<open>env_left\<close>, an arbitrary state.
  \<open>env_apply\<close> also says to which size it set the histories before it returned or threw
  (\<^verbatim>\<open>update_global_dynamic_data\<close> runs inside \<^verbatim>\<open>apply_block\<close>). Operations return the state they leave
  together with a result, because an exception does not undo what happened outside of a session.
\<close>

record ('p, 't, 's) chain_env =
  env_sha :: "'p signed_block \<Rightarrow> nat"
  env_head_id :: "'s \<Rightarrow> block_id"
  env_head_num :: "'s \<Rightarrow> 32 word"
  env_apply :: "32 word \<Rightarrow> 'p signed_block \<Rightarrow> 's \<Rightarrow> 32 word option \<times> 's result"
  env_left :: "32 word \<Rightarrow> 'p signed_block \<Rightarrow> 's \<Rightarrow> 's"
  env_transactions :: "'p signed_block \<Rightarrow> 't list"
  env_apply_tx :: "'t \<Rightarrow> 's \<Rightarrow> ('t \<times> 's) result"
  env_known_tx :: "'t \<Rightarrow> 's \<Rightarrow> bool"

record ('p, 't, 's) chain_db =
  c_fork :: "'p fork_database"
  c_blocks :: "(block_id \<times> 'p signed_block) list"
  c_state :: 's
  c_undo :: "'s list"
  c_max_undo :: nat
  c_pending_tx :: "'t list"
  c_pending_session :: "'s option"
  c_popped_tx :: "'t list"
  c_checkpoints :: "(32 word \<times> block_id) list"

section \<open>Blocks\<close>

definition chain_is_known_block :: "('p, 't, 's) chain_db \<Rightarrow> block_id \<Rightarrow> bool" where
  "chain_is_known_block c i \<longleftrightarrow> is_known_block (c_fork c) i \<or> map_of (c_blocks c) i \<noteq> None"

definition fetch_block_by_id :: "('p, 't, 's) chain_db \<Rightarrow> block_id \<Rightarrow> 'p signed_block option" where
  "fetch_block_by_id c i =
     (case Option.bind (fetch_block (c_fork c) i) (item_at (c_fork c)) of
        None \<Rightarrow> map_of (c_blocks c) i
      | Some b \<Rightarrow> Some (data b))"

text \<open>\<^verbatim>\<open>apply_block\<close>: the checkpoints (a map sorted by number) may refuse the block, and lift the
  checks of every block up to the last one.\<close>

definition checkpoint_skip ::
  "('p signed_block \<Rightarrow> nat) \<Rightarrow> (32 word \<times> block_id) list \<Rightarrow> 'p signed_block \<Rightarrow> 32 word \<Rightarrow> 32 word result" where
  "checkpoint_skip sha cps b skip =
     (if cps \<noteq> [] \<and> snd (last cps) \<noteq> null_block_id
      then require (case map_of cps (block_num b) of None \<Rightarrow> True | Some i \<Rightarrow> block_id_of sha b = i) Assert_failed
             (Inr (if fst (last cps) \<ge> block_num b then - 1 else skip))
      else Inr skip)"

text \<open>One block in a session of its own: \<^verbatim>\<open>start_undo_session\<close>, \<^verbatim>\<open>apply_block\<close>, storing the block and
  \<^verbatim>\<open>commit\<close>.\<close>

definition set_histories :: "32 word option \<Rightarrow> ('p, 't, 's) chain_db \<Rightarrow> ('p, 't, 's) chain_db" where
  "set_histories n c =
     (case n of None \<Rightarrow> c
      | Some k \<Rightarrow> c\<lparr>c_fork := set_max_size k (c_fork c), c_max_undo := unat k\<rparr>)"

definition start_session :: "('p, 't, 's) chain_db \<Rightarrow> ('p, 't, 's) chain_db" where
  "start_session c = c\<lparr>c_undo := c_state c # take (c_max_undo c) (c_undo c)\<rparr>"

text \<open>The destructor of a session that was neither committed nor merged.\<close>

definition undo_session :: "('p, 't, 's) chain_db \<Rightarrow> ('p, 't, 's) chain_db" where
  "undo_session c = (case c_undo c of [] \<Rightarrow> c | s # rest \<Rightarrow> c\<lparr>c_state := s, c_undo := rest\<rparr>)"

definition apply_in_session ::
  "('p, 't, 's) chain_env \<Rightarrow> 32 word \<Rightarrow> 'p signed_block \<Rightarrow> ('p, 't, 's) chain_db \<Rightarrow> ('p, 't, 's) chain_db \<times> unit result" where
  "apply_in_session E skip b c =
     (let c1 = start_session c
      in case checkpoint_skip (env_sha E) (c_checkpoints c1) b skip of
           Inl e \<Rightarrow> (undo_session c1, Inl e)
         | Inr skip' \<Rightarrow>
             (case env_apply E skip' b (c_state c1) of
                (n, Inl e) \<Rightarrow> (undo_session ((set_histories n c1)\<lparr>c_state := env_left E skip' b (c_state c1)\<rparr>), Inl e)
              | (n, Inr s) \<Rightarrow>
                  ((set_histories n c1)\<lparr>c_state := s, c_blocks := AList.update (block_id_of (env_sha E) b) b (c_blocks c1)\<rparr>, Inr ())))"

lemmas apply_in_session_defs = apply_in_session_def start_session_def undo_session_def Let_def

definition reset_pending_session :: "('p, 't, 's) chain_db \<Rightarrow> ('p, 't, 's) chain_db" where
  "reset_pending_session c =
     (case c_pending_session c of None \<Rightarrow> c | Some s \<Rightarrow> c\<lparr>c_state := s, c_pending_session := None\<rparr>)"

definition pop_block :: "('p, 't, 's) chain_env \<Rightarrow> ('p, 't, 's) chain_db \<Rightarrow> ('p, 't, 's) chain_db \<times> unit result" where
  "pop_block E c0 =
     (let c = reset_pending_session c0
      in case fetch_block_by_id c (env_head_id E (c_state c)) of
           None \<Rightarrow> (c, Inl Assert_failed)
         | Some b \<Rightarrow>
             (case fork_pop_block (c_fork c) of
                Inl e \<Rightarrow> (c, Inl e)
              | Inr fd \<Rightarrow>
                  (case c_undo c of
                     [] \<Rightarrow> (c\<lparr>c_fork := fd\<rparr>, Inl Assert_failed)
                   | s # rest \<Rightarrow>
                       (c\<lparr>c_fork := fd, c_state := s, c_undo := rest,
                          c_popped_tx := env_transactions E b @ c_popped_tx c\<rparr>, Inr ()))))"

lemma pop_block_shorter: "pop_block E c = (c', Inr u) \<Longrightarrow> length (c_undo c') < length (c_undo c)"
proof -
  have "c_undo (reset_pending_session c) = c_undo c"
    by (simp add: reset_pending_session_def split: option.splits)
  then show "pop_block E c = (c', Inr u) \<Longrightarrow> length (c_undo c') < length (c_undo c)"
    by (auto simp: pop_block_def Let_def split: option.splits sum.splits list.splits)
qed

text \<open>\<^verbatim>\<open>while( head_block_id() != target ) pop_block()\<close>: every pop takes one snapshot, so the loop ends.\<close>

function pop_until ::
  "('p, 't, 's) chain_env \<Rightarrow> block_id \<Rightarrow> ('p, 't, 's) chain_db \<Rightarrow> ('p, 't, 's) chain_db \<times> unit result" where
  "pop_until E target c =
     (if env_head_id E (c_state c) = target then (c, Inr ())
      else case pop_block E c of
             (c', Inl e) \<Rightarrow> (c', Inl e)
           | (c', Inr _) \<Rightarrow> pop_until E target c')"
  by pat_completeness auto

termination
  by (relation "measure (\<lambda>(E, target, c). length (c_undo c))") (auto dest: pop_block_shorter [OF sym])

declare pop_until.simps [simp del]

text \<open>Applying the blocks of a branch, oldest first. On failure the blocks from the failed one on
  are returned.\<close>

fun push_branch ::
  "('p, 't, 's) chain_env \<Rightarrow> 32 word \<Rightarrow> 'p fork_item list \<Rightarrow> ('p, 't, 's) chain_db \<Rightarrow>
     ('p, 't, 's) chain_db \<times> (error \<times> 'p fork_item list) option" where
  "push_branch E skip [] c = (c, None)"
| "push_branch E skip (x # xs) c =
     (case apply_in_session E skip (data x) c of
        (c', Inl e) \<Rightarrow> (c', Some (e, x # xs))
      | (c', Inr _) \<Rightarrow> push_branch E skip xs c')"

definition switch_back ::
  "('p, 't, 's) chain_env \<Rightarrow> 32 word \<Rightarrow> nat option \<Rightarrow> 'p fork_item list \<Rightarrow> 'p fork_item list \<Rightarrow> error \<Rightarrow>
     ('p, 't, 's) chain_db \<Rightarrow> ('p, 't, 's) chain_db \<times> bool result" where
  "switch_back E skip front bad second e c =
     (let fd = set_head front (fold (\<lambda>x. fork_remove (item_id x)) bad (c_fork c))
      in case pop_until E (previous (data (last second))) (c\<lparr>c_fork := fd\<rparr>) of
           (c1, Inl e1) \<Rightarrow> (c1, Inl e1)
         | (c1, Inr _) \<Rightarrow>
             (case push_branch E skip (rev second) c1 of
                (c2, Some (e2, _)) \<Rightarrow> (c2, Inl e2)
              | (c2, None) \<Rightarrow> (c2, Inl e)))"

definition switch_fork ::
  "('p, 't, 's) chain_env \<Rightarrow> 32 word \<Rightarrow> block_id \<Rightarrow> ('p, 't, 's) chain_db \<Rightarrow> ('p, 't, 's) chain_db \<times> bool result" where
  "switch_fork E skip new_head c =
     (let head_id = env_head_id E (c_state c);
          fuel = Suc (max (unat (num_from_id new_head)) (unat (num_from_id head_id)))
      in case fetch_branch_from fuel (c_fork c) new_head head_id of
           Inl e \<Rightarrow> (c, Inl e)
         | Inr (first, second) \<Rightarrow>
             let front = find_block (c_fork c) head_id
             in case pop_until E (previous (data (last second))) c of
                  (c1, Inl e) \<Rightarrow> (c1, Inl e)
                | (c1, Inr _) \<Rightarrow>
                    (case push_branch E skip (rev first) c1 of
                       (c2, None) \<Rightarrow> (c2, Inr True)
                     | (c2, Some (e, bad)) \<Rightarrow> switch_back E skip front bad second e c2))"

definition extend_chain ::
  "('p, 't, 's) chain_env \<Rightarrow> 32 word \<Rightarrow> 'p signed_block \<Rightarrow> ('p, 't, 's) chain_db \<Rightarrow> ('p, 't, 's) chain_db \<times> bool result" where
  "extend_chain E skip b c =
     (case apply_in_session E skip b c of
        (c', Inl e) \<Rightarrow> (c'\<lparr>c_fork := fork_remove (block_id_of (env_sha E) b) (c_fork c')\<rparr>, Inl e)
      | (c', Inr _) \<Rightarrow> (c', Inr False))"

definition skip_fork_db :: "32 word" where
  "skip_fork_db = 8"

definition push_block_inner ::
  "('p, 't, 's) chain_env \<Rightarrow> 32 word \<Rightarrow> 'p signed_block \<Rightarrow> ('p, 't, 's) chain_db \<Rightarrow> ('p, 't, 's) chain_db \<times> bool result" where
  "push_block_inner E skip b c =
     (if and skip skip_fork_db = 0
      then case fork_push_block (env_sha E) b (c_fork c) of
             Inl e \<Rightarrow> (c, Inl e)
           | Inr fd \<Rightarrow>
               let c1 = c\<lparr>c_fork := fd\<rparr>
               in case head_item fd of
                    None \<Rightarrow> (c1, Inl Assert_failed)
                  | Some h \<Rightarrow>
                      if previous (data h) \<noteq> env_head_id E (c_state c)
                      then if block_num (data h) > env_head_num E (c_state c)
                           then switch_fork E skip (block_id_of (env_sha E) (data h)) c1
                           else (c1, Inr False)
                      else extend_chain E skip b c1
      else extend_chain E skip b c)"

section \<open>Pending transactions\<close>

definition push_transaction ::
  "('p, 't, 's) chain_env \<Rightarrow> 't \<Rightarrow> ('p, 't, 's) chain_db \<Rightarrow> ('p, 't, 's) chain_db \<times> 't result" where
  "push_transaction E tx c =
     (let c1 = (if c_pending_session c = None
                then c\<lparr>c_pending_session := Some (c_state c), c_undo := take (c_max_undo c) (c_undo c)\<rparr> else c);
          c2 = c1\<lparr>c_undo := take (c_max_undo c - 1) (c_undo c1)\<rparr>
      in case env_apply_tx E tx (c_state c2) of
           Inl e \<Rightarrow> (c2, Inl e)
         | Inr (ptx, s) \<Rightarrow> (c2\<lparr>c_state := s, c_pending_tx := c_pending_tx c2 @ [ptx]\<rparr>, Inr ptx))"

definition clear_pending :: "('p, 't, 's) chain_db \<Rightarrow> ('p, 't, 's) chain_db" where
  "clear_pending c = reset_pending_session (c\<lparr>c_pending_tx := []\<rparr>)"

definition repush :: "('p, 't, 's) chain_env \<Rightarrow> 't \<Rightarrow> ('p, 't, 's) chain_db \<Rightarrow> ('p, 't, 's) chain_db" where
  "repush E tx c = (if env_known_tx E tx (c_state c) then c else fst (push_transaction E tx c))"

definition push_block ::
  "('p, 't, 's) chain_env \<Rightarrow> 32 word \<Rightarrow> 'p signed_block \<Rightarrow> ('p, 't, 's) chain_db \<Rightarrow> ('p, 't, 's) chain_db \<times> bool result" where
  "push_block E skip b c =
     (let (c1, r) = push_block_inner E skip b (clear_pending c);
          c2 = fold (repush E) (c_popped_tx c1) c1
      in (fold (repush E) (c_pending_tx c) (c2\<lparr>c_popped_tx := []\<rparr>), r))"

definition validate_transaction ::
  "('p, 't, 's) chain_env \<Rightarrow> 't \<Rightarrow> ('p, 't, 's) chain_db \<Rightarrow> 't result" where
  "validate_transaction E tx c = rbind (env_apply_tx E tx (c_state c)) (\<lambda>(ptx, s). Inr ptx)"

definition get_block_ids_on_fork :: "('p, 't, 's) chain_env \<Rightarrow> block_id \<Rightarrow> ('p, 't, 's) chain_db \<Rightarrow> block_id list result" where
  "get_block_ids_on_fork E head_of_fork c =
     (let head_id = env_head_id E (c_state c);
          fuel = Suc (max (unat (num_from_id head_id)) (unat (num_from_id head_of_fork)))
      in rbind (fetch_branch_from fuel (c_fork c) head_id head_of_fork) (\<lambda>(first, second).
           Inr (map item_id second @ [previous (data (last first))])))"

definition add_checkpoints :: "(32 word \<times> block_id) list \<Rightarrow> ('p, 't, 's) chain_db \<Rightarrow> ('p, 't, 's) chain_db" where
  "add_checkpoints cps c =
     c\<lparr>c_checkpoints := sort_key fst (fold (\<lambda>(n, i). AList.update n i) cps (c_checkpoints c))\<rparr>"

definition before_last_checkpoint :: "('p, 't, 's) chain_env \<Rightarrow> ('p, 't, 's) chain_db \<Rightarrow> bool" where
  "before_last_checkpoint E c \<longleftrightarrow>
     c_checkpoints c \<noteq> [] \<and> fst (last (c_checkpoints c)) \<ge> env_head_num E (c_state c)"

section \<open>Lemmas\<close>

text \<open>\<open>replay\<close>: applying blocks one after the other, each with the checks its checkpoints leave.\<close>

fun replay :: "('p, 't, 's) chain_env \<Rightarrow> (32 word \<times> block_id) list \<Rightarrow> 32 word \<Rightarrow> 'p signed_block list \<Rightarrow> 's \<Rightarrow> 's result" where
  "replay E cps skip [] s = Inr s"
| "replay E cps skip (b # bs) s =
     rbind (checkpoint_skip (env_sha E) cps b skip) (\<lambda>skip'.
     rbind (snd (env_apply E skip' b s)) (replay E cps skip bs))"

lemma set_histories_simps [simp]:
  "c_state (set_histories n c) = c_state c" "c_undo (set_histories n c) = c_undo c"
  "c_checkpoints (set_histories n c) = c_checkpoints c" "c_pending_session (set_histories n c) = c_pending_session c"
  "c_pending_tx (set_histories n c) = c_pending_tx c" "c_popped_tx (set_histories n c) = c_popped_tx c"
  by (simp_all add: set_histories_def split: option.splits)

lemma apply_in_session_success:
  assumes "apply_in_session E skip b c = (c', Inr u)"
  shows "replay E (c_checkpoints c) skip [b] (c_state c) = Inr (c_state c') \<and>
     c_undo c' = c_state c # take (c_max_undo c) (c_undo c) \<and> c_checkpoints c' = c_checkpoints c \<and>
     c_pending_session c' = c_pending_session c \<and> map_of (c_blocks c') (block_id_of (env_sha E) b) = Some b"
  using assms by (auto simp: apply_in_session_defs update_conv' split: sum.splits prod.splits)

lemma apply_in_session_failure:
  assumes "apply_in_session E skip b c = (c', Inl e)"
  shows "c_state c' = c_state c \<and> c_undo c' = take (c_max_undo c) (c_undo c) \<and> c_blocks c' = c_blocks c \<and>
     c_pending_session c' = c_pending_session c \<and> replay E (c_checkpoints c) skip [b] (c_state c) = Inl e"
  using assms by (auto simp: apply_in_session_defs set_histories_def split: sum.splits prod.splits option.splits)

lemma push_branch_success:
  "push_branch E skip xs c = (c', None) \<Longrightarrow>
     replay E (c_checkpoints c) skip (map data xs) (c_state c) = Inr (c_state c') \<and>
     c_checkpoints c' = c_checkpoints c \<and> c_pending_session c' = c_pending_session c"
proof (induction xs arbitrary: c)
  case (Cons x xs)
  then obtain c1 u where c1: "apply_in_session E skip (data x) c = (c1, Inr u)" "push_branch E skip xs c1 = (c', None)"
    by (auto split: prod.splits sum.splits)
  show ?case using Cons.IH [OF c1(2)] apply_in_session_success [OF c1(1)] by auto
qed simp

lemma pop_until_success:
  "c_pending_session c = None \<Longrightarrow> pop_until E target c = (c', Inr u) \<Longrightarrow>
     env_head_id E (c_state c') = target \<and> c_state c' \<in> set (c_state c # c_undo c) \<and>
     c_checkpoints c' = c_checkpoints c \<and> c_pending_session c' = None"
proof (induction E target c rule: pop_until.induct)
  case (1 E target c)
  show ?case
  proof (cases "env_head_id E (c_state c) = target")
    case True
    then show ?thesis using 1 by (simp add: pop_until.simps)
  next
    case False
    then obtain c1 v where c1: "pop_block E c = (c1, Inr v)" "pop_until E target c1 = (c', Inr u)"
      using "1.prems"(2) by (subst (asm) pop_until.simps) (auto split: prod.splits sum.splits)
    have "c_pending_session c1 = None \<and> c_undo c = c_state c1 # c_undo c1 \<and> c_checkpoints c1 = c_checkpoints c"
      using c1(1) "1.prems"(1)
      by (auto simp: pop_block_def Let_def reset_pending_session_def split: option.splits sum.splits list.splits)
    then show ?thesis using "1.IH" [OF False c1(1) [symmetric] refl _ c1(2)] by auto
  qed
qed

section \<open>Properties of pushing blocks\<close>

lemma switch_fork_success:
  assumes "fork_ok sha (c_fork c)" and "c_pending_session c = None" and "switch_fork E skip new_head c = (c', Inr sw)"
  shows "sw \<and> (\<exists>s0 bs. s0 \<in> set (c_state c # c_undo c) \<and> bs \<noteq> [] \<and> env_head_id E s0 = previous (hd bs) \<and>
     successively (\<lambda>a b. previous b = block_id_of sha a) bs \<and> block_id_of sha (last bs) = new_head \<and>
     replay E (c_checkpoints c) skip bs s0 = Inr (c_state c'))"
proof -
  let ?h = "env_head_id E (c_state c)"
  let ?fuel = "Suc (max (unat (num_from_id new_head)) (unat (num_from_id ?h)))"
  have no_back: "switch_back E skip front bad second e c2 \<noteq> (c3, Inr v)" for front bad second e c2 c3 v
    by (auto simp: switch_back_def Let_def split: prod.splits sum.splits option.splits)
  obtain xs ys c1 u where f: "fetch_branch_from ?fuel (c_fork c) new_head ?h = Inr (xs, ys)"
      "pop_until E (previous (data (last ys))) c = (c1, Inr u)" "push_branch E skip (rev xs) c1 = (c', None)" "sw"
    using assms(3) no_back by (auto simp: switch_fork_def Let_def split: sum.splits prod.splits option.splits)
  have B: "path (c_fork c) xs" "xs \<noteq> []" "item_id (hd xs) = new_head" "previous (data (last xs)) = previous (data (last ys))"
    using fetch_branch_spec [OF assms(1), of new_head ?fuel ?h] f(1) by auto
  have P: "env_head_id E (c_state c1) = previous (data (last xs))" "c_state c1 \<in> set (c_state c # c_undo c)"
      "c_checkpoints c1 = c_checkpoints c"
    using pop_until_success [OF assms(2) f(2)] B(4) by auto
  have ids: "x \<in> set xs \<Longrightarrow> item_id x = block_id_of sha (data x)" for x
    using B(1) fork_okD(2) [OF assms(1)] by (auto simp: path_def stored_def item_ok_def)
  have "successively (\<lambda>a b. previous (data a) = block_id_of sha (data b)) xs"
    using B(1) ids by (auto simp: path_def link_def intro: successively_mono [of link])
  then have "successively (\<lambda>a b. previous b = block_id_of sha a) (map data (rev xs))"
    by (simp add: successively_map successively_rev)
  moreover have "previous (hd (map data (rev xs))) = previous (data (last xs))" "block_id_of sha (last (map data (rev xs))) = new_head"
    using B(2,3) ids by (simp_all add: hd_map last_map hd_rev last_rev)
  moreover have "replay E (c_checkpoints c) skip (map data (rev xs)) (c_state c1) = Inr (c_state c')"
    using push_branch_success [OF f(3)] P(3) by simp
  ultimately show ?thesis using P(1,2) B(2) f(4)
    by (intro conjI exI [of _ "c_state c1"] exI [of _ "map data (rev xs)"]) simp_all
qed

text \<open>C7. Where a pushed block leaves the chain, when \<^verbatim>\<open>_push_block\<close> returns. Without the fork database the block was applied to the head state. Otherwise
  the block is in the fork database, and its head decides: if that head builds on the head of the chain, the block was applied to the head state; if not, and
  it has a higher number than the head of the chain, the node switched forks, and the new state is a saved state of the old chain (the common ancestor) with the
  blocks of the new branch applied in order, each linked to the one before, ending in the head of the fork database; else only the fork database changed.\<close>

theorem push_block_state:
  assumes "fork_ok (env_sha E) (c_fork c)" and "c_pending_session c = None"
    and "push_block_inner E skip b c = (c', Inr switched)"
  shows "let extended = (\<not> switched \<and> replay E (c_checkpoints c) skip [b] (c_state c) = Inr (c_state c') \<and>
       c_undo c' = c_state c # take (c_max_undo c) (c_undo c)) in
     if and skip skip_fork_db \<noteq> 0 then extended
     else \<exists>fd h. fork_push_block (env_sha E) b (c_fork c) = Inr fd \<and> head_item fd = Some h \<and>
       (if previous (data h) = env_head_id E (c_state c) then extended
        else if block_num (data h) > env_head_num E (c_state c)
        then switched \<and> (\<exists>s0 bs. s0 \<in> set (c_state c # c_undo c) \<and> bs \<noteq> [] \<and> env_head_id E s0 = previous (hd bs) \<and>
          successively (\<lambda>x y. previous y = block_id_of (env_sha E) x) bs \<and>
          block_id_of (env_sha E) (last bs) = block_id_of (env_sha E) (data h) \<and>
          replay E (c_checkpoints c) skip bs s0 = Inr (c_state c'))
        else \<not> switched \<and> c' = c\<lparr>c_fork := fd\<rparr>)"
proof -
  have ext: "extend_chain E skip b d = (c', Inr switched) \<Longrightarrow>
      \<not> switched \<and> replay E (c_checkpoints d) skip [b] (c_state d) = Inr (c_state c') \<and>
      c_undo c' = c_state d # take (c_max_undo d) (c_undo d)" for d
    using apply_in_session_success [of E skip b d]
    by (auto simp: extend_chain_def simp del: replay.simps split: prod.splits sum.splits)
  show ?thesis
  proof (cases "and skip skip_fork_db = 0")
    case False
    then show ?thesis using ext [of c] assms(3) by (simp add: push_block_inner_def)
  next
    case True
    then obtain fd h where fd: "fork_push_block (env_sha E) b (c_fork c) = Inr fd" "head_item fd = Some h"
      using assms(3) by (auto simp: push_block_inner_def Let_def split: sum.splits option.splits)
    have ok: "fork_ok (env_sha E) (c_fork (c\<lparr>c_fork := fd\<rparr>))" using push_ok [OF assms(1) fd(1)] by simp
    show ?thesis
      using assms(2,3) True fd ext [of "c\<lparr>c_fork := fd\<rparr>"]
        switch_fork_success [OF ok, of E skip "block_id_of (env_sha E) (data h)" c' switched]
      by (auto simp: push_block_inner_def Let_def simp del: replay.simps split: if_splits)
  qed
qed

text \<open>C25. A block on top of the head that fails to apply, whatever it changed before it threw: the session is undone, so the state of the chain is the one
  before the push, the saved states are those before the push (cut to the size of the history, as every session does), the block is not stored and not indexed.
  The fork database still has the head it had when the block was applied.\<close>

theorem failed_block_undone:
  assumes "fork_ok (env_sha E) (c_fork c)" and "extend_chain E skip b c = (c', Inl e)"
  shows "c_state c' = c_state c \<and> c_undo c' = take (c_max_undo c) (c_undo c) \<and> c_blocks c' = c_blocks c \<and>
     find_block (c_fork c') (block_id_of (env_sha E) b) = None \<and> fork_head (c_fork c') = fork_head (c_fork c)"
proof -
  obtain c1 where c1: "apply_in_session E skip b c = (c1, Inl e)"
      "c' = c1\<lparr>c_fork := fork_remove (block_id_of (env_sha E) b) (c_fork c1)\<rparr>"
    using assms(2) by (auto simp: extend_chain_def split: prod.splits sum.splits)
  have "fork_head (c_fork c1) = fork_head (c_fork c)"
    using c1(1) by (auto simp: apply_in_session_defs set_histories_def set_max_size_def
        split: sum.splits prod.splits option.splits)
  moreover have "find_block (fork_remove i fd) i = None" for i and fd :: "'a fork_database"
    by (auto simp: find_block_def find_by_def find_None_iff fork_remove_def split: option.splits)
  ultimately show ?thesis
    using apply_in_session_failure [OF c1(1)] c1(2) by (simp add: fork_remove_def)
qed

fun run_txs :: "('p, 't, 's) chain_env \<Rightarrow> 't list \<Rightarrow> 's \<Rightarrow> ('t list \<times> 's) result" where
  "run_txs E [] s = Inr ([], s)"
| "run_txs E (tx # txs) s =
     rbind (env_apply_tx E tx s) (\<lambda>(ptx, s1). rbind (run_txs E txs s1) (\<lambda>(ptxs, s2). Inr (ptx # ptxs, s2)))"

lemma run_txs_snoc:
  "run_txs E txs s = Inr (ptxs, s1) \<Longrightarrow> env_apply_tx E tx s1 = Inr (ptx, s2) \<Longrightarrow>
     run_txs E (txs @ [tx]) s = Inr (ptxs @ [ptx], s2)"
  by (induction txs arbitrary: s ptxs) auto

definition head_state :: "('p, 't, 's) chain_db \<Rightarrow> 's" where
  "head_state c = (case c_pending_session c of None \<Rightarrow> c_state c | Some s \<Rightarrow> s)"

text \<open>The state is the head state with the pending transactions applied to it.\<close>

definition pending_ok :: "('p, 't, 's) chain_env \<Rightarrow> ('p, 't, 's) chain_db \<Rightarrow> bool" where
  "pending_ok E c \<longleftrightarrow> (\<exists>txs. run_txs E txs (head_state c) = Inr (c_pending_tx c, c_state c))"

definition no_pending :: "('p, 't, 's) chain_db \<Rightarrow> bool" where
  "no_pending c \<longleftrightarrow> c_pending_session c = None \<and> c_pending_tx c = []"

lemma no_pending_ok: "no_pending c \<Longrightarrow> pending_ok E c \<and> head_state c = c_state c"
  by (auto simp: no_pending_def pending_ok_def head_state_def intro: exI [of _ "[]"])

lemma push_transaction_pending:
  assumes "pending_ok E c"
  shows "pending_ok E (fst (push_transaction E tx c)) \<and> head_state (fst (push_transaction E tx c)) = head_state c"
proof -
  obtain txs where t: "run_txs E txs (head_state c) = Inr (c_pending_tx c, c_state c)" using assms by (auto simp: pending_ok_def)
  show ?thesis
    using t run_txs_snoc [OF t, of tx]
    by (cases "c_pending_session c"; cases "env_apply_tx E tx (c_state c)")
      (auto simp: push_transaction_def Let_def pending_ok_def head_state_def)
qed

lemma repush_pending:
  "pending_ok E c \<Longrightarrow> pending_ok E (fold (repush E) txs c) \<and> head_state (fold (repush E) txs c) = head_state c"
  by (induction txs arbitrary: c) (auto simp: repush_def push_transaction_pending)

lemma clear_pending_none: "no_pending (clear_pending c) \<and> c_state (clear_pending c) = head_state c"
  by (auto simp: no_pending_def clear_pending_def reset_pending_session_def head_state_def split: option.splits)

lemma with_popped [simp]:
  "head_state (c\<lparr>c_popped_tx := x\<rparr>) = head_state c" "pending_ok E (c\<lparr>c_popped_tx := x\<rparr>) = pending_ok E c"
proof -
  show "head_state (c\<lparr>c_popped_tx := x\<rparr>) = head_state c" by (simp add: head_state_def split: option.splits)
  then show "pending_ok E (c\<lparr>c_popped_tx := x\<rparr>) = pending_ok E c" by (simp add: pending_ok_def)
qed

lemma apply_in_session_none: "no_pending c \<Longrightarrow> no_pending (fst (apply_in_session E skip b c))"
  by (simp add: no_pending_def apply_in_session_defs split: sum.splits prod.splits)

lemma pop_block_none: "no_pending c \<Longrightarrow> no_pending (fst (pop_block E c))"
  by (auto simp: no_pending_def pop_block_def Let_def reset_pending_session_def split: option.splits sum.splits list.splits)

lemma pop_until_none: "no_pending c \<Longrightarrow> no_pending (fst (pop_until E target c))"
proof (induction E target c rule: pop_until.induct)
  case (1 E target c)
  show ?case
    using "1.prems" pop_block_none [OF "1.prems", of E] "1.IH"
    by (subst pop_until.simps) (auto split: prod.splits sum.splits)
qed

lemma push_branch_none: "no_pending c \<Longrightarrow> no_pending (fst (push_branch E skip xs c))"
proof (induction xs arbitrary: c)
  case (Cons x xs)
  then show ?case using apply_in_session_none [OF Cons.prems, of E skip "data x"] by (auto split: prod.splits sum.splits)
qed simp

lemma with_fork_none [simp]: "no_pending (c\<lparr>c_fork := fd\<rparr>) = no_pending c"
  by (simp add: no_pending_def)

lemma switch_back_none:
  assumes "no_pending c"
  shows "no_pending (fst (switch_back E skip front bad second e c))"
proof -
  let ?c = "c\<lparr>c_fork := set_head front (fold (\<lambda>x. fork_remove (item_id x)) bad (c_fork c))\<rparr>"
  obtain c1 r where 1: "pop_until E (previous (data (last second))) ?c = (c1, r)" by (meson surj_pair)
  then have n: "no_pending c1" using pop_until_none [of ?c E "previous (data (last second))"] assms by simp
  show ?thesis using n push_branch_none [OF n, of E skip "rev second"]
    by (cases r; cases "push_branch E skip (rev second) c1") (auto simp: switch_back_def 1 split: option.split)
qed

lemma switch_fork_none:
  assumes "no_pending c"
  shows "no_pending (fst (switch_fork E skip h c))"
proof (cases "fetch_branch_from (Suc (max (unat (num_from_id h)) (unat (num_from_id (env_head_id E (c_state c)))))) (c_fork c) h (env_head_id E (c_state c))")
  case (Inr branches)
  obtain xs ys where b: "branches = (xs, ys)" by (meson surj_pair)
  obtain c1 r where 1: "pop_until E (previous (data (last ys))) c = (c1, r)" by (meson surj_pair)
  then have n: "no_pending c1" using pop_until_none [OF assms, of E "previous (data (last ys))"] by simp
  show ?thesis using n push_branch_none [OF n, of E skip "rev xs"] switch_back_none [of _ E skip]
    by (cases r; cases "push_branch E skip (rev xs) c1") (auto simp: switch_fork_def Let_def Inr b 1 split: option.split)
qed (simp add: switch_fork_def Let_def assms)

lemma push_block_inner_none: "no_pending c \<Longrightarrow> no_pending (fst (push_block_inner E skip b c))"
  using apply_in_session_none [of _ E skip b] switch_fork_none [of _ E skip]
  by (auto simp: push_block_inner_def extend_chain_def Let_def split: prod.splits sum.splits option.splits) (metis fst_conv with_fork_none)+

text \<open>C31. Whatever happens while a block is pushed, afterwards the state is again the head state
  (the one the block left) with exactly the listed pending transactions applied to it in order,
  and no popped transaction is left waiting.\<close>

theorem push_block_pending:
  "pending_ok E (fst (push_block E skip b c)) \<and> c_popped_tx (fst (push_block E skip b c)) = [] \<and>
   head_state (fst (push_block E skip b c)) = c_state (fst (push_block_inner E skip b (clear_pending c)))"
proof -
  let ?c1 = "fst (push_block_inner E skip b (clear_pending c))"
  have n: "no_pending ?c1" using push_block_inner_none clear_pending_none by blast
  define d where "d = (fold (repush E) (c_popped_tx ?c1) ?c1)\<lparr>c_popped_tx := []\<rparr>"
  have d: "pending_ok E d" "head_state d = c_state ?c1" "c_popped_tx d = []"
    using repush_pending [of E ?c1 "c_popped_tx ?c1"] no_pending_ok [OF n, of E] unfolding d_def by simp_all
  have "c_popped_tx (fold (repush E) txs d) = []" for txs using d(3)
    by (induction txs arbitrary: d) (auto simp: repush_def push_transaction_def Let_def split: sum.splits)
  moreover have "fst (push_block E skip b c) = fold (repush E) (c_pending_tx c) d"
    by (simp add: push_block_def Let_def case_prod_beta d_def)
  ultimately show ?thesis using repush_pending [OF d(1)] d(2) by simp
qed


lemma pop_block_fork:
  assumes "fork_ok sha (c_fork c)" and "head_item (c_fork c) = Some h" and "pop_block E c = (c', Inr u)"
  shows "\<exists>h'. fork_ok sha (c_fork c') \<and> head_item (c_fork c') = Some h' \<and> num h' < num h"
proof -
  have r: "c_fork (reset_pending_session c) = c_fork c" by (simp add: reset_pending_session_def split: option.splits)
  obtain fd where fd: "fork_pop_block (c_fork c) = Inr fd" "c_fork c' = fd"
    using assms(3) r by (auto simp: pop_block_def Let_def split: option.splits sum.splits list.splits)
  then obtain p where p: "lock (c_fork c) (prev h) = Some p" "fd = (c_fork c)\<lparr>fork_head := Some p\<rparr>"
    using assms(2) by (auto simp: fork_pop_block_def head_item_def)
  have "stored (c_fork c) h" using assms(2) by (auto simp: head_item_def stored_def bind_eq_Some_conv)
  moreover have "alive (c_fork c) p" using p(1) by (auto simp: lock_def split: option.splits if_splits)
  then obtain q where q: "item_at (c_fork c) p = Some q" using alive_item [OF assms(1)] by blast
  moreover have "step_back (c_fork c) h = Inr q" using p(1) q by (simp add: step_back_def)
  ultimately have "link h q" using step_back_link [OF assms(1)] by blast
  then have "num q < num h" using link_unat [of h q] by (simp add: word_less_nat_alt)
  moreover have "head_item fd = Some q" using q by (simp add: p(2) head_item_def)
  moreover have "fork_ok sha fd" unfolding p(2) by (rule fork_ok_shrink [OF assms(1)]) (use q fork_okD(5,7) [OF assms(1)] in auto)
  ultimately show ?thesis using fd(2) by blast
qed

lemma pop_until_fork:
  assumes "fork_ok sha (c_fork c)" and "head_item (c_fork c) = Some h" and "pop_until E target c = (c', Inr u)"
  shows "\<exists>h'. head_item (c_fork c') = Some h' \<and> num h' \<le> num h \<and> (env_head_id E (c_state c) \<noteq> target \<longrightarrow> num h' < num h)"
  using assms
proof (induction E target c arbitrary: h rule: pop_until.induct)
  case (1 E target c)
  show ?case
  proof (cases "env_head_id E (c_state c) = target")
    case True
    then show ?thesis using "1.prems" by (simp add: pop_until.simps)
  next
    case False
    then obtain c1 v where c1: "pop_block E c = (c1, Inr v)" "pop_until E target c1 = (c', Inr u)"
      using "1.prems"(3) by (subst (asm) pop_until.simps) (auto split: prod.splits sum.splits)
    obtain h1 where h1: "fork_ok sha (c_fork c1)" "head_item (c_fork c1) = Some h1" "num h1 < num h"
      using pop_block_fork [OF "1.prems"(1,2) c1(1)] by blast
    from "1.IH" [OF False c1(1) [symmetric] refl h1(1,2) c1(2)] h1(3) show ?thesis by force
  qed
qed

lemma apply_in_session_fork: "head_item (c_fork (fst (apply_in_session E skip b c))) = head_item (c_fork c)"
proof -
  have "head_item (set_max_size k fd) = head_item fd" for k and fd :: "'a fork_database"
    by (simp add: set_max_size_def head_item_def Let_def split: option.splits)
  then show ?thesis by (simp add: apply_in_session_defs set_histories_def split: sum.splits prod.splits option.splits)
qed

lemma push_branch_fork: "head_item (c_fork (fst (push_branch E skip xs c))) = head_item (c_fork c)"
proof (induction xs arbitrary: c)
  case (Cons x xs)
  show ?case using Cons.IH apply_in_session_fork [of E skip "data x" c] by (auto split: prod.splits sum.splits)
qed simp

text \<open>A branch that starts at a block does not end above a block of the same number: the loop pops at least the head.\<close>

lemma branch_leaves_head:
  assumes "fork_ok sha fd" and "path fd ys" and "ys \<noteq> []" and "unat (num_from_id (item_id (hd ys))) < 2 ^ 32 - 1"
  shows "previous (data (last ys)) \<noteq> item_id (hd ys)"
proof
  assume eq: "previous (data (last ys)) = item_id (hd ys)"
  have st: "y \<in> set ys \<Longrightarrow> num y = block_num (data y) \<and> item_id y = block_id_of sha (data y)" for y
    using assms(2) fork_okD(2) [OF assms(1)] by (auto simp: path_def stored_def item_ok_def)
  have le: "unat (num (last ys)) \<le> unat (num (hd ys))"
    using assms(2,3)
  proof (induction ys rule: induct_list012)
    case (3 x y zs)
    then show ?case using link_unat [of x y] by (auto simp: path_def)
  qed auto
  have "num_from_id (item_id (hd ys)) = num (hd ys)" using st [of "hd ys"] assms(3) by (simp add: block_id_of_def num_from_id_def)
  moreover have "num (last ys) = num_from_id (item_id (hd ys)) + 1" using st [of "last ys"] assms(3) by (simp add: block_num_def eq)
  ultimately have "num (last ys) = num (hd ys) + 1" "unat (num (hd ys)) < 2 ^ 32 - 1" using assms(4) by simp_all
  then have "unat (num (last ys)) = Suc (unat (num (hd ys)))" by (simp add: unat_word_ariths)
  then show False using le by simp
qed

lemma switch_fork_lags:
  assumes "fork_ok sha (c_fork c)" and "head_item (c_fork c) = Some h"
    and "unat (num_from_id (env_head_id E (c_state c))) < 2 ^ 32 - 1" and "switch_fork E skip new_head c = (c', Inr sw)"
  shows "\<exists>h'. head_item (c_fork c') = Some h' \<and> num h' < num h"
proof -
  let ?h = "env_head_id E (c_state c)"
  let ?fuel = "Suc (max (unat (num_from_id new_head)) (unat (num_from_id ?h)))"
  have no_back: "switch_back E skip front bad second e c2 \<noteq> (c3, Inr v)" for front bad second e c2 c3 v
    by (auto simp: switch_back_def Let_def split: prod.splits sum.splits option.splits)
  obtain xs ys c1 u where f: "fetch_branch_from ?fuel (c_fork c) new_head ?h = Inr (xs, ys)"
      "pop_until E (previous (data (last ys))) c = (c1, Inr u)" "push_branch E skip (rev xs) c1 = (c', None)"
    using assms(4) no_back by (auto simp: switch_fork_def Let_def split: sum.splits prod.splits option.splits)
  have B: "path (c_fork c) ys" "ys \<noteq> []" "item_id (hd ys) = ?h"
    using fetch_branch_spec [OF assms(1), of new_head ?fuel ?h] f(1) by auto
  have "?h \<noteq> previous (data (last ys))" using branch_leaves_head [OF assms(1) B(1,2)] B(3) assms(3) by simp
  with pop_until_fork [OF assms(1,2) f(2)] push_branch_fork [of E skip "rev xs" c1] f(3) show ?thesis by auto
qed

text \<open>C32. After every successful switch to another fork the head of the fork database is below the head of the chain: \<^verbatim>\<open>pop_block\<close> also pops the head of the
  fork database, which at that point is already the new head \<open>h\<close>, and applying the new branch does not raise it again.\<close>

theorem fork_head_lags_after_switch:
  assumes "fork_ok (env_sha E) (c_fork c)" and "c_pending_session c = None"
    and "num_from_id (env_head_id E (c_state c)) = env_head_num E (c_state c)"
    and "push_block_inner E skip b c = (c', Inr True)"
  shows "\<exists>fd h h'. fork_push_block (env_sha E) b (c_fork c) = Inr fd \<and> head_item fd = Some h \<and>
     (\<exists>s0 bs. bs \<noteq> [] \<and> block_id_of (env_sha E) (last bs) = block_id_of (env_sha E) (data h) \<and>
        replay E (c_checkpoints c) skip bs s0 = Inr (c_state c')) \<and>
     head_item (c_fork c') = Some h' \<and> num h' < num h"
proof -
  have no_ext: "extend_chain E skip b d \<noteq> (c', Inr True)" for d by (auto simp: extend_chain_def split: prod.splits sum.splits)
  obtain fd h where fd: "fork_push_block (env_sha E) b (c_fork c) = Inr fd" "head_item fd = Some h"
    and above: "block_num (data h) > env_head_num E (c_state c)"
    and sw: "switch_fork E skip (block_id_of (env_sha E) (data h)) (c\<lparr>c_fork := fd\<rparr>) = (c', Inr True)"
    using assms(4) no_ext by (auto simp: push_block_inner_def Let_def split: sum.splits option.splits if_splits)
  let ?c = "c\<lparr>c_fork := fd\<rparr>"
  have ok: "fork_ok (env_sha E) (c_fork ?c)" using push_ok [OF assms(1) fd(1)] by simp
  have "unat (env_head_num E (c_state c)) < unat (block_num (data h))" using above by (simp add: word_less_nat_alt)
  moreover have "unat (block_num (data h)) < 2 ^ 32" using unsigned_less [of "block_num (data h)"] by simp
  ultimately have n: "unat (num_from_id (env_head_id E (c_state ?c))) < 2 ^ 32 - 1" using assms(3) by simp
  obtain h' where "head_item (c_fork c') = Some h'" "num h' < num h"
    using switch_fork_lags [OF ok _ n sw, of h] fd(2) by auto
  moreover have "\<exists>s0 bs. bs \<noteq> [] \<and> block_id_of (env_sha E) (last bs) = block_id_of (env_sha E) (data h) \<and>
      replay E (c_checkpoints c) skip bs s0 = Inr (c_state c')"
    using switch_fork_success [OF ok _ sw] assms(2) by auto
  ultimately show ?thesis using fd by blast
qed

section \<open>Witnesses\<close>

text \<open>A chain whose state is the list of applied block ids; blocks with body 99 do not apply.\<close>

definition sample_env :: "(nat, nat, block_id list) chain_env" where
  "sample_env = \<lparr>env_sha = body, env_head_id = (\<lambda>s. if s = [] then null_block_id else hd s),
     env_head_num = (\<lambda>s. if s = [] then 0 else num_from_id (hd s)),
     env_apply = (\<lambda>skip b s. (None,
        if body b = 99 \<or> previous b \<noteq> (if s = [] then null_block_id else hd s) then Inl Assert_failed
        else Inr (block_id_of body b # s))), env_left = (\<lambda>skip b s. block_id_of body b # s),
     env_transactions = (\<lambda>b. [body b]), env_apply_tx = (\<lambda>tx s. Inr (tx, s)), env_known_tx = (\<lambda>tx s. False)\<rparr>"

definition empty_chain :: "(nat, nat, block_id list) chain_db" where
  "empty_chain = \<lparr>c_fork = initial_fork_database, c_blocks = [], c_state = [], c_undo = [], c_max_undo = 100,
     c_pending_tx = [], c_pending_session = None, c_popped_tx = [], c_checkpoints = []\<rparr>"

definition chain_of :: "nat signed_block list \<Rightarrow> (nat, nat, block_id list) chain_db" where
  "chain_of bs = fold (\<lambda>b c. fst (push_block_inner sample_env 0 b c)) bs empty_chain"

definition before_switch :: "(nat, nat, block_id list) chain_db" where
  "before_switch = chain_of [sample_block null_block_id 11, sample_block (Block_id 1 11) 21, sample_block (Block_id 1 11) 22]"

definition after_switch :: "(nat, nat, block_id list) chain_db \<times> bool result" where
  "after_switch = push_block_inner sample_env 0 (sample_block (Block_id 2 22) 32) before_switch"

lemma sample_fork_ok: "fork_ok (env_sha sample_env) (c_fork before_switch)"
proof -
  have "c_fork before_switch = sample_forks"
    by (simp add: before_switch_def chain_of_def sample_forks_eq push_block_inner_def fork_eval sample_env_def
        empty_chain_def skip_fork_db_def extend_chain_def apply_in_session_defs checkpoint_skip_def set_histories_def)
  then show ?thesis using reachable_ok [OF sample_reachable(3)] by (simp add: sample_env_def)
qed

lemma sample_no_pending: "c_pending_session before_switch = None"
  by code_simp

lemma sample_switches:
  "push_block_inner sample_env 0 (sample_block (Block_id 2 22) 32) before_switch = (fst after_switch, Inr True)"
  by code_simp

lemma sample_numbers: "num_from_id (env_head_id sample_env (c_state before_switch)) = env_head_num sample_env (c_state before_switch)"
  by code_simp

theorem push_block_state_witness:
  "\<exists>fd h s0 bs. fork_push_block (env_sha sample_env) (sample_block (Block_id 2 22) 32) (c_fork before_switch) = Inr fd \<and> head_item fd = Some h \<and>
     block_num (data h) > env_head_num sample_env (c_state before_switch) \<and> s0 \<in> set (c_state before_switch # c_undo before_switch) \<and> bs \<noteq> [] \<and>
     block_id_of (env_sha sample_env) (last bs) = block_id_of (env_sha sample_env) (data h) \<and>
     replay sample_env (c_checkpoints before_switch) 0 bs s0 = Inr (c_state (fst after_switch))"
proof -
  have "and 0 skip_fork_db = (0 :: 32 word)" by simp
  with push_block_state [OF sample_fork_ok sample_no_pending sample_switches, unfolded Let_def]
  obtain fd h where fd: "fork_push_block (env_sha sample_env) (sample_block (Block_id 2 22) 32) (c_fork before_switch) = Inr fd" "head_item fd = Some h"
    and n: "block_num (data h) > env_head_num sample_env (c_state before_switch)"
    and bs: "\<exists>s0 bs. s0 \<in> set (c_state before_switch # c_undo before_switch) \<and> bs \<noteq> [] \<and>
      block_id_of (env_sha sample_env) (last bs) = block_id_of (env_sha sample_env) (data h) \<and>
      replay sample_env (c_checkpoints before_switch) 0 bs s0 = Inr (c_state (fst after_switch))"
    by (simp del: replay.simps list.set split: if_splits) blast
  show ?thesis using fd n bs by blast
qed

theorem fork_head_lags_after_switch_witness:
  "\<exists>fd h h'. fork_push_block (env_sha sample_env) (sample_block (Block_id 2 22) 32) (c_fork before_switch) = Inr fd \<and> head_item fd = Some h \<and>
     head_item (c_fork (fst after_switch)) = Some h' \<and> num h' < num h"
  using fork_head_lags_after_switch [OF sample_fork_ok sample_no_pending sample_numbers sample_switches] by blast

theorem failed_block_undone_witness:
  "c_state (fst (extend_chain sample_env 0 (sample_block (Block_id 2 21) 99) before_switch)) = c_state before_switch"
proof -
  have "extend_chain sample_env 0 (sample_block (Block_id 2 21) 99) before_switch =
      (fst (extend_chain sample_env 0 (sample_block (Block_id 2 21) 99) before_switch), Inl Assert_failed)"
    by code_simp
  from failed_block_undone [OF sample_fork_ok this] show ?thesis by simp
qed

end
