(* ===== verification/Asset.thy ===== *)
theory Asset
  imports Prelude
begin

text \<open>
  Amounts, prices and price feeds: \<^verbatim>\<open>protocol/asset.hpp\<close> and \<^verbatim>\<open>protocol/asset.cpp\<close>.
  A \<^verbatim>\<open>share_type\<close> is an \<open>int\<close> whose arithmetic goes through the library parameter; products
  of two amounts are 128-bit words, as in the source.
\<close>

section \<open>Data\<close>

record asset =
  amount :: int
  asset_id :: nat

record price =
  base :: asset
  quote :: asset

record price_feed =
  settlement_price :: price
  core_exchange_rate :: price
  maintenance_collateral_ratio :: int
  maximum_short_squeeze_ratio :: int

type_synonym uint128 = "128 word"

definition mk_asset :: "int \<Rightarrow> nat \<Rightarrow> asset" where
  "mk_asset a i = \<lparr>amount = a, asset_id = i\<rparr>"

definition mk_price :: "asset \<Rightarrow> asset \<Rightarrow> price" where
  "mk_price b q = \<lparr>base = b, quote = q\<rparr>"

lemma mk_asset_sel [simp]: "amount (mk_asset a i) = a" "asset_id (mk_asset a i) = i"
  by (simp_all add: mk_asset_def)

lemma mk_price_sel [simp]: "base (mk_price b q) = b" "quote (mk_price b q) = q"
  by (simp_all add: mk_price_def)

lemma mk_asset_eq_iff [simp]: "mk_asset a i = mk_asset b j \<longleftrightarrow> a = b \<and> i = j"
  by (simp add: mk_asset_def)

lemma mk_asset_collapse [simp]: "mk_asset (amount a) (asset_id a) = a"
  by (simp add: mk_asset_def)

section \<open>Operators on assets\<close>

definition asset_plus :: "fc_lib \<Rightarrow> asset \<Rightarrow> asset \<Rightarrow> asset result" where
  "asset_plus F a b =
     require (asset_id a = asset_id b) Assert_failed
       (rbind (of_option Overflow (safe_add F (amount a) (amount b)))
         (\<lambda>s. Inr (mk_asset s (asset_id a))))"

definition asset_minus :: "fc_lib \<Rightarrow> asset \<Rightarrow> asset \<Rightarrow> asset result" where
  "asset_minus F a b =
     require (asset_id a = asset_id b) Assert_failed
       (rbind (of_option Overflow (safe_sub F (amount a) (amount b)))
         (\<lambda>s. Inr (mk_asset s (asset_id a))))"

definition asset_neg :: "fc_lib \<Rightarrow> asset \<Rightarrow> asset result" where
  "asset_neg F a =
     rbind (of_option Overflow (safe_neg F (amount a))) (\<lambda>s. Inr (mk_asset s (asset_id a)))"

definition asset_less :: "asset \<Rightarrow> asset \<Rightarrow> bool result" where
  "asset_less a b =
     require (asset_id a = asset_id b) Assert_failed (Inr (amount a < amount b))"

definition asset_le :: "asset \<Rightarrow> asset \<Rightarrow> bool result" where
  "asset_le a b = rbind (asset_less b a) (\<lambda>r. Inr (\<not> r))"

definition asset_greater :: "asset \<Rightarrow> asset \<Rightarrow> bool result" where
  "asset_greater a b = asset_less b a"

definition asset_ge :: "asset \<Rightarrow> asset \<Rightarrow> bool result" where
  "asset_ge a b = rbind (asset_less a b) (\<lambda>r. Inr (\<not> r))"

fun p10 :: "nat \<Rightarrow> int" where
  "p10 0 = 1"
| "p10 (Suc n) = 10 * p10 n"

definition scaled_precision_lut :: "int list" where
  "scaled_precision_lut = map p10 [0..<19]"

definition scaled_precision :: "nat \<Rightarrow> int result" where
  "scaled_precision precision =
     require (precision < 19) Assert_failed (Inr (scaled_precision_lut ! precision))"

section \<open>Prices\<close>

definition price_eq :: "price \<Rightarrow> price \<Rightarrow> bool" where
  "price_eq a b =
     (if (asset_id (base a), asset_id (quote a)) \<noteq> (asset_id (base b), asset_id (quote b)) then False
      else
        let amult = (of_int (amount (quote b)) * of_int (amount (base a)) :: uint128);
            bmult = (of_int (amount (quote a)) * of_int (amount (base b)) :: uint128)
        in amult = bmult)"

definition price_less :: "price \<Rightarrow> price \<Rightarrow> bool" where
  "price_less a b =
     (if asset_id (base a) < asset_id (base b) then True
      else if asset_id (base a) > asset_id (base b) then False
      else if asset_id (quote a) < asset_id (quote b) then True
      else if asset_id (quote a) > asset_id (quote b) then False
      else
        let amult = (of_int (amount (quote b)) * of_int (amount (base a)) :: uint128);
            bmult = (of_int (amount (quote a)) * of_int (amount (base b)) :: uint128)
        in amult < bmult)"

definition price_greater :: "price \<Rightarrow> price \<Rightarrow> bool" where
  "price_greater a b = price_less b a"

definition price_le :: "price \<Rightarrow> price \<Rightarrow> bool" where
  "price_le a b = (\<not> price_less b a)"

definition price_ge :: "price \<Rightarrow> price \<Rightarrow> bool" where
  "price_ge a b = (\<not> price_less a b)"

definition asset_mult :: "asset \<Rightarrow> price \<Rightarrow> asset result" where
  "asset_mult a b =
     (if asset_id a = asset_id (base b) then
        require (amount (base b) > 0) Assert_failed
          (let r = (of_int (amount a) * of_int (amount (quote b)) :: uint128)
                     div of_int (amount (base b))
           in require (r \<le> of_int GRAPHENE_MAX_SHARE_SUPPLY) Assert_failed
                (Inr (mk_asset (uint r) (asset_id (quote b)))))
      else if asset_id a = asset_id (quote b) then
        require (amount (quote b) > 0) Assert_failed
          (let r = (of_int (amount a) * of_int (amount (base b)) :: uint128)
                     div of_int (amount (quote b))
           in require (r \<le> of_int GRAPHENE_MAX_SHARE_SUPPLY) Assert_failed
                (Inr (mk_asset (uint r) (asset_id (base b)))))
      else Inl Assert_failed)"

definition multiply_and_round_up :: "asset \<Rightarrow> price \<Rightarrow> asset result" where
  "multiply_and_round_up a b =
     (if asset_id a = asset_id (base b) then
        require (amount (base b) > 0) Assert_failed
          (let r = (of_int (amount a) * of_int (amount (quote b)) + of_int (amount (base b)) - 1
                      :: uint128) div of_int (amount (base b))
           in require (r \<le> of_int GRAPHENE_MAX_SHARE_SUPPLY) Assert_failed
                (Inr (mk_asset (uint r) (asset_id (quote b)))))
      else if asset_id a = asset_id (quote b) then
        require (amount (quote b) > 0) Assert_failed
          (let r = (of_int (amount a) * of_int (amount (base b)) + of_int (amount (quote b)) - 1
                      :: uint128) div of_int (amount (quote b))
           in require (r \<le> of_int GRAPHENE_MAX_SHARE_SUPPLY) Assert_failed
                (Inr (mk_asset (uint r) (asset_id (base b)))))
      else Inl Assert_failed)"

definition price_div :: "asset \<Rightarrow> asset \<Rightarrow> price result" where
  "price_div b q = require (asset_id b \<noteq> asset_id q) Assert_failed (Inr (mk_price b q))"

definition price_invert :: "price \<Rightarrow> price" where
  "price_invert p = mk_price (quote p) (base p)"

definition price_max :: "nat \<Rightarrow> nat \<Rightarrow> price result" where
  "price_max b q = price_div (mk_asset GRAPHENE_MAX_SHARE_SUPPLY b) (mk_asset 1 q)"

definition price_min :: "nat \<Rightarrow> nat \<Rightarrow> price result" where
  "price_min b q = price_div (mk_asset 1 b) (mk_asset GRAPHENE_MAX_SHARE_SUPPLY q)"

definition unit_price :: "nat \<Rightarrow> price" where
  "unit_price a = mk_price (mk_asset 1 a) (mk_asset 1 a)"

definition price_is_null :: "price \<Rightarrow> bool" where
  "price_is_null p \<longleftrightarrow> asset_id (base p) = 0 \<and> asset_id (quote p) = 0"

definition price_validate :: "price \<Rightarrow> unit result" where
  "price_validate p =
     require (amount (base p) > 0) Assert_failed
       (require (amount (quote p) > 0) Assert_failed
         (require (asset_id (base p) \<noteq> asset_id (quote p)) Assert_failed (Inr ())))"

text \<open>
  The \<^verbatim>\<open>while\<close> loops of \<^verbatim>\<open>call_price\<close> and \<^verbatim>\<open>max_short_squeeze_price\<close> halve the fraction
  until both parts fit; the two loops differ in how a half is rounded (\<open>half\<close>). An
  \<^verbatim>\<open>int128_t\<close> has 127 value bits, so the loops run with a fuel of 128 passes; that it is
  never used up is \<open>shrink_loop_returns\<close>.
\<close>

fun shrink_loop :: "fc_lib \<Rightarrow> (int \<Rightarrow> int) \<Rightarrow> nat \<Rightarrow> int \<times> int \<Rightarrow> (int \<times> int) result" where
  "shrink_loop F half 0 cp = Inl Out_of_fuel"
| "shrink_loop F half (Suc fuel) cp =
     (if fst cp > GRAPHENE_MAX_SHARE_SUPPLY \<or> snd cp > GRAPHENE_MAX_SHARE_SUPPLY
      then rbind (of_option Bad_rational (rational_of F (half (fst cp)) (half (snd cp))))
             (shrink_loop F half fuel)
      else Inr cp)"

definition call_half :: "int \<Rightarrow> int" where
  "call_half x = x div 2 + 1"

definition squeeze_half :: "int \<Rightarrow> int" where
  "squeeze_half x = x div 2 + x mod 2"

definition call_price :: "fc_lib \<Rightarrow> asset \<Rightarrow> asset \<Rightarrow> int \<Rightarrow> price result" where
  "call_price F debt collateral collateral_ratio =
     rbind (of_option Bad_rational (rational_of F (amount debt) (amount collateral))) (\<lambda>swan.
     rbind (of_option Bad_rational
             (rational_of F collateral_ratio GRAPHENE_COLLATERAL_RATIO_DENOM)) (\<lambda>ratio.
     rbind (shrink_loop F call_half 128 (rational_mul F swan ratio)) (\<lambda>cp.
     rbind (price_div (mk_asset (fst cp) (asset_id debt)) (mk_asset (snd cp) (asset_id collateral)))
       (\<lambda>p. Inr (price_invert p)))))"

definition max_short_squeeze_price :: "fc_lib \<Rightarrow> price_feed \<Rightarrow> price result" where
  "max_short_squeeze_price F f =
     rbind (of_option Bad_rational
             (rational_of F (amount (base (settlement_price f))) (amount (quote (settlement_price f)))))
       (\<lambda>sp.
     rbind (of_option Bad_rational
             (rational_of F GRAPHENE_COLLATERAL_RATIO_DENOM (maximum_short_squeeze_ratio f)))
       (\<lambda>ratio.
     rbind (shrink_loop F squeeze_half 128 (rational_mul F sp ratio)) (\<lambda>cp.
     price_div (mk_asset (fst cp) (asset_id (base (settlement_price f))))
       (mk_asset (snd cp) (asset_id (quote (settlement_price f)))))))"

definition price_feed_validate :: "fc_lib \<Rightarrow> price_feed \<Rightarrow> unit result" where
  "price_feed_validate F f =
     rbind (if \<not> price_is_null (settlement_price f) then price_validate (settlement_price f)
            else Inr ()) (\<lambda>_.
     require (maximum_short_squeeze_ratio f \<ge> GRAPHENE_MIN_COLLATERAL_RATIO) Assert_failed
    (require (maximum_short_squeeze_ratio f \<le> GRAPHENE_MAX_COLLATERAL_RATIO) Assert_failed
    (require (maintenance_collateral_ratio f \<ge> GRAPHENE_MIN_COLLATERAL_RATIO) Assert_failed
    (require (maintenance_collateral_ratio f \<le> GRAPHENE_MAX_COLLATERAL_RATIO) Assert_failed
    (rbind (max_short_squeeze_price F f) (\<lambda>_. Inr ()))))))"

definition price_feed_is_for :: "price_feed \<Rightarrow> nat \<Rightarrow> bool" where
  "price_feed_is_for f a =
     (if \<not> price_is_null (settlement_price f) then asset_id (base (settlement_price f)) = a
      else if \<not> price_is_null (core_exchange_rate f) then asset_id (base (core_exchange_rate f)) = a
      else True)"

definition price_feed_eq :: "price_feed \<Rightarrow> price_feed \<Rightarrow> bool" where
  "price_feed_eq a b \<longleftrightarrow>
     price_eq (settlement_price a) (settlement_price b) \<and>
     maintenance_collateral_ratio a = maintenance_collateral_ratio b \<and>
     maximum_short_squeeze_ratio a = maximum_short_squeeze_ratio b"

section \<open>Products of amounts do not wrap\<close>

definition pos64 :: "int \<Rightarrow> bool" where
  "pos64 x \<longleftrightarrow> 0 < x \<and> x < 2 ^ 63"

definition nonneg64 :: "int \<Rightarrow> bool" where
  "nonneg64 x \<longleftrightarrow> 0 \<le> x \<and> x < 2 ^ 63"

definition price_ok :: "price \<Rightarrow> bool" where
  "price_ok p \<longleftrightarrow> pos64 (amount (base p)) \<and> pos64 (amount (quote p))"

lemma pos64_nonneg64: "pos64 x \<Longrightarrow> nonneg64 x"
  by (simp add: pos64_def nonneg64_def)

lemma nonneg64_product:
  assumes "nonneg64 x" and "nonneg64 y"
  shows "0 \<le> x * y" and "x * y < 2 ^ 126"
proof -
  show "0 \<le> x * y" using assms by (simp add: nonneg64_def)
  have "x * y \<le> (2 ^ 63 - 1) * (2 ^ 63 - 1)"
    using assms by (intro mult_mono) (auto simp: nonneg64_def)
  then show "x * y < 2 ^ 126" by simp
qed

lemma uint_of_int_128: "0 \<le> x \<Longrightarrow> x < 2 ^ 128 \<Longrightarrow> uint (of_int x :: uint128) = x"
  by (simp add: uint_word_of_int)

lemma of_int_128_le_iff:
  "0 \<le> x \<Longrightarrow> x < 2 ^ 128 \<Longrightarrow> 0 \<le> y \<Longrightarrow> y < 2 ^ 128 \<Longrightarrow>
     (of_int x :: uint128) \<le> of_int y \<longleftrightarrow> x \<le> y"
  by (simp add: word_le_def uint_of_int_128)

lemma word_quotient:
  assumes "0 \<le> n" "n < 2 ^ 128" "0 < d" "d < 2 ^ 128"
  shows "(of_int n :: uint128) div of_int d = of_int (n div d)"
proof (rule word_uint_eqI)
  have le: "n div d \<le> n" using assms zdiv_mono2 [of n 1 d] by simp
  have "0 \<le> n div d" using assms by (simp add: pos_imp_zdiv_nonneg_iff)
  then have "uint (of_int (n div d) :: uint128) = n div d"
    using assms(2) le by (intro uint_of_int_128) auto
  then show "uint ((of_int n :: uint128) div of_int d) = uint (of_int (n div d) :: uint128)"
    using assms by (simp add: uint_div uint_of_int_128)
qed

text \<open>The quotient both multiplications compute, on unbounded integers.\<close>

definition share_quotient :: "int \<Rightarrow> int \<Rightarrow> nat \<Rightarrow> asset result" where
  "share_quotient n d i =
     require (n div d \<le> GRAPHENE_MAX_SHARE_SUPPLY) Assert_failed (Inr (mk_asset (n div d) i))"

lemma share_quotient_word:
  assumes "0 \<le> n" "n < 2 ^ 128" "0 < d" "d < 2 ^ 128"
  shows "require ((of_int n :: uint128) div of_int d \<le> of_int GRAPHENE_MAX_SHARE_SUPPLY) Assert_failed
           (Inr (mk_asset (uint ((of_int n :: uint128) div of_int d)) i)) = share_quotient n d i"
proof -
  have q: "0 \<le> n div d" "n div d < 2 ^ 128"
    using assms zdiv_mono2 [of n 1 d] by (auto simp: pos_imp_zdiv_nonneg_iff)
  show ?thesis
    using of_int_128_le_iff [OF q, of GRAPHENE_MAX_SHARE_SUPPLY]
    by (simp only: word_quotient [OF assms] uint_of_int_128 [OF q] share_quotient_def)
      (simp add: GRAPHENE_MAX_SHARE_SUPPLY_def)
qed

lemma asset_mult_exact:
  assumes "nonneg64 (amount a)" and "price_ok p"
  shows "asset_mult a p =
    (if asset_id a = asset_id (base p) then
       share_quotient (amount a * amount (quote p)) (amount (base p)) (asset_id (quote p))
     else if asset_id a = asset_id (quote p) then
       share_quotient (amount a * amount (base p)) (amount (quote p)) (asset_id (base p))
     else Inl Assert_failed)"
proof -
  have p: "pos64 (amount (base p))" "pos64 (amount (quote p))" using assms by (simp_all add: price_ok_def)
  have b: "0 \<le> amount a * amount (quote p)" "amount a * amount (quote p) < 2 ^ 128"
          "0 \<le> amount a * amount (base p)" "amount a * amount (base p) < 2 ^ 128"
    using nonneg64_product [OF assms(1) pos64_nonneg64 [OF p(1)]]
      nonneg64_product [OF assms(1) pos64_nonneg64 [OF p(2)]] by simp_all
  have d: "0 < amount (base p)" "amount (base p) < 2 ^ 128"
          "0 < amount (quote p)" "amount (quote p) < 2 ^ 128"
    using p by (simp_all add: pos64_def)
  show ?thesis
    using share_quotient_word [OF b(1,2) d(1,2)] share_quotient_word [OF b(3,4) d(3,4)] d
    by (simp add: asset_mult_def Let_def)
qed

lemma multiply_and_round_up_exact:
  assumes "nonneg64 (amount a)" and "price_ok p"
  shows "multiply_and_round_up a p =
    (if asset_id a = asset_id (base p) then
       share_quotient (amount a * amount (quote p) + amount (base p) - 1) (amount (base p)) (asset_id (quote p))
     else if asset_id a = asset_id (quote p) then
       share_quotient (amount a * amount (base p) + amount (quote p) - 1) (amount (quote p)) (asset_id (base p))
     else Inl Assert_failed)"
proof -
  have p: "pos64 (amount (base p))" "pos64 (amount (quote p))" using assms by (simp_all add: price_ok_def)
  have b: "0 \<le> amount a * amount (quote p) + amount (base p) - 1"
          "amount a * amount (quote p) + amount (base p) - 1 < 2 ^ 128"
          "0 \<le> amount a * amount (base p) + amount (quote p) - 1"
          "amount a * amount (base p) + amount (quote p) - 1 < 2 ^ 128"
    using nonneg64_product [OF assms(1) pos64_nonneg64 [OF p(1)]] p
      nonneg64_product [OF assms(1) pos64_nonneg64 [OF p(2)]] unfolding pos64_def by simp_all
  have d: "0 < amount (base p)" "amount (base p) < 2 ^ 128"
          "0 < amount (quote p)" "amount (quote p) < 2 ^ 128"
    using p by (simp_all add: pos64_def)
  show ?thesis
    using share_quotient_word [OF b(1,2) d(1,2)] share_quotient_word [OF b(3,4) d(3,4)] d
    by (simp add: multiply_and_round_up_def Let_def)
qed

lemma share_quotient_Inr:
  "share_quotient n d i = Inr r \<longleftrightarrow>
     n div d \<le> GRAPHENE_MAX_SHARE_SUPPLY \<and> r = mk_asset (n div d) i"
  by (auto simp: share_quotient_def)

lemma floor_div_bounds:
  fixes n d :: int
  assumes "0 < d"
  shows "n div d * d \<le> n" and "n < n div d * d + d"
proof -
  have "n div d * d + n mod d = n" "0 \<le> n mod d" "n mod d < d" using assms by simp_all
  then show "n div d * d \<le> n" "n < n div d * d + d" by linarith+
qed

lemma ceiling_div_bounds:
  fixes n d :: int
  assumes "0 < d"
  shows "n \<le> ((n + d - 1) div d) * d" and "((n + d - 1) div d) * d < n + d"
    and "n div d \<le> (n + d - 1) div d" and "(n + d - 1) div d \<le> n div d + 1"
proof -
  have m: "(n + d - 1) mod d < d" "0 \<le> (n + d - 1) mod d" using assms by simp_all
  have e: "((n + d - 1) div d) * d = n + d - 1 - (n + d - 1) mod d"
    by (simp add: minus_mod_eq_div_mult)
  show "n \<le> ((n + d - 1) div d) * d" "((n + d - 1) div d) * d < n + d"
    using m e by linarith+
  show "n div d \<le> (n + d - 1) div d" using assms by (intro zdiv_mono1) auto
  have "(n + d - 1) div d \<le> (n + d) div d" using assms by (intro zdiv_mono1) auto
  also have "(n + d) div d = n div d + 1" using assms by (simp add: div_add_self2)
  finally show "(n + d - 1) div d \<le> n div d + 1" .
qed

section \<open>The shrinking loops terminate in range\<close>

text \<open>
  What the two loops need of a rounding of the half: it stays positive, and from a start below
  \<open>bound k\<close> it reaches the share supply within \<open>k\<close> passes.
\<close>

locale halving =
  fixes half :: "int \<Rightarrow> int"
    and bound :: "nat \<Rightarrow> int"
  assumes half_pos: "0 < x \<Longrightarrow> 0 < half x"
    and bound_0: "bound 0 = GRAPHENE_MAX_SHARE_SUPPLY"
    and half_bound: "x \<le> bound (Suc k) \<Longrightarrow> half x \<le> bound k"
begin

lemma shrink_loop_returns:
  assumes ok: "fc_lib_ok F"
  shows "0 < n \<Longrightarrow> n \<le> bound k \<Longrightarrow> 0 < d \<Longrightarrow> d \<le> bound k \<Longrightarrow> k < fuel \<Longrightarrow>
    \<exists>n' d'. shrink_loop F half fuel (n, d) = Inr (n', d') \<and>
       0 < n' \<and> n' \<le> GRAPHENE_MAX_SHARE_SUPPLY \<and> 0 < d' \<and> d' \<le> GRAPHENE_MAX_SHARE_SUPPLY"
proof (induction k arbitrary: n d fuel)
  case 0
  then show ?case by (cases fuel) (simp_all add: bound_0)
next
  case (Suc k)
  from Suc.prems obtain f where f: "fuel = Suc f" "k < f" by (cases fuel) auto
  show ?case
  proof (cases "n > GRAPHENE_MAX_SHARE_SUPPLY \<or> d > GRAPHENE_MAX_SHARE_SUPPLY")
    case True
    have h: "0 < half n" "half n \<le> bound k" "0 < half d" "half d \<le> bound k"
      using Suc.prems half_pos half_bound by simp_all
    let ?c = "normal_fraction (half n) (half d)"
    have c: "0 < fst ?c" "fst ?c \<le> bound k" "0 < snd ?c" "snd ?c \<le> bound k"
      using normal_fraction_pos [OF h(1,3)] h by auto
    have "rational_of F (half n) (half d) = Some ?c"
      using h by (simp add: fc_safe_simps [OF ok])
    then have "shrink_loop F half fuel (n, d) = shrink_loop F half f (fst ?c, snd ?c)"
      using True f by simp
    then show ?thesis using Suc.IH [OF c f(2)] by simp
  next
    case False
    then show ?thesis using Suc.prems f by simp
  qed
qed

end

definition call_bound :: "nat \<Rightarrow> int" where
  "call_bound k = (GRAPHENE_MAX_SHARE_SUPPLY - 2) * 2 ^ k + 2"

definition squeeze_bound :: "nat \<Rightarrow> int" where
  "squeeze_bound k = GRAPHENE_MAX_SHARE_SUPPLY * 2 ^ k"

interpretation call: halving call_half call_bound
  by unfold_locales (auto simp: call_half_def call_bound_def config_defs)

interpretation squeeze: halving squeeze_half squeeze_bound
proof unfold_locales
  fix x :: int
  assume "0 < x"
  then show "0 < squeeze_half x" unfolding squeeze_half_def by (cases "x = 1") auto
next
  show "squeeze_bound 0 = GRAPHENE_MAX_SHARE_SUPPLY" by (simp add: squeeze_bound_def)
next
  fix x :: int and k
  assume "x \<le> squeeze_bound (Suc k)"
  then have "x \<le> 2 * squeeze_bound k" by (simp add: squeeze_bound_def)
  then show "squeeze_half x \<le> squeeze_bound k" unfolding squeeze_half_def by presburger
qed

lemma cross_product_cancel:
  fixes r1 :: int
  assumes "r1 * (p2 * q2) = (p1 * q1) * r2" and "p1 * b = a * p2" and "q1 * d = c * q2"
  shows "(p2 * q2) * (r1 * (b * d)) = (p2 * q2) * (a * c * r2)"
proof -
  have "(p2 * q2) * (r1 * (b * d)) = (r1 * (p2 * q2)) * (b * d)" by (simp add: ac_simps)
  also have "\<dots> = ((p1 * b) * (q1 * d)) * r2" by (simp only: assms(1)) (simp add: ac_simps)
  also have "\<dots> = (p2 * q2) * (a * c * r2)" by (simp only: assms(2,3)) (simp add: ac_simps)
  finally show ?thesis .
qed

lemma rational_product_bounds:
  assumes ok: "fc_lib_ok F" and pos: "0 < a" "0 < b" "0 < c" "0 < d"
  shows "\<exists>n m. rational_mul F (normal_fraction a b) (normal_fraction c d) = (n, m) \<and>
     0 < n \<and> n \<le> a * c \<and> 0 < m \<and> m \<le> b * d \<and> n * (b * d) = (a * c) * m"
proof -
  let ?p = "normal_fraction a b" and ?q = "normal_fraction c d"
  note P = normal_fraction_pos [OF pos(1,2)] and Q = normal_fraction_pos [OF pos(3,4)]
  have pp: "0 < fst ?p * fst ?q" "0 < snd ?p * snd ?q" using P Q by simp_all
  let ?r = "normal_fraction (fst ?p * fst ?q) (snd ?p * snd ?q)"
  note R = normal_fraction_pos [OF pp]
  have le: "fst ?p * fst ?q \<le> a * c" "snd ?p * snd ?q \<le> b * d"
    using P Q pos by (auto intro!: mult_mono)
  have "fst ?r * (snd ?p * snd ?q) = (fst ?p * fst ?q) * snd ?r"
    by (rule normal_fraction_ratio [OF pp(2)])
  moreover have "fst ?p * b = a * snd ?p" "fst ?q * d = c * snd ?q"
    using normal_fraction_ratio pos by simp_all
  ultimately have "(snd ?p * snd ?q) * (fst ?r * (b * d)) = (snd ?p * snd ?q) * (a * c * snd ?r)"
    by (rule cross_product_cancel)
  moreover have pp_nz: "snd ?p * snd ?q \<noteq> 0" using pp(2) by linarith
  ultimately have "fst ?r * (b * d) = a * c * snd ?r"
    using mult_left_cancel [OF pp_nz] by blast
  then show ?thesis
    using R le by (intro exI [of _ "fst ?r"] exI [of _ "snd ?r"]) (simp add: fc_safe_simps [OF ok])
qed

section \<open>Properties\<close>

text \<open>C21. Converting an amount at a price, from either side of the price: the amount is in the asset of one side (the base if both match), the result is in that of
  the other, \<^verbatim>\<open>operator*\<close> rounds down, the \<^verbatim>\<open>round_up\<close> variant rounds up, and they differ by at most one share. No wrap-around of the 128-bit product is
  visible for any non-negative 64-bit amount and positive 64-bit price for which both conversions return.\<close>

theorem asset_mult_rounding:
  assumes "nonneg64 (amount a)" and "price_ok p"
    and "asset_mult a p = Inr d" and "multiply_and_round_up a p = Inr u"
  shows "let (src, dst) = (if asset_id a = asset_id (base p) then (base p, quote p) else (quote p, base p)) in
    asset_id a = asset_id src \<and> asset_id d = asset_id dst \<and> asset_id u = asset_id dst \<and>
    amount d * amount src \<le> amount a * amount dst \<and>
    amount a * amount dst < (amount d + 1) * amount src \<and>
    amount a * amount dst \<le> amount u * amount src \<and>
    (amount u - 1) * amount src < amount a * amount dst \<and>
    amount d \<le> amount u \<and> amount u \<le> amount d + 1"
proof -
  define src where "src = (if asset_id a = asset_id (base p) then base p else quote p)"
  define dst where "dst = (if asset_id a = asset_id (base p) then quote p else base p)"
  let ?n = "amount a * amount dst" and ?d = "amount src"
  have pos: "0 < ?d" using assms(2) by (simp add: price_ok_def pos64_def src_def)
  have d: "d = mk_asset (?n div ?d) (asset_id dst)" and side: "asset_id a = asset_id src"
    using assms(3) by (auto simp: asset_mult_exact [OF assms(1,2)] share_quotient_Inr src_def dst_def split: if_splits)
  have u: "u = mk_asset ((?n + ?d - 1) div ?d) (asset_id dst)"
    using assms(4) by (auto simp: multiply_and_round_up_exact [OF assms(1,2)] share_quotient_Inr src_def dst_def split: if_splits)
  have m: "?n div ?d * ?d \<le> ?n" "?n < ?n div ?d * ?d + ?d"
    using floor_div_bounds [OF pos] by blast+
  have sides: "(if asset_id a = asset_id (base p) then (base p, quote p) else (quote p, base p)) = (src, dst)" by (simp add: src_def dst_def)
  show ?thesis
    unfolding d u sides using ceiling_div_bounds [OF pos, of ?n] m side
    by (simp add: left_diff_distrib distrib_right)
qed

theorem asset_mult_rounding_witness:
  "let p = mk_price (mk_asset 3 0) (mk_asset 7 1); a = mk_asset 10 1 in
     asset_mult a p = Inr (mk_asset 4 0) \<and> multiply_and_round_up a p = Inr (mk_asset 5 0) \<and>
     4 * 7 \<le> 10 * (3::int)"
proof -
  let ?p = "mk_price (mk_asset 3 0) (mk_asset 7 1)" and ?a = "mk_asset 10 1"
  have h: "nonneg64 (amount ?a)" "price_ok ?p"
    by (simp_all add: nonneg64_def price_ok_def pos64_def)
  have e: "asset_mult ?a ?p = Inr (mk_asset 4 0)" "multiply_and_round_up ?a ?p = Inr (mk_asset 5 0)"
    by (simp_all add: asset_mult_def multiply_and_round_up_def config_defs)
  show ?thesis using asset_mult_rounding [OF h e] e by simp
qed

text \<open>Converting an amount to the other asset of a price and back at the same price never
  returns more than the amount started with.\<close>

theorem conversion_round_trip:
  assumes "nonneg64 (amount a)" and "price_ok p" and "asset_id (base p) \<noteq> asset_id (quote p)"
    and "asset_mult a p = Inr b" and "asset_mult b p = Inr c"
  shows "asset_id c = asset_id a \<and> 0 \<le> amount c \<and> amount c \<le> amount a"
proof -
  have there_back: "(x * y div z) * z div y \<le> x" if "0 \<le> x" and "0 < y" and "0 < z" for x y z :: int
  proof -
    have "(x * y div z) * z \<le> x * y" using floor_div_bounds that by blast
    then have "(x * y div z) * z div y \<le> x * y div y" using that by (intro zdiv_mono1) auto
    then show ?thesis using that by simp
  qed
  have pos: "0 < amount (base p)" "0 < amount (quote p)" "0 \<le> amount a"
    using assms(1,2) by (simp_all add: price_ok_def pos64_def nonneg64_def)
  have q: "n div d \<le> GRAPHENE_MAX_SHARE_SUPPLY \<Longrightarrow> 0 \<le> n \<Longrightarrow> 0 < d \<Longrightarrow> nonneg64 (n div d)" for n d
    by (simp add: nonneg64_def config_defs pos_imp_zdiv_nonneg_iff)
  have "nonneg64 (amount b)"
    using assms(4) pos
    by (auto simp: asset_mult_exact [OF assms(1,2)] share_quotient_Inr intro!: q split: if_splits)
  note B = asset_mult_exact [OF this assms(2)]
  show ?thesis
    using assms(3-5) pos there_back
    by (auto simp: asset_mult_exact [OF assms(1,2)] B share_quotient_Inr pos_imp_zdiv_nonneg_iff
        split: if_splits)
qed

theorem conversion_round_trip_witness:
  "let p = mk_price (mk_asset 3 0) (mk_asset 7 1) in
     asset_mult (mk_asset 10 0) p = Inr (mk_asset 23 1) \<and>
     asset_mult (mk_asset 23 1) p = Inr (mk_asset 9 0) \<and> (9::int) \<le> 10"
proof -
  let ?p = "mk_price (mk_asset 3 0) (mk_asset 7 1)"
  have h: "nonneg64 (amount (mk_asset 10 0))" "price_ok ?p" "asset_id (base ?p) \<noteq> asset_id (quote ?p)"
    by (simp_all add: nonneg64_def price_ok_def pos64_def)
  have e: "asset_mult (mk_asset 10 0) ?p = Inr (mk_asset 23 1)"
      "asset_mult (mk_asset 23 1) ?p = Inr (mk_asset 9 0)"
    by (simp_all add: asset_mult_def config_defs)
  show ?thesis using conversion_round_trip [OF h e] e by simp
qed

lemma pos64_times_uint16:
  assumes "pos64 x" and "0 < r" and "r < 2 ^ 16"
  shows "x * r \<le> 2 ^ 63 * 2 ^ 16"
  using assms mult_mono [of x "2 ^ 63" r "2 ^ 16"] by (simp add: pos64_def)

lemma cross_product_words:
  assumes "price_ok a" and "price_ok b"
  shows "(of_int (amount (quote b)) * of_int (amount (base a)) :: uint128) < of_int (amount (quote a)) * of_int (amount (base b))
      \<longleftrightarrow> amount (base a) * amount (quote b) < amount (base b) * amount (quote a)"
    and "(of_int (amount (quote b)) * of_int (amount (base a)) :: uint128) = of_int (amount (quote a)) * of_int (amount (base b))
      \<longleftrightarrow> amount (base a) * amount (quote b) = amount (base b) * amount (quote a)"
proof -
  have p: "nonneg64 (amount (base a))" "nonneg64 (amount (quote a))"
      "nonneg64 (amount (base b))" "nonneg64 (amount (quote b))"
    using assms by (simp_all add: price_ok_def pos64_nonneg64)
  have u: "uint (of_int x * of_int y :: uint128) = y * x" if "nonneg64 x" and "nonneg64 y" for x y
    using nonneg64_product [OF that] uint_of_int_128 [of "x * y"] by (simp add: mult.commute)
  show "(of_int (amount (quote b)) * of_int (amount (base a)) :: uint128) < of_int (amount (quote a)) * of_int (amount (base b))
      \<longleftrightarrow> amount (base a) * amount (quote b) < amount (base b) * amount (quote a)"
    using p by (simp only: word_less_def u)
  show "(of_int (amount (quote b)) * of_int (amount (base a)) :: uint128) = of_int (amount (quote a)) * of_int (amount (base b))
      \<longleftrightarrow> amount (base a) * amount (quote b) = amount (base b) * amount (quote a)"
    using p by (simp only: word_uint_eq_iff u)
qed

definition same_market :: "price \<Rightarrow> price \<Rightarrow> bool" where
  "same_market a b \<longleftrightarrow> asset_id (base a) = asset_id (base b) \<and> asset_id (quote a) = asset_id (quote b)"

lemma price_less_cross:
  "price_ok a \<Longrightarrow> price_ok b \<Longrightarrow> same_market a b \<Longrightarrow>
     price_less a b \<longleftrightarrow> amount (base a) * amount (quote b) < amount (base b) * amount (quote a)"
  by (simp add: price_less_def same_market_def cross_product_words)

lemma price_eq_cross:
  "price_ok a \<Longrightarrow> price_ok b \<Longrightarrow>
     price_eq a b \<longleftrightarrow> same_market a b \<and> amount (base a) * amount (quote b) = amount (base b) * amount (quote a)"
  by (auto simp: price_eq_def same_market_def cross_product_words)

lemma price_less_other_market:
  "\<not> same_market a b \<Longrightarrow>
     price_less a b \<longleftrightarrow> asset_id (base a) < asset_id (base b) \<or>
       asset_id (base a) = asset_id (base b) \<and> asset_id (quote a) < asset_id (quote b)"
  by (auto simp: price_less_def same_market_def)

lemma cross_less_trans:
  fixes a1 :: int
  assumes "a1 * b2 < b1 * a2" "b1 * c2 < c1 * b2" "0 < a2" "0 < b2" "0 < c2"
  shows "a1 * c2 < c1 * a2"
proof -
  have "(a1 * b2) * c2 < (b1 * a2) * c2" "(b1 * c2) * a2 < (c1 * b2) * a2"
    using assms by (simp_all add: mult_strict_right_mono)
  then have "(a1 * c2) * b2 < (c1 * a2) * b2" by (simp add: ac_simps)
  then show ?thesis using assms(4) mult_less_cancel_right_pos by blast
qed

text \<open>C26. On prices with positive 64-bit amounts \<^verbatim>\<open>operator<\<close> is a strict total preorder whose
  ties are exactly \<^verbatim>\<open>operator==\<close>. Prices of the same market compare by their exact ratios, base over quote, and never by a wrapped product; prices of
  different markets by their base assets and then their quote assets.\<close>

theorem price_order:
  assumes "price_ok a" and "price_ok b" and "price_ok c"
  shows "\<not> price_less a a \<and>
    (price_less a b \<and> price_less b c \<longrightarrow> price_less a c) \<and>
    (price_less a b \<or> price_eq a b \<or> price_less b a) \<and>
    \<not> (price_less a b \<and> price_less b a) \<and> \<not> (price_less a b \<and> price_eq a b) \<and>
    (price_less a b \<longleftrightarrow>
      (if asset_id (base a) = asset_id (base b) \<and> asset_id (quote a) = asset_id (quote b)
       then amount (base a) * amount (quote b) < amount (base b) * amount (quote a)
       else asset_id (base a) < asset_id (base b) \<or> asset_id (base a) = asset_id (base b) \<and> asset_id (quote a) < asset_id (quote b)))"
proof -
  have pos: "0 < amount (quote a)" "0 < amount (quote b)" "0 < amount (quote c)"
    using assms by (simp_all add: price_ok_def pos64_def)
  have irr: "\<not> price_less a a" using assms by (simp add: price_less_cross same_market_def)
  have tri: "price_less a b \<or> price_eq a b \<or> price_less b a"
  proof (cases "same_market a b")
    case True
    then have "same_market b a" by (simp add: same_market_def)
    with True assms show ?thesis by (simp add: price_less_cross price_eq_cross) linarith
  next
    case False
    then show ?thesis using linorder_less_linear [of "asset_id (base a)" "asset_id (base b)"]
        linorder_less_linear [of "asset_id (quote a)" "asset_id (quote b)"]
      by (auto simp: price_less_def same_market_def)
  qed
  have asym: "\<not> (price_less a b \<and> price_less b a)" "\<not> (price_less a b \<and> price_eq a b)"
    using assms by (auto simp: price_less_def price_eq_def cross_product_words split: if_splits)
  have trans: "price_less a c" if "price_less a b" and "price_less b c"
  proof (cases "same_market a b \<and> same_market b c")
    case True
    then have m: "same_market a b" "same_market b c" "same_market a c" by (auto simp: same_market_def)
    have "amount (base a) * amount (quote c) < amount (base c) * amount (quote a)"
      using that m assms by (intro cross_less_trans [OF _ _ pos]) (simp_all add: price_less_cross)
    with m assms show ?thesis by (simp add: price_less_cross)
  next
    case False
    with that show ?thesis
      by (auto simp: price_less_def same_market_def split: if_splits)
  qed
  have "price_less a b \<longleftrightarrow>
      (if same_market a b then amount (base a) * amount (quote b) < amount (base b) * amount (quote a)
       else asset_id (base a) < asset_id (base b) \<or> asset_id (base a) = asset_id (base b) \<and> asset_id (quote a) < asset_id (quote b))"
    using price_less_cross [OF assms(1,2)] price_less_other_market [of a b] by (cases "same_market a b") simp_all
  from this [unfolded same_market_def] show ?thesis using irr tri asym trans by blast
qed

theorem price_order_witness:
  "let a = mk_price (mk_asset 1 0) (mk_asset 3 1); b = mk_price (mk_asset 1 0) (mk_asset 2 1);
       c = mk_price (mk_asset 4 0) (mk_asset 5 1)
   in price_less a b \<and> price_less b c \<and> price_less a c"
proof -
  let ?a = "mk_price (mk_asset 1 0) (mk_asset 3 1)" and ?b = "mk_price (mk_asset 1 0) (mk_asset 2 1)"
    and ?c = "mk_price (mk_asset 4 0) (mk_asset 5 1)"
  have h: "price_ok ?a" "price_ok ?b" "price_ok ?c" by (simp_all add: price_ok_def pos64_def)
  have "price_less ?a ?b" "price_less ?b ?c" by (simp_all add: price_less_def)
  then show ?thesis using price_order [OF h] by simp
qed

lemma call_price_returns:
  assumes "fc_lib_ok F" and "pos64 (amount debt)" and "pos64 (amount coll)"
    and "0 < ratio" and "ratio < 2 ^ 16" and "asset_id debt \<noteq> asset_id coll"
  shows "\<exists>p. call_price F debt coll ratio = Inr p \<and>
    asset_id (base p) = asset_id coll \<and> asset_id (quote p) = asset_id debt \<and>
    0 < amount (base p) \<and> amount (base p) \<le> GRAPHENE_MAX_SHARE_SUPPLY \<and>
    0 < amount (quote p) \<and> amount (quote p) \<le> GRAPHENE_MAX_SHARE_SUPPLY \<and>
    (amount debt * ratio \<le> GRAPHENE_MAX_SHARE_SUPPLY \<and> amount coll * 1000 \<le> GRAPHENE_MAX_SHARE_SUPPLY \<longrightarrow>
       amount (quote p) * (amount coll * 1000) = (amount debt * ratio) * amount (base p))"
proof -
  have pos: "0 < amount debt" "0 < amount coll" using assms by (simp_all add: pos64_def)
  have le: "amount debt * ratio \<le> 2 ^ 63 * 2 ^ 16" "amount coll * 1000 \<le> 2 ^ 63 * 2 ^ 16"
    by (rule pos64_times_uint16; use assms in simp)+
  obtain n m where nm: "rational_mul F (normal_fraction (amount debt) (amount coll)) (normal_fraction ratio 1000) = (n, m)"
    "0 < n" "n \<le> amount debt * ratio" "0 < m" "m \<le> amount coll * 1000"
    "n * (amount coll * 1000) = (amount debt * ratio) * m"
    using rational_product_bounds [OF assms(1) pos assms(4), of 1000] by auto
  have b: "n \<le> call_bound 30" "m \<le> call_bound 30"
    using nm le by (simp_all add: call_bound_def config_defs)
  obtain n' m' where r: "shrink_loop F call_half 128 (n, m) = Inr (n', m')"
    "0 < n'" "n' \<le> GRAPHENE_MAX_SHARE_SUPPLY" "0 < m'" "m' \<le> GRAPHENE_MAX_SHARE_SUPPLY"
    using call.shrink_loop_returns [OF assms(1) nm(2) b(1) nm(4) b(2), of 128] by auto
  have same: "n' = n \<and> m' = m"
    if "amount debt * ratio \<le> GRAPHENE_MAX_SHARE_SUPPLY" and "amount coll * 1000 \<le> GRAPHENE_MAX_SHARE_SUPPLY"
    using r(1) that nm by (simp add: numeral_eq_Suc)
  have "call_price F debt coll ratio = Inr (mk_price (mk_asset m' (asset_id coll)) (mk_asset n' (asset_id debt)))"
    using pos assms(6) nm(1) r(1)
    by (simp add: call_price_def fc_safe_simps(4) [OF assms(1)] config_defs price_div_def price_invert_def)
  then show ?thesis using r same nm(6) by (intro exI conjI) auto
qed

text \<open>C27. \<^verbatim>\<open>price::call_price\<close> returns for every positive debt, collateral and ratio (its loop
  ends and never divides by zero), the result is a collateral/debt price with both amounts in
  \<open>1 .. GRAPHENE_MAX_SHARE_SUPPLY\<close>, and it is exactly \<open>debt * ratio / (collateral * 1000)\<close>
  whenever those two products fit the share supply.\<close>

theorem call_price_correct:
  assumes "fc_lib_ok F" and "pos64 (amount debt)" and "pos64 (amount coll)"
    and "0 < ratio" and "ratio < 2 ^ 16" and "asset_id debt \<noteq> asset_id coll"
  shows "\<exists>p. call_price F debt coll ratio = Inr p \<and>
    asset_id (base p) = asset_id coll \<and> asset_id (quote p) = asset_id debt \<and>
    0 < amount (base p) \<and> amount (base p) \<le> GRAPHENE_MAX_SHARE_SUPPLY \<and>
    0 < amount (quote p) \<and> amount (quote p) \<le> GRAPHENE_MAX_SHARE_SUPPLY \<and>
    (amount debt * ratio \<le> GRAPHENE_MAX_SHARE_SUPPLY \<and> amount coll * 1000 \<le> GRAPHENE_MAX_SHARE_SUPPLY \<longrightarrow>
       amount (quote p) * (amount coll * 1000) = (amount debt * ratio) * amount (base p))"
  using call_price_returns [OF assms] .

theorem call_price_correct_witness:
  "\<exists>p. call_price fc_reference (mk_asset 100 1) (mk_asset 300 0) 1750 = Inr p \<and>
     amount (quote p) * (300 * 1000) = (100 * 1750) * amount (base p)"
proof -
  have h: "pos64 (amount (mk_asset 100 1))" "pos64 (amount (mk_asset 300 0))"
      "(0::int) < 1750" "(1750::int) < 2 ^ 16" "asset_id (mk_asset 100 1) \<noteq> asset_id (mk_asset 300 0)"
    by (simp_all add: pos64_def)
  show ?thesis using call_price_correct [OF fc_reference_ok h] by (auto simp: config_defs)
qed

lemma max_short_squeeze_price_returns:
  assumes "fc_lib_ok F" and "price_ok (settlement_price f)"
    and "asset_id (base (settlement_price f)) \<noteq> asset_id (quote (settlement_price f))"
    and "0 < maximum_short_squeeze_ratio f" and "maximum_short_squeeze_ratio f < 2 ^ 16"
  shows "\<exists>p. max_short_squeeze_price F f = Inr p \<and> price_ok p \<and> same_market p (settlement_price f)"
proof -
  let ?b = "amount (base (settlement_price f))" and ?q = "amount (quote (settlement_price f))"
  have pos: "0 < ?b" "0 < ?q" using assms by (simp_all add: price_ok_def pos64_def)
  have le: "?b * 1000 \<le> 2 ^ 63 * 2 ^ 16" "?q * maximum_short_squeeze_ratio f \<le> 2 ^ 63 * 2 ^ 16"
    by (rule pos64_times_uint16; use assms in \<open>simp add: price_ok_def\<close>)+
  obtain n m where nm: "rational_mul F (normal_fraction ?b ?q) (normal_fraction 1000 (maximum_short_squeeze_ratio f)) = (n, m)"
    "0 < n" "n \<le> ?b * 1000" "0 < m" "m \<le> ?q * maximum_short_squeeze_ratio f"
    using rational_product_bounds [OF assms(1) pos _ assms(4), of 1000] by auto
  have b: "n \<le> squeeze_bound 30" "m \<le> squeeze_bound 30"
    using nm le by (simp_all add: squeeze_bound_def config_defs)
  obtain n' m' where r: "shrink_loop F squeeze_half 128 (n, m) = Inr (n', m')"
    "0 < n'" "n' \<le> GRAPHENE_MAX_SHARE_SUPPLY" "0 < m'" "m' \<le> GRAPHENE_MAX_SHARE_SUPPLY"
    using squeeze.shrink_loop_returns [OF assms(1) nm(2) b(1) nm(4) b(2), of 128] by auto
  have "max_short_squeeze_price F f =
      Inr (mk_price (mk_asset n' (asset_id (base (settlement_price f)))) (mk_asset m' (asset_id (quote (settlement_price f)))))"
    using pos assms(3,4) nm(1) r(1)
    by (simp add: max_short_squeeze_price_def fc_safe_simps(4) [OF assms(1)] config_defs price_div_def)
  then show ?thesis
    using r by (simp add: price_ok_def pos64_def same_market_def config_defs)
qed

text \<open>\<^verbatim>\<open>price_feed::validate\<close> accepts exactly the feeds with a positive settlement price
  between two different assets and both ratios in \<open>1001 .. 32000\<close>. In particular a null
  settlement price is always refused, although the code skips the validation of the price for
  it: the short squeeze price is computed from it all the same.\<close>

theorem price_feed_validate_iff:
  assumes "fc_lib_ok F" and "in_int64 (amount (base (settlement_price f)))"
    and "in_int64 (amount (quote (settlement_price f)))"
  shows "price_feed_validate F f = Inr () \<longleftrightarrow>
    amount (base (settlement_price f)) > 0 \<and> amount (quote (settlement_price f)) > 0 \<and>
    asset_id (base (settlement_price f)) \<noteq> asset_id (quote (settlement_price f)) \<and>
    1001 \<le> maximum_short_squeeze_ratio f \<and> maximum_short_squeeze_ratio f \<le> 32000 \<and>
    1001 \<le> maintenance_collateral_ratio f \<and> maintenance_collateral_ratio f \<le> 32000" (is "?L \<longleftrightarrow> ?R")
proof
  assume L: ?L
  then obtain p where p: "max_short_squeeze_price F f = Inr p"
    by (auto simp: price_feed_validate_def)
  then have "asset_id (base (settlement_price f)) \<noteq> asset_id (quote (settlement_price f))"
    by (auto simp: max_short_squeeze_price_def price_div_def)
  moreover from this have "\<not> price_is_null (settlement_price f)" by (auto simp: price_is_null_def)
  ultimately show ?R
    using L by (auto simp: price_feed_validate_def price_validate_def config_defs)
next
  assume R: ?R
  have "price_ok (settlement_price f)"
    using R assms by (simp add: price_ok_def pos64_def in_int64_def)
  then obtain p where "max_short_squeeze_price F f = Inr p"
    using max_short_squeeze_price_returns [OF assms(1)] R by force
  then show ?L
    using R by (auto simp: price_feed_validate_def price_validate_def config_defs)
qed

theorem price_feed_validate_iff_witness:
  "price_feed_validate fc_reference
     \<lparr>settlement_price = mk_price (mk_asset 10 1) (mk_asset 20 0), core_exchange_rate = unit_price 0,
      maintenance_collateral_ratio = 1750, maximum_short_squeeze_ratio = 1500\<rparr> = Inr () \<and>
   price_feed_validate fc_reference
     \<lparr>settlement_price = mk_price (mk_asset 0 0) (mk_asset 0 0), core_exchange_rate = unit_price 0,
      maintenance_collateral_ratio = 1750, maximum_short_squeeze_ratio = 1500\<rparr> \<noteq> Inr ()"
  by (simp add: price_feed_validate_iff [OF fc_reference_ok] in_int64_def)

end
