(* ===== verification/Vesting.thy ===== *)
theory Vesting
  imports Asset
begin

text \<open>
  Vesting balances: \<^verbatim>\<open>vesting_balance_object.hpp\<close> and \<^verbatim>\<open>vesting_balance_object.cpp\<close>.

  Times and durations are 32-bit words, \<^verbatim>\<open>uint128_t\<close> is a 128-bit word, amounts are the checked
  \<^verbatim>\<open>share_type\<close>. The plain C++ asserts are not part of the program; that they hold is part of the
  properties below. A product of a 64-bit amount and a 32-bit duration in a C++ \<^verbatim>\<open>int64_t\<close> is
  written with its wrap-around (\<open>int64_wrap\<close>).
\<close>

type_synonym time = "32 word"

definition int64_wrap :: "int \<Rightarrow> int" where
  "int64_wrap x = sint (word_of_int x :: 64 word)"

text \<open>\<^verbatim>\<open>uint128::to_uint64\<close> refuses values of more than 64 bits; the result becomes an \<^verbatim>\<open>int64_t\<close>.\<close>

definition share_of_uint128 :: "uint128 \<Rightarrow> int result" where
  "share_of_uint128 x = require (x < of_int (2 ^ 64)) Assert_failed (Inr (int64_wrap (uint x)))"

section \<open>Policies\<close>

record vesting_policy_context =
  ctx_balance :: asset
  ctx_now :: time
  ctx_amount :: asset

record linear_vesting_policy =
  begin_timestamp :: time
  vesting_cliff_seconds :: "32 word"
  vesting_duration_seconds :: "32 word"
  begin_balance :: int

record cdd_vesting_policy =
  vesting_seconds :: "32 word"
  coin_seconds_earned :: uint128
  start_claim :: time
  coin_seconds_earned_last_update :: time

datatype vesting_policy = Linear linear_vesting_policy | Cdd cdd_vesting_policy

definition sum_below_max_shares :: "fc_lib \<Rightarrow> asset \<Rightarrow> asset \<Rightarrow> bool result" where
  "sum_below_max_shares F a b =
     (if amount a \<le> GRAPHENE_MAX_SHARE_SUPPLY \<and> amount b \<le> GRAPHENE_MAX_SHARE_SUPPLY
      then rbind (of_option Overflow (safe_add F (amount a) (amount b))) (\<lambda>s. Inr (s \<le> GRAPHENE_MAX_SHARE_SUPPLY))
      else Inr False)"

subsection \<open>Linear vesting with a cliff\<close>

definition linear_get_allowed_withdraw ::
  "fc_lib \<Rightarrow> linear_vesting_policy \<Rightarrow> vesting_policy_context \<Rightarrow> asset result" where
  "linear_get_allowed_withdraw F p c =
     rbind
       (if ctx_now c > begin_timestamp p
        then
          let elapsed_seconds = uint (ctx_now c) - uint (begin_timestamp p)
          in if elapsed_seconds \<ge> uint (vesting_cliff_seconds p)
             then
               rbind (if elapsed_seconds < uint (vesting_duration_seconds p)
                      then share_of_uint128 ((of_int (begin_balance p) * of_int elapsed_seconds :: uint128)
                             div of_int (uint (vesting_duration_seconds p)))
                      else Inr (begin_balance p)) (\<lambda>total_vested.
               rbind (of_option Overflow (safe_sub F (begin_balance p) (amount (ctx_balance c)))) (\<lambda>withdrawn_already.
               of_option Overflow (safe_sub F total_vested withdrawn_already)))
             else Inr 0
        else Inr 0)
       (\<lambda>allowed. Inr (mk_asset allowed (asset_id (ctx_balance c))))"

definition linear_is_deposit_allowed ::
  "fc_lib \<Rightarrow> linear_vesting_policy \<Rightarrow> vesting_policy_context \<Rightarrow> bool result" where
  "linear_is_deposit_allowed F p c =
     (if asset_id (ctx_amount c) = asset_id (ctx_balance c)
      then sum_below_max_shares F (ctx_amount c) (ctx_balance c) else Inr False)"

definition linear_is_withdraw_allowed ::
  "fc_lib \<Rightarrow> linear_vesting_policy \<Rightarrow> vesting_policy_context \<Rightarrow> bool result" where
  "linear_is_withdraw_allowed F p c =
     (if asset_id (ctx_amount c) = asset_id (ctx_balance c)
      then rbind (linear_get_allowed_withdraw F p c) (\<lambda>w. asset_le (ctx_amount c) w) else Inr False)"

subsection \<open>Coin-days destroyed\<close>

definition vesting_factor :: "cdd_vesting_policy \<Rightarrow> 32 word" where
  "vesting_factor p = max (vesting_seconds p) 1"

definition compute_coin_seconds_earned :: "cdd_vesting_policy \<Rightarrow> vesting_policy_context \<Rightarrow> uint128" where
  "compute_coin_seconds_earned p c =
     (let delta_seconds = uint (ctx_now c) - uint (coin_seconds_earned_last_update p);
          delta_coin_seconds = of_int (amount (ctx_balance c)) * of_int delta_seconds :: uint128;
          coin_seconds_earned_cap = of_int (amount (ctx_balance c)) * of_int (uint (vesting_factor p)) :: uint128
      in min (coin_seconds_earned p + delta_coin_seconds) coin_seconds_earned_cap)"

definition update_coin_seconds_earned :: "cdd_vesting_policy \<Rightarrow> vesting_policy_context \<Rightarrow> cdd_vesting_policy" where
  "update_coin_seconds_earned p c =
     p\<lparr>coin_seconds_earned := compute_coin_seconds_earned p c, coin_seconds_earned_last_update := ctx_now c\<rparr>"

definition cdd_get_allowed_withdraw :: "cdd_vesting_policy \<Rightarrow> vesting_policy_context \<Rightarrow> asset result" where
  "cdd_get_allowed_withdraw p c =
     (if ctx_now c \<le> start_claim p then Inr (mk_asset 0 (asset_id (ctx_balance c)))
      else rbind (share_of_uint128 (compute_coin_seconds_earned p c div of_int (uint (vesting_factor p))))
             (\<lambda>w. Inr (mk_asset w (asset_id (ctx_balance c)))))"

definition cdd_on_deposit :: "cdd_vesting_policy \<Rightarrow> vesting_policy_context \<Rightarrow> cdd_vesting_policy" where
  "cdd_on_deposit p c = update_coin_seconds_earned p c"

definition cdd_on_deposit_vested :: "cdd_vesting_policy \<Rightarrow> vesting_policy_context \<Rightarrow> cdd_vesting_policy" where
  "cdd_on_deposit_vested p c =
     (let p1 = cdd_on_deposit p c
      in p1\<lparr>coin_seconds_earned := coin_seconds_earned p1 +
             of_int (int64_wrap (amount (ctx_amount c) * uint (vesting_factor p1)))\<rparr>)"

definition cdd_on_withdraw :: "cdd_vesting_policy \<Rightarrow> vesting_policy_context \<Rightarrow> cdd_vesting_policy" where
  "cdd_on_withdraw p c =
     (let p1 = update_coin_seconds_earned p c;
          coin_seconds_needed = of_int (amount (ctx_amount c)) * of_int (uint (vesting_factor p1)) :: uint128
      in p1\<lparr>coin_seconds_earned := coin_seconds_earned p1 - coin_seconds_needed\<rparr>)"

definition cdd_is_deposit_allowed ::
  "fc_lib \<Rightarrow> cdd_vesting_policy \<Rightarrow> vesting_policy_context \<Rightarrow> bool result" where
  "cdd_is_deposit_allowed F p c =
     (if asset_id (ctx_amount c) = asset_id (ctx_balance c)
      then sum_below_max_shares F (ctx_amount c) (ctx_balance c) else Inr False)"

definition cdd_is_withdraw_allowed :: "cdd_vesting_policy \<Rightarrow> vesting_policy_context \<Rightarrow> bool result" where
  "cdd_is_withdraw_allowed p c = rbind (cdd_get_allowed_withdraw p c) (\<lambda>w. asset_le (ctx_amount c) w)"

section \<open>Vesting balances\<close>

record vesting_balance_object =
  vb_owner :: nat
  vb_balance :: asset
  vb_policy :: vesting_policy

definition vb_context :: "vesting_balance_object \<Rightarrow> time \<Rightarrow> asset \<Rightarrow> vesting_policy_context" where
  "vb_context v now a = \<lparr>ctx_balance = vb_balance v, ctx_now = now, ctx_amount = a\<rparr>"

definition vb_is_deposit_allowed :: "fc_lib \<Rightarrow> vesting_balance_object \<Rightarrow> time \<Rightarrow> asset \<Rightarrow> bool result" where
  "vb_is_deposit_allowed F v now a =
     (case vb_policy v of
        Linear p \<Rightarrow> linear_is_deposit_allowed F p (vb_context v now a)
      | Cdd p \<Rightarrow> cdd_is_deposit_allowed F p (vb_context v now a))"

definition vb_is_deposit_vested_allowed :: "fc_lib \<Rightarrow> vesting_balance_object \<Rightarrow> time \<Rightarrow> asset \<Rightarrow> bool result" where
  "vb_is_deposit_vested_allowed F v now a =
     (case vb_policy v of
        Linear p \<Rightarrow> Inr False
      | Cdd p \<Rightarrow> cdd_is_deposit_allowed F p (vb_context v now a))"

definition vb_is_withdraw_allowed :: "fc_lib \<Rightarrow> vesting_balance_object \<Rightarrow> time \<Rightarrow> asset \<Rightarrow> bool result" where
  "vb_is_withdraw_allowed F v now a =
     (case vb_policy v of
        Linear p \<Rightarrow> linear_is_withdraw_allowed F p (vb_context v now a)
      | Cdd p \<Rightarrow> cdd_is_withdraw_allowed p (vb_context v now a))"

definition vb_get_allowed_withdraw :: "fc_lib \<Rightarrow> vesting_balance_object \<Rightarrow> time \<Rightarrow> asset result" where
  "vb_get_allowed_withdraw F v now =
     (case vb_policy v of
        Linear p \<Rightarrow> linear_get_allowed_withdraw F p (vb_context v now (mk_asset 0 0))
      | Cdd p \<Rightarrow> cdd_get_allowed_withdraw p (vb_context v now (mk_asset 0 0)))"

definition vb_deposit :: "fc_lib \<Rightarrow> vesting_balance_object \<Rightarrow> time \<Rightarrow> asset \<Rightarrow> vesting_balance_object result" where
  "vb_deposit F v now a =
     rbind (asset_plus F (vb_balance v) a) (\<lambda>b.
     Inr (v\<lparr>vb_policy := (case vb_policy v of Linear p \<Rightarrow> Linear p | Cdd p \<Rightarrow> Cdd (cdd_on_deposit p (vb_context v now a))),
            vb_balance := b\<rparr>))"

definition vb_deposit_vested :: "fc_lib \<Rightarrow> vesting_balance_object \<Rightarrow> time \<Rightarrow> asset \<Rightarrow> vesting_balance_object result" where
  "vb_deposit_vested F v now a =
     (case vb_policy v of
        Linear p \<Rightarrow> Inl Assert_failed
      | Cdd p \<Rightarrow>
          rbind (asset_plus F (vb_balance v) a) (\<lambda>b.
          Inr (v\<lparr>vb_policy := Cdd (cdd_on_deposit_vested p (vb_context v now a)), vb_balance := b\<rparr>)))"

definition vb_withdraw :: "fc_lib \<Rightarrow> vesting_balance_object \<Rightarrow> time \<Rightarrow> asset \<Rightarrow> vesting_balance_object result" where
  "vb_withdraw F v now a =
     rbind (asset_minus F (vb_balance v) a) (\<lambda>b.
     Inr (v\<lparr>vb_policy := (case vb_policy v of Linear p \<Rightarrow> Linear p | Cdd p \<Rightarrow> Cdd (cdd_on_withdraw p (vb_context v now a))),
            vb_balance := b\<rparr>))"

section \<open>Exact values\<close>

definition share_range :: "int \<Rightarrow> bool" where
  "share_range x \<longleftrightarrow> 0 \<le> x \<and> x \<le> GRAPHENE_MAX_SHARE_SUPPLY"

lemma share_range_int64: "share_range x \<Longrightarrow> in_int64 x"
  by (simp add: share_range_def in_int64_def GRAPHENE_MAX_SHARE_SUPPLY_def)

lemma int64_wrap_id [simp]: "in_int64 x \<Longrightarrow> int64_wrap x = x"
  by (simp add: int64_wrap_def in_int64_def int_word_sint)

lemma share_of_uint128_exact:
  "0 \<le> x \<Longrightarrow> x < 2 ^ 63 \<Longrightarrow> share_of_uint128 (of_int x) = Inr x"
  by (simp add: share_of_uint128_def word_less_def uint_of_int_128 in_int64_def)

lemma uint_32: "0 \<le> uint (w :: 32 word)" "uint w < 2 ^ 32"
  using uint_lt2p [of w] by simp_all

lemma product_bound:
  assumes "share_range b" and "0 \<le> k" and "k < 2 ^ 32"
  shows "0 \<le> b * k" "b * k < 2 ^ 82"
proof -
  show "0 \<le> b * k" using assms by (simp add: share_range_def)
  have "b * k \<le> GRAPHENE_MAX_SHARE_SUPPLY * 2 ^ 32"
    using assms by (intro mult_mono) (simp_all add: share_range_def)
  then show "b * k < 2 ^ 82" by (simp add: GRAPHENE_MAX_SHARE_SUPPLY_def)
qed

lemma of_int_times: "(of_int a * of_int b :: uint128) = of_int (a * b)"
  by simp

lemma uint_factor: "uint (vesting_factor p) = max (uint (vesting_seconds p)) 1"
  by (simp add: vesting_factor_def max_def word_le_def)

section \<open>Linear vesting\<close>

definition linear_vested :: "linear_vesting_policy \<Rightarrow> time \<Rightarrow> int" where
  "linear_vested p now =
     (let elapsed = uint now - uint (begin_timestamp p)
      in if elapsed \<le> 0 \<or> elapsed < uint (vesting_cliff_seconds p) then 0
         else if elapsed < uint (vesting_duration_seconds p)
              then begin_balance p * elapsed div uint (vesting_duration_seconds p)
              else begin_balance p)"

lemma linear_vested_bounds:
  assumes "share_range (begin_balance p)"
  shows "0 \<le> linear_vested p now" "linear_vested p now \<le> begin_balance p"
proof -
  let ?e = "uint now - uint (begin_timestamp p)" and ?d = "uint (vesting_duration_seconds p)" and ?b = "begin_balance p"
  have b: "0 \<le> ?b" using assms by (simp add: share_range_def)
  have "0 \<le> ?b * ?e div ?d \<and> ?b * ?e div ?d \<le> ?b" if "0 < ?e" "?e < ?d"
  proof -
    have "?b * ?e \<le> ?b * ?d" using b that by (simp add: mult_left_mono)
    then have "?b * ?e div ?d \<le> ?b * ?d div ?d" using that by (intro zdiv_mono1) auto
    then show ?thesis using b that by (simp add: pos_imp_zdiv_nonneg_iff)
  qed
  then show "0 \<le> linear_vested p now" "linear_vested p now \<le> ?b"
    using b by (auto simp: linear_vested_def Let_def)
qed

lemma linear_vested_mono:
  assumes "share_range (begin_balance p)" and "uint now \<le> uint later"
  shows "linear_vested p now \<le> linear_vested p later"
proof -
  let ?e = "\<lambda>t. uint t - uint (begin_timestamp p)" and ?d = "uint (vesting_duration_seconds p)" and ?b = "begin_balance p"
  have b: "0 \<le> ?b" using assms by (simp add: share_range_def)
  consider "?e now \<le> 0 \<or> ?e now < uint (vesting_cliff_seconds p)"
    | "\<not> (?e now \<le> 0 \<or> ?e now < uint (vesting_cliff_seconds p))" "?e later \<ge> ?d"
    | "\<not> (?e now \<le> 0 \<or> ?e now < uint (vesting_cliff_seconds p))" "?e later < ?d" by linarith
  then show ?thesis
  proof cases
    case 1
    then have "linear_vested p now = 0" unfolding linear_vested_def Let_def by (rule if_P)
    then show ?thesis using linear_vested_bounds(1) [OF assms(1)] by simp
  next
    case 2
    then have "linear_vested p later = ?b" using assms(2) by (simp add: linear_vested_def)
    then show ?thesis using linear_vested_bounds(2) [OF assms(1)] by simp
  next
    case 3
    have "?b * ?e now \<le> ?b * ?e later" using b assms(2) by (simp add: mult_left_mono)
    then have "?b * ?e now div ?d \<le> ?b * ?e later div ?d" using 3 assms(2) by (intro zdiv_mono1) auto
    then show ?thesis using 3 assms(2) by (simp add: linear_vested_def Let_def)
  qed
qed

lemma linear_allowed_exact:
  assumes ok: "fc_lib_ok F" and b: "share_range (begin_balance p)" and bal: "share_range (amount (ctx_balance c))"
  shows "linear_get_allowed_withdraw F p c =
    Inr (mk_asset (if uint (ctx_now c) - uint (begin_timestamp p) > 0 \<and>
          uint (ctx_now c) - uint (begin_timestamp p) \<ge> uint (vesting_cliff_seconds p)
        then linear_vested p (ctx_now c) - (begin_balance p - amount (ctx_balance c)) else 0) (asset_id (ctx_balance c)))"
proof -
  let ?e = "uint (ctx_now c) - uint (begin_timestamp p)" and ?d = "uint (vesting_duration_seconds p)"
  have less: "(ctx_now c > begin_timestamp p) = (?e > 0)" by (simp add: word_less_def)
  have e: "?e < 2 ^ 32" using uint_32 [of "ctx_now c"] uint_32 [of "begin_timestamp p"] by linarith
  have q: "share_of_uint128 ((of_int (begin_balance p) * of_int ?e :: uint128) div of_int ?d) =
      Inr (begin_balance p * ?e div ?d)" if "0 < ?e" "?e < ?d"
  proof -
    have n: "0 \<le> begin_balance p * ?e" "begin_balance p * ?e < 2 ^ 128"
      using product_bound [OF b, of ?e] that(1) e by auto
    have d: "0 < ?d" "?d < 2 ^ 128" using that uint_32 [of "vesting_duration_seconds p"] by auto
    have v: "begin_balance p * ?e div ?d = linear_vested p (ctx_now c) \<or> ?e < uint (vesting_cliff_seconds p)"
      using that by (auto simp: linear_vested_def)
    have "begin_balance p * ?e \<le> begin_balance p * ?d" using b that by (simp add: mult_left_mono share_range_def)
    then have "begin_balance p * ?e div ?d \<le> begin_balance p * ?d div ?d" using d by (intro zdiv_mono1) auto
    then have "begin_balance p * ?e div ?d \<le> begin_balance p" using d by simp
    then have r: "0 \<le> begin_balance p * ?e div ?d" "begin_balance p * ?e div ?d < 2 ^ 63"
      using n d b by (simp_all add: pos_imp_zdiv_nonneg_iff share_range_def GRAPHENE_MAX_SHARE_SUPPLY_def)
    show ?thesis unfolding of_int_times word_quotient [OF n d] by (rule share_of_uint128_exact [OF r])
  qed
  have in1: "in_int64 (begin_balance p - amount (ctx_balance c))"
    using b bal by (simp add: share_range_def in_int64_def GRAPHENE_MAX_SHARE_SUPPLY_def)
  have in2: "in_int64 (linear_vested p (ctx_now c) - (begin_balance p - amount (ctx_balance c)))"
    using b bal linear_vested_bounds [OF b, of "ctx_now c"]
    by (simp add: share_range_def in_int64_def GRAPHENE_MAX_SHARE_SUPPLY_def)
  consider "?e \<le> 0 \<or> ?e < uint (vesting_cliff_seconds p)"
    | "0 < ?e" "uint (vesting_cliff_seconds p) \<le> ?e" "?e < ?d"
    | "0 < ?e" "uint (vesting_cliff_seconds p) \<le> ?e" "?d \<le> ?e" by linarith
  then show ?thesis
  proof cases
    case 1
    then show ?thesis by (auto simp: linear_get_allowed_withdraw_def less Let_def)
  next
    case 2
    then have "linear_vested p (ctx_now c) = begin_balance p * ?e div ?d" by (simp add: linear_vested_def)
    then show ?thesis
      using 2 in1 in2 q [OF 2(1,3)] less
      by (simp add: linear_get_allowed_withdraw_def Let_def fc_safe_simps [OF ok] checked64_def del: of_int_diff)
  next
    case 3
    then have "linear_vested p (ctx_now c) = begin_balance p" by (simp add: linear_vested_def)
    then show ?thesis
      using 3 in1 in2 less
      by (simp add: linear_get_allowed_withdraw_def Let_def fc_safe_simps [OF ok] checked64_def del: of_int_diff)
  qed
qed

section \<open>Coin-seconds\<close>

definition cdd_earned :: "cdd_vesting_policy \<Rightarrow> int \<Rightarrow> time \<Rightarrow> int" where
  "cdd_earned p bal now =
     min (uint (coin_seconds_earned p) + bal * (uint now - uint (coin_seconds_earned_last_update p)))
         (bal * uint (vesting_factor p))"

definition cdd_ok :: "cdd_vesting_policy \<Rightarrow> int \<Rightarrow> time \<Rightarrow> bool" where
  "cdd_ok p bal now \<longleftrightarrow> uint (coin_seconds_earned_last_update p) \<le> uint now \<and>
     uint (coin_seconds_earned p) \<le> bal * uint (vesting_factor p)"

lemma factor_bounds: "1 \<le> uint (vesting_factor p)" "uint (vesting_factor p) < 2 ^ 32"
  using uint_32 [of "vesting_seconds p"] by (auto simp: uint_factor)

lemma compute_exact:
  assumes "share_range (amount (ctx_balance c))" and "cdd_ok p (amount (ctx_balance c)) (ctx_now c)"
  shows "uint (compute_coin_seconds_earned p c) = cdd_earned p (amount (ctx_balance c)) (ctx_now c)"
proof -
  let ?b = "amount (ctx_balance c)" and ?d = "uint (ctx_now c) - uint (coin_seconds_earned_last_update p)"
  have d: "0 \<le> ?d" "?d < 2 ^ 32"
    using assms(2) uint_32 [of "ctx_now c"] uint_32 [of "coin_seconds_earned_last_update p"]
    unfolding cdd_ok_def by linarith+
  note B = product_bound [OF assms(1) d] and C = product_bound [OF assms(1) _ factor_bounds(2) [of p]]
  have f: "0 \<le> uint (vesting_factor p)" using factor_bounds(1) [of p] by linarith
  have sum: "uint (coin_seconds_earned p) + ?b * ?d < 2 ^ 128" "0 \<le> uint (coin_seconds_earned p) + ?b * ?d"
    using assms(2) B C [OF f] by (auto simp: cdd_ok_def)
  have w: "coin_seconds_earned p + of_int (?b * ?d) = of_int (uint (coin_seconds_earned p) + ?b * ?d)"
    by simp
  have "uint (compute_coin_seconds_earned p c) =
      uint (min (of_int (uint (coin_seconds_earned p) + ?b * ?d)) (of_int (?b * uint (vesting_factor p))) :: uint128)"
    unfolding compute_coin_seconds_earned_def Let_def of_int_times w ..
  also have "\<dots> = cdd_earned p ?b (ctx_now c)"
    using sum C [OF f] by (auto simp: min_def of_int_128_le_iff uint_of_int_128 cdd_earned_def simp del: of_int_add of_int_mult)
  finally show ?thesis .
qed

lemma cdd_earned_bounds:
  assumes "share_range bal" and "cdd_ok p bal now"
  shows "0 \<le> cdd_earned p bal now" "cdd_earned p bal now \<le> bal * uint (vesting_factor p)"
    "cdd_earned p bal now div uint (vesting_factor p) \<le> bal" "0 \<le> cdd_earned p bal now div uint (vesting_factor p)"
proof -
  have b: "0 \<le> bal" using assms by (simp add: share_range_def)
  have f: "1 \<le> uint (vesting_factor p)" by (rule factor_bounds)
  show e: "0 \<le> cdd_earned p bal now" "cdd_earned p bal now \<le> bal * uint (vesting_factor p)"
    using assms b f by (auto simp: cdd_earned_def cdd_ok_def)
  have "cdd_earned p bal now div uint (vesting_factor p) \<le> bal * uint (vesting_factor p) div uint (vesting_factor p)"
    using e f by (intro zdiv_mono1) auto
  then show "cdd_earned p bal now div uint (vesting_factor p) \<le> bal" using f by simp
  show "0 \<le> cdd_earned p bal now div uint (vesting_factor p)" using e f by (simp add: pos_imp_zdiv_nonneg_iff)
qed

lemma cdd_allowed_exact:
  assumes "share_range (amount (ctx_balance c))" and "cdd_ok p (amount (ctx_balance c)) (ctx_now c)"
  shows "cdd_get_allowed_withdraw p c =
    Inr (mk_asset (if ctx_now c \<le> start_claim p then 0
       else cdd_earned p (amount (ctx_balance c)) (ctx_now c) div uint (vesting_factor p)) (asset_id (ctx_balance c)))"
proof -
  let ?e = "cdd_earned p (amount (ctx_balance c)) (ctx_now c)" and ?f = "uint (vesting_factor p)"
  note E = cdd_earned_bounds [OF assms]
  have e: "compute_coin_seconds_earned p c = of_int ?e"
    using compute_exact [OF assms] by (metis word_of_int_uint)
  have "?e < 2 ^ 128"
    using compute_exact [OF assms] uint_lt2p [of "compute_coin_seconds_earned p c"] by simp
  then have q: "(of_int ?e :: uint128) div of_int ?f = of_int (?e div ?f)"
    using E(1) factor_bounds [of p] by (intro word_quotient) auto
  have "?e div ?f < 2 ^ 63"
    using E(3) assms(1) by (simp add: share_range_def GRAPHENE_MAX_SHARE_SUPPLY_def)
  then have "share_of_uint128 (of_int (?e div ?f)) = Inr (?e div ?f)" using E(4) by (intro share_of_uint128_exact)
  then show ?thesis unfolding cdd_get_allowed_withdraw_def e q by simp
qed

lemma cdd_withdraw_ok:
  assumes "share_range (amount (ctx_balance c))" and ok: "cdd_ok p (amount (ctx_balance c)) (ctx_now c)"
    and a: "0 \<le> amount (ctx_amount c)" "amount (ctx_amount c) \<le> cdd_earned p (amount (ctx_balance c)) (ctx_now c) div uint (vesting_factor p)"
  shows "uint (coin_seconds_earned (cdd_on_withdraw p c)) =
      cdd_earned p (amount (ctx_balance c)) (ctx_now c) - amount (ctx_amount c) * uint (vesting_factor p)"
    and "cdd_ok (cdd_on_withdraw p c) (amount (ctx_balance c) - amount (ctx_amount c)) (ctx_now c)"
    and "vesting_factor (cdd_on_withdraw p c) = vesting_factor p"
    and "start_claim (cdd_on_withdraw p c) = start_claim p"
    and "coin_seconds_earned_last_update (cdd_on_withdraw p c) = ctx_now c"
proof -
  let ?e = "cdd_earned p (amount (ctx_balance c)) (ctx_now c)" and ?f = "uint (vesting_factor p)" and ?a = "amount (ctx_amount c)"
  note E = cdd_earned_bounds [OF assms(1) ok]
  have f: "1 \<le> ?f" by (rule factor_bounds)
  have "?a * ?f \<le> ?e div ?f * ?f" using a f by (intro mult_right_mono) auto
  also have "\<dots> \<le> ?e" using f div_mult_mod_eq [of ?e ?f] pos_mod_sign [of ?f ?e] by linarith
  finally have need: "0 \<le> ?a * ?f" "?a * ?f \<le> ?e" using a f by auto
  have e: "compute_coin_seconds_earned p c = of_int ?e"
    using compute_exact [OF assms(1) ok] by (metis word_of_int_uint)
  have e128: "?e < 2 ^ 128"
    using compute_exact [OF assms(1) ok] uint_lt2p [of "compute_coin_seconds_earned p c"] by simp
  have vf: "vesting_factor (update_coin_seconds_earned p c) = vesting_factor p"
    by (simp add: vesting_factor_def update_coin_seconds_earned_def)
  have "coin_seconds_earned (cdd_on_withdraw p c) = of_int (?e - ?a * ?f)"
    unfolding cdd_on_withdraw_def Let_def vf by (simp add: update_coin_seconds_earned_def e)
  then show cs: "uint (coin_seconds_earned (cdd_on_withdraw p c)) = ?e - ?a * ?f"
    using need e128 by (simp add: uint_of_int_128 del: of_int_diff)
  show "vesting_factor (cdd_on_withdraw p c) = vesting_factor p" "start_claim (cdd_on_withdraw p c) = start_claim p"
    "coin_seconds_earned_last_update (cdd_on_withdraw p c) = ctx_now c"
    by (simp_all add: cdd_on_withdraw_def vesting_factor_def update_coin_seconds_earned_def Let_def)
  then show "cdd_ok (cdd_on_withdraw p c) (amount (ctx_balance c) - ?a) (ctx_now c)"
    using E(2) cs by (simp add: cdd_ok_def left_diff_distrib)
qed


lemma cdd_deposit_vested_exact:
  assumes "share_range (amount (ctx_balance c))" and ok: "cdd_ok p (amount (ctx_balance c)) (ctx_now c)"
    and a: "0 \<le> amount (ctx_amount c)" "amount (ctx_amount c) * uint (vesting_factor p) < 2 ^ 63"
  shows "uint (coin_seconds_earned (cdd_on_deposit_vested p c)) =
      cdd_earned p (amount (ctx_balance c)) (ctx_now c) + amount (ctx_amount c) * uint (vesting_factor p)"
    and "vesting_factor (cdd_on_deposit_vested p c) = vesting_factor p"
    and "start_claim (cdd_on_deposit_vested p c) = start_claim p"
    and "coin_seconds_earned_last_update (cdd_on_deposit_vested p c) = ctx_now c"
proof -
  let ?e = "cdd_earned p (amount (ctx_balance c)) (ctx_now c)" and ?f = "uint (vesting_factor p)" and ?a = "amount (ctx_amount c)"
  have f: "1 \<le> ?f" by (rule factor_bounds)
  have e: "compute_coin_seconds_earned p c = of_int ?e"
    using compute_exact [OF assms(1) ok] by (metis word_of_int_uint)
  have e82: "?e < 2 ^ 82" "0 \<le> ?e"
    using cdd_earned_bounds [OF assms(1) ok] product_bound [OF assms(1) _ factor_bounds(2) [of p]] f by auto
  have vf: "vesting_factor (update_coin_seconds_earned p c) = vesting_factor p"
    by (simp add: vesting_factor_def update_coin_seconds_earned_def)
  have af: "0 \<le> ?a * ?f" using a f by simp
  then have "in_int64 (?a * ?f)" using a(2) unfolding in_int64_def by linarith
  then have "coin_seconds_earned (cdd_on_deposit_vested p c) = of_int (?e + ?a * ?f)"
    unfolding cdd_on_deposit_vested_def cdd_on_deposit_def Let_def vf by (simp add: update_coin_seconds_earned_def e)
  then show "uint (coin_seconds_earned (cdd_on_deposit_vested p c)) = ?e + ?a * ?f"
    using e82 a af by (simp add: uint_of_int_128 del: of_int_add of_int_mult)
  show "vesting_factor (cdd_on_deposit_vested p c) = vesting_factor p"
    "start_claim (cdd_on_deposit_vested p c) = start_claim p"
    "coin_seconds_earned_last_update (cdd_on_deposit_vested p c) = ctx_now c"
    by (simp_all add: cdd_on_deposit_vested_def cdd_on_deposit_def vesting_factor_def update_coin_seconds_earned_def Let_def)
qed

section \<open>Properties\<close>

definition vb_ok :: "vesting_balance_object \<Rightarrow> time \<Rightarrow> bool" where
  "vb_ok v now \<longleftrightarrow> share_range (amount (vb_balance v)) \<and>
     (case vb_policy v of
        Linear p \<Rightarrow> share_range (begin_balance p) \<and> amount (vb_balance v) \<le> begin_balance p \<and>
                    begin_balance p - amount (vb_balance v) \<le> linear_vested p now
      | Cdd p \<Rightarrow> cdd_ok p (amount (vb_balance v)) now)"

lemma vb_ok_later:
  assumes "vb_ok v now" and "now \<le> later"
  shows "vb_ok v later"
proof -
  have t: "uint now \<le> uint later" using assms(2) by (simp add: word_le_def)
  show ?thesis
    using assms(1) t linear_vested_mono [of _ now later]
    by (auto simp: vb_ok_def cdd_ok_def split: vesting_policy.splits) fastforce+
qed

text \<open>C20. Withdrawals from a vesting balance are safe. The invariant \<open>vb_ok\<close> says that the balance
  is between zero and the share limit, that a linear balance has paid out no more than its
  schedule had vested, and that a coin-day balance has earned no more than its cap. It is kept
  by the passing of time. Under it, an allowed withdrawal never exceeds the balance, the
  withdrawal succeeds, takes exactly the amount, and keeps the invariant. (So the C++ asserts on
  this path hold.)\<close>

theorem vesting_withdraw_safe:
  assumes "fc_lib_ok F" and "vb_ok v earlier" and "earlier \<le> now" and "0 \<le> amount a"
    and "vb_is_withdraw_allowed F v now a = Inr True"
  shows "amount a \<le> amount (vb_balance v) \<and> asset_id a = asset_id (vb_balance v) \<and>
     (\<exists>v'. vb_withdraw F v now a = Inr v' \<and> amount (vb_balance v') = amount (vb_balance v) - amount a \<and>
        asset_id (vb_balance v') = asset_id (vb_balance v) \<and> vb_ok v' now)"
proof -
  have ok: "vb_ok v now" by (rule vb_ok_later [OF assms(2,3)])
  have bal: "share_range (amount (vb_balance v))" using ok by (simp add: vb_ok_def)
  have minus: "asset_minus F (vb_balance v) a = Inr (mk_asset (amount (vb_balance v) - amount a) (asset_id (vb_balance v)))"
    if "asset_id a = asset_id (vb_balance v)" "amount a \<le> amount (vb_balance v)"
    using that bal assms(4)
    by (simp add: asset_minus_def fc_safe_simps [OF assms(1)] checked64_def in_int64_def share_range_def GRAPHENE_MAX_SHARE_SUPPLY_def)
  show ?thesis
  proof (cases "vb_policy v")
    case (Linear p)
    then have p: "share_range (begin_balance p)" "amount (vb_balance v) \<le> begin_balance p"
        "begin_balance p - amount (vb_balance v) \<le> linear_vested p now" using ok by (simp_all add: vb_ok_def)
    have id: "asset_id a = asset_id (vb_balance v)"
      using assms(5) Linear by (auto simp: vb_is_withdraw_allowed_def linear_is_withdraw_allowed_def vb_context_def split: if_splits)
    have le: "amount a \<le> linear_vested p now - (begin_balance p - amount (vb_balance v))"
      using assms(5) Linear p linear_allowed_exact [OF assms(1) p(1), of "vb_context v now a"] bal id
      by (auto simp: vb_is_withdraw_allowed_def linear_is_withdraw_allowed_def vb_context_def asset_le_def asset_less_def
          mk_asset_def split: if_splits)
    have "amount a \<le> amount (vb_balance v)" using le linear_vested_bounds(2) [OF p(1), of now] by linarith
    then show ?thesis
      using minus [OF id] id Linear le p bal assms(4)
      by (simp add: vb_withdraw_def vb_ok_def share_range_def mk_asset_def)
  next
    case (Cdd p)
    then have p: "cdd_ok p (amount (vb_balance v)) now" using ok by (simp add: vb_ok_def)
    let ?c = "vb_context v now a"
    have c: "ctx_balance ?c = vb_balance v" "ctx_now ?c = now" "ctx_amount ?c = a" by (simp_all add: vb_context_def)
    note E = cdd_allowed_exact [of ?c p, unfolded c, OF bal p] and B = cdd_earned_bounds [OF bal p]
    have id: "asset_id a = asset_id (vb_balance v)"
      and le: "amount a \<le> cdd_earned p (amount (vb_balance v)) now div uint (vesting_factor p)"
      using assms(5) Cdd E B(4)
      by (auto simp: vb_is_withdraw_allowed_def cdd_is_withdraw_allowed_def asset_le_def asset_less_def c mk_asset_def split: if_splits)
    have "amount a \<le> amount (vb_balance v)" using le B(3) by linarith
    moreover have "cdd_ok (cdd_on_withdraw p ?c) (amount (vb_balance v) - amount a) now"
      using cdd_withdraw_ok(2) [of ?c p, unfolded c, OF bal p assms(4) le] .
    ultimately show ?thesis
      using minus [OF id] id Cdd bal assms(4)
      by (simp add: vb_withdraw_def vb_ok_def share_range_def mk_asset_def)
  qed
qed

text \<open>A coin-day balance pays at most what it has earned, and each withdrawal is charged in
  full: after withdrawing an allowed amount, what may still be withdrawn at the same time is
  exactly the earlier allowance minus the amount; after a vested deposit whose coin-seconds fit
  64 bits, it is exactly the earlier allowance plus the deposit.\<close>

theorem cdd_allowance_exact:
  assumes "fc_lib_ok F" and "vb_ok v now" and "vb_policy v = Cdd p" and "now > start_claim p" and "0 \<le> amount a"
    and "vb_get_allowed_withdraw F v now = Inr w" and "asset_id a = asset_id (vb_balance v)"
  shows "(amount a \<le> amount w \<longrightarrow> (\<exists>v'. vb_withdraw F v now a = Inr v' \<and>
        vb_get_allowed_withdraw F v' now = Inr (mk_asset (amount w - amount a) (asset_id w)))) \<and>
     (amount a * uint (vesting_factor p) < 2 ^ 63 \<and> amount (vb_balance v) + amount a \<le> GRAPHENE_MAX_SHARE_SUPPLY \<longrightarrow>
        (\<exists>v'. vb_deposit_vested F v now a = Inr v' \<and>
        vb_get_allowed_withdraw F v' now = Inr (mk_asset (amount w + amount a) (asset_id w))))"
proof (intro conjI impI, goal_cases)
  let ?c = "vb_context v now a" and ?z = "vb_context v now (mk_asset 0 0)" and ?b = "amount (vb_balance v)" and ?f = "uint (vesting_factor p)"
  have bal: "share_range ?b" and p: "cdd_ok p ?b now" using assms(2,3) by (simp_all add: vb_ok_def)
  have c: "ctx_balance ?c = vb_balance v" "ctx_now ?c = now" "ctx_amount ?c = a"
      "ctx_balance ?z = vb_balance v" "ctx_now ?z = now" by (simp_all add: vb_context_def)
  have f: "?f \<noteq> 0" using factor_bounds(1) [of p] by linarith
  have late: "\<not> now \<le> start_claim p" using assms(4) by (simp add: not_le)
  have w: "w = mk_asset (cdd_earned p ?b now div ?f) (asset_id (vb_balance v))"
    using assms(3,6) late cdd_allowed_exact [of ?z p, unfolded c, OF bal p] by (simp add: vb_get_allowed_withdraw_def)
  have allowed: "vb_get_allowed_withdraw F (v\<lparr>vb_policy := Cdd q, vb_balance := mk_asset b (asset_id (vb_balance v))\<rparr>) now =
      Inr (mk_asset (cdd_earned q b now div uint (vesting_factor q)) (asset_id (vb_balance v)))"
    if "share_range b" "cdd_ok q b now" "start_claim q = start_claim p" for q b
    using cdd_allowed_exact [of "vb_context (v\<lparr>vb_policy := Cdd q, vb_balance := mk_asset b (asset_id (vb_balance v))\<rparr>) now (mk_asset 0 0)" q]
      that late by (simp add: vb_get_allowed_withdraw_def vb_context_def mk_asset_def)
  { case 1
    then have le: "amount a \<le> cdd_earned p ?b now div ?f" by (simp add: w mk_asset_def)
    let ?q = "cdd_on_withdraw p ?c"
    note W = cdd_withdraw_ok [of ?c p, unfolded c, OF bal p assms(5) le]
    have ab: "amount a \<le> ?b" using le cdd_earned_bounds(3) [OF bal p] by linarith
    have "asset_minus F (vb_balance v) a = Inr (mk_asset (?b - amount a) (asset_id (vb_balance v)))"
      using assms(1,5,7) ab bal by (simp add: asset_minus_def fc_safe_simps checked64_def in_int64_def share_range_def GRAPHENE_MAX_SHARE_SUPPLY_def)
    then have "vb_withdraw F v now a = Inr (v\<lparr>vb_policy := Cdd ?q, vb_balance := mk_asset (?b - amount a) (asset_id (vb_balance v))\<rparr>)"
      using assms(3) by (simp add: vb_withdraw_def)
    moreover have "cdd_earned ?q (?b - amount a) now = cdd_earned p ?b now - amount a * ?f"
      using W cdd_earned_bounds(2) [OF bal p] by (simp add: cdd_earned_def [of ?q] left_diff_distrib)
    moreover have "share_range (?b - amount a)" using ab bal assms(5) by (simp add: share_range_def)
    ultimately show ?case
      using allowed [OF _ W(2,4)] W(3) div_mult_self1 [OF f, of "cdd_earned p ?b now" "- amount a"] by (simp add: w mk_asset_def) }
  { case 2
    let ?q = "cdd_on_deposit_vested p ?c"
    note W = cdd_deposit_vested_exact [of ?c p, unfolded c, OF bal p assms(5) conjunct1 [OF 2]]
    have "asset_plus F (vb_balance v) a = Inr (mk_asset (?b + amount a) (asset_id (vb_balance v)))"
      using assms(1,5,7) 2 bal by (simp add: asset_plus_def fc_safe_simps checked64_def in_int64_def share_range_def GRAPHENE_MAX_SHARE_SUPPLY_def)
    then have "vb_deposit_vested F v now a = Inr (v\<lparr>vb_policy := Cdd ?q, vb_balance := mk_asset (?b + amount a) (asset_id (vb_balance v))\<rparr>)"
      using assms(3) by (simp add: vb_deposit_vested_def)
    moreover have "cdd_earned ?q (?b + amount a) now = cdd_earned p ?b now + amount a * ?f"
      using W cdd_earned_bounds(2) [OF bal p] by (simp add: cdd_earned_def [of ?q] distrib_right)
    moreover have "cdd_ok ?q (?b + amount a) now"
      using W cdd_earned_bounds(2) [OF bal p] by (simp add: cdd_ok_def distrib_right)
    moreover have "share_range (?b + amount a)" using 2 bal assms(5) by (simp add: share_range_def)
    ultimately show ?case
      using allowed [OF _ _ W(3)] W(2) f by (simp add: w mk_asset_def) }
qed

section \<open>Witnesses\<close>

definition sample_linear :: vesting_balance_object where
  "sample_linear = \<lparr>vb_owner = 17, vb_balance = mk_asset 900 0,
     vb_policy = Linear \<lparr>begin_timestamp = 100, vesting_cliff_seconds = 10, vesting_duration_seconds = 100, begin_balance = 1000\<rparr>\<rparr>"

definition sample_cdd :: vesting_balance_object where
  "sample_cdd = \<lparr>vb_owner = 17, vb_balance = mk_asset 1000 0,
     vb_policy = Cdd \<lparr>vesting_seconds = 100, coin_seconds_earned = 0, start_claim = 0, coin_seconds_earned_last_update = 100\<rparr>\<rparr>"

theorem vesting_withdraw_safe_witness:
  "\<exists>v'. vb_withdraw fc_reference sample_linear 150 (mk_asset 400 0) = Inr v' \<and> amount (vb_balance v') = 500 \<and> vb_ok v' 150"
proof -
  have "vb_ok sample_linear 110"
    by (simp add: vb_ok_def sample_linear_def share_range_def linear_vested_def mk_asset_def GRAPHENE_MAX_SHARE_SUPPLY_def)
  moreover have "vb_is_withdraw_allowed fc_reference sample_linear 150 (mk_asset 400 0) = Inr True"
    by (simp add: vb_is_withdraw_allowed_def sample_linear_def linear_is_withdraw_allowed_def linear_get_allowed_withdraw_def
        vb_context_def mk_asset_def share_of_uint128_def asset_le_def asset_less_def in_int64_def)
  ultimately show ?thesis
    using vesting_withdraw_safe [of fc_reference sample_linear 110 150 "mk_asset 400 0"]
    by (auto simp: sample_linear_def mk_asset_def)
qed

theorem cdd_allowance_exact_witness:
  "(\<exists>v'. vb_withdraw fc_reference sample_cdd 150 (mk_asset 200 0) = Inr v' \<and>
      vb_get_allowed_withdraw fc_reference v' 150 = Inr (mk_asset 300 0)) \<and>
   (\<exists>v'. vb_deposit_vested fc_reference sample_cdd 150 (mk_asset 200 0) = Inr v' \<and>
      vb_get_allowed_withdraw fc_reference v' 150 = Inr (mk_asset 700 0))"
proof -
  let ?p = "\<lparr>vesting_seconds = 100, coin_seconds_earned = 0, start_claim = 0, coin_seconds_earned_last_update = 100\<rparr>"
  have "vb_ok sample_cdd 150"
    by (simp add: vb_ok_def sample_cdd_def share_range_def cdd_ok_def vesting_factor_def mk_asset_def GRAPHENE_MAX_SHARE_SUPPLY_def)
  moreover have "vb_get_allowed_withdraw fc_reference sample_cdd 150 = Inr (mk_asset 500 0)"
    by (simp add: vb_get_allowed_withdraw_def sample_cdd_def cdd_get_allowed_withdraw_def compute_coin_seconds_earned_def
        vesting_factor_def vb_context_def mk_asset_def share_of_uint128_def in_int64_def)
  ultimately show ?thesis
    using cdd_allowance_exact [of fc_reference sample_cdd 150 ?p "mk_asset 200 0" "mk_asset 500 0"]
    by (simp add: sample_cdd_def mk_asset_def vesting_factor_def GRAPHENE_MAX_SHARE_SUPPLY_def)
qed

definition sample_cashback :: vesting_balance_object where
  "sample_cashback = \<lparr>vb_owner = 17, vb_balance = mk_asset 0 0,
     vb_policy = Cdd \<lparr>vesting_seconds = 31536000, coin_seconds_earned = 0, start_claim = 0, coin_seconds_earned_last_update = 100\<rparr>\<rparr>"

text \<open>The condition on 64 bits is needed: a vested deposit of six million core (in shares of
  precision five) into an empty balance with the default vesting period of one year overflows
  the \<^verbatim>\<open>int64_t\<close> product of \<^verbatim>\<open>on_deposit_vested\<close>, and only about a fortieth of it is
  available immediately.\<close>

theorem vested_deposit_overflow:
  "\<exists>v'. vb_deposit_vested fc_reference sample_cashback 200 (mk_asset 600000000000 0) = Inr v' \<and>
     vb_get_allowed_withdraw fc_reference v' 200 = Inr (mk_asset 15057582644 0)"
  by (simp add: vb_deposit_vested_def sample_cashback_def asset_plus_def vb_get_allowed_withdraw_def
      cdd_get_allowed_withdraw_def cdd_on_deposit_vested_def cdd_on_deposit_def update_coin_seconds_earned_def
      compute_coin_seconds_earned_def vesting_factor_def vb_context_def mk_asset_def share_of_uint128_def in_int64_def
      int64_wrap_def)

end
