(* ===== verification/Chain_Objects.thy ===== *)
theory Chain_Objects
  imports Vesting Object_Index
begin

text \<open>
  The objects of the chain state that hold or move value, and the state itself: \<^verbatim>\<open>account_object.hpp\<close>,
  \<^verbatim>\<open>asset_object.hpp\<close>, \<^verbatim>\<open>protocol/asset_ops.hpp\<close> (options), \<^verbatim>\<open>withdraw_permission_object.hpp\<close>,
  \<^verbatim>\<open>witness_object.hpp\<close>, \<^verbatim>\<open>market_object.hpp\<close>, and the parts of the global properties the modelled code reads.

  \<open>database\<close> has one index (\<open>Object_Index\<close>) per object type. Object ids are instance numbers. The
  modifications modelled here never change a unique key, so \<open>ix_modify\<close> needs no clash check
  (\<open>ix_modify_index_modify\<close>). A modification whose callback throws is the exception; the state is
  then rolled back by the session around it (\<open>Undo_Sessions\<close>).
\<close>

section \<open>Objects\<close>

record account_object =
  membership_expiration_date :: time
  registrar :: nat
  referrer :: nat
  lifetime_referrer :: nat
  network_fee_percentage :: nat
  lifetime_referrer_fee_percentage :: nat
  referrer_rewards_percentage :: nat
  acc_name :: string
  statistics :: nat
  whitelisting_accounts :: "nat list"
  blacklisting_accounts :: "nat list"
  whitelisted_accounts :: "nat list"
  blacklisted_accounts :: "nat list"
  cashback_vb :: "nat option"
  allowed_assets :: "nat list option"
  active_account_auths :: "nat list"

definition is_lifetime_member :: "account_object \<Rightarrow> bool" where
  "is_lifetime_member a \<longleftrightarrow> membership_expiration_date a = - 1"

definition is_basic_account :: "account_object \<Rightarrow> time \<Rightarrow> bool" where
  "is_basic_account a now \<longleftrightarrow> now > membership_expiration_date a"

definition is_annual_member :: "account_object \<Rightarrow> time \<Rightarrow> bool" where
  "is_annual_member a now \<longleftrightarrow> \<not> is_lifetime_member a \<and> \<not> is_basic_account a now"

definition is_member :: "account_object \<Rightarrow> time \<Rightarrow> bool" where
  "is_member a now \<longleftrightarrow> \<not> is_basic_account a now"

record account_statistics_object =
  total_core_in_orders :: int
  core_in_balance :: int
  has_cashback_vb :: bool
  is_voting :: bool
  lifetime_fees_paid :: int
  pending_fees :: int
  pending_vested_fees :: int

definition has_some_core_voting :: "account_statistics_object \<Rightarrow> bool" where
  "has_some_core_voting s \<longleftrightarrow> is_voting s \<and> (total_core_in_orders s > 0 \<or> core_in_balance s > 0 \<or> has_cashback_vb s)"

definition has_pending_fees :: "account_statistics_object \<Rightarrow> bool" where
  "has_pending_fees s \<longleftrightarrow> pending_fees s > 0 \<or> pending_vested_fees s > 0"

definition need_maintenance :: "account_statistics_object \<Rightarrow> bool" where
  "need_maintenance s \<longleftrightarrow> has_some_core_voting s \<or> has_pending_fees s"

record account_balance_object =
  bal_owner :: nat
  bal_asset_type :: nat
  bal_balance :: int
  maintenance_flag :: bool

record asset_options =
  max_supply :: int
  market_fee_percent :: nat
  max_market_fee :: int
  issuer_permissions :: "16 word"
  flags :: "16 word"
  opt_core_exchange_rate :: price
  whitelist_authorities :: "nat list"
  blacklist_authorities :: "nat list"
  whitelist_markets :: "nat list"
  blacklist_markets :: "nat list"

record bitasset_options =
  feed_lifetime_sec :: "32 word"
  minimum_feeds :: nat
  force_settlement_delay_sec :: "32 word"
  force_settlement_offset_percent :: nat
  maximum_force_settlement_volume :: nat
  short_backing_asset :: nat

record asset_object =
  symbol :: string
  precision :: nat
  issuer :: nat
  options :: asset_options
  dynamic_asset_data_id :: nat
  bitasset_data_id :: "nat option"

record asset_dynamic_data_object =
  current_supply :: int
  confidential_supply :: int
  accumulated_fees :: int
  fee_pool :: int

record asset_bitasset_data_object =
  bit_asset_id :: nat
  bit_options :: bitasset_options
  bit_feeds :: "(nat \<times> time \<times> price_feed) list"
  current_feed :: price_feed
  current_feed_publication_time :: time
  is_prediction_market :: bool
  force_settled_volume :: int
  bit_settlement_price :: price
  settlement_fund :: int
  asset_cer_updated :: bool
  feed_cer_updated :: bool

record withdraw_permission_object =
  withdraw_from_account :: nat
  authorized_account :: nat
  withdrawal_limit :: asset
  withdrawal_period_sec :: "32 word"
  period_start_time :: time
  expiration :: time
  claimed_this_period :: int

record witness_object =
  witness_account :: nat
  pay_vb :: "nat option"
  last_aslot :: nat
  total_missed :: nat
  last_confirmed_block_num :: "32 word"

record limit_order_object =
  lo_expiration :: time
  seller :: nat
  for_sale :: int
  sell_price :: price
  deferred_fee :: int
  deferred_paid_fee :: asset

record call_order_object =
  borrower :: nat
  collateral :: int
  debt :: int
  co_call_price :: price
  target_collateral_ratio :: "nat option"

record force_settlement_object =
  fs_owner :: nat
  fs_balance :: asset
  settlement_date :: time

record collateral_bid_object =
  bidder :: nat
  inv_swan_price :: price

text \<open>The fields of \<^verbatim>\<open>chain_parameters\<close> the modelled code reads.\<close>

record chain_parameters =
  block_interval :: "32 word"
  maximum_asset_whitelist_authorities :: nat
  maximum_asset_feed_publishers :: nat
  cashback_vesting_period_seconds :: "32 word"
  cashback_vesting_threshold :: int
  witness_pay_per_block :: int
  witness_pay_vesting_seconds :: "32 word"
  limit_order_cancel_fee :: nat
  fee_scale :: nat
  maximum_time_until_expiration :: "32 word"
  allow_non_member_whitelists :: bool

record database =
  accounts :: "account_object index"
  account_stats :: "account_statistics_object index"
  balances :: "account_balance_object index"
  assets :: "asset_object index"
  asset_dyn_data :: "asset_dynamic_data_object index"
  bitassets :: "asset_bitasset_data_object index"
  vesting_balances :: "vesting_balance_object index"
  withdraw_permissions :: "withdraw_permission_object index"
  witnesses :: "witness_object index"
  limit_orders :: "limit_order_object index"
  call_orders :: "call_order_object index"
  force_settlements :: "force_settlement_object index"
  collateral_bids :: "collateral_bid_object index"
  witness_budget :: int
  head_block_time :: time
  next_maintenance_time :: time
  parameters :: chain_parameters
  issue_453_affected_assets :: "nat list"

definition amount_for_sale :: "limit_order_object \<Rightarrow> asset" where
  "amount_for_sale lo = mk_asset (for_sale lo) (asset_id (base (sell_price lo)))"

definition amount_to_receive :: "limit_order_object \<Rightarrow> asset result" where
  "amount_to_receive lo = asset_mult (amount_for_sale lo) (sell_price lo)"

definition sell_asset_id :: "limit_order_object \<Rightarrow> nat" where
  "sell_asset_id lo = asset_id (base (sell_price lo))"

definition receive_asset_id :: "limit_order_object \<Rightarrow> nat" where
  "receive_asset_id lo = asset_id (quote (sell_price lo))"

definition debt_type :: "call_order_object \<Rightarrow> nat" where
  "debt_type co = asset_id (quote (co_call_price co))"

definition collateral_type :: "call_order_object \<Rightarrow> nat" where
  "collateral_type co = asset_id (base (co_call_price co))"

definition get_debt :: "call_order_object \<Rightarrow> asset" where
  "get_debt co = mk_asset (debt co) (debt_type co)"

definition get_collateral :: "call_order_object \<Rightarrow> asset" where
  "get_collateral co = mk_asset (collateral co) (collateral_type co)"

definition collateralization :: "call_order_object \<Rightarrow> price result" where
  "collateralization co = price_div (get_collateral co) (get_debt co)"

section \<open>Flags and accounts of the protocol\<close>

definition charge_market_fee :: "16 word" where "charge_market_fee = 0x01"
definition white_list :: "16 word" where "white_list = 0x02"
definition override_authority :: "16 word" where "override_authority = 0x04"
definition transfer_restricted :: "16 word" where "transfer_restricted = 0x08"
definition disable_force_settle :: "16 word" where "disable_force_settle = 0x10"
definition global_settle :: "16 word" where "global_settle = 0x20"
definition disable_confidential :: "16 word" where "disable_confidential = 0x40"
definition witness_fed_asset :: "16 word" where "witness_fed_asset = 0x80"
definition committee_fed_asset :: "16 word" where "committee_fed_asset = 0x100"

definition has_flag :: "16 word \<Rightarrow> 16 word \<Rightarrow> bool" where
  "has_flag w f \<longleftrightarrow> and w f \<noteq> 0"

definition is_market_issued :: "asset_object \<Rightarrow> bool" where
  "is_market_issued a \<longleftrightarrow> bitasset_data_id a \<noteq> None"

definition can_force_settle :: "asset_object \<Rightarrow> bool" where
  "can_force_settle a \<longleftrightarrow> \<not> has_flag (flags (options a)) disable_force_settle"

definition can_global_settle :: "asset_object \<Rightarrow> bool" where
  "can_global_settle a \<longleftrightarrow> has_flag (issuer_permissions (options a)) global_settle"

definition charges_market_fees :: "asset_object \<Rightarrow> bool" where
  "charges_market_fees a \<longleftrightarrow> has_flag (flags (options a)) charge_market_fee"

definition is_transfer_restricted :: "asset_object \<Rightarrow> bool" where
  "is_transfer_restricted a \<longleftrightarrow> has_flag (flags (options a)) transfer_restricted"

definition can_override :: "asset_object \<Rightarrow> bool" where
  "can_override a \<longleftrightarrow> has_flag (flags (options a)) override_authority"

definition allow_confidential :: "asset_object \<Rightarrow> bool" where
  "allow_confidential a \<longleftrightarrow> \<not> has_flag (flags (options a)) disable_confidential"

definition asset_object_validate :: "asset_object \<Rightarrow> unit result" where
  "asset_object_validate a =
     (if \<not> is_market_issued a
      then require (\<not> (has_flag (flags (options a)) disable_force_settle \<or> has_flag (flags (options a)) global_settle)) Assert_failed
          (require (\<not> (has_flag (issuer_permissions (options a)) disable_force_settle \<or>
                        has_flag (issuer_permissions (options a)) global_settle)) Assert_failed (Inr ()))
      else Inr ())"

definition has_settlement :: "asset_bitasset_data_object \<Rightarrow> bool" where
  "has_settlement b \<longleftrightarrow> \<not> price_is_null (bit_settlement_price b)"

definition need_to_update_cer :: "asset_bitasset_data_object \<Rightarrow> bool" where
  "need_to_update_cer b \<longleftrightarrow>
     (feed_cer_updated b \<or> asset_cer_updated b) \<and> \<not> price_is_null (core_exchange_rate (current_feed b))"

definition feed_expiration_time :: "asset_bitasset_data_object \<Rightarrow> time" where
  "feed_expiration_time b =
     (if - 1 - current_feed_publication_time b \<le> feed_lifetime_sec (bit_options b) then - 1
      else current_feed_publication_time b + feed_lifetime_sec (bit_options b))"

definition feed_is_expired :: "asset_bitasset_data_object \<Rightarrow> time \<Rightarrow> bool" where
  "feed_is_expired b now \<longleftrightarrow> feed_expiration_time b \<le> now"

definition feed_is_expired_before_hardfork_615 :: "asset_bitasset_data_object \<Rightarrow> time \<Rightarrow> bool" where
  "feed_is_expired_before_hardfork_615 b now \<longleftrightarrow> feed_expiration_time b \<ge> now"

definition GRAPHENE_COMMITTEE_ACCOUNT :: nat where "GRAPHENE_COMMITTEE_ACCOUNT = 0"
definition GRAPHENE_WITNESS_ACCOUNT :: nat where "GRAPHENE_WITNESS_ACCOUNT = 1"
definition GRAPHENE_RELAXED_COMMITTEE_ACCOUNT :: nat where "GRAPHENE_RELAXED_COMMITTEE_ACCOUNT = 2"
definition GRAPHENE_NULL_ACCOUNT :: nat where "GRAPHENE_NULL_ACCOUNT = 3"
definition GRAPHENE_TEMP_ACCOUNT :: nat where "GRAPHENE_TEMP_ACCOUNT = 4"

definition special_account :: "nat \<Rightarrow> bool" where
  "special_account i \<longleftrightarrow> i = GRAPHENE_COMMITTEE_ACCOUNT \<or> i = GRAPHENE_WITNESS_ACCOUNT \<or>
     i = GRAPHENE_RELAXED_COMMITTEE_ACCOUNT \<or> i = GRAPHENE_NULL_ACCOUNT \<or> i = GRAPHENE_TEMP_ACCOUNT"

lemmas special_account_defs = GRAPHENE_COMMITTEE_ACCOUNT_def GRAPHENE_WITNESS_ACCOUNT_def
  GRAPHENE_RELAXED_COMMITTEE_ACCOUNT_def GRAPHENE_NULL_ACCOUNT_def GRAPHENE_TEMP_ACCOUNT_def

definition HARDFORK_23_TIME :: time where "HARDFORK_23_TIME = 1512747600"
definition HARDFORK_385_TIME :: time where "HARDFORK_385_TIME = 1445558400"
definition HARDFORK_415_TIME :: time where "HARDFORK_415_TIME = 1446652800"
definition HARDFORK_419_TIME :: time where "HARDFORK_419_TIME = 1446652800"
definition HARDFORK_413_TIME :: time where "HARDFORK_413_TIME = 1446652800"
definition HARDFORK_436_TIME :: time where "HARDFORK_436_TIME = 1450288800"
definition HARDFORK_445_TIME :: time where "HARDFORK_445_TIME = 1450288800"
definition HARDFORK_555_TIME :: time where "HARDFORK_555_TIME = 1456250400"
definition HARDFORK_615_TIME :: time where "HARDFORK_615_TIME = 1458752400"
definition HARDFORK_CORE_184_TIME :: time where "HARDFORK_CORE_184_TIME = 1532008920"
definition HARDFORK_CORE_338_TIME :: time where "HARDFORK_CORE_338_TIME = 1532008920"
definition HARDFORK_CORE_342_TIME :: time where "HARDFORK_CORE_342_TIME = 1532008920"
definition HARDFORK_CORE_343_TIME :: time where "HARDFORK_CORE_343_TIME = 1532008920"
definition HARDFORK_CORE_453_TIME :: time where "HARDFORK_CORE_453_TIME = 1532008920"
definition HARDFORK_CORE_583_TIME :: time where "HARDFORK_CORE_583_TIME = 1532008920"
definition HARDFORK_CORE_604_TIME :: time where "HARDFORK_CORE_604_TIME = 1532008920"
definition HARDFORK_CORE_606_TIME :: time where "HARDFORK_CORE_606_TIME = 1532008920"
definition HARDFORK_CORE_625_TIME :: time where "HARDFORK_CORE_625_TIME = 1532008920"
definition HARDFORK_CORE_834_TIME :: time where "HARDFORK_CORE_834_TIME = 1532008920"
definition HARDFORK_480_TIME :: time where "HARDFORK_480_TIME = 1450378800"
definition HARDFORK_CORE_216_TIME :: time where "HARDFORK_CORE_216_TIME = 1512747600"
definition HARDFORK_572_TIME :: time where "HARDFORK_572_TIME = 1456250400"
definition HARDFORK_CORE_188_TIME :: time where "HARDFORK_CORE_188_TIME = 1532008920"
definition HARDFORK_CORE_199_TIME :: time where "HARDFORK_CORE_199_TIME = 1532008920"
definition HARDFORK_CORE_429_TIME :: time where "HARDFORK_CORE_429_TIME = 1512747600"
definition HARDFORK_CORE_620_TIME :: time where "HARDFORK_CORE_620_TIME = 1532008920"
definition HARDFORK_CORE_868_890_TIME :: time where "HARDFORK_CORE_868_890_TIME = 1532008920"
definition HARDFORK_CORE_935_TIME :: time where "HARDFORK_CORE_935_TIME = 1532008920"
definition HARDFORK_CORE_922_931_TIME :: time where "HARDFORK_CORE_922_931_TIME = 1532008920"
definition HARDFORK_CORE_1040_TIME :: time where "HARDFORK_CORE_1040_TIME = 1532008920"
definition HARDFORK_CORE_942_TIME :: time where "HARDFORK_CORE_942_TIME = 1532008920"

lemmas hardfork_defs = HARDFORK_23_TIME_def HARDFORK_413_TIME_def HARDFORK_CORE_188_TIME_def HARDFORK_CORE_922_931_TIME_def HARDFORK_385_TIME_def HARDFORK_415_TIME_def HARDFORK_419_TIME_def
  HARDFORK_572_TIME_def HARDFORK_CORE_199_TIME_def HARDFORK_CORE_429_TIME_def HARDFORK_CORE_620_TIME_def
  HARDFORK_CORE_942_TIME_def

section \<open>Changing one object\<close>

definition ix_modify :: "nat \<Rightarrow> ('o \<Rightarrow> 'o result) \<Rightarrow> 'o index \<Rightarrow> 'o index result" where
  "ix_modify i m ix =
     rbind (index_get ix i) (\<lambda>ob. rbind (m ob) (\<lambda>ob'. Inr (ix\<lparr>objects := AList.update i ob' (objects ix)\<rparr>)))"

definition ix_create :: "'o \<Rightarrow> 'o index \<Rightarrow> nat \<times> 'o index" where
  "ix_create ob ix = (next_id ix, \<lparr>next_id = next_id ix + 1, objects = objects ix @ [(next_id ix, ob)]\<rparr>)"

definition ix_sum :: "('o \<Rightarrow> int) \<Rightarrow> 'o index \<Rightarrow> int" where
  "ix_sum f ix = (\<Sum>x\<leftarrow>objects ix. f (snd x))"

definition ix_ok :: "'o index \<Rightarrow> bool" where
  "ix_ok ix \<longleftrightarrow> distinct (map fst (objects ix)) \<and> (\<forall>x\<in>set (objects ix). fst x < next_id ix)"

lemma ix_ok_index_ok: "ix_ok ix \<longleftrightarrow> index_ok ix"
proof (cases "distinct (map fst (objects ix))")
  case True
  then show ?thesis by (force simp: ix_ok_def index_ok_def index_find_def)
next
  case False
  then show ?thesis by (simp add: ix_ok_def index_ok_def)
qed

lemma ix_modify_index_modify:
  assumes "index_modify clash i m ix = (ix', True)"
  shows "ix_modify i (\<lambda>ob. Inr (m ob)) ix = Inr ix'"
  using assms by (auto simp: index_modify_def ix_modify_def index_get_def split: option.splits if_splits)

lemma ix_create_index_create:
  assumes "ix_ok ix" and "\<not> clashes clash ix (next_id ix) ob"
  shows "index_create clash (\<lambda>_. Inr ob) ix = Inr (ix_create ob ix)"
proof -
  have "index_find ix (next_id ix) = None"
    using assms(1) by (auto simp: ix_ok_def index_find_def map_of_eq_None_iff)
  then show ?thesis
    using assms(2) by (cases ix) (simp add: index_create_def index_insert_def ix_create_def use_next_id_def)
qed

lemma sum_alist_update:
  "distinct (map fst xs) \<Longrightarrow> map_of xs i = Some ob \<Longrightarrow>
     (\<Sum>x\<leftarrow>AList.update i ob' xs. f (snd x)) = (\<Sum>x\<leftarrow>xs. f (snd x)) + f ob' - (f ob :: int)"
  by (induction xs) auto

lemma ix_modifyE:
  assumes "ix_ok ix" and "ix_modify i m ix = Inr ix'"
  obtains ob ob' where "index_find ix i = Some ob" "m ob = Inr ob'" "index_find ix' = (index_find ix)(i \<mapsto> ob')"
    "\<And>f. ix_sum f ix' = ix_sum f ix + f ob' - f ob" "next_id ix' = next_id ix" "ix_ok ix'"
    "objects ix' = AList.update i ob' (objects ix)"
proof -
  obtain ob ob' where o: "index_find ix i = Some ob" "m ob = Inr ob'" "ix' = ix\<lparr>objects := AList.update i ob' (objects ix)\<rparr>"
    using assms(2) by (auto simp: ix_modify_def index_get_def)
  have d: "distinct (map fst (objects ix))" using assms(1) by (simp add: ix_ok_def)
  have "index_ok ix'"
    using assms(1) o(1,3) by (auto simp: ix_ok_index_ok index_ok_def distinct_update)
  moreover have "ix_sum f ix' = ix_sum f ix + f ob' - f ob" for f
    using sum_alist_update [OF d, where i=i and ob=ob and ob'=ob' and f=f] o(1,3) by (simp add: ix_sum_def index_find_def)
  ultimately show thesis using o by (intro that) (auto simp: ix_ok_index_ok)
qed

lemma ix_create_facts:
  assumes "ix_ok ix" and "ix_create ob ix = (i, ix')"
  shows "i = next_id ix \<and> index_find ix i = None \<and> index_find ix' = (index_find ix)(i \<mapsto> ob) \<and>
     (\<forall>f. ix_sum f ix' = ix_sum f ix + f ob) \<and> ix_ok ix'"
proof -
  have "index_find ix (next_id ix) = None"
    using assms(1) by (auto simp: ix_ok_def index_find_def map_of_eq_None_iff)
  moreover have "ix_ok ix'" using assms by (fastforce simp: ix_ok_def ix_create_def)
  ultimately show ?thesis
    using assms by (auto simp: ix_create_def ix_sum_def index_find_def fun_eq_iff map_add_def split: option.splits)
qed

end
