(* ===== verification/Balances.thy ===== *)
theory Balances
  imports Chain_Objects
begin

text \<open>
  Account balances and fees: \<^verbatim>\<open>db_balance.cpp\<close> and the methods of \<^verbatim>\<open>account_object.cpp\<close>.

  \<open>excess d a\<close> is the sum that the repository's test fixture calls the total balance of asset \<open>a\<close>
  (\<^verbatim>\<open>database_fixture::verify_asset_supplies\<close>), minus the current supply of the asset: balances,
  vesting balances, orders, collateral, settlements, bids, accumulated and pending fees, fee pools,
  settlement funds, and the witness budget. The chain conserves value when no operation changes it.
  The interface \<open>balance_ledger\<close> is what the evaluators rely on.
\<close>

section \<open>Operations\<close>

definition balance_key :: "nat \<Rightarrow> nat \<Rightarrow> nat \<times> account_balance_object \<Rightarrow> bool" where
  "balance_key owner a x \<longleftrightarrow> bal_owner (snd x) = owner \<and> bal_asset_type (snd x) = a"

definition find_balance :: "database \<Rightarrow> nat \<Rightarrow> nat \<Rightarrow> (nat \<times> account_balance_object) option" where
  "find_balance d owner a = find (balance_key owner a) (objects (balances d))"

definition get_balance :: "database \<Rightarrow> nat \<Rightarrow> nat \<Rightarrow> asset" where
  "get_balance d owner a =
     (case find_balance d owner a of
        None \<Rightarrow> mk_asset 0 a
      | Some (_, b) \<Rightarrow> mk_asset (bal_balance b) (bal_asset_type b))"

definition balance_object_adjust :: "fc_lib \<Rightarrow> asset \<Rightarrow> account_balance_object \<Rightarrow> account_balance_object result" where
  "balance_object_adjust F delta b =
     rbind (of_option Overflow (safe_add F (bal_balance b) (amount delta))) (\<lambda>s.
     Inr (b\<lparr>bal_balance := s, maintenance_flag := (if bal_asset_type b = 0 then True else maintenance_flag b)\<rparr>))"

definition adjust_balance :: "fc_lib \<Rightarrow> nat \<Rightarrow> asset \<Rightarrow> database \<Rightarrow> database result" where
  "adjust_balance F account delta d =
     (if amount delta = 0 then Inr d
      else case find_balance d account (asset_id delta) of
        None \<Rightarrow>
          require (amount delta > 0) Assert_failed
          (Inr (d\<lparr>balances := snd (ix_create
             \<lparr>bal_owner = account, bal_asset_type = asset_id delta, bal_balance = amount delta,
              maintenance_flag = (asset_id delta = 0)\<rparr> (balances d))\<rparr>))
      | Some (i, b) \<Rightarrow>
          rbind (if amount delta < 0
                 then rbind (asset_neg F delta) (\<lambda>need. asset_ge (mk_asset (bal_balance b) (bal_asset_type b)) need)
                 else Inr True) (\<lambda>enough.
          require enough Assert_failed
          (rbind (ix_modify i (balance_object_adjust F delta) (balances d)) (\<lambda>ix.
           Inr (d\<lparr>balances := ix\<rparr>)))))"

definition modify_dyn_data ::
  "nat \<Rightarrow> (asset_dynamic_data_object \<Rightarrow> asset_dynamic_data_object result) \<Rightarrow> database \<Rightarrow> database result" where
  "modify_dyn_data i m d = rbind (ix_modify i m (asset_dyn_data d)) (\<lambda>ix. Inr (d\<lparr>asset_dyn_data := ix\<rparr>))"

definition modify_stats ::
  "nat \<Rightarrow> (account_statistics_object \<Rightarrow> account_statistics_object result) \<Rightarrow> database \<Rightarrow> database result" where
  "modify_stats i m d = rbind (ix_modify i m (account_stats d)) (\<lambda>ix. Inr (d\<lparr>account_stats := ix\<rparr>))"

definition modify_account ::
  "nat \<Rightarrow> (account_object \<Rightarrow> account_object result) \<Rightarrow> database \<Rightarrow> database result" where
  "modify_account i m d = rbind (ix_modify i m (accounts d)) (\<lambda>ix. Inr (d\<lparr>accounts := ix\<rparr>))"

definition lazy_vesting_target :: "database \<Rightarrow> nat option \<Rightarrow> 32 word \<Rightarrow> nat \<Rightarrow> nat option result" where
  "lazy_vesting_target d ovbid req_vesting_seconds req_owner =
     (case ovbid of
        None \<Rightarrow> Inr None
      | Some i \<Rightarrow>
          rbind (index_get (vesting_balances d) i) (\<lambda>vbo.
          Inr (if vb_owner vbo \<noteq> req_owner then None
               else case vb_policy vbo of
                  Linear _ \<Rightarrow> None
                | Cdd p \<Rightarrow> if vesting_seconds p \<noteq> req_vesting_seconds then None else Some i)))"

definition new_lazy_vesting :: "time \<Rightarrow> int \<Rightarrow> 32 word \<Rightarrow> nat \<Rightarrow> bool \<Rightarrow> vesting_balance_object" where
  "new_lazy_vesting now amt req_vesting_seconds req_owner require_vesting =
     \<lparr>vb_owner = req_owner, vb_balance = mk_asset amt 0,
      vb_policy = Cdd \<lparr>vesting_seconds = req_vesting_seconds,
        coin_seconds_earned = of_int (if require_vesting then 0 else int64_wrap (amt * uint req_vesting_seconds)),
        start_claim = 0, coin_seconds_earned_last_update = now\<rparr>\<rparr>"

definition deposit_lazy_vesting ::
  "fc_lib \<Rightarrow> nat option \<Rightarrow> int \<Rightarrow> 32 word \<Rightarrow> nat \<Rightarrow> bool \<Rightarrow> database \<Rightarrow> (nat option \<times> database) result" where
  "deposit_lazy_vesting F ovbid amt req_vesting_seconds req_owner require_vesting d =
     (if amt = 0 then Inr (None, d)
      else
        let now = head_block_time d
        in rbind (lazy_vesting_target d ovbid req_vesting_seconds req_owner) (\<lambda>target.
           case target of
             Some i \<Rightarrow>
               rbind (ix_modify i (\<lambda>v. if require_vesting then vb_deposit F v now (mk_asset amt 0)
                                       else vb_deposit_vested F v now (mk_asset amt 0)) (vesting_balances d)) (\<lambda>ix.
               Inr (None, d\<lparr>vesting_balances := ix\<rparr>))
           | None \<Rightarrow>
               (case ix_create (new_lazy_vesting now amt req_vesting_seconds req_owner require_vesting) (vesting_balances d) of
                  (i, ix) \<Rightarrow> Inr (Some i, d\<lparr>vesting_balances := ix\<rparr>))))"

definition deposit_cashback :: "fc_lib \<Rightarrow> nat \<Rightarrow> int \<Rightarrow> bool \<Rightarrow> database \<Rightarrow> database result" where
  "deposit_cashback F acct amt require_vesting d =
     rbind (index_get (accounts d) acct) (\<lambda>ao.
     if amt = 0 then Inr d
     else if special_account acct
     then modify_dyn_data 0 (\<lambda>dd. rbind (of_option Overflow (safe_sub F (current_supply dd) amt)) (\<lambda>s.
            Inr (dd\<lparr>current_supply := s\<rparr>))) d
     else
       rbind (deposit_lazy_vesting F (cashback_vb ao) amt (cashback_vesting_period_seconds (parameters d)) acct require_vesting d)
         (\<lambda>(new_vbid, d1).
       case new_vbid of
         None \<Rightarrow> Inr d1
       | Some i \<Rightarrow>
           rbind (modify_account acct (\<lambda>a. Inr (a\<lparr>cashback_vb := Some i\<rparr>)) d1) (\<lambda>d2.
           modify_stats (statistics ao) (\<lambda>s. Inr (s\<lparr>has_cashback_vb := True\<rparr>)) d2)))"

definition deposit_witness_pay :: "fc_lib \<Rightarrow> nat \<Rightarrow> int \<Rightarrow> database \<Rightarrow> database result" where
  "deposit_witness_pay F wit amt d =
     rbind (index_get (witnesses d) wit) (\<lambda>w.
     if amt = 0 then Inr d
     else
       rbind (deposit_lazy_vesting F (pay_vb w) amt (witness_pay_vesting_seconds (parameters d)) (witness_account w) True d)
         (\<lambda>(new_vbid, d1).
       case new_vbid of
         None \<Rightarrow> Inr d1
       | Some i \<Rightarrow>
           rbind (ix_modify wit (\<lambda>w. Inr (w\<lparr>pay_vb := Some i\<rparr>)) (witnesses d1)) (\<lambda>ix.
           Inr (d1\<lparr>witnesses := ix\<rparr>))))"

definition cut_fee :: "int \<Rightarrow> nat \<Rightarrow> int result" where
  "cut_fee a p =
     (if a = 0 \<or> p = 0 then Inr 0
      else if int p = GRAPHENE_100_PERCENT then Inr a
      else share_of_uint128 ((of_int a * of_nat p) div of_int GRAPHENE_100_PERCENT))"

definition stats_pay_fee ::
  "fc_lib \<Rightarrow> int \<Rightarrow> int \<Rightarrow> account_statistics_object \<Rightarrow> account_statistics_object result" where
  "stats_pay_fee F core_fee threshold s =
     (if core_fee > threshold
      then rbind (of_option Overflow (safe_add F (pending_fees s) core_fee)) (\<lambda>x. Inr (s\<lparr>pending_fees := x\<rparr>))
      else rbind (of_option Overflow (safe_add F (pending_vested_fees s) core_fee)) (\<lambda>x. Inr (s\<lparr>pending_vested_fees := x\<rparr>)))"

text \<open>The four parts of a fee: network, lifetime referrer, referrer and registrar.\<close>

definition fee_parts :: "fc_lib \<Rightarrow> account_object \<Rightarrow> int \<Rightarrow> (int \<times> int \<times> int \<times> int) result" where
  "fee_parts F account core_fee_total =
     rbind (cut_fee core_fee_total (network_fee_percentage account)) (\<lambda>network_cut.
     rbind (cut_fee core_fee_total (lifetime_referrer_fee_percentage account)) (\<lambda>lifetime_cut.
     rbind (of_option Overflow (safe_sub F core_fee_total network_cut)) (\<lambda>rest.
     rbind (of_option Overflow (safe_sub F rest lifetime_cut)) (\<lambda>referral.
     rbind (cut_fee referral (referrer_rewards_percentage account)) (\<lambda>referrer_cut.
     rbind (of_option Overflow (safe_sub F referral referrer_cut)) (\<lambda>registrar_cut.
     Inr (network_cut, lifetime_cut, referrer_cut, registrar_cut)))))))"

definition drop_lapsed_referrer :: "nat \<Rightarrow> database \<Rightarrow> database result" where
  "drop_lapsed_referrer account d =
     rbind (index_get (accounts d) account) (\<lambda>a.
     rbind (index_get (accounts d) (referrer a)) (\<lambda>r.
     if is_basic_account r (head_block_time d)
     then modify_account account (\<lambda>acc. Inr (acc\<lparr>referrer := lifetime_referrer acc\<rparr>)) d
     else Inr d))"

definition pay_out_fees :: "fc_lib \<Rightarrow> nat \<Rightarrow> int \<Rightarrow> bool \<Rightarrow> database \<Rightarrow> database result" where
  "pay_out_fees F account core_fee_total require_vesting d =
     rbind (drop_lapsed_referrer account d) (\<lambda>d1.
     rbind (index_get (accounts d1) account) (\<lambda>a.
     rbind (fee_parts F a core_fee_total) (\<lambda>(network_cut, lifetime_cut, referrer_cut, registrar_cut).
     rbind (modify_dyn_data 0 (\<lambda>dd. rbind (of_option Overflow (safe_add F (accumulated_fees dd) network_cut)) (\<lambda>s.
              Inr (dd\<lparr>accumulated_fees := s\<rparr>))) d1) (\<lambda>d2.
     rbind (deposit_cashback F (lifetime_referrer a) lifetime_cut require_vesting d2) (\<lambda>d3.
     rbind (deposit_cashback F (referrer a) referrer_cut require_vesting d3) (\<lambda>d4.
     deposit_cashback F (registrar a) registrar_cut require_vesting d4))))))"

definition process_fees :: "fc_lib \<Rightarrow> nat \<Rightarrow> nat \<Rightarrow> database \<Rightarrow> database result" where
  "process_fees F stats a d =
     rbind (index_get (account_stats d) stats) (\<lambda>s.
     if pending_fees s > 0 \<or> pending_vested_fees s > 0
     then
       rbind (pay_out_fees F a (pending_fees s) True d) (\<lambda>d1.
       rbind (pay_out_fees F a (pending_vested_fees s) False d1) (\<lambda>d2.
       modify_stats stats (\<lambda>t.
         rbind (of_option Overflow (safe_add F (pending_fees t) (pending_vested_fees t))) (\<lambda>p.
         rbind (of_option Overflow (safe_add F (lifetime_fees_paid t) p)) (\<lambda>l.
         Inr (t\<lparr>lifetime_fees_paid := l, pending_fees := 0, pending_vested_fees := 0\<rparr>)))) d2))
     else Inr d)"

section \<open>Value and the invariant of the state\<close>

definition if_asset :: "nat \<Rightarrow> asset \<Rightarrow> int" where
  "if_asset a x = (if asset_id x = a then amount x else 0)"

definition held_in_dyn :: "asset_dynamic_data_object \<Rightarrow> int" where
  "held_in_dyn x = accumulated_fees x + confidential_supply x - current_supply x"

definition dyn_of :: "database \<Rightarrow> nat \<Rightarrow> asset_dynamic_data_object option" where
  "dyn_of d a = Option.bind (index_find (assets d) a) (\<lambda>ao. index_find (asset_dyn_data d) (dynamic_asset_data_id ao))"

definition dyn_net :: "database \<Rightarrow> nat \<Rightarrow> int" where
  "dyn_net d a = (case dyn_of d a of None \<Rightarrow> 0 | Some x \<Rightarrow> held_in_dyn x)"

definition core_held :: "database \<Rightarrow> int" where
  "core_held d = ix_sum (\<lambda>s. pending_fees s + pending_vested_fees s) (account_stats d) +
     ix_sum fee_pool (asset_dyn_data d) + ix_sum deferred_fee (limit_orders d) + witness_budget d"

definition excess :: "database \<Rightarrow> nat \<Rightarrow> int" where
  "excess d a =
     ix_sum (\<lambda>b. if_asset a (mk_asset (bal_balance b) (bal_asset_type b))) (balances d) +
     ix_sum (\<lambda>v. if_asset a (vb_balance v)) (vesting_balances d) +
     ix_sum (\<lambda>s. if_asset a (fs_balance s)) (force_settlements d) +
     ix_sum (\<lambda>b. if_asset a (base (inv_swan_price b))) (collateral_bids d) +
     ix_sum (\<lambda>lo. if_asset a (amount_for_sale lo) + if_asset a (deferred_paid_fee lo)) (limit_orders d) +
     ix_sum (\<lambda>co. if_asset a (get_collateral co)) (call_orders d) +
     ix_sum (\<lambda>b. if short_backing_asset (bit_options b) = a then settlement_fund b else 0) (bitassets d) +
     (if a = 0 then core_held d else 0) + dyn_net d a"

definition balances_ok :: "account_balance_object index \<Rightarrow> bool" where
  "balances_ok ix \<longleftrightarrow> ix_ok ix \<and> distinct (map (\<lambda>x. (bal_owner (snd x), bal_asset_type (snd x))) (objects ix)) \<and>
     (\<forall>x\<in>set (objects ix). bal_balance (snd x) \<ge> 0)"

definition assets_ok :: "database \<Rightarrow> bool" where
  "assets_ok d \<longleftrightarrow> ix_ok (assets d) \<and> ix_ok (asset_dyn_data d) \<and> ix_ok (bitassets d) \<and>
     distinct (map (\<lambda>x. dynamic_asset_data_id (snd x)) (objects (assets d))) \<and>
     (\<forall>x\<in>set (objects (assets d)). index_find (asset_dyn_data d) (dynamic_asset_data_id (snd x)) \<noteq> None) \<and>
     (\<exists>ao. index_find (assets d) 0 = Some ao \<and> dynamic_asset_data_id ao = 0)"

definition db_ok :: "database \<Rightarrow> bool" where
  "db_ok d \<longleftrightarrow> balances_ok (balances d) \<and> assets_ok d \<and> ix_ok (accounts d) \<and> ix_ok (account_stats d) \<and>
     ix_ok (vesting_balances d) \<and> ix_ok (withdraw_permissions d) \<and> ix_ok (witnesses d) \<and> ix_ok (limit_orders d) \<and>
     ix_ok (call_orders d) \<and> ix_ok (force_settlements d) \<and> ix_ok (collateral_bids d)"

lemmas excess_defs = excess_def core_held_def dyn_net_def dyn_of_def

section \<open>One object changed\<close>

lemma if_asset_simps [simp]: "if_asset a (mk_asset x b) = (if b = a then x else 0)"
  by (simp add: if_asset_def)

lemma asset_dyn_unique:
  assumes "assets_ok d" and "index_find (assets d) a = Some ao" and "index_find (assets d) b = Some bo"
    and "dynamic_asset_data_id ao = dynamic_asset_data_id bo"
  shows "a = b"
proof -
  have "(a, ao) \<in> set (objects (assets d))" "(b, bo) \<in> set (objects (assets d))"
    using assms(2,3) by (auto simp: index_find_def dest: map_of_SomeD)
  moreover have "inj_on (\<lambda>x. dynamic_asset_data_id (snd x)) (set (objects (assets d)))"
    using assms(1) by (simp add: assets_ok_def distinct_map)
  ultimately have "(a, ao) = (b, bo)" using assms(4) by (metis inj_onD snd_conv)
  then show ?thesis by simp
qed

lemma modify_dyn_data_effect:
  assumes "db_ok d" and "index_find (assets d) s = Some ao" and "modify_dyn_data (dynamic_asset_data_id ao) m d = Inr d'"
  shows "\<exists>x x' ix. dyn_of d s = Some x \<and> m x = Inr x' \<and> d' = d\<lparr>asset_dyn_data := ix\<rparr> \<and> dyn_of d' s = Some x' \<and>
     db_ok d' \<and> (\<forall>a. excess d' a = excess d a + (if a = s then held_in_dyn x' - held_in_dyn x else 0) +
        (if a = 0 then fee_pool x' - fee_pool x else 0))"
proof -
  obtain ix where d': "d' = d\<lparr>asset_dyn_data := ix\<rparr>"
    and ix: "ix_modify (dynamic_asset_data_id ao) m (asset_dyn_data d) = Inr ix"
    using assms(3) by (auto simp: modify_dyn_data_def)
  have ok: "assets_ok d" "ix_ok (asset_dyn_data d)" using assms(1) by (auto simp: db_ok_def assets_ok_def)
  obtain x x' where x: "index_find (asset_dyn_data d) (dynamic_asset_data_id ao) = Some x" "m x = Inr x'"
      "index_find ix = (index_find (asset_dyn_data d))(dynamic_asset_data_id ao \<mapsto> x')"
      "\<And>f. ix_sum f ix = ix_sum f (asset_dyn_data d) + f x' - f x" "ix_ok ix"
    using ix_modifyE [OF ok(2) ix] by metis
  have "dyn_of d' b = (if b = s then Some x' else dyn_of d b)" for b
  proof (cases "index_find (assets d) b")
    case None
    then show ?thesis using assms(2) by (auto simp: dyn_of_def d')
  next
    case (Some bo)
    then have "dynamic_asset_data_id bo = dynamic_asset_data_id ao \<longleftrightarrow> b = s"
      using asset_dyn_unique [OF ok(1) assms(2) Some] assms(2) by (cases "b = s") auto
    then show ?thesis using assms(2) Some by (simp add: dyn_of_def d' x(3))
  qed
  moreover have "dyn_of d s = Some x" using assms(2) x(1) by (simp add: dyn_of_def)
  moreover have "db_ok d'" using assms(1) x(3,5) by (simp add: db_ok_def assets_ok_def d')
  ultimately show ?thesis
    using x(2,4) d' by (intro exI conjI) (auto simp: excess_def dyn_net_def core_held_def)
qed

lemma modify_core_effect:
  assumes "db_ok d" and "modify_dyn_data 0 m d = Inr d'"
  shows "\<exists>x x' ix. dyn_of d 0 = Some x \<and> m x = Inr x' \<and> d' = d\<lparr>asset_dyn_data := ix\<rparr> \<and> dyn_of d' 0 = Some x' \<and>
     db_ok d' \<and> (\<forall>a. excess d' a = excess d a + (if a = 0 then held_in_dyn x' - held_in_dyn x + fee_pool x' - fee_pool x else 0))"
proof -
  obtain ao where ao: "index_find (assets d) 0 = Some ao" "dynamic_asset_data_id ao = 0"
    using assms(1) by (auto simp: db_ok_def assets_ok_def)
  show ?thesis using modify_dyn_data_effect [OF assms(1) ao(1)] assms(2) unfolding ao(2) by fastforce
qed

lemma modify_stats_effect:
  assumes "db_ok d" and "modify_stats i m d = Inr d'"
  shows "\<exists>x x' ix. index_find (account_stats d) i = Some x \<and> m x = Inr x' \<and> d' = d\<lparr>account_stats := ix\<rparr> \<and>
     index_find ix = (index_find (account_stats d))(i \<mapsto> x') \<and> db_ok d' \<and>
     (\<forall>a. excess d' a = excess d a + (if a = 0 then pending_fees x' + pending_vested_fees x' -
        (pending_fees x + pending_vested_fees x) else 0))"
proof -
  obtain ix where d': "d' = d\<lparr>account_stats := ix\<rparr>" and ix: "ix_modify i m (account_stats d) = Inr ix"
    using assms(2) by (auto simp: modify_stats_def)
  have "ix_ok (account_stats d)" using assms(1) by (simp add: db_ok_def)
  from ix_modifyE [OF this ix] obtain x x' where x: "index_find (account_stats d) i = Some x" "m x = Inr x'"
      "index_find ix = (index_find (account_stats d))(i \<mapsto> x')"
      "\<And>f. ix_sum f ix = ix_sum f (account_stats d) + f x' - f x" "ix_ok ix" by metis
  have "db_ok d'" using assms(1) x(5) by (simp add: db_ok_def assets_ok_def d')
  then show ?thesis using x d' by (intro exI conjI) (auto simp: excess_defs)
qed

lemma modify_account_effect:
  assumes "db_ok d" and "modify_account i m d = Inr d'"
  shows "\<exists>x x' ix. index_find (accounts d) i = Some x \<and> m x = Inr x' \<and> d' = d\<lparr>accounts := ix\<rparr> \<and>
     index_find ix = (index_find (accounts d))(i \<mapsto> x') \<and> db_ok d' \<and> excess d' = excess d"
proof -
  obtain ix where d': "d' = d\<lparr>accounts := ix\<rparr>" and ix: "ix_modify i m (accounts d) = Inr ix"
    using assms(2) by (auto simp: modify_account_def)
  have "ix_ok (accounts d)" using assms(1) by (simp add: db_ok_def)
  from ix_modifyE [OF this ix] obtain x x' where x: "index_find (accounts d) i = Some x" "m x = Inr x'"
      "index_find ix = (index_find (accounts d))(i \<mapsto> x')" "ix_ok ix" by metis
  have "db_ok d'" using assms(1) x(4) by (simp add: db_ok_def assets_ok_def d')
  then show ?thesis using x d' by (intro exI conjI) (auto simp: excess_defs fun_eq_iff)
qed

section \<open>Adjusting a balance\<close>

lemma find_SomeD: "find P xs = Some x \<Longrightarrow> x \<in> set xs \<and> P x"
  by (induction xs) (auto split: if_splits)

lemma index_mem_iff: "ix_ok ix \<Longrightarrow> (i, b) \<in> set (objects ix) \<longleftrightarrow> index_find ix i = Some b"
  by (simp add: index_find_def ix_ok_def)

lemma balances_ok_iff:
  "balances_ok ix \<longleftrightarrow> ix_ok ix \<and>
     (\<forall>i j b c. index_find ix i = Some b \<and> index_find ix j = Some c \<and> bal_owner b = bal_owner c \<and>
        bal_asset_type b = bal_asset_type c \<longrightarrow> i = j) \<and>
     (\<forall>i b. index_find ix i = Some b \<longrightarrow> bal_balance b \<ge> 0)"
proof (cases "ix_ok ix")
  case True
  let ?k = "\<lambda>x. (bal_owner (snd x), bal_asset_type (snd x))"
  have d: "distinct (objects ix)" using True by (auto simp: ix_ok_def distinct_map)
  have "distinct (map ?k (objects ix)) \<longleftrightarrow> inj_on ?k (set (objects ix))" using d by (simp add: distinct_map)
  also have "\<dots> \<longleftrightarrow> (\<forall>i j b c. index_find ix i = Some b \<and> index_find ix j = Some c \<and> bal_owner b = bal_owner c \<and>
        bal_asset_type b = bal_asset_type c \<longrightarrow> i = j)"
    (is "_ \<longleftrightarrow> ?R")
  proof
    assume inj: "inj_on ?k (set (objects ix))"
    show ?R
      using index_mem_iff [OF True] inj_onD [OF inj] by (metis prod.inject snd_conv)
  next
    assume R: ?R
    show "inj_on ?k (set (objects ix))"
    proof (rule inj_onI)
      fix x y assume xy: "x \<in> set (objects ix)" "y \<in> set (objects ix)" "?k x = ?k y"
      obtain i b j c where e: "x = (i, b)" "y = (j, c)" by (cases x, cases y)
      then have m: "index_find ix i = Some b" "index_find ix j = Some c" using xy index_mem_iff [OF True] by simp_all
      then have "i = j" using R xy(3) e by (metis prod.inject snd_conv)
      then show "x = y" using e m by simp
    qed
  qed
  finally have inj: "distinct (map ?k (objects ix)) \<longleftrightarrow> ?R" .
  have nn: "(\<forall>x\<in>set (objects ix). bal_balance (snd x) \<ge> 0) \<longleftrightarrow> (\<forall>i b. index_find ix i = Some b \<longrightarrow> bal_balance b \<ge> 0)"
    by (simp only: Ball_def split_paired_All index_mem_iff [OF True] snd_conv)
  show ?thesis unfolding balances_ok_def inj nn ..
next
  case False
  then show ?thesis by (simp add: balances_ok_def)
qed

lemma find_balance_Some_iff:
  assumes "balances_ok (balances d)"
  shows "find_balance d ow a = Some (i, b) \<longleftrightarrow>
     index_find (balances d) i = Some b \<and> bal_owner b = ow \<and> bal_asset_type b = a"
proof
  have ok: "ix_ok (balances d)" using assms by (simp add: balances_ok_def)
  { assume "find_balance d ow a = Some (i, b)"
    then show "index_find (balances d) i = Some b \<and> bal_owner b = ow \<and> bal_asset_type b = a"
      using index_mem_iff [OF ok] find_SomeD by (fastforce simp: find_balance_def balance_key_def) }
  { assume b: "index_find (balances d) i = Some b \<and> bal_owner b = ow \<and> bal_asset_type b = a"
    then have "(i, b) \<in> set (objects (balances d))" using index_mem_iff [OF ok] by blast
    then have "find_balance d ow a \<noteq> None"
      using b by (auto simp: find_balance_def find_None_iff balance_key_def)
    then obtain j c where c: "find_balance d ow a = Some (j, c)" by auto
    then have "index_find (balances d) j = Some c \<and> bal_owner c = ow \<and> bal_asset_type c = a"
      using index_mem_iff [OF ok] find_SomeD by (fastforce simp: find_balance_def balance_key_def)
    then show "find_balance d ow a = Some (i, b)"
      using assms b c unfolding balances_ok_iff by (metis option.inject) }
qed

lemma find_balance_None_iff:
  assumes "balances_ok (balances d)"
  shows "find_balance d ow a = None \<longleftrightarrow>
     (\<forall>i b. index_find (balances d) i = Some b \<longrightarrow> \<not> (bal_owner b = ow \<and> bal_asset_type b = a))"
  using find_balance_Some_iff [OF assms, of ow a] by (metis not_None_eq prod.exhaust)

definition balance_of :: "database \<Rightarrow> nat \<Rightarrow> nat \<Rightarrow> int" where
  "balance_of d ow a = amount (get_balance d ow a)"

lemma balance_of_cases:
  "balance_of d ow a = (case find_balance d ow a of None \<Rightarrow> 0 | Some (_, b) \<Rightarrow> bal_balance b)"
  by (simp add: balance_of_def get_balance_def split: option.splits prod.splits)

lemma get_balance_eq:
  assumes "balances_ok (balances d)"
  shows "get_balance d ow a = mk_asset (balance_of d ow a) a"
  using find_balance_Some_iff [OF assms, of ow a]
  by (auto simp: balance_of_def get_balance_def split: option.splits)

lemma balance_of_nonneg:
  assumes "balances_ok (balances d)"
  shows "0 \<le> balance_of d ow a"
proof (cases "find_balance d ow a")
  case (Some x)
  then obtain i b where "find_balance d ow a = Some (i, b)" by (cases x) auto
  moreover from this have "index_find (balances d) i = Some b" using find_balance_Some_iff [OF assms] by blast
  then have "0 \<le> bal_balance b" using assms unfolding balances_ok_iff by blast
  ultimately show ?thesis by (simp add: balance_of_cases)
qed (simp add: balance_of_cases)

text \<open>The effect of replacing or creating the balance object of one key.\<close>

lemma balances_upd:
  assumes ok: "balances_ok (balances d)" and ix: "ix_ok ix"
    and f: "index_find ix = (index_find (balances d))(i \<mapsto> b)"
    and key: "\<And>j c. index_find (balances d) j = Some c \<Longrightarrow> bal_owner c = bal_owner b \<Longrightarrow>
        bal_asset_type c = bal_asset_type b \<Longrightarrow> j = i"
    and old: "\<And>c. index_find (balances d) i = Some c \<Longrightarrow> bal_owner c = bal_owner b \<and> bal_asset_type c = bal_asset_type b"
    and nn: "bal_balance b \<ge> 0"
  shows "balances_ok ix" and "balance_of (d\<lparr>balances := ix\<rparr>) ow a =
     (if ow = bal_owner b \<and> a = bal_asset_type b then bal_balance b else balance_of d ow a)"
proof -
  have "k = l" if "index_find ix k = Some c" "index_find ix l = Some e" "bal_owner c = bal_owner e"
      "bal_asset_type c = bal_asset_type e" for k l c e
  proof -
    have "k = l" if "k \<noteq> i" "l \<noteq> i"
      using that \<open>index_find ix k = Some c\<close> \<open>index_find ix l = Some e\<close> \<open>bal_owner c = bal_owner e\<close>
        \<open>bal_asset_type c = bal_asset_type e\<close> ok unfolding balances_ok_iff f by (metis fun_upd_other)
    moreover have "k = i \<longleftrightarrow> l = i"
      using that key [of k c] key [of l e] by (auto simp: f split: if_splits)
    ultimately show ?thesis by blast
  qed
  moreover have "bal_balance c \<ge> 0" if "index_find ix k = Some c" for k c
    using that nn ok unfolding balances_ok_iff f by (metis fun_upd_apply option.inject)
  ultimately show ok': "balances_ok ix" unfolding balances_ok_iff using ix by blast
  have ok'': "balances_ok (balances (d\<lparr>balances := ix\<rparr>))" using ok' by simp
  show "balance_of (d\<lparr>balances := ix\<rparr>) ow a =
     (if ow = bal_owner b \<and> a = bal_asset_type b then bal_balance b else balance_of d ow a)"
  proof (cases "ow = bal_owner b \<and> a = bal_asset_type b")
    case True
    then have "find_balance (d\<lparr>balances := ix\<rparr>) ow a = Some (i, b)"
      using find_balance_Some_iff [OF ok''] by (simp add: f)
    then show ?thesis using True by (simp add: balance_of_cases)
  next
    case False
    have "find_balance (d\<lparr>balances := ix\<rparr>) ow a = Some (j, c) \<longleftrightarrow> find_balance d ow a = Some (j, c)" for j c
      unfolding find_balance_Some_iff [OF ok] find_balance_Some_iff [OF ok''] using False old by (auto simp: f)
    then have "find_balance (d\<lparr>balances := ix\<rparr>) ow a = find_balance d ow a"
      by (metis not_None_eq prod.exhaust)
    then show ?thesis unfolding balance_of_cases using False by auto
  qed
qed

text \<open>An adjustment writes one balance object: a new one, or the one of its key.\<close>

lemma adjust_balance_object:
  assumes F: "fc_lib_ok F" and bok: "balances_ok (balances d)" and adj: "adjust_balance F acct delta d = Inr d'"
    and nz: "amount delta \<noteq> 0"
  obtains ix i b where "d' = d\<lparr>balances := ix\<rparr>" "ix_ok ix" "index_find ix = (index_find (balances d))(i \<mapsto> b)"
    "bal_owner b = acct" "bal_asset_type b = asset_id delta"
    "bal_balance b = balance_of d acct (asset_id delta) + amount delta" "bal_balance b \<ge> 0"
    "\<And>h. ix_sum h ix = ix_sum h (balances d) + h b -
          (case find_balance d acct (asset_id delta) of None \<Rightarrow> 0 | Some (_, c) \<Rightarrow> h c)"
    "case find_balance d acct (asset_id delta) of None \<Rightarrow> index_find (balances d) i = None | Some (j, _) \<Rightarrow> j = i"
proof (cases "find_balance d acct (asset_id delta)")
  case None
  let ?b = "\<lparr>bal_owner = acct, bal_asset_type = asset_id delta, bal_balance = amount delta, maintenance_flag = (asset_id delta = 0)\<rparr>"
  have iok: "ix_ok (balances d)" using bok by (simp add: balances_ok_def)
  have "amount delta > 0" "d' = d\<lparr>balances := snd (ix_create ?b (balances d))\<rparr>"
    using adj nz None by (simp_all add: adjust_balance_def)
  moreover obtain j ix where j: "ix_create ?b (balances d) = (j, ix)" by (cases "ix_create ?b (balances d)")
  ultimately show thesis
    using ix_create_facts [OF iok j] None by (intro that [of ix j ?b]) (auto simp: balance_of_cases)
next
  case (Some x)
  have iok: "ix_ok (balances d)" using bok by (simp add: balances_ok_def)
  obtain j c where x: "find_balance d acct (asset_id delta) = Some (j, c)" using Some by (cases x) auto
  note c = x [unfolded find_balance_Some_iff [OF bok]]
  obtain ix where m: "ix_modify j (balance_object_adjust F delta) (balances d) = Inr ix" "d' = d\<lparr>balances := ix\<rparr>"
    and en: "amount delta < 0 \<longrightarrow> asset_ge (mk_asset (bal_balance c) (bal_asset_type c)) (mk_asset (- amount delta) (asset_id delta)) = Inr True"
    using adj nz x by (auto simp: adjust_balance_def asset_neg_def fc_safe_simps [OF F] split: if_splits)
  obtain ob b where b: "index_find (balances d) j = Some ob" "balance_object_adjust F delta ob = Inr b"
      "index_find ix = (index_find (balances d))(j \<mapsto> b)" "\<And>h. ix_sum h ix = ix_sum h (balances d) + h b - h ob" "ix_ok ix"
    using ix_modifyE [OF iok m(1)] by metis
  have ob: "ob = c" using b(1) c by simp
  have "bal_balance c \<ge> 0" using bok c unfolding balances_ok_iff by blast
  then have "bal_balance b \<ge> 0"
    using en b(2) c ob
    by (cases "amount delta < 0") (auto simp: balance_object_adjust_def fc_safe_simps [OF F] asset_ge_def asset_less_def split: if_splits)
  then show thesis
    using b m(2) c x by (intro that [of ix j b])
      (auto simp: ob balance_object_adjust_def fc_safe_simps [OF F] balance_of_cases)
qed

lemma adjust_balance_effect:
  assumes F: "fc_lib_ok F" and ok: "db_ok d" and adj: "adjust_balance F acct delta d = Inr d'"
  shows "\<exists>ix. d' = d\<lparr>balances := ix\<rparr>" and "db_ok d'" and "excess d' a = excess d a + if_asset a delta"
    and "balance_of d' ow a = balance_of d ow a + (if ow = acct then if_asset a delta else 0)"
proof -
  have bok: "balances_ok (balances d)" using ok by (simp add: db_ok_def)
  have "(\<exists>ix. d' = d\<lparr>balances := ix\<rparr>) \<and> db_ok d' \<and> (\<forall>a. excess d' a = excess d a + if_asset a delta) \<and>
      (\<forall>ow a. balance_of d' ow a = balance_of d ow a + (if ow = acct then if_asset a delta else 0))"
  proof (cases "amount delta = 0")
    case True
    then have "d' = d" "if_asset a delta = 0" for a using adj by (simp_all add: adjust_balance_def if_asset_def)
    then show ?thesis using ok by (auto intro: exI [of _ "balances d"])
  next
    case nz: False
    obtain ix i b where d': "d' = d\<lparr>balances := ix\<rparr>" and ix: "ix_ok ix"
      and f: "index_find ix = (index_find (balances d))(i \<mapsto> b)"
      and b: "bal_owner b = acct" "bal_asset_type b = asset_id delta"
        "bal_balance b = balance_of d acct (asset_id delta) + amount delta" "bal_balance b \<ge> 0"
      and s: "\<And>h. ix_sum h ix = ix_sum h (balances d) + h b -
          (case find_balance d acct (asset_id delta) of None \<Rightarrow> 0 | Some (_, c) \<Rightarrow> h c)"
      and i: "case find_balance d acct (asset_id delta) of None \<Rightarrow> index_find (balances d) i = None | Some (j, _) \<Rightarrow> j = i"
      by (rule adjust_balance_object [OF F bok adj nz]) (rule that)
    have key: "j = i" if "index_find (balances d) j = Some c" "bal_owner c = bal_owner b" "bal_asset_type c = bal_asset_type b" for j c
      using that i b find_balance_Some_iff [OF bok, of acct "asset_id delta" j c] by auto
    have old: "bal_owner c = bal_owner b \<and> bal_asset_type c = bal_asset_type b" if "index_find (balances d) i = Some c" for c
    proof (cases "find_balance d acct (asset_id delta)")
      case None
      then show ?thesis using that i by simp
    next
      case (Some x)
      then have x: "find_balance d acct (asset_id delta) = Some (i, snd x)" using i by (cases x) simp
      show ?thesis using x [unfolded find_balance_Some_iff [OF bok]] that b by simp
    qed
    note U = balances_upd [OF bok ix f key old b(4)]
    have "excess d' a = excess d a + if_asset a delta" for a
    proof (cases "find_balance d acct (asset_id delta)")
      case None
      then show ?thesis
        using s [of "\<lambda>b. if_asset a (mk_asset (bal_balance b) (bal_asset_type b))"] b
        by (simp add: d' excess_defs if_asset_def balance_of_cases)
    next
      case (Some x)
      then have x: "find_balance d acct (asset_id delta) = Some (i, snd x)" using i by (cases x) simp
      show ?thesis
        using s [of "\<lambda>b. if_asset a (mk_asset (bal_balance b) (bal_asset_type b))"] b x
          x [unfolded find_balance_Some_iff [OF bok]]
        by (simp add: d' excess_defs if_asset_def balance_of_cases)
    qed
    moreover have "db_ok d'" using ok U(1) by (simp add: db_ok_def assets_ok_def d')
    ultimately show ?thesis
      using U(2) b d' by (auto simp: if_asset_def)
  qed
  then show "\<exists>ix. d' = d\<lparr>balances := ix\<rparr>" "db_ok d'" "excess d' a = excess d a + if_asset a delta"
    "balance_of d' ow a = balance_of d ow a + (if ow = acct then if_asset a delta else 0)" by blast+
qed

text \<open>An adjustment succeeds exactly when the new balance is not negative and everything fits.\<close>

lemma adjust_balance_succeeds:
  assumes F: "fc_lib_ok F" and ok: "db_ok d" and "in_int64 (amount delta)"
  shows "succeeds (adjust_balance F acct delta d) \<longleftrightarrow>
     amount delta = 0 \<or> (0 \<le> balance_of d acct (asset_id delta) + amount delta \<and>
       (find_balance d acct (asset_id delta) \<noteq> None \<longrightarrow>
          in_int64 (balance_of d acct (asset_id delta) + amount delta) \<and> (amount delta < 0 \<longrightarrow> in_int64 (- amount delta))))"
proof (cases "find_balance d acct (asset_id delta)")
  case None
  then show ?thesis by (auto simp: adjust_balance_def balance_of_cases require_def)
next
  case (Some x)
  obtain j c where x: "find_balance d acct (asset_id delta) = Some (j, c)" using Some by (cases x) auto
  have bok: "balances_ok (balances d)" using ok by (simp add: db_ok_def)
  have c: "index_find (balances d) j = Some c" "bal_owner c = acct" "bal_asset_type c = asset_id delta"
    using x find_balance_Some_iff [OF bok] by blast+
  have "bal_balance c \<ge> 0" using bok c unfolding balances_ok_iff by blast
  then show ?thesis
    using x c by (auto simp: adjust_balance_def balance_of_cases succeeds_iff asset_neg_def fc_safe_simps [OF F]
        balance_object_adjust_def ix_modify_def index_get_def asset_ge_def asset_less_def split: if_splits)
qed

section \<open>The ledger interface\<close>

text \<open>What the evaluators rely on: an adjustment keeps the invariant, moves exactly one balance by
  exactly the amount, moves the tracked total of the asset by the same amount, and leaves no
  negative balance.\<close>

locale balance_ledger =
  fixes valid :: "'d \<Rightarrow> bool"
    and bal :: "'d \<Rightarrow> nat \<Rightarrow> nat \<Rightarrow> int"
    and total :: "'d \<Rightarrow> nat \<Rightarrow> int"
    and adjust :: "nat \<Rightarrow> asset \<Rightarrow> 'd \<Rightarrow> 'd result"
  assumes adjust_valid: "valid d \<Longrightarrow> adjust ow x d = Inr d' \<Longrightarrow> valid d'"
    and adjust_bal: "valid d \<Longrightarrow> adjust ow x d = Inr d' \<Longrightarrow>
        bal d' p a = bal d p a + (if p = ow then if_asset a x else 0)"
    and adjust_total: "valid d \<Longrightarrow> adjust ow x d = Inr d' \<Longrightarrow> total d' a = total d a + if_asset a x"
    and bal_nonneg: "valid d \<Longrightarrow> 0 \<le> bal d p a"
begin

lemma adjust_refuses: "valid d \<Longrightarrow> bal d ow (asset_id x) + amount x < 0 \<Longrightarrow> \<not> succeeds (adjust ow x d)"
  using adjust_bal [of d ow x _ ow "asset_id x"] adjust_valid bal_nonneg [of _ ow "asset_id x"]
  by (fastforce simp: succeeds_iff if_asset_def)

lemma move:
  assumes "valid d" and "adjust p (mk_asset (- n) a) d = Inr d1" and "adjust q (mk_asset n a) d1 = Inr d2"
  shows "valid d2" and "total d2 b = total d b" and "n \<le> bal d p a"
    and "bal d2 r b = bal d r b + (if b = a then (if r = q then n else 0) - (if r = p then n else 0) else 0)"
proof -
  have v: "valid d1" by (rule adjust_valid [OF assms(1,2)])
  then show "valid d2" by (rule adjust_valid [OF _ assms(3)])
  show "total d2 b = total d b"
    using adjust_total [OF assms(1,2), of b] adjust_total [OF v assms(3), of b] by simp
  show "bal d2 r b = bal d r b + (if b = a then (if r = q then n else 0) - (if r = p then n else 0) else 0)"
    using adjust_bal [OF assms(1,2), of r b] adjust_bal [OF v assms(3), of r b] by simp
  show "n \<le> bal d p a" using adjust_bal [OF assms(1,2), of p a] bal_nonneg [OF v, of p a] by simp
qed

end

interpretation ledger: balance_ledger "\<lambda>d. fc_lib_ok F \<and> db_ok d" balance_of excess "adjust_balance F" for F
proof (unfold_locales, goal_cases)
  case (1 d ow x d')
  then show ?case using adjust_balance_effect(2) [of F d ow x d'] by simp
next
  case (2 d ow x d' p a)
  then show ?case using adjust_balance_effect(4) [of F d ow x d' p a] by simp
next
  case (3 d ow x d' a)
  then show ?case using adjust_balance_effect(3) [of F d ow x d' a] by simp
next
  case (4 d p a)
  then show ?case using balance_of_nonneg [of d p a] by (simp add: db_ok_def)
qed

section \<open>Vesting deposits and fees\<close>

lemma vb_deposit_value:
  assumes "fc_lib_ok F"
  shows "vb_deposit F v now x = Inr v' \<Longrightarrow> if_asset a (vb_balance v') = if_asset a (vb_balance v) + if_asset a x"
    and "vb_deposit_vested F v now x = Inr v' \<Longrightarrow> if_asset a (vb_balance v') = if_asset a (vb_balance v) + if_asset a x"
  by (auto simp: vb_deposit_def vb_deposit_vested_def asset_plus_def if_asset_def fc_safe_simps [OF assms]
      split: vesting_policy.splits)

text \<open>Replacing the vesting balances changes the total by the change of their sum.\<close>

lemma vesting_upd:
  assumes "db_ok d" and "ix_ok ix"
  shows "db_ok (d\<lparr>vesting_balances := ix\<rparr>)" and "excess (d\<lparr>vesting_balances := ix\<rparr>) a =
     excess d a + ix_sum (\<lambda>v. if_asset a (vb_balance v)) ix - ix_sum (\<lambda>v. if_asset a (vb_balance v)) (vesting_balances d)"
  using assms by (simp_all add: db_ok_def assets_ok_def excess_defs)

lemma deposit_lazy_vesting_effect:
  assumes F: "fc_lib_ok F" and ok: "db_ok d" and dep: "deposit_lazy_vesting F ovb amt secs ow rv d = Inr (r, d')"
  shows "\<exists>ix. d' = d\<lparr>vesting_balances := ix\<rparr>" and "db_ok d'" and "excess d' a = excess d a + if_asset a (mk_asset amt 0)"
proof -
  let ?h = "\<lambda>a v. if_asset a (vb_balance v)"
  have iok: "ix_ok (vesting_balances d)" using ok by (simp add: db_ok_def)
  consider "amt = 0" "d' = d" | i ix where "d' = d\<lparr>vesting_balances := ix\<rparr>"
        "ix_modify i (\<lambda>v. if rv then vb_deposit F v (head_block_time d) (mk_asset amt 0)
           else vb_deposit_vested F v (head_block_time d) (mk_asset amt 0)) (vesting_balances d) = Inr ix"
      | i ix where "d' = d\<lparr>vesting_balances := ix\<rparr>"
        "ix_create (new_lazy_vesting (head_block_time d) amt secs ow rv) (vesting_balances d) = (i, ix)"
    using dep by (auto simp: deposit_lazy_vesting_def Let_def split: if_splits option.splits prod.splits)
  then have "(\<exists>ix. d' = d\<lparr>vesting_balances := ix\<rparr>) \<and> db_ok d' \<and> (\<forall>a. excess d' a = excess d a + if_asset a (mk_asset amt 0))"
  proof cases
    case 1
    then show ?thesis using ok by (auto intro: exI [of _ "vesting_balances d"])
  next
    case 2
    obtain v v' where v: "(if rv then vb_deposit F v (head_block_time d) (mk_asset amt 0)
           else vb_deposit_vested F v (head_block_time d) (mk_asset amt 0)) = Inr v'"
        "\<And>f. ix_sum f ix = ix_sum f (vesting_balances d) + f v' - f v" "ix_ok ix"
      using ix_modifyE [OF iok 2(2)] by metis
    have "?h a v' = ?h a v + if_asset a (mk_asset amt 0)" for a
      using v(1) vb_deposit_value [OF F] by (cases rv) (metis if_P if_not_P)+
    then show ?thesis using vesting_upd [OF ok v(3)] v(2) [of "?h _"] 2(1) by auto
  next
    case 3
    then show ?thesis
      using ix_create_facts [OF iok 3(2)] vesting_upd [OF ok] by (auto simp: new_lazy_vesting_def)
  qed
  then show "\<exists>ix. d' = d\<lparr>vesting_balances := ix\<rparr>" "db_ok d'" "excess d' a = excess d a + if_asset a (mk_asset amt 0)" by blast+
qed

text \<open>What a fee payment leaves alone.\<close>

definition fee_frame :: "database \<Rightarrow> database \<Rightarrow> bool" where
  "fee_frame d d' \<longleftrightarrow> balances d' = balances d \<and> assets d' = assets d \<and> bitassets d' = bitassets d \<and>
     limit_orders d' = limit_orders d \<and> call_orders d' = call_orders d \<and> force_settlements d' = force_settlements d \<and>
     collateral_bids d' = collateral_bids d \<and> withdraw_permissions d' = withdraw_permissions d \<and>
     head_block_time d' = head_block_time d \<and> parameters d' = parameters d \<and>
     (\<forall>i. map_option (\<lambda>s. (pending_fees s, pending_vested_fees s, lifetime_fees_paid s)) (index_find (account_stats d') i) =
          map_option (\<lambda>s. (pending_fees s, pending_vested_fees s, lifetime_fees_paid s)) (index_find (account_stats d) i))"

lemma fee_frame_refl [simp]: "fee_frame d d"
  by (simp add: fee_frame_def)

lemma fee_frame_trans: "fee_frame d e \<Longrightarrow> fee_frame e f \<Longrightarrow> fee_frame d f"
  by (simp add: fee_frame_def)

lemma fee_frame_upd [simp]:
  "fee_frame d (d\<lparr>asset_dyn_data := x\<rparr>)" "fee_frame d (d\<lparr>accounts := y\<rparr>)" "fee_frame d (d\<lparr>vesting_balances := z\<rparr>)"
  by (simp_all add: fee_frame_def)

lemma deposit_cashback_effect:
  assumes F: "fc_lib_ok F" and ok: "db_ok d" and dep: "deposit_cashback F acct amt rv d = Inr d'"
  shows "db_ok d' \<and> fee_frame d d' \<and> excess d' a = excess d a + if_asset a (mk_asset amt 0)"
proof -
  obtain ao where ao: "index_find (accounts d) acct = Some ao" using dep by (auto simp: deposit_cashback_def index_get_def)
  show ?thesis
  proof (cases "amt = 0")
    case True
    then show ?thesis using ok dep ao by (simp add: deposit_cashback_def index_get_def)
  next
    case nz: False
    show ?thesis
    proof (cases "special_account acct")
      case True
      then have "modify_dyn_data 0 (\<lambda>dd. rbind (of_option Overflow (safe_sub F (current_supply dd) amt)) (\<lambda>s.
            Inr (dd\<lparr>current_supply := s\<rparr>))) d = Inr d'"
        using nz dep ao by (simp add: deposit_cashback_def index_get_def)
      from modify_core_effect [OF ok this]
      obtain x x' ix where x: "rbind (of_option Overflow (safe_sub F (current_supply x) amt)) (\<lambda>s. Inr (x\<lparr>current_supply := s\<rparr>)) = Inr x'"
        "d' = d\<lparr>asset_dyn_data := ix\<rparr>" "db_ok d'"
        "\<forall>a. excess d' a = excess d a + (if a = 0 then held_in_dyn x' - held_in_dyn x + fee_pool x' - fee_pool x else 0)"
        by blast
      then show ?thesis by (auto simp: held_in_dyn_def fc_safe_simps [OF F])
    next
      case False
      then obtain r e where L: "deposit_lazy_vesting F (cashback_vb ao) amt (cashback_vesting_period_seconds (parameters d)) acct rv d = Inr (r, e)"
        and R: "(case r of None \<Rightarrow> Inr e
          | Some i \<Rightarrow> rbind (modify_account acct (\<lambda>a. Inr (a\<lparr>cashback_vb := Some i\<rparr>)) e) (\<lambda>d2.
               modify_stats (statistics ao) (\<lambda>s. Inr (s\<lparr>has_cashback_vb := True\<rparr>)) d2)) = Inr d'"
        using nz dep ao by (auto simp: deposit_cashback_def index_get_def)
      note L = deposit_lazy_vesting_effect [OF F ok L]
      show ?thesis
      proof (cases r)
        case None
        then show ?thesis using R L by auto
      next
        case (Some i)
        then obtain e' where e: "modify_account acct (\<lambda>a. Inr (a\<lparr>cashback_vb := Some i\<rparr>)) e = Inr e'"
            "modify_stats (statistics ao) (\<lambda>s. Inr (s\<lparr>has_cashback_vb := True\<rparr>)) e' = Inr d'" using R by auto
        obtain A where A: "e' = e\<lparr>accounts := A\<rparr>" "db_ok e'" "excess e' = excess e"
          using modify_account_effect [OF L(2) e(1)] by blast
        show ?thesis using modify_stats_effect [OF A(2) e(2)] L A by (auto simp: fee_frame_def)
      qed
    qed
  qed
qed

lemma fee_parts_sum:
  assumes "fc_lib_ok F" and "fee_parts F a t = Inr (n, l, r, g)"
  shows "n + l + r + g = t"
  using assms(2) by (auto simp: fee_parts_def fc_safe_simps [OF assms(1)])

lemma drop_lapsed_referrer_effect:
  assumes "db_ok d" and "drop_lapsed_referrer acct d = Inr d'"
  shows "db_ok d' \<and> fee_frame d d' \<and> excess d' = excess d"
  using assms modify_account_effect [OF assms(1)]
  by (fastforce simp: drop_lapsed_referrer_def split: if_splits)

lemma pay_out_fees_effect:
  assumes F: "fc_lib_ok F" and ok: "db_ok d" and pay: "pay_out_fees F acct t rv d = Inr d'"
  shows "db_ok d' \<and> fee_frame d d' \<and> excess d' a = excess d a + if_asset a (mk_asset t 0)"
proof -
  obtain d1 ao n l r g d2 d3 d4 where S: "drop_lapsed_referrer acct d = Inr d1" "index_get (accounts d1) acct = Inr ao"
      "fee_parts F ao t = Inr (n, l, r, g)"
      "modify_dyn_data 0 (\<lambda>dd. rbind (of_option Overflow (safe_add F (accumulated_fees dd) n)) (\<lambda>s. Inr (dd\<lparr>accumulated_fees := s\<rparr>))) d1 = Inr d2"
      "deposit_cashback F (lifetime_referrer ao) l rv d2 = Inr d3" "deposit_cashback F (referrer ao) r rv d3 = Inr d4"
      "deposit_cashback F (registrar ao) g rv d4 = Inr d'"
    using pay by (auto simp: pay_out_fees_def)
  have 1: "db_ok d1 \<and> fee_frame d d1 \<and> excess d1 = excess d" by (rule drop_lapsed_referrer_effect [OF ok S(1)])
  have 2: "db_ok d2 \<and> fee_frame d1 d2 \<and> excess d2 a = excess d1 a + if_asset a (mk_asset n 0)"
  proof -
    obtain x x' ix where x: "rbind (of_option Overflow (safe_add F (accumulated_fees x) n)) (\<lambda>s. Inr (x\<lparr>accumulated_fees := s\<rparr>)) = Inr x'"
        "d2 = d1\<lparr>asset_dyn_data := ix\<rparr>" "db_ok d2"
        "\<forall>a. excess d2 a = excess d1 a + (if a = 0 then held_in_dyn x' - held_in_dyn x + fee_pool x' - fee_pool x else 0)"
      using modify_core_effect [OF conjunct1 [OF 1] S(4)] by blast
    then show ?thesis by (auto simp: held_in_dyn_def fc_safe_simps [OF F])
  qed
  note 3 = deposit_cashback_effect [OF F conjunct1 [OF 2] S(5), of a]
  note 4 = deposit_cashback_effect [OF F conjunct1 [OF 3] S(6), of a]
  note 5 = deposit_cashback_effect [OF F conjunct1 [OF 4] S(7), of a]
  have "fee_frame d d'" using 1 2 3 4 5 fee_frame_trans by blast
  then show ?thesis using 1 2 3 4 5 fee_parts_sum [OF F S(3)] by auto
qed

section \<open>Properties\<close>

lemma percent_share:
  assumes "0 \<le> t" and "t < 2 ^ 63" and "int p \<le> GRAPHENE_100_PERCENT"
  shows "share_of_uint128 ((of_int t * of_nat p) div of_int GRAPHENE_100_PERCENT) = Inr (t * int p div GRAPHENE_100_PERCENT)"
    and "0 \<le> t * int p div GRAPHENE_100_PERCENT" and "t * int p div GRAPHENE_100_PERCENT \<le> t"
proof -
  have n: "0 \<le> t * int p" using assms(1) by simp
  have le: "t * int p \<le> t * GRAPHENE_100_PERCENT" using assms(1,3) by (rule mult_left_mono [rotated])
  also have "\<dots> < 2 ^ 128" using assms(2) by (simp add: GRAPHENE_100_PERCENT_def)
  finally have lt: "t * int p < 2 ^ 128" .
  show q: "0 \<le> t * int p div GRAPHENE_100_PERCENT" "t * int p div GRAPHENE_100_PERCENT \<le> t"
    using n zdiv_mono1 [OF le, of GRAPHENE_100_PERCENT] by (simp_all add: GRAPHENE_100_PERCENT_def)
  have "(of_int t * of_nat p :: uint128) = of_int (t * int p)" by simp
  moreover have "(of_int (t * int p) :: uint128) div of_int GRAPHENE_100_PERCENT = of_int (t * int p div GRAPHENE_100_PERCENT)"
    by (rule word_quotient [OF n lt]) (simp_all add: GRAPHENE_100_PERCENT_def)
  ultimately show "share_of_uint128 ((of_int t * of_nat p) div of_int GRAPHENE_100_PERCENT) = Inr (t * int p div GRAPHENE_100_PERCENT)"
    using share_of_uint128_exact [OF q(1)] q(2) assms(2) by simp
qed

lemma cut_fee_exact:
  assumes "0 \<le> t" and "t < 2 ^ 63" and "int p \<le> GRAPHENE_100_PERCENT"
  shows "cut_fee t p = Inr (t * int p div GRAPHENE_100_PERCENT)"
    and "0 \<le> t * int p div GRAPHENE_100_PERCENT" and "t * int p div GRAPHENE_100_PERCENT \<le> t"
  using percent_share [OF assms] by (auto simp: cut_fee_def GRAPHENE_100_PERCENT_def)

text \<open>The split of a fee among the network, the lifetime referrer, the referrer and the
  registrar: for a fee that fits 64 bits and percentages that an account can have, the split is
  computed, the first three parts are the percentages rounded down, the registrar gets the rest,
  no part is negative and the parts add up to the fee.\<close>

theorem fee_split:
  assumes F: "fc_lib_ok F" and t: "0 \<le> t" "t < 2 ^ 63"
    and p: "int (network_fee_percentage a) + int (lifetime_referrer_fee_percentage a) \<le> GRAPHENE_100_PERCENT"
      "int (referrer_rewards_percentage a) \<le> GRAPHENE_100_PERCENT"
  shows "\<exists>n l r g. fee_parts F a t = Inr (n, l, r, g) \<and> 0 \<le> n \<and> 0 \<le> l \<and> 0 \<le> r \<and> 0 \<le> g \<and> n + l + r + g = t \<and>
     n = t * int (network_fee_percentage a) div GRAPHENE_100_PERCENT \<and>
     l = t * int (lifetime_referrer_fee_percentage a) div GRAPHENE_100_PERCENT \<and>
     r = (t - n - l) * int (referrer_rewards_percentage a) div GRAPHENE_100_PERCENT"
proof -
  let ?p = "int (network_fee_percentage a)" and ?q = "int (lifetime_referrer_fee_percentage a)" and ?H = GRAPHENE_100_PERCENT
  let ?n = "t * ?p div ?H" and ?l = "t * ?q div ?H"
  have H: "?H > 0" by (simp add: GRAPHENE_100_PERCENT_def)
  have pq: "?p \<le> ?H" "?q \<le> ?H" using p by linarith+
  note N = cut_fee_exact [OF t pq(1)] and L = cut_fee_exact [OF t pq(2)]
  have "?n * ?H \<le> t * ?p" "?l * ?H \<le> t * ?q"
    using H div_mult_mod_eq [of "t * ?p" ?H] div_mult_mod_eq [of "t * ?q" ?H] pos_mod_sign [OF H] by (smt (verit))+
  moreover have "t * (?p + ?q) \<le> t * ?H" using t(1) p(1) by (intro mult_left_mono)
  ultimately have "(?n + ?l) * ?H \<le> t * ?H" by (simp add: distrib_left distrib_right)
  then have nl: "?n + ?l \<le> t" using H by simp
  have s: "0 \<le> t - ?n - ?l" "t - ?n - ?l < 2 ^ 63" using nl N(2) L(2) t(2) by linarith+
  note R = cut_fee_exact [OF s p(2)]
  have "in_int64 (t - ?n)" "in_int64 (t - ?n - ?l)"
    "in_int64 (t - ?n - ?l - (t - ?n - ?l) * int (referrer_rewards_percentage a) div ?H)"
    using s N(2) L(2) R(2,3) t nl unfolding in_int64_def by linarith+
  then show ?thesis using N L R by (simp add: fee_parts_def fc_safe_simps [OF F])
qed

text \<open>Paying out the fees an account owes conserves value: the statistics are cleared, the fees
  are added to the lifetime total, no account balance moves, and for every asset the total of all
  holdings minus the supply is unchanged (the parts go to accumulated fees, to vesting balances,
  or, for the chain's own accounts, out of the supply).\<close>

theorem process_fees_conserves:
  assumes "fc_lib_ok F" and "db_ok d" and "index_find (account_stats d) i = Some s"
    and "0 \<le> pending_fees s" and "0 \<le> pending_vested_fees s" and "process_fees F i acct d = Inr d'"
  shows "db_ok d' \<and> excess d' = excess d \<and> balances d' = balances d \<and>
     (\<exists>s'. index_find (account_stats d') i = Some s' \<and> pending_fees s' = 0 \<and> pending_vested_fees s' = 0 \<and>
        lifetime_fees_paid s' = lifetime_fees_paid s + pending_fees s + pending_vested_fees s)"
proof (cases "pending_fees s > 0 \<or> pending_vested_fees s > 0")
  case False
  then show ?thesis using assms by (auto simp: process_fees_def index_get_def)
next
  case True
  then obtain d1 d2 where S: "pay_out_fees F acct (pending_fees s) True d = Inr d1"
      "pay_out_fees F acct (pending_vested_fees s) False d1 = Inr d2"
      "modify_stats i (\<lambda>t.
         rbind (of_option Overflow (safe_add F (pending_fees t) (pending_vested_fees t))) (\<lambda>p.
         rbind (of_option Overflow (safe_add F (lifetime_fees_paid t) p)) (\<lambda>l.
         Inr (t\<lparr>lifetime_fees_paid := l, pending_fees := 0, pending_vested_fees := 0\<rparr>)))) d2 = Inr d'"
    using assms(3,6) by (auto simp: process_fees_def index_get_def)
  note 1 = pay_out_fees_effect [OF assms(1,2) S(1)]
  note 2 = pay_out_fees_effect [OF assms(1) conjunct1 [OF 1] S(2)]
  obtain x x' ix where x: "index_find (account_stats d2) i = Some x"
      "rbind (of_option Overflow (safe_add F (pending_fees x) (pending_vested_fees x))) (\<lambda>p.
         rbind (of_option Overflow (safe_add F (lifetime_fees_paid x) p)) (\<lambda>l.
         Inr (x\<lparr>lifetime_fees_paid := l, pending_fees := 0, pending_vested_fees := 0\<rparr>))) = Inr x'"
      "d' = d2\<lparr>account_stats := ix\<rparr>" "index_find ix = (index_find (account_stats d2))(i \<mapsto> x')" "db_ok d'"
      "\<forall>a. excess d' a = excess d2 a + (if a = 0 then pending_fees x' + pending_vested_fees x' -
        (pending_fees x + pending_vested_fees x) else 0)"
    using modify_stats_effect [OF conjunct1 [OF 2] S(3)] by blast
  have fr: "fee_frame d d2" using 1 2 fee_frame_trans by blast
  then have px: "pending_fees x = pending_fees s" "pending_vested_fees x = pending_vested_fees s" "lifetime_fees_paid x = lifetime_fees_paid s"
    using x(1) assms(3) by (auto simp: fee_frame_def dest: spec [of _ i])
  have x': "x' = x\<lparr>lifetime_fees_paid := lifetime_fees_paid x + (pending_fees x + pending_vested_fees x), pending_fees := 0, pending_vested_fees := 0\<rparr>"
    using x(2) by (auto simp: fc_safe_simps [OF assms(1)])
  have "excess d' a = excess d a" for a
    using x(6) 1 [of a] 2 [of a] by (simp add: x' px)
  moreover have "balances d' = balances d" using fr x(3) by (simp add: fee_frame_def)
  ultimately show ?thesis using x(3,4,5) by (auto simp: x' px)
qed

text \<open>Adjusting a balance: it succeeds exactly when the resulting balance is not negative and
  the amounts fit 64 bits; then only that balance moves, by exactly the amount, the holdings of
  that asset move by the same amount, and the invariant is kept, so no balance is ever negative.\<close>

theorem adjust_balance_exact:
  assumes "fc_lib_ok F" and "db_ok d" and "in_int64 (amount delta)" and "- (2 ^ 63) < amount delta"
    and "balance_of d acct (asset_id delta) < 2 ^ 63"
  shows "(succeeds (adjust_balance F acct delta d) \<longleftrightarrow>
       0 \<le> balance_of d acct (asset_id delta) + amount delta \<and>
       (find_balance d acct (asset_id delta) \<noteq> None \<longrightarrow> balance_of d acct (asset_id delta) + amount delta < 2 ^ 63)) \<and>
     (\<forall>d'. adjust_balance F acct delta d = Inr d' \<longrightarrow> db_ok d' \<and>
        (\<forall>ow a. get_balance d' ow a = mk_asset (balance_of d ow a + (if ow = acct then if_asset a delta else 0)) a \<and>
           0 \<le> amount (get_balance d' ow a)) \<and>
        (\<forall>a. excess d' a = excess d a + if_asset a delta))"
proof -
  have nn: "0 \<le> balance_of d acct (asset_id delta)" using assms(2) balance_of_nonneg by (simp add: db_ok_def)
  have "succeeds (adjust_balance F acct delta d) \<longleftrightarrow>
       0 \<le> balance_of d acct (asset_id delta) + amount delta \<and>
       (find_balance d acct (asset_id delta) \<noteq> None \<longrightarrow> balance_of d acct (asset_id delta) + amount delta < 2 ^ 63)"
    unfolding adjust_balance_succeeds [OF assms(1-3)] using assms(3-5) nn by (auto simp: in_int64_def)
  moreover have "db_ok d' \<and>
        (\<forall>ow a. get_balance d' ow a = mk_asset (balance_of d ow a + (if ow = acct then if_asset a delta else 0)) a \<and>
           0 \<le> amount (get_balance d' ow a)) \<and>
        (\<forall>a. excess d' a = excess d a + if_asset a delta)" if adj: "adjust_balance F acct delta d = Inr d'" for d'
  proof -
    note E = adjust_balance_effect [OF assms(1,2) adj]
    have b: "balances_ok (balances d')" using E(2) by (simp add: db_ok_def)
    then show ?thesis using E(2,3) E(4) [symmetric] balance_of_nonneg [OF b] by (simp add: get_balance_eq [OF b])
  qed
  ultimately show ?thesis by blast
qed

section \<open>Witnesses\<close>

text \<open>A small state: accounts 0 to 6 (5 and 6 are users, 5 a lifetime member), the core asset and
  a user-issued asset of account 5.\<close>

definition sample_account :: "nat \<Rightarrow> account_object" where
  "sample_account i = \<lparr>membership_expiration_date = (if i = 6 then 0 else - 1), registrar = 5, referrer = 5, lifetime_referrer = 5,
     network_fee_percentage = 2000, lifetime_referrer_fee_percentage = 3000, referrer_rewards_percentage = 5000, acc_name = ''a'',
     statistics = i, whitelisting_accounts = [], blacklisting_accounts = [], whitelisted_accounts = [], blacklisted_accounts = [], cashback_vb = None, allowed_assets = None, active_account_auths = []\<rparr>"

definition sample_stats :: "int \<Rightarrow> account_statistics_object" where
  "sample_stats fees = \<lparr>total_core_in_orders = 0, core_in_balance = 0, has_cashback_vb = False, is_voting = False,
     lifetime_fees_paid = 0, pending_fees = fees, pending_vested_fees = 0\<rparr>"

definition sample_price :: "nat \<Rightarrow> price" where
  "sample_price a = mk_price (mk_asset 1 0) (mk_asset 2 a)"

definition sample_options :: "16 word \<Rightarrow> nat \<Rightarrow> asset_options" where
  "sample_options f a = \<lparr>max_supply = 1000000, market_fee_percent = 100, max_market_fee = 1000, issuer_permissions = 0x4F, flags = f,
     opt_core_exchange_rate = sample_price a, whitelist_authorities = [], blacklist_authorities = [], whitelist_markets = [],
     blacklist_markets = []\<rparr>"

definition sample_asset :: "nat \<Rightarrow> nat \<Rightarrow> 16 word \<Rightarrow> asset_object" where
  "sample_asset a iss f = \<lparr>symbol = ''CORE'', precision = 5, issuer = iss, options = sample_options f a, dynamic_asset_data_id = a,
     bitasset_data_id = None\<rparr>"

definition sample_parameters :: chain_parameters where
  "sample_parameters = \<lparr>block_interval = 5, maximum_asset_whitelist_authorities = 10, maximum_asset_feed_publishers = 10,
     cashback_vesting_period_seconds = 1000, cashback_vesting_threshold = 100, witness_pay_per_block = 10,
     witness_pay_vesting_seconds = 1000, limit_order_cancel_fee = 5, fee_scale = 10000,
     maximum_time_until_expiration = 86400, allow_non_member_whitelists = False\<rparr>"

definition list_index :: "'o list \<Rightarrow> 'o index" where
  "list_index xs = \<lparr>next_id = length xs, objects = zip [0..<length xs] xs\<rparr>"

definition sample_balance :: "nat \<Rightarrow> nat \<Rightarrow> int \<Rightarrow> account_balance_object" where
  "sample_balance ow a n = \<lparr>bal_owner = ow, bal_asset_type = a, bal_balance = n, maintenance_flag = False\<rparr>"

definition sample_dyn :: "int \<Rightarrow> int \<Rightarrow> asset_dynamic_data_object" where
  "sample_dyn supply pool = \<lparr>current_supply = supply, confidential_supply = 0, accumulated_fees = 0, fee_pool = pool\<rparr>"

definition sample_db :: database where
  "sample_db = \<lparr>accounts = list_index (map sample_account [0..<7]), account_stats = list_index (map sample_stats [0, 0, 0, 0, 0, 0, 1000]),
     balances = list_index [sample_balance 5 0 5000, sample_balance 6 0 3000, sample_balance 6 1 700],
     assets = list_index [sample_asset 0 3 0, sample_asset 1 5 0x0F],
     asset_dyn_data = list_index [sample_dyn 9500 0, sample_dyn 700 500], bitassets = list_index [], vesting_balances = list_index [],
     withdraw_permissions = list_index [], witnesses = list_index [], limit_orders = list_index [], call_orders = list_index [],
     force_settlements = list_index [], collateral_bids = list_index [], witness_budget = 0, head_block_time = 1600000000,
     next_maintenance_time = 1600001000, parameters = sample_parameters, issue_453_affected_assets = []\<rparr>"

lemmas sample_defs = sample_db_def sample_account_def sample_stats_def sample_price_def sample_options_def sample_asset_def
  sample_parameters_def list_index_def sample_balance_def sample_dyn_def

lemma sample_db_ok: "db_ok sample_db"
  by (simp add: db_ok_def balances_ok_def assets_ok_def ix_ok_def sample_defs index_find_def upt_rec)

lemma sample_db_excess: "excess sample_db 0 = 0" "excess sample_db 1 = 0"
  by (simp_all add: excess_defs ix_sum_def sample_defs index_find_def held_in_dyn_def upt_rec)

theorem fee_split_witness: "fee_parts fc_reference (sample_account 5) 999 = Inr (199, 299, 250, 251)"
proof -
  have "\<exists>n l r g. fee_parts fc_reference (sample_account 5) 999 = Inr (n, l, r, g) \<and> 0 \<le> n \<and> 0 \<le> l \<and> 0 \<le> r \<and> 0 \<le> g \<and>
     n + l + r + g = 999 \<and> n = 999 * int (network_fee_percentage (sample_account 5)) div GRAPHENE_100_PERCENT \<and>
     l = 999 * int (lifetime_referrer_fee_percentage (sample_account 5)) div GRAPHENE_100_PERCENT \<and>
     r = (999 - n - l) * int (referrer_rewards_percentage (sample_account 5)) div GRAPHENE_100_PERCENT"
    by (rule fee_split) (simp_all add: sample_account_def GRAPHENE_100_PERCENT_def)
  then show ?thesis by (auto simp: sample_account_def GRAPHENE_100_PERCENT_def)
qed

theorem process_fees_conserves_witness:
  "\<exists>d'. process_fees fc_reference 6 6 sample_db = Inr d' \<and> excess d' = excess sample_db \<and> balances d' = balances sample_db"
proof -
  have s: "index_find (account_stats sample_db) 6 = Some (sample_stats 1000)"
    by (simp add: sample_db_def list_index_def index_find_def upt_rec)
  have "succeeds (process_fees fc_reference 6 6 sample_db)"
    by (simp add: process_fees_def pay_out_fees_def drop_lapsed_referrer_def fee_parts_def cut_fee_exact(1) GRAPHENE_100_PERCENT_def
        deposit_cashback_def deposit_lazy_vesting_def lazy_vesting_target_def modify_dyn_data_def modify_stats_def modify_account_def
        ix_modify_def ix_create_def index_get_def index_find_def sample_defs upt_rec is_basic_account_def special_account_def
        special_account_defs vb_deposit_def asset_plus_def new_lazy_vesting_def in_int64_def)
  then obtain d' where d': "process_fees fc_reference 6 6 sample_db = Inr d'" by (auto simp: succeeds_iff)
  show ?thesis
    using process_fees_conserves [OF fc_reference_ok sample_db_ok s _ _ d'] d' by (simp add: sample_stats_def)
qed

theorem adjust_balance_exact_witness:
  "(\<exists>d'. adjust_balance fc_reference 6 (mk_asset (- 700) 1) sample_db = Inr d' \<and> get_balance d' 6 1 = mk_asset 0 1 \<and>
      get_balance d' 5 0 = mk_asset 5000 0) \<and>
   \<not> succeeds (adjust_balance fc_reference 6 (mk_asset (- 701) 1) sample_db)"
proof -
  have b: "balance_of sample_db 6 1 = 700" "balance_of sample_db 5 0 = 5000" by code_simp+
  have "succeeds (adjust_balance fc_reference 6 (mk_asset (- 700) 1) sample_db)" by code_simp
  then show ?thesis
    using adjust_balance_exact [OF fc_reference_ok sample_db_ok, of "mk_asset (- 700) 1" 6]
      adjust_balance_exact [OF fc_reference_ok sample_db_ok, of "mk_asset (- 701) 1" 6] b
    by (auto simp: succeeds_iff in_int64_def)
qed

end
