(* ===== verification/Evaluators.thy ===== *)
theory Evaluators
  imports Balances
begin

text \<open>
  The frame every operation runs in (\<^verbatim>\<open>evaluator.hpp\<close>, \<^verbatim>\<open>evaluator.cpp\<close>), asset authorization
  (\<^verbatim>\<open>is_authorized_asset.hpp\<close>, \<^verbatim>\<open>is_authorized_asset.cpp\<close>) and the transfer operations
  (\<^verbatim>\<open>transfer_evaluator.cpp\<close>, \<^verbatim>\<open>protocol/transfer.cpp\<close>).

  \<open>start_evaluate\<close> is \<^verbatim>\<open>generic_evaluator::start_evaluate\<close> with \<^verbatim>\<open>evaluator<T>::evaluate\<close> and
  \<^verbatim>\<open>evaluator<T>::apply\<close>: the fee is prepared and checked, the operation evaluated, the fee converted
  through the fee pool and booked, the operation applied, and the fee taken from the payer. Its
  arguments are what a derived evaluator supplies. The required fee of an operation is an argument
  (\<^verbatim>\<open>fee_schedule\<close> is not modelled). The interfaces \<open>conserving_operation\<close> and \<open>plain_operation\<close>
  state what a derived evaluator has to guarantee for the whole operation to conserve value.
\<close>

section \<open>Authorization of assets\<close>

definition slow_is_authorized_asset :: "database \<Rightarrow> account_object \<Rightarrow> nat \<Rightarrow> asset_object \<Rightarrow> bool" where
  "slow_is_authorized_asset d acct a ao =
     (if (case allowed_assets acct of None \<Rightarrow> False | Some xs \<Rightarrow> a \<notin> set xs) then False
      else if (\<exists>i\<in>set (blacklisting_accounts acct). i \<in> set (blacklist_authorities (options ao))) then False
      else if head_block_time d > HARDFORK_415_TIME \<and> whitelist_authorities (options ao) = [] then True
      else (\<exists>i\<in>set (whitelisting_accounts acct). i \<in> set (whitelist_authorities (options ao))))"

definition is_authorized_asset :: "database \<Rightarrow> account_object \<Rightarrow> nat \<Rightarrow> asset_object \<Rightarrow> bool" where
  "is_authorized_asset d acct a ao =
     (if \<not> has_flag (flags (options ao)) white_list \<and> allowed_assets acct = None then True
      else slow_is_authorized_asset d acct a ao)"

section \<open>Fees of an operation\<close>

record transaction_evaluation_state =
  skip_fee :: bool
  skip_fee_schedule_check :: bool

record fee_state =
  fee_from_account :: asset
  core_fee_paid :: int
  fee_paying_account_statistics :: nat
  fee_asset_dyn_data :: nat

definition prepare_fee :: "nat \<Rightarrow> asset \<Rightarrow> database \<Rightarrow> fee_state result" where
  "prepare_fee account_id fee d =
     require (amount fee \<ge> 0) Assert_failed
     (rbind (index_get (accounts d) account_id) (\<lambda>payer.
      rbind (index_get (account_stats d) (statistics payer)) (\<lambda>_.
      rbind (index_get (assets d) (asset_id fee)) (\<lambda>fee_asset.
      rbind (index_get (asset_dyn_data d) (dynamic_asset_data_id fee_asset)) (\<lambda>dyn.
      require (head_block_time d > HARDFORK_419_TIME \<longrightarrow> is_authorized_asset d payer (asset_id fee) fee_asset) Assert_failed
      (let fs = (\<lambda>core. \<lparr>fee_from_account = fee, core_fee_paid = core, fee_paying_account_statistics = statistics payer,
                         fee_asset_dyn_data = dynamic_asset_data_id fee_asset\<rparr>)
       in if asset_id fee = 0 then Inr (fs (amount fee))
          else rbind (asset_mult fee (opt_core_exchange_rate (options fee_asset))) (\<lambda>fee_from_pool.
               require (asset_id fee_from_pool = 0) Assert_failed
               (require (amount fee_from_pool \<le> fee_pool dyn) Assert_failed
               (Inr (fs (amount fee_from_pool)))))))))))"

definition convert_fee :: "fc_lib \<Rightarrow> transaction_evaluation_state \<Rightarrow> fee_state \<Rightarrow> database \<Rightarrow> database result" where
  "convert_fee F S fs d =
     (if \<not> skip_fee S \<and> asset_id (fee_from_account fs) \<noteq> 0
      then modify_dyn_data (fee_asset_dyn_data fs) (\<lambda>x.
             rbind (of_option Overflow (safe_add F (accumulated_fees x) (amount (fee_from_account fs)))) (\<lambda>acc.
             rbind (of_option Overflow (safe_sub F (fee_pool x) (core_fee_paid fs))) (\<lambda>pool.
             Inr (x\<lparr>accumulated_fees := acc, fee_pool := pool\<rparr>)))) d
      else Inr d)"

definition pay_core_fee :: "fc_lib \<Rightarrow> transaction_evaluation_state \<Rightarrow> nat \<Rightarrow> int \<Rightarrow> database \<Rightarrow> database result" where
  "pay_core_fee F S stats core d =
     (if \<not> skip_fee S
      then modify_stats stats (stats_pay_fee F core (cashback_vesting_threshold (parameters d))) d
      else Inr d)"

definition pay_fee :: "fc_lib \<Rightarrow> transaction_evaluation_state \<Rightarrow> fee_state \<Rightarrow> database \<Rightarrow> (unit \<times> database) result" where
  "pay_fee F S fs d = rbind (pay_core_fee F S (fee_paying_account_statistics fs) (core_fee_paid fs) d) (\<lambda>d1. Inr ((), d1))"

definition evaluate_operation ::
  "transaction_evaluation_state \<Rightarrow> int \<Rightarrow> nat \<Rightarrow> asset \<Rightarrow> (database \<Rightarrow> unit result) \<Rightarrow> database \<Rightarrow> fee_state result" where
  "evaluate_operation S required_fee payer fee do_evaluate d =
     rbind (prepare_fee payer fee d) (\<lambda>fs.
     require (skip_fee_schedule_check S \<or> core_fee_paid fs \<ge> required_fee) Insufficient_fee
     (rbind (do_evaluate d) (\<lambda>_. Inr fs)))"

text \<open>\<^verbatim>\<open>evaluator<T>::apply\<close>, with the conversion of the fee as a derived evaluator may override it.\<close>

definition apply_converted ::
  "fc_lib \<Rightarrow> (fee_state \<Rightarrow> database \<Rightarrow> database result) \<Rightarrow> nat \<Rightarrow> (fee_state \<Rightarrow> database \<Rightarrow> ('s \<times> database) result) \<Rightarrow>
   ('s \<Rightarrow> database \<Rightarrow> ('r \<times> database) result) \<Rightarrow> fee_state \<Rightarrow> database \<Rightarrow> ('r \<times> database) result" where
  "apply_converted F convert payer pay do_apply fs d =
     rbind (convert fs d) (\<lambda>d1.
     rbind (pay fs d1) (\<lambda>(s, d2).
     rbind (do_apply s d2) (\<lambda>(r, d3).
     rbind (asset_neg F (fee_from_account fs)) (\<lambda>fee.
     rbind (adjust_balance F payer fee d3) (\<lambda>d4.
     Inr (r, d4))))))"

definition apply_evaluated ::
  "fc_lib \<Rightarrow> transaction_evaluation_state \<Rightarrow> nat \<Rightarrow> (fee_state \<Rightarrow> database \<Rightarrow> ('s \<times> database) result) \<Rightarrow>
   ('s \<Rightarrow> database \<Rightarrow> ('r \<times> database) result) \<Rightarrow> fee_state \<Rightarrow> database \<Rightarrow> ('r \<times> database) result" where
  "apply_evaluated F S payer pay do_apply fs d = apply_converted F (convert_fee F S) payer pay do_apply fs d"

definition start_evaluate ::
  "fc_lib \<Rightarrow> transaction_evaluation_state \<Rightarrow> int \<Rightarrow> nat \<Rightarrow> asset \<Rightarrow> (database \<Rightarrow> unit result) \<Rightarrow>
   (fee_state \<Rightarrow> database \<Rightarrow> ('s \<times> database) result) \<Rightarrow> ('s \<Rightarrow> database \<Rightarrow> ('r \<times> database) result) \<Rightarrow>
   database \<Rightarrow> ('r \<times> database) result" where
  "start_evaluate F S required_fee payer fee do_evaluate pay do_apply d =
     rbind (evaluate_operation S required_fee payer fee do_evaluate d) (\<lambda>fs.
     apply_evaluated F S payer pay do_apply fs d)"

section \<open>Transfers\<close>

record transfer_operation =
  tr_fee :: asset
  tr_from :: nat
  tr_to :: nat
  tr_amount :: asset

definition transfer_validate :: "transfer_operation \<Rightarrow> unit result" where
  "transfer_validate op =
     require (amount (tr_fee op) \<ge> 0) Assert_failed
     (require (tr_from op \<noteq> tr_to op) Assert_failed
     (require (amount (tr_amount op) > 0) Assert_failed (Inr ())))"

definition transfer_do_evaluate :: "transfer_operation \<Rightarrow> database \<Rightarrow> unit result" where
  "transfer_do_evaluate op d =
     rbind (index_get (accounts d) (tr_from op)) (\<lambda>from_account.
     rbind (index_get (accounts d) (tr_to op)) (\<lambda>to_account.
     rbind (index_get (assets d) (asset_id (tr_amount op))) (\<lambda>asset_type.
     require (is_authorized_asset d from_account (asset_id (tr_amount op)) asset_type) Transfer_from_account_not_whitelisted
     (require (is_authorized_asset d to_account (asset_id (tr_amount op)) asset_type) Transfer_to_account_not_whitelisted
     (require (is_transfer_restricted asset_type \<longrightarrow> tr_from op = issuer asset_type \<or> tr_to op = issuer asset_type)
        Transfer_restricted_transfer_asset
     (require (amount (get_balance d (tr_from op) (asset_id (tr_amount op))) \<ge> amount (tr_amount op)) Assert_failed
     (Inr ())))))))"

definition move_balance :: "fc_lib \<Rightarrow> nat \<Rightarrow> nat \<Rightarrow> asset \<Rightarrow> database \<Rightarrow> (unit \<times> database) result" where
  "move_balance F from to x d =
     rbind (asset_neg F x) (\<lambda>neg.
     rbind (adjust_balance F from neg d) (\<lambda>d1.
     rbind (adjust_balance F to x d1) (\<lambda>d2.
     Inr ((), d2))))"

definition transfer_do_apply :: "fc_lib \<Rightarrow> transfer_operation \<Rightarrow> database \<Rightarrow> (unit \<times> database) result" where
  "transfer_do_apply F op d = move_balance F (tr_from op) (tr_to op) (tr_amount op) d"

record override_transfer_operation =
  ot_fee :: asset
  ot_issuer :: nat
  ot_from :: nat
  ot_to :: nat
  ot_amount :: asset

definition override_transfer_validate :: "override_transfer_operation \<Rightarrow> unit result" where
  "override_transfer_validate op =
     require (amount (ot_fee op) \<ge> 0) Assert_failed
     (require (ot_from op \<noteq> ot_to op) Assert_failed
     (require (amount (ot_amount op) > 0) Assert_failed
     (require (ot_issuer op \<noteq> ot_from op) Assert_failed (Inr ()))))"

definition override_transfer_do_evaluate :: "override_transfer_operation \<Rightarrow> database \<Rightarrow> unit result" where
  "override_transfer_do_evaluate op d =
     rbind (index_get (assets d) (asset_id (ot_amount op))) (\<lambda>asset_type.
     require (can_override asset_type) Override_transfer_not_permitted
     (require (issuer asset_type = ot_issuer op) Assert_failed
     (rbind (index_get (accounts d) (ot_from op)) (\<lambda>from_account.
      rbind (index_get (accounts d) (ot_to op)) (\<lambda>to_account.
      require (is_authorized_asset d to_account (asset_id (ot_amount op)) asset_type) Assert_failed
      (require (is_authorized_asset d from_account (asset_id (ot_amount op)) asset_type) Assert_failed
      (require (head_block_time d \<le> HARDFORK_419_TIME \<longrightarrow>
                 is_authorized_asset d from_account (asset_id (ot_amount op)) asset_type) Assert_failed
      (require (amount (get_balance d (ot_from op) (asset_id (ot_amount op))) \<ge> amount (ot_amount op)) Assert_failed
      (Inr ())))))))))"

definition override_transfer_do_apply :: "fc_lib \<Rightarrow> override_transfer_operation \<Rightarrow> database \<Rightarrow> (unit \<times> database) result" where
  "override_transfer_do_apply F op d = move_balance F (ot_from op) (ot_to op) (ot_amount op) d"

section \<open>Fees conserve value\<close>

text \<open>A fee state that belongs to the state of the chain.\<close>

definition fee_state_of :: "database \<Rightarrow> nat \<Rightarrow> asset \<Rightarrow> fee_state \<Rightarrow> bool" where
  "fee_state_of d payer fee fs \<longleftrightarrow> fee_from_account fs = fee \<and>
     (\<exists>a fa. index_find (accounts d) payer = Some a \<and> index_find (assets d) (asset_id fee) = Some fa \<and>
        fee_paying_account_statistics fs = statistics a \<and> fee_asset_dyn_data fs = dynamic_asset_data_id fa) \<and>
     (asset_id fee = 0 \<longrightarrow> core_fee_paid fs = amount fee) \<and> 0 \<le> amount fee"

lemma index_get_Inr [simp]: "index_get ix i = Inr ob \<longleftrightarrow> index_find ix i = Some ob"
  by (auto simp: index_get_def split: option.splits)

lemma prepare_fee_state:
  assumes "prepare_fee payer fee d = Inr fs"
  shows "fee_state_of d payer fee fs"
  using assms by (auto simp: prepare_fee_def fee_state_of_def Let_def split: if_splits)

lemma convert_fee_effect:
  assumes F: "fc_lib_ok F" and ok: "db_ok d" and fs: "fee_state_of d payer fee fs" and S: "\<not> skip_fee S"
    and conv: "convert_fee F S fs d = Inr d'"
  shows "db_ok d' \<and> (\<exists>ix. d' = d\<lparr>asset_dyn_data := ix\<rparr>) \<and>
     (\<forall>a. excess d' a = excess d a + if_asset a fee - if_asset a (mk_asset (core_fee_paid fs) 0))"
proof (cases "asset_id fee = 0")
  case True
  then show ?thesis
    using conv fs ok
    by (auto simp: convert_fee_def fee_state_of_def if_asset_def intro: exI [of _ "asset_dyn_data d"])
next
  case False
  obtain fa where fa: "index_find (assets d) (asset_id fee) = Some fa" "fee_asset_dyn_data fs = dynamic_asset_data_id fa"
      "fee_from_account fs = fee"
    using fs by (auto simp: fee_state_of_def)
  then have "modify_dyn_data (dynamic_asset_data_id fa) (\<lambda>x.
             rbind (of_option Overflow (safe_add F (accumulated_fees x) (amount fee))) (\<lambda>acc.
             rbind (of_option Overflow (safe_sub F (fee_pool x) (core_fee_paid fs))) (\<lambda>pool.
             Inr (x\<lparr>accumulated_fees := acc, fee_pool := pool\<rparr>)))) d = Inr d'"
    using conv False S by (simp add: convert_fee_def)
  from modify_dyn_data_effect [OF ok fa(1) this]
  obtain x x' ix where x: "rbind (of_option Overflow (safe_add F (accumulated_fees x) (amount fee))) (\<lambda>acc.
             rbind (of_option Overflow (safe_sub F (fee_pool x) (core_fee_paid fs))) (\<lambda>pool.
             Inr (x\<lparr>accumulated_fees := acc, fee_pool := pool\<rparr>))) = Inr x'"
      "d' = d\<lparr>asset_dyn_data := ix\<rparr>" "db_ok d'" "\<forall>a. excess d' a = excess d a +
        (if a = asset_id fee then held_in_dyn x' - held_in_dyn x else 0) + (if a = 0 then fee_pool x' - fee_pool x else 0)"
    by blast
  have "x' = x\<lparr>accumulated_fees := accumulated_fees x + amount fee, fee_pool := fee_pool x - core_fee_paid fs\<rparr>"
    using x(1) by (auto simp: fc_safe_simps [OF F])
  then show ?thesis using x(2-4) False by (auto simp: held_in_dyn_def if_asset_def)
qed

lemma pay_core_fee_effect:
  assumes F: "fc_lib_ok F" and ok: "db_ok d" and S: "\<not> skip_fee S" and pay: "pay_core_fee F S i core d = Inr d'"
  shows "db_ok d' \<and> (\<exists>ix. d' = d\<lparr>account_stats := ix\<rparr>) \<and> (\<forall>a. excess d' a = excess d a + if_asset a (mk_asset core 0))"
proof -
  have "modify_stats i (stats_pay_fee F core (cashback_vesting_threshold (parameters d))) d = Inr d'"
    using pay S by (simp add: pay_core_fee_def)
  from modify_stats_effect [OF ok this]
  obtain x x' ix where x: "stats_pay_fee F core (cashback_vesting_threshold (parameters d)) x = Inr x'" "d' = d\<lparr>account_stats := ix\<rparr>" "db_ok d'"
      "\<forall>a. excess d' a = excess d a + (if a = 0 then pending_fees x' + pending_vested_fees x' - (pending_fees x + pending_vested_fees x) else 0)"
    by blast
  have "pending_fees x' + pending_vested_fees x' = pending_fees x + pending_vested_fees x + core"
    using x(1) by (auto simp: stats_pay_fee_def fc_safe_simps [OF F] split: if_splits)
  then show ?thesis using x(2-4) by auto
qed

section \<open>Interfaces\<close>

text \<open>A derived evaluator conserves value when booking the fee and applying the operation move
  the total of the core asset by exactly the core fee.\<close>

locale conserving_operation =
  fixes F :: fc_lib and S :: transaction_evaluation_state
    and pay :: "fee_state \<Rightarrow> database \<Rightarrow> ('s \<times> database) result"
    and do_apply :: "'s \<Rightarrow> database \<Rightarrow> ('r \<times> database) result"
  assumes step: "fc_lib_ok F \<Longrightarrow> \<not> skip_fee S \<Longrightarrow> db_ok d \<Longrightarrow> pay fs d = Inr (s, d1) \<Longrightarrow> do_apply s d1 = Inr (r, d2) \<Longrightarrow>
       db_ok d2 \<and> (\<forall>a. excess d2 a = excess d a + if_asset a (mk_asset (core_fee_paid fs) 0))"
begin

lemma conserves:
  assumes ok: "fc_lib_ok F" and fees: "\<not> skip_fee S" and d: "db_ok d"
    and "start_evaluate F S required payer fee do_evaluate pay do_apply d = Inr (r, d')"
  shows "db_ok d' \<and> excess d' = excess d"
proof -
  obtain fs d1 s d2 d3 neg where P: "prepare_fee payer fee d = Inr fs" "convert_fee F S fs d = Inr d1" "pay fs d1 = Inr (s, d2)"
      "do_apply s d2 = Inr (r, d3)" "asset_neg F (fee_from_account fs) = Inr neg" "adjust_balance F payer neg d3 = Inr d'"
    using assms(4) by (auto simp: start_evaluate_def evaluate_operation_def apply_evaluated_def apply_converted_def)
  have fs: "fee_state_of d payer fee fs" by (rule prepare_fee_state [OF P(1)])
  have neg: "neg = mk_asset (- amount fee) (asset_id fee)"
    using P(5) fs by (auto simp: asset_neg_def fc_safe_simps [OF ok] fee_state_of_def)
  note C = convert_fee_effect [OF ok d fs fees P(2)]
  note A = step [OF ok fees conjunct1 [OF C] P(3,4)]
  note B = adjust_balance_effect [OF ok conjunct1 [OF A] P(6)]
  show ?thesis using C A B(2) B(3) by (auto simp: fun_eq_iff if_asset_def neg)
qed

end

text \<open>The common case: the fee is booked on the payer and the operation itself conserves value.\<close>

locale plain_operation =
  fixes F :: fc_lib and S :: transaction_evaluation_state
    and do_apply :: "database \<Rightarrow> ('r \<times> database) result"
  assumes apply_conserves: "fc_lib_ok F \<Longrightarrow> db_ok d \<Longrightarrow> do_apply d = Inr (r, d') \<Longrightarrow> db_ok d' \<and> excess d' = excess d"

sublocale plain_operation \<subseteq> plain: conserving_operation F S "pay_fee F S" "\<lambda>_. do_apply"
proof unfold_locales
  fix d fs s d1 r d2
  assume ok: "fc_lib_ok F" and fees: "\<not> skip_fee S" and d: "db_ok d" "pay_fee F S fs d = Inr (s, d1)" "do_apply d1 = Inr (r, d2)"
  then have "pay_core_fee F S (fee_paying_account_statistics fs) (core_fee_paid fs) d = Inr d1" by (auto simp: pay_fee_def)
  from pay_core_fee_effect [OF ok d(1) fees this] apply_conserves [OF ok _ d(3)]
  show "db_ok d2 \<and> (\<forall>a. excess d2 a = excess d a + if_asset a (mk_asset (core_fee_paid fs) 0))" by simp
qed

section \<open>Transfers conserve value\<close>

lemma move_balance_effect:
  assumes F: "fc_lib_ok F" and "db_ok d" and "move_balance F p q x d = Inr (u, d')"
  shows "db_ok d'" and "excess d' = excess d" and "amount x \<le> balance_of d p (asset_id x)"
    and "\<exists>ix. d' = d\<lparr>balances := ix\<rparr>"
    and "balance_of d' r b = balance_of d r b + (if b = asset_id x then (if r = q then amount x else 0) - (if r = p then amount x else 0) else 0)"
proof -
  obtain d1 where m: "adjust_balance F p (mk_asset (- amount x) (asset_id x)) d = Inr d1" "adjust_balance F q x d1 = Inr d'"
    using assms(3) by (auto simp: move_balance_def asset_neg_def fc_safe_simps [OF F])
  have q: "adjust_balance F q (mk_asset (amount x) (asset_id x)) d1 = Inr d'" using m(2) by simp
  note M = ledger.move [OF conjI [OF F assms(2)] m(1) q]
  show "db_ok d'" "excess d' = excess d" "amount x \<le> balance_of d p (asset_id x)"
    "balance_of d' r b = balance_of d r b + (if b = asset_id x then (if r = q then amount x else 0) - (if r = p then amount x else 0) else 0)"
    using M by (auto simp: fun_eq_iff)
  show "\<exists>ix. d' = d\<lparr>balances := ix\<rparr>"
    using adjust_balance_effect(1) [OF F assms(2) m(1)] adjust_balance_effect(1) [OF F _ m(2)]
      adjust_balance_effect(2) [OF F assms(2) m(1)] by auto
qed

interpretation transfer: plain_operation F S "transfer_do_apply F op" for F S op
  by unfold_locales (auto simp: transfer_do_apply_def dest: move_balance_effect)

interpretation override_transfer: plain_operation F S "override_transfer_do_apply F op" for F S op
  by unfold_locales (auto simp: override_transfer_do_apply_def dest: move_balance_effect)

section \<open>Properties of transfers\<close>

definition run_transfer :: "fc_lib \<Rightarrow> transaction_evaluation_state \<Rightarrow> int \<Rightarrow> transfer_operation \<Rightarrow> database \<Rightarrow> (unit \<times> database) result" where
  "run_transfer F S required op d =
     start_evaluate F S required (tr_from op) (tr_fee op) (transfer_do_evaluate op) (pay_fee F S) (\<lambda>_. transfer_do_apply F op) d"

definition run_override_transfer ::
  "fc_lib \<Rightarrow> transaction_evaluation_state \<Rightarrow> int \<Rightarrow> override_transfer_operation \<Rightarrow> database \<Rightarrow> (unit \<times> database) result" where
  "run_override_transfer F S required op d =
     start_evaluate F S required (ot_issuer op) (ot_fee op) (override_transfer_do_evaluate op) (pay_fee F S)
       (\<lambda>_. override_transfer_do_apply F op) d"

lemma pay_fee_effect:
  assumes "fc_lib_ok F" and "db_ok d" and "\<not> skip_fee S" and "pay_fee F S fs d = Inr (u, d')"
  shows "db_ok d' \<and> (\<exists>ix. d' = d\<lparr>account_stats := ix\<rparr>) \<and> (\<forall>a. excess d' a = excess d a + if_asset a (mk_asset (core_fee_paid fs) 0))"
  using assms(4) pay_core_fee_effect [OF assms(1-3)] by (auto simp: pay_fee_def)

lemma balance_of_cong: "balances d' = balances d \<Longrightarrow> balance_of d' = balance_of d"
  by (simp add: fun_eq_iff balance_of_def get_balance_def find_balance_def)

text \<open>Balances after an operation that pays its fee the usual way.\<close>

lemma start_evaluate_balances:
  assumes F: "fc_lib_ok F" and ok: "db_ok d" and S: "\<not> skip_fee S"
    and run: "start_evaluate F S required payer fee ev (pay_fee F S) (\<lambda>_. ap) d = Inr (r, d')"
  obtains d2 d3 where "db_ok d2" "balances d2 = balances d" "assets d2 = assets d" "accounts d2 = accounts d"
    "ap d2 = Inr (r, d3)" "ev d = Inr ()" "0 \<le> amount fee"
    "db_ok d3 \<Longrightarrow> balance_of d' ow a = balance_of d3 ow a - (if ow = payer then if_asset a fee else 0)"
proof -
  obtain fs d1 u d2 d3 neg where P: "prepare_fee payer fee d = Inr fs" "convert_fee F S fs d = Inr d1" "pay_fee F S fs d1 = Inr (u, d2)"
      "ap d2 = Inr (r, d3)" "asset_neg F (fee_from_account fs) = Inr neg" "adjust_balance F payer neg d3 = Inr d'" "ev d = Inr ()"
    using run by (auto simp: start_evaluate_def evaluate_operation_def apply_evaluated_def apply_converted_def)
  have fs: "fee_state_of d payer fee fs" by (rule prepare_fee_state [OF P(1)])
  note C = convert_fee_effect [OF F ok fs S P(2)] and A = pay_fee_effect [OF F _ S P(3)]
  have neg: "neg = mk_asset (- amount fee) (asset_id fee)"
    using P(5) fs by (auto simp: asset_neg_def fc_safe_simps [OF F] fee_state_of_def)
  have "balance_of d' ow a = balance_of d3 ow a - (if ow = payer then if_asset a fee else 0)" if "db_ok d3"
    using adjust_balance_effect(4) [OF F that P(6), of ow a] by (simp add: neg if_asset_def)
  moreover have "0 \<le> amount fee" using fs by (simp add: fee_state_of_def)
  ultimately show thesis using that [of d2 d3] C A P(4,7) by auto
qed

text \<open>C17. A transfer that goes through does exactly what it says: the sender loses the amount and
  the fee, the receiver gains the amount, no other balance moves, and for every asset holdings
  and supply stay in step. It goes through only when both accounts are authorized for the asset
  and a restricted asset moves to or from its issuer.\<close>

theorem transfer_exact:
  assumes "fc_lib_ok F" and "db_ok d" and "\<not> skip_fee S" and "run_transfer F S required op d = Inr (u, d')"
  shows "db_ok d' \<and> excess d' = excess d \<and>
     (\<forall>ow a. balance_of d' ow a = balance_of d ow a + (if ow = tr_to op then if_asset a (tr_amount op) else 0) -
        (if ow = tr_from op then if_asset a (tr_amount op) + if_asset a (tr_fee op) else 0)) \<and>
     (\<exists>f t ao. index_find (accounts d) (tr_from op) = Some f \<and> index_find (accounts d) (tr_to op) = Some t \<and>
        index_find (assets d) (asset_id (tr_amount op)) = Some ao \<and>
        is_authorized_asset d f (asset_id (tr_amount op)) ao \<and> is_authorized_asset d t (asset_id (tr_amount op)) ao \<and>
        (is_transfer_restricted ao \<longrightarrow> issuer ao \<in> {tr_from op, tr_to op}))"
proof -
  note run = assms(4) [unfolded run_transfer_def]
  have C: "db_ok d' \<and> excess d' = excess d" by (rule transfer.plain.conserves [OF assms(1,3,2) run])
  have "balance_of d' ow a = balance_of d ow a + (if ow = tr_to op then if_asset a (tr_amount op) else 0) -
        (if ow = tr_from op then if_asset a (tr_amount op) + if_asset a (tr_fee op) else 0)" for ow a
  proof -
    obtain d2 d3 where D: "db_ok d2" "balances d2 = balances d" "transfer_do_apply F op d2 = Inr (u, d3)"
      "db_ok d3 \<Longrightarrow> balance_of d' ow a = balance_of d3 ow a - (if ow = tr_from op then if_asset a (tr_fee op) else 0)"
      by (rule start_evaluate_balances [OF assms(1,2,3) run, of ow a]) blast
    note M = move_balance_effect [OF assms(1) D(1) D(3) [unfolded transfer_do_apply_def]]
    show ?thesis using D(4) [OF M(1)] M(5) [of ow a] balance_of_cong [OF D(2)] by (simp add: if_asset_def)
  qed
  moreover obtain d2 d3 where "transfer_do_evaluate op d = Inr ()"
    by (rule start_evaluate_balances [OF assms(1,2,3) run, of 0 0]) blast
  then have "\<exists>f t ao. index_find (accounts d) (tr_from op) = Some f \<and> index_find (accounts d) (tr_to op) = Some t \<and>
        index_find (assets d) (asset_id (tr_amount op)) = Some ao \<and>
        is_authorized_asset d f (asset_id (tr_amount op)) ao \<and> is_authorized_asset d t (asset_id (tr_amount op)) ao \<and>
        (is_transfer_restricted ao \<longrightarrow> issuer ao \<in> {tr_from op, tr_to op})"
    by (auto simp: transfer_do_evaluate_def)
  ultimately show ?thesis using C by blast
qed

lemma adjust_balance_returns:
  assumes "fc_lib_ok F" and "db_ok d" and "0 \<le> balance_of d ow (asset_id x) + amount x"
    and "- (2 ^ 63) < amount x" and "amount x < 2 ^ 63" and "balance_of d ow (asset_id x) + amount x < 2 ^ 63"
  shows "\<exists>d'. adjust_balance F ow x d = Inr d'"
proof -
  have "succeeds (adjust_balance F ow x d)"
    by (rule iffD2 [OF adjust_balance_succeeds [OF assms(1,2)]]) (use assms(3-6) in \<open>auto simp: in_int64_def\<close>)
  then show ?thesis by (simp add: succeeds_iff)
qed

lemma move_balance_returns:
  assumes F: "fc_lib_ok F" and ok: "db_ok d" and x: "0 < amount x" "amount x \<le> balance_of d p (asset_id x)"
    and b: "balance_of d p (asset_id x) < 2 ^ 63" "balance_of d q (asset_id x) + amount x < 2 ^ 63" and pq: "p \<noteq> q"
  shows "\<exists>d'. move_balance F p q x d = Inr ((), d')"
proof -
  have xr: "amount x < 2 ^ 63" using x(2) b(1) by linarith
  have nn: "0 \<le> balance_of d q (asset_id x)" using ok balance_of_nonneg by (simp add: db_ok_def)
  have "\<exists>d1. adjust_balance F p (mk_asset (- amount x) (asset_id x)) d = Inr d1"
    by (rule adjust_balance_returns [OF F ok]) (use x b(1) xr in auto)
  then obtain d1 where d1: "adjust_balance F p (mk_asset (- amount x) (asset_id x)) d = Inr d1" ..
  note E = adjust_balance_effect [OF F ok d1]
  have "balance_of d1 q (asset_id x) = balance_of d q (asset_id x)" using E(4) [of q "asset_id x"] pq by simp
  then have "\<exists>d2. adjust_balance F q x d1 = Inr d2"
    using x(1) xr b(2) nn by (intro adjust_balance_returns [OF F E(2)]) auto
  then obtain d2 where d2: "adjust_balance F q x d1 = Inr d2" ..
  have "asset_neg F x = Inr (mk_asset (- amount x) (asset_id x))"
    using x(1) xr by (simp add: asset_neg_def fc_safe_simps [OF F] checked64_def in_int64_def)
  then show ?thesis using d1 d2 by (simp add: move_balance_def)
qed

lemma prepare_core_fee:
  assumes ok: "db_ok d" and fee: "asset_id fee = 0" "0 \<le> amount fee" and "index_find (accounts d) payer = Some a"
    and "index_find (account_stats d) (statistics a) = Some s" and "index_find (assets d) 0 = Some core"
    and "is_authorized_asset d a 0 core"
  shows "\<exists>fs. prepare_fee payer fee d = Inr fs \<and> core_fee_paid fs = amount fee \<and> fee_from_account fs = fee \<and>
     fee_paying_account_statistics fs = statistics a"
proof -
  have "(0, core) \<in> set (objects (assets d))" using assms(6) by (auto simp: index_find_def dest: map_of_SomeD)
  then obtain x where "index_find (asset_dyn_data d) (dynamic_asset_data_id core) = Some x"
    using ok by (fastforce simp: db_ok_def assets_ok_def)
  then show ?thesis using assms by (simp add: prepare_fee_def index_get_def Let_def)
qed

lemma transfer_runs:
  assumes F: "fc_lib_ok F" and ok: "db_ok d" and v: "transfer_validate op = Inr ()" and ev: "transfer_do_evaluate op d = Inr ()"
    and fee: "asset_id (tr_fee op) = 0" "required \<le> amount (tr_fee op)"
    and payer: "index_find (accounts d) (tr_from op) = Some a" "index_find (account_stats d) (statistics a) = Some s"
      "index_find (assets d) 0 = Some core" "is_authorized_asset d a 0 core"
    and s: "in_int64 (pending_fees s + amount (tr_fee op))" "in_int64 (pending_vested_fees s + amount (tr_fee op))"
    and funds: "amount (tr_fee op) + if_asset 0 (tr_amount op) \<le> balance_of d (tr_from op) 0"
      "balance_of d (tr_from op) 0 < 2 ^ 63" "balance_of d (tr_from op) (asset_id (tr_amount op)) < 2 ^ 63"
      "balance_of d (tr_to op) (asset_id (tr_amount op)) + amount (tr_amount op) < 2 ^ 63"
  shows "succeeds (run_transfer F S required op d)"
proof -
  have V: "0 \<le> amount (tr_fee op)" "tr_from op \<noteq> tr_to op" "0 < amount (tr_amount op)" using v by (simp_all add: transfer_validate_def)
  obtain fs where fs: "prepare_fee (tr_from op) (tr_fee op) d = Inr fs" "core_fee_paid fs = amount (tr_fee op)"
      "fee_from_account fs = tr_fee op" "fee_paying_account_statistics fs = statistics a"
    using prepare_core_fee [OF ok fee(1) V(1) payer] by auto
  have conv: "convert_fee F S fs d = Inr d" using fee(1) by (simp add: convert_fee_def fs(3))
  obtain d2 where d2: "pay_fee F S fs d = Inr ((), d2)" "balances d2 = balances d" "db_ok d2"
  proof (cases "skip_fee S")
    case True
    then show thesis using ok by (intro that [of d]) (simp_all add: pay_fee_def pay_core_fee_def)
  next
    case False
    have "\<exists>d2. pay_fee F S fs d = Inr ((), d2)"
      using payer(2) s False by (auto simp: pay_fee_def pay_core_fee_def fs(2,4) modify_stats_def ix_modify_def stats_pay_fee_def
          fc_safe_simps [OF F] checked64_def index_get_def)
    then obtain d2 where d2: "pay_fee F S fs d = Inr ((), d2)" ..
    then show thesis using pay_fee_effect [OF F ok False d2] that [of d2] by auto
  qed
  have b2: "balance_of d2 = balance_of d" by (rule balance_of_cong [OF d2(2)])
  have bal: "amount (tr_amount op) \<le> balance_of d (tr_from op) (asset_id (tr_amount op))"
    using ev by (auto simp: transfer_do_evaluate_def balance_of_def)
  have "\<exists>d3. move_balance F (tr_from op) (tr_to op) (tr_amount op) d2 = Inr ((), d3)"
    using V bal funds(3,4) by (intro move_balance_returns [OF F d2(3)]) (simp_all add: b2)
  then obtain d3 where d3: "move_balance F (tr_from op) (tr_to op) (tr_amount op) d2 = Inr ((), d3)" ..
  note M = move_balance_effect [OF F d2(3) d3]
  have "balance_of d3 (tr_from op) 0 = balance_of d (tr_from op) 0 - if_asset 0 (tr_amount op)"
    using M(5) [of "tr_from op" 0] V(2) by (simp add: b2 if_asset_def)
  moreover have "0 \<le> if_asset 0 (tr_amount op)" using V(3) by (simp add: if_asset_def)
  ultimately have "\<exists>d4. adjust_balance F (tr_from op) (mk_asset (- amount (tr_fee op)) 0) d3 = Inr d4"
    using funds(1,2) V(1) by (intro adjust_balance_returns [OF F M(1)]) auto
  then obtain d4 where d4: "adjust_balance F (tr_from op) (mk_asset (- amount (tr_fee op)) 0) d3 = Inr d4" ..
  have "in_int64 (- amount (tr_fee op))"
    using V(1) funds(1,2) \<open>0 \<le> if_asset 0 (tr_amount op)\<close> unfolding in_int64_def by linarith
  then have "asset_neg F (tr_fee op) = Inr (mk_asset (- amount (tr_fee op)) 0)"
    by (simp add: asset_neg_def fc_safe_simps [OF F] checked64_def fee(1))
  then show ?thesis
    using fs ev conv d2(1) d3 d4 fee(2)
    by (simp add: run_transfer_def start_evaluate_def evaluate_operation_def apply_evaluated_def apply_converted_def transfer_do_apply_def)
qed

text \<open>A transfer that should go through does: when the operation is well-formed and passes
  evaluation, its core fee is at least the required one, the sender can pay amount and fee
  together, and the receiving balance and the pending fees stay within 64 bits, the whole
  operation succeeds.\<close>

theorem transfer_goes_through:
  assumes F: "fc_lib_ok F" and ok: "db_ok d" and v: "transfer_validate op = Inr ()" and ev: "transfer_do_evaluate op d = Inr ()"
    and fee: "asset_id (tr_fee op) = 0" "required \<le> amount (tr_fee op)"
    and payer: "index_find (accounts d) (tr_from op) = Some a" "index_find (account_stats d) (statistics a) = Some s"
      "index_find (assets d) 0 = Some core" "is_authorized_asset d a 0 core"
    and s: "in_int64 (pending_fees s + amount (tr_fee op))" "in_int64 (pending_vested_fees s + amount (tr_fee op))"
    and funds: "amount (tr_fee op) + if_asset 0 (tr_amount op) \<le> balance_of d (tr_from op) 0"
      "balance_of d (tr_from op) 0 < 2 ^ 63" "balance_of d (tr_from op) (asset_id (tr_amount op)) < 2 ^ 63"
      "balance_of d (tr_to op) (asset_id (tr_amount op)) + amount (tr_amount op) < 2 ^ 63"
  shows "succeeds (run_transfer F S required op d)"
  by (rule transfer_runs [OF assms])

section \<open>Witnesses\<close>

definition sample_state :: transaction_evaluation_state where
  "sample_state = \<lparr>skip_fee = False, skip_fee_schedule_check = False\<rparr>"

definition sample_transfer :: transfer_operation where
  "sample_transfer = \<lparr>tr_fee = mk_asset 20 0, tr_from = 6, tr_to = 5, tr_amount = mk_asset 500 1\<rparr>"

lemmas sample_index_simps = sample_defs index_get_def index_find_def upt_rec

lemma sample_find:
  "index_find (accounts sample_db) 6 = Some (sample_account 6)" "index_find (accounts sample_db) 5 = Some (sample_account 5)"
  "index_find (assets sample_db) 0 = Some (sample_asset 0 3 0)" "index_find (assets sample_db) 1 = Some (sample_asset 1 5 0x0F)"
  "index_find (account_stats sample_db) 6 = Some (sample_stats 1000)"
  by (simp_all add: sample_db_def list_index_def index_find_def upt_rec eval_nat_numeral)

lemma sample_time: "head_block_time sample_db = 1600000000"
  by (simp add: sample_db_def)

lemma sample_balances:
  "balance_of sample_db 6 0 = 3000" "balance_of sample_db 6 1 = 700" "balance_of sample_db 5 0 = 5000" "balance_of sample_db 5 1 = 0"
  by (simp_all add: balance_of_def get_balance_def find_balance_def balance_key_def sample_db_def sample_balance_def list_index_def upt_rec)

lemma sample_transfer_evaluates: "transfer_do_evaluate sample_transfer sample_db = Inr ()"
  by (simp add: transfer_do_evaluate_def sample_transfer_def sample_find index_get_def is_authorized_asset_def
      slow_is_authorized_asset_def sample_asset_def sample_options_def sample_account_def is_transfer_restricted_def has_flag_def
      white_list_def transfer_restricted_def sample_balances [unfolded balance_of_def] HARDFORK_415_TIME_def sample_time del: One_nat_def)

lemma sample_transfer_runs: "succeeds (run_transfer fc_reference sample_state 10 sample_transfer sample_db)"
  by (rule transfer_runs [OF fc_reference_ok sample_db_ok _ sample_transfer_evaluates, where a = "sample_account 6"
        and s = "sample_stats 1000" and core = "sample_asset 0 3 0"])
     (simp_all add: transfer_validate_def sample_transfer_def sample_find sample_balances sample_account_def sample_stats_def
       is_authorized_asset_def sample_asset_def sample_options_def has_flag_def white_list_def in_int64_def del: One_nat_def)

theorem transfer_goes_through_witness: "succeeds (run_transfer fc_reference sample_state 10 sample_transfer sample_db)"
  by (rule transfer_goes_through [OF fc_reference_ok sample_db_ok _ sample_transfer_evaluates, where a = "sample_account 6"
        and s = "sample_stats 1000" and core = "sample_asset 0 3 0"])
     (simp_all add: transfer_validate_def sample_transfer_def sample_find sample_balances sample_account_def sample_stats_def
       is_authorized_asset_def sample_asset_def sample_options_def has_flag_def white_list_def in_int64_def del: One_nat_def)

theorem transfer_exact_witness:
  "\<exists>d'. run_transfer fc_reference sample_state 10 sample_transfer sample_db = Inr ((), d') \<and> excess d' = excess sample_db \<and>
     balance_of d' 6 1 = 200 \<and> balance_of d' 6 0 = 2980 \<and> balance_of d' 5 1 = 500 \<and> balance_of d' 5 0 = 5000"
proof -
  have "succeeds (run_transfer fc_reference sample_state 10 sample_transfer sample_db)" by (rule sample_transfer_runs)
  then obtain d' where d': "run_transfer fc_reference sample_state 10 sample_transfer sample_db = Inr ((), d')"
    by (auto simp: succeeds_iff)
  have "\<not> skip_fee sample_state" by (simp add: sample_state_def)
  from transfer_exact [OF fc_reference_ok sample_db_ok this d'] show ?thesis
    using d' by (simp add: sample_balances del: One_nat_def) (simp add: sample_transfer_def)
qed

end
