(* ===== verification/Asset_Ops.thy ===== *)
theory Asset_Ops
  imports Evaluators
begin

text \<open>
  The operations on assets (\<^verbatim>\<open>asset_evaluator.cpp\<close>, \<^verbatim>\<open>protocol/asset_ops.cpp\<close>): create, issue,
  reserve, fund and claim the fee pool, claim fees, update, update the issuer, and the evaluation of
  a bitasset update. Operations that run the market engine (settlement, price feeds) are not here.
  The checks that the source only logs before a hardfork are not checks, as in the source.
\<close>

section \<open>Options and symbols\<close>

definition is_upper :: "char \<Rightarrow> bool" where "is_upper c \<longleftrightarrow> 65 \<le> (of_char c :: nat) \<and> (of_char c :: nat) \<le> 90"
definition is_lower :: "char \<Rightarrow> bool" where "is_lower c \<longleftrightarrow> 97 \<le> (of_char c :: nat) \<and> (of_char c :: nat) \<le> 122"
definition is_digit :: "char \<Rightarrow> bool" where "is_digit c \<longleftrightarrow> 48 \<le> (of_char c :: nat) \<and> (of_char c :: nat) \<le> 57"
definition is_alpha :: "char \<Rightarrow> bool" where "is_alpha c \<longleftrightarrow> is_upper c \<or> is_lower c"
definition is_alnum :: "char \<Rightarrow> bool" where "is_alnum c \<longleftrightarrow> is_alpha c \<or> is_digit c"

definition GRAPHENE_MIN_ASSET_SYMBOL_LENGTH :: nat where "GRAPHENE_MIN_ASSET_SYMBOL_LENGTH = 3"
definition GRAPHENE_MAX_ASSET_SYMBOL_LENGTH :: nat where "GRAPHENE_MAX_ASSET_SYMBOL_LENGTH = 16"

fun symbol_chars :: "bool \<Rightarrow> string \<Rightarrow> bool" where
  "symbol_chars dot_already_present [] = True"
| "symbol_chars dot_already_present (c # cs) =
     (if (is_alpha c \<and> is_upper c) \<or> is_digit c then symbol_chars dot_already_present cs
      else if c = CHR ''.'' then (if dot_already_present then False else symbol_chars True cs)
      else False)"

definition is_valid_symbol :: "string \<Rightarrow> bool" where
  "is_valid_symbol s =
     (if length s < GRAPHENE_MIN_ASSET_SYMBOL_LENGTH then False
      else if take 3 s = ''BIT'' then False
      else if length s > GRAPHENE_MAX_ASSET_SYMBOL_LENGTH then False
      else if \<not> is_alpha (hd s) then False
      else if \<not> is_alnum (last s) then False
      else symbol_chars False s)"

definition ASSET_ISSUER_PERMISSION_MASK :: "16 word" where
  "ASSET_ISSUER_PERMISSION_MASK =
     or charge_market_fee (or white_list (or override_authority (or transfer_restricted (or disable_force_settle
       (or global_settle (or disable_confidential (or witness_fed_asset committee_fed_asset)))))))"

definition asset_options_validate :: "asset_options \<Rightarrow> unit result" where
  "asset_options_validate op =
     require (max_supply op > 0) Assert_failed
     (require (max_supply op \<le> GRAPHENE_MAX_SHARE_SUPPLY) Assert_failed
     (require (int (market_fee_percent op) \<le> GRAPHENE_100_PERCENT) Assert_failed
     (require (max_market_fee op \<ge> 0 \<and> max_market_fee op \<le> GRAPHENE_MAX_SHARE_SUPPLY) Assert_failed
     (require (\<not> has_flag (issuer_permissions op) (not ASSET_ISSUER_PERMISSION_MASK)) Assert_failed
     (require (\<not> has_flag (flags op) global_settle) Assert_failed
     (require (and (flags op) (or witness_fed_asset committee_fed_asset) \<noteq> or witness_fed_asset committee_fed_asset) Assert_failed
     (rbind (price_validate (opt_core_exchange_rate op)) (\<lambda>_.
      require (asset_id (base (opt_core_exchange_rate op)) = 0 \<or> asset_id (quote (opt_core_exchange_rate op)) = 0) Assert_failed
      (require (whitelist_authorities op \<noteq> [] \<or> blacklist_authorities op \<noteq> [] \<longrightarrow> has_flag (flags op) white_list) Assert_failed
      (require (\<forall>x\<in>set (whitelist_markets op). x \<notin> set (blacklist_markets op)) Assert_failed
      (require (\<forall>x\<in>set (blacklist_markets op). x \<notin> set (whitelist_markets op)) Assert_failed (Inr ()))))))))))))"

definition bitasset_options_validate :: "bitasset_options \<Rightarrow> unit result" where
  "bitasset_options_validate op =
     require (minimum_feeds op > 0) Assert_failed
     (require (int (force_settlement_offset_percent op) \<le> GRAPHENE_100_PERCENT) Assert_failed
     (require (int (maximum_force_settlement_volume op) \<le> GRAPHENE_100_PERCENT) Assert_failed (Inr ())))"

section \<open>Creating an asset\<close>

record asset_create_operation =
  ac_fee :: asset
  ac_issuer :: nat
  ac_symbol :: string
  ac_precision :: nat
  ac_common_options :: asset_options
  ac_bitasset_opts :: "bitasset_options option"
  ac_is_prediction_market :: bool

definition asset_create_validate :: "asset_create_operation \<Rightarrow> unit result" where
  "asset_create_validate op =
     require (amount (ac_fee op) \<ge> 0) Assert_failed
     (require (is_valid_symbol (ac_symbol op)) Assert_failed
     (rbind (asset_options_validate (ac_common_options op)) (\<lambda>_.
      require (has_flag (issuer_permissions (ac_common_options op)) (or disable_force_settle global_settle) \<longrightarrow>
                ac_bitasset_opts op \<noteq> None) Assert_failed
      (require (ac_is_prediction_market op \<longrightarrow> ac_bitasset_opts op \<noteq> None \<and>
                has_flag (issuer_permissions (ac_common_options op)) global_settle) Assert_failed
      (rbind (case ac_bitasset_opts op of None \<Rightarrow> Inr () | Some b \<Rightarrow> bitasset_options_validate b) (\<lambda>_.
       rbind (asset_mult (mk_asset 1 0) (opt_core_exchange_rate (ac_common_options op))) (\<lambda>dummy.
       require (asset_id dummy = 1) Assert_failed
       (require (ac_precision op \<le> 12) Assert_failed (Inr ())))))))))"

fun get_all :: "'o index \<Rightarrow> nat list \<Rightarrow> unit result" where
  "get_all ix [] = Inr ()"
| "get_all ix (i # is) = rbind (index_get ix i) (\<lambda>_. get_all ix is)"

definition find_symbol :: "database \<Rightarrow> string \<Rightarrow> (nat \<times> asset_object) option" where
  "find_symbol d s = find (\<lambda>x. symbol (snd x) = s) (objects (assets d))"

definition dot_prefix :: "string \<Rightarrow> string option" where
  "dot_prefix s = (if CHR ''.'' \<in> set s then Some (rev (tl (dropWhile (\<lambda>c. c \<noteq> CHR ''.'') (rev s)))) else None)"

definition bitasset_data :: "database \<Rightarrow> asset_object \<Rightarrow> asset_bitasset_data_object result" where
  "bitasset_data d a = rbind (of_option Assert_failed (bitasset_data_id a)) (index_get (bitassets d))"

definition symbol_available :: "asset_create_operation \<Rightarrow> database \<Rightarrow> unit result" where
  "symbol_available op d =
     require (find_symbol d (ac_symbol op) = None) Assert_failed
     (if head_block_time d > HARDFORK_385_TIME
      then rbind (case dot_prefix (ac_symbol op) of
             None \<Rightarrow> Inr ()
           | Some prefix \<Rightarrow>
               rbind (of_option Assert_failed (find_symbol d prefix)) (\<lambda>parent.
               require (issuer (snd parent) = ac_issuer op) Assert_failed (Inr ()))) (\<lambda>_.
           require (head_block_time d \<le> HARDFORK_CORE_620_TIME \<longrightarrow> is_alpha (last (ac_symbol op))) Assert_failed (Inr ()))
      else Inr ())"

definition check_new_backing :: "asset_create_operation \<Rightarrow> bitasset_options \<Rightarrow> database \<Rightarrow> unit result" where
  "check_new_backing op opts d =
     rbind (index_get (assets d) (short_backing_asset opts)) (\<lambda>backing.
     rbind (if is_market_issued backing
            then rbind (bitasset_data d backing) (\<lambda>backing_bitasset_data.
                 rbind (index_get (assets d) (short_backing_asset (bit_options backing_bitasset_data))) (\<lambda>backing_backing.
                 require (\<not> is_market_issued backing_backing) Assert_failed
                 (require (ac_issuer op \<noteq> GRAPHENE_COMMITTEE_ACCOUNT \<or>
                           short_backing_asset (bit_options backing_bitasset_data) = 0) Assert_failed (Inr ()))))
            else require (ac_issuer op \<noteq> GRAPHENE_COMMITTEE_ACCOUNT \<or> short_backing_asset opts = 0) Assert_failed (Inr ())) (\<lambda>_.
     require (feed_lifetime_sec opts > block_interval (parameters d) \<and>
              force_settlement_delay_sec opts > block_interval (parameters d)) Assert_failed (Inr ())))"

definition asset_create_do_evaluate :: "asset_create_operation \<Rightarrow> database \<Rightarrow> unit result" where
  "asset_create_do_evaluate op d =
     require (length (whitelist_authorities (ac_common_options op)) \<le> maximum_asset_whitelist_authorities (parameters d)) Assert_failed
     (require (length (blacklist_authorities (ac_common_options op)) \<le> maximum_asset_whitelist_authorities (parameters d)) Assert_failed
     (rbind (get_all (accounts d) (whitelist_authorities (ac_common_options op))) (\<lambda>_.
      rbind (get_all (accounts d) (blacklist_authorities (ac_common_options op))) (\<lambda>_.
      rbind (symbol_available op d) (\<lambda>_.
      rbind (case ac_bitasset_opts op of None \<Rightarrow> Inr () | Some opts \<Rightarrow> check_new_backing op opts d) (\<lambda>_.
      if ac_is_prediction_market op
      then rbind (of_option Assert_failed (ac_bitasset_opts op)) (\<lambda>opts.
           rbind (index_get (assets d) (short_backing_asset opts)) (\<lambda>backing.
           require (ac_precision op = precision backing) Assert_failed (Inr ())))
      else Inr ()))))))"

text \<open>Half of the creation fee goes to the fee pool of the new asset. The pair is
  \<^verbatim>\<open>fee_is_odd\<close> and the reduced \<^verbatim>\<open>core_fee_paid\<close>; \<^verbatim>\<open>/\<close> on a non-negative \<^verbatim>\<open>int64_t\<close>.\<close>

definition asset_create_pay_fee ::
  "fc_lib \<Rightarrow> transaction_evaluation_state \<Rightarrow> fee_state \<Rightarrow> database \<Rightarrow> ((bool \<times> int) \<times> database) result" where
  "asset_create_pay_fee F S fs d =
     rbind (of_option Overflow (safe_sub F (core_fee_paid fs) (core_fee_paid fs div 2))) (\<lambda>core.
     rbind (pay_core_fee F S (fee_paying_account_statistics fs) core d) (\<lambda>d1.
     Inr ((odd (core_fee_paid fs), core), d1)))"

definition null_price :: price where
  "null_price = mk_price (mk_asset 0 0) (mk_asset 0 0)"

definition default_price_feed :: price_feed where
  "default_price_feed = \<lparr>settlement_price = null_price, core_exchange_rate = null_price,
     maintenance_collateral_ratio = 1750, maximum_short_squeeze_ratio = 1500\<rparr>"

definition new_bitasset :: "nat \<Rightarrow> bitasset_options \<Rightarrow> bool \<Rightarrow> asset_bitasset_data_object" where
  "new_bitasset a opts pm = \<lparr>bit_asset_id = a, bit_options = opts, bit_feeds = [], current_feed = default_price_feed,
     current_feed_publication_time = 0, is_prediction_market = pm, force_settled_volume = 0, bit_settlement_price = null_price,
     settlement_fund = 0, asset_cer_updated = False, feed_cer_updated = False\<rparr>"

definition set_exchange_asset :: "nat \<Rightarrow> asset_options \<Rightarrow> asset_options" where
  "set_exchange_asset a op =
     (let r = opt_core_exchange_rate op
      in if asset_id (base r) = 0 then op\<lparr>opt_core_exchange_rate := r\<lparr>quote := (quote r)\<lparr>asset_id := a\<rparr>\<rparr>\<rparr>
         else op\<lparr>opt_core_exchange_rate := r\<lparr>base := (base r)\<lparr>asset_id := a\<rparr>\<rparr>\<rparr>)"

definition asset_create_do_apply ::
  "fc_lib \<Rightarrow> asset_create_operation \<Rightarrow> bool \<times> int \<Rightarrow> database \<Rightarrow> (nat \<times> database) result" where
  "asset_create_do_apply F op fee d =
     (case fee of (fee_is_odd, core) \<Rightarrow>
      let hf_429 = (fee_is_odd \<and> head_block_time d > HARDFORK_CORE_429_TIME)
      in rbind (of_option Overflow (safe_sub F core (if hf_429 then 1 else 0))) (\<lambda>pool.
         case ix_create \<lparr>current_supply = 0, confidential_supply = 0, accumulated_fees = 0, fee_pool = pool\<rparr> (asset_dyn_data d) of
           (dyn, dix) \<Rightarrow>
         rbind (if fee_is_odd \<and> \<not> hf_429
                then modify_dyn_data 0 (\<lambda>dd. rbind (of_option Overflow (safe_add F (current_supply dd) 1)) (\<lambda>s.
                       Inr (dd\<lparr>current_supply := s\<rparr>))) (d\<lparr>asset_dyn_data := dix\<rparr>)
                else Inr (d\<lparr>asset_dyn_data := dix\<rparr>)) (\<lambda>d1.
         let next_asset_id = next_id (assets d1);
             (bit, d2) = (case ac_bitasset_opts op of
                None \<Rightarrow> (None, d1)
              | Some opts \<Rightarrow> (case ix_create (new_bitasset next_asset_id opts (ac_is_prediction_market op)) (bitassets d1) of
                  (b, bix) \<Rightarrow> (Some b, d1\<lparr>bitassets := bix\<rparr>)))
         in case ix_create \<lparr>symbol = ac_symbol op, precision = ac_precision op, issuer = ac_issuer op,
                  options = set_exchange_asset next_asset_id (ac_common_options op), dynamic_asset_data_id = dyn,
                  bitasset_data_id = bit\<rparr> (assets d2) of
              (a, aix) \<Rightarrow> require (a = next_asset_id) Assert_failed (Inr (a, d2\<lparr>assets := aix\<rparr>)))))"

section \<open>Issue, reserve, fees and fee pool\<close>

definition asset_dyn_id :: "database \<Rightarrow> nat \<Rightarrow> nat result" where
  "asset_dyn_id d a = rbind (index_get (assets d) a) (\<lambda>ao. Inr (dynamic_asset_data_id ao))"

definition change_supply :: "fc_lib \<Rightarrow> nat \<Rightarrow> int \<Rightarrow> database \<Rightarrow> database result" where
  "change_supply F a delta d =
     rbind (asset_dyn_id d a) (\<lambda>i.
     modify_dyn_data i (\<lambda>x. rbind (of_option Overflow (safe_add F (current_supply x) delta)) (\<lambda>s. Inr (x\<lparr>current_supply := s\<rparr>))) d)"

record asset_issue_operation =
  ai_fee :: asset
  ai_issuer :: nat
  ai_asset_to_issue :: asset
  ai_issue_to_account :: nat

definition asset_issue_validate :: "asset_issue_operation \<Rightarrow> unit result" where
  "asset_issue_validate op =
     require (amount (ai_fee op) \<ge> 0) Assert_failed
     (require (amount (ai_asset_to_issue op) \<le> GRAPHENE_MAX_SHARE_SUPPLY) Assert_failed
     (require (amount (ai_asset_to_issue op) > 0) Assert_failed
     (require (asset_id (ai_asset_to_issue op) \<noteq> 0) Assert_failed (Inr ()))))"

definition asset_issue_do_evaluate :: "fc_lib \<Rightarrow> asset_issue_operation \<Rightarrow> database \<Rightarrow> unit result" where
  "asset_issue_do_evaluate F op d =
     rbind (index_get (assets d) (asset_id (ai_asset_to_issue op))) (\<lambda>a.
     require (ai_issuer op = issuer a) Assert_failed
     (require (\<not> is_market_issued a) Assert_failed
     (rbind (index_get (accounts d) (ai_issue_to_account op)) (\<lambda>to_account.
      require (is_authorized_asset d to_account (asset_id (ai_asset_to_issue op)) a) Assert_failed
      (rbind (index_get (asset_dyn_data d) (dynamic_asset_data_id a)) (\<lambda>dyn.
       rbind (of_option Overflow (safe_add F (current_supply dyn) (amount (ai_asset_to_issue op)))) (\<lambda>s.
       require (s \<le> max_supply (options a)) Assert_failed (Inr ()))))))))"

definition asset_issue_do_apply :: "fc_lib \<Rightarrow> asset_issue_operation \<Rightarrow> database \<Rightarrow> (unit \<times> database) result" where
  "asset_issue_do_apply F op d =
     rbind (adjust_balance F (ai_issue_to_account op) (ai_asset_to_issue op) d) (\<lambda>d1.
     rbind (change_supply F (asset_id (ai_asset_to_issue op)) (amount (ai_asset_to_issue op)) d1) (\<lambda>d2.
     Inr ((), d2)))"

record asset_reserve_operation =
  ar_fee :: asset
  ar_payer :: nat
  ar_amount_to_reserve :: asset

definition asset_reserve_validate :: "asset_reserve_operation \<Rightarrow> unit result" where
  "asset_reserve_validate op =
     require (amount (ar_fee op) \<ge> 0) Assert_failed
     (require (amount (ar_amount_to_reserve op) \<le> GRAPHENE_MAX_SHARE_SUPPLY) Assert_failed
     (require (amount (ar_amount_to_reserve op) > 0) Assert_failed (Inr ())))"

definition asset_reserve_do_evaluate :: "fc_lib \<Rightarrow> asset_reserve_operation \<Rightarrow> database \<Rightarrow> unit result" where
  "asset_reserve_do_evaluate F op d =
     rbind (index_get (assets d) (asset_id (ar_amount_to_reserve op))) (\<lambda>a.
     require (\<not> is_market_issued a) Assert_failed
     (rbind (index_get (accounts d) (ar_payer op)) (\<lambda>from_account.
      require (is_authorized_asset d from_account (asset_id (ar_amount_to_reserve op)) a) Assert_failed
      (rbind (index_get (asset_dyn_data d) (dynamic_asset_data_id a)) (\<lambda>dyn.
       rbind (of_option Overflow (safe_sub F (current_supply dyn) (amount (ar_amount_to_reserve op)))) (\<lambda>s.
       require (s \<ge> 0) Assert_failed (Inr ())))))))"

definition asset_reserve_do_apply :: "fc_lib \<Rightarrow> asset_reserve_operation \<Rightarrow> database \<Rightarrow> (unit \<times> database) result" where
  "asset_reserve_do_apply F op d =
     rbind (asset_neg F (ar_amount_to_reserve op)) (\<lambda>neg.
     rbind (adjust_balance F (ar_payer op) neg d) (\<lambda>d1.
     rbind (asset_dyn_id d1 (asset_id (ar_amount_to_reserve op))) (\<lambda>i.
     rbind (modify_dyn_data i (\<lambda>x. rbind (of_option Overflow (safe_sub F (current_supply x) (amount (ar_amount_to_reserve op)))) (\<lambda>s.
              Inr (x\<lparr>current_supply := s\<rparr>))) d1) (\<lambda>d2.
     Inr ((), d2)))))"

record asset_fund_fee_pool_operation =
  fp_fee :: asset
  fp_from_account :: nat
  fp_asset_id :: nat
  fp_amount :: int

definition asset_fund_fee_pool_validate :: "asset_fund_fee_pool_operation \<Rightarrow> unit result" where
  "asset_fund_fee_pool_validate op =
     require (amount (fp_fee op) \<ge> 0) Assert_failed
     (require (asset_id (fp_fee op) = 0) Assert_failed
     (require (fp_amount op > 0) Assert_failed (Inr ())))"

definition asset_fund_fee_pool_do_evaluate :: "asset_fund_fee_pool_operation \<Rightarrow> database \<Rightarrow> unit result" where
  "asset_fund_fee_pool_do_evaluate op d =
     rbind (index_get (assets d) (fp_asset_id op)) (\<lambda>a.
     rbind (index_get (asset_dyn_data d) (dynamic_asset_data_id a)) (\<lambda>_. Inr ()))"

definition asset_fund_fee_pool_do_apply :: "fc_lib \<Rightarrow> asset_fund_fee_pool_operation \<Rightarrow> database \<Rightarrow> (unit \<times> database) result" where
  "asset_fund_fee_pool_do_apply F op d =
     rbind (of_option Overflow (safe_neg F (fp_amount op))) (\<lambda>neg.
     rbind (adjust_balance F (fp_from_account op) (mk_asset neg 0) d) (\<lambda>d1.
     rbind (asset_dyn_id d1 (fp_asset_id op)) (\<lambda>i.
     rbind (modify_dyn_data i (\<lambda>x. rbind (of_option Overflow (safe_add F (fee_pool x) (fp_amount op))) (\<lambda>s. Inr (x\<lparr>fee_pool := s\<rparr>))) d1) (\<lambda>d2.
     Inr ((), d2)))))"

record asset_claim_fees_operation =
  cf_fee :: asset
  cf_issuer :: nat
  cf_amount_to_claim :: asset

definition asset_claim_fees_validate :: "asset_claim_fees_operation \<Rightarrow> unit result" where
  "asset_claim_fees_validate op =
     require (amount (cf_fee op) \<ge> 0) Assert_failed (require (amount (cf_amount_to_claim op) > 0) Assert_failed (Inr ()))"

definition asset_claim_fees_do_evaluate :: "asset_claim_fees_operation \<Rightarrow> database \<Rightarrow> unit result" where
  "asset_claim_fees_do_evaluate op d =
     require (head_block_time d > HARDFORK_413_TIME) Assert_failed
     (rbind (index_get (assets d) (asset_id (cf_amount_to_claim op))) (\<lambda>a.
      require (issuer a = cf_issuer op) Assert_failed (Inr ())))"

definition asset_claim_fees_do_apply :: "fc_lib \<Rightarrow> asset_claim_fees_operation \<Rightarrow> database \<Rightarrow> (unit \<times> database) result" where
  "asset_claim_fees_do_apply F op d =
     rbind (asset_dyn_id d (asset_id (cf_amount_to_claim op))) (\<lambda>i.
     rbind (index_get (asset_dyn_data d) i) (\<lambda>addo.
     require (amount (cf_amount_to_claim op) \<le> accumulated_fees addo) Assert_failed
     (rbind (modify_dyn_data i (\<lambda>x. rbind (of_option Overflow (safe_sub F (accumulated_fees x) (amount (cf_amount_to_claim op)))) (\<lambda>s.
               Inr (x\<lparr>accumulated_fees := s\<rparr>))) d) (\<lambda>d1.
      rbind (adjust_balance F (cf_issuer op) (cf_amount_to_claim op) d1) (\<lambda>d2.
      Inr ((), d2))))))"

record asset_claim_pool_operation =
  cp_fee :: asset
  cp_issuer :: nat
  cp_asset_id :: nat
  cp_amount_to_claim :: asset

definition asset_claim_pool_validate :: "asset_claim_pool_operation \<Rightarrow> unit result" where
  "asset_claim_pool_validate op =
     require (amount (cp_fee op) \<ge> 0) Assert_failed
     (require (asset_id (cp_fee op) \<noteq> cp_asset_id op) Assert_failed
     (require (amount (cp_amount_to_claim op) > 0) Assert_failed
     (require (asset_id (cp_amount_to_claim op) = 0) Assert_failed (Inr ()))))"

definition asset_claim_pool_do_evaluate :: "asset_claim_pool_operation \<Rightarrow> database \<Rightarrow> unit result" where
  "asset_claim_pool_do_evaluate op d =
     require (head_block_time d \<ge> HARDFORK_CORE_188_TIME) Assert_failed
     (rbind (index_get (assets d) (cp_asset_id op)) (\<lambda>a.
      require (issuer a = cp_issuer op) Assert_failed (Inr ())))"

definition asset_claim_pool_do_apply :: "fc_lib \<Rightarrow> asset_claim_pool_operation \<Rightarrow> database \<Rightarrow> (unit \<times> database) result" where
  "asset_claim_pool_do_apply F op d =
     rbind (asset_dyn_id d (cp_asset_id op)) (\<lambda>i.
     rbind (index_get (asset_dyn_data d) i) (\<lambda>addo.
     require (amount (cp_amount_to_claim op) \<le> fee_pool addo) Assert_failed
     (rbind (modify_dyn_data i (\<lambda>x. rbind (of_option Overflow (safe_sub F (fee_pool x) (amount (cp_amount_to_claim op)))) (\<lambda>s.
               Inr (x\<lparr>fee_pool := s\<rparr>))) d) (\<lambda>d1.
      rbind (adjust_balance F (cp_issuer op) (cp_amount_to_claim op) d1) (\<lambda>d2.
      Inr ((), d2))))))"

section \<open>Updating an asset\<close>

record asset_update_operation =
  au_fee :: asset
  au_issuer :: nat
  au_asset_to_update :: nat
  au_new_issuer :: "nat option"
  au_new_options :: asset_options

definition asset_update_validate :: "asset_update_operation \<Rightarrow> unit result" where
  "asset_update_validate op =
     require (amount (au_fee op) \<ge> 0) Assert_failed
     (require (case au_new_issuer op of None \<Rightarrow> True | Some i \<Rightarrow> au_issuer op \<noteq> i) Assert_failed
     (rbind (asset_options_validate (au_new_options op)) (\<lambda>_.
      rbind (asset_mult (mk_asset 1 (au_asset_to_update op)) (opt_core_exchange_rate (au_new_options op))) (\<lambda>dummy.
      require (asset_id dummy = 0) Assert_failed (Inr ())))))"

definition validate_new_issuer :: "database \<Rightarrow> asset_object \<Rightarrow> nat \<Rightarrow> unit result" where
  "validate_new_issuer d a new_issuer =
     require (index_find (accounts d) new_issuer \<noteq> None) Assert_failed
     (if is_market_issued a \<and> new_issuer = GRAPHENE_COMMITTEE_ACCOUNT
      then rbind (bitasset_data d a) (\<lambda>b.
           rbind (index_get (assets d) (short_backing_asset (bit_options b))) (\<lambda>backing.
           if is_market_issued backing
           then rbind (bitasset_data d backing) (\<lambda>bb.
                rbind (index_get (assets d) (short_backing_asset (bit_options bb))) (\<lambda>_.
                require (short_backing_asset (bit_options bb) = 0) Assert_failed (Inr ())))
           else require (short_backing_asset (bit_options b) = 0) Assert_failed (Inr ())))
      else Inr ())"

definition asset_update_do_evaluate :: "asset_update_operation \<Rightarrow> database \<Rightarrow> unit result" where
  "asset_update_do_evaluate op d =
     rbind (index_get (assets d) (au_asset_to_update op)) (\<lambda>a.
     rbind (asset_object_validate (a\<lparr>options := au_new_options op\<rparr>)) (\<lambda>_.
     rbind (case au_new_issuer op of
              None \<Rightarrow> Inr ()
            | Some i \<Rightarrow> require (head_block_time d < HARDFORK_CORE_199_TIME) Assert_failed (validate_new_issuer d a i)) (\<lambda>_.
     rbind (index_get (asset_dyn_data d) (dynamic_asset_data_id a)) (\<lambda>dyn.
     require (head_block_time d < HARDFORK_572_TIME \<or> current_supply dyn \<noteq> 0 \<longrightarrow>
              \<not> has_flag (issuer_permissions (au_new_options op)) (not (issuer_permissions (options a)))) Assert_failed
     (require (\<not> has_flag (xor (flags (au_new_options op)) (flags (options a))) (not (issuer_permissions (options a)))) Assert_failed
     (require (au_issuer op = issuer a) Assert_failed
     (require (length (whitelist_authorities (au_new_options op)) \<le> maximum_asset_whitelist_authorities (parameters d)) Assert_failed
     (rbind (get_all (accounts d) (whitelist_authorities (au_new_options op))) (\<lambda>_.
      require (length (blacklist_authorities (au_new_options op)) \<le> maximum_asset_whitelist_authorities (parameters d)) Assert_failed
      (get_all (accounts d) (blacklist_authorities (au_new_options op))))))))))))"

definition cancel_settle_order :: "fc_lib \<Rightarrow> nat \<Rightarrow> database \<Rightarrow> database result" where
  "cancel_settle_order F i d =
     rbind (index_get (force_settlements d) i) (\<lambda>order.
     rbind (adjust_balance F (fs_owner order) (fs_balance order) d) (\<lambda>d1.
     rbind (index_remove i (force_settlements d1)) (\<lambda>ix.
     Inr (d1\<lparr>force_settlements := ix\<rparr>))))"

text \<open>The settlement requests of an asset in the order of the index \<^verbatim>\<open>by_expiration\<close>: by settlement
  date, then by id.\<close>

definition settle_orders_of :: "database \<Rightarrow> nat \<Rightarrow> nat list" where
  "settle_orders_of d a =
     map fst (sort_key (\<lambda>x. settlement_date (snd x)) (sort_key fst
       (filter (\<lambda>x. asset_id (fs_balance (snd x)) = a) (objects (force_settlements d)))))"

fun cancel_settle_orders :: "fc_lib \<Rightarrow> nat list \<Rightarrow> database \<Rightarrow> database result" where
  "cancel_settle_orders F [] d = Inr d"
| "cancel_settle_orders F (i # is) d = rbind (cancel_settle_order F i d) (cancel_settle_orders F is)"

definition modify_asset :: "nat \<Rightarrow> (asset_object \<Rightarrow> asset_object) \<Rightarrow> database \<Rightarrow> database result" where
  "modify_asset i m d = rbind (ix_modify i (\<lambda>a. Inr (m a)) (assets d)) (\<lambda>ix. Inr (d\<lparr>assets := ix\<rparr>))"

definition modify_bitasset ::
  "nat \<Rightarrow> (asset_bitasset_data_object \<Rightarrow> asset_bitasset_data_object) \<Rightarrow> database \<Rightarrow> database result" where
  "modify_bitasset i m d = rbind (ix_modify i (\<lambda>b. Inr (m b)) (bitassets d)) (\<lambda>ix. Inr (d\<lparr>bitassets := ix\<rparr>))"

definition mark_cer_updated :: "asset_update_operation \<Rightarrow> asset_object \<Rightarrow> database \<Rightarrow> database result" where
  "mark_cer_updated op a d =
     (case bitasset_data_id a of
        None \<Rightarrow> Inr d
      | Some i \<Rightarrow>
          if price_eq (opt_core_exchange_rate (options a)) (opt_core_exchange_rate (au_new_options op)) then Inr d
          else rbind (index_get (bitassets d) i) (\<lambda>b.
               if asset_cer_updated b then Inr d
               else modify_bitasset i (\<lambda>b. b\<lparr>asset_cer_updated := True\<rparr>) d))"

definition asset_update_do_apply :: "fc_lib \<Rightarrow> asset_update_operation \<Rightarrow> database \<Rightarrow> (unit \<times> database) result" where
  "asset_update_do_apply F op d =
     rbind (index_get (assets d) (au_asset_to_update op)) (\<lambda>a.
     rbind (if has_flag (flags (au_new_options op)) disable_force_settle \<and> can_force_settle a
            then cancel_settle_orders F (settle_orders_of d (au_asset_to_update op)) d
            else Inr d) (\<lambda>d1.
     rbind (mark_cer_updated op a d1) (\<lambda>d2.
     rbind (modify_asset (au_asset_to_update op) (\<lambda>a. a\<lparr>
              issuer := (case au_new_issuer op of None \<Rightarrow> issuer a | Some i \<Rightarrow> i), options := au_new_options op\<rparr>) d2) (\<lambda>d3.
     Inr ((), d3)))))"

record asset_update_issuer_operation =
  ui_fee :: asset
  ui_issuer :: nat
  ui_asset_to_update :: nat
  ui_new_issuer :: nat

definition asset_update_issuer_validate :: "asset_update_issuer_operation \<Rightarrow> unit result" where
  "asset_update_issuer_validate op =
     require (amount (ui_fee op) \<ge> 0) Assert_failed (require (ui_issuer op \<noteq> ui_new_issuer op) Assert_failed (Inr ()))"

definition asset_update_issuer_do_evaluate :: "asset_update_issuer_operation \<Rightarrow> database \<Rightarrow> unit result" where
  "asset_update_issuer_do_evaluate op d =
     rbind (index_get (assets d) (ui_asset_to_update op)) (\<lambda>a.
     rbind (validate_new_issuer d a (ui_new_issuer op)) (\<lambda>_.
     require (ui_issuer op = issuer a) Assert_failed
     (require (\<not> head_block_time d < HARDFORK_CORE_199_TIME) Assert_failed (Inr ()))))"

definition asset_update_issuer_do_apply :: "asset_update_issuer_operation \<Rightarrow> database \<Rightarrow> (unit \<times> database) result" where
  "asset_update_issuer_do_apply op d =
     rbind (modify_asset (ui_asset_to_update op) (\<lambda>a. a\<lparr>issuer := ui_new_issuer op\<rparr>) d) (\<lambda>d1. Inr ((), d1))"

section \<open>Value\<close>

lemma asset_dyn_effect:
  assumes F: "fc_lib_ok F" and ok: "db_ok d" and i: "asset_dyn_id d s = Inr i" and m: "modify_dyn_data i m d = Inr d'"
  shows "\<exists>x x' ix. dyn_of d s = Some x \<and> m x = Inr x' \<and> d' = d\<lparr>asset_dyn_data := ix\<rparr> \<and> dyn_of d' s = Some x' \<and>
     db_ok d' \<and> (\<forall>a. excess d' a = excess d a + (if a = s then held_in_dyn x' - held_in_dyn x else 0) +
        (if a = 0 then fee_pool x' - fee_pool x else 0))"
proof -
  obtain ao where "index_find (assets d) s = Some ao" "dynamic_asset_data_id ao = i"
    using i by (auto simp: asset_dyn_id_def)
  then show ?thesis using modify_dyn_data_effect [OF ok _ m [folded \<open>dynamic_asset_data_id ao = i\<close>]] by simp
qed

lemma asset_issue_effect:
  assumes F: "fc_lib_ok F" and ok: "db_ok d" and run: "asset_issue_do_apply F op d = Inr (u, d')"
  shows "db_ok d' \<and> excess d' = excess d \<and> (\<exists>x. dyn_of d (asset_id (ai_asset_to_issue op)) = Some x \<and>
     dyn_of d' (asset_id (ai_asset_to_issue op)) = Some (x\<lparr>current_supply := current_supply x + amount (ai_asset_to_issue op)\<rparr>))"
proof -
  let ?s = "asset_id (ai_asset_to_issue op)" and ?n = "amount (ai_asset_to_issue op)"
  let ?m = "\<lambda>x. rbind (of_option Overflow (safe_add F (current_supply x) ?n)) (\<lambda>s. Inr (x\<lparr>current_supply := s\<rparr>))"
  obtain d1 i where P: "adjust_balance F (ai_issue_to_account op) (ai_asset_to_issue op) d = Inr d1"
      "asset_dyn_id d1 ?s = Inr i" "modify_dyn_data i ?m d1 = Inr d'"
    using run by (auto simp: asset_issue_do_apply_def change_supply_def)
  note A = adjust_balance_effect [OF F ok P(1)]
  obtain x x' where x: "dyn_of d1 ?s = Some x" "?m x = Inr x'" "dyn_of d' ?s = Some x'" "db_ok d'"
      "\<forall>a. excess d' a = excess d1 a + (if a = ?s then held_in_dyn x' - held_in_dyn x else 0) + (if a = 0 then fee_pool x' - fee_pool x else 0)"
    using asset_dyn_effect [OF F A(2) P(2,3)] by blast
  have x': "x' = x\<lparr>current_supply := current_supply x + ?n\<rparr>" using x(2) by (auto simp: fc_safe_simps [OF F])
  have "dyn_of d = dyn_of d1" using A(1) by (auto simp: dyn_of_def fun_eq_iff)
  then show ?thesis using x A(3) by (auto simp: x' held_in_dyn_def if_asset_def fun_eq_iff)
qed

interpretation asset_issue: plain_operation F S "asset_issue_do_apply F op" for F S op
  by unfold_locales (auto dest: asset_issue_effect)

lemma asset_reserve_effect:
  assumes F: "fc_lib_ok F" and ok: "db_ok d" and run: "asset_reserve_do_apply F op d = Inr (u, d')"
  shows "db_ok d' \<and> excess d' = excess d \<and> amount (ar_amount_to_reserve op) \<le> balance_of d (ar_payer op) (asset_id (ar_amount_to_reserve op)) \<and>
     (\<exists>x. dyn_of d (asset_id (ar_amount_to_reserve op)) = Some x \<and>
     dyn_of d' (asset_id (ar_amount_to_reserve op)) = Some (x\<lparr>current_supply := current_supply x - amount (ar_amount_to_reserve op)\<rparr>))"
proof -
  let ?s = "asset_id (ar_amount_to_reserve op)" and ?n = "amount (ar_amount_to_reserve op)"
  let ?m = "\<lambda>x. rbind (of_option Overflow (safe_sub F (current_supply x) ?n)) (\<lambda>s. Inr (x\<lparr>current_supply := s\<rparr>))"
  obtain d1 i where P: "adjust_balance F (ar_payer op) (mk_asset (- ?n) ?s) d = Inr d1"
      "asset_dyn_id d1 ?s = Inr i" "modify_dyn_data i ?m d1 = Inr d'"
    using run by (auto simp: asset_reserve_do_apply_def asset_neg_def fc_safe_simps [OF F])
  note A = adjust_balance_effect [OF F ok P(1)]
  obtain x x' where x: "dyn_of d1 ?s = Some x" "?m x = Inr x'" "dyn_of d' ?s = Some x'" "db_ok d'"
      "\<forall>a. excess d' a = excess d1 a + (if a = ?s then held_in_dyn x' - held_in_dyn x else 0) + (if a = 0 then fee_pool x' - fee_pool x else 0)"
    using asset_dyn_effect [OF F A(2) P(2,3)] by blast
  have x': "x' = x\<lparr>current_supply := current_supply x - ?n\<rparr>" using x(2) by (auto simp: fc_safe_simps [OF F])
  have "dyn_of d = dyn_of d1" using A(1) by (auto simp: dyn_of_def fun_eq_iff)
  moreover have "?n \<le> balance_of d (ar_payer op) ?s"
    using A(4) [of "ar_payer op" ?s] balance_of_nonneg [of d1 "ar_payer op" ?s] A(2) by (simp add: db_ok_def)
  ultimately show ?thesis using x A(3) by (auto simp: x' held_in_dyn_def if_asset_def fun_eq_iff)
qed

interpretation asset_reserve: plain_operation F S "asset_reserve_do_apply F op" for F S op
  by unfold_locales (auto dest: asset_reserve_effect)

lemma fund_fee_pool_effect:
  assumes F: "fc_lib_ok F" and ok: "db_ok d" and run: "asset_fund_fee_pool_do_apply F op d = Inr (u, d')"
  shows "db_ok d' \<and> excess d' = excess d"
proof -
  let ?m = "\<lambda>x. rbind (of_option Overflow (safe_add F (fee_pool x) (fp_amount op))) (\<lambda>s. Inr (x\<lparr>fee_pool := s\<rparr>))"
  obtain d1 i where P: "adjust_balance F (fp_from_account op) (mk_asset (- fp_amount op) 0) d = Inr d1"
      "asset_dyn_id d1 (fp_asset_id op) = Inr i" "modify_dyn_data i ?m d1 = Inr d'"
    using run by (auto simp: asset_fund_fee_pool_do_apply_def fc_safe_simps [OF F])
  note A = adjust_balance_effect [OF F ok P(1)]
  obtain x x' where x: "?m x = Inr x'" "db_ok d'" "\<forall>a. excess d' a = excess d1 a +
      (if a = fp_asset_id op then held_in_dyn x' - held_in_dyn x else 0) + (if a = 0 then fee_pool x' - fee_pool x else 0)"
    using asset_dyn_effect [OF F A(2) P(2,3)] by blast
  have "x' = x\<lparr>fee_pool := fee_pool x + fp_amount op\<rparr>" using x(1) by (auto simp: fc_safe_simps [OF F])
  then show ?thesis using x(2,3) A(3) by (auto simp: held_in_dyn_def fun_eq_iff)
qed

interpretation asset_fund_fee_pool: plain_operation F S "asset_fund_fee_pool_do_apply F op" for F S op
  by unfold_locales (auto dest: fund_fee_pool_effect)

lemma claim_fees_effect:
  assumes F: "fc_lib_ok F" and ok: "db_ok d" and run: "asset_claim_fees_do_apply F op d = Inr (u, d')"
  shows "db_ok d' \<and> excess d' = excess d"
proof -
  let ?s = "asset_id (cf_amount_to_claim op)"
  let ?m = "\<lambda>x. rbind (of_option Overflow (safe_sub F (accumulated_fees x) (amount (cf_amount_to_claim op)))) (\<lambda>s. Inr (x\<lparr>accumulated_fees := s\<rparr>))"
  obtain d1 i where P: "asset_dyn_id d ?s = Inr i" "modify_dyn_data i ?m d = Inr d1"
      "adjust_balance F (cf_issuer op) (cf_amount_to_claim op) d1 = Inr d'"
    using run by (auto simp: asset_claim_fees_do_apply_def)
  obtain x x' where x: "?m x = Inr x'" "db_ok d1" "\<forall>a. excess d1 a = excess d a +
      (if a = ?s then held_in_dyn x' - held_in_dyn x else 0) + (if a = 0 then fee_pool x' - fee_pool x else 0)"
    using asset_dyn_effect [OF F ok P(1,2)] by blast
  note A = adjust_balance_effect [OF F x(2) P(3)]
  have "x' = x\<lparr>accumulated_fees := accumulated_fees x - amount (cf_amount_to_claim op)\<rparr>" using x(1) by (auto simp: fc_safe_simps [OF F])
  then show ?thesis using x(3) A(2,3) by (auto simp: held_in_dyn_def if_asset_def fun_eq_iff)
qed

interpretation asset_claim_fees: plain_operation F S "asset_claim_fees_do_apply F op" for F S op
  by unfold_locales (auto dest: claim_fees_effect)

text \<open>The pool holds core, so a claim conserves value because \<^verbatim>\<open>validate\<close> demands a core amount.\<close>

lemma claim_pool_effect:
  assumes F: "fc_lib_ok F" and ok: "db_ok d" and v: "asset_id (cp_amount_to_claim op) = 0"
    and run: "asset_claim_pool_do_apply F op d = Inr (u, d')"
  shows "db_ok d' \<and> excess d' = excess d"
proof -
  let ?m = "\<lambda>x. rbind (of_option Overflow (safe_sub F (fee_pool x) (amount (cp_amount_to_claim op)))) (\<lambda>s. Inr (x\<lparr>fee_pool := s\<rparr>))"
  obtain d1 i where P: "asset_dyn_id d (cp_asset_id op) = Inr i" "modify_dyn_data i ?m d = Inr d1"
      "adjust_balance F (cp_issuer op) (cp_amount_to_claim op) d1 = Inr d'"
    using run by (auto simp: asset_claim_pool_do_apply_def)
  obtain x x' where x: "?m x = Inr x'" "db_ok d1" "\<forall>a. excess d1 a = excess d a +
      (if a = cp_asset_id op then held_in_dyn x' - held_in_dyn x else 0) + (if a = 0 then fee_pool x' - fee_pool x else 0)"
    using asset_dyn_effect [OF F ok P(1,2)] by blast
  note A = adjust_balance_effect [OF F x(2) P(3)]
  have "x' = x\<lparr>fee_pool := fee_pool x - amount (cp_amount_to_claim op)\<rparr>" using x(1) by (auto simp: fc_safe_simps [OF F])
  then show ?thesis using x(3) A(2,3) v by (auto simp: held_in_dyn_def if_asset_def fun_eq_iff)
qed

interpretation asset_claim_pool: plain_operation F S "\<lambda>d. rbind (asset_claim_pool_validate op) (\<lambda>_. asset_claim_pool_do_apply F op d)" for F S op
  by unfold_locales (auto simp: asset_claim_pool_validate_def dest: claim_pool_effect)

section \<open>Updates and creation\<close>

lemma ix_removeE:
  assumes "ix_ok ix" and "index_remove i ix = Inr ix'"
  obtains ob where "index_find ix i = Some ob" "index_find ix' = (index_find ix)(i := None)"
    "\<And>f. ix_sum f ix' = ix_sum f ix - f ob" "ix_ok ix'" "next_id ix' = next_id ix"
proof -
  obtain ob where o: "index_find ix i = Some ob" and ix': "ix' = ix\<lparr>objects := AList.delete i (objects ix)\<rparr>"
    using assms(2) by (auto simp: index_remove_def split: option.splits)
  have d: "distinct (map fst (objects ix))" using assms(1) by (simp add: ix_ok_def)
  have "(\<Sum>x\<leftarrow>AList.delete i xs. f (snd x)) = (\<Sum>x\<leftarrow>xs. f (snd x)) - f ob"
    if "distinct (map fst xs)" "map_of xs i = Some ob" for f :: "'a \<Rightarrow> int" and xs
    using that
  proof (induction xs)
    case (Cons x xs)
    show ?case
    proof (cases "fst x = i")
      case True
      then have "i \<notin> fst ` set xs" using Cons.prems(1) by auto
      then have "AList.delete i xs = xs" by (simp add: delete_conv')
      then show ?thesis using True Cons.prems by (cases x) simp
    next
      case False
      then show ?thesis using Cons by (cases x) auto
    qed
  qed simp
  from this [OF d] o have s: "ix_sum f ix' = ix_sum f ix - f ob" for f
    by (simp add: ix_sum_def index_find_def ix')
  have "ix_ok ix'"
    using assms(1) by (auto simp: ix_ok_def ix' AList.delete_eq distinct_map_filter)
  then show thesis using o s by (intro that) (auto simp: ix' index_find_def delete_conv)
qed

lemma cancel_settle_order_effect:
  assumes F: "fc_lib_ok F" and ok: "db_ok d" and run: "cancel_settle_order F i d = Inr d'"
  shows "db_ok d' \<and> excess d' = excess d \<and> assets d' = assets d \<and> bitassets d' = bitassets d"
proof -
  obtain order d1 ix where P: "index_find (force_settlements d) i = Some order"
      "adjust_balance F (fs_owner order) (fs_balance order) d = Inr d1" "index_remove i (force_settlements d1) = Inr ix"
      "d' = d1\<lparr>force_settlements := ix\<rparr>"
    using run by (auto simp: cancel_settle_order_def)
  note A = adjust_balance_effect [OF F ok P(2)]
  have iok: "ix_ok (force_settlements d1)" using A(2) by (simp add: db_ok_def)
  obtain ob where ob: "index_find (force_settlements d1) i = Some ob" "\<And>f. ix_sum f ix = ix_sum f (force_settlements d1) - f ob" "ix_ok ix"
    using ix_removeE [OF iok P(3)] by metis
  have ob': "ob = order" using ob(1) P(1) A(1) by auto
  have "excess d' a = excess d1 a - if_asset a (fs_balance ob)" for a
    using ob(2) [of "\<lambda>s. if_asset a (fs_balance s)"] by (simp add: P(4) excess_defs)
  then have "excess d' = excess d" using A(3) ob' by (simp add: fun_eq_iff)
  moreover have "db_ok d'" using A(2) ob(3) by (simp add: db_ok_def assets_ok_def P(4))
  ultimately show ?thesis using A(1) P(4) by auto
qed

lemma cancel_settle_orders_effect:
  assumes F: "fc_lib_ok F"
  shows "db_ok d \<Longrightarrow> cancel_settle_orders F is d = Inr d' \<Longrightarrow>
     db_ok d' \<and> excess d' = excess d \<and> assets d' = assets d \<and> bitassets d' = bitassets d"
proof (induction "is" arbitrary: d)
  case Nil
  then show ?case by simp
next
  case (Cons i "is")
  then obtain d1 where d1: "cancel_settle_order F i d = Inr d1" "cancel_settle_orders F is d1 = Inr d'" by auto
  note E = cancel_settle_order_effect [OF F Cons.prems(1) d1(1)]
  show ?case using Cons.IH [OF conjunct1 [OF E] d1(2)] E by simp
qed

lemma map_snd_update_same:
  assumes "map_of xs i = Some ob" and "distinct (map fst xs)" and "g ob' = g ob"
  shows "map (\<lambda>x. g (snd x)) (AList.update i ob' xs) = map (\<lambda>x. g (snd x)) xs"
  using assms by (induction xs) auto

lemma modify_asset_effect:
  assumes ok: "db_ok d" and run: "modify_asset i m d = Inr d'" and m: "\<And>a. dynamic_asset_data_id (m a) = dynamic_asset_data_id a"
  shows "db_ok d' \<and> excess d' = excess d \<and> (\<exists>a ix. index_find (assets d) i = Some a \<and> d' = d\<lparr>assets := ix\<rparr> \<and>
     index_find ix = (index_find (assets d))(i \<mapsto> m a) \<and> next_id ix = next_id (assets d))"
proof -
  obtain ix where ix: "ix_modify i (\<lambda>a. Inr (m a)) (assets d) = Inr ix" "d' = d\<lparr>assets := ix\<rparr>"
    using run by (auto simp: modify_asset_def)
  have aok: "assets_ok d" "ix_ok (assets d)" using ok by (simp_all add: db_ok_def assets_ok_def)
  obtain a b where a: "index_find (assets d) i = Some a" "Inr (m a) = (Inr b :: asset_object result)"
      "index_find ix = (index_find (assets d))(i \<mapsto> b)" "next_id ix = next_id (assets d)" "ix_ok ix"
      "objects ix = AList.update i b (objects (assets d))"
    using ix_modifyE [OF aok(2) ix(1)] by metis
  have b: "b = m a" using a(2) by simp
  have M: "map (\<lambda>x. dynamic_asset_data_id (snd x)) (objects ix) = map (\<lambda>x. dynamic_asset_data_id (snd x)) (objects (assets d))"
    using a(1) aok(2) unfolding a(6) b by (intro map_snd_update_same) (simp_all add: index_find_def ix_ok_def m)
  have D: "dyn_of d' = dyn_of d" using a(1) by (auto simp: dyn_of_def ix(2) a(3) b m fun_eq_iff)
  have "index_find (asset_dyn_data d) (dynamic_asset_data_id (snd x)) \<noteq> None" if "x \<in> set (objects ix)" for x
  proof -
    have "dynamic_asset_data_id (snd x) \<in> set (map (\<lambda>x. dynamic_asset_data_id (snd x)) (objects (assets d)))"
      using that unfolding M [symmetric] by simp
    then obtain y where "y \<in> set (objects (assets d))" "dynamic_asset_data_id (snd x) = dynamic_asset_data_id (snd y)" by auto
    then show ?thesis using aok(1) by (auto simp: assets_ok_def)
  qed
  moreover obtain ao where ao: "index_find (assets d) 0 = Some ao" "dynamic_asset_data_id ao = 0"
    using aok(1) by (auto simp: assets_ok_def)
  have "\<exists>ao. index_find ix 0 = Some ao \<and> dynamic_asset_data_id ao = 0"
    using ao a(1) by (cases "i = 0") (auto simp: a(3) b m)
  ultimately have "assets_ok d'" using aok(1) a(5) M unfolding assets_ok_def by (simp add: ix(2))
  then have "db_ok d'" using ok by (simp add: db_ok_def ix(2))
  moreover have "excess d' = excess d" using D by (auto simp: excess_def core_held_def dyn_net_def ix(2) fun_eq_iff)
  ultimately show ?thesis using a ix(2) b by auto
qed

lemma modify_bitasset_effect:
  assumes ok: "db_ok d" and run: "modify_bitasset i m d = Inr d'"
    and m: "\<And>b. settlement_fund (m b) = settlement_fund b" "\<And>b. short_backing_asset (bit_options (m b)) = short_backing_asset (bit_options b)"
  shows "db_ok d' \<and> excess d' = excess d \<and> (\<exists>b ix. index_find (bitassets d) i = Some b \<and> d' = d\<lparr>bitassets := ix\<rparr> \<and>
     index_find ix = (index_find (bitassets d))(i \<mapsto> m b) \<and> next_id ix = next_id (bitassets d))"
proof -
  obtain ix where ix: "ix_modify i (\<lambda>a. Inr (m a)) (bitassets d) = Inr ix" "d' = d\<lparr>bitassets := ix\<rparr>"
    using run by (auto simp: modify_bitasset_def)
  have iok: "ix_ok (bitassets d)" using ok by (simp add: db_ok_def assets_ok_def)
  obtain a b where a: "index_find (bitassets d) i = Some a" "Inr (m a) = (Inr b :: asset_bitasset_data_object result)"
      "index_find ix = (index_find (bitassets d))(i \<mapsto> b)" "next_id ix = next_id (bitassets d)" "ix_ok ix"
      "\<And>f. ix_sum f ix = ix_sum f (bitassets d) + f b - f a"
    using ix_modifyE [OF iok ix(1)] by metis
  have b: "b = m a" using a(2) by simp
  have "db_ok d'" using ok a(5) by (simp add: db_ok_def assets_ok_def ix(2))
  moreover have "excess d' = excess d" using a(6) by (simp add: excess_defs ix(2) fun_eq_iff b m)
  ultimately show ?thesis using a ix(2) b by auto
qed

lemma mark_cer_updated_effect:
  assumes ok: "db_ok d" and run: "mark_cer_updated op a d = Inr d'"
  shows "db_ok d' \<and> excess d' = excess d \<and> (\<exists>ix. d' = d\<lparr>bitassets := ix\<rparr> \<and> next_id ix = next_id (bitassets d) \<and>
     (\<forall>j. map_option (\<lambda>b. (bit_asset_id b, bit_options b)) (index_find ix j) = map_option (\<lambda>b. (bit_asset_id b, bit_options b)) (index_find (bitassets d) j)))"
proof -
  have "d' = d \<or> (\<exists>i. modify_bitasset i (\<lambda>b. b\<lparr>asset_cer_updated := True\<rparr>) d = Inr d')"
    using run by (simp add: mark_cer_updated_def split: option.splits if_splits) blast+
  then consider "d' = d" | i where "modify_bitasset i (\<lambda>b. b\<lparr>asset_cer_updated := True\<rparr>) d = Inr d'" by blast
  then show ?thesis
  proof cases
    case 1
    have "d = d\<lparr>bitassets := bitassets d\<rparr>" by simp
    then show ?thesis using ok 1 by metis
  next
    case 2
    obtain b ix where b: "index_find (bitassets d) i = Some b" "d' = d\<lparr>bitassets := ix\<rparr>"
        "index_find ix = (index_find (bitassets d))(i \<mapsto> b\<lparr>asset_cer_updated := True\<rparr>)" "next_id ix = next_id (bitassets d)"
        "db_ok d'" "excess d' = excess d"
    proof -
      have "db_ok d' \<and> excess d' = excess d \<and> (\<exists>b ix. index_find (bitassets d) i = Some b \<and> d' = d\<lparr>bitassets := ix\<rparr> \<and>
          index_find ix = (index_find (bitassets d))(i \<mapsto> b\<lparr>asset_cer_updated := True\<rparr>) \<and> next_id ix = next_id (bitassets d))"
        by (rule modify_bitasset_effect [OF ok 2]) simp_all
      then show thesis using that by blast
    qed
    then have "map_option (\<lambda>b. (bit_asset_id b, bit_options b)) (index_find ix j) = map_option (\<lambda>b. (bit_asset_id b, bit_options b)) (index_find (bitassets d) j)" for j by simp
    then show ?thesis using b(2,4-6) by blast
  qed
qed

text \<open>What an asset update leaves of the state, as far as backing and issuers are concerned.\<close>

lemma asset_update_effect:
  assumes F: "fc_lib_ok F" and ok: "db_ok d" and run: "asset_update_do_apply F op d = Inr (u, d')"
  shows "db_ok d' \<and> excess d' = excess d \<and> (\<exists>a. index_find (assets d) (au_asset_to_update op) = Some a \<and>
     index_find (assets d') = (index_find (assets d))(au_asset_to_update op \<mapsto>
        a\<lparr>issuer := (case au_new_issuer op of None \<Rightarrow> issuer a | Some i \<Rightarrow> i), options := au_new_options op\<rparr>)) \<and>
     (\<forall>j. map_option (\<lambda>b. (bit_asset_id b, bit_options b)) (index_find (bitassets d') j) = map_option (\<lambda>b. (bit_asset_id b, bit_options b)) (index_find (bitassets d) j))"
proof -
  obtain a d1 d2 where P: "index_find (assets d) (au_asset_to_update op) = Some a"
      "(if has_flag (flags (au_new_options op)) disable_force_settle \<and> can_force_settle a
            then cancel_settle_orders F (settle_orders_of d (au_asset_to_update op)) d else Inr d) = Inr d1"
      "mark_cer_updated op a d1 = Inr d2"
      "modify_asset (au_asset_to_update op) (\<lambda>a. a\<lparr>
              issuer := (case au_new_issuer op of None \<Rightarrow> issuer a | Some i \<Rightarrow> i), options := au_new_options op\<rparr>) d2 = Inr d'"
    using run by (auto simp: asset_update_do_apply_def)
  have 1: "db_ok d1 \<and> excess d1 = excess d \<and> assets d1 = assets d \<and> bitassets d1 = bitassets d"
    using P(2) ok cancel_settle_orders_effect [OF F ok] by (fastforce split: if_splits)
  note 2 = mark_cer_updated_effect [OF conjunct1 [OF 1] P(3)]
  have "db_ok d' \<and> excess d' = excess d2 \<and> (\<exists>a ix. index_find (assets d2) (au_asset_to_update op) = Some a \<and> d' = d2\<lparr>assets := ix\<rparr> \<and>
     index_find ix = (index_find (assets d2))(au_asset_to_update op \<mapsto> a\<lparr>
              issuer := (case au_new_issuer op of None \<Rightarrow> issuer a | Some i \<Rightarrow> i), options := au_new_options op\<rparr>) \<and>
     next_id ix = next_id (assets d2))"
    by (rule modify_asset_effect [OF conjunct1 [OF 2] P(4)]) simp
  then show ?thesis using 1 2 by auto
qed

interpretation asset_update: plain_operation F S "asset_update_do_apply F op" for F S op
  by unfold_locales (auto dest: asset_update_effect)

lemma asset_update_issuer_effect:
  assumes ok: "db_ok d" and run: "asset_update_issuer_do_apply op d = Inr (u, d')"
  shows "db_ok d' \<and> excess d' = excess d \<and> (\<exists>a. index_find (assets d) (ui_asset_to_update op) = Some a \<and>
     index_find (assets d') = (index_find (assets d))(ui_asset_to_update op \<mapsto> a\<lparr>issuer := ui_new_issuer op\<rparr>)) \<and>
     bitassets d' = bitassets d"
proof -
  have "modify_asset (ui_asset_to_update op) (\<lambda>a. a\<lparr>issuer := ui_new_issuer op\<rparr>) d = Inr d'"
    using run by (auto simp: asset_update_issuer_do_apply_def)
  then have "db_ok d' \<and> excess d' = excess d \<and> (\<exists>a ix. index_find (assets d) (ui_asset_to_update op) = Some a \<and> d' = d\<lparr>assets := ix\<rparr> \<and>
     index_find ix = (index_find (assets d))(ui_asset_to_update op \<mapsto> a\<lparr>issuer := ui_new_issuer op\<rparr>) \<and> next_id ix = next_id (assets d))"
    by (rule modify_asset_effect [OF ok]) simp
  then show ?thesis by auto
qed

interpretation asset_update_issuer: plain_operation F S "asset_update_issuer_do_apply op" for F S op
  by unfold_locales (auto dest: asset_update_issuer_effect)

lemma create_dyn_effect:
  assumes ok: "db_ok d" and c: "ix_create x (asset_dyn_data d) = (i, ix)"
  shows "db_ok (d\<lparr>asset_dyn_data := ix\<rparr>)" and "excess (d\<lparr>asset_dyn_data := ix\<rparr>) a = excess d a + (if a = 0 then fee_pool x else 0)"
    and "index_find ix i = Some x" and "i \<noteq> 0" and "i \<notin> (\<lambda>y. dynamic_asset_data_id (snd y)) ` set (objects (assets d))"
proof -
  have aok: "assets_ok d" "ix_ok (asset_dyn_data d)" using ok by (simp_all add: db_ok_def assets_ok_def)
  have C: "index_find (asset_dyn_data d) i = None" "index_find ix = (index_find (asset_dyn_data d))(i \<mapsto> x)"
      "\<And>f. ix_sum f ix = ix_sum f (asset_dyn_data d) + f x" "ix_ok ix"
    using ix_create_facts [OF aok(2) c] by auto
  have linked: "index_find (asset_dyn_data d) (dynamic_asset_data_id (snd y)) \<noteq> None" if "y \<in> set (objects (assets d))" for y
    using aok(1) that by (simp add: assets_ok_def)
  then show fresh: "i \<notin> (\<lambda>y. dynamic_asset_data_id (snd y)) ` set (objects (assets d))" using C(1) by (fastforce simp del: not_None_eq)
  obtain ao where ao: "index_find (assets d) 0 = Some ao" "dynamic_asset_data_id ao = 0" using aok(1) by (auto simp: assets_ok_def)
  then have "(0, ao) \<in> set (objects (assets d))" by (auto simp: index_find_def dest: map_of_SomeD)
  then show "i \<noteq> 0" using linked [of "(0, ao)"] C(1) ao(2) by (cases "i = 0") auto
  have "dyn_of (d\<lparr>asset_dyn_data := ix\<rparr>) a = dyn_of d a" for a
  proof (cases "index_find (assets d) a")
    case (Some bo)
    then have "dynamic_asset_data_id bo \<noteq> i" using fresh by (force simp: index_find_def dest: map_of_SomeD)
    then show ?thesis using Some by (simp add: dyn_of_def C(2))
  qed (simp add: dyn_of_def)
  then show "excess (d\<lparr>asset_dyn_data := ix\<rparr>) a = excess d a + (if a = 0 then fee_pool x else 0)"
    using C(3) by (simp add: excess_def core_held_def dyn_net_def)
  show "db_ok (d\<lparr>asset_dyn_data := ix\<rparr>)" using ok C(2,4) by (simp add: db_ok_def assets_ok_def)
  show "index_find ix i = Some x" by (simp add: C(2))
qed

lemma create_bitasset_effect:
  assumes ok: "db_ok d" and c: "ix_create b (bitassets d) = (i, ix)" and "settlement_fund b = 0"
  shows "db_ok (d\<lparr>bitassets := ix\<rparr>)" and "excess (d\<lparr>bitassets := ix\<rparr>) = excess d"
proof -
  have "ix_ok (bitassets d)" using ok by (simp add: db_ok_def assets_ok_def)
  from ix_create_facts [OF this c] show "db_ok (d\<lparr>bitassets := ix\<rparr>)" "excess (d\<lparr>bitassets := ix\<rparr>) = excess d"
    using ok assms(3) by (auto simp: db_ok_def assets_ok_def excess_defs)
qed

lemma create_asset_effect:
  assumes ok: "db_ok d" and c: "ix_create ao (assets d) = (i, ix)" and x: "index_find (asset_dyn_data d) (dynamic_asset_data_id ao) = Some x"
    and net: "held_in_dyn x = 0"
    and fresh: "dynamic_asset_data_id ao \<notin> (\<lambda>y. dynamic_asset_data_id (snd y)) ` set (objects (assets d))"
  shows "db_ok (d\<lparr>assets := ix\<rparr>)" and "excess (d\<lparr>assets := ix\<rparr>) = excess d"
proof -
  have aok: "assets_ok d" "ix_ok (assets d)" using ok by (simp_all add: db_ok_def assets_ok_def)
  have C: "index_find (assets d) i = None" "index_find ix = (index_find (assets d))(i \<mapsto> ao)" "ix_ok ix" "i = next_id (assets d)"
    using ix_create_facts [OF aok(2) c] by auto
  have obj: "objects ix = objects (assets d) @ [(i, ao)]" using c by (auto simp: ix_create_def)
  obtain co where co: "index_find (assets d) 0 = Some co" "dynamic_asset_data_id co = 0" using aok(1) by (auto simp: assets_ok_def)
  have "i \<noteq> 0" using C(1) co(1) by (cases "i = 0") auto
  then have "assets_ok (d\<lparr>assets := ix\<rparr>)"
    using aok(1) C(2,3) co x fresh by (auto simp: assets_ok_def obj)
  then show "db_ok (d\<lparr>assets := ix\<rparr>)" using ok by (simp add: db_ok_def)
  have "dyn_net (d\<lparr>assets := ix\<rparr>) a = dyn_net d a" for a
    using x net C(1) by (simp add: dyn_net_def dyn_of_def C(2))
  then show "excess (d\<lparr>assets := ix\<rparr>) = excess d" by (simp add: excess_def core_held_def fun_eq_iff)
qed

lemma asset_create_apply_effect:
  assumes F: "fc_lib_ok F" and ok: "db_ok d" and run: "asset_create_do_apply F op (odd_fee, core) d = Inr (r, d')"
  shows "db_ok d'" and "excess d' a = excess d a + (if a = 0 then core - (if odd_fee then 1 else 0) else 0)"
proof -
  let ?hf = "odd_fee \<and> head_block_time d > HARDFORK_CORE_429_TIME"
  let ?x = "\<lparr>current_supply = 0, confidential_supply = 0, accumulated_fees = 0, fee_pool = core - (if ?hf then 1 else 0)\<rparr>"
  let ?m = "\<lambda>dd. rbind (of_option Overflow (safe_add F (current_supply dd) 1)) (\<lambda>s. Inr (dd\<lparr>current_supply := s\<rparr>))"
  obtain dyn dix where dyn: "ix_create ?x (asset_dyn_data d) = (dyn, dix)" by (cases "ix_create ?x (asset_dyn_data d)")
  note D = create_dyn_effect [OF ok dyn]
  let ?d = "d\<lparr>asset_dyn_data := dix\<rparr>"
  obtain d1 where d1: "(if odd_fee \<and> \<not> ?hf then modify_dyn_data 0 ?m ?d else Inr ?d) = Inr d1"
    and rest: "(let next_asset_id = next_id (assets d1);
             (bit, d2) = (case ac_bitasset_opts op of
                None \<Rightarrow> (None, d1)
              | Some opts \<Rightarrow> (case ix_create (new_bitasset next_asset_id opts (ac_is_prediction_market op)) (bitassets d1) of
                  (b, bix) \<Rightarrow> (Some b, d1\<lparr>bitassets := bix\<rparr>)))
         in case ix_create \<lparr>symbol = ac_symbol op, precision = ac_precision op, issuer = ac_issuer op,
                  options = set_exchange_asset next_asset_id (ac_common_options op), dynamic_asset_data_id = dyn,
                  bitasset_data_id = bit\<rparr> (assets d2) of
              (a, aix) \<Rightarrow> require (a = next_asset_id) Assert_failed (Inr (a, d2\<lparr>assets := aix\<rparr>))) = Inr (r, d')"
    using run by (auto simp: asset_create_do_apply_def fc_safe_simps [OF F] dyn)
  have 1: "db_ok d1 \<and> assets d1 = assets d \<and> index_find (asset_dyn_data d1) dyn = Some ?x \<and>
      (\<forall>a. excess d1 a = excess d a + (if a = 0 then core - (if odd_fee then 1 else 0) else 0))"
  proof (cases "odd_fee \<and> \<not> ?hf")
    case True
    then have m: "modify_dyn_data 0 ?m ?d = Inr d1" using d1 by simp
    obtain x x' ix where x: "?m x = Inr x'" "d1 = ?d\<lparr>asset_dyn_data := ix\<rparr>" "db_ok d1"
        "\<forall>a. excess d1 a = excess ?d a + (if a = 0 then held_in_dyn x' - held_in_dyn x + fee_pool x' - fee_pool x else 0)"
      using modify_core_effect [OF D(1) m] by blast
    have "x' = x\<lparr>current_supply := current_supply x + 1\<rparr>" using x(1) by (auto simp: fc_safe_simps [OF F])
    moreover have "index_find (asset_dyn_data d1) dyn = index_find dix dyn"
      using m D(4) by (auto simp: modify_dyn_data_def ix_modify_def)
    ultimately show ?thesis using x(2-4) True D(2,3) by (auto simp: held_in_dyn_def)
  next
    case False
    then have "d1 = ?d" using d1 by auto
    then show ?thesis using False D by auto
  qed
  obtain d2 bit where d2: "db_ok d2" "excess d2 = excess d1" "assets d2 = assets d1" "asset_dyn_data d2 = asset_dyn_data d1"
    and fin: "(case ix_create \<lparr>symbol = ac_symbol op, precision = ac_precision op, issuer = ac_issuer op,
                  options = set_exchange_asset (next_id (assets d1)) (ac_common_options op), dynamic_asset_data_id = dyn,
                  bitasset_data_id = bit\<rparr> (assets d2) of
              (a, aix) \<Rightarrow> require (a = next_id (assets d1)) Assert_failed (Inr (a, d2\<lparr>assets := aix\<rparr>))) = Inr (r, d')"
  proof (cases "ac_bitasset_opts op")
    case None
    then show thesis using rest 1 by (intro that [of d1 None]) (simp_all add: Let_def)
  next
    case (Some opts)
    obtain b bix where b: "ix_create (new_bitasset (next_id (assets d1)) opts (ac_is_prediction_market op)) (bitassets d1) = (b, bix)"
      by (cases "ix_create (new_bitasset (next_id (assets d1)) opts (ac_is_prediction_market op)) (bitassets d1)")
    show thesis
      using rest Some b create_bitasset_effect [OF conjunct1 [OF 1] b]
      by (intro that [of "d1\<lparr>bitassets := bix\<rparr>" "Some b"]) (simp_all add: Let_def new_bitasset_def)
  qed
  obtain i aix where i: "ix_create \<lparr>symbol = ac_symbol op, precision = ac_precision op, issuer = ac_issuer op,
                  options = set_exchange_asset (next_id (assets d1)) (ac_common_options op), dynamic_asset_data_id = dyn,
                  bitasset_data_id = bit\<rparr> (assets d2) = (i, aix)" "d' = d2\<lparr>assets := aix\<rparr>"
    using fin by (auto split: prod.splits)
  have "db_ok (d2\<lparr>assets := aix\<rparr>) \<and> excess (d2\<lparr>assets := aix\<rparr>) = excess d2"
    using create_asset_effect [OF d2(1) i(1), of ?x] 1 d2(3,4) D(5) by (simp add: held_in_dyn_def)
  then show "db_ok d'" "excess d' a = excess d a + (if a = 0 then core - (if odd_fee then 1 else 0) else 0)"
    using 1 d2(2) i(2) by simp_all
qed

interpretation asset_create: conserving_operation F S "asset_create_pay_fee F S" "asset_create_do_apply F op" for F S op
proof unfold_locales
  fix d fs s d1 r d2
  assume ok: "fc_lib_ok F" and fees: "\<not> skip_fee S" and d: "db_ok d" and p: "asset_create_pay_fee F S fs d = Inr (s, d1)"
    and a: "asset_create_do_apply F op s d1 = Inr (r, d2)"
  let ?c = "core_fee_paid fs"
  have s: "s = (odd ?c, ?c - ?c div 2)" and pc: "pay_core_fee F S (fee_paying_account_statistics fs) (?c - ?c div 2) d = Inr d1"
    using p by (auto simp: asset_create_pay_fee_def fc_safe_simps [OF ok])
  note P = pay_core_fee_effect [OF ok d fees pc]
  note A = asset_create_apply_effect [OF ok conjunct1 [OF P] a [unfolded s]]
  have "?c - ?c div 2 + (?c - ?c div 2 - (if odd ?c then 1 else 0)) = ?c"
    by (cases "odd ?c") (auto elim!: oddE evenE)
  then show "db_ok d2 \<and> (\<forall>a. excess d2 a = excess d a + if_asset a (mk_asset ?c 0))"
    using A P by auto
qed

section \<open>Properties\<close>

lemma symbol_chars_spec:
  "symbol_chars p s \<longleftrightarrow> (\<forall>c\<in>set s. is_upper c \<or> is_digit c \<or> c = CHR ''.'') \<and>
     length (filter (\<lambda>c. c = CHR ''.'') s) \<le> (if p then 0 else 1)"
proof (induction s arbitrary: p)
  case (Cons c s)
  have "\<not> is_upper (CHR ''.'')" "\<not> is_digit (CHR ''.'')" by code_simp+
  then show ?case using Cons by (auto simp: is_alpha_def)
qed simp

text \<open>\<^verbatim>\<open>is_valid_symbol\<close> accepts exactly the symbols of 3 to 16 characters made of capital letters,
  digits and at most one dot, that start with a letter, end with a letter or digit and do not start
  with BIT.\<close>

theorem is_valid_symbol_iff:
  "is_valid_symbol s \<longleftrightarrow>
     3 \<le> length s \<and> length s \<le> 16 \<and> take 3 s \<noteq> ''BIT'' \<and>
     (\<forall>c\<in>set s. is_upper c \<or> is_digit c \<or> c = CHR ''.'') \<and> length (filter (\<lambda>c. c = CHR ''.'') s) \<le> 1 \<and>
     is_upper (hd s) \<and> last s \<noteq> CHR ''.''"
proof (cases "s = []")
  case False
  have d: "\<not> is_alpha (CHR ''.'')" "\<not> is_alnum (CHR ''.'')" by code_simp+
  have dig: "\<not> is_alpha c" if "is_digit c" for c
    using that unfolding is_digit_def is_alpha_def is_upper_def is_lower_def by arith
  have m: "hd s \<in> set s" "last s \<in> set s" using False by simp_all
  show ?thesis
    using m d dig unfolding is_valid_symbol_def symbol_chars_spec GRAPHENE_MIN_ASSET_SYMBOL_LENGTH_def GRAPHENE_MAX_ASSET_SYMBOL_LENGTH_def
    by (auto simp: is_alpha_def is_alnum_def not_less)
qed (simp add: is_valid_symbol_def GRAPHENE_MIN_ASSET_SYMBOL_LENGTH_def)

theorem is_valid_symbol_iff_witness: "is_valid_symbol ''OPEN.USD2'' \<and> \<not> is_valid_symbol ''A.B.C'' \<and> \<not> is_valid_symbol ''BITUSD''"
  unfolding is_valid_symbol_iff by code_simp

text \<open>C18. Only the issuer issues, and never beyond the maximum: when an issue passes evaluation and is
  applied, the supply grows by exactly the amount, stays within \<^verbatim>\<open>max_supply\<close>, the receiver is authorized and gets the
  amount, no other balance moves and holdings stay in step with the supply of every asset.\<close>

theorem asset_issue_exact:
  assumes F: "fc_lib_ok F" and ok: "db_ok d" and ev: "asset_issue_do_evaluate F op d = Inr ()"
    and run: "asset_issue_do_apply F op d = Inr (u, d')"
  shows "\<exists>ao to x x'. let a = asset_id (ai_asset_to_issue op); n = amount (ai_asset_to_issue op) in
     index_find (assets d) a = Some ao \<and> issuer ao = ai_issuer op \<and> \<not> is_market_issued ao \<and>
     index_find (accounts d) (ai_issue_to_account op) = Some to \<and> is_authorized_asset d to a ao \<and>
     dyn_of d a = Some x \<and> dyn_of d' a = Some x' \<and> x' = x\<lparr>current_supply := current_supply x + n\<rparr> \<and>
     current_supply x' \<le> max_supply (options ao) \<and> db_ok d' \<and> excess d' = excess d \<and>
     (\<forall>ow b. balance_of d' ow b = balance_of d ow b + (if ow = ai_issue_to_account op \<and> b = a then n else 0))"
proof -
  note E = asset_issue_effect [OF F ok run]
  obtain d1 i where P: "adjust_balance F (ai_issue_to_account op) (ai_asset_to_issue op) d = Inr d1"
      "asset_dyn_id d1 (asset_id (ai_asset_to_issue op)) = Inr i"
      "modify_dyn_data i (\<lambda>x. rbind (of_option Overflow (safe_add F (current_supply x) (amount (ai_asset_to_issue op)))) (\<lambda>s. Inr (x\<lparr>current_supply := s\<rparr>))) d1 = Inr d'"
    using run by (auto simp: asset_issue_do_apply_def change_supply_def)
  have "balances d' = balances d1" using P(3) by (auto simp: modify_dyn_data_def)
  then have B: "balance_of d' ow b = balance_of d ow b +
      (if ow = ai_issue_to_account op \<and> b = asset_id (ai_asset_to_issue op) then amount (ai_asset_to_issue op) else 0)" for ow b
    using adjust_balance_effect(4) [OF F ok P(1), of ow b] balance_of_cong [of d' d1] by (auto simp: if_asset_def)
  obtain ao to x where V: "index_find (assets d) (asset_id (ai_asset_to_issue op)) = Some ao" "issuer ao = ai_issuer op" "\<not> is_market_issued ao"
      "index_find (accounts d) (ai_issue_to_account op) = Some to" "is_authorized_asset d to (asset_id (ai_asset_to_issue op)) ao"
      "index_find (asset_dyn_data d) (dynamic_asset_data_id ao) = Some x"
      "current_supply x + amount (ai_asset_to_issue op) \<le> max_supply (options ao)"
    using ev by (auto simp: asset_issue_do_evaluate_def fc_safe_simps [OF F])
  have "dyn_of d (asset_id (ai_asset_to_issue op)) = Some x" using V(1,6) by (simp add: dyn_of_def)
  then show ?thesis using V E B by (auto simp: Let_def)
qed

text \<open>C22. The issuer cannot take back what was given up: while an asset has supply, an update never brings back a
  permission bit the asset does not have, and a flag changes only where the permission of that bit is
  present; only the issuer updates, and no other asset changes.\<close>

theorem asset_update_permissions:
  assumes F: "fc_lib_ok F" and ok: "db_ok d" and ev: "asset_update_do_evaluate op d = Inr ()"
    and run: "asset_update_do_apply F op d = Inr (u, d')"
  shows "\<exists>a a' x. index_find (assets d) (au_asset_to_update op) = Some a \<and> index_find (assets d') (au_asset_to_update op) = Some a' \<and>
     dyn_of d (au_asset_to_update op) = Some x \<and> au_issuer op = issuer a \<and>
     (current_supply x \<noteq> 0 \<longrightarrow> (\<forall>n. bit (issuer_permissions (options a')) n \<longrightarrow> bit (issuer_permissions (options a)) n)) \<and>
     (\<forall>n. bit (flags (options a')) n \<noteq> bit (flags (options a)) n \<longrightarrow> bit (issuer_permissions (options a)) n) \<and>
     (\<forall>s. s \<noteq> au_asset_to_update op \<longrightarrow> index_find (assets d') s = index_find (assets d) s) \<and> excess d' = excess d"
proof -
  note E = asset_update_effect [OF F ok run]
  obtain a where a: "index_find (assets d) (au_asset_to_update op) = Some a"
    and A: "index_find (assets d') = (index_find (assets d))(au_asset_to_update op \<mapsto>
        a\<lparr>issuer := (case au_new_issuer op of None \<Rightarrow> issuer a | Some i \<Rightarrow> i), options := au_new_options op\<rparr>)" using E by blast
  obtain x where x: "index_find (asset_dyn_data d) (dynamic_asset_data_id a) = Some x" "au_issuer op = issuer a"
      "current_supply x \<noteq> 0 \<Longrightarrow> \<not> has_flag (issuer_permissions (au_new_options op)) (not (issuer_permissions (options a)))"
      "\<not> has_flag (xor (flags (au_new_options op)) (flags (options a))) (not (issuer_permissions (options a)))"
    using ev a by (auto simp: asset_update_do_evaluate_def)
  have mask: "\<not> has_flag (v :: 16 word) (not m) \<Longrightarrow> bit v n \<Longrightarrow> bit m n" for v m n
  proof -
    assume a: "\<not> has_flag v (not m)" and b: "bit v n"
    have "n < LENGTH(16)" using b bit_imp_le_length by blast
    moreover have "\<not> bit (and v (not m)) n" using a by (simp add: has_flag_def)
    ultimately show "bit m n" using b by (simp add: bit_and_iff bit_not_iff)
  qed
  show ?thesis
    using a A E x mask [OF x(3)] mask [OF x(4)]
    by (intro exI [of _ x] exI [of _ "a\<lparr>issuer := (case au_new_issuer op of None \<Rightarrow> issuer a | Some i \<Rightarrow> i), options := au_new_options op\<rparr>"] exI [of _ a])
      (auto simp: dyn_of_def bit_xor_iff)
qed

section \<open>Witnesses\<close>

definition sample_issue :: asset_issue_operation where
  "sample_issue = \<lparr>ai_fee = mk_asset 0 0, ai_issuer = 5, ai_asset_to_issue = mk_asset 200 1, ai_issue_to_account = 6\<rparr>"

theorem asset_issue_exact_witness:
  "\<exists>d'. asset_issue_do_apply fc_reference sample_issue sample_db = Inr ((), d') \<and> balance_of d' 6 1 = 900 \<and> excess d' = excess sample_db"
proof -
  have ev: "asset_issue_do_evaluate fc_reference sample_issue sample_db = Inr ()" by code_simp
  have "succeeds (asset_issue_do_apply fc_reference sample_issue sample_db)" by code_simp
  then obtain d' where d': "asset_issue_do_apply fc_reference sample_issue sample_db = Inr ((), d')" by (auto simp: succeeds_iff)
  from asset_issue_exact [OF fc_reference_ok sample_db_ok ev d'] have
    "excess d' = excess sample_db" "balance_of d' 6 1 = balance_of sample_db 6 1 + 200"
    unfolding Let_def by (auto simp: sample_issue_def simp del: One_nat_def)
  then show ?thesis using d' by (simp add: sample_balances del: One_nat_def)
qed

definition sample_update :: asset_update_operation where
  "sample_update = \<lparr>au_fee = mk_asset 0 0, au_issuer = 5, au_asset_to_update = 1, au_new_issuer = None, au_new_options = (sample_options 0x0C 1)\<lparr>issuer_permissions := 0x0D\<rparr>\<rparr>"

theorem asset_update_permissions_witness:
  "\<exists>d'. asset_update_do_apply fc_reference sample_update sample_db = Inr ((), d') \<and> index_find (assets d') 0 = index_find (assets sample_db) 0 \<and>
     \<not> bit (issuer_permissions (au_new_options sample_update)) 6 \<and> excess d' = excess sample_db"
proof -
  have ev: "asset_update_do_evaluate sample_update sample_db = Inr ()" by code_simp
  have "succeeds (asset_update_do_apply fc_reference sample_update sample_db)" by code_simp
  then obtain d' where d': "asset_update_do_apply fc_reference sample_update sample_db = Inr ((), d')" by (auto simp: succeeds_iff)
  from asset_update_permissions [OF fc_reference_ok sample_db_ok ev d'] have
    "excess d' = excess sample_db" "index_find (assets d') 0 = index_find (assets sample_db) 0"
    by (auto simp: sample_update_def)
  moreover have "\<not> bit (issuer_permissions (au_new_options sample_update)) 6" by code_simp
  ultimately show ?thesis using d' by blast
qed

end
