(* ===== verification/Bitassets.thy ===== *)
theory Bitassets
  imports Asset_Ops
begin

text \<open>
  Market-issued assets: the evaluation of \<^verbatim>\<open>asset_update_bitasset\<close> and of
  \<^verbatim>\<open>asset_update_feed_producers\<close>, the change of the options of a bitasset
  (\<^verbatim>\<open>asset_evaluator.cpp\<close>), and the median of the price feeds (\<^verbatim>\<open>asset_object.cpp\<close>).

  \<open>backing_ok\<close> is the rule all the checks on backing assets are for: a market-issued asset is
  backed by an existing asset, a chain of backing assets has at most two links (so there is no
  cycle), and an asset of the committee is backed by core, directly or in two links.

  \<^verbatim>\<open>std::nth_element\<close> only promises where the pivot ends up, so it is the argument \<open>nth_element\<close>
  with the hypothesis \<open>nth_element_ok\<close>.
\<close>

section \<open>Updating the options of a bitasset\<close>

fun rall :: "('a \<Rightarrow> unit result) \<Rightarrow> 'a list \<Rightarrow> unit result" where
  "rall f [] = Inr ()"
| "rall f (x # xs) = rbind (f x) (\<lambda>_. rall f xs)"

record asset_update_bitasset_operation =
  ub_fee :: asset
  ub_issuer :: nat
  ub_asset_to_update :: nat
  ub_new_options :: bitasset_options

definition asset_update_bitasset_validate :: "asset_update_bitasset_operation \<Rightarrow> unit result" where
  "asset_update_bitasset_validate op =
     require (amount (ub_fee op) \<ge> 0) Assert_failed (bitasset_options_validate (ub_new_options op))"

definition children_of :: "database \<Rightarrow> nat \<Rightarrow> asset_bitasset_data_object list" where
  "children_of d a = filter (\<lambda>b. short_backing_asset (bit_options b) = a) (map snd (objects (bitassets d)))"

definition check_children_of_bitasset ::
  "database \<Rightarrow> asset_update_bitasset_operation \<Rightarrow> asset_object \<Rightarrow> bool \<Rightarrow> unit result" where
  "check_children_of_bitasset d op new_backing_asset after_hf_922_931 =
     (if short_backing_asset (ub_new_options op) = 0 then Inr ()
      else rall (\<lambda>b. rbind (index_get (assets d) (bit_asset_id b)) (\<lambda>child.
             if after_hf_922_931
             then require (bit_asset_id b \<noteq> short_backing_asset (ub_new_options op)) Assert_failed
                  (require (issuer child \<noteq> GRAPHENE_COMMITTEE_ACCOUNT) Assert_failed
                  (require (\<not> is_market_issued new_backing_asset) Assert_failed (Inr ())))
             else Inr ())) (children_of d (ub_asset_to_update op)))"

text \<open>The checks on a new backing asset since hardfork 922/931, and before it, when only the old
  backing asset of a committee asset was checked.\<close>

definition check_backing_after ::
  "database \<Rightarrow> asset_update_bitasset_operation \<Rightarrow> asset_object \<Rightarrow> asset_bitasset_data_object \<Rightarrow> asset_object \<Rightarrow> unit result" where
  "check_backing_after d op asset_obj current new_backing =
     (let b = short_backing_asset (ub_new_options op)
      in require (b \<noteq> ub_asset_to_update op) Assert_failed
         (require (is_prediction_market current \<longrightarrow> precision asset_obj = precision new_backing) Assert_failed
         (rbind (if issuer asset_obj = GRAPHENE_COMMITTEE_ACCOUNT
                 then if is_market_issued new_backing
                      then rbind (bitasset_data d new_backing) (\<lambda>bb.
                           require (short_backing_asset (bit_options bb) = 0) Assert_failed
                           (check_children_of_bitasset d op new_backing True))
                      else require (b = 0) Assert_failed (Inr ())
                 else if b \<noteq> 0 then check_children_of_bitasset d op new_backing True else Inr ()) (\<lambda>_.
          if is_market_issued new_backing
          then rbind (bitasset_data d new_backing) (\<lambda>bb.
               if short_backing_asset (bit_options bb) = 0 then Inr ()
               else rbind (index_get (assets d) (short_backing_asset (bit_options bb))) (\<lambda>backing_backing.
                    require (\<not> is_market_issued backing_backing) Assert_failed (Inr ())))
          else Inr ()))))"

definition check_backing_before ::
  "database \<Rightarrow> asset_update_bitasset_operation \<Rightarrow> asset_object \<Rightarrow> asset_bitasset_data_object \<Rightarrow> asset_object \<Rightarrow> unit result" where
  "check_backing_before d op asset_obj current new_backing =
     rbind (if issuer asset_obj = GRAPHENE_COMMITTEE_ACCOUNT
            then rbind (if is_market_issued new_backing
                        then rbind (bitasset_data d new_backing) (\<lambda>_. check_children_of_bitasset d op new_backing False)
                        else Inr ()) (\<lambda>_.
                 rbind (index_get (assets d) (short_backing_asset (bit_options current))) (\<lambda>old_backing.
                 if is_market_issued old_backing
                 then rbind (bitasset_data d old_backing) (\<lambda>bb.
                      require (short_backing_asset (bit_options bb) = 0) Assert_failed (Inr ()))
                 else require (short_backing_asset (bit_options current) = 0) Assert_failed (Inr ())))
            else if short_backing_asset (ub_new_options op) \<noteq> 0
                 then check_children_of_bitasset d op new_backing False else Inr ()) (\<lambda>_.
     if is_market_issued new_backing
     then rbind (bitasset_data d new_backing) (\<lambda>bb.
          if short_backing_asset (bit_options bb) \<noteq> 0
          then rbind (index_get (assets d) (short_backing_asset (bit_options bb))) (\<lambda>_. Inr ())
          else Inr ())
     else Inr ())"

definition asset_update_bitasset_do_evaluate :: "asset_update_bitasset_operation \<Rightarrow> database \<Rightarrow> unit result" where
  "asset_update_bitasset_do_evaluate op d =
     rbind (index_get (assets d) (ub_asset_to_update op)) (\<lambda>asset_obj.
     require (is_market_issued asset_obj) Assert_failed
     (require (ub_issuer op = issuer asset_obj) Assert_failed
     (rbind (bitasset_data d asset_obj) (\<lambda>current.
      require (\<not> has_settlement current) Assert_failed
      (let after = next_maintenance_time d > HARDFORK_CORE_922_931_TIME
       in rbind (if short_backing_asset (ub_new_options op) \<noteq> short_backing_asset (bit_options current)
                 then rbind (index_get (asset_dyn_data d) (dynamic_asset_data_id asset_obj)) (\<lambda>dyn.
                      require (current_supply dyn = 0) Assert_failed
                      (rbind (index_get (assets d) (short_backing_asset (ub_new_options op))) (\<lambda>new_backing.
                       if after then check_backing_after d op asset_obj current new_backing
                       else check_backing_before d op asset_obj current new_backing)))
                 else Inr ()) (\<lambda>_.
          if after
          then require (feed_lifetime_sec (ub_new_options op) > block_interval (parameters d)) Assert_failed
               (require (force_settlement_delay_sec (ub_new_options op) > block_interval (parameters d)) Assert_failed (Inr ()))
          else Inr ()))))))"

section \<open>Price feeds\<close>

definition max_force_settlement_volume :: "fc_lib \<Rightarrow> asset_bitasset_data_object \<Rightarrow> int \<Rightarrow> int result" where
  "max_force_settlement_volume F b supply =
     (if maximum_force_settlement_volume (bit_options b) = 0 then Inr 0
      else if int (maximum_force_settlement_volume (bit_options b)) = GRAPHENE_100_PERCENT
      then of_option Overflow (safe_add F supply (force_settled_volume b))
      else share_of_uint128
             ((of_int (int64_wrap (supply + force_settled_volume b)) * of_nat (maximum_force_settlement_volume (bit_options b)))
                div of_int GRAPHENE_100_PERCENT))"

type_synonym nth_element = "(price_feed \<Rightarrow> price_feed \<Rightarrow> bool) \<Rightarrow> nat \<Rightarrow> price_feed list \<Rightarrow> price_feed list"

definition live_feeds :: "asset_bitasset_data_object \<Rightarrow> time \<Rightarrow> (time \<times> price_feed) list" where
  "live_feeds b now =
     filter (\<lambda>f. uint now - uint (fst f) < uint (feed_lifetime_sec (bit_options b)) \<and> fst f \<noteq> 0) (map snd (bit_feeds b))"

text \<open>The four fields in the order of \<^verbatim>\<open>GRAPHENE_PRICE_FEED_FIELDS\<close>; each partial sort starts from the
  order the one before left.\<close>

definition median_feed :: "nth_element \<Rightarrow> price_feed list \<Rightarrow> price_feed" where
  "median_feed N fs =
     (let n = length fs div 2;
          s1 = N (\<lambda>a b. price_less (settlement_price a) (settlement_price b)) n fs;
          s2 = N (\<lambda>a b. maintenance_collateral_ratio a < maintenance_collateral_ratio b) n s1;
          s3 = N (\<lambda>a b. maximum_short_squeeze_ratio a < maximum_short_squeeze_ratio b) n s2;
          s4 = N (\<lambda>a b. price_less (core_exchange_rate a) (core_exchange_rate b)) n s3
      in \<lparr>settlement_price = settlement_price (s1 ! n), core_exchange_rate = core_exchange_rate (s4 ! n),
          maintenance_collateral_ratio = maintenance_collateral_ratio (s2 ! n),
          maximum_short_squeeze_ratio = maximum_short_squeeze_ratio (s3 ! n)\<rparr>)"

definition update_median_feeds :: "nth_element \<Rightarrow> time \<Rightarrow> asset_bitasset_data_object \<Rightarrow> asset_bitasset_data_object" where
  "update_median_feeds N now b =
     (let live = live_feeds b now; pub = foldl min now (map fst live); fs = map snd live
      in if length fs < minimum_feeds (bit_options b)
         then b\<lparr>feed_cer_updated := False, current_feed_publication_time := now, current_feed := default_price_feed\<rparr>
         else let m = (if length fs = 1 then hd fs else median_feed N fs)
              in b\<lparr>current_feed_publication_time := pub,
                   feed_cer_updated := (feed_cer_updated b \<or> \<not> price_eq (core_exchange_rate (current_feed b)) (core_exchange_rate m)),
                   current_feed := m\<rparr>)"

definition update_bitasset_object_options ::
  "nth_element \<Rightarrow> asset_update_bitasset_operation \<Rightarrow> database \<Rightarrow> asset_object \<Rightarrow> asset_bitasset_data_object \<Rightarrow>
   asset_bitasset_data_object \<times> bool" where
  "update_bitasset_object_options N op d asset_to_update bdo =
     (let new = ub_new_options op;
          after_868 = next_maintenance_time d > HARDFORK_CORE_868_890_TIME;
          backing_changed = (after_868 \<and> short_backing_asset new \<noteq> short_backing_asset (bit_options bdo));
          should_update = (minimum_feeds new \<noteq> minimum_feeds (bit_options bdo) \<or>
             (after_868 \<and> feed_lifetime_sec new \<noteq> feed_lifetime_sec (bit_options bdo)) \<or> backing_changed);
          b1 = bdo\<lparr>bit_options := new\<rparr>;
          b2 = (if backing_changed
                then b1\<lparr>bit_feeds := (if has_flag (flags (options asset_to_update)) (or witness_fed_asset committee_fed_asset) then []
                       else map (\<lambda>(i, t, f). (i, t, f\<lparr>settlement_price := null_price\<rparr>)) (bit_feeds b1))\<rparr>
                else b1)
      in if should_update
         then let b3 = update_median_feeds N (head_block_time d) b2
              in (b3, if next_maintenance_time d > HARDFORK_CORE_935_TIME then \<not> price_feed_eq (current_feed bdo) (current_feed b3)
                      else after_868 \<and> \<not> price_eq (settlement_price (current_feed bdo)) (settlement_price (current_feed b3)))
         else (b2, False))"

record asset_update_feed_producers_operation =
  up_fee :: asset
  up_issuer :: nat
  up_asset_to_update :: nat
  up_new_feed_producers :: "nat list"

definition asset_update_feed_producers_do_evaluate :: "asset_update_feed_producers_operation \<Rightarrow> database \<Rightarrow> unit result" where
  "asset_update_feed_producers_do_evaluate op d =
     require (length (up_new_feed_producers op) \<le> maximum_asset_feed_publishers (parameters d)) Assert_failed
     (rbind (get_all (accounts d) (up_new_feed_producers op)) (\<lambda>_.
      rbind (index_get (assets d) (up_asset_to_update op)) (\<lambda>a.
      require (is_market_issued a) Assert_failed
      (require (\<not> has_flag (flags (options a)) committee_fed_asset) Assert_failed
      (require (\<not> has_flag (flags (options a)) witness_fed_asset) Assert_failed
      (rbind (bitasset_data d a) (\<lambda>_.
       require (issuer a = up_issuer op) Assert_failed (Inr ()))))))))"

text \<open>The new map of feeds: publishers that are dropped are erased, kept ones keep their feed, new
  ones start with an empty feed. The map is ordered by publisher.\<close>

definition replace_producers :: "nat list \<Rightarrow> (nat \<times> time \<times> price_feed) list \<Rightarrow> (nat \<times> time \<times> price_feed) list" where
  "replace_producers new feeds =
     (let kept = filter (\<lambda>f. fst f \<in> set new) feeds
      in foldl (\<lambda>fs p. if p \<in> fst ` set fs then fs else insort_key fst (p, 0, default_price_feed) fs) kept new)"

definition update_feed_producers_object ::
  "nth_element \<Rightarrow> asset_update_feed_producers_operation \<Rightarrow> database \<Rightarrow> asset_bitasset_data_object \<Rightarrow> asset_bitasset_data_object" where
  "update_feed_producers_object N op d b =
     update_median_feeds N (head_block_time d) (b\<lparr>bit_feeds := replace_producers (up_new_feed_producers op) (bit_feeds b)\<rparr>)"

section \<open>Backing assets\<close>

definition backing :: "database \<Rightarrow> nat \<Rightarrow> nat option" where
  "backing d a = Option.bind (index_find (assets d) a) (\<lambda>ao. Option.bind (bitasset_data_id ao) (\<lambda>i.
     map_option (\<lambda>b. short_backing_asset (bit_options b)) (index_find (bitassets d) i)))"

definition links_ok :: "database \<Rightarrow> bool" where
  "links_ok d \<longleftrightarrow>
     (\<forall>a ao i. index_find (assets d) a = Some ao \<and> bitasset_data_id ao = Some i \<longrightarrow>
        (\<exists>b. index_find (bitassets d) i = Some b \<and> bit_asset_id b = a)) \<and>
     (\<exists>ao. index_find (assets d) 0 = Some ao \<and> bitasset_data_id ao = None)"

definition depth_ok :: "database \<Rightarrow> bool" where
  "depth_ok d \<longleftrightarrow> (\<forall>a b. backing d a = Some b \<longrightarrow> index_find (assets d) b \<noteq> None \<and>
     (\<forall>c. backing d b = Some c \<longrightarrow> backing d c = None))"

definition committee_ok :: "database \<Rightarrow> bool" where
  "committee_ok d \<longleftrightarrow> (\<forall>a ao b. index_find (assets d) a = Some ao \<and> issuer ao = GRAPHENE_COMMITTEE_ACCOUNT \<and> backing d a = Some b \<longrightarrow>
     b = 0 \<or> backing d b = Some 0)"

definition backing_ok :: "database \<Rightarrow> bool" where
  "backing_ok d \<longleftrightarrow> links_ok d \<and> depth_ok d \<and> committee_ok d"

lemma backing_eq:
  "bitasset_data d ao = Inr b \<Longrightarrow> index_find (assets d) a = Some ao \<Longrightarrow> backing d a = Some (short_backing_asset (bit_options b))"
  by (auto simp: backing_def bitasset_data_def)

lemma backing_market_issued:
  assumes "links_ok d" and "index_find (assets d) a = Some ao"
  shows "is_market_issued ao \<longleftrightarrow> backing d a \<noteq> None"
proof (cases "bitasset_data_id ao")
  case None
  then show ?thesis using assms(2) by (simp add: backing_def is_market_issued_def)
next
  case (Some i)
  then have "\<exists>b. index_find (bitassets d) i = Some b" using assms unfolding links_ok_def by blast
  then show ?thesis using assms(2) Some by (auto simp: backing_def is_market_issued_def)
qed

lemma backing_core: "links_ok d \<Longrightarrow> backing d 0 = None"
  by (auto simp: links_ok_def backing_def)

lemma no_backing_cycle: "backing_ok d \<Longrightarrow> backing d a = Some b \<Longrightarrow> a \<noteq> b \<and> backing d b \<noteq> Some a"
  unfolding backing_ok_def depth_ok_def by (metis option.distinct(1))

lemma rall_Inr: "rall f xs = Inr () \<longleftrightarrow> (\<forall>x\<in>set xs. f x = Inr ())"
  by (induction xs) auto

text \<open>The children check since the hardfork, read on the state.\<close>

lemma check_children_spec:
  assumes ok: "ix_ok (bitassets d)" and l: "links_ok d" and c: "check_children_of_bitasset d op nb True = Inr ()"
    and b: "short_backing_asset (ub_new_options op) \<noteq> 0"
    and child: "backing d x = Some (ub_asset_to_update op)" "index_find (assets d) x = Some xo"
  shows "x \<noteq> short_backing_asset (ub_new_options op) \<and> issuer xo \<noteq> GRAPHENE_COMMITTEE_ACCOUNT \<and> \<not> is_market_issued nb"
proof -
  obtain i bd where i: "bitasset_data_id xo = Some i" "index_find (bitassets d) i = Some bd"
      "short_backing_asset (bit_options bd) = ub_asset_to_update op"
    using child by (auto simp: backing_def bind_eq_Some_conv)
  have x: "bit_asset_id bd = x" using l child(2) i unfolding links_ok_def by (metis option.inject)
  have "bd \<in> set (children_of d (ub_asset_to_update op))"
    using i(2,3) index_mem_iff [OF ok] by (force simp: children_of_def)
  then show ?thesis
    using c b x child(2) by (auto simp: check_children_of_bitasset_def rall_Inr index_get_def)
qed

lemma backing_cong:
  assumes "\<And>x. map_option bitasset_data_id (index_find (assets d') x) = map_option bitasset_data_id (index_find (assets d) x)"
    and "\<And>i. map_option (\<lambda>b. (bit_asset_id b, bit_options b)) (index_find (bitassets d') i) =
       map_option (\<lambda>b. (bit_asset_id b, bit_options b)) (index_find (bitassets d) i)"
  shows "backing d' = backing d" and "links_ok d' \<longleftrightarrow> links_ok d" and "depth_ok d' \<longleftrightarrow> depth_ok d"
proof -
  have B: "(\<exists>b. index_find (bitassets d') i = Some b \<and> P (bit_asset_id b) (bit_options b)) \<longleftrightarrow>
      (\<exists>b. index_find (bitassets d) i = Some b \<and> P (bit_asset_id b) (bit_options b))" for i P
    using assms(2) [of i] by (cases "index_find (bitassets d') i"; cases "index_find (bitassets d) i") auto
  have A: "(\<exists>ao. index_find (assets d') x = Some ao \<and> Q (bitasset_data_id ao)) \<longleftrightarrow>
      (\<exists>ao. index_find (assets d) x = Some ao \<and> Q (bitasset_data_id ao))" for x Q
    using assms(1) [of x] by (cases "index_find (assets d') x"; cases "index_find (assets d) x") auto
  have "backing d' x = Some c \<longleftrightarrow> backing d x = Some c" for x c
    using A [of x "\<lambda>m. \<exists>i. m = Some i \<and> (\<exists>b. index_find (bitassets d) i = Some b \<and> short_backing_asset (bit_options b) = c)"]
      B [of _ "\<lambda>_ p. short_backing_asset p = c"] by (auto simp: backing_def bind_eq_Some_conv)
  then show bk: "backing d' = backing d" by (metis ext not_None_eq)
  show "depth_ok d' \<longleftrightarrow> depth_ok d"
    using A [of _ "\<lambda>_. True"] unfolding depth_ok_def bk by (metis not_None_eq)
  have "links_ok e \<longleftrightarrow> (\<forall>a i. (\<exists>ao. index_find (assets e) a = Some ao \<and> bitasset_data_id ao = Some i) \<longrightarrow>
       (\<exists>b. index_find (bitassets e) i = Some b \<and> bit_asset_id b = a)) \<and>
     (\<exists>ao. index_find (assets e) 0 = Some ao \<and> bitasset_data_id ao = None)" for e
    unfolding links_ok_def by blast
  then show "links_ok d' \<longleftrightarrow> links_ok d"
    using A [of _ "\<lambda>m. m = Some _"] A [of 0 "\<lambda>m. m = None"] B [of _ "\<lambda>a _. a = _"] by simp
qed

text \<open>A new issuer of an existing asset.\<close>

lemma new_issuer_keeps_backing:
  assumes ok: "backing_ok d" and a: "index_find (assets d) s = Some a"
    and A: "index_find (assets d') = (index_find (assets d))(s \<mapsto> a')" and a': "bitasset_data_id a' = bitasset_data_id a"
    and B: "\<And>i. map_option (\<lambda>b. (bit_asset_id b, bit_options b)) (index_find (bitassets d') i) =
       map_option (\<lambda>b. (bit_asset_id b, bit_options b)) (index_find (bitassets d) i)"
    and iss: "issuer a' = issuer a \<or> validate_new_issuer d a (issuer a') = Inr ()"
  shows "backing_ok d'"
proof -
  have l: "links_ok d" using ok by (simp add: backing_ok_def)
  note C = backing_cong [of d' d, OF _ B]
  have m: "map_option bitasset_data_id (index_find (assets d') x) = map_option bitasset_data_id (index_find (assets d) x)" for x
    using a a' by (simp add: A)
  have "b = 0 \<or> backing d b = Some 0" if "issuer a' = GRAPHENE_COMMITTEE_ACCOUNT" "backing d s = Some b" for b
  proof (cases "issuer a' = issuer a")
    case True
    then show ?thesis using ok a that unfolding backing_ok_def committee_ok_def by metis
  next
    case False
    then have v: "validate_new_issuer d a GRAPHENE_COMMITTEE_ACCOUNT = Inr ()" using iss that(1) by simp
    have "is_market_issued a" using backing_market_issued [OF l a] that(2) by simp
    with v obtain bd bo where b: "bitasset_data d a = Inr bd" "index_find (assets d) (short_backing_asset (bit_options bd)) = Some bo"
        "if is_market_issued bo
         then \<exists>bb. bitasset_data d bo = Inr bb \<and> short_backing_asset (bit_options bb) = 0
         else short_backing_asset (bit_options bd) = 0"
      by (auto simp: validate_new_issuer_def split: if_splits)
    have "b = short_backing_asset (bit_options bd)" using backing_eq [OF b(1) a] that(2) by simp
    then show ?thesis using b backing_eq [of d bo _ b] by (auto split: if_splits)
  qed
  then have "committee_ok d'"
    using ok a unfolding backing_ok_def committee_ok_def C(1) [OF m] A by (auto split: if_splits)
  then show ?thesis using ok C(2,3) [OF m] by (simp add: backing_ok_def)
qed

text \<open>What the evaluation of a bitasset update guarantees about a changed backing asset.\<close>

lemma new_backing_checked:
  assumes ok: "db_ok d" and b: "backing_ok d" and hf: "next_maintenance_time d > HARDFORK_CORE_922_931_TIME"
    and ev: "asset_update_bitasset_do_evaluate op d = Inr ()"
    and a: "index_find (assets d) (ub_asset_to_update op) = Some ao"
    and ch: "backing d (ub_asset_to_update op) \<noteq> Some (short_backing_asset (ub_new_options op))"
  defines "s \<equiv> ub_asset_to_update op" and "n \<equiv> short_backing_asset (ub_new_options op)"
  shows "index_find (assets d) n \<noteq> None" and "n \<noteq> s"
    and "\<And>c. backing d n = Some c \<Longrightarrow> backing d c = None"
    and "issuer ao = GRAPHENE_COMMITTEE_ACCOUNT \<Longrightarrow> n = 0 \<or> backing d n = Some 0"
    and "\<And>x xo. backing d x = Some s \<Longrightarrow> index_find (assets d) x = Some xo \<Longrightarrow> n \<noteq> 0 \<Longrightarrow>
        x \<noteq> n \<and> issuer xo \<noteq> GRAPHENE_COMMITTEE_ACCOUNT \<and> backing d n = None"
proof -
  have l: "links_ok d" and iok: "ix_ok (bitassets d)" using b ok by (simp_all add: backing_ok_def db_ok_def assets_ok_def)
  obtain cur where cur: "bitasset_data d ao = Inr cur" using ev a by (auto simp: asset_update_bitasset_do_evaluate_def)
  have "short_backing_asset (bit_options cur) \<noteq> n" using ch backing_eq [OF cur a] by (simp add: n_def)
  then obtain nb where nb: "index_find (assets d) n = Some nb" and chk: "check_backing_after d op ao cur nb = Inr ()"
    using ev a hf cur by (auto simp: asset_update_bitasset_do_evaluate_def n_def Let_def split: if_splits)
  note mi = backing_market_issued [OF l nb]
  show "index_find (assets d) n \<noteq> None" using nb by simp
  show "n \<noteq> s" using chk by (simp add: check_backing_after_def n_def s_def Let_def)
  show "backing d c = None" if c: "backing d n = Some c" for c
  proof -
    obtain bb where bb: "bitasset_data d nb = Inr bb" "short_backing_asset (bit_options bb) = 0 \<or>
        (\<exists>co. index_find (assets d) (short_backing_asset (bit_options bb)) = Some co \<and> \<not> is_market_issued co)"
      using chk mi c by (auto simp: check_backing_after_def Let_def split: if_splits)
    then show ?thesis
      using backing_eq [OF bb(1) nb] c backing_core [OF l] backing_market_issued [OF l] by fastforce
  qed
  show "n = 0 \<or> backing d n = Some 0" if "issuer ao = GRAPHENE_COMMITTEE_ACCOUNT"
    using chk that backing_eq [of d nb _ n] nb by (auto simp: check_backing_after_def n_def Let_def split: if_splits)
  show "x \<noteq> n \<and> issuer xo \<noteq> GRAPHENE_COMMITTEE_ACCOUNT \<and> backing d n = None"
    if x: "backing d x = Some s" "index_find (assets d) x = Some xo" "n \<noteq> 0" for x xo
  proof -
    have "check_children_of_bitasset d op nb True = Inr ()"
      using chk x(3) by (auto simp: check_backing_after_def n_def Let_def split: if_splits)
    from check_children_spec [OF iok l this _ x(1) [unfolded s_def] x(2)] x(3) mi show ?thesis by (simp add: n_def)
  qed
qed

lemma update_bitasset_keeps_backing:
  assumes ok: "db_ok d" and bok: "backing_ok d" and hf: "next_maintenance_time d > HARDFORK_CORE_922_931_TIME"
    and ev: "asset_update_bitasset_do_evaluate op d = Inr ()"
    and a: "index_find (assets d) (ub_asset_to_update op) = Some ao" "bitasset_data_id ao = Some i"
    and A: "assets d' = assets d" and B: "index_find (bitassets d') = (index_find (bitassets d))(i \<mapsto> bd)"
    and bd: "bit_options bd = ub_new_options op" "bit_asset_id bd = ub_asset_to_update op"
  shows "backing_ok d'"
proof -
  let ?s = "ub_asset_to_update op" and ?n = "short_backing_asset (ub_new_options op)"
  have l: "links_ok d" and dep: "depth_ok d" and com: "committee_ok d" using bok by (simp_all add: backing_ok_def)
  have own: "x = ?s" if x: "index_find (assets d) x = Some xo" "bitasset_data_id xo = Some i" for x xo
  proof -
    obtain b b' where "index_find (bitassets d) i = Some b" "bit_asset_id b = x"
        "index_find (bitassets d) i = Some b'" "bit_asset_id b' = ?s"
      using l a x unfolding links_ok_def by blast
    then show ?thesis by simp
  qed
  have bk: "backing d' = (backing d)(?s \<mapsto> ?n)"
  proof (rule ext)
    fix x show "backing d' x = ((backing d)(?s \<mapsto> ?n)) x"
    proof (cases "x = ?s")
      case True
      then show ?thesis using a by (simp add: backing_def A B bd)
    next
      case False
      then have "bitasset_data_id xo \<noteq> Some i" if "index_find (assets d) x = Some xo" for xo using own that by blast
      then show ?thesis
        using False by (cases "index_find (assets d) x"; cases "bitasset_data_id (the (index_find (assets d) x))") (auto simp: backing_def A B)
    qed
  qed
  have "\<exists>b. index_find (bitassets d') j = Some b \<and> bit_asset_id b = x"
    if "index_find (assets d) x = Some xo" "bitasset_data_id xo = Some j" for x xo j
  proof (cases "j = i")
    case True
    then show ?thesis using own that bd(2) by (simp add: B)
  next
    case False
    then show ?thesis using l that by (simp add: B links_ok_def)
  qed
  then have links: "links_ok d'" using l unfolding links_ok_def A by blast
  obtain b0 where "index_find (bitassets d) i = Some b0" using l a unfolding links_ok_def by blast
  then have "backing d ?s = Some (short_backing_asset (bit_options b0))" using a by (simp add: backing_def)
  then obtain old where old: "backing d ?s = Some old" by blast
  show ?thesis
  proof (cases "old = ?n")
    case True
    then have e: "backing d' = backing d" using old bk by auto
    show ?thesis using links dep com unfolding backing_ok_def depth_ok_def committee_ok_def A e by (intro conjI)
  next
    case False
    then have "backing d ?s \<noteq> Some ?n" using old by simp
    note N = new_backing_checked [OF ok bok hf ev a(1) this]
    have D: "index_find (assets d) y \<noteq> None \<and> (\<forall>c. backing d' y = Some c \<longrightarrow> backing d' c = None)" if "backing d' x = Some y" for x y
    proof (cases "x = ?s")
      case True
      then have y: "y = ?n" using that by (simp add: bk)
      have "c \<noteq> ?s" if "backing d ?n = Some c" for c
        using N(5) [of ?n] that N(1) backing_core [OF l] by force
      then show ?thesis using N(1-3) by (auto simp: y bk)
    next
      case False
      then have xy: "backing d x = Some y" using that by (simp add: bk)
      then obtain xo where xo: "index_find (assets d) x = Some xo" by (auto simp: backing_def bind_eq_Some_conv)
      show ?thesis
      proof (cases "y = ?s")
        case True
        then have "backing d ?n = None" using N(5) [OF xy [unfolded True] xo] backing_core [OF l] by (cases "?n = 0") auto
        then show ?thesis using True a(1) N(2) by (simp add: bk)
      next
        case False
        have e: "index_find (assets d) y \<noteq> None" using dep xy unfolding depth_ok_def by blast
        have "backing d' c = None" if "backing d' y = Some c" for c
        proof -
          have "backing d y = Some c" using that False by (simp add: bk)
          then have "backing d c = None" using dep xy unfolding depth_ok_def by blast
          moreover from this have "c \<noteq> ?s" using old by (cases "c = ?s") auto
          ultimately show ?thesis by (simp add: bk)
        qed
        then show ?thesis using e by blast
      qed
    qed
    have C: "y = 0 \<or> backing d' y = Some 0"
      if x: "index_find (assets d) x = Some xo" "issuer xo = GRAPHENE_COMMITTEE_ACCOUNT" "backing d' x = Some y" for x xo y
    proof (cases "x = ?s")
      case True
      then show ?thesis using x a(1) N(2,4) by (auto simp: bk)
    next
      case False
      then have xy: "backing d x = Some y" using x(3) by (simp add: bk)
      then have "y = 0 \<or> backing d y = Some 0" using com x(1,2) unfolding committee_ok_def by blast
      then show ?thesis using N(5) [of x xo] xy x(1,2) by (cases "y = ?s"; cases "?n = 0") (auto simp: bk)
    qed
    show ?thesis using links D C unfolding backing_ok_def depth_ok_def committee_ok_def A by blast
  qed
qed

text \<open>What creating an asset adds to the state.\<close>

lemma asset_create_state:
  assumes F: "fc_lib_ok F" and ok: "db_ok d" and run: "asset_create_do_apply F op fee d = Inr (r, d')"
  shows "next_maintenance_time d' = next_maintenance_time d \<and> head_block_time d' = head_block_time d \<and> parameters d' = parameters d \<and> limit_orders d' = limit_orders d \<and> call_orders d' = call_orders d \<and>
     collateral_bids d' = collateral_bids d \<and> index_find (assets d) r = None \<and>
     (\<exists>ao. index_find (assets d') = (index_find (assets d))(r \<mapsto> ao) \<and> issuer ao = ac_issuer op \<and>
       options ao = set_exchange_asset r (ac_common_options op) \<and>
       (case ac_bitasset_opts op of
          None \<Rightarrow> bitasset_data_id ao = None \<and> bitassets d' = bitassets d
        | Some opts \<Rightarrow> (\<exists>i. bitasset_data_id ao = Some i \<and> index_find (bitassets d) i = None \<and>
            index_find (bitassets d') = (index_find (bitassets d))(i \<mapsto> new_bitasset r opts (ac_is_prediction_market op)))))"
proof -
  have aok: "ix_ok (assets d)" "ix_ok (bitassets d)" using ok by (simp_all add: db_ok_def assets_ok_def)
  obtain odd_fee core where fee: "fee = (odd_fee, core)" by (cases fee)
  let ?hf = "odd_fee \<and> head_block_time d > HARDFORK_CORE_429_TIME"
  let ?x = "\<lparr>current_supply = 0, confidential_supply = 0, accumulated_fees = 0, fee_pool = core - (if ?hf then 1 else 0)\<rparr>"
  let ?m = "\<lambda>dd. rbind (of_option Overflow (safe_add F (current_supply dd) 1)) (\<lambda>s. Inr (dd\<lparr>current_supply := s\<rparr>))"
  obtain dyn dix where dyn: "ix_create ?x (asset_dyn_data d) = (dyn, dix)" by (cases "ix_create ?x (asset_dyn_data d)")
  obtain d1 where m: "(if odd_fee \<and> \<not> ?hf then modify_dyn_data 0 ?m (d\<lparr>asset_dyn_data := dix\<rparr>) else Inr (d\<lparr>asset_dyn_data := dix\<rparr>)) = Inr d1"
    and rest: "(let next_asset_id = next_id (assets d1);
             (bit, d2) = (case ac_bitasset_opts op of
                None \<Rightarrow> (None, d1)
              | Some opts \<Rightarrow> (case ix_create (new_bitasset next_asset_id opts (ac_is_prediction_market op)) (bitassets d1) of
                  (b, bix) \<Rightarrow> (Some b, d1\<lparr>bitassets := bix\<rparr>)))
         in case ix_create \<lparr>symbol = ac_symbol op, precision = ac_precision op, issuer = ac_issuer op,
                  options = set_exchange_asset next_asset_id (ac_common_options op), dynamic_asset_data_id = dyn,
                  bitasset_data_id = bit\<rparr> (assets d2) of
              (a, aix) \<Rightarrow> require (a = next_asset_id) Assert_failed (Inr (a, d2\<lparr>assets := aix\<rparr>))) = Inr (r, d')"
    using run by (auto simp: asset_create_do_apply_def fc_safe_simps [OF F] dyn fee)
  have d1: "assets d1 = assets d" "bitassets d1 = bitassets d" "next_maintenance_time d1 = next_maintenance_time d"
      "head_block_time d1 = head_block_time d" "parameters d1 = parameters d" "limit_orders d1 = limit_orders d" "call_orders d1 = call_orders d" "collateral_bids d1 = collateral_bids d"
    using m by (auto simp: modify_dyn_data_def split: if_splits)
  show ?thesis
  proof (cases "ac_bitasset_opts op")
    case None
    obtain i aix where i: "ix_create \<lparr>symbol = ac_symbol op, precision = ac_precision op, issuer = ac_issuer op,
                  options = set_exchange_asset (next_id (assets d)) (ac_common_options op), dynamic_asset_data_id = dyn,
                  bitasset_data_id = None\<rparr> (assets d) = (i, aix)" "r = i" "d' = d1\<lparr>assets := aix\<rparr>"
      using rest None by (auto simp: Let_def d1 split: prod.splits)
    show ?thesis using ix_create_facts [OF aok(1) i(1)] i(2,3) d1 None by auto
  next
    case (Some opts)
    let ?b = "new_bitasset (next_id (assets d)) opts (ac_is_prediction_market op)"
    obtain b bix where b: "ix_create ?b (bitassets d) = (b, bix)" by (cases "ix_create ?b (bitassets d)")
    obtain i aix where i: "ix_create \<lparr>symbol = ac_symbol op, precision = ac_precision op, issuer = ac_issuer op,
                  options = set_exchange_asset (next_id (assets d)) (ac_common_options op), dynamic_asset_data_id = dyn,
                  bitasset_data_id = Some b\<rparr> (assets d) = (i, aix)" "r = i" "d' = d1\<lparr>bitassets := bix, assets := aix\<rparr>"
      using rest Some b by (auto simp: Let_def d1 split: prod.splits)
    show ?thesis using ix_create_facts [OF aok(1) i(1)] ix_create_facts [OF aok(2) b] i(2,3) d1 Some by auto
  qed
qed

lemma asset_create_keeps_backing:
  assumes F: "fc_lib_ok F" and ok: "db_ok d" and bok: "backing_ok d" and ev: "asset_create_do_evaluate op d = Inr ()"
    and run: "asset_create_do_apply F op fee d = Inr (r, d')"
  shows "backing_ok d'"
proof -
  have l: "links_ok d" and dep: "depth_ok d" and com: "committee_ok d" using bok by (simp_all add: backing_ok_def)
  obtain ao where new: "index_find (assets d) r = None" and A: "index_find (assets d') = (index_find (assets d))(r \<mapsto> ao)" "issuer ao = ac_issuer op"
    and B: "case ac_bitasset_opts op of
          None \<Rightarrow> bitasset_data_id ao = None \<and> bitassets d' = bitassets d
        | Some opts \<Rightarrow> (\<exists>i. bitasset_data_id ao = Some i \<and> index_find (bitassets d) i = None \<and>
            index_find (bitassets d') = (index_find (bitassets d))(i \<mapsto> new_bitasset r opts (ac_is_prediction_market op)))"
    using asset_create_state [OF F ok run] by blast
  have r0: "r \<noteq> 0" using new l unfolding links_ok_def by (cases "r = 0") auto
  have bnone: "backing d r = None" using new by (simp add: backing_def)
  have keep: "\<exists>b. index_find (bitassets d') i = Some b \<and> bit_asset_id b = x"
    if "index_find (bitassets d) i = Some b" "bit_asset_id b = x" for i b x
    using that B by (auto split: option.splits)
  let ?n = "map_option short_backing_asset (ac_bitasset_opts op)"
  have bk: "backing d' = (backing d)(r := ?n)"
  proof (rule ext)
    fix x show "backing d' x = ((backing d)(r := ?n)) x"
    proof (cases "x = r")
      case True
      then show ?thesis using A B by (auto simp: backing_def new_bitasset_def split: option.splits)
    next
      case False
      have "index_find (bitassets d') i = index_find (bitassets d) i" if x: "index_find (assets d) x = Some xo" "bitasset_data_id xo = Some i" for xo i
      proof (cases "ac_bitasset_opts op")
        case None
        then show ?thesis using B by simp
      next
        case (Some opts)
        obtain b where "index_find (bitassets d) i = Some b" using l x unfolding links_ok_def by blast
        then show ?thesis using B Some by auto
      qed
      then show ?thesis
        using False by (cases "index_find (assets d) x"; cases "bitasset_data_id (the (index_find (assets d) x))") (simp_all add: backing_def A(1))
    qed
  qed
  have "\<exists>b. index_find (bitassets d') i = Some b \<and> bit_asset_id b = x"
    if x: "index_find (assets d') x = Some xo" "bitasset_data_id xo = Some i" for x xo i
  proof (cases "x = r")
    case True
    then show ?thesis using x B by (auto simp: A(1) new_bitasset_def split: option.splits)
  next
    case False
    then have "index_find (assets d) x = Some xo" using x(1) by (simp add: A(1))
    then obtain b where "index_find (bitassets d) i = Some b" "bit_asset_id b = x"
      using l x(2) unfolding links_ok_def by blast
    then show ?thesis by (rule keep)
  qed
  moreover have "\<exists>co. index_find (assets d') 0 = Some co \<and> bitasset_data_id co = None" using l r0 by (simp add: links_ok_def A(1))
  ultimately have links: "links_ok d'" unfolding links_ok_def by blast
  have N: "\<exists>bo. index_find (assets d) n = Some bo \<and> (\<forall>c. backing d n = Some c \<longrightarrow> backing d c = None) \<and>
      (ac_issuer op = GRAPHENE_COMMITTEE_ACCOUNT \<longrightarrow> n = 0 \<or> backing d n = Some 0)" if n: "?n = Some n" for n
  proof -
    obtain opts where opts: "ac_bitasset_opts op = Some opts" "short_backing_asset opts = n" using n by auto
    then have chk: "check_new_backing op opts d = Inr ()" using ev by (auto simp: asset_create_do_evaluate_def)
    then obtain bo where bo: "index_find (assets d) n = Some bo" using opts(2) by (auto simp: check_new_backing_def)
    show ?thesis
    proof (cases "is_market_issued bo")
      case True
      then obtain bb co where bb: "bitasset_data d bo = Inr bb" "index_find (assets d) (short_backing_asset (bit_options bb)) = Some co"
          "\<not> is_market_issued co" "ac_issuer op \<noteq> GRAPHENE_COMMITTEE_ACCOUNT \<or> short_backing_asset (bit_options bb) = 0"
        using chk bo opts(2) by (auto simp: check_new_backing_def)
      then show ?thesis
        using bo backing_eq [OF bb(1) bo] backing_market_issued [OF l bb(2)] by auto
    next
      case False
      then show ?thesis using chk bo opts(2) backing_market_issued [OF l bo] by (auto simp: check_new_backing_def)
    qed
  qed
  have old: "index_find (assets d) y \<noteq> None" "y \<noteq> r" if "backing d x = Some y" for x y
  proof -
    show "index_find (assets d) y \<noteq> None" using dep that unfolding depth_ok_def by blast
    then show "y \<noteq> r" using new by (cases "y = r") auto
  qed
  have D: "index_find (assets d') y \<noteq> None \<and> (\<forall>c. backing d' y = Some c \<longrightarrow> backing d' c = None)" if "backing d' x = Some y" for x y
  proof -
    have "index_find (assets d) y \<noteq> None \<and> (\<forall>c. backing d y = Some c \<longrightarrow> backing d c = None)"
    proof (cases "x = r")
      case True
      then show ?thesis using N [of y] that by (auto simp: bk)
    next
      case False
      then show ?thesis using dep that unfolding depth_ok_def bk by (metis fun_upd_other)
    qed
    moreover from this have "y \<noteq> r" using new by (cases "y = r") auto
    moreover have "c \<noteq> r" if "backing d y = Some c" for c using old(2) that by blast
    ultimately show ?thesis unfolding bk A(1) by (metis fun_upd_apply option.distinct(1))
  qed
  have C: "y = 0 \<or> backing d' y = Some 0"
    if x: "index_find (assets d') x = Some xo" "issuer xo = GRAPHENE_COMMITTEE_ACCOUNT" "backing d' x = Some y" for x xo y
  proof -
    have "y = 0 \<or> backing d y = Some 0"
    proof (cases "x = r")
      case True
      then show ?thesis using N [of y] x A(2) by (auto simp: bk A(1))
    next
      case False
      then show ?thesis using com x unfolding committee_ok_def bk A(1) by (metis fun_upd_other)
    qed
    then show ?thesis using bnone by (cases "y = r") (auto simp: bk)
  qed
  show ?thesis using links D C unfolding backing_ok_def depth_ok_def committee_ok_def by blast
qed

section \<open>The asset operations as steps\<close>

definition asset_update_bitasset_options :: "nth_element \<Rightarrow> asset_update_bitasset_operation \<Rightarrow> database \<Rightarrow> database result" where
  "asset_update_bitasset_options N op d =
     rbind (index_get (assets d) (ub_asset_to_update op)) (\<lambda>a.
     rbind (of_option Assert_failed (bitasset_data_id a)) (\<lambda>i.
     modify_bitasset i (\<lambda>b. fst (update_bitasset_object_options N op d a b)) d))"

definition asset_update_feed_producers_map :: "nth_element \<Rightarrow> asset_update_feed_producers_operation \<Rightarrow> database \<Rightarrow> database result" where
  "asset_update_feed_producers_map N op d =
     rbind (index_get (assets d) (up_asset_to_update op)) (\<lambda>a.
     rbind (of_option Assert_failed (bitasset_data_id a)) (\<lambda>i.
     modify_bitasset i (update_feed_producers_object N op d) d))"

inductive asset_step :: "fc_lib \<Rightarrow> nth_element \<Rightarrow> database \<Rightarrow> database \<Rightarrow> bool" for F N where
  create: "asset_create_do_evaluate op d = Inr () \<Longrightarrow> asset_create_do_apply F op fee d = Inr (r, d') \<Longrightarrow> asset_step F N d d'"
| update: "asset_update_do_evaluate op d = Inr () \<Longrightarrow> asset_update_do_apply F op d = Inr (u, d') \<Longrightarrow> asset_step F N d d'"
| issuer: "asset_update_issuer_do_evaluate op d = Inr () \<Longrightarrow> asset_update_issuer_do_apply op d = Inr (u, d') \<Longrightarrow> asset_step F N d d'"
| bitasset: "next_maintenance_time d > HARDFORK_CORE_922_931_TIME \<Longrightarrow> asset_update_bitasset_do_evaluate op d = Inr () \<Longrightarrow>
    asset_update_bitasset_options N op d = Inr d' \<Longrightarrow> asset_step F N d d'"
| producers: "asset_update_feed_producers_do_evaluate op d = Inr () \<Longrightarrow> asset_update_feed_producers_map N op d = Inr d' \<Longrightarrow> asset_step F N d d'"
| time: "asset_step F N d (d\<lparr>head_block_time := t, next_maintenance_time := m\<rparr>)"

lemma modify_bitasset_find:
  assumes ok: "db_ok d" and run: "modify_bitasset i m d = Inr d'"
  shows "db_ok d' \<and> assets d' = assets d \<and> (\<exists>b. index_find (bitassets d) i = Some b \<and>
     index_find (bitassets d') = (index_find (bitassets d))(i \<mapsto> m b))"
proof -
  obtain ix where ix: "ix_modify i (\<lambda>a. Inr (m a)) (bitassets d) = Inr ix" "d' = d\<lparr>bitassets := ix\<rparr>"
    using run by (auto simp: modify_bitasset_def)
  have iok: "ix_ok (bitassets d)" using ok by (simp add: db_ok_def assets_ok_def)
  obtain a b where a: "index_find (bitassets d) i = Some a" "Inr (m a) = (Inr b :: asset_bitasset_data_object result)"
      "index_find ix = (index_find (bitassets d))(i \<mapsto> b)" "ix_ok ix"
    using ix_modifyE [OF iok ix(1)] by metis
  then show ?thesis using ok by (auto simp: db_ok_def assets_ok_def ix(2))
qed

lemma update_median_feeds_keeps [simp]:
  "bit_options (update_median_feeds N t b) = bit_options b" "bit_asset_id (update_median_feeds N t b) = bit_asset_id b"
  "settlement_fund (update_median_feeds N t b) = settlement_fund b" "bit_feeds (update_median_feeds N t b) = bit_feeds b"
  by (simp_all add: update_median_feeds_def Let_def)

lemma update_bitasset_object_keeps [simp]:
  "bit_options (fst (update_bitasset_object_options N op d a b)) = ub_new_options op"
  "bit_asset_id (fst (update_bitasset_object_options N op d a b)) = bit_asset_id b"
  by (simp_all add: update_bitasset_object_options_def Let_def)

lemma update_feed_producers_keeps [simp]:
  "bit_options (update_feed_producers_object N op d b) = bit_options b" "bit_asset_id (update_feed_producers_object N op d b) = bit_asset_id b"
  by (simp_all add: update_feed_producers_object_def)

lemma backing_ok_cong: "assets d' = assets d \<Longrightarrow> bitassets d' = bitassets d \<Longrightarrow> backing_ok d' = backing_ok d"
  by (simp add: backing_ok_def links_ok_def depth_ok_def committee_ok_def backing_def)

lemma same_options_keep_backing:
  assumes "backing_ok d" and "assets d' = assets d"
    and "\<And>i. map_option (\<lambda>b. (bit_asset_id b, bit_options b)) (index_find (bitassets d') i) =
       map_option (\<lambda>b. (bit_asset_id b, bit_options b)) (index_find (bitassets d) i)"
  shows "backing_ok d'"
proof -
  have "map_option bitasset_data_id (index_find (assets d') x) = map_option bitasset_data_id (index_find (assets d) x)" for x
    using assms(2) by simp
  note C = backing_cong [OF this assms(3)]
  show ?thesis using assms(1,2) C unfolding backing_ok_def committee_ok_def by simp
qed

lemma asset_step_keeps:
  assumes F: "fc_lib_ok F" and ok: "db_ok d" and b: "backing_ok d" and s: "asset_step F N d d'"
  shows "db_ok d' \<and> backing_ok d'"
  using s ok b
proof cases
  case (create op fee r)
  obtain odd_fee core where "fee = (odd_fee, core)" by (cases fee)
  then show ?thesis
    using asset_create_apply_effect(1) [OF F ok] asset_create_keeps_backing [OF F ok b create(1,2)] create(2) by blast
next
  case (update op u)
  note E = asset_update_effect [OF F ok update(2)]
  obtain a where a: "index_find (assets d) (au_asset_to_update op) = Some a"
    and A: "index_find (assets d') = (index_find (assets d))(au_asset_to_update op \<mapsto>
        a\<lparr>issuer := (case au_new_issuer op of None \<Rightarrow> issuer a | Some i \<Rightarrow> i), options := au_new_options op\<rparr>)"
    and B: "\<forall>j. map_option (\<lambda>b. (bit_asset_id b, bit_options b)) (index_find (bitassets d') j) =
        map_option (\<lambda>b. (bit_asset_id b, bit_options b)) (index_find (bitassets d) j)" using E by blast
  have "backing_ok d'"
    by (rule new_issuer_keeps_backing [OF b a A]) (use B update(1) a in \<open>auto simp: asset_update_do_evaluate_def split: option.splits\<close>)
  then show ?thesis using E by blast
next
  case (issuer op u)
  note E = asset_update_issuer_effect [OF ok issuer(2)]
  obtain a where a: "index_find (assets d) (ui_asset_to_update op) = Some a"
    and A: "index_find (assets d') = (index_find (assets d))(ui_asset_to_update op \<mapsto> a\<lparr>issuer := ui_new_issuer op\<rparr>)"
    and B: "bitassets d' = bitassets d" using E by blast
  have "backing_ok d'"
    by (rule new_issuer_keeps_backing [OF b a A]) (use B issuer(1) a in \<open>auto simp: asset_update_issuer_do_evaluate_def\<close>)
  then show ?thesis using E by blast
next
  case (bitasset op)
  obtain a i where a: "index_find (assets d) (ub_asset_to_update op) = Some a" "bitasset_data_id a = Some i"
    and m: "modify_bitasset i (\<lambda>b. fst (update_bitasset_object_options N op d a b)) d = Inr d'"
    using bitasset(3) by (auto simp: asset_update_bitasset_options_def)
  note E = modify_bitasset_find [OF ok m]
  obtain bo where bo: "index_find (bitassets d) i = Some bo"
    "index_find (bitassets d') = (index_find (bitassets d))(i \<mapsto> fst (update_bitasset_object_options N op d a bo))" using E by blast
  have "bit_asset_id bo = ub_asset_to_update op"
    using b a bo(1) unfolding backing_ok_def links_ok_def by (metis option.inject)
  then have "backing_ok d'"
    using E by (intro update_bitasset_keeps_backing [OF ok b bitasset(1,2) a _ bo(2)]) simp_all
  then show ?thesis using E by blast
next
  case (producers op)
  obtain a i where m: "modify_bitasset i (update_feed_producers_object N op d) d = Inr d'"
    using producers(2) by (auto simp: asset_update_feed_producers_map_def)
  note E = modify_bitasset_find [OF ok m]
  have "backing_ok d'" by (rule same_options_keep_backing [OF b]) (use E in auto)
  then show ?thesis using E by blast
next
  case (time t m)
  then show ?thesis using ok b backing_ok_cong [of d' d] by (simp add: db_ok_def balances_ok_def assets_ok_def)
qed

section \<open>Properties\<close>

text \<open>C8. Whatever sequence of asset operations (create, update, update of the issuer, of the
  options of a bitasset and of its feed producers) goes through, the rules on backing assets are kept, if the updates of the options of bitassets in it
  come after hardfork CORE-922-931 (the guard of the rule \<open>bitasset\<close> of \<open>asset_step\<close>; before it the code only logs a bad backing asset). The rules:
  every market-issued asset is backed by an existing other asset, no two assets back each other, the
  asset at the end of two backing links has no backing asset, and an asset of the committee
  is backed by core, directly or in two links.\<close>

theorem backing_rules_kept:
  assumes "fc_lib_ok F" and "db_ok d" and "backing_ok d" and "(asset_step F N)\<^sup>*\<^sup>* d d'"
  shows "db_ok d' \<and> backing_ok d' \<and> (\<forall>a ao b. index_find (assets d') a = Some ao \<and> backing d' a = Some b \<longrightarrow>
     index_find (assets d') b \<noteq> None \<and> a \<noteq> b \<and> backing d' b \<noteq> Some a \<and>
     (\<forall>c. backing d' b = Some c \<longrightarrow> backing d' c = None) \<and>
     (issuer ao = GRAPHENE_COMMITTEE_ACCOUNT \<longrightarrow> b = 0 \<or> backing d' b = Some 0))"
proof -
  have "db_ok d' \<and> backing_ok d'"
    using assms(4,2,3) by (induction rule: rtranclp_induct) (simp, blast dest: asset_step_keeps [OF assms(1)])
  then show ?thesis using no_backing_cycle unfolding backing_ok_def depth_ok_def committee_ok_def by blast
qed

definition sample_bitasset_options :: "nat \<Rightarrow> bitasset_options" where
  "sample_bitasset_options b = \<lparr>feed_lifetime_sec = 86400, minimum_feeds = 1, force_settlement_delay_sec = 86400,
     force_settlement_offset_percent = 0, maximum_force_settlement_volume = 2000, short_backing_asset = b\<rparr>"

definition sample_create :: asset_create_operation where
  "sample_create = \<lparr>ac_fee = mk_asset 0 0, ac_issuer = 5, ac_symbol = ''GOLD'', ac_precision = 4, ac_common_options = sample_options 0 1,
     ac_bitasset_opts = Some (sample_bitasset_options 0), ac_is_prediction_market = False\<rparr>"

lemma sample_backing_ok: "backing_ok sample_db"
  by (simp add: backing_ok_def links_ok_def depth_ok_def committee_ok_def backing_def sample_defs index_find_def upt_rec)

lemma sample_create_runs:
  "asset_create_do_evaluate sample_create sample_db = Inr ()" "succeeds (asset_create_do_apply fc_reference sample_create (False, 0) sample_db)"
  by (simp add: asset_create_do_evaluate_def sample_create_def symbol_available_def check_new_backing_def find_symbol_def dot_prefix_def
      sample_bitasset_options_def is_market_issued_def GRAPHENE_COMMITTEE_ACCOUNT_def hardfork_defs index_get_def index_find_def sample_defs upt_rec)
    (simp add: asset_create_do_apply_def sample_create_def ix_create_def succeeds_iff sample_defs Let_def in_int64_def)

theorem backing_rules_kept_witness:
  "\<exists>r d'. asset_create_do_apply fc_reference sample_create (False, 0) sample_db = Inr (r, d') \<and> r \<noteq> 0 \<and>
     backing d' r = Some 0 \<and> backing d' 0 = None"
proof -
  obtain r d' where d': "asset_create_do_apply fc_reference sample_create (False, 0) sample_db = Inr (r, d')"
    using sample_create_runs(2) by (auto simp: succeeds_iff)
  have s: "asset_step fc_reference (\<lambda>_ _ xs. xs) sample_db d'" by (rule asset_step.create [OF sample_create_runs(1) d'])
  have b: "backing_ok d'"
    using backing_rules_kept [OF fc_reference_ok sample_db_ok sample_backing_ok, of "\<lambda>_ _ xs. xs" d'] s by blast
  have "backing d' r = Some 0"
    using asset_create_state [OF fc_reference_ok sample_db_ok d']
    by (auto simp: sample_create_def backing_def new_bitasset_def sample_bitasset_options_def)
  then show ?thesis using d' b backing_core by (cases "r = 0") (auto simp: backing_ok_def)
qed

end
