(* ===== verification/Price_Feeds.thy ===== *)
theory Price_Feeds
  imports Complex_Main Bitassets "HOL-Library.Product_Lexorder" "HOL-Library.Multiset"
begin

text \<open>
  Publishing price feeds (\<^verbatim>\<open>asset_publish_feed_operation\<close> and its evaluator) and what the median of the
  feeds means. \<^verbatim>\<open>std::nth_element\<close> only promises where the pivot ends up, so it is the argument
  \<open>nth_element\<close> with the hypothesis \<open>nth_element_ok\<close>; \<open>sort_by\<close> is one function that meets it.
  The part of \<^verbatim>\<open>do_apply\<close> modelled here stores the feed and takes the median.
\<close>

section \<open>Publishing a feed\<close>

record asset_publish_feed_operation =
  pf_fee :: asset
  pf_publisher :: nat
  pf_asset_id :: nat
  pf_feed :: price_feed

definition asset_publish_feed_validate :: "fc_lib \<Rightarrow> asset_publish_feed_operation \<Rightarrow> unit result" where
  "asset_publish_feed_validate F op =
     require (amount (pf_fee op) \<ge> 0) Assert_failed
     (rbind (price_feed_validate F (pf_feed op)) (\<lambda>_.
      rbind (if \<not> price_is_null (core_exchange_rate (pf_feed op)) then price_validate (core_exchange_rate (pf_feed op)) else Inr ()) (\<lambda>_.
      require (\<not> price_is_null (settlement_price (pf_feed op)) \<and> \<not> price_is_null (core_exchange_rate (pf_feed op)) \<longrightarrow>
        asset_id (base (settlement_price (pf_feed op))) = asset_id (base (core_exchange_rate (pf_feed op)))) Assert_failed
      (require (\<not> price_is_null (settlement_price (pf_feed op))) Assert_failed
      (require (\<not> price_is_null (core_exchange_rate (pf_feed op))) Assert_failed
      (require (price_feed_is_for (pf_feed op) (pf_asset_id op)) Assert_failed (Inr ())))))))"

definition may_publish :: "asset_publish_feed_operation \<Rightarrow> asset_object \<Rightarrow> asset_bitasset_data_object \<Rightarrow> database \<Rightarrow> unit result" where
  "may_publish op a b d =
     (if has_flag (flags (options a)) witness_fed_asset
      then rbind (index_get (accounts d) GRAPHENE_WITNESS_ACCOUNT) (\<lambda>w.
           require (pf_publisher op \<in> set (active_account_auths w)) Assert_failed (Inr ()))
      else if has_flag (flags (options a)) committee_fed_asset
      then rbind (index_get (accounts d) GRAPHENE_COMMITTEE_ACCOUNT) (\<lambda>c.
           require (pf_publisher op \<in> set (active_account_auths c)) Assert_failed (Inr ()))
      else require (pf_publisher op \<in> fst ` set (bit_feeds b)) Assert_failed (Inr ()))"

definition asset_publish_feed_do_evaluate :: "asset_publish_feed_operation \<Rightarrow> database \<Rightarrow> unit result" where
  "asset_publish_feed_do_evaluate op d =
     rbind (index_get (assets d) (pf_asset_id op)) (\<lambda>a.
     require (is_market_issued a) Assert_failed
     (rbind (bitasset_data d a) (\<lambda>b.
      require (is_prediction_market b \<or> head_block_time d \<le> HARDFORK_CORE_216_TIME \<longrightarrow> \<not> has_settlement b) Assert_failed
      (require (asset_id (quote (settlement_price (pf_feed op))) = short_backing_asset (bit_options b)) Assert_failed
      (require (if head_block_time d > HARDFORK_480_TIME
                then price_is_null (core_exchange_rate (pf_feed op)) \<or> asset_id (quote (core_exchange_rate (pf_feed op))) = 0
                else price_is_null (settlement_price (pf_feed op)) \<or> price_is_null (core_exchange_rate (pf_feed op)) \<or>
                     asset_id (quote (settlement_price (pf_feed op))) = asset_id (quote (core_exchange_rate (pf_feed op)))) Assert_failed
      (may_publish op a b d))))))"

text \<open>\<^verbatim>\<open>a.feeds[o.publisher] = ...\<close> on a map ordered by publisher.\<close>

definition store_feed :: "nat \<Rightarrow> time \<Rightarrow> price_feed \<Rightarrow> (nat \<times> time \<times> price_feed) list \<Rightarrow> (nat \<times> time \<times> price_feed) list" where
  "store_feed p t f feeds = insort_key fst (p, t, f) (filter (\<lambda>x. fst x \<noteq> p) feeds)"

definition publish_feed_object ::
  "nth_element \<Rightarrow> asset_publish_feed_operation \<Rightarrow> database \<Rightarrow> asset_bitasset_data_object \<Rightarrow> asset_bitasset_data_object" where
  "publish_feed_object N op d b =
     update_median_feeds N (head_block_time d) (b\<lparr>bit_feeds := store_feed (pf_publisher op) (head_block_time d) (pf_feed op) (bit_feeds b)\<rparr>)"

section \<open>Orders and medians\<close>

definition strict_weak :: "('a \<Rightarrow> 'a \<Rightarrow> bool) \<Rightarrow> 'a set \<Rightarrow> bool" where
  "strict_weak lt A \<longleftrightarrow> (\<forall>a\<in>A. \<forall>b\<in>A. \<forall>c\<in>A. (lt a b \<longrightarrow> \<not> lt b a) \<and> (lt a c \<longrightarrow> lt a b \<or> lt b c))"

definition nth_element_ok :: "nth_element \<Rightarrow> bool" where
  "nth_element_ok N \<longleftrightarrow> (\<forall>lt n xs. n < length xs \<and> strict_weak lt (set xs) \<longrightarrow>
     mset (N lt n xs) = mset xs \<and> (\<forall>i<n. \<not> lt (N lt n xs ! n) (N lt n xs ! i)) \<and>
     (\<forall>i. n < i \<and> i < length xs \<longrightarrow> \<not> lt (N lt n xs ! i) (N lt n xs ! n)))"

text \<open>A value in the middle of a list.\<close>

definition is_median :: "('a \<Rightarrow> 'a \<Rightarrow> bool) \<Rightarrow> 'a \<Rightarrow> 'a list \<Rightarrow> bool" where
  "is_median lt v xs \<longleftrightarrow> v \<in> set xs \<and> length (filter (\<lambda>x. lt x v) xs) \<le> length xs div 2 \<and>
     length (filter (lt v) xs) \<le> length xs - 1 - length xs div 2"

text \<open>Sorting the whole range is one way to place the pivot.\<close>

fun insert_by :: "('a \<Rightarrow> 'a \<Rightarrow> bool) \<Rightarrow> 'a \<Rightarrow> 'a list \<Rightarrow> 'a list" where
  "insert_by lt x [] = [x]"
| "insert_by lt x (y # ys) = (if lt y x then y # insert_by lt x ys else x # y # ys)"

definition sorted_by :: "('a \<Rightarrow> 'a \<Rightarrow> bool) \<Rightarrow> 'a list \<Rightarrow> 'a list" where
  "sorted_by lt xs = foldr (insert_by lt) xs []"

definition sort_by :: nth_element where
  "sort_by lt n xs = sorted_by lt xs"

lemma insert_by_mset [simp]: "mset (insert_by lt x xs) = add_mset x (mset xs)"
  by (induction xs) auto

lemma insert_by_set [simp]: "set (insert_by lt x xs) = insert x (set xs)"
  by (induction xs) auto

lemma strict_weak_subset: "strict_weak lt B \<Longrightarrow> A \<subseteq> B \<Longrightarrow> strict_weak lt A"
  unfolding strict_weak_def by blast

lemma insert_by_sorted:
  "strict_weak lt (insert x (set xs)) \<Longrightarrow> sorted_wrt (\<lambda>a b. \<not> lt b a) xs \<Longrightarrow> sorted_wrt (\<lambda>a b. \<not> lt b a) (insert_by lt x xs)"
proof (induction xs)
  case (Cons y ys)
  have w: "strict_weak lt (insert x (set ys))" by (rule strict_weak_subset [OF Cons.prems(1)]) auto
  show ?case
  proof (cases "lt y x")
    case True
    then have "\<not> lt x y" using Cons.prems(1) unfolding strict_weak_def by (meson insertCI list.set_intros(1))
    then show ?thesis using True Cons.IH [OF w] Cons.prems(2) by simp
  next
    case False
    have "\<not> lt z x" if z: "z \<in> set ys" for z
    proof -
      have "\<not> lt z y" using Cons.prems(2) z by simp
      moreover have "x \<in> insert x (set (y # ys))" "y \<in> insert x (set (y # ys))" "z \<in> insert x (set (y # ys))" using z by auto
      then have "lt z x \<longrightarrow> lt z y \<or> lt y x" using Cons.prems(1) unfolding strict_weak_def by blast
      ultimately show ?thesis using False by blast
    qed
    then show ?thesis using False Cons.prems(2) by simp
  qed
qed simp

lemma sorted_by_mset [simp]: "mset (sorted_by lt xs) = mset xs"
  by (induction xs) (auto simp: sorted_by_def)

lemma sorted_by_sorted: "strict_weak lt (set xs) \<Longrightarrow> sorted_wrt (\<lambda>a b. \<not> lt b a) (sorted_by lt xs)"
proof (induction xs)
  case (Cons x xs)
  have "strict_weak lt (set xs)" by (rule strict_weak_subset [OF Cons.prems]) auto
  moreover have "set (sorted_by lt xs) = set xs" by (metis sorted_by_mset set_mset_mset)
  ultimately show ?case using Cons by (auto simp: sorted_by_def intro: insert_by_sorted)
qed (simp add: sorted_by_def)

lemma sorted_by_pivot:
  assumes "n < length xs" and "strict_weak lt (set xs)"
  shows "mset (sorted_by lt xs) = mset xs \<and> (\<forall>i<n. \<not> lt (sorted_by lt xs ! n) (sorted_by lt xs ! i)) \<and>
     (\<forall>i. n < i \<and> i < length xs \<longrightarrow> \<not> lt (sorted_by lt xs ! i) (sorted_by lt xs ! n))"
proof -
  have "length (sorted_by lt xs) = length xs" by (metis sorted_by_mset size_mset)
  then have "\<not> lt (sorted_by lt xs ! j) (sorted_by lt xs ! i)" if "i < j" "j < length xs" for i j
    using sorted_by_sorted [OF assms(2)] that by (simp add: sorted_wrt_iff_nth_less)
  then show ?thesis using assms(1) by simp
qed

lemma sort_by_ok: "nth_element_ok sort_by"
  unfolding nth_element_ok_def sort_by_def using sorted_by_pivot by blast

lemma strict_weak_key: "strict_weak (\<lambda>a b. f a < (f b :: 'k::linorder)) A"
  by (auto simp: strict_weak_def)

lemma strict_weak_cong:
  assumes "\<And>a b. a \<in> A \<Longrightarrow> b \<in> A \<Longrightarrow> lt a b \<longleftrightarrow> f a < (f b :: 'k::linorder)"
  shows "strict_weak lt A"
  using assms by (auto simp: strict_weak_def)

lemma filter_mset_length: "mset xs = mset ys \<Longrightarrow> length (filter P xs) = length (filter P ys)"
  by (metis mset_filter size_mset)

lemma pivot_is_median:
  assumes m: "mset ys = mset xs" and n: "length xs div 2 < length xs" and irr: "\<And>x. x \<in> set xs \<Longrightarrow> \<not> lt x x"
    and lo: "\<forall>i<length xs div 2. \<not> lt (ys ! (length xs div 2)) (ys ! i)"
    and hi: "\<forall>i. length xs div 2 < i \<and> i < length xs \<longrightarrow> \<not> lt (ys ! i) (ys ! (length xs div 2))"
  shows "is_median lt (ys ! (length xs div 2)) xs"
proof -
  let ?n = "length xs div 2"
  let ?v = "ys ! ?n"
  have len: "length ys = length xs" and s: "set ys = set xs" using m by (metis size_mset, metis set_mset_mset)
  have v: "?v \<in> set xs" using n len s by (metis nth_mem)
  have "ys ! i \<notin> {x. lt x ?v}" if "?n \<le> i" "i < length xs" for i
    using that hi irr [OF v] by (cases "i = ?n") auto
  then have "filter (\<lambda>x. lt x ?v) (drop ?n ys) = []"
    using len by (auto simp: filter_empty_conv in_set_conv_nth)
  then have "length (filter (\<lambda>x. lt x ?v) ys) = length (filter (\<lambda>x. lt x ?v) (take ?n ys))"
    by (metis append_Nil2 append_take_drop_id filter_append)
  also have "\<dots> \<le> ?n" by (metis length_filter_le length_take min.cobounded2 order_trans)
  finally have L: "length (filter (\<lambda>x. lt x ?v) xs) \<le> ?n" by (simp add: filter_mset_length [OF m])
  have "ys ! i \<notin> {x. lt ?v x}" if "i \<le> ?n" for i using that lo irr [OF v] by (cases "i = ?n") auto
  then have "filter (lt ?v) (take (Suc ?n) ys) = []"
    by (auto simp: filter_empty_conv in_set_conv_nth)
  then have "length (filter (lt ?v) ys) = length (filter (lt ?v) (drop (Suc ?n) ys))"
    by (metis append_Nil append_take_drop_id filter_append)
  also have "\<dots> \<le> length xs - Suc ?n" by (metis len length_drop length_filter_le)
  finally have "length (filter (lt ?v) xs) \<le> length xs - 1 - ?n" by (simp add: filter_mset_length [OF m])
  then show ?thesis using v L by (simp add: is_median_def)
qed

lemma nth_element_median:
  assumes N: "nth_element_ok N" and w: "strict_weak lt (set xs)" and n: "xs \<noteq> []" and ys: "mset ys = mset xs"
  shows "is_median lt (N lt (length xs div 2) ys ! (length xs div 2)) xs \<and> mset (N lt (length xs div 2) ys) = mset xs"
proof -
  have l: "length ys = length xs" and s: "set ys = set xs" using ys by (metis size_mset, metis set_mset_mset)
  have n': "length xs div 2 < length xs" using n by (cases xs) auto
  let ?zs = "N lt (length xs div 2) ys"
  have "mset ?zs = mset ys \<and> (\<forall>i<length xs div 2. \<not> lt (?zs ! (length xs div 2)) (?zs ! i)) \<and>
     (\<forall>i. length xs div 2 < i \<and> i < length xs \<longrightarrow> \<not> lt (?zs ! i) (?zs ! (length xs div 2)))"
    using N n' w l s unfolding nth_element_ok_def by (metis (no_types))
  moreover have "\<not> lt x x" if "x \<in> set xs" for x using w that by (auto simp: strict_weak_def)
  ultimately show ?thesis using pivot_is_median [of ?zs xs lt] n' ys by auto
qed

definition feed_price_ok :: "price \<Rightarrow> bool" where
  "feed_price_ok p \<longleftrightarrow> p = null_price \<or> price_ok p \<and> asset_id (base p) \<noteq> asset_id (quote p)"

definition price_key :: "price \<Rightarrow> nat \<times> nat \<times> rat" where
  "price_key p = (asset_id (base p), asset_id (quote p), of_int (amount (base p)) / of_int (amount (quote p)))"

lemma price_less_key:
  assumes "feed_price_ok a" and "feed_price_ok b"
  shows "price_less a b \<longleftrightarrow> price_key a < price_key b"
proof (cases "same_market a b")
  case True
  then have c: "a = null_price \<and> b = null_price \<or> price_ok a \<and> price_ok b"
    using assms by (auto simp: feed_price_ok_def same_market_def null_price_def)
  then show ?thesis
  proof
    assume "a = null_price \<and> b = null_price"
    then show ?thesis by (simp add: price_less_def)
  next
    assume p: "price_ok a \<and> price_ok b"
    then have pos: "(0::rat) < of_int (amount (quote a))" "(0::rat) < of_int (amount (quote b))" by (simp_all add: price_ok_def pos64_def)
    have "(of_int (amount (base a)) / of_int (amount (quote a)) :: rat) < of_int (amount (base b)) / of_int (amount (quote b)) \<longleftrightarrow>
        (of_int (amount (base a)) * of_int (amount (quote b)) :: rat) < of_int (amount (base b)) * of_int (amount (quote a))"
      using pos by (simp add: pos_divide_less_eq pos_less_divide_eq)
    also have "\<dots> \<longleftrightarrow> amount (base a) * amount (quote b) < amount (base b) * amount (quote a)"
      by (metis of_int_less_iff of_int_mult)
    finally have "amount (base a) * amount (quote b) < amount (base b) * amount (quote a) \<longleftrightarrow>
        (of_int (amount (base a)) / of_int (amount (quote a)) :: rat) < of_int (amount (base b)) / of_int (amount (quote b))" by simp
    then show ?thesis using p True by (simp add: price_less_cross price_key_def same_market_def)
  qed
next
  case False
  then show ?thesis by (auto simp: price_less_other_market price_key_def same_market_def)
qed


lemma strict_weak_field:
  assumes "\<And>f. f \<in> A \<Longrightarrow> feed_price_ok (g f)"
  shows "strict_weak (\<lambda>a b. price_less (g a) (g b)) A"
  using assms price_less_key by (intro strict_weak_cong [where f = "\<lambda>f. price_key (g f)"]) blast

lemma is_median_map: "is_median (\<lambda>a b. lt (g a) (g b)) v xs \<Longrightarrow> is_median lt (g v) (map g xs)"
  by (simp add: is_median_def filter_map comp_def)

lemma singleton_median: "\<not> lt x x \<Longrightarrow> is_median lt x [x]"
  by (simp add: is_median_def)

lemma price_less_irrefl: "feed_price_ok p \<Longrightarrow> \<not> price_less p p"
  by (simp add: price_less_key)

definition median_of_feeds :: "price_feed \<Rightarrow> price_feed list \<Rightarrow> bool" where
  "median_of_feeds m fs \<longleftrightarrow>
     is_median price_less (settlement_price m) (map settlement_price fs) \<and>
     is_median price_less (core_exchange_rate m) (map core_exchange_rate fs) \<and>
     is_median (<) (maintenance_collateral_ratio m) (map maintenance_collateral_ratio fs) \<and>
     is_median (<) (maximum_short_squeeze_ratio m) (map maximum_short_squeeze_ratio fs)"

lemma median_feed_correct:
  assumes N: "nth_element_ok N" and p: "\<And>f. f \<in> set fs \<Longrightarrow> feed_price_ok (settlement_price f) \<and> feed_price_ok (core_exchange_rate f)"
    and ne: "fs \<noteq> []"
  shows "median_of_feeds (median_feed N fs) fs"
proof -
  let ?n = "length fs div 2"
  let ?s1 = "N (\<lambda>a b. price_less (settlement_price a) (settlement_price b)) ?n fs"
  let ?s2 = "N (\<lambda>a b. maintenance_collateral_ratio a < maintenance_collateral_ratio b) ?n ?s1"
  let ?s3 = "N (\<lambda>a b. maximum_short_squeeze_ratio a < maximum_short_squeeze_ratio b) ?n ?s2"
  note M = nth_element_median [OF N _ ne]
  have 1: "is_median (\<lambda>a b. price_less (settlement_price a) (settlement_price b)) (?s1 ! ?n) fs \<and> mset ?s1 = mset fs"
    by (rule M [OF strict_weak_field]) (simp_all add: p)
  have 2: "is_median (\<lambda>a b. maintenance_collateral_ratio a < maintenance_collateral_ratio b) (?s2 ! ?n) fs \<and> mset ?s2 = mset fs"
    by (rule M [OF strict_weak_key]) (use 1 in simp)
  have 3: "is_median (\<lambda>a b. maximum_short_squeeze_ratio a < maximum_short_squeeze_ratio b) (?s3 ! ?n) fs \<and> mset ?s3 = mset fs"
    by (rule M [OF strict_weak_key]) (use 2 in simp)
  have 4: "is_median (\<lambda>a b. price_less (core_exchange_rate a) (core_exchange_rate b))
      (N (\<lambda>a b. price_less (core_exchange_rate a) (core_exchange_rate b)) ?n ?s3 ! ?n) fs"
    by (rule conjunct1 [OF M [OF strict_weak_field]]) (use 3 p in simp_all)
  show ?thesis using 1 2 3 4
    by (simp add: median_of_feeds_def median_feed_def Let_def is_median_map)
qed

lemma foldl_min_Min: "foldl min t xs = Min (insert t (set xs))" for t :: "'a::linorder"
proof (induction xs arbitrary: t)
  case (Cons x xs)
  have "Min (insert (min t x) (set xs)) = Min (insert t (insert x (set xs)))"
    by (cases "set xs = {}") (simp_all add: min.assoc)
  then show ?case using Cons by simp
qed simp


text \<open>The prices of the stored feeds are null or proper.\<close>

definition feeds_ok :: "asset_bitasset_data_object \<Rightarrow> bool" where
  "feeds_ok b \<longleftrightarrow> (\<forall>(p, t, f)\<in>set (bit_feeds b). feed_price_ok (settlement_price f) \<and> feed_price_ok (core_exchange_rate f))"

definition price_in_range :: "price \<Rightarrow> bool" where
  "price_in_range p \<longleftrightarrow> in_int64 (amount (base p)) \<and> in_int64 (amount (quote p))"

lemma live_feeds_ok:
  "feeds_ok b \<Longrightarrow> \<forall>f\<in>set (live_feeds b now). feed_price_ok (settlement_price (snd f)) \<and> feed_price_ok (core_exchange_rate (snd f))"
  by (fastforce simp: feeds_ok_def live_feeds_def)

lemma price_validate_ok: "price_validate p = Inr () \<Longrightarrow> price_in_range p \<Longrightarrow> feed_price_ok p"
  by (auto simp: price_validate_def feed_price_ok_def price_ok_def pos64_def price_in_range_def in_int64_def)

lemma null_feed_ok [simp]: "feed_price_ok null_price" "feed_price_ok (settlement_price default_price_feed)" "feed_price_ok (core_exchange_rate default_price_feed)"
  by (simp_all add: feed_price_ok_def default_price_feed_def)

lemma set_insort_feed: "set (insort_key fst x xs) = insert x (set xs)"
  by (rule set_insort_key)

lemma add_producers_set:
  "x \<in> set (foldl (\<lambda>fs p. if p \<in> fst ` set fs then fs else insort_key fst (p, t, f) fs) acc new) \<Longrightarrow> x \<in> set acc \<or> snd x = (t, f)"
proof (induction new arbitrary: acc)
  case (Cons p ps)
  then have "x \<in> set (if p \<in> fst ` set acc then acc else insort_key fst (p, t, f) acc) \<or> snd x = (t, f)" by simp
  then show ?case by (auto simp: set_insort_feed split: if_split_asm)
qed simp

lemma replace_producers_set: "x \<in> set (replace_producers new feeds) \<Longrightarrow> x \<in> set feeds \<or> snd x = (0, default_price_feed)"
  unfolding replace_producers_def Let_def using add_producers_set [of x 0 default_price_feed] by fastforce

section \<open>Properties\<close>

text \<open>C23. The current feed of a bitasset is the median of its live feeds, field by field: with enough
  live feeds each field is taken from one of them, at most half of them are below it and fewer than half
  above it, and the feed dates from the oldest of them; with too few live feeds the current feed is
  empty. No other part of the bitasset changes but the flag that the exchange rate has changed.\<close>

theorem median_feeds_correct:
  assumes N: "nth_element_ok N" and p: "\<forall>f\<in>set (live_feeds b now). feed_price_ok (settlement_price (snd f)) \<and> feed_price_ok (core_exchange_rate (snd f))"
    and m: "minimum_feeds (bit_options b) > 0"
  shows "let b' = update_median_feeds N now b; fs = map snd (live_feeds b now) in
     (if length fs < minimum_feeds (bit_options b)
      then current_feed b' = default_price_feed \<and> current_feed_publication_time b' = now
      else median_of_feeds (current_feed b') fs \<and> current_feed_publication_time b' = Min (insert now (fst ` set (live_feeds b now)))) \<and>
     b' = b\<lparr>current_feed := current_feed b', current_feed_publication_time := current_feed_publication_time b',
             feed_cer_updated := feed_cer_updated b'\<rparr>"
proof -
  let ?fs = "map snd (live_feeds b now)"
  have "median_of_feeds (current_feed (update_median_feeds N now b)) ?fs" if "\<not> length ?fs < minimum_feeds (bit_options b)"
  proof (cases "length ?fs = 1")
    case True
    then obtain f where f: "?fs = [f]" by (metis One_nat_def length_0_conv length_Suc_conv)
    then have "feed_price_ok (settlement_price f) \<and> feed_price_ok (core_exchange_rate f)"
      using p by (metis (mono_tags, lifting) image_iff list.set_intros(1) list.set_map)
    moreover have "length (live_feeds b now) = 1" using True by simp
    ultimately show ?thesis using that f True
      by (simp add: update_median_feeds_def Let_def median_of_feeds_def singleton_median price_less_irrefl)
  next
    case False
    have "?fs \<noteq> []" using that m by auto
    then have "median_of_feeds (median_feed N ?fs) ?fs" using p by (intro median_feed_correct [OF N]) auto
    then show ?thesis using that False by (simp add: update_median_feeds_def Let_def)
  qed
  then show ?thesis by (simp add: Let_def update_median_feeds_def foldl_min_Min)
qed

text \<open>C33. The feeds of a bitasset stay comparable: publishing a validated feed, replacing the producers
  and changing the options keep every stored price null or positive with two different assets, so
  the comparisons the median sorts by are orders in every reachable state.\<close>

theorem feeds_stay_comparable:
  assumes "feeds_ok b" and v: "asset_publish_feed_validate F pop = Inr ()" "price_in_range (settlement_price (pf_feed pop))"
    "price_in_range (core_exchange_rate (pf_feed pop))"
  shows "feeds_ok (publish_feed_object N pop d b) \<and> feeds_ok (update_feed_producers_object N fop d b) \<and>
     feeds_ok (fst (update_bitasset_object_options N uop d a b))"
proof (intro conjI)
  have "price_validate (settlement_price (pf_feed pop)) = Inr ()" "price_validate (core_exchange_rate (pf_feed pop)) = Inr ()"
    using v(1) by (auto simp: asset_publish_feed_validate_def price_feed_validate_def split: if_splits)
  then have "feed_price_ok (settlement_price (pf_feed pop))" "feed_price_ok (core_exchange_rate (pf_feed pop))"
    using v price_validate_ok by blast+
  then show "feeds_ok (publish_feed_object N pop d b)"
    using assms(1) by (auto simp: feeds_ok_def publish_feed_object_def store_feed_def set_insort_feed)
  show "feeds_ok (update_feed_producers_object N fop d b)"
    using assms(1) by (auto simp: feeds_ok_def update_feed_producers_object_def dest!: replace_producers_set)
  show "feeds_ok (fst (update_bitasset_object_options N uop d a b))"
    using assms(1) by (auto simp: feeds_ok_def update_bitasset_object_options_def Let_def)
qed

section \<open>Witnesses\<close>

definition sample_feed :: "int \<Rightarrow> nat \<Rightarrow> price_feed" where
  "sample_feed n r = \<lparr>settlement_price = mk_price (mk_asset n 2) (mk_asset 10 0), core_exchange_rate = mk_price (mk_asset (n + 1) 2) (mk_asset 10 0),
     maintenance_collateral_ratio = r, maximum_short_squeeze_ratio = 1500\<rparr>"

definition sample_bitasset :: asset_bitasset_data_object where
  "sample_bitasset = (new_bitasset 2 (sample_bitasset_options 0) False)\<lparr>bit_feeds :=
     [(1, 1000, sample_feed 7 1750), (2, 2000, sample_feed 9 1600), (3, 1500, sample_feed 8 1800), (4, 0, default_price_feed)]\<rparr>"

lemma sample_live: "live_feeds sample_bitasset 5000 = [(1000, sample_feed 7 1750), (2000, sample_feed 9 1600), (1500, sample_feed 8 1800)]"
  by code_simp

lemma sample_feed_ok: "0 < n \<Longrightarrow> n < 1000 \<Longrightarrow> feed_price_ok (settlement_price (sample_feed n r)) \<and> feed_price_ok (core_exchange_rate (sample_feed n r))"
  by (simp add: feed_price_ok_def sample_feed_def price_ok_def pos64_def)

theorem median_feeds_correct_witness:
  "median_of_feeds (current_feed (update_median_feeds sort_by 5000 sample_bitasset)) (map snd (live_feeds sample_bitasset 5000)) \<and>
   current_feed (update_median_feeds sort_by 5000 sample_bitasset) = sample_feed 8 1750"
proof
  have p: "\<forall>f\<in>set (live_feeds sample_bitasset 5000). feed_price_ok (settlement_price (snd f)) \<and> feed_price_ok (core_exchange_rate (snd f))"
    by (simp add: sample_live sample_feed_ok)
  have m: "minimum_feeds (bit_options sample_bitasset) = 1" by code_simp
  have l: "live_feeds sample_bitasset 5000 \<noteq> []" by (simp add: sample_live)
  show "median_of_feeds (current_feed (update_median_feeds sort_by 5000 sample_bitasset)) (map snd (live_feeds sample_bitasset 5000))"
    using l median_feeds_correct [OF sort_by_ok p] m by (simp add: Let_def)
  show "current_feed (update_median_feeds sort_by 5000 sample_bitasset) = sample_feed 8 1750" by code_simp
qed

theorem feeds_stay_comparable_witness:
  "feeds_ok (publish_feed_object sort_by \<lparr>pf_fee = mk_asset 0 0, pf_publisher = 4, pf_asset_id = 2, pf_feed = sample_feed 5 1700\<rparr> sample_db sample_bitasset)"
proof -
  let ?op = "\<lparr>pf_fee = mk_asset 0 0, pf_publisher = 4, pf_asset_id = 2, pf_feed = sample_feed 5 1700\<rparr>"
  have "feeds_ok sample_bitasset" using sample_feed_ok by (simp add: feeds_ok_def sample_bitasset_def)
  moreover have "asset_publish_feed_validate fc_reference ?op = Inr ()" by code_simp
  moreover have "price_in_range (settlement_price (pf_feed ?op))" "price_in_range (core_exchange_rate (pf_feed ?op))"
    by (simp_all add: price_in_range_def sample_feed_def in_int64_def)
  ultimately show ?thesis using feeds_stay_comparable by blast
qed

end
