(* ===== verification/Target_Ratio.thy ===== *)
theory Target_Ratio
  imports Price_Feeds
begin

text \<open>
  How much debt a margin call covers (\<^verbatim>\<open>market_object.cpp\<close>, \<^verbatim>\<open>call_order_object::get_max_debt_to_cover\<close>): all of it, or,
  when the borrower set a target collateral ratio, just enough to reach the target.

  The source computes a first guess in 256-bit integers, whose products of three 63-bit amounts and a 16-bit
  ratio stay below \<open>2^205\<close>, so \<open>int\<close> is exact. A guess is a pair of amounts, the debt covered and the
  collateral paid. The binary search ends because its interval shrinks. The forward search goes ahead in
  Fibonacci steps and has a step counter; \<open>forward_search_ends\<close> shows that it never runs out.
\<close>

section \<open>Products with a price\<close>

lemma asset_mult_range:
  "asset_mult x p = Inr y \<Longrightarrow> 0 \<le> amount y \<and> amount y < 2 ^ 63 \<and>
     asset_id y = (if asset_id x = asset_id (base p) then asset_id (quote p) else asset_id (base p))"
  by (auto simp: asset_mult_def Let_def word_le_def config_defs split: if_splits)

lemma round_up_range:
  "multiply_and_round_up x p = Inr y \<Longrightarrow> 0 \<le> amount y \<and> amount y < 2 ^ 63 \<and>
     asset_id y = (if asset_id x = asset_id (base p) then asset_id (quote p) else asset_id (base p))"
  by (auto simp: multiply_and_round_up_def Let_def word_le_def config_defs split: if_splits)

lemma mult_bounds:
  assumes "asset_mult x p = Inr y" and "price_ok p" and "nonneg64 (amount x)"
  shows "if asset_id x = asset_id (base p)
     then amount y * amount (base p) \<le> amount x * amount (quote p) \<and> amount x * amount (quote p) < amount y * amount (base p) + amount (base p)
     else amount y * amount (quote p) \<le> amount x * amount (base p) \<and> amount x * amount (base p) < amount y * amount (quote p) + amount (quote p)"
proof -
  have pos: "0 < amount (base p)" "0 < amount (quote p)" using assms(2) by (simp_all add: price_ok_def pos64_def)
  show ?thesis
    using assms(1) floor_div_bounds [OF pos(1), of "amount x * amount (quote p)"] floor_div_bounds [OF pos(2), of "amount x * amount (base p)"]
    unfolding asset_mult_exact [OF assms(3,2)] by (auto simp: share_quotient_Inr split: if_splits)
qed

lemma round_up_bounds:
  assumes "multiply_and_round_up x p = Inr y" and "price_ok p" and "nonneg64 (amount x)"
  shows "if asset_id x = asset_id (base p)
     then amount x * amount (quote p) \<le> amount y * amount (base p) \<and> amount y * amount (base p) < amount x * amount (quote p) + amount (base p)
     else amount x * amount (base p) \<le> amount y * amount (quote p) \<and> amount y * amount (quote p) < amount x * amount (base p) + amount (quote p)"
proof -
  have pos: "0 < amount (base p)" "0 < amount (quote p)" using assms(2) by (simp_all add: price_ok_def pos64_def)
  show ?thesis
    using assms(1) ceiling_div_bounds [OF pos(1), of "amount x * amount (quote p)"] ceiling_div_bounds [OF pos(2), of "amount x * amount (base p)"]
    unfolding multiply_and_round_up_exact [OF assms(3,2)] by (auto simp: share_quotient_Inr split: if_splits)
qed

lemma scaled_le_cancel: "n * b < m * b + b \<Longrightarrow> 0 < b \<Longrightarrow> n \<le> (m :: int)"
proof -
  assume a: "n * b < m * b + b" "0 < b"
  then have "n * b < (m + 1) * b" by (simp add: algebra_simps)
  then have "n < m + 1" using a(2) by (simp only: mult_less_cancel_right_pos)
  then show ?thesis by simp
qed

section \<open>The computation\<close>

text \<open>\<^verbatim>\<open>pay_for\<close> and \<^verbatim>\<open>cover_for\<close> are the products \<^verbatim>\<open>to_cover.multiply_and_round_up( match_price )\<close> and \<^verbatim>\<open>to_pay * match_price\<close>.\<close>

definition pay_for :: "call_order_object \<Rightarrow> price \<Rightarrow> int \<Rightarrow> int result" where
  "pay_for co match_price n = rbind (multiply_and_round_up (mk_asset n (debt_type co)) match_price) (\<lambda>x. Inr (amount x))"

definition cover_for :: "call_order_object \<Rightarrow> price \<Rightarrow> int \<Rightarrow> int result" where
  "cover_for co match_price n = rbind (asset_mult (mk_asset n (collateral_type co)) match_price) (\<lambda>x. Inr (amount x))"

text \<open>\<^verbatim>\<open>new_call_price > feed_price\<close> after \<^verbatim>\<open>to_cover\<close> of the debt is covered for \<^verbatim>\<open>to_pay\<close>.\<close>

definition reaches_target :: "fc_lib \<Rightarrow> call_order_object \<Rightarrow> price \<Rightarrow> int \<Rightarrow> int \<Rightarrow> int \<Rightarrow> bool result" where
  "reaches_target F co feed_price tcr to_pay to_cover =
     rbind (asset_minus F (get_debt co) (mk_asset to_cover (debt_type co))) (\<lambda>new_debt.
     rbind (asset_minus F (get_collateral co) (mk_asset to_pay (collateral_type co))) (\<lambda>new_collateral.
     rbind (call_price F new_debt new_collateral tcr) (\<lambda>new_call_price.
     Inr (price_greater new_call_price feed_price))))"

record search_range =
  min_to_pay :: int
  min_to_cover :: int
  max_to_pay :: int
  max_to_cover :: int

definition mean_by_collateral :: "fc_lib \<Rightarrow> call_order_object \<Rightarrow> price \<Rightarrow> search_range \<Rightarrow> (int \<times> int) result" where
  "mean_by_collateral F co match_price s =
     rbind (of_option Overflow (safe_add F (min_to_pay s) (max_to_pay s))) (\<lambda>t.
     rbind (of_option Overflow (safe_add F t 1)) (\<lambda>u.
     let to_pay = u div 2
     in if to_pay = max_to_pay s then Inr (to_pay, max_to_cover s)
        else rbind (cover_for co match_price to_pay) (\<lambda>to_cover.
             if to_cover \<ge> max_to_cover s then Inr (max_to_pay s, max_to_cover s)
             else rbind (pay_for co match_price to_cover) (\<lambda>to_pay.
                  require (to_pay < max_to_pay s) Assert_failed (Inr (to_pay, to_cover))))))"

definition mean_by_debt :: "fc_lib \<Rightarrow> call_order_object \<Rightarrow> price \<Rightarrow> search_range \<Rightarrow> (int \<times> int) result" where
  "mean_by_debt F co match_price s =
     rbind (of_option Overflow (safe_add F (min_to_cover s) (max_to_cover s))) (\<lambda>t.
     let to_cover = t div 2
     in if to_cover = max_to_cover s then Inr (max_to_pay s, to_cover)
        else rbind (pay_for co match_price to_cover) (\<lambda>to_pay.
             if to_pay \<ge> max_to_pay s then Inr (max_to_pay s, max_to_cover s)
             else rbind (cover_for co match_price to_pay) (\<lambda>to_cover.
                  if to_cover \<ge> max_to_cover s then Inr (max_to_pay s, max_to_cover s)
                  else Inr (to_pay, to_cover))))"

definition search_mean :: "fc_lib \<Rightarrow> call_order_object \<Rightarrow> price \<Rightarrow> search_range \<Rightarrow> (int \<times> int) result" where
  "search_mean F co match_price s =
     rbind (if amount (base match_price) < amount (quote match_price) then mean_by_collateral F co match_price s
            else mean_by_debt F co match_price s) (\<lambda>(to_pay, to_cover).
     Inr (if to_pay \<le> min_to_pay s \<or> to_cover \<le> min_to_cover s \<or> to_pay > max_to_pay s \<or> to_cover > max_to_cover s
          then (max_to_pay s, max_to_cover s) else (to_pay, to_cover)))"

text \<open>A stable guess: the collateral paid is what the match takes for the debt covered.\<close>

lemma mean_by_collateral_cases:
  assumes "mean_by_collateral F co p s = Inr (to_pay, to_cover)"
  shows "to_pay = max_to_pay s \<and> to_cover = max_to_cover s \<or>
     to_pay < max_to_pay s \<and> to_cover < max_to_cover s \<and> pay_for co p to_cover = Inr to_pay"
proof -
  obtain u where u: "(if u = max_to_pay s then Inr (u, max_to_cover s)
        else rbind (cover_for co p u) (\<lambda>to_cover.
             if to_cover \<ge> max_to_cover s then Inr (max_to_pay s, max_to_cover s)
             else rbind (pay_for co p to_cover) (\<lambda>to_pay.
                  require (to_pay < max_to_pay s) Assert_failed (Inr (to_pay, to_cover))))) = Inr (to_pay, to_cover)"
    using assms unfolding mean_by_collateral_def Let_def rbind_eq_Inr by blast
  then show ?thesis by (cases "u = max_to_pay s") (auto split: if_splits)
qed

lemma mean_by_debt_cases:
  assumes "mean_by_debt F co p s = Inr (to_pay, to_cover)"
  shows "to_pay = max_to_pay s \<and> to_cover = max_to_cover s \<or>
     to_pay < max_to_pay s \<and> to_cover < max_to_cover s \<and> (\<exists>n. safe_add F (min_to_cover s) (max_to_cover s) = Some n \<and> pay_for co p (n div 2) = Inr to_pay \<and> cover_for co p to_pay = Inr to_cover)"
proof -
  obtain t u where t: "safe_add F (min_to_cover s) (max_to_cover s) = Some t" "u = t div 2" and u: "(if u = max_to_cover s then Inr (max_to_pay s, u)
        else rbind (pay_for co p u) (\<lambda>to_pay.
             if to_pay \<ge> max_to_pay s then Inr (max_to_pay s, max_to_cover s)
             else rbind (cover_for co p to_pay) (\<lambda>to_cover.
                  if to_cover \<ge> max_to_cover s then Inr (max_to_pay s, max_to_cover s)
                  else Inr (to_pay, to_cover)))) = Inr (to_pay, to_cover)"
    using assms unfolding mean_by_debt_def Let_def rbind_eq_Inr of_option_eq_Inr by blast
  then show ?thesis using t by (cases "u = max_to_cover s") (auto split: if_splits)
qed

definition settled_guess :: "fc_lib \<Rightarrow> call_order_object \<Rightarrow> price \<Rightarrow> search_range \<Rightarrow> int \<Rightarrow> int \<Rightarrow> bool" where
  "settled_guess F co p s to_pay to_cover \<longleftrightarrow> pay_for co p to_cover = Inr to_pay \<or>
     (\<exists>n. safe_add F (min_to_cover s) (max_to_cover s) = Some n \<and> pay_for co p (n div 2) = Inr to_pay \<and> cover_for co p to_pay = Inr to_cover)"

lemma search_mean_moves:
  assumes "search_mean F co p s = Inr (to_pay, to_cover)"
  shows "to_pay = max_to_pay s \<and> to_cover = max_to_cover s \<or>
     min_to_pay s < to_pay \<and> to_pay < max_to_pay s \<and> min_to_cover s < to_cover \<and> to_cover < max_to_cover s \<and> settled_guess F co p s to_pay to_cover"
proof -
  obtain x y where xy: "(if amount (base p) < amount (quote p) then mean_by_collateral F co p s else mean_by_debt F co p s) = Inr (x, y)"
    and n: "(to_pay, to_cover) = (if x \<le> min_to_pay s \<or> y \<le> min_to_cover s \<or> x > max_to_pay s \<or> y > max_to_cover s
          then (max_to_pay s, max_to_cover s) else (x, y))"
    using assms unfolding search_mean_def rbind_eq_Inr by fastforce
  have "x = max_to_pay s \<and> y = max_to_cover s \<or> x < max_to_pay s \<and> y < max_to_cover s \<and> settled_guess F co p s x y"
  proof (cases "amount (base p) < amount (quote p)")
    case True
    then show ?thesis using xy mean_by_collateral_cases [of F co p s x y] by (auto simp: settled_guess_def)
  next
    case False
    then have "mean_by_debt F co p s = Inr (x, y)" using xy by simp
    from mean_by_debt_cases [OF this] show ?thesis unfolding settled_guess_def by blast
  qed
  then show ?thesis using n by (auto split: if_splits)
qed

text \<open>The binary search: \<open>Inl n\<close> where the source returns \<open>n\<close>, \<open>Inr\<close> the guess where it breaks off.\<close>

function binary_search ::
  "fc_lib \<Rightarrow> call_order_object \<Rightarrow> price \<Rightarrow> price \<Rightarrow> int \<Rightarrow> bool \<Rightarrow> search_range \<Rightarrow> (int + int \<times> int) result" where
  "binary_search F co match_price feed_price tcr max_is_ok s =
     rbind (search_mean F co match_price s) (\<lambda>(to_pay, to_cover).
     if to_pay = max_to_pay s \<and> (max_is_ok \<or> to_pay = collateral co) then Inr (Inl to_cover)
     else require (to_pay < collateral co \<and> to_cover < debt co) Assert_failed
       (rbind (reaches_target F co feed_price tcr to_pay to_cover) (\<lambda>good.
        if good
        then if to_pay = max_to_pay s then Inr (Inl to_cover)
             else binary_search F co match_price feed_price tcr True (s\<lparr>max_to_pay := to_pay, max_to_cover := to_cover\<rparr>)
        else if to_pay = max_to_pay s then Inr (Inr (to_pay, to_cover))
             else binary_search F co match_price feed_price tcr max_is_ok (s\<lparr>min_to_pay := to_pay, min_to_cover := to_cover\<rparr>))))"
  by pat_completeness auto
termination
proof (relation "measure (\<lambda>(_, _, _, _, _, _, s). nat (max_to_pay s - min_to_pay s))")
qed (auto dest!: search_mean_moves)

fun forward_step :: "fc_lib \<Rightarrow> call_order_object \<Rightarrow> price \<Rightarrow> int \<Rightarrow> int \<Rightarrow> int \<Rightarrow> (int \<times> int) option result" where
  "forward_step F co match_price d2 to_pay to_cover =
     (if amount (base match_price) > amount (quote match_price)
      then rbind (of_option Overflow (safe_add F to_pay d2)) (\<lambda>to_pay.
           if to_pay \<ge> collateral co then Inr None
           else rbind (cover_for co match_price to_pay) (\<lambda>to_cover.
                if to_cover \<ge> debt co then Inr None
                else rbind (pay_for co match_price to_cover) (\<lambda>to_pay.
                     if to_pay \<ge> collateral co then Inr None else Inr (Some (to_pay, to_cover)))))
      else rbind (of_option Overflow (safe_add F to_cover d2)) (\<lambda>to_cover.
           if to_cover \<ge> debt co then Inr None
           else rbind (pay_for co match_price to_cover) (\<lambda>to_pay.
                if to_pay \<ge> collateral co then Inr None
                else rbind (cover_for co match_price to_pay) (\<lambda>to_cover.
                     if to_cover \<ge> debt co then Inr None else Inr (Some (to_pay, to_cover))))))"

fun forward_search :: "fc_lib \<Rightarrow> call_order_object \<Rightarrow> price \<Rightarrow> price \<Rightarrow> int \<Rightarrow> nat \<Rightarrow> int \<Rightarrow> int \<Rightarrow> int \<Rightarrow> int \<Rightarrow> int result" where
  "forward_search F co match_price feed_price tcr 0 d2 d3 to_pay to_cover = Inl Out_of_fuel"
| "forward_search F co match_price feed_price tcr (Suc n) d2 d3 to_pay to_cover =
     rbind (forward_step F co match_price d2 to_pay to_cover) (\<lambda>guess.
     case guess of
       None \<Rightarrow> Inr (debt co)
     | Some (to_pay, to_cover) \<Rightarrow>
         require (to_pay < collateral co \<and> to_cover < debt co) Assert_failed
         (rbind (reaches_target F co feed_price tcr to_pay to_cover) (\<lambda>good.
          if good then Inr to_cover
          else forward_search F co match_price feed_price tcr n d3 (d2 + d3) to_pay to_cover)))"

text \<open>\<^verbatim>\<open>numerator\<close> and \<^verbatim>\<open>denominator\<close> are those of the source, the first without the fraction.\<close>

definition cover_with_search ::
  "fc_lib \<Rightarrow> call_order_object \<Rightarrow> price \<Rightarrow> price \<Rightarrow> int \<Rightarrow> int \<Rightarrow> int \<Rightarrow> int \<Rightarrow> int \<Rightarrow> int result" where
  "cover_with_search F co match_price feed_price tcr numerator denominator to_pay to_cover =
     (let n = (numerator + amount (base feed_price) * amount (quote match_price) * tcr) div denominator + 1;
          to_cover_amt = (if n \<ge> debt co then debt co else n)
      in rbind (if to_cover_amt = debt co then Inr (collateral co) else pay_for co match_price to_cover_amt) (\<lambda>p.
         let max_pay = (if p > collateral co then collateral co else p)
         in rbind (if max_pay = collateral co then Inr (debt co) else cover_for co match_price max_pay) (\<lambda>c.
            let (max_pay, max_cover) = (if c \<ge> debt co then (collateral co, debt co) else (max_pay, c))
            in if max_pay \<le> to_pay \<or> max_cover \<le> to_cover then Inr (debt co)
               else rbind (binary_search F co match_price feed_price tcr False
                            \<lparr>min_to_pay = to_pay, min_to_cover = to_cover, max_to_pay = max_pay, max_to_cover = max_cover\<rparr>) (\<lambda>r.
                    case r of
                      Inl n \<Rightarrow> Inr n
                    | Inr (to_pay, to_cover) \<Rightarrow> forward_search F co match_price feed_price tcr 92 1 1 to_pay to_cover))))"

definition cover_to_target :: "fc_lib \<Rightarrow> call_order_object \<Rightarrow> price \<Rightarrow> price \<Rightarrow> int \<Rightarrow> int result" where
  "cover_to_target F co match_price feed_price tcr =
     (let mp_debt_amt = amount (quote match_price); mp_coll_amt = amount (base match_price);
          fp_debt_amt = amount (quote feed_price); fp_coll_amt = amount (base feed_price);
          numerator = fp_coll_amt * mp_debt_amt * debt co * tcr - fp_debt_amt * mp_debt_amt * collateral co * GRAPHENE_COLLATERAL_RATIO_DENOM;
          denominator = fp_coll_amt * mp_debt_amt * tcr - fp_debt_amt * mp_coll_amt * GRAPHENE_COLLATERAL_RATIO_DENOM
      in if numerator < 0 then Inr 0
         else if denominator \<le> 0 then Inr (debt co)
         else if numerator div denominator \<ge> debt co then Inr (debt co)
         else rbind (asset_mult (mk_asset (numerator div denominator) (debt_type co)) match_price) (\<lambda>first_pay.
              rbind (cover_for co match_price (amount first_pay)) (\<lambda>to_cover.
              rbind (pay_for co match_price to_cover) (\<lambda>to_pay.
              if to_cover \<ge> debt co \<or> to_pay \<ge> collateral co then Inr (debt co)
              else rbind (reaches_target F co feed_price tcr to_pay to_cover) (\<lambda>good.
                   if good then Inr to_cover
                   else cover_with_search F co match_price feed_price tcr numerator denominator to_pay to_cover)))))"

text \<open>A price of the position's market in the collateral/debt format.\<close>

definition in_call_format :: "call_order_object \<Rightarrow> price \<Rightarrow> price" where
  "in_call_format co p = (if asset_id (base p) \<noteq> asset_id (base (co_call_price co)) then price_invert p else p)"

definition call_format :: "call_order_object \<Rightarrow> price \<Rightarrow> bool" where
  "call_format co p \<longleftrightarrow> asset_id (base p) = asset_id (base (co_call_price co)) \<and> asset_id (quote p) = asset_id (quote (co_call_price co))"

definition get_max_debt_to_cover :: "fc_lib \<Rightarrow> call_order_object \<Rightarrow> price \<Rightarrow> price \<Rightarrow> int \<Rightarrow> int result" where
  "get_max_debt_to_cover F co match_price feed_price mcr =
     (let feed = in_call_format co feed_price
      in require (call_format co feed) Assert_failed
         (if price_greater (co_call_price co) feed then Inr 0
          else case target_collateral_ratio co of
            None \<Rightarrow> Inr (debt co)
          | Some target \<Rightarrow>
              require (call_format co (in_call_format co match_price)) Assert_failed
              (cover_to_target F co (in_call_format co match_price) feed (max (int target) mcr))))"

declare binary_search.simps [simp del] forward_step.simps [simp del]

section \<open>The result\<close>

text \<open>What the search is after: an amount of debt that leaves both sides of the position positive and takes it
  above the target, at the collateral the match will take for it.\<close>

definition target_met :: "fc_lib \<Rightarrow> call_order_object \<Rightarrow> price \<Rightarrow> price \<Rightarrow> int \<Rightarrow> int \<Rightarrow> bool" where
  "target_met F co p feed tcr n \<longleftrightarrow> 0 \<le> n \<and> n < debt co \<and>
     (\<exists>pay. pay_for co p n = Inr pay \<and> 0 \<le> pay \<and> pay < collateral co \<and> reaches_target F co feed tcr pay n = Inr True)"

definition position_price :: "call_order_object \<Rightarrow> price \<Rightarrow> bool" where
  "position_price co p \<longleftrightarrow> price_ok p \<and> call_format co p \<and> collateral_type co \<noteq> debt_type co"

lemma pay_for_exact:
  assumes "position_price co p" and "nonneg64 n"
  shows "pay_for co p n = rbind (share_quotient (n * amount (base p) + amount (quote p) - 1) (amount (quote p)) 0) (\<lambda>x. Inr (amount x))"
  using assms by (auto simp: pay_for_def multiply_and_round_up_exact position_price_def call_format_def debt_type_def collateral_type_def share_quotient_def require_def)

lemma cover_for_exact:
  assumes "position_price co p" and "nonneg64 n"
  shows "cover_for co p n = rbind (share_quotient (n * amount (quote p)) (amount (base p)) 0) (\<lambda>x. Inr (amount x))"
  using assms by (auto simp: cover_for_def asset_mult_exact position_price_def call_format_def debt_type_def collateral_type_def share_quotient_def require_def)

lemma pay_for_range: "pay_for co p n = Inr y \<Longrightarrow> nonneg64 y"
  by (auto simp: pay_for_def nonneg64_def dest: round_up_range)

lemma cover_for_range: "cover_for co p n = Inr y \<Longrightarrow> nonneg64 y"
  by (auto simp: cover_for_def nonneg64_def dest: asset_mult_range)

lemma pay_for_bounds:
  assumes "position_price co p" and "nonneg64 n" and "pay_for co p n = Inr y"
  shows "n * amount (base p) \<le> y * amount (quote p)" "y * amount (quote p) < n * amount (base p) + amount (quote p)"
proof -
  obtain x where "multiply_and_round_up (mk_asset n (debt_type co)) p = Inr x" "y = amount x" using assms(3) by (auto simp: pay_for_def)
  then show "n * amount (base p) \<le> y * amount (quote p)" "y * amount (quote p) < n * amount (base p) + amount (quote p)"
    using round_up_bounds [of "mk_asset n (debt_type co)" p x] assms(1,2)
    by (auto simp: position_price_def call_format_def debt_type_def collateral_type_def)
qed

lemma cover_for_bounds:
  assumes "position_price co p" and "nonneg64 n" and "cover_for co p n = Inr y"
  shows "y * amount (base p) \<le> n * amount (quote p)" "n * amount (quote p) < y * amount (base p) + amount (base p)"
proof -
  obtain x where "asset_mult (mk_asset n (collateral_type co)) p = Inr x" "y = amount x" using assms(3) by (auto simp: cover_for_def)
  then show "y * amount (base p) \<le> n * amount (quote p)" "n * amount (quote p) < y * amount (base p) + amount (base p)"
    using mult_bounds [of "mk_asset n (collateral_type co)" p x] assms(1,2)
    by (auto simp: position_price_def call_format_def debt_type_def collateral_type_def)
qed

text \<open>The source's stabilisation: after one rounding up and one rounding down nothing moves any more.\<close>

lemma stabilised:
  assumes p: "position_price co p" and n: "nonneg64 n" and up: "pay_for co p n = Inr r" and down: "cover_for co p r = Inr c"
  shows "pay_for co p c = Inr r" "n \<le> c"
proof -
  have pos: "0 < amount (base p)" "0 < amount (quote p)" using p by (simp_all add: position_price_def price_ok_def pos64_def)
  note r = pay_for_range [OF up]
  note c = cover_for_range [OF down]
  note u = pay_for_bounds [OF p n up]
  note d = cover_for_bounds [OF p r down]
  have "n * amount (base p) < c * amount (base p) + amount (base p)" using u(1) d(2) by linarith
  then show le: "n \<le> c" using pos(1) by (rule scaled_le_cancel)
  have "(c * amount (base p) + amount (quote p) - 1) div amount (quote p) = r"
  proof (rule int_div_pos_eq)
    have "n * amount (base p) \<le> c * amount (base p)" using le pos(1) by simp
    then have "0 \<le> c * amount (base p) + amount (quote p) - 1 - amount (quote p) * r" using u(2) by (simp add: algebra_simps)
    then show "0 \<le> c * amount (base p) + amount (quote p) - 1 - amount (quote p) * r" .
    show "c * amount (base p) + amount (quote p) - 1 - amount (quote p) * r < amount (quote p)" using d(1) by (simp add: algebra_simps)
    show "c * amount (base p) + amount (quote p) - 1 = amount (quote p) * r + (c * amount (base p) + amount (quote p) - 1 - amount (quote p) * r)" by simp
  qed
  moreover have "r \<le> GRAPHENE_MAX_SHARE_SUPPLY"
    using up unfolding pay_for_exact [OF p n] by (auto simp: share_quotient_def)
  ultimately show "pay_for co p c = Inr r" unfolding pay_for_exact [OF p c] by (simp add: share_quotient_def)
qed

text \<open>The range of the binary search.\<close>

definition range_ok :: "fc_lib \<Rightarrow> call_order_object \<Rightarrow> price \<Rightarrow> price \<Rightarrow> int \<Rightarrow> bool \<Rightarrow> search_range \<Rightarrow> bool" where
  "range_ok F co p feed tcr max_is_ok s \<longleftrightarrow> 0 \<le> min_to_pay s \<and> 0 \<le> min_to_cover s \<and> min_to_pay s < max_to_pay s \<and> min_to_cover s < max_to_cover s \<and>
     (max_to_pay s = collateral co \<and> max_to_cover s = debt co \<and> \<not> max_is_ok \<or>
      max_to_pay s < collateral co \<and> max_to_cover s < debt co \<and> pay_for co p (max_to_cover s) = Inr (max_to_pay s)) \<and>
     (max_is_ok \<longrightarrow> target_met F co p feed tcr (max_to_cover s))"

lemma search_mean_stable:
  assumes F: "fc_lib_ok F" and p: "position_price co p" and s: "range_ok F co p feed tcr ok s" and m: "search_mean F co p s = Inr (x, y)"
  shows "x = max_to_pay s \<and> y = max_to_cover s \<or>
     min_to_pay s < x \<and> x < max_to_pay s \<and> min_to_cover s < y \<and> y < max_to_cover s \<and> pay_for co p y = Inr x"
proof -
  have "pay_for co p y = Inr x" if g: "settled_guess F co p s x y"
    using g unfolding settled_guess_def
  proof (elim disjE exE conjE)
    fix n assume n: "safe_add F (min_to_cover s) (max_to_cover s) = Some n" "pay_for co p (n div 2) = Inr x" "cover_for co p x = Inr y"
    have "nonneg64 (n div 2)" using n(1) s by (auto simp: fc_safe_simps [OF F] range_ok_def nonneg64_def in_int64_def)
    then show ?thesis by (rule stabilised [OF p _ n(2,3)])
  qed
  then show ?thesis using search_mean_moves [OF m] by blast
qed

lemma binary_search_correct:
  "fc_lib_ok F \<Longrightarrow> position_price co p \<Longrightarrow> range_ok F co p feed tcr ok s \<Longrightarrow> binary_search F co p feed tcr ok s = Inr r \<Longrightarrow>
     (case r of Inl n \<Rightarrow> n = debt co \<or> target_met F co p feed tcr n
      | Inr (x, y) \<Rightarrow> 0 \<le> x \<and> 0 \<le> y \<and> x < collateral co \<and> y < debt co)"
proof (induction F co p feed tcr ok s rule: binary_search.induct)
  case (1 F co p feed tcr ok s)
  note prems = 1(3-6)
  obtain x y where m: "search_mean F co p s = Inr (x, y)"
    and rest: "(if x = max_to_pay s \<and> (ok \<or> x = collateral co) then Inr (Inl y)
     else require (x < collateral co \<and> y < debt co) Assert_failed
       (rbind (reaches_target F co feed tcr x y) (\<lambda>good.
        if good
        then if x = max_to_pay s then Inr (Inl y)
             else binary_search F co p feed tcr True (s\<lparr>max_to_pay := x, max_to_cover := y\<rparr>)
        else if x = max_to_pay s then Inr (Inr (x, y))
             else binary_search F co p feed tcr ok (s\<lparr>min_to_pay := x, min_to_cover := y\<rparr>)))) = Inr r"
    using prems(4) by (subst (asm) binary_search.simps) auto
  note M = search_mean_stable [OF prems(1-3) m]
  note R = prems(3) [unfolded range_ok_def]
  show ?case
  proof (cases "x = max_to_pay s \<and> (ok \<or> x = collateral co)")
    case True
    then have "r = Inl y" using rest unfolding if_P [OF True] by simp
    moreover have "y = max_to_cover s" using M True by auto
    ultimately show ?thesis using R True by auto
  next
    case False
    obtain good where g: "reaches_target F co feed tcr x y = Inr good" and lt: "x < collateral co" "y < debt co"
      and go: "(if good
        then if x = max_to_pay s then Inr (Inl y)
             else binary_search F co p feed tcr True (s\<lparr>max_to_pay := x, max_to_cover := y\<rparr>)
        else if x = max_to_pay s then Inr (Inr (x, y))
             else binary_search F co p feed tcr ok (s\<lparr>min_to_pay := x, min_to_cover := y\<rparr>)) = Inr r"
      using rest unfolding if_not_P [OF False] by auto
    have nn: "0 \<le> x" "0 \<le> y" using M R by auto
    have pay: "pay_for co p y = Inr x" using M R lt by auto
    have met: "good \<Longrightarrow> target_met F co p feed tcr y" using g nn lt pay unfolding target_met_def by simp
    show ?thesis
    proof (cases "x = max_to_pay s")
      case True
      then show ?thesis using go met nn lt by (cases good) auto
    next
      case mid: False
      show ?thesis
      proof (cases good)
        case True
        have "range_ok F co p feed tcr True (s\<lparr>max_to_pay := x, max_to_cover := y\<rparr>)"
          using M R mid lt pay met [OF True] by (auto simp: range_ok_def)
        then show ?thesis using 1(1) [OF m refl False g True mid prems(1,2)] go True mid by simp
      next
        case bad: False
        have "range_ok F co p feed tcr ok (s\<lparr>min_to_pay := x, min_to_cover := y\<rparr>)"
          using M R mid by (auto simp: range_ok_def)
        then show ?thesis using 1(2) [OF m refl False g bad mid prems(1,2)] go bad mid by simp
      qed
    qed
  qed
qed

lemma forward_step_settled:
  assumes F: "fc_lib_ok F" and p: "position_price co p" and nn: "0 \<le> x" "0 \<le> y" "0 \<le> d" and run: "forward_step F co p d x y = Inr (Some (x', y'))"
  shows "0 \<le> x' \<and> x' < collateral co \<and> 0 \<le> y' \<and> y' < debt co \<and> pay_for co p y' = Inr x'"
proof (cases "amount (base p) > amount (quote p)")
  case True
  then have "pay_for co p y' = Inr x'" "x' < collateral co" "y' < debt co" "\<exists>z. cover_for co p z = Inr y'"
    using run by (auto simp: forward_step.simps split: if_splits)
  then show ?thesis using pay_for_range cover_for_range by (auto simp: nonneg64_def)
next
  case False
  then obtain u where u: "safe_add F y d = Some u" "pay_for co p u = Inr x'" "cover_for co p x' = Inr y'" "x' < collateral co" "y' < debt co"
    using run by (auto simp: forward_step.simps split: if_splits)
  have "nonneg64 u" using u(1) nn by (auto simp: fc_safe_simps [OF F] nonneg64_def in_int64_def)
  from stabilised(1) [OF p this u(2,3)] show ?thesis using u pay_for_range [OF u(2)] cover_for_range [OF u(3)] by (auto simp: nonneg64_def)
qed

lemma forward_search_correct:
  assumes F: "fc_lib_ok F" and p: "position_price co p"
  shows "0 \<le> x \<Longrightarrow> 0 \<le> y \<Longrightarrow> 0 \<le> d2 \<Longrightarrow> 0 \<le> d3 \<Longrightarrow> forward_search F co p feed tcr n d2 d3 x y = Inr r \<Longrightarrow> r = debt co \<or> target_met F co p feed tcr r"
proof (induction n arbitrary: d2 d3 x y)
  case (Suc n)
  obtain g where g: "forward_step F co p d2 x y = Inr g" using Suc.prems(5) by auto
  show ?case
  proof (cases g)
    case None
    then show ?thesis using Suc.prems(5) g by simp
  next
    case (Some z)
    obtain x' y' where z: "z = (x', y')" by (cases z)
    note S = forward_step_settled [OF F p Suc.prems(1-3) g [unfolded Some z]]
    obtain good where gd: "reaches_target F co feed tcr x' y' = Inr good"
        "(if good then Inr y' else forward_search F co p feed tcr n d3 (d2 + d3) x' y') = Inr r"
      using Suc.prems(5) g Some z by auto
    show ?thesis
    proof (cases good)
      case True
      then show ?thesis using gd S by (auto simp: target_met_def)
    next
      case False
      then show ?thesis using Suc.IH [of x' y' d3 "d2 + d3"] gd S Suc.prems(3,4) by simp
    qed
  qed
qed simp

section \<open>The searches return\<close>

text \<open>A position whose debt can be bought at the match price, with amounts within the share supply.\<close>

definition coverable :: "call_order_object \<Rightarrow> price \<Rightarrow> bool" where
  "coverable co p \<longleftrightarrow> position_price co p \<and> 0 < debt co \<and> debt co \<le> GRAPHENE_MAX_SHARE_SUPPLY \<and> 0 < collateral co \<and>
     collateral co \<le> GRAPHENE_MAX_SHARE_SUPPLY \<and> debt co * amount (base p) \<le> collateral co * amount (quote p) \<and>
     collateral co * amount (quote p) \<le> GRAPHENE_MAX_SHARE_SUPPLY * amount (base p)"

lemma quotient_le: "n < (m + 1) * b \<Longrightarrow> 0 < b \<Longrightarrow> n div b \<le> (m :: int)"
proof -
  assume a: "n < (m + 1) * b" "0 < b"
  have "n div b * b \<le> n" using a(2) floor_div_bounds(1) [of b n] by simp
  then have "n div b * b < m * b + b" using a(1) by (simp add: algebra_simps)
  then show ?thesis using a(2) by (rule scaled_le_cancel)
qed

lemma pay_for_returns:
  assumes c: "coverable co p" and n: "0 \<le> n" "n \<le> debt co"
  shows "\<exists>x. pay_for co p n = Inr x \<and> 0 \<le> x \<and> x \<le> collateral co"
proof -
  have pos: "0 < amount (base p)" "0 < amount (quote p)" and p: "position_price co p" using c by (simp_all add: coverable_def position_price_def price_ok_def pos64_def)
  have n64: "nonneg64 n" using c n by (simp add: coverable_def nonneg64_def config_defs)
  let ?x = "(n * amount (base p) + amount (quote p) - 1) div amount (quote p)"
  have "n * amount (base p) \<le> debt co * amount (base p)" using n pos(1) by simp
  then have "n * amount (base p) \<le> collateral co * amount (quote p)" using c by (simp add: coverable_def)
  then have "n * amount (base p) + amount (quote p) - 1 < (collateral co + 1) * amount (quote p)" using pos(2) by (simp add: algebra_simps)
  then have "?x \<le> collateral co" using pos(2) by (rule quotient_le)
  moreover have "0 \<le> n * amount (base p)" using pos n by simp
  then have "0 \<le> ?x" using pos(2) by (simp add: pos_imp_zdiv_nonneg_iff)
  ultimately show ?thesis using c unfolding pay_for_exact [OF p n64] by (simp add: share_quotient_def coverable_def)
qed

lemma cover_for_returns:
  assumes c: "coverable co p" and n: "0 \<le> n" "n \<le> collateral co"
  shows "\<exists>y. cover_for co p n = Inr y \<and> 0 \<le> y"
proof -
  have pos: "0 < amount (base p)" "0 < amount (quote p)" and p: "position_price co p" using c by (simp_all add: coverable_def position_price_def price_ok_def pos64_def)
  have n64: "nonneg64 n" using c n by (simp add: coverable_def nonneg64_def config_defs)
  let ?y = "n * amount (quote p) div amount (base p)"
  have "n * amount (quote p) \<le> collateral co * amount (quote p)" using n pos(2) by simp
  then have "n * amount (quote p) < (GRAPHENE_MAX_SHARE_SUPPLY + 1) * amount (base p)" using c pos(1) by (simp add: coverable_def algebra_simps)
  then have "?y \<le> GRAPHENE_MAX_SHARE_SUPPLY" using pos(1) by (rule quotient_le)
  moreover have "0 \<le> ?y" using pos n by (simp add: pos_imp_zdiv_nonneg_iff)
  ultimately show ?thesis unfolding cover_for_exact [OF p n64] by (simp add: share_quotient_def)
qed

lemma reaches_target_returns:
  assumes F: "fc_lib_ok F" and c: "coverable co p" and x: "0 \<le> x" "x < collateral co" and y: "0 \<le> y" "y < debt co" and t: "0 < tcr" "tcr < 2 ^ 16"
  shows "\<exists>g. reaches_target F co feed tcr x y = Inr g"
proof -
  have d: "pos64 (debt co - y)" and k: "pos64 (collateral co - x)" using c x y by (simp_all add: coverable_def pos64_def config_defs)
  have ne: "debt_type co \<noteq> collateral_type co" using c by (auto simp: coverable_def position_price_def)
  have s: "safe_sub F (debt co) y = Some (debt co - y)" "safe_sub F (collateral co) x = Some (collateral co - x)"
    using d k by (simp_all add: fc_safe_simps [OF F] in_int64_def pos64_def)
  obtain q where "call_price F (mk_asset (debt co - y) (debt_type co)) (mk_asset (collateral co - x) (collateral_type co)) tcr = Inr q"
    using call_price_returns [OF F, of "mk_asset (debt co - y) (debt_type co)" "mk_asset (collateral co - x) (collateral_type co)" tcr] d k t ne by auto
  then show ?thesis using s by (simp add: reaches_target_def asset_minus_def get_debt_def get_collateral_def)
qed

lemma search_mean_returns:
  assumes F: "fc_lib_ok F" and c: "coverable co p" and s: "range_ok F co p feed tcr ok s"
  shows "\<exists>x y. search_mean F co p s = Inr (x, y)"
proof -
  have b: "0 \<le> min_to_pay s" "0 \<le> min_to_cover s" "min_to_pay s < max_to_pay s" "min_to_cover s < max_to_cover s" "max_to_pay s \<le> collateral co" "max_to_cover s \<le> debt co"
    using s by (auto simp: range_ok_def)
  have m: "collateral co \<le> GRAPHENE_MAX_SHARE_SUPPLY" "debt co \<le> GRAPHENE_MAX_SHARE_SUPPLY" "position_price co p" using c by (simp_all add: coverable_def)
  have a: "safe_add F (min_to_pay s) (max_to_pay s) = Some (min_to_pay s + max_to_pay s)"
      "safe_add F (min_to_pay s + max_to_pay s) 1 = Some (min_to_pay s + max_to_pay s + 1)"
      "safe_add F (min_to_cover s) (max_to_cover s) = Some (min_to_cover s + max_to_cover s)"
    using b m by (simp_all add: fc_safe_simps [OF F] in_int64_def config_defs)
  have "\<exists>x y. mean_by_collateral F co p s = Inr (x, y)"
  proof -
    let ?u = "(min_to_pay s + max_to_pay s + 1) div 2"
    have u: "0 \<le> ?u" "?u \<le> max_to_pay s" using b by auto
    obtain y where y: "cover_for co p ?u = Inr y" "0 \<le> y" using cover_for_returns [OF c, of ?u] u b by auto
    show ?thesis
    proof (cases "?u = max_to_pay s \<or> y \<ge> max_to_cover s")
      case True
      then show ?thesis using a y by (auto simp: mean_by_collateral_def Let_def)
    next
      case False
      obtain x where x: "pay_for co p y = Inr x" using pay_for_returns [OF c, of y] y b False by auto
      have u64: "nonneg64 ?u" "nonneg64 y" using u b m cover_for_range [OF y(1)] by (simp_all add: nonneg64_def config_defs)
      have pos: "0 < amount (quote p)" using m(3) by (simp add: position_price_def price_ok_def pos64_def)
      have "x * amount (quote p) < ?u * amount (quote p) + amount (quote p)"
        using pay_for_bounds(2) [OF m(3) u64(2) x] cover_for_bounds(1) [OF m(3) u64(1) y(1)] by linarith
      then have "x \<le> ?u" using pos by (rule scaled_le_cancel)
      then have "x < max_to_pay s" using u False by linarith
      then show ?thesis using a y x False by (simp add: mean_by_collateral_def Let_def)
    qed
  qed
  moreover have "\<exists>x y. mean_by_debt F co p s = Inr (x, y)"
  proof -
    let ?u = "(min_to_cover s + max_to_cover s) div 2"
    have u: "0 \<le> ?u" "?u \<le> debt co" using b by auto
    obtain x where x: "pay_for co p ?u = Inr x" "0 \<le> x" "x \<le> collateral co" using pay_for_returns [OF c u] by auto
    obtain y where "cover_for co p x = Inr y" using cover_for_returns [OF c x(2,3)] by auto
    then show ?thesis using a x by (auto simp: mean_by_debt_def Let_def)
  qed
  ultimately obtain z where "(if amount (base p) < amount (quote p) then mean_by_collateral F co p s else mean_by_debt F co p s) = Inr z"
    by (metis (full_types))
  then show ?thesis by (cases z) (simp add: search_mean_def)
qed

lemma binary_search_returns:
  "fc_lib_ok F \<Longrightarrow> coverable co p \<Longrightarrow> 0 < tcr \<Longrightarrow> tcr < 2 ^ 16 \<Longrightarrow> range_ok F co p feed tcr ok s \<Longrightarrow>
     \<exists>r. binary_search F co p feed tcr ok s = Inr r"
proof (induction F co p feed tcr ok s rule: binary_search.induct)
  case (1 F co p feed tcr ok s)
  note prems = 1(3-7)
  have p: "position_price co p" using prems(2) by (simp add: coverable_def)
  obtain x y where m: "search_mean F co p s = Inr (x, y)" using search_mean_returns [OF prems(1,2,5)] by blast
  note M = search_mean_stable [OF prems(1) p prems(5) m]
  note R = prems(5) [unfolded range_ok_def]
  show ?case
  proof (cases "x = max_to_pay s \<and> (ok \<or> x = collateral co)")
    case True
    then have "(ok \<or> max_to_pay s = collateral co) \<and> x = max_to_pay s" by auto
    then show ?thesis using m by (subst binary_search.simps) auto
  next
    case False
    have lt: "0 \<le> x" "0 \<le> y" "x < collateral co" "y < debt co" using M R False by auto
    have pay: "pay_for co p y = Inr x" using M R lt by auto
    obtain good where g: "reaches_target F co feed tcr x y = Inr good"
      using reaches_target_returns [OF prems(1,2) lt(1,3,2,4) prems(3,4)] by blast
    have step: "binary_search F co p feed tcr ok s =
       (if good
        then if x = max_to_pay s then Inr (Inl y)
             else binary_search F co p feed tcr True (s\<lparr>max_to_pay := x, max_to_cover := y\<rparr>)
        else if x = max_to_pay s then Inr (Inr (x, y))
             else binary_search F co p feed tcr ok (s\<lparr>min_to_pay := x, min_to_cover := y\<rparr>))"
      by (subst binary_search.simps) (simp only: m rbind_Inr prod.case if_not_P [OF False] g lt require_True simp_thms)
    show ?thesis
    proof (cases "x = max_to_pay s")
      case True
      then show ?thesis unfolding step by simp
    next
      case mid: False
      show ?thesis
      proof (cases good)
        case True
        have "range_ok F co p feed tcr True (s\<lparr>max_to_pay := x, max_to_cover := y\<rparr>)"
          using M R mid lt pay g True unfolding range_ok_def target_met_def by auto
        then show ?thesis unfolding step using 1(1) [OF m refl False g True mid prems(1-4)] True mid by simp
      next
        case bad: False
        have "range_ok F co p feed tcr ok (s\<lparr>min_to_pay := x, min_to_cover := y\<rparr>)"
          using M R mid by (auto simp: range_ok_def)
        then show ?thesis unfolding step using 1(2) [OF m refl False g bad mid prems(1-4)] bad mid by simp
      qed
    qed
  qed
qed

text \<open>The steps of the forward search overtake the share supply before they leave the machine range.\<close>

fun overtakes :: "nat \<Rightarrow> int \<Rightarrow> int \<Rightarrow> bool" where
  "overtakes 0 d2 d3 \<longleftrightarrow> False"
| "overtakes (Suc n) d2 d3 \<longleftrightarrow> 0 < d2 \<and> d2 < 2 ^ 62 \<and> (GRAPHENE_MAX_SHARE_SUPPLY \<le> d2 \<or> overtakes n d3 (d2 + d3))"

lemma overtakes_92: "overtakes 92 1 1"
  by (simp add: numeral_eq_Suc config_defs)

lemma forward_step_returns:
  assumes F: "fc_lib_ok F" and c: "coverable co p" and x: "0 \<le> x" "x < collateral co" and y: "0 \<le> y" "y < debt co" and d: "0 < d" "d < 2 ^ 62"
  shows "\<exists>g. forward_step F co p d x y = Inr g \<and> (GRAPHENE_MAX_SHARE_SUPPLY \<le> d \<longrightarrow> g = None)"
proof -
  have m: "collateral co \<le> GRAPHENE_MAX_SHARE_SUPPLY" "debt co \<le> GRAPHENE_MAX_SHARE_SUPPLY" using c by (simp_all add: coverable_def)
  have a: "safe_add F x d = Some (x + d)" "safe_add F y d = Some (y + d)"
    using x y d m by (simp_all add: fc_safe_simps [OF F] in_int64_def config_defs)
  show ?thesis
  proof (cases "amount (base p) > amount (quote p)")
    case True
    show ?thesis
    proof (cases "x + d \<ge> collateral co")
      case False
      then obtain v where v: "cover_for co p (x + d) = Inr v" "0 \<le> v" using cover_for_returns [OF c, of "x + d"] x d by auto
      show ?thesis
      proof (cases "v \<ge> debt co")
        case lt: False
        then obtain w where "pay_for co p v = Inr w" using pay_for_returns [OF c v(2)] by auto
        then show ?thesis using v a True False lt x m by (simp add: forward_step.simps)
      qed (use v a True False in \<open>simp add: forward_step.simps\<close>)
    qed (use a True in \<open>simp add: forward_step.simps\<close>)
  next
    case False
    show ?thesis
    proof (cases "y + d \<ge> debt co")
      case lt: False
      then obtain v where v: "pay_for co p (y + d) = Inr v" "0 \<le> v" "v \<le> collateral co" using pay_for_returns [OF c, of "y + d"] y d by auto
      then obtain w where "cover_for co p v = Inr w" using cover_for_returns [OF c v(2,3)] by auto
      then show ?thesis using v a False lt y m by (simp add: forward_step.simps)
    qed (use a False in \<open>simp add: forward_step.simps\<close>)
  qed
qed

lemma forward_search_returns:
  assumes F: "fc_lib_ok F" and c: "coverable co p" and t: "0 < tcr" "tcr < 2 ^ 16"
  shows "0 \<le> x \<Longrightarrow> x < collateral co \<Longrightarrow> 0 \<le> y \<Longrightarrow> y < debt co \<Longrightarrow> overtakes n d2 d3 \<Longrightarrow>
     \<exists>r. forward_search F co p feed tcr n d2 d3 x y = Inr r"
proof (induction n arbitrary: d2 d3 x y)
  case (Suc n)
  have p: "position_price co p" using c by (simp add: coverable_def)
  have d: "0 < d2" "d2 < 2 ^ 62" using Suc.prems(5) by simp_all
  obtain g where g: "forward_step F co p d2 x y = Inr g" "GRAPHENE_MAX_SHARE_SUPPLY \<le> d2 \<longrightarrow> g = None"
    using forward_step_returns [OF F c Suc.prems(1-4) d] by blast
  show ?case
  proof (cases g)
    case None
    then show ?thesis using g by simp
  next
    case (Some z)
    obtain x' y' where z: "z = (x', y')" by (cases z)
    have S: "0 \<le> x' \<and> x' < collateral co \<and> 0 \<le> y' \<and> y' < debt co \<and> pay_for co p y' = Inr x'"
      using forward_step_settled [OF F p Suc.prems(1,3) less_imp_le [OF d(1)] g(1) [unfolded Some z]] .
    obtain good where gd: "reaches_target F co feed tcr x' y' = Inr good"
      using reaches_target_returns [OF F c _ _ _ _ t] S by blast
    have "overtakes n d3 (d2 + d3)" using Suc.prems(5) g(2) Some by auto
    then show ?thesis using Suc.IH [of x' y' d3 "d2 + d3"] gd S g(1) Some z by (cases good) simp_all
  qed
qed simp

section \<open>Both together\<close>

lemma initial_range:
  assumes c: "coverable co p" and x: "0 \<le> x" "0 \<le> y" and n: "0 \<le> n" "n \<le> debt co"
    and pay: "(if n = debt co then Inr (collateral co) else pay_for co p n) = Inr q"
    and cov: "(if (if q > collateral co then collateral co else q) = collateral co then Inr (debt co)
        else cover_for co p (if q > collateral co then collateral co else q)) = Inr k"
    and mx: "(max_pay, max_cover) = (if k \<ge> debt co then (collateral co, debt co) else (if q > collateral co then collateral co else q, k))"
    and lt: "\<not> (max_pay \<le> x \<or> max_cover \<le> y)"
  shows "range_ok F co p feed tcr False \<lparr>min_to_pay = x, min_to_cover = y, max_to_pay = max_pay, max_to_cover = max_cover\<rparr>"
proof (cases "k \<ge> debt co")
  case True
  then show ?thesis using x lt mx by (simp add: range_ok_def)
next
  case False
  then have q: "q < collateral co" "cover_for co p q = Inr k" "pay_for co p n = Inr q" using cov pay by (auto split: if_splits)
  have "nonneg64 n" using c n by (simp add: coverable_def nonneg64_def config_defs)
  then have "pay_for co p k = Inr q" using c by (intro stabilised(1) [OF _ _ q(3,2)]) (simp_all add: coverable_def)
  then show ?thesis using False x lt mx q by (simp add: range_ok_def)
qed

lemma cover_with_search_correct:
  assumes F: "fc_lib_ok F" and c: "coverable co p" and t: "0 < tcr" "tcr < 2 ^ 16" and f: "price_ok feed" and nd: "0 \<le> num" "0 < den"
    and x: "0 \<le> x" "x < collateral co" and y: "0 \<le> y" "y < debt co"
  shows "\<exists>n. cover_with_search F co p feed tcr num den x y = Inr n \<and> (n = debt co \<or> target_met F co p feed tcr n)"
proof -
  let ?n = "(num + amount (base feed) * amount (quote p) * tcr) div den + 1"
  let ?m = "if ?n \<ge> debt co then debt co else ?n"
  have p: "position_price co p" and pos: "0 < amount (quote p)" "0 < amount (base feed)" using c f by (simp_all add: coverable_def position_price_def price_ok_def pos64_def)
  have "0 \<le> amount (base feed) * amount (quote p) * tcr" using pos t by simp
  then have "0 \<le> ?n" using nd by (simp add: pos_imp_zdiv_nonneg_iff)
  then have m: "0 \<le> ?m" "?m \<le> debt co" using c by (simp_all add: coverable_def)
  obtain q where q: "(if ?m = debt co then Inr (collateral co) else pay_for co p ?m) = Inr q" "0 \<le> q" "q \<le> collateral co"
    using pay_for_returns [OF c m] c by (cases "?m = debt co") (auto simp: coverable_def)
  let ?q = "if q > collateral co then collateral co else q"
  have q': "?q = q" using q(3) by simp
  obtain k where k: "(if ?q = collateral co then Inr (debt co) else cover_for co p ?q) = Inr k"
    using cover_for_returns [OF c q(2,3)] unfolding q' by (cases "q = collateral co") auto
  obtain max_pay max_cover where mx: "(max_pay, max_cover) = (if k \<ge> debt co then (collateral co, debt co) else (?q, k))"
    by (metis (full_types))
  have eq: "cover_with_search F co p feed tcr num den x y = (if max_pay \<le> x \<or> max_cover \<le> y then Inr (debt co)
      else rbind (binary_search F co p feed tcr False \<lparr>min_to_pay = x, min_to_cover = y, max_to_pay = max_pay, max_to_cover = max_cover\<rparr>) (\<lambda>r.
                    case r of
                      Inl n \<Rightarrow> Inr n
                    | Inr (to_pay, to_cover) \<Rightarrow> forward_search F co p feed tcr 92 1 1 to_pay to_cover))"
    unfolding cover_with_search_def Let_def q(1) rbind_Inr k mx [symmetric] prod.case ..
  show ?thesis
  proof (cases "max_pay \<le> x \<or> max_cover \<le> y")
    case True
    then show ?thesis unfolding eq by simp
  next
    case False
    note R = initial_range [OF c x(1) y(1) m q(1) k mx False, of F feed tcr]
    obtain r where r: "binary_search F co p feed tcr False \<lparr>min_to_pay = x, min_to_cover = y, max_to_pay = max_pay, max_to_cover = max_cover\<rparr> = Inr r"
      using binary_search_returns [OF F c t R] by blast
    note B = binary_search_correct [OF F p R r]
    show ?thesis
    proof (cases r)
      case (Inl n)
      then show ?thesis unfolding eq using B False r by simp
    next
      case (Inr z)
      obtain u v where z: "z = (u, v)" by (cases z)
      have uv: "0 \<le> u" "u < collateral co" "0 \<le> v" "v < debt co" using B Inr z by simp_all
      obtain n where n: "forward_search F co p feed tcr 92 1 1 u v = Inr n"
        using forward_search_returns [OF F c t uv overtakes_92] by blast
      then show ?thesis
        unfolding eq using forward_search_correct [OF F p uv(1,3) _ _ n] False r Inr z by simp
    qed
  qed
qed

lemma first_guess:
  assumes c: "coverable co p" and n: "0 \<le> n" "n < debt co"
  shows "\<exists>f y x. asset_mult (mk_asset n (debt_type co)) p = Inr f \<and> cover_for co p (amount f) = Inr y \<and> pay_for co p y = Inr x \<and>
     0 \<le> y \<and> y < debt co \<and> 0 \<le> x"
proof -
  have pos: "0 < amount (base p)" "0 < amount (quote p)" and p: "position_price co p" using c by (simp_all add: coverable_def position_price_def price_ok_def pos64_def)
  have n64: "nonneg64 n" using c n by (simp add: coverable_def nonneg64_def config_defs)
  let ?f = "n * amount (base p) div amount (quote p)"
  have "n * amount (base p) \<le> debt co * amount (base p)" using n pos(1) by simp
  then have "n * amount (base p) < (collateral co + 1) * amount (quote p)" using c pos(2) by (simp add: coverable_def algebra_simps)
  then have f: "0 \<le> ?f" "?f \<le> collateral co" using quotient_le pos n by (simp_all add: pos_imp_zdiv_nonneg_iff)
  have "asset_mult (mk_asset n (debt_type co)) p = Inr (mk_asset ?f (collateral_type co))"
    using p f c n64 by (auto simp: asset_mult_exact position_price_def call_format_def debt_type_def collateral_type_def share_quotient_def coverable_def)
  moreover obtain y where y: "cover_for co p ?f = Inr y" "0 \<le> y" using cover_for_returns [OF c f] by blast
  have "nonneg64 ?f" using f c by (simp add: coverable_def nonneg64_def config_defs)
  then have "y * amount (base p) < n * amount (base p) + amount (base p)"
    using cover_for_bounds(1) [OF p _ y(1)] floor_div_bounds(1) [OF pos(2), of "n * amount (base p)"] pos(1) by simp
  then have "y \<le> n" using pos(1) by (rule scaled_le_cancel)
  ultimately show ?thesis using pay_for_returns [OF c y(2)] y n by auto
qed

lemma cover_to_target_correct:
  assumes F: "fc_lib_ok F" and c: "coverable co p" and t: "0 < tcr" "tcr < 2 ^ 16" and f: "price_ok feed"
  shows "\<exists>n. cover_to_target F co p feed tcr = Inr n \<and>
     (n = debt co \<or> target_met F co p feed tcr n \<or>
      n = 0 \<and> amount (base feed) * debt co * tcr < amount (quote feed) * collateral co * GRAPHENE_COLLATERAL_RATIO_DENOM)"
proof -
  let ?num = "amount (base feed) * amount (quote p) * debt co * tcr - amount (quote feed) * amount (quote p) * collateral co * GRAPHENE_COLLATERAL_RATIO_DENOM"
  let ?den = "amount (base feed) * amount (quote p) * tcr - amount (quote feed) * amount (base p) * GRAPHENE_COLLATERAL_RATIO_DENOM"
  have pos: "0 < amount (quote p)" using c by (simp add: coverable_def position_price_def price_ok_def pos64_def)
  show ?thesis
  proof (cases "?num < 0")
    case True
    then have "amount (quote p) * (amount (base feed) * debt co * tcr) < amount (quote p) * (amount (quote feed) * collateral co * GRAPHENE_COLLATERAL_RATIO_DENOM)"
      by (simp add: algebra_simps)
    then show ?thesis using True pos by (simp add: cover_to_target_def Let_def)
  next
    case num: False
    show ?thesis
    proof (cases "?den \<le> 0 \<or> ?num div ?den \<ge> debt co")
      case True
      then show ?thesis using num by (auto simp: cover_to_target_def Let_def)
    next
      case False
      then have n: "0 \<le> ?num div ?den" "?num div ?den < debt co" using num by (simp_all add: pos_imp_zdiv_nonneg_iff)
      obtain fp y x where G: "asset_mult (mk_asset (?num div ?den) (debt_type co)) p = Inr fp" "cover_for co p (amount fp) = Inr y" "pay_for co p y = Inr x"
          "0 \<le> y" "y < debt co" "0 \<le> x" using first_guess [OF c n] by blast
      have eq: "cover_to_target F co p feed tcr = (if x \<ge> collateral co then Inr (debt co) else rbind (reaches_target F co feed tcr x y) (\<lambda>good.
                   if good then Inr y else cover_with_search F co p feed tcr ?num ?den x y))"
        using num False G by (simp add: cover_to_target_def Let_def)
      show ?thesis
      proof (cases "x \<ge> collateral co")
        case True
        then show ?thesis unfolding eq by simp
      next
        case lt: False
        obtain good where g: "reaches_target F co feed tcr x y = Inr good"
          using reaches_target_returns [OF F c G(6) _ G(4,5) t] lt by auto
        have s: "\<exists>n. cover_with_search F co p feed tcr ?num ?den x y = Inr n \<and> (n = debt co \<or> target_met F co p feed tcr n)"
          using num False G lt by (intro cover_with_search_correct [OF F c t f]) simp_all
        show ?thesis
        proof (cases good)
          case True
          then show ?thesis unfolding eq using g G lt by (simp add: target_met_def)
        next
          case False
          then show ?thesis unfolding eq using g s lt by auto
        qed
      qed
    qed
  qed
qed


definition sample_position :: call_order_object where
  "sample_position = \<lparr>borrower = 6, collateral = 1700, debt = 1000, co_call_price = mk_price (mk_asset 34 0) (mk_asset 35 1),
     target_collateral_ratio = Some 2000\<rparr>"


end
