(* ===== verification/Market.thy ===== *)
theory Market
  imports Target_Ratio
begin

text \<open>
  The market (\<^verbatim>\<open>db_market.cpp\<close>): market fees, filling and cancelling orders, and the three kinds of
  matches: two limit orders, a limit order and a margin position, a margin position and a
  settlement request.

  An order is named by its instance number. The virtual operations pushed for the account
  history are not part of the chain state and are left out; a log line is not modelled.
\<close>

section \<open>Market fees\<close>

definition calculate_market_fee :: "asset_object \<Rightarrow> asset \<Rightarrow> asset result" where
  "calculate_market_fee trade_asset trade_amount =
     (if \<not> charges_market_fees trade_asset then Inr (mk_asset 0 (asset_id trade_amount))
      else if market_fee_percent (options trade_asset) = 0 then Inr (mk_asset 0 (asset_id trade_amount))
      else rbind (share_of_uint128 ((of_int (amount trade_amount) * of_nat (market_fee_percent (options trade_asset)))
                    div of_int GRAPHENE_100_PERCENT)) (\<lambda>percent_fee.
           Inr (mk_asset (if percent_fee > max_market_fee (options trade_asset) then max_market_fee (options trade_asset) else percent_fee)
             (asset_id trade_amount))))"

definition add_accumulated_fees :: "fc_lib \<Rightarrow> nat \<Rightarrow> int \<Rightarrow> database \<Rightarrow> database result" where
  "add_accumulated_fees F a n d =
     rbind (asset_dyn_id d a) (\<lambda>i.
     modify_dyn_data i (\<lambda>x. rbind (of_option Overflow (safe_add F (accumulated_fees x) n)) (\<lambda>s. Inr (x\<lparr>accumulated_fees := s\<rparr>))) d)"

definition pay_market_fees :: "fc_lib \<Rightarrow> asset \<Rightarrow> database \<Rightarrow> (asset \<times> database) result" where
  "pay_market_fees F receives d =
     rbind (index_get (assets d) (asset_id receives)) (\<lambda>recv_asset.
     rbind (calculate_market_fee recv_asset receives) (\<lambda>issuer_fees.
     rbind (if amount issuer_fees > 0 then add_accumulated_fees F (asset_id receives) (amount issuer_fees) d else Inr d) (\<lambda>d1.
     Inr (issuer_fees, d1))))"

definition modify_stats_of :: "nat \<Rightarrow> (account_statistics_object \<Rightarrow> account_statistics_object result) \<Rightarrow> database \<Rightarrow> database result" where
  "modify_stats_of acct m d = rbind (index_get (accounts d) acct) (\<lambda>a. modify_stats (statistics a) m d)"

definition sub_core_in_orders :: "fc_lib \<Rightarrow> int \<Rightarrow> account_statistics_object \<Rightarrow> account_statistics_object result" where
  "sub_core_in_orders F n s =
     rbind (of_option Overflow (safe_sub F (total_core_in_orders s) n)) (\<lambda>t. Inr (s\<lparr>total_core_in_orders := t\<rparr>))"

definition add_core_in_orders :: "fc_lib \<Rightarrow> int \<Rightarrow> account_statistics_object \<Rightarrow> account_statistics_object result" where
  "add_core_in_orders F n s =
     rbind (of_option Overflow (safe_add F (total_core_in_orders s) n)) (\<lambda>t. Inr (s\<lparr>total_core_in_orders := t\<rparr>))"

definition pay_order :: "fc_lib \<Rightarrow> nat \<Rightarrow> asset \<Rightarrow> asset \<Rightarrow> database \<Rightarrow> database result" where
  "pay_order F receiver receives pays d =
     rbind (modify_stats_of receiver (\<lambda>s. if asset_id pays = 0 then sub_core_in_orders F (amount pays) s else Inr s) d) (\<lambda>d1.
     adjust_balance F receiver receives d1)"

section \<open>Cancelling limit orders\<close>

text \<open>The scheduled fee of a cancellation: \<^verbatim>\<open>fee_schedule::calculate_fee\<close> at the unit price, which
  converts core into core and whose loop does not run.\<close>

definition core_cancel_fee :: "chain_parameters \<Rightarrow> int result" where
  "core_cancel_fee p =
     (let scaled = (of_nat (limit_order_cancel_fee p) * of_nat (fee_scale p) :: uint128) div of_int GRAPHENE_100_PERCENT
      in require (scaled \<le> of_int GRAPHENE_MAX_SHARE_SUPPLY) Assert_failed (Inr (uint scaled)))"

text \<open>The cancellation fee of a virtual cancellation, taken out of what was deferred: the pair is what
  is left of the deferred core fee and of the fee originally paid.\<close>

definition take_cancel_fee :: "fc_lib \<Rightarrow> limit_order_object \<Rightarrow> int \<Rightarrow> database \<Rightarrow> (int \<times> asset \<times> database) result" where
  "take_cancel_fee F order fee d =
     rbind (modify_stats_of (seller order) (stats_pay_fee F fee (cashback_vesting_threshold (parameters d))) d) (\<lambda>d1.
     rbind (of_option Overflow (safe_sub F (deferred_fee order) fee)) (\<lambda>left.
     if amount (deferred_paid_fee order) = 0 then Inr (left, deferred_paid_fee order, d1)
     else rbind (share_of_uint128 ((of_int (amount (deferred_paid_fee order)) * of_int fee + of_int (deferred_fee order) - 1)
                   div of_int (deferred_fee order))) (\<lambda>cancel_fee_amount.
          rbind (add_accumulated_fees F (asset_id (deferred_paid_fee order)) cancel_fee_amount d1) (\<lambda>d2.
          rbind (of_option Overflow (safe_sub F (amount (deferred_paid_fee order)) cancel_fee_amount)) (\<lambda>paid.
          Inr (left, mk_asset paid (asset_id (deferred_paid_fee order)), d2))))))"

definition charge_cancel_fee :: "fc_lib \<Rightarrow> limit_order_object \<Rightarrow> database \<Rightarrow> (int \<times> asset \<times> database) result" where
  "charge_cancel_fee F order d =
     rbind (core_cancel_fee (parameters d)) (\<lambda>scheduled.
     let fee = (if scheduled > deferred_fee order then deferred_fee order else scheduled)
     in if fee > 0 then take_cancel_fee F order fee d else Inr (deferred_fee order, deferred_paid_fee order, d))"

definition refund_fee :: "fc_lib \<Rightarrow> limit_order_object \<Rightarrow> int \<Rightarrow> asset \<Rightarrow> database \<Rightarrow> database result" where
  "refund_fee F order fee paid d =
     (if amount (deferred_paid_fee order) = 0 then adjust_balance F (seller order) (mk_asset fee 0) d
      else rbind (adjust_balance F (seller order) paid d) (\<lambda>d1.
           rbind (asset_dyn_id d1 (asset_id paid)) (\<lambda>i.
           modify_dyn_data i (\<lambda>x. rbind (of_option Overflow (safe_add F (fee_pool x) fee)) (\<lambda>s. Inr (x\<lparr>fee_pool := s\<rparr>))) d1)))"

definition remove_limit_order :: "nat \<Rightarrow> database \<Rightarrow> database result" where
  "remove_limit_order i d = rbind (index_remove i (limit_orders d)) (\<lambda>ix. Inr (d\<lparr>limit_orders := ix\<rparr>))"

definition cancel_limit_order :: "fc_lib \<Rightarrow> nat \<Rightarrow> bool \<Rightarrow> bool \<Rightarrow> database \<Rightarrow> database result" where
  "cancel_limit_order F i create_virtual_op skip_cancel_fee d =
     rbind (index_get (limit_orders d) i) (\<lambda>order.
     rbind (if create_virtual_op \<and> \<not> skip_cancel_fee \<and> deferred_fee order > 0 then charge_cancel_fee F order d
            else Inr (deferred_fee order, deferred_paid_fee order, d)) (\<lambda>(fee, paid, d1).
     rbind (if asset_id (amount_for_sale order) = 0
            then modify_stats_of (seller order) (sub_core_in_orders F (for_sale order)) d1 else Inr d1) (\<lambda>d2.
     rbind (adjust_balance F (seller order) (amount_for_sale order) d2) (\<lambda>d3.
     rbind (refund_fee F order fee paid d3) (\<lambda>d4.
     remove_limit_order i d4)))))"

definition maybe_cull_small_order :: "fc_lib \<Rightarrow> nat \<Rightarrow> database \<Rightarrow> (bool \<times> database) result" where
  "maybe_cull_small_order F i d =
     rbind (index_get (limit_orders d) i) (\<lambda>order.
     rbind (amount_to_receive order) (\<lambda>r.
     if amount r = 0
     then rbind (cancel_limit_order F i True (deferred_fee order > 0 \<and> head_block_time d \<le> HARDFORK_CORE_604_TIME) d) (\<lambda>d1.
          Inr (True, d1))
     else Inr (False, d)))"

section \<open>Filling orders\<close>

definition pay_deferred_fees :: "fc_lib \<Rightarrow> limit_order_object \<Rightarrow> database \<Rightarrow> database result" where
  "pay_deferred_fees F order d =
     rbind (if deferred_fee order > 0
            then modify_stats_of (seller order) (stats_pay_fee F (deferred_fee order) (cashback_vesting_threshold (parameters d))) d
            else Inr d) (\<lambda>d1.
     if amount (deferred_paid_fee order) > 0
     then add_accumulated_fees F (asset_id (deferred_paid_fee order)) (amount (deferred_paid_fee order)) d1
     else Inr d1)"

definition modify_limit_order ::
  "nat \<Rightarrow> (limit_order_object \<Rightarrow> limit_order_object result) \<Rightarrow> database \<Rightarrow> database result" where
  "modify_limit_order i m d = rbind (ix_modify i m (limit_orders d)) (\<lambda>ix. Inr (d\<lparr>limit_orders := ix\<rparr>))"

definition fill_limit_order :: "fc_lib \<Rightarrow> nat \<Rightarrow> asset \<Rightarrow> asset \<Rightarrow> bool \<Rightarrow> database \<Rightarrow> (bool \<times> database) result" where
  "fill_limit_order F i pays receives cull_if_small d =
     rbind (index_get (limit_orders d) i) (\<lambda>order.
     require (asset_id (amount_for_sale order) = asset_id pays) Assert_failed
     (require (asset_id pays \<noteq> asset_id receives) Assert_failed
     (rbind (pay_market_fees F receives d) (\<lambda>(issuer_fees, d1).
      rbind (asset_minus F receives issuer_fees) (\<lambda>net.
      rbind (pay_order F (seller order) net pays d1) (\<lambda>d2.
      rbind (pay_deferred_fees F order d2) (\<lambda>d3.
      if pays = amount_for_sale order
      then rbind (remove_limit_order i d3) (\<lambda>d4. Inr (True, d4))
      else rbind (modify_limit_order i (\<lambda>b.
                    rbind (of_option Overflow (safe_sub F (for_sale b) (amount pays))) (\<lambda>left.
                    Inr (b\<lparr>for_sale := left, deferred_fee := 0, deferred_paid_fee := (deferred_paid_fee b)\<lparr>amount := 0\<rparr>\<rparr>))) d3) (\<lambda>d4.
           if cull_if_small \<or> head_block_time d < HARDFORK_555_TIME then maybe_cull_small_order F i d4 else Inr (False, d4)))))))))"

definition modify_call_order ::
  "nat \<Rightarrow> (call_order_object \<Rightarrow> call_order_object result) \<Rightarrow> database \<Rightarrow> database result" where
  "modify_call_order i m d = rbind (ix_modify i m (call_orders d)) (\<lambda>ix. Inr (d\<lparr>call_orders := ix\<rparr>))"

definition remove_call_order :: "nat \<Rightarrow> database \<Rightarrow> database result" where
  "remove_call_order i d = rbind (index_remove i (call_orders d)) (\<lambda>ix. Inr (d\<lparr>call_orders := ix\<rparr>))"

definition reduce_supply :: "fc_lib \<Rightarrow> nat \<Rightarrow> int \<Rightarrow> database \<Rightarrow> database result" where
  "reduce_supply F a n d =
     rbind (asset_dyn_id d a) (\<lambda>i.
     modify_dyn_data i (\<lambda>x. rbind (of_option Overflow (safe_sub F (current_supply x) n)) (\<lambda>s. Inr (x\<lparr>current_supply := s\<rparr>))) d)"

text \<open>The change of the position. A position without debt gives up its collateral; the caller gets it from the old object.\<close>

definition reduce_call_order ::
  "fc_lib \<Rightarrow> asset \<Rightarrow> asset \<Rightarrow> asset_object \<Rightarrow> database \<Rightarrow> call_order_object \<Rightarrow> call_order_object result" where
  "reduce_call_order F pays receives mia d order =
     rbind (of_option Overflow (safe_sub F (debt order) (amount receives))) (\<lambda>new_debt.
     rbind (of_option Overflow (safe_sub F (collateral order) (amount pays))) (\<lambda>new_collateral.
     let order1 = order\<lparr>debt := new_debt, collateral := new_collateral\<rparr>
     in if new_debt = 0 then Inr (order1\<lparr>collateral := 0\<rparr>)
        else if next_maintenance_time d > HARDFORK_CORE_343_TIME
        then rbind (bitasset_data d mia) (\<lambda>b.
             rbind (call_price F (get_debt order1) (get_collateral order1) (maintenance_collateral_ratio (current_feed b))) (\<lambda>p.
             Inr (order1\<lparr>co_call_price := p\<rparr>)))
        else Inr order1))"

definition release_collateral :: "fc_lib \<Rightarrow> nat \<Rightarrow> asset \<Rightarrow> asset option \<Rightarrow> database \<Rightarrow> database result" where
  "release_collateral F who pays freed d =
     (if freed \<noteq> None \<or> asset_id pays = 0
      then rbind (case freed of None \<Rightarrow> Inr d | Some x \<Rightarrow> adjust_balance F who x d) (\<lambda>d1.
           modify_stats_of who (\<lambda>s.
             rbind (case freed of
                      None \<Rightarrow> Inr s
                    | Some x \<Rightarrow> if amount x > 0 \<and> asset_id x = 0 then sub_core_in_orders F (amount x) s else Inr s) (\<lambda>s1.
             if asset_id pays = 0 then sub_core_in_orders F (amount pays) s1 else Inr s1)) d1)
      else Inr d)"

definition fill_call_order :: "fc_lib \<Rightarrow> nat \<Rightarrow> asset \<Rightarrow> asset \<Rightarrow> database \<Rightarrow> (bool \<times> database) result" where
  "fill_call_order F i pays receives d =
     rbind (index_get (call_orders d) i) (\<lambda>order.
     require (asset_id (get_debt order) = asset_id receives) Assert_failed
     (require (asset_id (get_collateral order) = asset_id pays) Assert_failed
     (rbind (asset_ge (get_collateral order) pays) (\<lambda>enough.
      require enough Assert_failed
      (rbind (index_get (assets d) (asset_id receives)) (\<lambda>mia.
       require (is_market_issued mia) Assert_failed
       (rbind (modify_call_order i (reduce_call_order F pays receives mia d) d) (\<lambda>d1.
        let freed = (if debt order = amount receives then Some (mk_asset (collateral order - amount pays) (asset_id pays)) else None)
        in rbind (reduce_supply F (asset_id receives) (amount receives) d1) (\<lambda>d2.
           rbind (release_collateral F (borrower order) pays freed d2) (\<lambda>d3.
           if freed \<noteq> None then rbind (remove_call_order i d3) (\<lambda>d4. Inr (True, d4)) else Inr (False, d3)))))))))))"

definition modify_settlement ::
  "nat \<Rightarrow> (force_settlement_object \<Rightarrow> force_settlement_object result) \<Rightarrow> database \<Rightarrow> database result" where
  "modify_settlement i m d = rbind (ix_modify i m (force_settlements d)) (\<lambda>ix. Inr (d\<lparr>force_settlements := ix\<rparr>))"

definition remove_settlement :: "nat \<Rightarrow> database \<Rightarrow> database result" where
  "remove_settlement i d = rbind (index_remove i (force_settlements d)) (\<lambda>ix. Inr (d\<lparr>force_settlements := ix\<rparr>))"

definition fill_settle_order :: "fc_lib \<Rightarrow> nat \<Rightarrow> asset \<Rightarrow> asset \<Rightarrow> database \<Rightarrow> (bool \<times> database) result" where
  "fill_settle_order F i pays receives d =
     rbind (index_get (force_settlements d) i) (\<lambda>settle.
     rbind (pay_market_fees F receives d) (\<lambda>(issuer_fees, d1).
     rbind (asset_less pays (fs_balance settle)) (\<lambda>less.
     rbind (if less then modify_settlement i (\<lambda>s. rbind (asset_minus F (fs_balance s) pays) (\<lambda>b. Inr (s\<lparr>fs_balance := b\<rparr>))) d1
            else Inr d1) (\<lambda>d2.
     rbind (asset_minus F receives issuer_fees) (\<lambda>net.
     rbind (adjust_balance F (fs_owner settle) net d2) (\<lambda>d3.
     if less then Inr (False, d3) else rbind (remove_settlement i d3) (\<lambda>d4. Inr (True, d4))))))))"

section \<open>Matching\<close>

text \<open>What a match of two limit orders moves: what the taker pays, what it receives, and whether a
  small rest of the taker is cancelled; \<^verbatim>\<open>None\<close> when the taker would pay for nothing.\<close>

definition limit_match_amounts ::
  "database \<Rightarrow> limit_order_object \<Rightarrow> limit_order_object \<Rightarrow> price \<Rightarrow> (asset \<times> asset \<times> bool) option result" where
  "limit_match_amounts d usd core match_price =
     (let usd_for_sale = amount_for_sale usd; core_for_sale = amount_for_sale core;
          before_342 = next_maintenance_time d \<le> HARDFORK_CORE_342_TIME
      in rbind (asset_mult core_for_sale match_price) (\<lambda>core_worth.
         rbind (asset_le usd_for_sale core_worth) (\<lambda>taker_smaller.
         if taker_smaller
         then rbind (asset_mult usd_for_sale match_price) (\<lambda>usd_receives.
              if amount usd_receives = 0 \<and> next_maintenance_time d > HARDFORK_CORE_184_TIME then Inr None
              else if before_342 then Inr (Some (usd_for_sale, usd_receives, False))
              else rbind (multiply_and_round_up usd_receives match_price) (\<lambda>core_receives.
                   Inr (Some (core_receives, usd_receives, True))))
         else if before_342 then Inr (Some (core_worth, core_for_sale, False))
         else rbind (multiply_and_round_up core_worth match_price) (\<lambda>usd_receives.
              Inr (Some (core_worth, usd_receives, False))))))"

text \<open>The result is the bit field of the source: bit 0 when the taker is filled, bit 1 when the maker is.\<close>

definition filled_bits :: "bool \<Rightarrow> bool \<Rightarrow> nat" where
  "filled_bits taker maker = (if taker then 1 else 0) + (if maker then 2 else 0)"

definition match_limit_orders :: "fc_lib \<Rightarrow> nat \<Rightarrow> nat \<Rightarrow> price \<Rightarrow> database \<Rightarrow> (nat \<times> database) result" where
  "match_limit_orders F usd_id core_id match_price d =
     rbind (index_get (limit_orders d) usd_id) (\<lambda>usd.
     rbind (index_get (limit_orders d) core_id) (\<lambda>core.
     require (asset_id (quote (sell_price usd)) = asset_id (base (sell_price core))) Assert_failed
     (require (asset_id (base (sell_price usd)) = asset_id (quote (sell_price core))) Assert_failed
     (require (for_sale usd > 0 \<and> for_sale core > 0) Assert_failed
     (rbind (limit_match_amounts d usd core match_price) (\<lambda>amounts.
      case amounts of
        None \<Rightarrow> Inr (1, d)
      | Some (usd_pays, usd_receives, cull_taker) \<Rightarrow>
          require (next_maintenance_time d \<le> HARDFORK_CORE_342_TIME \<longrightarrow>
                   usd_pays = amount_for_sale usd \<or> usd_receives = amount_for_sale core) Assert_failed
          (rbind (fill_limit_order F usd_id usd_pays usd_receives cull_taker d) (\<lambda>(taker, d1).
           rbind (fill_limit_order F core_id usd_receives usd_pays True d1) (\<lambda>(maker, d2).
           require (taker \<or> maker) Assert_failed (Inr (filled_bits taker maker, d2)))))))))))"

definition match_limit_call ::
  "fc_lib \<Rightarrow> nat \<Rightarrow> nat \<Rightarrow> price \<Rightarrow> price \<Rightarrow> int \<Rightarrow> database \<Rightarrow>
   (nat \<times> database) result" where
  "match_limit_call F bid_id ask_id match_price feed_price mcr d =
     rbind (index_get (limit_orders d) bid_id) (\<lambda>bid.
     rbind (index_get (call_orders d) ask_id) (\<lambda>ask.
     require (sell_asset_id bid = debt_type ask) Assert_failed
     (require (receive_asset_id bid = collateral_type ask) Assert_failed
     (require (for_sale bid > 0 \<and> debt ask > 0 \<and> collateral ask > 0) Assert_failed
     (let before_184 = next_maintenance_time d \<le> HARDFORK_CORE_184_TIME; before_342 = next_maintenance_time d \<le> HARDFORK_CORE_342_TIME;
          before_834 = next_maintenance_time d \<le> HARDFORK_CORE_834_TIME; usd_for_sale = amount_for_sale bid
      in rbind (if before_834 then Inr (get_debt ask)
                else rbind (get_max_debt_to_cover F ask match_price feed_price mcr) (\<lambda>n. Inr (mk_asset n (debt_type ask)))) (\<lambda>usd_to_buy.
         rbind (asset_greater usd_to_buy usd_for_sale) (\<lambda>limit_smaller.
         rbind (if limit_smaller
                then rbind (asset_mult usd_for_sale match_price) (\<lambda>order_receives.
                     if amount order_receives = 0 \<and> \<not> before_184 then Inr None
                     else if before_342 then Inr (Some (usd_for_sale, order_receives, False))
                     else rbind (multiply_and_round_up order_receives match_price) (\<lambda>call_receives.
                          Inr (Some (call_receives, order_receives, True))))
                else if before_342
                then rbind (asset_mult usd_to_buy match_price) (\<lambda>order_receives.
                     if amount order_receives = 0 \<and> \<not> before_184 then Inr None else Inr (Some (usd_to_buy, order_receives, False)))
                else rbind (multiply_and_round_up usd_to_buy match_price) (\<lambda>order_receives.
                     Inr (Some (usd_to_buy, order_receives, False)))) (\<lambda>amounts.
         case amounts of
           None \<Rightarrow> Inr (1, d)
         | Some (order_pays, order_receives, cull_taker) \<Rightarrow>
             rbind (fill_limit_order F bid_id order_pays order_receives cull_taker d) (\<lambda>(taker, d1).
             rbind (fill_call_order F ask_id order_receives order_pays d1) (\<lambda>(maker, d2).
             Inr (filled_bits taker maker, d2)))))))))))"

definition asset_min :: "asset \<Rightarrow> asset \<Rightarrow> asset result" where
  "asset_min a b = rbind (asset_less b a) (\<lambda>l. Inr (if l then b else a))"

text \<open>The amounts of a forced settlement: what the position pays and receives and whether the rest of the request is
  cancelled, or the case where the position would pay nothing, with the flag that the request is cancelled.\<close>

definition settle_match_amounts ::
  "database \<Rightarrow> call_order_object \<Rightarrow> force_settlement_object \<Rightarrow> price \<Rightarrow> asset \<Rightarrow> (bool + asset \<times> asset \<times> bool) result" where
  "settle_match_amounts d call settle match_price max_settlement =
     rbind (asset_min (fs_balance settle) max_settlement) (\<lambda>settle_for_sale.
     rbind (asset_min settle_for_sale (get_debt call)) (\<lambda>call_receives.
     rbind (asset_mult call_receives match_price) (\<lambda>call_pays.
     if amount call_pays = 0
     then if next_maintenance_time d > HARDFORK_CORE_184_TIME
          then if call_receives = get_debt call then Inr (Inr (call_pays\<lparr>amount := 1\<rparr>, call_receives, False))
               else Inr (Inl (call_receives = fs_balance settle))
          else Inr (Inr (call_pays, call_receives, False))
     else if next_maintenance_time d > HARDFORK_CORE_342_TIME
     then if call_receives = get_debt call
          then rbind (multiply_and_round_up call_receives match_price) (\<lambda>p. Inr (Inr (p, call_receives, False)))
          else rbind (multiply_and_round_up call_pays match_price) (\<lambda>r.
               Inr (Inr (call_pays, r, call_receives = fs_balance settle \<and> r \<noteq> fs_balance settle)))
     else Inr (Inr (call_pays, call_receives, False)))))"

definition match_call_settle :: "fc_lib \<Rightarrow> nat \<Rightarrow> nat \<Rightarrow> price \<Rightarrow> asset \<Rightarrow> database \<Rightarrow> (asset \<times> database) result" where
  "match_call_settle F call_id settle_id match_price max_settlement d =
     rbind (index_get (call_orders d) call_id) (\<lambda>call.
     rbind (index_get (force_settlements d) settle_id) (\<lambda>settle.
     require (asset_id (get_debt call) = asset_id (fs_balance settle)) Assert_failed
     (require (debt call > 0 \<and> collateral call > 0 \<and> amount (fs_balance settle) > 0) Assert_failed
     (rbind (settle_match_amounts d call settle match_price max_settlement) (\<lambda>amounts.
      case amounts of
        Inl cancelled \<Rightarrow>
          rbind (if cancelled then cancel_settle_order F settle_id d else Inr d) (\<lambda>d1. Inr (mk_asset 0 (asset_id (fs_balance settle)), d1))
      | Inr (call_pays, call_receives, cull) \<Rightarrow>
          rbind (if next_maintenance_time d \<le> HARDFORK_CORE_342_TIME then asset_less call_pays (get_collateral call) else Inr True) (\<lambda>ok.
          require ok Black_swan
          (rbind (fill_call_order F call_id call_pays call_receives d) (\<lambda>(c, d1).
           rbind (fill_settle_order F settle_id call_receives call_pays d1) (\<lambda>(s, d2).
           rbind (if cull then cancel_settle_order F settle_id d2 else Inr d2) (\<lambda>d3.
           Inr (call_receives, d3)))))))))))"

end
