(* ===== verification/Market_Value.thy ===== *)
theory Market_Value
  imports Market
begin

text \<open>
  What the market moves. \<open>flow\<close> describes the steps that move money only, \<open>trade\<close> the ones that also change
  the order books; every fill is described by what is paid and received, and every match keeps holdings and
  supply of each asset in step.
\<close>

section \<open>Changes of money only\<close>

definition money_only :: "database \<Rightarrow> database \<Rightarrow> bool" where
  "money_only d d' \<longleftrightarrow> accounts d' = accounts d \<and> assets d' = assets d \<and> bitassets d' = bitassets d \<and>
     vesting_balances d' = vesting_balances d \<and> withdraw_permissions d' = withdraw_permissions d \<and> witnesses d' = witnesses d \<and>
     limit_orders d' = limit_orders d \<and> call_orders d' = call_orders d \<and> force_settlements d' = force_settlements d \<and>
     collateral_bids d' = collateral_bids d \<and> witness_budget d' = witness_budget d \<and> head_block_time d' = head_block_time d \<and>
     next_maintenance_time d' = next_maintenance_time d \<and> parameters d' = parameters d"

text \<open>\<open>flow d d' v\<close>: only money moves, and what is held of asset \<open>a\<close> beyond its supply grows by \<open>v a\<close>.\<close>

definition flow :: "database \<Rightarrow> database \<Rightarrow> (nat \<Rightarrow> int) \<Rightarrow> bool" where
  "flow d d' v \<longleftrightarrow> db_ok d' \<and> money_only d d' \<and> (\<forall>a. excess d' a = excess d a + v a)"

lemma money_only_refl [simp]: "money_only d d"
  by (simp add: money_only_def)

lemma money_only_trans: "money_only d d1 \<Longrightarrow> money_only d1 d2 \<Longrightarrow> money_only d d2"
  by (simp add: money_only_def)

lemma flow_refl: "db_ok d \<Longrightarrow> flow d d (\<lambda>_. 0)"
  by (simp add: flow_def)

lemma flow_trans: "flow d d1 v \<Longrightarrow> flow d1 d2 w \<Longrightarrow> flow d d2 (\<lambda>a. v a + w a)"
  using money_only_trans by (auto simp: flow_def)

lemma flow_ok: "flow d d' v \<Longrightarrow> db_ok d'"
  by (simp add: flow_def)

lemma flow_cong: "flow d d' v \<Longrightarrow> (\<And>a. v a = w a) \<Longrightarrow> flow d d' w"
  by (simp add: flow_def)

lemma flow_keeps:
  assumes "flow d d' v"
  shows "accounts d' = accounts d" "assets d' = assets d" "bitassets d' = bitassets d" "limit_orders d' = limit_orders d"
    "call_orders d' = call_orders d" "force_settlements d' = force_settlements d" "collateral_bids d' = collateral_bids d"
    "head_block_time d' = head_block_time d" "next_maintenance_time d' = next_maintenance_time d" "parameters d' = parameters d"
  using assms by (simp_all add: flow_def money_only_def)

lemma adjust_balance_flow:
  assumes "fc_lib_ok F" and "db_ok d" and "adjust_balance F who x d = Inr d'"
  shows "flow d d' (\<lambda>a. if_asset a x)"
  using adjust_balance_effect [OF assms] by (auto simp: flow_def money_only_def)

lemma modify_stats_flow:
  assumes ok: "db_ok d" and run: "modify_stats_of who m d = Inr d'"
    and m: "\<And>s s'. m s = Inr s' \<Longrightarrow> pending_fees s' + pending_vested_fees s' = pending_fees s + pending_vested_fees s + k"
  shows "flow d d' (\<lambda>a. if_asset a (mk_asset k 0))"
proof -
  obtain ac :: account_object where "modify_stats (statistics ac) m d = Inr d'" using run by (auto simp: modify_stats_of_def)
  from modify_stats_effect [OF ok this] obtain x x' ix where x: "m x = Inr x'" "d' = d\<lparr>account_stats := ix\<rparr>" "db_ok d'"
      "\<forall>a. excess d' a = excess d a + (if a = 0 then pending_fees x' + pending_vested_fees x' - (pending_fees x + pending_vested_fees x) else 0)"
    by blast
  then show ?thesis using m [OF x(1)] by (simp add: flow_def money_only_def)
qed

lemma dyn_flow:
  assumes F: "fc_lib_ok F" and ok: "db_ok d" and i: "asset_dyn_id d s = Inr i" and run: "modify_dyn_data i m d = Inr d'"
    and m: "\<And>x x'. m x = Inr x' \<Longrightarrow> held_in_dyn x' = held_in_dyn x + k \<and> fee_pool x' = fee_pool x + p"
  shows "flow d d' (\<lambda>a. if_asset a (mk_asset k s) + if_asset a (mk_asset p 0))"
proof -
  obtain x x' ix where x: "m x = Inr x'" "d' = d\<lparr>asset_dyn_data := ix\<rparr>" "db_ok d'"
      "\<forall>a. excess d' a = excess d a + (if a = s then held_in_dyn x' - held_in_dyn x else 0) + (if a = 0 then fee_pool x' - fee_pool x else 0)"
    using asset_dyn_effect [OF F ok i run] by blast
  then show ?thesis using m [OF x(1)] by (simp add: flow_def money_only_def)
qed

lemma sub_core_in_orders_pending:
  "sub_core_in_orders F n s = Inr s' \<Longrightarrow> pending_fees s' + pending_vested_fees s' = pending_fees s + pending_vested_fees s"
  by (auto simp: sub_core_in_orders_def)

lemma add_core_in_orders_pending:
  "add_core_in_orders F n s = Inr s' \<Longrightarrow> pending_fees s' + pending_vested_fees s' = pending_fees s + pending_vested_fees s"
  by (auto simp: add_core_in_orders_def)

lemma stats_pay_fee_pending:
  "fc_lib_ok F \<Longrightarrow> stats_pay_fee F n t s = Inr s' \<Longrightarrow> pending_fees s' + pending_vested_fees s' = pending_fees s + pending_vested_fees s + n"
  by (auto simp: stats_pay_fee_def fc_safe_simps split: if_splits)

lemma core_orders_flow:
  assumes "db_ok d" and "modify_stats_of who m d = Inr d'"
    and "\<And>s s'. m s = Inr s' \<Longrightarrow> pending_fees s' + pending_vested_fees s' = pending_fees s + pending_vested_fees s"
  shows "flow d d' (\<lambda>_. 0)"
  using modify_stats_flow [OF assms(1,2), of 0] assms(3) by simp

lemma pay_fee_flow:
  assumes "fc_lib_ok F" and "db_ok d" and "modify_stats_of who (stats_pay_fee F n t) d = Inr d'"
  shows "flow d d' (\<lambda>a. if_asset a (mk_asset n 0))"
  by (rule modify_stats_flow [OF assms(2,3)]) (rule stats_pay_fee_pending [OF assms(1)])

lemma add_accumulated_fees_flow:
  assumes F: "fc_lib_ok F" and ok: "db_ok d" and run: "add_accumulated_fees F s n d = Inr d'"
  shows "flow d d' (\<lambda>a. if_asset a (mk_asset n s))"
proof -
  obtain i where i: "asset_dyn_id d s = Inr i"
      "modify_dyn_data i (\<lambda>x. rbind (of_option Overflow (safe_add F (accumulated_fees x) n)) (\<lambda>s. Inr (x\<lparr>accumulated_fees := s\<rparr>))) d = Inr d'"
    using run by (auto simp: add_accumulated_fees_def)
  have "flow d d' (\<lambda>a. if_asset a (mk_asset n s) + if_asset a (mk_asset 0 0))"
    by (rule dyn_flow [OF F ok i]) (auto simp: held_in_dyn_def fc_safe_simps [OF F])
  then show ?thesis by simp
qed

lemma reduce_supply_flow:
  assumes F: "fc_lib_ok F" and ok: "db_ok d" and run: "reduce_supply F s n d = Inr d'"
  shows "flow d d' (\<lambda>a. if_asset a (mk_asset n s))"
proof -
  obtain i where i: "asset_dyn_id d s = Inr i"
      "modify_dyn_data i (\<lambda>x. rbind (of_option Overflow (safe_sub F (current_supply x) n)) (\<lambda>s. Inr (x\<lparr>current_supply := s\<rparr>))) d = Inr d'"
    using run by (auto simp: reduce_supply_def)
  have "flow d d' (\<lambda>a. if_asset a (mk_asset n s) + if_asset a (mk_asset 0 0))"
    by (rule dyn_flow [OF F ok i]) (auto simp: held_in_dyn_def fc_safe_simps [OF F])
  then show ?thesis by simp
qed

lemma pay_market_fees_flow:
  assumes F: "fc_lib_ok F" and ok: "db_ok d" and run: "pay_market_fees F x d = Inr (fees, d')"
  shows "flow d d' (\<lambda>a. if_asset a (mk_asset (max 0 (amount fees)) (asset_id x)))" and "asset_id fees = asset_id x"
proof -
  obtain ra where P: "calculate_market_fee ra x = Inr fees"
      "(if amount fees > 0 then add_accumulated_fees F (asset_id x) (amount fees) d else Inr d) = Inr d'"
    using run by (auto simp: pay_market_fees_def)
  show "asset_id fees = asset_id x" using P(1) by (auto simp: calculate_market_fee_def split: if_splits)
  show "flow d d' (\<lambda>a. if_asset a (mk_asset (max 0 (amount fees)) (asset_id x)))"
  proof (cases "amount fees > 0")
    case True
    then show ?thesis using P(2) add_accumulated_fees_flow [OF F ok, of "asset_id x" "amount fees" d'] by simp
  next
    case False
    then have "d' = d" using P(2) by simp
    then show ?thesis using False by (auto intro: flow_cong [OF flow_refl [OF ok]])
  qed
qed

lemma pay_order_flow:
  assumes F: "fc_lib_ok F" and ok: "db_ok d" and run: "pay_order F who x p d = Inr d'"
  shows "flow d d' (\<lambda>a. if_asset a x)"
proof -
  obtain d1 where P: "modify_stats_of who (\<lambda>s. if asset_id p = 0 then sub_core_in_orders F (amount p) s else Inr s) d = Inr d1"
      "adjust_balance F who x d1 = Inr d'"
    using run by (auto simp: pay_order_def)
  have 1: "flow d d1 (\<lambda>_. 0)"
    by (rule core_orders_flow [OF ok P(1)]) (auto split: if_splits dest: sub_core_in_orders_pending)
  show ?thesis using flow_trans [OF 1 adjust_balance_flow [OF F flow_ok [OF 1] P(2)]] by simp
qed


section \<open>Changes of the order books\<close>

definition order_value :: "nat \<Rightarrow> limit_order_object \<Rightarrow> int" where
  "order_value a lo = if_asset a (amount_for_sale lo) + if_asset a (deferred_paid_fee lo) + if_asset a (mk_asset (deferred_fee lo) 0)"

lemma excess_limit_orders:
  assumes "\<And>f. ix_sum f ix = ix_sum f (limit_orders d) + n f" and "\<And>f g. n (\<lambda>x. f x + g x) = n f + n g"
  shows "excess (d\<lparr>limit_orders := ix\<rparr>) a = excess d a + n (\<lambda>lo. if_asset a (amount_for_sale lo) + if_asset a (deferred_paid_fee lo)) +
     (if a = 0 then n deferred_fee else 0)"
  using assms by (simp add: excess_defs)

lemma remove_limit_order_effect:
  assumes ok: "db_ok d" and run: "remove_limit_order i d = Inr d'"
  shows "\<exists>lo ix. index_find (limit_orders d) i = Some lo \<and> d' = d\<lparr>limit_orders := ix\<rparr> \<and> index_find ix = (index_find (limit_orders d))(i := None) \<and>
     db_ok d' \<and> (\<forall>a. excess d' a = excess d a - order_value a lo)"
proof -
  obtain ix where ix: "index_remove i (limit_orders d) = Inr ix" "d' = d\<lparr>limit_orders := ix\<rparr>"
    using run by (auto simp: remove_limit_order_def)
  have iok: "ix_ok (limit_orders d)" using ok by (simp add: db_ok_def)
  obtain lo where lo: "index_find (limit_orders d) i = Some lo" "index_find ix = (index_find (limit_orders d))(i := None)"
      "\<And>f. ix_sum f ix = ix_sum f (limit_orders d) - f lo" "ix_ok ix"
    using ix_removeE [OF iok ix(1)] by metis
  have "excess d' a = excess d a - order_value a lo" for a
    unfolding ix(2) by (subst excess_limit_orders [where n = "\<lambda>f. - f lo"]) (simp_all add: lo(3) order_value_def)
  moreover have "db_ok d'" using ok lo(4) by (simp add: db_ok_def assets_ok_def ix(2))
  ultimately show ?thesis using lo ix(2) by blast
qed

lemma modify_limit_order_effect:
  assumes ok: "db_ok d" and run: "modify_limit_order i m d = Inr d'"
  shows "\<exists>lo lo' ix. index_find (limit_orders d) i = Some lo \<and> m lo = Inr lo' \<and> d' = d\<lparr>limit_orders := ix\<rparr> \<and>
     index_find ix = (index_find (limit_orders d))(i \<mapsto> lo') \<and> db_ok d' \<and> (\<forall>a. excess d' a = excess d a + order_value a lo' - order_value a lo)"
proof -
  obtain ix where ix: "ix_modify i m (limit_orders d) = Inr ix" "d' = d\<lparr>limit_orders := ix\<rparr>"
    using run by (auto simp: modify_limit_order_def)
  have iok: "ix_ok (limit_orders d)" using ok by (simp add: db_ok_def)
  obtain lo lo' where lo: "index_find (limit_orders d) i = Some lo" "m lo = Inr lo'" "index_find ix = (index_find (limit_orders d))(i \<mapsto> lo')"
      "\<And>f. ix_sum f ix = ix_sum f (limit_orders d) + f lo' - f lo" "ix_ok ix"
    using ix_modifyE [OF iok ix(1)] by metis
  have "excess d' a = excess d a + order_value a lo' - order_value a lo" for a
    unfolding ix(2) by (subst excess_limit_orders [where n = "\<lambda>f. f lo' - f lo"]) (simp_all add: lo(4) order_value_def)
  moreover have "db_ok d'" using ok lo(5) by (simp add: db_ok_def assets_ok_def ix(2))
  ultimately show ?thesis using lo ix(2) by blast
qed

lemma remove_call_order_effect:
  assumes ok: "db_ok d" and run: "remove_call_order i d = Inr d'"
  shows "\<exists>co ix. index_find (call_orders d) i = Some co \<and> d' = d\<lparr>call_orders := ix\<rparr> \<and> index_find ix = (index_find (call_orders d))(i := None) \<and>
     db_ok d' \<and> (\<forall>a. excess d' a = excess d a - if_asset a (get_collateral co))"
proof -
  obtain ix where ix: "index_remove i (call_orders d) = Inr ix" "d' = d\<lparr>call_orders := ix\<rparr>"
    using run by (auto simp: remove_call_order_def)
  have iok: "ix_ok (call_orders d)" using ok by (simp add: db_ok_def)
  obtain co where co: "index_find (call_orders d) i = Some co" "index_find ix = (index_find (call_orders d))(i := None)"
      "\<And>f. ix_sum f ix = ix_sum f (call_orders d) - f co" "ix_ok ix"
    using ix_removeE [OF iok ix(1)] by metis
  have "excess d' a = excess d a - if_asset a (get_collateral co)" for a by (simp add: ix(2) excess_defs co(3))
  moreover have "db_ok d'" using ok co(4) by (simp add: db_ok_def assets_ok_def ix(2))
  ultimately show ?thesis using co ix(2) by blast
qed

lemma modify_call_order_effect:
  assumes ok: "db_ok d" and run: "modify_call_order i m d = Inr d'"
  shows "\<exists>co co' ix. index_find (call_orders d) i = Some co \<and> m co = Inr co' \<and> d' = d\<lparr>call_orders := ix\<rparr> \<and>
     index_find ix = (index_find (call_orders d))(i \<mapsto> co') \<and> db_ok d' \<and>
     (\<forall>a. excess d' a = excess d a + if_asset a (get_collateral co') - if_asset a (get_collateral co))"
proof -
  obtain ix where ix: "ix_modify i m (call_orders d) = Inr ix" "d' = d\<lparr>call_orders := ix\<rparr>"
    using run by (auto simp: modify_call_order_def)
  have iok: "ix_ok (call_orders d)" using ok by (simp add: db_ok_def)
  obtain co co' where co: "index_find (call_orders d) i = Some co" "m co = Inr co'" "index_find ix = (index_find (call_orders d))(i \<mapsto> co')"
      "\<And>f. ix_sum f ix = ix_sum f (call_orders d) + f co' - f co" "ix_ok ix"
    using ix_modifyE [OF iok ix(1)] by metis
  have "excess d' a = excess d a + if_asset a (get_collateral co') - if_asset a (get_collateral co)" for a by (simp add: ix(2) excess_defs co(4))
  moreover have "db_ok d'" using ok co(5) by (simp add: db_ok_def assets_ok_def ix(2))
  ultimately show ?thesis using co ix(2) by blast
qed

lemma modify_settlement_effect:
  assumes ok: "db_ok d" and run: "modify_settlement i m d = Inr d'"
  shows "\<exists>s s' ix. index_find (force_settlements d) i = Some s \<and> m s = Inr s' \<and> d' = d\<lparr>force_settlements := ix\<rparr> \<and>
     index_find ix = (index_find (force_settlements d))(i \<mapsto> s') \<and> db_ok d' \<and>
     (\<forall>a. excess d' a = excess d a + if_asset a (fs_balance s') - if_asset a (fs_balance s))"
proof -
  obtain ix where ix: "ix_modify i m (force_settlements d) = Inr ix" "d' = d\<lparr>force_settlements := ix\<rparr>"
    using run by (auto simp: modify_settlement_def)
  have iok: "ix_ok (force_settlements d)" using ok by (simp add: db_ok_def)
  obtain s s' where s: "index_find (force_settlements d) i = Some s" "m s = Inr s'" "index_find ix = (index_find (force_settlements d))(i \<mapsto> s')"
      "\<And>f. ix_sum f ix = ix_sum f (force_settlements d) + f s' - f s" "ix_ok ix"
    using ix_modifyE [OF iok ix(1)] by metis
  have "excess d' a = excess d a + if_asset a (fs_balance s') - if_asset a (fs_balance s)" for a by (simp add: ix(2) excess_defs s(4))
  moreover have "db_ok d'" using ok s(5) by (simp add: db_ok_def assets_ok_def ix(2))
  ultimately show ?thesis using s ix(2) by blast
qed

lemma remove_settlement_effect:
  assumes ok: "db_ok d" and run: "remove_settlement i d = Inr d'"
  shows "\<exists>s ix. index_find (force_settlements d) i = Some s \<and> d' = d\<lparr>force_settlements := ix\<rparr> \<and>
     index_find ix = (index_find (force_settlements d))(i := None) \<and> db_ok d' \<and> (\<forall>a. excess d' a = excess d a - if_asset a (fs_balance s))"
proof -
  obtain ix where ix: "index_remove i (force_settlements d) = Inr ix" "d' = d\<lparr>force_settlements := ix\<rparr>"
    using run by (auto simp: remove_settlement_def)
  have iok: "ix_ok (force_settlements d)" using ok by (simp add: db_ok_def)
  obtain s where s: "index_find (force_settlements d) i = Some s" "index_find ix = (index_find (force_settlements d))(i := None)"
      "\<And>f. ix_sum f ix = ix_sum f (force_settlements d) - f s" "ix_ok ix"
    using ix_removeE [OF iok ix(1)] by metis
  have "excess d' a = excess d a - if_asset a (fs_balance s)" for a by (simp add: ix(2) excess_defs s(3))
  moreover have "db_ok d'" using ok s(4) by (simp add: db_ok_def assets_ok_def ix(2))
  ultimately show ?thesis using s ix(2) by blast
qed

section \<open>Cancelling\<close>

definition same_setup :: "database \<Rightarrow> database \<Rightarrow> bool" where
  "same_setup d d' \<longleftrightarrow> accounts d' = accounts d \<and> assets d' = assets d \<and> bitassets d' = bitassets d \<and>
     vesting_balances d' = vesting_balances d \<and> withdraw_permissions d' = withdraw_permissions d \<and> witnesses d' = witnesses d \<and>
     collateral_bids d' = collateral_bids d \<and> witness_budget d' = witness_budget d \<and> head_block_time d' = head_block_time d \<and>
     next_maintenance_time d' = next_maintenance_time d \<and> parameters d' = parameters d"

definition trade :: "database \<Rightarrow> database \<Rightarrow> (nat \<Rightarrow> int) \<Rightarrow> bool" where
  "trade d d' v \<longleftrightarrow> db_ok d' \<and> same_setup d d' \<and> (\<forall>a. excess d' a = excess d a + v a)"

lemma same_setup_refl [simp]: "same_setup d d"
  by (simp add: same_setup_def)

lemma same_setup_trans: "same_setup d d1 \<Longrightarrow> same_setup d1 d2 \<Longrightarrow> same_setup d d2"
  by (simp add: same_setup_def)

lemma flow_trade: "flow d d' v \<Longrightarrow> trade d d' v"
  by (simp add: flow_def trade_def money_only_def same_setup_def)

lemma trade_trans: "trade d d1 v \<Longrightarrow> trade d1 d2 w \<Longrightarrow> trade d d2 (\<lambda>a. v a + w a)"
  using same_setup_trans by (auto simp: trade_def)

lemma trade_ok: "trade d d' v \<Longrightarrow> db_ok d'"
  by (simp add: trade_def)

lemma trade_cong: "trade d d' v \<Longrightarrow> (\<And>a. v a = w a) \<Longrightarrow> trade d d' w"
  by (simp add: trade_def)

lemma trade_keeps:
  assumes "trade d d' v"
  shows "accounts d' = accounts d" "assets d' = assets d" "bitassets d' = bitassets d" "collateral_bids d' = collateral_bids d"
    "head_block_time d' = head_block_time d" "next_maintenance_time d' = next_maintenance_time d" "parameters d' = parameters d"
  using assms by (simp_all add: trade_def same_setup_def)

definition fee_taken :: "limit_order_object \<Rightarrow> int \<Rightarrow> asset \<Rightarrow> nat \<Rightarrow> int" where
  "fee_taken lo fee paid a = if_asset a (mk_asset (deferred_fee lo - fee) 0) +
     if_asset a (mk_asset (amount (deferred_paid_fee lo) - amount paid) (asset_id (deferred_paid_fee lo)))"

lemma take_cancel_fee_flow:
  assumes F: "fc_lib_ok F" and ok: "db_ok d" and run: "take_cancel_fee F lo f d = Inr (fee, paid, d')"
  shows "flow d d' (fee_taken lo fee paid) \<and>
     asset_id paid = asset_id (deferred_paid_fee lo) \<and> (amount (deferred_paid_fee lo) = 0 \<longrightarrow> paid = deferred_paid_fee lo)"
proof -
  let ?p = "deferred_paid_fee lo"
  obtain d1 left where d1: "modify_stats_of (seller lo) (stats_pay_fee F f (cashback_vesting_threshold (parameters d))) d = Inr d1"
    and left: "left = deferred_fee lo - f"
    and rest: "(if amount ?p = 0 then Inr (left, ?p, d1)
             else rbind (share_of_uint128 ((of_int (amount ?p) * of_int f + of_int (deferred_fee lo) - 1) div of_int (deferred_fee lo))) (\<lambda>n.
                  rbind (add_accumulated_fees F (asset_id ?p) n d1) (\<lambda>d2.
                  rbind (of_option Overflow (safe_sub F (amount ?p) n)) (\<lambda>q. Inr (left, mk_asset q (asset_id ?p), d2))))) = Inr (fee, paid, d')"
    using run unfolding take_cancel_fee_def by (auto simp: fc_safe_simps [OF F])
  note 1 = pay_fee_flow [OF F ok d1]
  show ?thesis
  proof (cases "amount ?p = 0")
    case True
    then have "fee = left \<and> paid = ?p \<and> d' = d1" using rest by simp
    then show ?thesis by (auto simp: left fee_taken_def intro: flow_cong [OF 1])
  next
    case False
    then obtain n where n: "add_accumulated_fees F (asset_id ?p) n d1 = Inr d'" "fee = left" "paid = mk_asset (amount ?p - n) (asset_id ?p)"
      using rest by (auto simp: fc_safe_simps [OF F])
    note 2 = flow_trans [OF 1 add_accumulated_fees_flow [OF F flow_ok [OF 1] n(1)]]
    show ?thesis using False by (auto simp: n left fee_taken_def intro: flow_cong [OF 2])
  qed
qed

lemma charge_cancel_fee_flow:
  assumes F: "fc_lib_ok F" and ok: "db_ok d" and run: "charge_cancel_fee F lo d = Inr (fee, paid, d')"
  shows "flow d d' (fee_taken lo fee paid) \<and>
     asset_id paid = asset_id (deferred_paid_fee lo) \<and> (amount (deferred_paid_fee lo) = 0 \<longrightarrow> paid = deferred_paid_fee lo)"
proof -
  obtain f where f: "(if f > 0 then take_cancel_fee F lo f d else Inr (deferred_fee lo, deferred_paid_fee lo, d)) = Inr (fee, paid, d')"
    using run by (auto simp: charge_cancel_fee_def Let_def)
  show ?thesis
  proof (cases "f > 0")
    case False
    then have "fee = deferred_fee lo \<and> paid = deferred_paid_fee lo \<and> d' = d" using f by simp
    then show ?thesis by (auto simp: fee_taken_def intro: flow_cong [OF flow_refl [OF ok]])
  next
    case True
    then show ?thesis using f take_cancel_fee_flow [OF F ok] by simp
  qed
qed

lemma refund_fee_flow:
  assumes F: "fc_lib_ok F" and ok: "db_ok d" and run: "refund_fee F lo fee paid d = Inr d'"
  shows "flow d d' (\<lambda>a. if_asset a (mk_asset fee 0) + (if amount (deferred_paid_fee lo) = 0 then 0 else if_asset a paid))"
proof (cases "amount (deferred_paid_fee lo) = 0")
  case True
  then have "adjust_balance F (seller lo) (mk_asset fee 0) d = Inr d'" using run by (simp add: refund_fee_def)
  from adjust_balance_flow [OF F ok this] show ?thesis using True by (auto intro: flow_cong)
next
  case False
  then obtain d1 i where P: "adjust_balance F (seller lo) paid d = Inr d1" "asset_dyn_id d1 (asset_id paid) = Inr i"
      "modify_dyn_data i (\<lambda>x. rbind (of_option Overflow (safe_add F (fee_pool x) fee)) (\<lambda>s. Inr (x\<lparr>fee_pool := s\<rparr>))) d1 = Inr d'"
    using run by (auto simp: refund_fee_def)
  note 1 = adjust_balance_flow [OF F ok P(1)]
  have 2: "flow d1 d' (\<lambda>a. if_asset a (mk_asset 0 (asset_id paid)) + if_asset a (mk_asset fee 0))"
    by (rule dyn_flow [OF F flow_ok [OF 1] P(2,3)]) (auto simp: held_in_dyn_def fc_safe_simps [OF F])
  show ?thesis using False by (auto intro: flow_cong [OF flow_trans [OF 1 2]])
qed

lemma cancel_limit_order_effect:
  assumes F: "fc_lib_ok F" and ok: "db_ok d" and run: "cancel_limit_order F i virt skip d = Inr d'"
  shows "trade d d' (\<lambda>_. 0) \<and> index_find (limit_orders d) i \<noteq> None \<and> index_find (limit_orders d') = (index_find (limit_orders d))(i := None) \<and>
     call_orders d' = call_orders d \<and> force_settlements d' = force_settlements d"
proof -
  obtain lo fee paid d1 d2 d3 d4 where lo: "index_find (limit_orders d) i = Some lo"
    and 1: "(if virt \<and> \<not> skip \<and> deferred_fee lo > 0 then charge_cancel_fee F lo d
            else Inr (deferred_fee lo, deferred_paid_fee lo, d)) = Inr (fee, paid, d1)"
    and 2: "(if asset_id (amount_for_sale lo) = 0 then modify_stats_of (seller lo) (sub_core_in_orders F (for_sale lo)) d1 else Inr d1) = Inr d2"
    and 3: "adjust_balance F (seller lo) (amount_for_sale lo) d2 = Inr d3" and 4: "refund_fee F lo fee paid d3 = Inr d4"
    and 5: "remove_limit_order i d4 = Inr d'"
    using run by (auto simp: cancel_limit_order_def)
  let ?p = "deferred_paid_fee lo"
  have f1: "flow d d1 (fee_taken lo fee paid) \<and>
      asset_id paid = asset_id ?p \<and> (amount ?p = 0 \<longrightarrow> paid = ?p)"
  proof (cases "virt \<and> \<not> skip \<and> deferred_fee lo > 0")
    case True
    then show ?thesis using 1 charge_cancel_fee_flow [OF F ok] by simp
  next
    case False
    then have "fee = deferred_fee lo \<and> paid = ?p \<and> d1 = d" using 1 by auto
    then show ?thesis by (auto simp: fee_taken_def intro: flow_cong [OF flow_refl [OF ok]])
  qed
  have f2: "flow d1 d2 (\<lambda>_. 0)"
  proof (cases "asset_id (amount_for_sale lo) = 0")
    case True
    then show ?thesis using 2 by (intro core_orders_flow [OF flow_ok [OF conjunct1 [OF f1]]]) (auto dest: sub_core_in_orders_pending)
  next
    case False
    then show ?thesis using 2 flow_refl [OF flow_ok [OF conjunct1 [OF f1]]] by simp
  qed
  note f12 = flow_trans [OF conjunct1 [OF f1] f2]
  note f13 = flow_trans [OF f12 adjust_balance_flow [OF F flow_ok [OF f12] 3]]
  note f = flow_trans [OF f13 refund_fee_flow [OF F flow_ok [OF f13] 4]]
  have books: "limit_orders d4 = limit_orders d" "call_orders d4 = call_orders d" "force_settlements d4 = force_settlements d"
    using flow_keeps [OF f] by simp_all
  obtain lo' ix where R: "index_find (limit_orders d4) i = Some lo'" "d' = d4\<lparr>limit_orders := ix\<rparr>"
      "index_find ix = (index_find (limit_orders d4))(i := None)" "db_ok d'" "\<forall>a. excess d' a = excess d4 a - order_value a lo'"
    using remove_limit_order_effect [OF flow_ok [OF f] 5] by blast
  have "lo' = lo" using R(1) lo books(1) by simp
  then have "excess d' a = excess d a" for a
    using f f1 R(5) by (auto simp: flow_def order_value_def if_asset_def fee_taken_def)
  moreover have "same_setup d d'" using flow_trade [OF f] by (simp add: trade_def same_setup_def R(2))
  ultimately show ?thesis using R(2-4) lo books by (simp add: trade_def)
qed

section \<open>Filling\<close>

definition options_ok :: "database \<Rightarrow> bool" where
  "options_ok d \<longleftrightarrow> (\<forall>i ao. index_find (assets d) i = Some ao \<longrightarrow>
     int (market_fee_percent (options ao)) \<le> GRAPHENE_100_PERCENT \<and> 0 \<le> max_market_fee (options ao))"

lemma market_fee_exact:
  assumes o: "int (market_fee_percent (options ao)) \<le> GRAPHENE_100_PERCENT" "0 \<le> max_market_fee (options ao)"
    and x: "0 \<le> amount x" "amount x < 2 ^ 63"
  shows "calculate_market_fee ao x = Inr (mk_asset (if charges_market_fees ao
       then min (amount x * int (market_fee_percent (options ao)) div GRAPHENE_100_PERCENT) (max_market_fee (options ao)) else 0) (asset_id x))"
  using o(2) by (auto simp: calculate_market_fee_def percent_share(1) [OF x o(1)] min_def not_less)

lemma market_fee_bounds:
  assumes ok: "options_ok d" "index_find (assets d) (asset_id x) = Some ao" and x: "0 \<le> amount x" "amount x < 2 ^ 63"
    and run: "calculate_market_fee ao x = Inr fee"
  shows "0 \<le> amount fee \<and> amount fee \<le> amount x"
proof -
  have o: "int (market_fee_percent (options ao)) \<le> GRAPHENE_100_PERCENT" "0 \<le> max_market_fee (options ao)"
    using ok unfolding options_ok_def by blast+
  show ?thesis
    using run percent_share(2,3) [OF x o(1)] o(2) x(1) unfolding market_fee_exact [OF o x] by (auto simp: min_def)
qed

lemma pay_market_fees_net:
  assumes F: "fc_lib_ok F" and ok: "db_ok d" "options_ok d" and x: "0 \<le> amount x" "amount x < 2 ^ 63"
    and run: "pay_market_fees F x d = Inr (fees, d')"
  shows "flow d d' (\<lambda>a. if_asset a fees) \<and> asset_id fees = asset_id x \<and> 0 \<le> amount fees \<and> amount fees \<le> amount x"
proof -
  obtain ao where ao: "index_find (assets d) (asset_id x) = Some ao" "calculate_market_fee ao x = Inr fees"
    using run by (auto simp: pay_market_fees_def)
  note b = market_fee_bounds [OF ok(2) ao(1) x ao(2)]
  note f = pay_market_fees_flow [OF F ok(1) run]
  have "flow d d' (\<lambda>a. if_asset a fees)"
    by (rule flow_cong [OF f(1)]) (use b f(2) in \<open>simp add: if_asset_def\<close>)
  then show ?thesis using b f(2) by simp
qed

lemma maybe_cull_small_order_effect:
  assumes F: "fc_lib_ok F" and ok: "db_ok d" and run: "maybe_cull_small_order F i d = Inr (r, d')"
  shows "trade d d' (\<lambda>_. 0) \<and> call_orders d' = call_orders d \<and> force_settlements d' = force_settlements d \<and>
     (if r then index_find (limit_orders d') = (index_find (limit_orders d))(i := None) else d' = d)"
proof -
  obtain lo n where lo: "index_find (limit_orders d) i = Some lo" "amount_to_receive lo = Inr n"
    and rest: "(if amount n = 0
     then rbind (cancel_limit_order F i True (deferred_fee lo > 0 \<and> head_block_time d \<le> HARDFORK_CORE_604_TIME) d) (\<lambda>d1. Inr (True, d1))
     else Inr (False, d)) = Inr (r, d')"
    using run by (auto simp: maybe_cull_small_order_def)
  show ?thesis
  proof (cases "amount n = 0")
    case True
    then have "r" and c: "cancel_limit_order F i True (deferred_fee lo > 0 \<and> head_block_time d \<le> HARDFORK_CORE_604_TIME) d = Inr d'"
      using rest by auto
    then show ?thesis using cancel_limit_order_effect [OF F ok c] by simp
  next
    case False
    then show ?thesis using rest flow_trade [OF flow_refl [OF ok]] by auto
  qed
qed

lemma pay_deferred_fees_flow:
  assumes F: "fc_lib_ok F" and ok: "db_ok d" and run: "pay_deferred_fees F lo d = Inr d'"
    and nn: "0 \<le> deferred_fee lo" "0 \<le> amount (deferred_paid_fee lo)"
  shows "flow d d' (\<lambda>a. if_asset a (mk_asset (deferred_fee lo) 0) + if_asset a (deferred_paid_fee lo))"
proof -
  obtain d1 where P: "(if deferred_fee lo > 0
            then modify_stats_of (seller lo) (stats_pay_fee F (deferred_fee lo) (cashback_vesting_threshold (parameters d))) d else Inr d) = Inr d1"
      "(if amount (deferred_paid_fee lo) > 0
        then add_accumulated_fees F (asset_id (deferred_paid_fee lo)) (amount (deferred_paid_fee lo)) d1 else Inr d1) = Inr d'"
    using run by (auto simp: pay_deferred_fees_def)
  have 1: "flow d d1 (\<lambda>a. if_asset a (mk_asset (deferred_fee lo) 0))"
  proof (cases "deferred_fee lo > 0")
    case True
    then show ?thesis using P(1) pay_fee_flow [OF F ok, of "seller lo" "deferred_fee lo"] by simp
  next
    case False
    then have "d1 = d" "deferred_fee lo = 0" using P(1) nn(1) by simp_all
    then show ?thesis by (auto intro: flow_cong [OF flow_refl [OF ok]])
  qed
  have 2: "flow d1 d' (\<lambda>a. if_asset a (deferred_paid_fee lo))"
  proof (cases "amount (deferred_paid_fee lo) > 0")
    case True
    then have "add_accumulated_fees F (asset_id (deferred_paid_fee lo)) (amount (deferred_paid_fee lo)) d1 = Inr d'" using P(2) by simp
    from add_accumulated_fees_flow [OF F flow_ok [OF 1] this] show ?thesis by simp
  next
    case False
    then have "d' = d1" "amount (deferred_paid_fee lo) = 0" using P(2) nn(2) by simp_all
    then show ?thesis by (auto simp: if_asset_def intro: flow_cong [OF flow_refl [OF flow_ok [OF 1]]])
  qed
  show ?thesis by (rule flow_trans [OF 1 2])
qed

definition order_ok :: "limit_order_object \<Rightarrow> bool" where
  "order_ok lo \<longleftrightarrow> 0 < for_sale lo \<and> for_sale lo < 2 ^ 63 \<and> 0 \<le> deferred_fee lo \<and> 0 \<le> amount (deferred_paid_fee lo) \<and>
     price_ok (sell_price lo) \<and> sell_asset_id lo \<noteq> receive_asset_id lo"

definition fees_ok :: "limit_order_object \<Rightarrow> bool" where
  "fees_ok lo \<longleftrightarrow> 0 \<le> deferred_fee lo \<and> 0 \<le> amount (deferred_paid_fee lo)"

lemma order_fees: "order_ok lo \<Longrightarrow> fees_ok lo"
  by (simp add: order_ok_def fees_ok_def)

definition rest_of :: "limit_order_object \<Rightarrow> int \<Rightarrow> limit_order_object" where
  "rest_of lo n = lo\<lparr>for_sale := for_sale lo - n, deferred_fee := 0, deferred_paid_fee := (deferred_paid_fee lo)\<lparr>amount := 0\<rparr>\<rparr>"

lemma order_value_rest:
  "order_value a (rest_of lo n) = order_value a lo - if_asset a (mk_asset n (sell_asset_id lo)) -
     (if_asset a (mk_asset (deferred_fee lo) 0) + if_asset a (deferred_paid_fee lo))"
  by (simp add: order_value_def rest_of_def amount_for_sale_def sell_asset_id_def if_asset_def)

lemma fill_limit_order_effect:
  assumes F: "fc_lib_ok F" and ok: "db_ok d" "options_ok d" and lo: "index_find (limit_orders d) i = Some lo" "fees_ok lo"
    and rec: "0 \<le> amount receives" "amount receives < 2 ^ 63" and run: "fill_limit_order F i pays receives cull d = Inr (r, d')"
  shows "trade d d' (\<lambda>a. if_asset a receives - if_asset a pays) \<and> call_orders d' = call_orders d \<and> force_settlements d' = force_settlements d \<and>
     asset_id pays = sell_asset_id lo \<and> asset_id pays \<noteq> asset_id receives \<and>
     (r \<or> amount pays \<noteq> for_sale lo \<and> for_sale lo - amount pays < 2 ^ 63) \<and>
     index_find (limit_orders d') = (index_find (limit_orders d))(i := if r then None else Some (rest_of lo (amount pays)))"
proof -
  obtain fees d1 net d2 d3 where A: "asset_id pays = sell_asset_id lo" "asset_id pays \<noteq> asset_id receives"
    and 1: "pay_market_fees F receives d = Inr (fees, d1)" and net: "asset_minus F receives fees = Inr net"
    and 2: "pay_order F (seller lo) net pays d1 = Inr d2" and 3: "pay_deferred_fees F lo d2 = Inr d3"
    and rest: "(if pays = amount_for_sale lo
      then rbind (remove_limit_order i d3) (\<lambda>d4. Inr (True, d4))
      else rbind (modify_limit_order i (\<lambda>b.
                    rbind (of_option Overflow (safe_sub F (for_sale b) (amount pays))) (\<lambda>left.
                    Inr (b\<lparr>for_sale := left, deferred_fee := 0, deferred_paid_fee := (deferred_paid_fee b)\<lparr>amount := 0\<rparr>\<rparr>))) d3) (\<lambda>d4.
           if cull \<or> head_block_time d < HARDFORK_555_TIME then maybe_cull_small_order F i d4 else Inr (False, d4))) = Inr (r, d')"
    using run lo(1) by (auto simp: fill_limit_order_def index_get_def amount_for_sale_def sell_asset_id_def)
  note f1 = pay_market_fees_net [OF F ok rec 1]
  have n: "net = mk_asset (amount receives - amount fees) (asset_id receives)"
    using net f1 by (auto simp: asset_minus_def fc_safe_simps [OF F])
  note f12 = flow_trans [OF conjunct1 [OF f1] pay_order_flow [OF F flow_ok [OF conjunct1 [OF f1]] 2]]
  have nn: "0 \<le> deferred_fee lo" "0 \<le> amount (deferred_paid_fee lo)" using lo(2) by (simp_all add: fees_ok_def)
  note f = flow_trans [OF f12 pay_deferred_fees_flow [OF F flow_ok [OF f12] 3 nn]]
  have f': "flow d d3 (\<lambda>a. if_asset a receives + (if_asset a (mk_asset (deferred_fee lo) 0) + if_asset a (deferred_paid_fee lo)))"
    by (rule flow_cong [OF f]) (use f1 n in \<open>simp add: if_asset_def\<close>)
  note k = flow_keeps [OF f']
  have t: "trade d d3 (\<lambda>a. if_asset a receives + (if_asset a (mk_asset (deferred_fee lo) 0) + if_asset a (deferred_paid_fee lo)))"
    by (rule flow_trade [OF f'])
  show ?thesis
  proof (cases "pays = amount_for_sale lo")
    case True
    then have r: "r" "remove_limit_order i d3 = Inr d'" using rest by auto
    obtain lo' ix where R: "index_find (limit_orders d3) i = Some lo'" "d' = d3\<lparr>limit_orders := ix\<rparr>"
        "index_find ix = (index_find (limit_orders d3))(i := None)" "db_ok d'" "\<forall>a. excess d' a = excess d3 a - order_value a lo'"
      using remove_limit_order_effect [OF flow_ok [OF f'] r(2)] by blast
    have e: "lo' = lo" using R(1) lo(1) k by simp
    have "excess d' a = excess d a + (if_asset a receives - if_asset a pays)" for a
      using t R(5) by (simp add: trade_def e order_value_def True)
    then show ?thesis using t R k A r(1) by (simp add: trade_def same_setup_def)
  next
    case False
    have ne: "amount pays \<noteq> for_sale lo"
      using False A(1) by (metis amount_for_sale_def mk_asset_collapse sell_asset_id_def)
    obtain d4 where m: "modify_limit_order i (\<lambda>b.
                    rbind (of_option Overflow (safe_sub F (for_sale b) (amount pays))) (\<lambda>left.
                    Inr (b\<lparr>for_sale := left, deferred_fee := 0, deferred_paid_fee := (deferred_paid_fee b)\<lparr>amount := 0\<rparr>\<rparr>))) d3 = Inr d4"
      and c: "(if cull \<or> head_block_time d < HARDFORK_555_TIME then maybe_cull_small_order F i d4 else Inr (False, d4)) = Inr (r, d')"
      using rest False by auto
    obtain b b' ix where M: "index_find (limit_orders d3) i = Some b" "d4 = d3\<lparr>limit_orders := ix\<rparr>"
        "rbind (of_option Overflow (safe_sub F (for_sale b) (amount pays))) (\<lambda>left.
           Inr (b\<lparr>for_sale := left, deferred_fee := 0, deferred_paid_fee := (deferred_paid_fee b)\<lparr>amount := 0\<rparr>\<rparr>)) = Inr b'"
        "index_find ix = (index_find (limit_orders d3))(i \<mapsto> b')" "db_ok d4" "\<forall>a. excess d4 a = excess d3 a + order_value a b' - order_value a b"
      using modify_limit_order_effect [OF flow_ok [OF f'] m] by blast
    have b: "b = lo" using M(1) lo(1) k by simp
    have b': "b' = rest_of lo (amount pays)" "for_sale lo - amount pays < 2 ^ 63"
      using M(3) by (auto simp: b rest_of_def fc_safe_simps [OF F] in_int64_def)
    have "excess d4 a = excess d a + (if_asset a receives - if_asset a pays)" for a
      using t M(6) A(1) by (simp add: trade_def b b'(1) order_value_rest if_asset_def)
    then have t4: "trade d d4 (\<lambda>a. if_asset a receives - if_asset a pays)"
      using t M(2,5) by (simp add: trade_def same_setup_def)
    show ?thesis
    proof (cases "cull \<or> head_block_time d < HARDFORK_555_TIME")
      case True
      then have "maybe_cull_small_order F i d4 = Inr (r, d')" using c by simp
      note C = maybe_cull_small_order_effect [OF F M(5) this]
      show ?thesis using trade_trans [OF t4 conjunct1 [OF C]] C A M(2,4) k ne b'(2) by (simp add: b'(1) split: if_splits)
    next
      case False
      then have d': "\<not> r" "d' = d4" using c by auto
      show ?thesis using d'(1) t4 A M(4) k ne b'(2) unfolding d'(2) by (simp add: b'(1) M(2))
    qed
  qed
qed

lemma reduce_call_order_cases:
  assumes F: "fc_lib_ok F" and run: "reduce_call_order F pays receives mia d co = Inr co'"
  shows "debt co' = debt co - amount receives \<and> collateral co' = (if debt co' = 0 then 0 else collateral co - amount pays) \<and>
     borrower co' = borrower co \<and> target_collateral_ratio co' = target_collateral_ratio co \<and>
     collateral_type co' = collateral_type co \<and> debt_type co' = debt_type co"
proof -
  have cp: "asset_id (base p) = asset_id y \<and> asset_id (quote p) = asset_id x" if "call_price F x y m = Inr p" for x y m p
    using that by (auto simp: call_price_def price_div_def price_invert_def)
  show ?thesis
    using run by (auto simp: reduce_call_order_def fc_safe_simps [OF F] Let_def debt_type_def collateral_type_def get_debt_def get_collateral_def
        dest!: cp split: if_splits)
qed


lemma release_collateral_flow:
  assumes F: "fc_lib_ok F" and ok: "db_ok d" and run: "release_collateral F who pays freed d = Inr d'"
  shows "flow d d' (\<lambda>a. case freed of None \<Rightarrow> 0 | Some x \<Rightarrow> if_asset a x)"
proof (cases "freed \<noteq> None \<or> asset_id pays = 0")
  case False
  then show ?thesis using run flow_refl [OF ok] by (simp add: release_collateral_def)
next
  case True
  obtain d1 where 1: "(case freed of None \<Rightarrow> Inr d | Some x \<Rightarrow> adjust_balance F who x d) = Inr d1"
    and 2: "modify_stats_of who (\<lambda>s.
             rbind (case freed of
                      None \<Rightarrow> Inr s
                    | Some x \<Rightarrow> if amount x > 0 \<and> asset_id x = 0 then sub_core_in_orders F (amount x) s else Inr s) (\<lambda>s1.
             if asset_id pays = 0 then sub_core_in_orders F (amount pays) s1 else Inr s1)) d1 = Inr d'"
    using run True by (auto simp: release_collateral_def)
  have f1: "flow d d1 (\<lambda>a. case freed of None \<Rightarrow> 0 | Some x \<Rightarrow> if_asset a x)"
    using 1 adjust_balance_flow [OF F ok] flow_refl [OF ok] by (cases freed) auto
  have "flow d1 d' (\<lambda>_. 0)"
  proof (rule core_orders_flow [OF flow_ok [OF f1] 2])
    fix s s'
    assume "rbind (case freed of
                      None \<Rightarrow> Inr s
                    | Some x \<Rightarrow> if amount x > 0 \<and> asset_id x = 0 then sub_core_in_orders F (amount x) s else Inr s) (\<lambda>s1.
             if asset_id pays = 0 then sub_core_in_orders F (amount pays) s1 else Inr s1) = Inr s'"
    then obtain s1 where s1: "(case freed of
                      None \<Rightarrow> Inr s
                    | Some x \<Rightarrow> if amount x > 0 \<and> asset_id x = 0 then sub_core_in_orders F (amount x) s else Inr s) = Inr s1"
        "(if asset_id pays = 0 then sub_core_in_orders F (amount pays) s1 else Inr s1) = Inr s'" by auto
    have "pending_fees s1 + pending_vested_fees s1 = pending_fees s + pending_vested_fees s"
      using s1(1) by (auto split: option.splits if_splits dest: sub_core_in_orders_pending)
    then show "pending_fees s' + pending_vested_fees s' = pending_fees s + pending_vested_fees s"
      using s1(2) by (auto split: if_splits dest: sub_core_in_orders_pending)
  qed
  from flow_trans [OF f1 this] show ?thesis by simp
qed

text \<open>A fill of a margin position: collateral leaves it, debt is repaid and the supply shrinks.\<close>

lemma fill_call_order_effect:
  assumes F: "fc_lib_ok F" and ok: "db_ok d" and run: "fill_call_order F i pays receives d = Inr (r, d')"
  shows "\<exists>co co'. index_find (call_orders d) i = Some co \<and> debt_type co = asset_id receives \<and> collateral_type co = asset_id pays \<and>
     amount pays \<le> collateral co \<and> trade d d' (\<lambda>a. if_asset a receives - if_asset a pays) \<and>
     limit_orders d' = limit_orders d \<and> force_settlements d' = force_settlements d \<and> (r \<longleftrightarrow> debt co = amount receives) \<and>
     index_find (call_orders d') = (index_find (call_orders d))(i := if r then None else Some co') \<and>
     debt co' = debt co - amount receives \<and> collateral co' = (if r then 0 else collateral co - amount pays) \<and> borrower co' = borrower co \<and>
     collateral_type co' = collateral_type co \<and> debt_type co' = debt_type co"
proof -
  obtain co mia d1 d2 d3 where co: "index_find (call_orders d) i = Some co" and A: "debt_type co = asset_id receives" "collateral_type co = asset_id pays"
      "amount pays \<le> collateral co"
    and 1: "modify_call_order i (reduce_call_order F pays receives mia d) d = Inr d1"
    and 2: "reduce_supply F (asset_id receives) (amount receives) d1 = Inr d2"
    and 3: "release_collateral F (borrower co) pays
        (if debt co = amount receives then Some (mk_asset (collateral co - amount pays) (asset_id pays)) else None) d2 = Inr d3"
    and rest: "(if debt co = amount receives then rbind (remove_call_order i d3) (\<lambda>d4. Inr (True, d4)) else Inr (False, d3)) = Inr (r, d')"
    using run by (auto simp: fill_call_order_def Let_def get_debt_def get_collateral_def asset_ge_def asset_less_def split: if_splits)
  obtain c co' ix where M: "index_find (call_orders d) i = Some c" "reduce_call_order F pays receives mia d c = Inr co'" "d1 = d\<lparr>call_orders := ix\<rparr>"
      "index_find ix = (index_find (call_orders d))(i \<mapsto> co')" "db_ok d1"
      "\<forall>a. excess d1 a = excess d a + if_asset a (get_collateral co') - if_asset a (get_collateral c)"
    using modify_call_order_effect [OF ok 1] by blast
  have c: "c = co" using M(1) co by simp
  note R = reduce_call_order_cases [OF F M(2) [unfolded c]]
  note f2 = reduce_supply_flow [OF F M(5) 2]
  note f = flow_trans [OF f2 release_collateral_flow [OF F flow_ok [OF f2] 3]]
  note k = flow_keeps [OF f]
  have t1: "trade d d1 (\<lambda>a. if_asset a (get_collateral co') - if_asset a (get_collateral co))"
    using M(3,5,6) c by (simp add: trade_def same_setup_def)
  note t3 = trade_trans [OF t1 flow_trade [OF f]]
  show ?thesis
  proof (cases "debt co = amount receives")
    case True
    then have r: "r" "remove_call_order i d3 = Inr d'" using rest by auto
    obtain c4 ix4 where R4: "index_find (call_orders d3) i = Some c4" "d' = d3\<lparr>call_orders := ix4\<rparr>"
        "index_find ix4 = (index_find (call_orders d3))(i := None)" "db_ok d'" "\<forall>a. excess d' a = excess d3 a - if_asset a (get_collateral c4)"
      using remove_call_order_effect [OF trade_ok [OF t3] r(2)] by blast
    have "c4 = co'" using R4(1) k M(3,4) by simp
    then have "excess d' a = excess d a + (if_asset a receives - if_asset a pays)" for a
      using t3 R4(5) True A R by (auto simp: trade_def get_collateral_def if_asset_def)
    then have "trade d d' (\<lambda>a. if_asset a receives - if_asset a pays)"
      using t3 R4(2,4) by (simp add: trade_def same_setup_def)
    then show ?thesis using co A True r(1) R R4(2,3) k M(3,4) by (intro exI [of _ co'] exI [of _ co]) auto
  next
    case False
    then have r: "\<not> r" "d' = d3" using rest by auto
    have t: "trade d d' (\<lambda>a. if_asset a receives - if_asset a pays)"
      unfolding r(2) by (rule trade_cong [OF t3]) (use False A R in \<open>auto simp: get_collateral_def if_asset_def\<close>)
    show ?thesis using t co A False r R k M(3,4) by (intro exI [of _ co'] exI [of _ co]) auto
  qed
qed

lemma fill_settle_order_effect:
  assumes F: "fc_lib_ok F" and ok: "db_ok d" "options_ok d" and s: "index_find (force_settlements d) i = Some s"
    and p: "amount pays \<le> amount (fs_balance s)"
    and rec: "0 \<le> amount receives" "amount receives < 2 ^ 63" and run: "fill_settle_order F i pays receives d = Inr (r, d')"
  shows "trade d d' (\<lambda>a. if_asset a receives - if_asset a pays) \<and> limit_orders d' = limit_orders d \<and> call_orders d' = call_orders d \<and>
     asset_id pays = asset_id (fs_balance s) \<and> (r \<longleftrightarrow> amount pays = amount (fs_balance s)) \<and>
     index_find (force_settlements d') = (index_find (force_settlements d))(i := if r then None
       else Some (s\<lparr>fs_balance := mk_asset (amount (fs_balance s) - amount pays) (asset_id (fs_balance s))\<rparr>))"
proof -
  obtain fees d1 less d2 net d3 where 1: "pay_market_fees F receives d = Inr (fees, d1)" and l: "asset_less pays (fs_balance s) = Inr less"
    and 2: "(if less then modify_settlement i (\<lambda>s. rbind (asset_minus F (fs_balance s) pays) (\<lambda>b. Inr (s\<lparr>fs_balance := b\<rparr>))) d1 else Inr d1) = Inr d2"
    and net: "asset_minus F receives fees = Inr net" and 3: "adjust_balance F (fs_owner s) net d2 = Inr d3"
    and rest: "(if less then Inr (False, d3) else rbind (remove_settlement i d3) (\<lambda>d4. Inr (True, d4))) = Inr (r, d')"
    using run s by (auto simp: fill_settle_order_def index_get_def)
  have A: "asset_id pays = asset_id (fs_balance s)" "less \<longleftrightarrow> amount pays < amount (fs_balance s)"
    using l by (auto simp: asset_less_def)
  note f1 = pay_market_fees_net [OF F ok rec 1]
  have n: "net = mk_asset (amount receives - amount fees) (asset_id receives)"
    using net f1 by (auto simp: asset_minus_def fc_safe_simps [OF F])
  have t1: "trade d d1 (\<lambda>a. if_asset a fees)" by (rule flow_trade [OF conjunct1 [OF f1]])
  note k1 = flow_keeps [OF conjunct1 [OF f1]]
  show ?thesis
  proof (cases less)
    case True
    then have m: "modify_settlement i (\<lambda>s. rbind (asset_minus F (fs_balance s) pays) (\<lambda>b. Inr (s\<lparr>fs_balance := b\<rparr>))) d1 = Inr d2" using 2 by simp
    obtain x x' ix where M: "index_find (force_settlements d1) i = Some x"
        "rbind (asset_minus F (fs_balance x) pays) (\<lambda>b. Inr (x\<lparr>fs_balance := b\<rparr>)) = Inr x'" "d2 = d1\<lparr>force_settlements := ix\<rparr>"
        "index_find ix = (index_find (force_settlements d1))(i \<mapsto> x')" "db_ok d2"
        "\<forall>a. excess d2 a = excess d1 a + if_asset a (fs_balance x') - if_asset a (fs_balance x)"
      using modify_settlement_effect [OF trade_ok [OF t1] m] by blast
    have x: "x = s" using M(1) s k1 by simp
    have x': "x' = s\<lparr>fs_balance := mk_asset (amount (fs_balance s) - amount pays) (asset_id (fs_balance s))\<rparr>"
      using M(2) by (auto simp: x asset_minus_def fc_safe_simps [OF F])
    have t2: "trade d1 d2 (\<lambda>a. - if_asset a pays)"
      using M(3,5,6) A(1) by (simp add: trade_def same_setup_def x x' if_asset_def)
    note f3 = adjust_balance_flow [OF F M(5) 3]
    have r: "\<not> r" "d' = d3" using rest True by auto
    have "trade d d' (\<lambda>a. if_asset a receives - if_asset a pays)"
      unfolding r(2) by (rule trade_cong [OF trade_trans [OF trade_trans [OF t1 t2] flow_trade [OF f3]]]) (use f1 n in \<open>simp add: if_asset_def\<close>)
    then show ?thesis using A True r flow_keeps [OF f3] M(3,4) k1 by (simp add: x')
  next
    case False
    then have d2: "d2 = d1" using 2 by simp
    note f3 = adjust_balance_flow [OF F trade_ok [OF t1] 3 [unfolded d2]]
    have r: "r" "remove_settlement i d3 = Inr d'" using rest False by auto
    obtain x ix where R: "index_find (force_settlements d3) i = Some x" "d' = d3\<lparr>force_settlements := ix\<rparr>"
        "index_find ix = (index_find (force_settlements d3))(i := None)" "db_ok d'" "\<forall>a. excess d' a = excess d3 a - if_asset a (fs_balance x)"
      using remove_settlement_effect [OF flow_ok [OF f3] r(2)] by blast
    have x: "x = s" using R(1) s k1 flow_keeps [OF f3] by simp
    have e: "amount pays = amount (fs_balance s)" using False A p by simp
    have t3: "trade d d3 (\<lambda>a. if_asset a receives)"
      by (rule trade_cong [OF trade_trans [OF t1 flow_trade [OF f3]]]) (use f1 n in \<open>simp add: if_asset_def\<close>)
    have "trade d d' (\<lambda>a. if_asset a receives - if_asset a pays)"
      using t3 R(2,4,5) e A(1) by (simp add: trade_def same_setup_def x if_asset_def)
    then show ?thesis using A e r(1) R(2,3) k1 flow_keeps [OF f3] by simp
  qed
qed

section \<open>Matches\<close>

text \<open>What the taker pays and receives, by the match price: neither side sells more than it offers, the
  two amounts agree with the price up to the rounding of one unit, and the rounding is against the smaller order.\<close>

definition fair_amounts :: "price \<Rightarrow> int \<Rightarrow> int \<Rightarrow> bool \<Rightarrow> bool" where
  "fair_amounts p pays receives taker_smaller \<longleftrightarrow>
     (if taker_smaller
      then receives * amount (quote p) \<le> pays * amount (base p) \<and> pays * amount (base p) < receives * amount (quote p) + amount (base p)
      else pays * amount (base p) \<le> receives * amount (quote p) \<and> receives * amount (quote p) < pays * amount (base p) + amount (quote p))"

lemma limit_match_amounts_fair:
  assumes o: "order_ok usd" "order_ok core" and p: "price_ok p" "asset_id (base p) = sell_asset_id core" "asset_id (quote p) = sell_asset_id usd"
    and m: "sell_asset_id usd = receive_asset_id core"
    and hf: "next_maintenance_time d > HARDFORK_CORE_342_TIME"
    and run: "limit_match_amounts d usd core p = Inr (Some (pays, receives, cull))"
  shows "asset_id pays = sell_asset_id usd \<and> asset_id receives = sell_asset_id core \<and>
     0 \<le> amount pays \<and> amount pays \<le> for_sale usd \<and> 0 \<le> amount receives \<and> amount receives \<le> for_sale core \<and>
     fair_amounts p (amount pays) (amount receives) cull"
proof -
  have ne: "sell_asset_id core \<noteq> sell_asset_id usd" using o(2) m by (simp add: order_ok_def)
  have U: "amount_for_sale usd = mk_asset (for_sale usd) (sell_asset_id usd)" "nonneg64 (for_sale usd)"
    and C: "amount_for_sale core = mk_asset (for_sale core) (sell_asset_id core)" "nonneg64 (for_sale core)"
    using o by (simp_all add: amount_for_sale_def sell_asset_id_def order_ok_def nonneg64_def)
  have pos: "0 < amount (base p)" "0 < amount (quote p)" using p(1) by (simp_all add: price_ok_def pos64_def)
  obtain w where w: "asset_mult (amount_for_sale core) p = Inr w" using run by (auto simp: limit_match_amounts_def Let_def)
  have wi: "asset_id w = sell_asset_id usd" "0 \<le> amount w" "nonneg64 (amount w)"
    using asset_mult_range [OF w] C(1) p(2,3) by (simp_all add: nonneg64_def)
  have wb: "amount w * amount (base p) \<le> for_sale core * amount (quote p)" using mult_bounds [OF w p(1)] C p(2) by simp
  show ?thesis
  proof (cases "for_sale usd \<le> amount w")
    case True
    obtain r where r: "asset_mult (amount_for_sale usd) p = Inr r" "receives = r" "multiply_and_round_up r p = Inr pays" "cull"
      using run w wi(1) True hf by (auto simp: limit_match_amounts_def Let_def asset_le_def asset_less_def U split: if_splits)
    have ri: "asset_id r = sell_asset_id core" "0 \<le> amount r" "nonneg64 (amount r)"
      using asset_mult_range [OF r(1)] U(1) p(2,3) ne by (simp_all add: nonneg64_def)
    have rb: "amount r * amount (quote p) \<le> for_sale usd * amount (base p)" using mult_bounds [OF r(1) p(1)] U p(2) ne by simp
    have pb: "amount r * amount (quote p) \<le> amount pays * amount (base p)" "amount pays * amount (base p) < amount r * amount (quote p) + amount (base p)"
      using round_up_bounds [OF r(3) p(1) ri(3)] ri(1) p(2) by simp_all
    have "for_sale usd * amount (base p) \<le> amount w * amount (base p)" using True pos(1) by simp
    then have "amount r * amount (quote p) < for_sale core * amount (quote p) + amount (quote p)" using rb wb pos(2) by linarith
    then have "amount r \<le> for_sale core" using pos(2) by (rule scaled_le_cancel)
    moreover have "amount pays \<le> for_sale usd" using pb(2) rb pos(1) by (intro scaled_le_cancel [of _ "amount (base p)"]) linarith+
    ultimately show ?thesis
      using r ri pb round_up_range [OF r(3)] p(2,3) by (simp add: fair_amounts_def)
  next
    case False
    then obtain r where r: "pays = w" "multiply_and_round_up w p = Inr receives" "\<not> cull"
      using run w wi(1) hf by (auto simp: limit_match_amounts_def Let_def asset_le_def asset_less_def U split: if_splits)
    have b: "amount w * amount (base p) \<le> amount receives * amount (quote p)" "amount receives * amount (quote p) < amount w * amount (base p) + amount (quote p)"
      using round_up_bounds [OF r(2) p(1) wi(3)] wi(1) p(2) ne by simp_all
    have "amount receives \<le> for_sale core" using b(2) wb pos(2) by (intro scaled_le_cancel [of _ "amount (quote p)"]) linarith+
    then show ?thesis using r wi b False round_up_range [OF r(2)] p(2,3) ne by (simp add: fair_amounts_def)
  qed
qed


lemma trade_options: "trade d d' v \<Longrightarrow> options_ok d \<Longrightarrow> options_ok d'"
  by (simp add: options_ok_def trade_keeps)

lemma rest_ok: "order_ok lo \<Longrightarrow> 0 \<le> n \<Longrightarrow> n < for_sale lo \<Longrightarrow> order_ok (rest_of lo n)"
  by (simp add: order_ok_def rest_of_def sell_asset_id_def receive_asset_id_def)

text \<open>The result of one fill on the book, for the properties below.\<close>

definition filled_to :: "limit_order_object \<Rightarrow> int \<Rightarrow> bool \<Rightarrow> limit_order_object option" where
  "filled_to lo n gone = (if gone then None else Some (rest_of lo n))"

lemma match_limit_orders_cases:
  assumes F: "fc_lib_ok F" and ok: "db_ok d" "options_ok d"
    and u: "index_find (limit_orders d) i = Some usd" "order_ok usd" and c: "index_find (limit_orders d) j = Some core" "order_ok core"
    and p: "price_ok p" "asset_id (base p) = sell_asset_id core" "asset_id (quote p) = sell_asset_id usd"
    and hf: "next_maintenance_time d > HARDFORK_CORE_342_TIME"
    and run: "match_limit_orders F i j p d = Inr (n, d')"
  shows "n = 1 \<and> d' = d \<and> limit_match_amounts d usd core p = Inr None \<or>
     (\<exists>pays receives cull taker maker. limit_match_amounts d usd core p = Inr (Some (pays, receives, cull)) \<and> n = filled_bits taker maker \<and> (taker \<or> maker) \<and>
       trade d d' (\<lambda>_. 0) \<and> call_orders d' = call_orders d \<and> force_settlements d' = force_settlements d \<and>
       asset_id pays = sell_asset_id usd \<and> asset_id receives = sell_asset_id core \<and>
       0 \<le> amount pays \<and> amount pays \<le> for_sale usd \<and> 0 \<le> amount receives \<and> amount receives \<le> for_sale core \<and>
       fair_amounts p (amount pays) (amount receives) cull \<and> (taker \<or> amount pays < for_sale usd) \<and> (maker \<or> amount receives < for_sale core) \<and>
       index_find (limit_orders d') = (index_find (limit_orders d))(i := filled_to usd (amount pays) taker, j := filled_to core (amount receives) maker))"
proof -
  obtain amounts where m: "asset_id (quote (sell_price usd)) = asset_id (base (sell_price core))" "asset_id (base (sell_price usd)) = asset_id (quote (sell_price core))"
    and am: "limit_match_amounts d usd core p = Inr amounts"
    and rest: "(case amounts of
        None \<Rightarrow> Inr (1, d)
      | Some (usd_pays, usd_receives, cull_taker) \<Rightarrow>
          require (next_maintenance_time d \<le> HARDFORK_CORE_342_TIME \<longrightarrow>
                   usd_pays = amount_for_sale usd \<or> usd_receives = amount_for_sale core) Assert_failed
          (rbind (fill_limit_order F i usd_pays usd_receives cull_taker d) (\<lambda>(taker, d1).
           rbind (fill_limit_order F j usd_receives usd_pays True d1) (\<lambda>(maker, d2).
           require (taker \<or> maker) Assert_failed (Inr (filled_bits taker maker, d2)))))) = Inr (n, d')"
    using run u(1) c(1) by (auto simp: match_limit_orders_def index_get_def simp del: One_nat_def)
  show ?thesis
  proof (cases amounts)
    case None
    then show ?thesis using rest am by simp
  next
    case (Some x)
    obtain pays receives cull where x: "x = (pays, receives, cull)" by (cases x) auto
    obtain taker d1 maker where f1: "fill_limit_order F i pays receives cull d = Inr (taker, d1)"
      and f2: "fill_limit_order F j receives pays True d1 = Inr (maker, d')" and n: "taker \<or> maker" "n = filled_bits taker maker"
      using rest Some x by auto
    have m': "sell_asset_id usd = receive_asset_id core" using m by (simp add: sell_asset_id_def receive_asset_id_def)
    note A = limit_match_amounts_fair [OF u(2) c(2) p m' hf am [unfolded Some x]]
    have ij: "i \<noteq> j" using u c m' by (auto simp: order_ok_def)
    have rec: "0 \<le> amount receives" "amount receives < 2 ^ 63" and pay: "0 \<le> amount pays" "amount pays < 2 ^ 63"
      using A u(2) c(2) by (auto simp: order_ok_def)
    note E1 = fill_limit_order_effect [OF F ok u(1) order_fees [OF u(2)] rec f1]
    have ok1: "db_ok d1" "options_ok d1" using trade_ok trade_options ok(2) conjunct1 [OF E1] by blast+
    have c1: "index_find (limit_orders d1) j = Some core" using E1 c(1) ij by simp
    note E2 = fill_limit_order_effect [OF F ok1 c1 order_fees [OF c(2)] pay f2]
    have "trade d d' (\<lambda>_. 0)" by (rule trade_cong [OF trade_trans [OF conjunct1 [OF E1] conjunct1 [OF E2]]]) simp
    moreover have "index_find (limit_orders d') = (index_find (limit_orders d))(i := filled_to usd (amount pays) taker, j := filled_to core (amount receives) maker)"
      using E1 E2 ij by (simp add: filled_to_def fun_upd_twist)
    moreover have "taker \<or> amount pays < for_sale usd" "maker \<or> amount receives < for_sale core" using A E1 E2 by auto
    ultimately show ?thesis using am Some x n A E1 E2 by (intro disjI2 exI [of _ pays] exI [of _ receives] exI [of _ cull] exI [of _ taker] exI [of _ maker]) simp
  qed
qed

text \<open>Whatever the rounding rules of the time, a match keeps every asset and the fees of the orders.\<close>

definition orders_ok :: "database \<Rightarrow> bool" where
  "orders_ok d \<longleftrightarrow> (\<forall>i lo. index_find (limit_orders d) i = Some lo \<longrightarrow> fees_ok lo \<and> for_sale lo < 2 ^ 63)"

lemma orders_okD: "orders_ok d \<Longrightarrow> index_find (limit_orders d) i = Some lo \<Longrightarrow> fees_ok lo \<and> for_sale lo < 2 ^ 63"
  by (simp add: orders_ok_def)

lemma fill_limit_order_trade:
  assumes F: "fc_lib_ok F" and ok: "db_ok d" "options_ok d" "orders_ok d" and rec: "0 \<le> amount receives" "amount receives < 2 ^ 63"
    and run: "fill_limit_order F i pays receives cull d = Inr (r, d')"
  shows "trade d d' (\<lambda>a. if_asset a receives - if_asset a pays) \<and> orders_ok d' \<and> options_ok d' \<and> call_orders d' = call_orders d \<and>
     force_settlements d' = force_settlements d"
proof -
  obtain lo where lo: "index_find (limit_orders d) i = Some lo" using run by (auto simp: fill_limit_order_def)
  note E = fill_limit_order_effect [OF F ok(1,2) lo conjunct1 [OF orders_okD [OF ok(3) lo]] rec run]
  have "orders_ok d'" using ok(3) E by (auto simp: orders_ok_def fees_ok_def rest_of_def)
  then show ?thesis using E trade_options ok(2) by blast
qed

lemma match_limit_orders_trade:
  assumes F: "fc_lib_ok F" and ok: "db_ok d" "options_ok d" "orders_ok d" and run: "match_limit_orders F i j p d = Inr (n, d')"
  shows "trade d d' (\<lambda>_. 0) \<and> orders_ok d' \<and> call_orders d' = call_orders d \<and> force_settlements d' = force_settlements d"
proof -
  obtain usd core amounts where o: "index_find (limit_orders d) i = Some usd" "index_find (limit_orders d) j = Some core" "0 < for_sale usd" "0 < for_sale core"
    and am: "limit_match_amounts d usd core p = Inr amounts"
    and rest: "(case amounts of
        None \<Rightarrow> Inr (1, d)
      | Some (usd_pays, usd_receives, cull_taker) \<Rightarrow>
          require (next_maintenance_time d \<le> HARDFORK_CORE_342_TIME \<longrightarrow>
                   usd_pays = amount_for_sale usd \<or> usd_receives = amount_for_sale core) Assert_failed
          (rbind (fill_limit_order F i usd_pays usd_receives cull_taker d) (\<lambda>(taker, d1).
           rbind (fill_limit_order F j usd_receives usd_pays True d1) (\<lambda>(maker, d2).
           require (taker \<or> maker) Assert_failed (Inr (filled_bits taker maker, d2)))))) = Inr (n, d')"
    using run by (auto simp: match_limit_orders_def simp del: One_nat_def)
  show ?thesis
  proof (cases amounts)
    case None
    then show ?thesis using rest ok flow_trade [OF flow_refl [OF ok(1)]] by simp
  next
    case (Some x)
    obtain pays receives cull where x: "x = (pays, receives, cull)" by (cases x) auto
    obtain taker d1 maker where f1: "fill_limit_order F i pays receives cull d = Inr (taker, d1)" and f2: "fill_limit_order F j receives pays True d1 = Inr (maker, d')"
      using rest Some x by auto
    have b: "for_sale usd < 2 ^ 63" "for_sale core < 2 ^ 63" using orders_okD [OF ok(3)] o by auto
    have "0 \<le> amount receives \<and> amount receives < 2 ^ 63 \<and> 0 \<le> amount pays \<and> amount pays < 2 ^ 63"
      using am o(3,4) b unfolding Some x limit_match_amounts_def Let_def
      by (auto simp: amount_for_sale_def split: if_splits dest!: asset_mult_range round_up_range)
    then have r: "0 \<le> amount receives" "amount receives < 2 ^ 63" "0 \<le> amount pays" "amount pays < 2 ^ 63" by blast+
    note E1 = fill_limit_order_trade [OF F ok r(1,2) f1]
    have ok1: "db_ok d1" "options_ok d1" "orders_ok d1" using E1 trade_ok by blast+
    note E2 = fill_limit_order_trade [OF F ok1 r(3,4) f2]
    have "trade d d' (\<lambda>_. 0)" by (rule trade_cong [OF trade_trans [OF conjunct1 [OF E1] conjunct1 [OF E2]]]) simp
    then show ?thesis using E1 E2 by simp
  qed
qed

text \<open>Positions may shrink or go, but the two assets of a position stay.\<close>

definition calls_kept :: "database \<Rightarrow> database \<Rightarrow> bool" where
  "calls_kept d d' \<longleftrightarrow> (\<forall>i co'. index_find (call_orders d') i = Some co' \<longrightarrow>
     (\<exists>co. index_find (call_orders d) i = Some co \<and> collateral_type co' = collateral_type co \<and> debt_type co' = debt_type co))"

lemma calls_kept_eq [simp]: "call_orders d' = call_orders d \<Longrightarrow> calls_kept d d'"
  by (simp add: calls_kept_def)

lemma calls_kept_trans: "calls_kept d d1 \<Longrightarrow> calls_kept d1 d2 \<Longrightarrow> calls_kept d d2"
  unfolding calls_kept_def by metis

lemma fill_call_order_kept:
  assumes "fc_lib_ok F" and "db_ok d" and "fill_call_order F i pays receives d = Inr (r, d')"
  shows "calls_kept d d'"
  using fill_call_order_effect [OF assms] by (auto simp: calls_kept_def split: if_splits)

lemma match_limit_call_trade:
  assumes F: "fc_lib_ok F" and ok: "db_ok d" "options_ok d" "orders_ok d" and run: "match_limit_call F i j p feed mcr d = Inr (n, d')"
  shows "trade d d' (\<lambda>_. 0) \<and> orders_ok d' \<and> calls_kept d d' \<and> force_settlements d' = force_settlements d"
proof -
  obtain bid usd_to_buy smaller amounts where
    am: "(if smaller
                then rbind (asset_mult (amount_for_sale bid) p) (\<lambda>order_receives.
                     if amount order_receives = 0 \<and> \<not> next_maintenance_time d \<le> HARDFORK_CORE_184_TIME then Inr None
                     else if next_maintenance_time d \<le> HARDFORK_CORE_342_TIME then Inr (Some (amount_for_sale bid, order_receives, False))
                     else rbind (multiply_and_round_up order_receives p) (\<lambda>call_receives.
                          Inr (Some (call_receives, order_receives, True))))
                else if next_maintenance_time d \<le> HARDFORK_CORE_342_TIME
                then rbind (asset_mult usd_to_buy p) (\<lambda>order_receives.
                     if amount order_receives = 0 \<and> \<not> next_maintenance_time d \<le> HARDFORK_CORE_184_TIME then Inr None
                     else Inr (Some (usd_to_buy, order_receives, False)))
                else rbind (multiply_and_round_up usd_to_buy p) (\<lambda>order_receives.
                     Inr (Some (usd_to_buy, order_receives, False)))) = Inr amounts"
    and rest: "(case amounts of
           None \<Rightarrow> Inr (1, d)
         | Some (order_pays, order_receives, cull_taker) \<Rightarrow>
             rbind (fill_limit_order F i order_pays order_receives cull_taker d) (\<lambda>(taker, d1).
             rbind (fill_call_order F j order_receives order_pays d1) (\<lambda>(maker, d2).
             Inr (filled_bits taker maker, d2)))) = Inr (n, d')"
    using run unfolding match_limit_call_def Let_def by (auto simp del: One_nat_def if_split)
  show ?thesis
  proof (cases amounts)
    case None
    then show ?thesis using rest ok flow_trade [OF flow_refl [OF ok(1)]] by simp
  next
    case (Some x)
    obtain pays receives cull where x: "x = (pays, receives, cull)" by (cases x) auto
    obtain taker d1 maker where f1: "fill_limit_order F i pays receives cull d = Inr (taker, d1)"
      and f2: "fill_call_order F j receives pays d1 = Inr (maker, d')" using rest Some x by auto
    have rec: "0 \<le> amount receives" "amount receives < 2 ^ 63"
      using am Some x by (auto split: if_splits dest!: asset_mult_range round_up_range)
    note E1 = fill_limit_order_trade [OF F ok rec f1]
    obtain co' where E2: "trade d1 d' (\<lambda>a. if_asset a pays - if_asset a receives)" "limit_orders d' = limit_orders d1" "force_settlements d' = force_settlements d1"
      using fill_call_order_effect [OF F trade_ok [OF conjunct1 [OF E1]] f2] by blast
    have "trade d d' (\<lambda>_. 0)" by (rule trade_cong [OF trade_trans [OF conjunct1 [OF E1] E2(1)]]) simp
    moreover have "calls_kept d d'"
      using fill_call_order_kept [OF F trade_ok [OF conjunct1 [OF E1]] f2] E1 by (simp add: calls_kept_def)
    ultimately show ?thesis using E1 E2(2,3) by (simp add: orders_ok_def)
  qed
qed

lemma cancel_settle_order_trade:
  assumes F: "fc_lib_ok F" and ok: "db_ok d" and run: "cancel_settle_order F i d = Inr d'"
  shows "trade d d' (\<lambda>_. 0) \<and> limit_orders d' = limit_orders d \<and> call_orders d' = call_orders d \<and>
     index_find (force_settlements d') = (index_find (force_settlements d))(i := None)"
proof -
  obtain s d1 where P: "index_find (force_settlements d) i = Some s" "adjust_balance F (fs_owner s) (fs_balance s) d = Inr d1"
      "remove_settlement i d1 = Inr d'"
    using run by (auto simp: cancel_settle_order_def remove_settlement_def)
  note f = adjust_balance_flow [OF F ok P(2)]
  obtain x ix where R: "index_find (force_settlements d1) i = Some x" "d' = d1\<lparr>force_settlements := ix\<rparr>"
      "index_find ix = (index_find (force_settlements d1))(i := None)" "db_ok d'" "\<forall>a. excess d' a = excess d1 a - if_asset a (fs_balance x)"
    using remove_settlement_effect [OF flow_ok [OF f] P(3)] by blast
  have x: "x = s" using R(1) P(1) flow_keeps [OF f] by simp
  show ?thesis
    using flow_trade [OF f] R(2-5) flow_keeps [OF f] by (simp add: trade_def same_setup_def x)
qed

lemma settle_match_amounts_range:
  assumes pok: "HARDFORK_CORE_342_TIME < next_maintenance_time d \<Longrightarrow> price_ok p \<and> asset_id (base p) \<noteq> asset_id (quote p)"
    and s: "nonneg64 (amount (fs_balance s))" and m: "0 \<le> amount mx" and c: "0 < debt co"
    and run: "settle_match_amounts d co s p mx = Inr (Inr (pays, receives, cull))"
  shows "0 \<le> amount pays \<and> amount pays < 2 ^ 63 \<and> 0 \<le> amount receives \<and> amount receives \<le> amount (fs_balance s) \<and> amount receives \<le> debt co \<and> amount receives \<le> amount mx"
proof -
  obtain r0 p0 where r0: "asset_mult r0 p = Inr p0"
    "0 \<le> amount r0" "amount r0 \<le> amount (fs_balance s)" "amount r0 \<le> debt co" "amount r0 \<le> amount mx"
    and rest: "(if amount p0 = 0
     then if next_maintenance_time d > HARDFORK_CORE_184_TIME
          then if r0 = get_debt co then Inr (Inr (p0\<lparr>amount := 1\<rparr>, r0, False)) else Inr (Inl (r0 = fs_balance s))
          else Inr (Inr (p0, r0, False))
     else if next_maintenance_time d > HARDFORK_CORE_342_TIME
     then if r0 = get_debt co
          then rbind (multiply_and_round_up r0 p) (\<lambda>p. Inr (Inr (p, r0, False)))
          else rbind (multiply_and_round_up p0 p) (\<lambda>r. Inr (Inr (p0, r, r0 = fs_balance s \<and> r \<noteq> fs_balance s)))
     else Inr (Inr (p0, r0, False))) = Inr (Inr (pays, receives, cull) :: bool + asset \<times> asset \<times> bool)"
  proof -
    obtain x r0 p0 where X: "asset_min (fs_balance s) mx = Inr x" "asset_min x (get_debt co) = Inr r0" "asset_mult r0 p = Inr p0"
      "(if amount p0 = 0
     then if next_maintenance_time d > HARDFORK_CORE_184_TIME
          then if r0 = get_debt co then Inr (Inr (p0\<lparr>amount := 1\<rparr>, r0, False)) else Inr (Inl (r0 = fs_balance s))
          else Inr (Inr (p0, r0, False))
     else if next_maintenance_time d > HARDFORK_CORE_342_TIME
     then if r0 = get_debt co
          then rbind (multiply_and_round_up r0 p) (\<lambda>p. Inr (Inr (p, r0, False)))
          else rbind (multiply_and_round_up p0 p) (\<lambda>r. Inr (Inr (p0, r, r0 = fs_balance s \<and> r \<noteq> fs_balance s)))
     else Inr (Inr (p0, r0, False))) = Inr (Inr (pays, receives, cull) :: bool + asset \<times> asset \<times> bool)"
      using run by (auto simp: settle_match_amounts_def)
    have "0 \<le> amount r0 \<and> amount r0 \<le> amount (fs_balance s) \<and> amount r0 \<le> debt co \<and> amount r0 \<le> amount mx"
      using X(1,2) s m c by (auto simp: asset_min_def asset_less_def get_debt_def nonneg64_def split: if_splits)
    then show thesis using that X(3,4) by blast
  qed
  note P = asset_mult_range [OF r0(1)]
  have r64: "nonneg64 (amount r0)" "nonneg64 (amount p0)" using r0(2,3) s P by (simp_all add: nonneg64_def)
  have up: "amount r \<le> amount r0" if u: "multiply_and_round_up p0 p = Inr r" and after: "HARDFORK_CORE_342_TIME < next_maintenance_time d" for r
  proof -
    have p: "price_ok p" "asset_id (base p) \<noteq> asset_id (quote p)" using pok [OF after] by simp_all
    have pos: "0 < amount (base p)" "0 < amount (quote p)" using p(1) by (simp_all add: price_ok_def pos64_def)
    show ?thesis
    proof (cases "asset_id r0 = asset_id (base p)")
      case True
      then show ?thesis
        using mult_bounds [OF r0(1) p(1) r64(1)] round_up_bounds [OF u p(1) r64(2)] P p(2) pos by (intro scaled_le_cancel [of _ "amount (quote p)"]) auto
    next
      case False
      then show ?thesis
        using mult_bounds [OF r0(1) p(1) r64(1)] round_up_bounds [OF u p(1) r64(2)] P p(2) pos by (intro scaled_le_cancel [of _ "amount (base p)"]) auto
    qed
  qed
  show ?thesis
  proof (cases "\<exists>q. multiply_and_round_up p0 p = Inr q")
    case True
    then obtain q where q: "multiply_and_round_up p0 p = Inr q" ..
    show ?thesis
      using rest P r0(2-5) up [OF q] q by (auto split: if_splits dest!: round_up_range)
  next
    case False
    then show ?thesis
      using rest P r0(2-5) by (auto split: if_splits dest!: round_up_range)
  qed
qed

text \<open>A forced settlement keeps every asset, and takes no more from the request than its balance and the
  maximum, and no more of the debt than there is.\<close>

lemma match_call_settle_effect:
  assumes F: "fc_lib_ok F" and ok: "db_ok d" "options_ok d" and s: "index_find (force_settlements d) j = Some s" "nonneg64 (amount (fs_balance s))"
    and p: "HARDFORK_CORE_342_TIME < next_maintenance_time d \<Longrightarrow> price_ok p \<and> asset_id (base p) \<noteq> asset_id (quote p)" and m: "0 \<le> amount mx"
    and run: "match_call_settle F i j p mx d = Inr (r, d')"
  shows "trade d d' (\<lambda>_. 0) \<and> limit_orders d' = limit_orders d \<and> amount r \<le> amount mx \<and> asset_id r = asset_id (fs_balance s) \<and>
     calls_kept d d' \<and>
     (\<forall>k s'. index_find (force_settlements d') k = Some s' \<longrightarrow> index_find (force_settlements d) k = Some s' \<or>
        k = j \<and> nonneg64 (amount (fs_balance s')) \<and> asset_id (fs_balance s') = asset_id (fs_balance s))"
proof -
  obtain co amounts where co: "index_find (call_orders d) i = Some co" "0 < debt co"
    and am: "settle_match_amounts d co s p mx = Inr amounts"
    and rest: "(case amounts of
        Inl cancelled \<Rightarrow>
          rbind (if cancelled then cancel_settle_order F j d else Inr d) (\<lambda>d1. Inr (mk_asset 0 (asset_id (fs_balance s)), d1))
      | Inr (call_pays, call_receives, cull) \<Rightarrow>
          rbind (if next_maintenance_time d \<le> HARDFORK_CORE_342_TIME then asset_less call_pays (get_collateral co) else Inr True) (\<lambda>ok.
          require ok Black_swan
          (rbind (fill_call_order F i call_pays call_receives d) (\<lambda>(c, d1).
           rbind (fill_settle_order F j call_receives call_pays d1) (\<lambda>(s, d2).
           rbind (if cull then cancel_settle_order F j d2 else Inr d2) (\<lambda>d3.
           Inr (call_receives, d3))))))) = Inr (r, d')"
    using run s(1) by (auto simp: match_call_settle_def index_get_def)
  show ?thesis
  proof (cases amounts)
    case (Inl cancelled)
    then have "(if cancelled then cancel_settle_order F j d else Inr d) = Inr d'" "r = mk_asset 0 (asset_id (fs_balance s))" using rest by auto
    then show ?thesis
      using cancel_settle_order_trade [OF F ok(1), of j d'] flow_trade [OF flow_refl [OF ok(1)]] m by (auto split: if_splits)
  next
    case (Inr x)
    obtain pays receives cull where x: "x = (pays, receives, cull)" by (cases x) auto
    obtain c d1 st d2 where f1: "fill_call_order F i pays receives d = Inr (c, d1)" and f2: "fill_settle_order F j receives pays d1 = Inr (st, d2)"
      and f3: "(if cull then cancel_settle_order F j d2 else Inr d2) = Inr d'" and r: "r = receives" using rest Inr x by auto
    note A = settle_match_amounts_range [OF p s(2) m co(2) am [unfolded Inr x]]
    obtain co' where E1: "trade d d1 (\<lambda>a. if_asset a receives - if_asset a pays)" "limit_orders d1 = limit_orders d"
        "force_settlements d1 = force_settlements d" "index_find (call_orders d1) = (index_find (call_orders d))(i := if c then None else Some co')"
      using fill_call_order_effect [OF F ok(1) f1] by blast
    have s1: "index_find (force_settlements d1) j = Some s" using s(1) E1(3) by simp
    note E2 = fill_settle_order_effect [OF F trade_ok [OF E1(1)] trade_options [OF E1(1) ok(2)] s1 _ _ _ f2]
    have E2': "trade d1 d2 (\<lambda>a. if_asset a pays - if_asset a receives) \<and> limit_orders d2 = limit_orders d1 \<and> call_orders d2 = call_orders d1 \<and>
        asset_id receives = asset_id (fs_balance s)"
      using E2 A by auto
    have left: "index_find (force_settlements d) k = Some s' \<or> k = j \<and> nonneg64 (amount (fs_balance s')) \<and> asset_id (fs_balance s') = asset_id (fs_balance s)"
      if "index_find (force_settlements d2) k = Some s'" for k s'
      using E2 A E1(3) that s(2) by (auto simp: nonneg64_def split: if_splits)
    have k2: "calls_kept d d2" using fill_call_order_kept [OF F ok(1) f1] E2' by (simp add: calls_kept_def)
    have t2: "trade d d2 (\<lambda>_. 0)" by (rule trade_cong [OF trade_trans [OF E1(1) conjunct1 [OF E2']]]) simp
    show ?thesis
    proof (cases cull)
      case True
      then have "cancel_settle_order F j d2 = Inr d'" using f3 by simp
      note C = cancel_settle_order_trade [OF F trade_ok [OF t2] this]
      have "trade d d' (\<lambda>_. 0)" by (rule trade_cong [OF trade_trans [OF t2 conjunct1 [OF C]]]) simp
      moreover have "calls_kept d d'" using k2 C by (simp add: calls_kept_def)
      ultimately show ?thesis using C E1 E2' A r left by auto
    next
      case False
      then show ?thesis using f3 t2 E1 E2' A r left k2 by auto
    qed
  qed
qed


section \<open>Properties of matches\<close>

definition limit_book_ok :: "database \<Rightarrow> bool" where
  "limit_book_ok d \<longleftrightarrow> (\<forall>i lo. index_find (limit_orders d) i = Some lo \<longrightarrow> order_ok lo)"

lemma limit_book_upd:
  "limit_book_ok d \<Longrightarrow> index_find (limit_orders d') = (index_find (limit_orders d))(i := x) \<Longrightarrow> (\<And>lo. x = Some lo \<Longrightarrow> order_ok lo) \<Longrightarrow> limit_book_ok d'"
  by (auto simp: limit_book_ok_def)

text \<open>What each order could get: the taker for all it sells, and the maker's offer in units of the taker.\<close>

lemma limit_match_amounts_exact:
  assumes o: "order_ok usd" "order_ok core" and p: "price_ok p" "asset_id (base p) = sell_asset_id core" "asset_id (quote p) = sell_asset_id usd"
    and m: "sell_asset_id usd = receive_asset_id core"
    and hf: "next_maintenance_time d > HARDFORK_CORE_342_TIME"
    and run: "limit_match_amounts d usd core p = Inr r"
    and buys: "buys = for_sale usd * amount (base p) div amount (quote p)" and worth: "worth = for_sale core * amount (quote p) div amount (base p)"
  shows "if buys = 0 then r = None
     else \<exists>pays receives. r = Some (pays, receives, for_sale usd \<le> worth) \<and> (if for_sale usd \<le> worth then amount receives = buys else amount pays = worth)"
proof -
  have ne: "sell_asset_id core \<noteq> sell_asset_id usd" using o(2) m by (simp add: order_ok_def)
  have U: "amount_for_sale usd = mk_asset (for_sale usd) (sell_asset_id usd)" "nonneg64 (for_sale usd)" "0 < for_sale usd"
    and C: "amount_for_sale core = mk_asset (for_sale core) (sell_asset_id core)" "nonneg64 (for_sale core)" "0 < for_sale core"
    using o by (simp_all add: amount_for_sale_def sell_asset_id_def order_ok_def nonneg64_def)
  have pos: "0 < amount (base p)" "0 < amount (quote p)" using p(1) by (simp_all add: price_ok_def pos64_def)
  have w: "asset_mult (amount_for_sale core) p = Inr x \<longleftrightarrow> worth \<le> GRAPHENE_MAX_SHARE_SUPPLY \<and> x = mk_asset worth (sell_asset_id usd)" for x
    using asset_mult_exact [of "amount_for_sale core" p] C p by (simp add: share_quotient_Inr worth)
  have b: "asset_mult (amount_for_sale usd) p = Inr x \<longleftrightarrow> buys \<le> GRAPHENE_MAX_SHARE_SUPPLY \<and> x = mk_asset buys (sell_asset_id core)" for x
    using asset_mult_exact [of "amount_for_sale usd" p] U p ne by (simp add: share_quotient_Inr buys)
  have hf': "next_maintenance_time d > HARDFORK_CORE_184_TIME" using hf by (simp add: HARDFORK_CORE_184_TIME_def HARDFORK_CORE_342_TIME_def)
  have small: "for_sale usd \<le> worth" if "buys = 0"
  proof -
    have "for_sale usd * amount (base p) < amount (quote p)" using that pos floor_div_bounds [OF pos(2), of "for_sale usd * amount (base p)"] by (simp add: buys)
    also have "amount (quote p) \<le> for_sale core * amount (quote p)" using C(3) pos(2) by simp
    finally show ?thesis using zdiv_mono1 [of "for_sale usd * amount (base p)" "for_sale core * amount (quote p)" "amount (base p)"] pos(1) by (simp add: worth)
  qed
  show ?thesis
    using run small hf hf' by (auto simp: limit_match_amounts_def Let_def w b [unfolded U(1)] asset_le_def asset_less_def U(1) split: if_splits)
qed

text \<open>C34. After hardfork CORE-342 a match of two limit orders at the price of the maker is fair and exact. If all the taker sells buys less than one unit, nothing
  is traded and the taker is reported as filled. Otherwise the smaller order decides what is exchanged: the taker's whole offer at the price, or the maker's;
  each side gives up no more than it offers, the exchange agrees with the price up to one unit, rounded against the smaller order, at least one of the two is
  filled, every other order is untouched, and what is left of them is a proper order. Holdings stay in step with the supply of every asset, market fees and
  deferred fees included.\<close>

theorem limit_match_fair:
  assumes "fc_lib_ok F" and "db_ok d" and "options_ok d" and "limit_book_ok d" and "next_maintenance_time d > HARDFORK_CORE_342_TIME"
    and u: "index_find (limit_orders d) i = Some usd" and c: "index_find (limit_orders d) j = Some core"
    and run: "match_limit_orders F i j (sell_price core) d = Inr (n, d')"
  shows "db_ok d' \<and> limit_book_ok d' \<and> excess d' = excess d \<and> call_orders d' = call_orders d \<and> force_settlements d' = force_settlements d \<and>
     (let p = sell_price core; buys = for_sale usd * amount (base p) div amount (quote p); worth = for_sale core * amount (quote p) div amount (base p)
      in if buys = 0 then n = 1 \<and> d' = d
         else \<exists>pays receives taker maker. n = filled_bits taker maker \<and> (taker \<or> maker) \<and>
           0 \<le> pays \<and> pays \<le> for_sale usd \<and> 0 \<le> receives \<and> receives \<le> for_sale core \<and>
           fair_amounts p pays receives (for_sale usd \<le> worth) \<and> (if for_sale usd \<le> worth then receives = buys else pays = worth) \<and>
           index_find (limit_orders d') = (index_find (limit_orders d))(i := filled_to usd pays taker, j := filled_to core receives maker))"
proof -
  have o: "order_ok usd" "order_ok core" using assms(4) u c by (auto simp: limit_book_ok_def)
  have m: "receive_asset_id core = sell_asset_id usd"
    using run u c by (auto simp: match_limit_orders_def index_get_def sell_asset_id_def receive_asset_id_def)
  have p: "price_ok (sell_price core)" "asset_id (base (sell_price core)) = sell_asset_id core" "asset_id (quote (sell_price core)) = sell_asset_id usd"
    using o(2) m by (simp_all add: order_ok_def sell_asset_id_def receive_asset_id_def)
  note E = limit_match_amounts_exact [OF o p m [symmetric] assms(5) _ refl refl]
  from match_limit_orders_cases [OF assms(1-3) u o(1) c o(2) p assms(5) run] show ?thesis
  proof (elim disjE exE)
    assume "n = 1 \<and> d' = d \<and> limit_match_amounts d usd core (sell_price core) = Inr None"
    then show ?thesis using assms(2,4) E [of None] by (auto simp: Let_def split: if_splits)
  next
    fix pays receives cull taker maker
    assume M: "limit_match_amounts d usd core (sell_price core) = Inr (Some (pays, receives, cull)) \<and> n = filled_bits taker maker \<and> (taker \<or> maker) \<and>
       trade d d' (\<lambda>_. 0) \<and> call_orders d' = call_orders d \<and> force_settlements d' = force_settlements d \<and>
       asset_id pays = sell_asset_id usd \<and> asset_id receives = sell_asset_id core \<and>
       0 \<le> amount pays \<and> amount pays \<le> for_sale usd \<and> 0 \<le> amount receives \<and> amount receives \<le> for_sale core \<and>
       fair_amounts (sell_price core) (amount pays) (amount receives) cull \<and> (taker \<or> amount pays < for_sale usd) \<and> (maker \<or> amount receives < for_sale core) \<and>
       index_find (limit_orders d') = (index_find (limit_orders d))(i := filled_to usd (amount pays) taker, j := filled_to core (amount receives) maker)"
    let ?b = "for_sale usd * amount (base (sell_price core)) div amount (quote (sell_price core))"
    let ?w = "for_sale core * amount (quote (sell_price core)) div amount (base (sell_price core))"
    have X: "?b \<noteq> 0" "cull \<longleftrightarrow> for_sale usd \<le> ?w" "if for_sale usd \<le> ?w then amount receives = ?b else amount pays = ?w"
      using E [of "Some (pays, receives, cull)"] M by (simp_all split: if_splits)
    have "limit_book_ok d'"
      using M assms(4) rest_ok o unfolding limit_book_ok_def filled_to_def by (auto split: if_splits)
    moreover have "excess d' = excess d" "db_ok d'" using M by (auto simp: trade_def)
    ultimately show ?thesis using M X unfolding Let_def by (simp only: if_False) blast
  qed
qed

section \<open>Witnesses\<close>

definition sample_order :: "nat \<Rightarrow> asset \<Rightarrow> asset \<Rightarrow> limit_order_object" where
  "sample_order who x y = \<lparr>lo_expiration = - 1, seller = who, for_sale = amount x, sell_price = mk_price x y, deferred_fee = 3, deferred_paid_fee = mk_asset 0 0\<rparr>"

definition sample_market :: database where
  "sample_market = sample_db\<lparr>assets := list_index [sample_asset 0 3 0, sample_asset 1 5 0],
     limit_orders := list_index [sample_order 6 (mk_asset 90 1) (mk_asset 60 0), sample_order 5 (mk_asset 40 0) (mk_asset 60 1)]\<rparr>"

lemma sample_market_ok: "db_ok sample_market" "options_ok sample_market" "limit_book_ok sample_market"
proof -
  show "db_ok sample_market"
    by (simp add: db_ok_def balances_ok_def assets_ok_def ix_ok_def sample_market_def sample_order_def sample_defs index_find_def upt_rec)
  show "options_ok sample_market"
    by (auto simp: options_ok_def sample_market_def sample_defs index_find_def upt_rec config_defs split: if_splits)
  show "limit_book_ok sample_market"
    by (auto simp: limit_book_ok_def order_ok_def price_ok_def pos64_def sell_asset_id_def receive_asset_id_def sample_market_def sample_order_def sample_defs index_find_def
        upt_rec split: if_splits)
qed

lemma sample_amounts:
  "limit_match_amounts sample_market (sample_order 6 (mk_asset 90 1) (mk_asset 60 0)) (sample_order 5 (mk_asset 40 0) (mk_asset 60 1))
     (mk_price (mk_asset 40 0) (mk_asset 60 1)) = Inr (Some (mk_asset 60 1, mk_asset 40 0, False))"
proof -
  have p: "price_ok (mk_price (mk_asset 40 0) (mk_asset 60 1))" by (simp add: price_ok_def pos64_def)
  have n: "nonneg64 40" "nonneg64 60" by (simp_all add: nonneg64_def)
  show ?thesis
    using p n by (simp add: limit_match_amounts_def Let_def asset_mult_exact multiply_and_round_up_exact share_quotient_def config_defs amount_for_sale_def
        sample_order_def asset_le_def asset_less_def sample_market_def sample_db_def HARDFORK_CORE_342_TIME_def HARDFORK_CORE_184_TIME_def)
qed

lemma sample_fills:
  "succeeds (rbind (fill_limit_order fc_reference 0 (mk_asset 60 1) (mk_asset 40 0) False sample_market) (\<lambda>(taker, d1).
     rbind (fill_limit_order fc_reference 1 (mk_asset 40 0) (mk_asset 60 1) True d1) (\<lambda>(maker, d2).
     require (taker \<or> maker) Assert_failed (Inr (filled_bits taker maker, d2)))))"
  by (simp add: fill_limit_order_def index_get_def pay_market_fees_def calculate_market_fee_def asset_minus_def pay_order_def modify_stats_of_def
      modify_stats_def ix_modify_def sub_core_in_orders_def adjust_balance_def pay_deferred_fees_def stats_pay_fee_def remove_limit_order_def index_remove_def
      modify_limit_order_def charges_market_fees_def has_flag_def amount_for_sale_def
      find_balance_def balance_key_def balance_object_adjust_def ix_create_def
      checked64_def in_int64_def index_find_def sample_market_def sample_order_def sample_defs upt_rec HARDFORK_555_TIME_def)

lemma sample_market_orders:
  "index_find (limit_orders sample_market) 0 = Some (sample_order 6 (mk_asset 90 1) (mk_asset 60 0))"
  "index_find (limit_orders sample_market) 1 = Some (sample_order 5 (mk_asset 40 0) (mk_asset 60 1))"
  "next_maintenance_time sample_market = 1600001000"
  by (simp_all add: sample_market_def sample_db_def list_index_def index_find_def upt_rec)

lemma sample_order_price: "sell_price (sample_order who x y) = mk_price x y"
  by (simp add: sample_order_def)

theorem limit_match_fair_witness:
  "\<exists>n d'. match_limit_orders fc_reference 0 1 (mk_price (mk_asset 40 0) (mk_asset 60 1)) sample_market = Inr (n, d') \<and> excess d' = excess sample_market \<and>
     limit_book_ok d'"
proof -
  have "succeeds (match_limit_orders fc_reference 0 1 (mk_price (mk_asset 40 0) (mk_asset 60 1)) sample_market)"
    using sample_fills sample_market_orders
    by (simp add: match_limit_orders_def index_get_def sample_amounts sample_order_price HARDFORK_CORE_342_TIME_def succeeds_iff del: One_nat_def)
       (simp add: sample_order_def)
  then obtain n d' where run: "match_limit_orders fc_reference 0 1 (mk_price (mk_asset 40 0) (mk_asset 60 1)) sample_market = Inr (n, d')"
    by (auto simp: succeeds_iff)
  have hf: "next_maintenance_time sample_market > HARDFORK_CORE_342_TIME" by (simp add: sample_market_orders HARDFORK_CORE_342_TIME_def)
  show ?thesis
    using limit_match_fair [OF fc_reference_ok sample_market_ok hf sample_market_orders(1,2)] run by (simp add: sample_order_price)
qed

end
