(* ===== verification/Market_Engine.thy ===== *)
theory Market_Engine
  imports Market_Value
begin

text \<open>
  The market engine (\<^verbatim>\<open>db_market.cpp\<close>, \<^verbatim>\<open>check_for_blackswan\<close> of \<^verbatim>\<open>db_update.cpp\<close>): the books in price order,
  global settlement and revival of a bitasset, margin calls, and the matching of a new limit order.

  An iterator of a price index is the list of the instance numbers it still runs over. The source
  advances an iterator before the object it leaves is changed, and no step reorders the objects
  ahead of it, so the list is fixed when the loop starts; where the source looks the first
  position up again, so does the model. A loop that asks for the first margin position until
  nothing matches has a step counter, \<^verbatim>\<open>Out_of_fuel\<close> when it runs out.
\<close>

section \<open>The books in price order\<close>

definition limit_before :: "nat \<times> limit_order_object \<Rightarrow> nat \<times> limit_order_object \<Rightarrow> bool" where
  "limit_before x y \<longleftrightarrow> price_less (sell_price (snd y)) (sell_price (snd x)) \<or>
     \<not> price_less (sell_price (snd x)) (sell_price (snd y)) \<and> fst x < fst y"

definition limit_book :: "database \<Rightarrow> (nat \<times> limit_order_object) list" where
  "limit_book d = sorted_by limit_before (objects (limit_orders d))"

text \<open>From \<^verbatim>\<open>lower_bound(hi)\<close> to \<^verbatim>\<open>upper_bound(lo)\<close> in the order from the greatest to the least price.\<close>

definition limit_range :: "price \<Rightarrow> price \<Rightarrow> database \<Rightarrow> nat list" where
  "limit_range hi lo d = map fst (filter (\<lambda>x. \<not> price_less hi (sell_price (snd x)) \<and> \<not> price_less (sell_price (snd x)) lo) (limit_book d))"

definition call_before :: "nat \<times> call_order_object \<Rightarrow> nat \<times> call_order_object \<Rightarrow> bool" where
  "call_before x y \<longleftrightarrow> price_less (co_call_price (snd x)) (co_call_price (snd y)) \<or>
     \<not> price_less (co_call_price (snd y)) (co_call_price (snd x)) \<and> fst x < fst y"

definition call_range :: "price \<Rightarrow> price \<Rightarrow> database \<Rightarrow> nat list" where
  "call_range lo hi d = map fst (filter (\<lambda>x. \<not> price_less (co_call_price (snd x)) lo \<and> \<not> price_less hi (co_call_price (snd x)))
     (sorted_by call_before (objects (call_orders d))))"

definition calls_of :: "nat \<Rightarrow> nat \<Rightarrow> database \<Rightarrow> nat list result" where
  "calls_of coll_id mia d = rbind (price_min coll_id mia) (\<lambda>lo. rbind (price_max coll_id mia) (\<lambda>hi. Inr (call_range lo hi d)))"

definition bid_before :: "nat \<times> collateral_bid_object \<Rightarrow> nat \<times> collateral_bid_object \<Rightarrow> bool" where
  "bid_before x y \<longleftrightarrow>
     (let dx = asset_id (quote (inv_swan_price (snd x))); dy = asset_id (quote (inv_swan_price (snd y)))
      in dx < dy \<or> dx = dy \<and> (price_less (inv_swan_price (snd y)) (inv_swan_price (snd x)) \<or>
           \<not> price_less (inv_swan_price (snd x)) (inv_swan_price (snd y)) \<and> fst x < fst y))"

definition bids_of :: "nat \<Rightarrow> price \<Rightarrow> database \<Rightarrow> nat list" where
  "bids_of mia hi d = map fst (filter (\<lambda>x. asset_id (quote (inv_swan_price (snd x))) = mia \<and> \<not> price_less hi (inv_swan_price (snd x)))
     (sorted_by bid_before (objects (collateral_bids d))))"

section \<open>Global settlement\<close>

fun settle_calls :: "fc_lib \<Rightarrow> price \<Rightarrow> nat list \<Rightarrow> asset \<Rightarrow> database \<Rightarrow> (asset \<times> database) result" where
  "settle_calls F swan_price [] gathered d = Inr (gathered, d)"
| "settle_calls F swan_price (i # is) gathered d =
     rbind (index_get (call_orders d) i) (\<lambda>order.
     rbind (if next_maintenance_time d \<le> HARDFORK_CORE_342_TIME then asset_mult (get_debt order) swan_price
            else multiply_and_round_up (get_debt order) swan_price) (\<lambda>due.
     rbind (asset_greater due (get_collateral order)) (\<lambda>too_much.
     let pays = (if too_much then get_collateral order else due)
     in rbind (asset_plus F gathered pays) (\<lambda>gathered1.
        rbind (fill_call_order F i pays (get_debt order) d) (\<lambda>(filled, d1).
        require filled Assert_failed (settle_calls F swan_price is gathered1 d1))))))"

definition set_settlement :: "price \<Rightarrow> int \<Rightarrow> asset_bitasset_data_object \<Rightarrow> asset_bitasset_data_object" where
  "set_settlement p n b = b\<lparr>bit_settlement_price := p, settlement_fund := n\<rparr>"

definition globally_settle_asset :: "fc_lib \<Rightarrow> nat \<Rightarrow> price \<Rightarrow> database \<Rightarrow> database result" where
  "globally_settle_asset F mia swan_price d =
     rbind (index_get (assets d) mia) (\<lambda>a.
     rbind (of_option Assert_failed (bitasset_data_id a)) (\<lambda>bi.
     rbind (index_get (bitassets d) bi) (\<lambda>b.
     require (\<not> has_settlement b) Assert_failed
     (rbind (index_get (assets d) (short_backing_asset (bit_options b))) (\<lambda>_.
      rbind (index_get (asset_dyn_data d) (dynamic_asset_data_id a)) (\<lambda>dyn.
      rbind (calls_of (short_backing_asset (bit_options b)) mia d) (\<lambda>calls.
      rbind (settle_calls F swan_price calls (mk_asset 0 (short_backing_asset (bit_options b))) d) (\<lambda>(gathered, d1).
      rbind (price_div (mk_asset (current_supply dyn) mia) gathered) (\<lambda>p.
      rbind (modify_bitasset bi (set_settlement p (amount gathered)) d1) (\<lambda>d2.
      modify_dyn_data (dynamic_asset_data_id a) (\<lambda>x. Inr (x\<lparr>current_supply := current_supply dyn\<rparr>)) d2))))))))))"

section \<open>Bids and revival\<close>

definition remove_bid :: "nat \<Rightarrow> database \<Rightarrow> database result" where
  "remove_bid i d = rbind (index_remove i (collateral_bids d)) (\<lambda>ix. Inr (d\<lparr>collateral_bids := ix\<rparr>))"

definition cancel_bid :: "fc_lib \<Rightarrow> nat \<Rightarrow> database \<Rightarrow> database result" where
  "cancel_bid F i d =
     rbind (index_get (collateral_bids d) i) (\<lambda>bid.
     rbind (adjust_balance F (bidder bid) (base (inv_swan_price bid)) d) (remove_bid i))"

fun cancel_bids :: "fc_lib \<Rightarrow> nat list \<Rightarrow> database \<Rightarrow> database result" where
  "cancel_bids F [] d = Inr d"
| "cancel_bids F (i # is) d = rbind (cancel_bid F i d) (cancel_bids F is)"

text \<open>An account has one position and one bid in an asset: \<^verbatim>\<open>by_account\<close> is a unique key of both indexes.\<close>

definition find_call_order :: "database \<Rightarrow> nat \<Rightarrow> nat \<Rightarrow> (nat \<times> call_order_object) option" where
  "find_call_order d who mia = find (\<lambda>x. borrower (snd x) = who \<and> debt_type (snd x) = mia) (objects (call_orders d))"

definition create_call_order :: "call_order_object \<Rightarrow> database \<Rightarrow> (nat \<times> database) result" where
  "create_call_order co d =
     require (find_call_order d (borrower co) (debt_type co) = None) Assert_failed
     (case ix_create co (call_orders d) of (i, ix) \<Rightarrow> Inr (i, d\<lparr>call_orders := ix\<rparr>))"

definition find_bid :: "database \<Rightarrow> nat \<Rightarrow> nat \<Rightarrow> (nat \<times> collateral_bid_object) option" where
  "find_bid d mia who = find (\<lambda>x. asset_id (quote (inv_swan_price (snd x))) = mia \<and> bidder (snd x) = who) (objects (collateral_bids d))"

definition create_bid :: "collateral_bid_object \<Rightarrow> database \<Rightarrow> (nat \<times> database) result" where
  "create_bid bid d =
     require (find_bid d (asset_id (quote (inv_swan_price bid))) (bidder bid) = None) Assert_failed
     (case ix_create bid (collateral_bids d) of (i, ix) \<Rightarrow> Inr (i, d\<lparr>collateral_bids := ix\<rparr>))"

definition execute_bid :: "fc_lib \<Rightarrow> nat \<Rightarrow> int \<Rightarrow> int \<Rightarrow> price_feed \<Rightarrow> database \<Rightarrow> database result" where
  "execute_bid F i debt_covered collateral_from_fund feed d =
     rbind (index_get (collateral_bids d) i) (\<lambda>bid.
     rbind (of_option Overflow (safe_add F (amount (base (inv_swan_price bid))) collateral_from_fund)) (\<lambda>coll.
     rbind (call_price F (mk_asset debt_covered (asset_id (quote (inv_swan_price bid)))) (mk_asset coll (asset_id (base (inv_swan_price bid))))
              (maintenance_collateral_ratio feed)) (\<lambda>p.
     rbind (create_call_order \<lparr>borrower = bidder bid, collateral = coll, debt = debt_covered, co_call_price = p, target_collateral_ratio = None\<rparr> d) (\<lambda>(_, d1).
     rbind (if asset_id (base (inv_swan_price bid)) = 0 then modify_stats_of (bidder bid) (add_core_in_orders F coll) d1
            else Inr d1) (remove_bid i)))))"

definition cancel_bids_and_revive_mpa :: "fc_lib \<Rightarrow> nat \<Rightarrow> database \<Rightarrow> database result" where
  "cancel_bids_and_revive_mpa F mia d =
     rbind (index_get (assets d) mia) (\<lambda>a.
     require (is_market_issued a) Assert_failed
     (rbind (of_option Assert_failed (bitasset_data_id a)) (\<lambda>bi.
      rbind (index_get (bitassets d) bi) (\<lambda>bad.
      require (has_settlement bad) Assert_failed
      (require (\<not> is_prediction_market bad) Assert_failed
      (rbind (price_max (short_backing_asset (bit_options bad)) mia) (\<lambda>hi.
       rbind (cancel_bids F (bids_of mia hi d) d) (\<lambda>d1.
       modify_bitasset bi (set_settlement null_price 0) d1))))))))"

definition revive_bitasset :: "fc_lib \<Rightarrow> nat \<Rightarrow> database \<Rightarrow> database result" where
  "revive_bitasset F mia d =
     rbind (index_get (assets d) mia) (\<lambda>a.
     require (is_market_issued a) Assert_failed
     (rbind (bitasset_data d a) (\<lambda>bad.
      require (has_settlement bad) Assert_failed
      (rbind (index_get (asset_dyn_data d) (dynamic_asset_data_id a)) (\<lambda>bdd.
       require (\<not> is_prediction_market bad) Assert_failed
       (require (\<not> price_is_null (settlement_price (current_feed bad))) Assert_failed
       (rbind (if current_supply bdd > 0
               then rbind (price_div (mk_asset 0 (short_backing_asset (bit_options bad))) (mk_asset (current_supply bdd) mia)) (\<lambda>p.
                    rbind (create_bid \<lparr>bidder = issuer a, inv_swan_price = p\<rparr> d) (\<lambda>(i, d1).
                    execute_bid F i (current_supply bdd) (settlement_fund bad) (current_feed bad) d1))
               else require (settlement_fund bad = 0) Assert_failed (Inr d))
        (cancel_bids_and_revive_mpa F mia))))))))"

section \<open>Black swans\<close>

definition highest_bid :: "fc_lib \<Rightarrow> nat \<Rightarrow> asset_bitasset_data_object \<Rightarrow> database \<Rightarrow> price result" where
  "highest_bid F mia b d =
     rbind (if next_maintenance_time d > HARDFORK_CORE_338_TIME then max_short_squeeze_price F (current_feed b)
            else Inr (settlement_price (current_feed b))) (\<lambda>highest.
     rbind (price_max mia (short_backing_asset (bit_options b))) (\<lambda>hi.
     rbind (price_min mia (short_backing_asset (bit_options b))) (\<lambda>lo.
     case limit_range hi lo d of
       [] \<Rightarrow> Inr highest
     | l # _ \<Rightarrow>
         rbind (index_get (limit_orders d) l) (\<lambda>order.
         require (asset_id (base highest) = asset_id (base (sell_price order))) Assert_failed
         (Inr (if price_less (sell_price order) highest then highest else sell_price order))))))"

definition check_for_blackswan :: "fc_lib \<Rightarrow> nat \<Rightarrow> bool \<Rightarrow> database \<Rightarrow> (bool \<times> database) result" where
  "check_for_blackswan F mia enable_black_swan d =
     rbind (index_get (assets d) mia) (\<lambda>a.
     if \<not> is_market_issued a then Inr (False, d)
     else rbind (bitasset_data d a) (\<lambda>b.
       if has_settlement b then Inr (True, d)
       else if price_is_null (settlement_price (current_feed b)) then Inr (False, d)
       else rbind (calls_of (short_backing_asset (bit_options b)) mia d) (\<lambda>calls.
         case calls of
           [] \<Rightarrow> Inr (False, d)
         | c # _ \<Rightarrow>
             rbind (highest_bid F mia b d) (\<lambda>highest.
             rbind (index_get (call_orders d) c) (\<lambda>call.
             rbind (collateralization call) (\<lambda>least_collateral.
             if price_ge (price_invert least_collateral) highest
             then require enable_black_swan Assert_failed
                  (rbind (globally_settle_asset F mia
                            (if next_maintenance_time d > HARDFORK_CORE_338_TIME \<and> price_le (price_invert least_collateral) (settlement_price (current_feed b))
                             then settlement_price (current_feed b) else price_invert least_collateral) d) (\<lambda>d1.
                   Inr (True, d1)))
             else Inr (False, d)))))))"

section \<open>Margin calls\<close>

text \<open>What one margin call came to: nothing is called, the asset was settled globally, or a position and an order were
  matched, with the flags of the source: the position counts as filled, the order does, the order is gone.\<close>

datatype call_outcome = Not_called | Settled | Called bool bool bool

definition margin_amounts :: "database \<Rightarrow> asset \<Rightarrow> asset \<Rightarrow> price \<Rightarrow> bool \<Rightarrow> (asset \<times> asset) result" where
  "margin_amounts d usd_to_buy usd_for_sale match_price order_smaller =
     (if order_smaller
      then rbind (asset_mult usd_for_sale match_price) (\<lambda>order_receives.
           if next_maintenance_time d \<le> HARDFORK_CORE_342_TIME then Inr (usd_for_sale, order_receives)
           else rbind (multiply_and_round_up order_receives match_price) (\<lambda>call_receives. Inr (call_receives, order_receives)))
      else rbind (if next_maintenance_time d \<le> HARDFORK_CORE_342_TIME then asset_mult usd_to_buy match_price
                  else multiply_and_round_up usd_to_buy match_price) (\<lambda>order_receives.
           Inr (usd_to_buy, order_receives)))"

text \<open>The assets whose positions are checked again by a rule that was dropped with hardfork 615.\<close>

definition note_issue_453 :: "nat \<Rightarrow> database \<Rightarrow> database" where
  "note_issue_453 mia d =
     (if next_maintenance_time d \<le> HARDFORK_CORE_453_TIME \<and> head_block_time d < HARDFORK_615_TIME
      then d\<lparr>issue_453_affected_assets := List.insert mia (issue_453_affected_assets d)\<rparr> else d)"

definition fill_margin_call :: "fc_lib \<Rightarrow> nat \<Rightarrow> nat \<Rightarrow> nat \<Rightarrow> asset \<Rightarrow> asset \<Rightarrow> price \<Rightarrow> bool \<Rightarrow> database \<Rightarrow> (call_outcome \<times> database) result" where
  "fill_margin_call F mia c l usd_to_buy usd_for_sale match_price filled_limit d =
     rbind (asset_greater usd_to_buy usd_for_sale) (\<lambda>order_smaller.
     rbind (margin_amounts d usd_to_buy usd_for_sale match_price order_smaller) (\<lambda>(call_receives, order_receives).
     rbind (fill_call_order F c order_receives call_receives
              (if \<not> order_smaller \<and> usd_to_buy \<noteq> usd_for_sale \<and> filled_limit then note_issue_453 mia d else d)) (\<lambda>(_, d1).
     rbind (fill_limit_order F l call_receives order_receives True d1) (\<lambda>(really_filled, d2).
     Inr (Called (\<not> order_smaller) (filled_limit \<or> order_smaller \<or> usd_to_buy = usd_for_sale) really_filled, d2)))))"

definition margin_call :: "fc_lib \<Rightarrow> nat \<Rightarrow> bool \<Rightarrow> nat \<Rightarrow> nat \<Rightarrow> bool \<Rightarrow> database \<Rightarrow> (call_outcome \<times> database) result" where
  "margin_call F mia enable_black_swan c l filled_limit d =
     rbind (index_get (assets d) mia) (\<lambda>a.
     rbind (bitasset_data d a) (\<lambda>b.
     rbind (index_get (limit_orders d) l) (\<lambda>order.
     rbind (index_get (call_orders d) c) (\<lambda>call.
     rbind (price_validate (sell_price order)) (\<lambda>_.
     let match_price = sell_price order; feed = settlement_price (current_feed b); swan_price = price_invert (co_call_price call)
     in if head_block_time d > HARDFORK_436_TIME \<and> price_greater feed swan_price then Inr (Not_called, d)
        else if next_maintenance_time d \<le> HARDFORK_CORE_606_TIME \<and> price_greater match_price swan_price then Inr (Not_called, d)
        else rbind (asset_mult (get_debt call) match_price) (\<lambda>worth.
             rbind (asset_greater worth (get_collateral call)) (\<lambda>swan.
             if swan
             then require enable_black_swan Assert_failed
                  (rbind (globally_settle_asset F mia feed d) (\<lambda>d1. Inr (Settled, d1)))
             else rbind (if next_maintenance_time d \<le> HARDFORK_CORE_834_TIME then Inr (get_debt call)
                         else rbind (get_max_debt_to_cover F call match_price feed (maintenance_collateral_ratio (current_feed b))) (\<lambda>n.
                              Inr (mk_asset n (debt_type call)))) (\<lambda>usd_to_buy.
                  fill_margin_call F (bit_asset_id b) c l usd_to_buy (amount_for_sale order) match_price filled_limit d))))))))"

fun call_loop :: "fc_lib \<Rightarrow> nat \<Rightarrow> nat \<Rightarrow> bool \<Rightarrow> nat \<Rightarrow> nat list \<Rightarrow> nat list \<Rightarrow> bool \<Rightarrow> bool \<Rightarrow> database \<Rightarrow> (bool \<times> database) result" where
  "call_loop F coll_id mia enable_black_swan 0 calls limits filled_limit margin_called d = Inl Out_of_fuel"
| "call_loop F coll_id mia enable_black_swan (Suc n) calls limits filled_limit margin_called d =
     rbind (check_for_blackswan F mia enable_black_swan d) (\<lambda>(swan, d1).
     case (calls, limits) of
       (c # cs, l # ls) \<Rightarrow>
         if swan then Inr (margin_called, d1)
         else rbind (margin_call F mia enable_black_swan c l filled_limit d1) (\<lambda>(outcome, d2).
              case outcome of
                Not_called \<Rightarrow> Inr (margin_called, d2)
              | Settled \<Rightarrow> Inr (True, d2)
              | Called filled_call limit_done really_filled \<Rightarrow>
                  rbind (if next_maintenance_time d2 \<le> HARDFORK_CORE_343_TIME then Inr (if filled_call then cs else c # cs)
                         else calls_of coll_id mia d2) (\<lambda>calls.
                  call_loop F coll_id mia enable_black_swan n calls
                    (if really_filled \<or> (limit_done \<and> next_maintenance_time d2 \<le> HARDFORK_CORE_453_TIME) then ls else l # ls) limit_done True d2))
     | _ \<Rightarrow> Inr (margin_called, d1))"

definition check_call_orders :: "fc_lib \<Rightarrow> nat \<Rightarrow> nat \<Rightarrow> bool \<Rightarrow> bool \<Rightarrow> database \<Rightarrow> (bool \<times> database) result" where
  "check_call_orders F n mia enable_black_swan for_new_limit_order d =
     require (for_new_limit_order \<longrightarrow> next_maintenance_time d \<le> HARDFORK_CORE_625_TIME) Assert_failed
     (rbind (index_get (assets d) mia) (\<lambda>a.
      if \<not> is_market_issued a then Inr (False, d)
      else rbind (check_for_blackswan F mia enable_black_swan d) (\<lambda>(swan, d1).
        if swan then Inr (False, d1)
        else rbind (bitasset_data d1 a) (\<lambda>b.
             if is_prediction_market b then Inr (False, d1)
             else if price_is_null (settlement_price (current_feed b)) then Inr (False, d1)
             else rbind (price_max mia (short_backing_asset (bit_options b))) (\<lambda>max_price.
                  rbind (max_short_squeeze_price F (current_feed b)) (\<lambda>min_price.
                  let limits = limit_range max_price min_price d1
                  in if limits = [] then Inr (False, d1)
                     else rbind (calls_of (short_backing_asset (bit_options b)) mia d1) (\<lambda>calls.
                          call_loop F (short_backing_asset (bit_options b)) mia enable_black_swan n calls limits False False d1)))))))"

section \<open>A new limit order\<close>

text \<open>The orders of the opposite side in turn, up to the first at which \<open>stop\<close> holds; the flag says that
  the new order needs no further match.\<close>

fun match_limits :: "fc_lib \<Rightarrow> nat \<Rightarrow> (limit_order_object \<Rightarrow> bool) \<Rightarrow> nat list \<Rightarrow> database \<Rightarrow> (bool \<times> nat list \<times> database) result" where
  "match_limits F order_id stop [] d = Inr (False, [], d)"
| "match_limits F order_id stop (l # ls) d =
     rbind (index_get (limit_orders d) l) (\<lambda>old.
     if stop old then Inr (False, l # ls, d)
     else rbind (match_limit_orders F order_id l (sell_price old) d) (\<lambda>(filled, d1).
          if filled \<noteq> 2 then Inr (True, ls, d1) else match_limits F order_id stop ls d1))"

definition first_call :: "price \<Rightarrow> database \<Rightarrow> (nat \<times> call_order_object) option" where
  "first_call lo d =
     (case filter (\<lambda>x. \<not> price_less (co_call_price (snd x)) lo) (sorted_by call_before (objects (call_orders d))) of
        [] \<Rightarrow> None
      | x # _ \<Rightarrow> Some x)"

fun match_calls :: "fc_lib \<Rightarrow> nat \<Rightarrow> nat \<Rightarrow> price \<Rightarrow> nat \<Rightarrow> price_feed \<Rightarrow> price \<Rightarrow> database \<Rightarrow> (bool \<times> database) result" where
  "match_calls F order_id sell_id call_min 0 feed call_match_price d = Inl Out_of_fuel"
| "match_calls F order_id sell_id call_min (Suc n) feed call_match_price d =
     (case first_call call_min d of
        None \<Rightarrow> Inr (False, d)
      | Some (c, call) \<Rightarrow>
          if debt_type call \<noteq> sell_id \<or> price_greater (co_call_price call) (price_invert (settlement_price feed)) then Inr (False, d)
          else rbind (match_limit_call F order_id c call_match_price (settlement_price feed) (maintenance_collateral_ratio feed) d) (\<lambda>(filled, d1).
               if filled = 1 \<or> filled = 3 then Inr (True, d1)
               else match_calls F order_id sell_id call_min n feed call_match_price d1))"

text \<open>Whether the order with the next better price is in the same market.\<close>

definition behind_another :: "database \<Rightarrow> nat \<Rightarrow> limit_order_object \<Rightarrow> bool" where
  "behind_another d order_id order =
     (let ahead = takeWhile (\<lambda>x. fst x \<noteq> order_id) (limit_book d)
      in ahead \<noteq> [] \<and> sell_asset_id (snd (last ahead)) = sell_asset_id order \<and> receive_asset_id (snd (last ahead)) = receive_asset_id order)"

text \<open>The feed and the match price when the order can be matched with margin positions.\<close>

definition callable_market :: "fc_lib \<Rightarrow> limit_order_object \<Rightarrow> database \<Rightarrow> (price_feed \<times> price) option result" where
  "callable_market F order d =
     rbind (index_get (assets d) (sell_asset_id order)) (\<lambda>sell_asset.
     if \<not> is_market_issued sell_asset then Inr None
     else rbind (bitasset_data d sell_asset) (\<lambda>sell_abd.
          if short_backing_asset (bit_options sell_abd) = receive_asset_id order \<and> \<not> is_prediction_market sell_abd \<and> \<not> has_settlement sell_abd \<and>
             \<not> price_is_null (settlement_price (current_feed sell_abd))
          then rbind (max_short_squeeze_price F (current_feed sell_abd)) (\<lambda>mssp.
               Inr (if price_le (price_invert (sell_price order)) (price_invert mssp)
                    then Some (current_feed sell_abd, price_invert mssp) else None))
          else Inr None))"

definition cull_new_order :: "fc_lib \<Rightarrow> nat \<Rightarrow> database \<Rightarrow> (bool \<times> database) result" where
  "cull_new_order F order_id d =
     (case index_find (limit_orders d) order_id of None \<Rightarrow> Inr (True, d) | Some _ \<Rightarrow> maybe_cull_small_order F order_id d)"

definition apply_order :: "fc_lib \<Rightarrow> nat \<Rightarrow> nat \<Rightarrow> database \<Rightarrow> (bool \<times> database) result" where
  "apply_order F n order_id d =
     rbind (index_get (limit_orders d) order_id) (\<lambda>order.
     if behind_another d order_id order then Inr (False, d)
     else rbind (price_max (receive_asset_id order) (sell_asset_id order)) (\<lambda>hi.
          let limits = limit_range hi (price_invert (sell_price order)) d
          in rbind (callable_market F order d) (\<lambda>check.
             rbind (case check of
                      None \<Rightarrow> Inr (False, limits, d)
                    | Some (feed, call_match_price) \<Rightarrow>
                        rbind (match_limits F order_id (\<lambda>old. \<not> price_greater (sell_price old) call_match_price) limits d) (\<lambda>(finished, limits, d1).
                        if finished then Inr (True, limits, d1)
                        else rbind (price_min (receive_asset_id order) (sell_asset_id order)) (\<lambda>call_min.
                             rbind (match_calls F order_id (sell_asset_id order) call_min n feed call_match_price d1) (\<lambda>(finished, d2).
                             Inr (finished, limits, d2))))) (\<lambda>(finished, limits, d3).
             rbind (if finished then Inr (True, limits, d3) else match_limits F order_id (\<lambda>_. False) limits d3) (\<lambda>(_, _, d4).
             cull_new_order F order_id d4)))))"

definition apply_order_before_hardfork_625 :: "fc_lib \<Rightarrow> nat \<Rightarrow> nat \<Rightarrow> bool \<Rightarrow> database \<Rightarrow> (bool \<times> database) result" where
  "apply_order_before_hardfork_625 F n order_id allow_black_swan d =
     rbind (index_get (limit_orders d) order_id) (\<lambda>order.
     rbind (index_get (assets d) (asset_id (amount_for_sale order))) (\<lambda>_.
     rbind (amount_to_receive order) (\<lambda>to_receive.
     rbind (index_get (assets d) (asset_id to_receive)) (\<lambda>_.
     rbind (check_call_orders F n (asset_id (amount_for_sale order)) allow_black_swan True d) (\<lambda>(called1, d1).
     rbind (check_call_orders F n (asset_id to_receive) allow_black_swan True d1) (\<lambda>(called2, d2).
     if (called1 \<or> called2) \<and> index_find (limit_orders d2) order_id = None then Inr (True, d2)
     else rbind (price_max (receive_asset_id order) (sell_asset_id order)) (\<lambda>hi.
          rbind (match_limits F order_id (\<lambda>_. False) (limit_range hi (price_invert (sell_price order)) d2) d2) (\<lambda>(_, _, d3).
          rbind (check_call_orders F n (asset_id (amount_for_sale order)) allow_black_swan False d3) (\<lambda>(_, d4).
          rbind (check_call_orders F n (asset_id to_receive) allow_black_swan False d4) (\<lambda>(_, d5).
          if index_find (limit_orders d5) order_id \<noteq> None \<and> head_block_time d5 \<le> HARDFORK_555_TIME then Inr (False, d5)
          else cull_new_order F order_id d5))))))))))"

end
