(* ===== verification/Engine_Proofs.thy ===== *)
theory Engine_Proofs
  imports Market_Engine
begin

text \<open>
  The market engine keeps the books and creates no value: every step of it, global settlement and revival included,
  leaves holdings and supply of each asset in step and keeps the conditions under which the next step does.
\<close>

section \<open>The state of the market\<close>

text \<open>An asset that is not settled has no settlement fund; the price of a settled one is in the backing asset.\<close>

definition fund_ok :: "asset_bitasset_data_object \<Rightarrow> bool" where
  "fund_ok b \<longleftrightarrow>
     (if has_settlement b
      then asset_id (base (bit_settlement_price b)) = bit_asset_id b \<and>
           asset_id (quote (bit_settlement_price b)) = short_backing_asset (bit_options b) \<and> bit_asset_id b \<noteq> short_backing_asset (bit_options b)
      else settlement_fund b = 0)"

definition funds_ok :: "database \<Rightarrow> bool" where
  "funds_ok d \<longleftrightarrow> (\<forall>i b. index_find (bitassets d) i = Some b \<longrightarrow> fund_ok b)"

text \<open>Positions and bids have the backing asset of the asset they owe as collateral.\<close>

definition backed :: "database \<Rightarrow> nat \<Rightarrow> nat \<Rightarrow> bool" where
  "backed d c m \<longleftrightarrow> (\<exists>a bi b. index_find (assets d) m = Some a \<and> bitasset_data_id a = Some bi \<and> index_find (bitassets d) bi = Some b \<and>
     short_backing_asset (bit_options b) = c)"

definition calls_ok :: "database \<Rightarrow> bool" where
  "calls_ok d \<longleftrightarrow> (\<forall>i co. index_find (call_orders d) i = Some co \<longrightarrow> backed d (collateral_type co) (debt_type co))"

definition bids_ok :: "database \<Rightarrow> bool" where
  "bids_ok d \<longleftrightarrow> (\<forall>i b. index_find (collateral_bids d) i = Some b \<longrightarrow> backed d (asset_id (base (inv_swan_price b))) (asset_id (quote (inv_swan_price b))))"

definition market_ok :: "database \<Rightarrow> bool" where
  "market_ok d \<longleftrightarrow> db_ok d \<and> options_ok d \<and> orders_ok d \<and> funds_ok d \<and> calls_ok d \<and> bids_ok d \<and> links_ok d"

definition same_chain :: "database \<Rightarrow> database \<Rightarrow> bool" where
  "same_chain d d' \<longleftrightarrow> accounts d' = accounts d \<and> assets d' = assets d \<and> vesting_balances d' = vesting_balances d \<and>
     withdraw_permissions d' = withdraw_permissions d \<and> witnesses d' = witnesses d \<and> witness_budget d' = witness_budget d \<and>
     head_block_time d' = head_block_time d \<and> next_maintenance_time d' = next_maintenance_time d \<and> parameters d' = parameters d \<and>
     (\<forall>i. map_option (\<lambda>b. (bit_asset_id b, bit_options b, current_feed b)) (index_find (bitassets d') i) =
          map_option (\<lambda>b. (bit_asset_id b, bit_options b, current_feed b)) (index_find (bitassets d) i))"

definition market_step :: "database \<Rightarrow> database \<Rightarrow> bool" where
  "market_step d d' \<longleftrightarrow> market_ok d' \<and> same_chain d d' \<and> excess d' = excess d"

lemma same_chain_refl [simp]: "same_chain d d"
  by (simp add: same_chain_def)

lemma same_chain_trans: "same_chain d d1 \<Longrightarrow> same_chain d1 d2 \<Longrightarrow> same_chain d d2"
  by (simp add: same_chain_def)

lemma market_step_refl [simp]: "market_ok d \<Longrightarrow> market_step d d"
  by (simp add: market_step_def)

lemma market_step_trans: "market_step d d1 \<Longrightarrow> market_step d1 d2 \<Longrightarrow> market_step d d2"
  using same_chain_trans by (auto simp: market_step_def)

lemma market_step_ok: "market_step d d' \<Longrightarrow> market_ok d'"
  by (simp add: market_step_def)

lemma market_okD:
  "market_ok d \<Longrightarrow> db_ok d" "market_ok d \<Longrightarrow> options_ok d" "market_ok d \<Longrightarrow> orders_ok d" "market_ok d \<Longrightarrow> funds_ok d"
  "market_ok d \<Longrightarrow> calls_ok d" "market_ok d \<Longrightarrow> bids_ok d" "market_ok d \<Longrightarrow> links_ok d"
  by (simp_all add: market_ok_def)

lemma same_setup_chain: "same_setup d d' \<Longrightarrow> same_chain d d'"
  by (simp add: same_setup_def same_chain_def)

lemma same_chain_backed: "same_chain d d' \<Longrightarrow> backed d c m \<Longrightarrow> backed d' c m"
proof -
  assume s: "same_chain d d'" and "backed d c m"
  then obtain a bi b where b: "index_find (assets d) m = Some a" "bitasset_data_id a = Some bi" "index_find (bitassets d) bi = Some b"
      "short_backing_asset (bit_options b) = c" by (auto simp: backed_def)
  have "map_option (\<lambda>b. (bit_asset_id b, bit_options b, current_feed b)) (index_find (bitassets d') bi) =
      Some (bit_asset_id b, bit_options b, current_feed b)" using s b(3) by (simp add: same_chain_def)
  then show ?thesis using s b unfolding backed_def by (auto simp: same_chain_def)
qed

lemma same_chain_links: "same_chain d d' \<Longrightarrow> links_ok d \<Longrightarrow> links_ok d'"
proof -
  assume s: "same_chain d d'" and l: "links_ok d"
  have e: "\<exists>b'. index_find (bitassets d') i = Some b' \<and> bit_asset_id b' = bit_asset_id b" if "index_find (bitassets d) i = Some b" for i b
  proof -
    have "map_option (\<lambda>b. (bit_asset_id b, bit_options b, current_feed b)) (index_find (bitassets d') i) =
        Some (bit_asset_id b, bit_options b, current_feed b)" using s that by (simp add: same_chain_def)
    then show ?thesis by auto
  qed
  have "assets d' = assets d" using s by (simp add: same_chain_def)
  then show ?thesis using l e unfolding links_ok_def by fastforce
qed

lemma calls_kept_ok: "same_chain d d' \<Longrightarrow> calls_kept d d' \<Longrightarrow> calls_ok d \<Longrightarrow> calls_ok d'"
  unfolding calls_ok_def calls_kept_def by (metis same_chain_backed)

lemma bids_kept_ok:
  "same_chain d d' \<Longrightarrow> (\<And>i b. index_find (collateral_bids d') i = Some b \<Longrightarrow> index_find (collateral_bids d) i = Some b) \<Longrightarrow> bids_ok d \<Longrightarrow> bids_ok d'"
  unfolding bids_ok_def using same_chain_backed by blast

lemma trade_step: "trade d d' (\<lambda>_. 0) \<Longrightarrow> orders_ok d' \<Longrightarrow> calls_kept d d' \<Longrightarrow> market_ok d \<Longrightarrow> market_step d d'"
proof -
  assume t: "trade d d' (\<lambda>_. 0)" and o: "orders_ok d'" and k: "calls_kept d d'" and ok: "market_ok d"
  have s: "same_chain d d'" using t by (simp add: trade_def same_setup_chain)
  have "bids_ok d'" by (rule bids_kept_ok [OF s _ market_okD(6) [OF ok]]) (simp add: trade_keeps [OF t])
  moreover have "funds_ok d'" using market_okD(4) [OF ok] by (simp add: funds_ok_def trade_keeps [OF t])
  ultimately show ?thesis
    using t o s calls_kept_ok [OF s k] trade_options [OF t] same_chain_links [OF s] ok by (auto simp: market_step_def market_ok_def trade_def)
qed

lemma trade_cong_step: "trade d d' v \<Longrightarrow> (\<And>a. v a = 0) \<Longrightarrow> orders_ok d' \<Longrightarrow> calls_kept d d' \<Longrightarrow> market_ok d \<Longrightarrow> market_step d d'"
  by (rule trade_step) (auto intro: trade_cong)

section \<open>Matches\<close>

lemma match_limit_orders_step:
  "fc_lib_ok F \<Longrightarrow> market_ok d \<Longrightarrow> match_limit_orders F i j p d = Inr (n, d') \<Longrightarrow> market_step d d'"
  using match_limit_orders_trade [of F d i j p n d'] trade_step calls_kept_eq market_okD by blast

lemma match_limit_call_step:
  "fc_lib_ok F \<Longrightarrow> market_ok d \<Longrightarrow> match_limit_call F i j p feed mcr d = Inr (n, d') \<Longrightarrow> market_step d d'"
  using match_limit_call_trade [of F d i j p feed mcr n d'] trade_step market_okD by blast

lemma cancel_limit_order_step:
  assumes "fc_lib_ok F" and ok: "market_ok d" and "cancel_limit_order F i virt skip d = Inr d'"
  shows "market_step d d'"
proof -
  note E = cancel_limit_order_effect [OF assms(1) market_okD(1) [OF ok] assms(3)]
  have "orders_ok d'" using E market_okD(3) [OF ok] by (auto simp: orders_ok_def)
  then show ?thesis using E trade_step calls_kept_eq ok by blast
qed

lemma maybe_cull_small_order_step:
  assumes "fc_lib_ok F" and ok: "market_ok d" and "maybe_cull_small_order F i d = Inr (r, d')"
  shows "market_step d d'"
proof -
  note E = maybe_cull_small_order_effect [OF assms(1) market_okD(1) [OF ok] assms(3)]
  have "orders_ok d'" using E market_okD(3) [OF ok] by (auto simp: orders_ok_def split: if_splits)
  then show ?thesis using E trade_step calls_kept_eq ok by blast
qed

lemma cull_new_order_step:
  "fc_lib_ok F \<Longrightarrow> market_ok d \<Longrightarrow> cull_new_order F i d = Inr (r, d') \<Longrightarrow> market_step d d'"
  by (auto simp: cull_new_order_def split: option.splits intro: maybe_cull_small_order_step)

lemma note_issue_453_step: "market_ok d \<Longrightarrow> market_step d (note_issue_453 m d)"
  by (auto simp: note_issue_453_def market_step_def market_ok_def same_chain_def db_ok_def assets_ok_def options_ok_def orders_ok_def funds_ok_def
      calls_ok_def bids_ok_def links_ok_def backed_def excess_defs fun_eq_iff)

lemma fill_margin_call_step:
  assumes F: "fc_lib_ok F" and ok: "market_ok d" and run: "fill_margin_call F m c l x y p fl d = Inr (r, d')"
  shows "market_step d d'"
proof -
  obtain s pays receives d0 d1 cf rf where am: "margin_amounts d x y p s = Inr (pays, receives)"
    and d0: "d0 = (if \<not> s \<and> x \<noteq> y \<and> fl then note_issue_453 m d else d)"
    and f1: "fill_call_order F c receives pays d0 = Inr (cf, d1)" and f2: "fill_limit_order F l pays receives True d1 = Inr (rf, d')"
    using run unfolding fill_margin_call_def by (auto simp del: if_split)
  have S0: "market_step d d0" using note_issue_453_step [OF ok] ok unfolding d0 by simp
  note ok0 = market_step_ok [OF S0]
  have r: "0 \<le> amount receives" "amount receives < 2 ^ 63"
    using am by (auto simp: margin_amounts_def split: if_splits dest!: asset_mult_range round_up_range)
  obtain co' where E1: "trade d0 d1 (\<lambda>a. if_asset a pays - if_asset a receives)" "limit_orders d1 = limit_orders d0"
    using fill_call_order_effect [OF F market_okD(1) [OF ok0] f1] by blast
  have ok1: "db_ok d1" "options_ok d1" "orders_ok d1"
    using trade_ok [OF E1(1)] trade_options [OF E1(1)] market_okD [OF ok0] E1(2) by (simp_all add: orders_ok_def)
  note E2 = fill_limit_order_trade [OF F ok1 r f2]
  have "calls_kept d0 d'" using fill_call_order_kept [OF F market_okD(1) [OF ok0] f1] E2 by (simp add: calls_kept_def)
  then have "market_step d0 d'" by (intro trade_cong_step [OF trade_trans [OF E1(1) conjunct1 [OF E2]]]) (use E2 ok0 in auto)
  then show ?thesis by (rule market_step_trans [OF S0])
qed

section \<open>Global settlement\<close>

lemma set_sorted_by [simp]: "set (sorted_by lt xs) = set xs"
  by (induction xs) (auto simp: sorted_by_def)

lemma price_between:
  assumes "\<not> price_less p lo" and "\<not> price_less hi p" and "same_market lo hi"
  shows "same_market p lo"
  using assms by (auto simp: price_less_def same_market_def split: if_splits)

lemma calls_of_market:
  assumes ok: "db_ok d" and run: "calls_of x y d = Inr is" and i: "i \<in> set is"
  shows "\<exists>co. index_find (call_orders d) i = Some co \<and> collateral_type co = x \<and> debt_type co = y"
proof -
  obtain lo hi where b: "price_min x y = Inr lo" "price_max x y = Inr hi" and "is": "is = call_range lo hi d"
    using run by (auto simp: calls_of_def)
  obtain co where co: "(i, co) \<in> set (objects (call_orders d))" "\<not> price_less (co_call_price co) lo" "\<not> price_less hi (co_call_price co)"
    using i by (auto simp: "is" call_range_def)
  have m: "same_market lo hi" and lo: "asset_id (base lo) = x" "asset_id (quote lo) = y"
    using b by (auto simp: price_min_def price_max_def price_div_def same_market_def)
  have "same_market (co_call_price co) lo" by (rule price_between [OF co(2,3) m])
  moreover have "index_find (call_orders d) i = Some co" using co(1) ok by (simp add: db_ok_def index_mem_iff)
  ultimately show ?thesis using lo by (auto simp: collateral_type_def debt_type_def same_market_def)
qed

text \<open>The supply of the asset shrinks by the debt repaid.\<close>

lemma modify_stats_of_dyn: "modify_stats_of who m d = Inr d' \<Longrightarrow> asset_dyn_data d' = asset_dyn_data d \<and> assets d' = assets d"
  by (auto simp: modify_stats_of_def modify_stats_def)

lemma adjust_balance_dyn: "adjust_balance F who x d = Inr d' \<Longrightarrow> asset_dyn_data d' = asset_dyn_data d \<and> assets d' = assets d"
  by (auto simp: adjust_balance_def split: option.splits if_splits)

lemma release_collateral_dyn: "release_collateral F who p x d = Inr d' \<Longrightarrow> asset_dyn_data d' = asset_dyn_data d \<and> assets d' = assets d"
  by (auto simp: release_collateral_def split: option.splits if_splits dest!: modify_stats_of_dyn adjust_balance_dyn)

lemma fill_call_order_supply:
  assumes F: "fc_lib_ok F" and ok: "db_ok d" and run: "fill_call_order F i pays receives d = Inr (r, d')"
  shows "\<exists>x x'. dyn_of d (asset_id receives) = Some x \<and> dyn_of d' (asset_id receives) = Some x' \<and> current_supply x' = current_supply x - amount receives"
proof -
  obtain co :: call_order_object and mia d1 d2 d3 fr where 1: "modify_call_order i (reduce_call_order F pays receives mia d) d = Inr d1"
    and 2: "reduce_supply F (asset_id receives) (amount receives) d1 = Inr d2" and 3: "release_collateral F (borrower co) pays fr d2 = Inr d3"
    and 4: "(if fr \<noteq> None then rbind (remove_call_order i d3) (\<lambda>d4. Inr (True, d4)) else Inr (False, d3)) = Inr (r, d')"
    using run unfolding fill_call_order_def Let_def rbind_eq_Inr require_eq_Inr by (elim exE conjE) (rule that, assumption+)
  have d1: "db_ok d1" "dyn_of d1 = dyn_of d" using modify_call_order_effect [OF ok 1] by (auto simp: dyn_of_def fun_eq_iff)
  obtain j where j: "asset_dyn_id d1 (asset_id receives) = Inr j"
      "modify_dyn_data j (\<lambda>x. rbind (of_option Overflow (safe_sub F (current_supply x) (amount receives))) (\<lambda>s. Inr (x\<lparr>current_supply := s\<rparr>))) d1 = Inr d2"
    using 2 by (auto simp: reduce_supply_def)
  obtain x x' where x: "dyn_of d1 (asset_id receives) = Some x" "dyn_of d2 (asset_id receives) = Some x'"
      "rbind (of_option Overflow (safe_sub F (current_supply x) (amount receives))) (\<lambda>s. Inr (x\<lparr>current_supply := s\<rparr>)) = Inr x'"
    using asset_dyn_effect [OF F d1(1) j] by blast
  have "dyn_of d' = dyn_of d2"
    using release_collateral_dyn [OF 3] 4 by (auto simp: dyn_of_def remove_call_order_def fun_eq_iff split: if_splits)
  then show ?thesis using x d1(2) by (auto simp: fc_safe_simps [OF F])
qed

lemma settle_calls_effect:
  assumes F: "fc_lib_ok F"
  shows "db_ok d \<Longrightarrow> \<forall>i\<in>set is. \<forall>co. index_find (call_orders d) i = Some co \<longrightarrow> debt_type co = mia \<Longrightarrow> dyn_of d mia = Some x \<Longrightarrow>
     settle_calls F p is g d = Inr (g', d') \<Longrightarrow>
     asset_id g' = asset_id g \<and> limit_orders d' = limit_orders d \<and> force_settlements d' = force_settlements d \<and> calls_kept d d' \<and>
     (\<exists>n x'. trade d d' (\<lambda>a. if_asset a (mk_asset n mia) - if_asset a (mk_asset (amount g' - amount g) (asset_id g))) \<and>
        dyn_of d' mia = Some x' \<and> current_supply x' = current_supply x - n)"
proof (induction "is" arbitrary: d g x)
  case Nil
  then have e: "g' = g" "d' = d" by simp_all
  have "trade d d (\<lambda>_. 0)" using flow_trade [OF flow_refl [OF Nil.prems(1)]] .
  then have "trade d d' (\<lambda>a. if_asset a (mk_asset 0 mia) - if_asset a (mk_asset (amount g' - amount g) (asset_id g)))" unfolding e by (rule trade_cong) simp
  then show ?case using Nil.prems(3) e by (intro conjI exI [of _ 0] exI [of _ x]) simp_all
next
  case (Cons i "is")
  obtain co pays g1 d1 where co: "index_find (call_orders d) i = Some co" and g1: "asset_plus F g pays = Inr g1"
    and f: "fill_call_order F i pays (get_debt co) d = Inr (True, d1)" and rest: "settle_calls F p is g1 d1 = Inr (g', d')"
    using Cons.prems(4) by (auto simp: Let_def)
  have ty: "asset_id (get_debt co) = mia" using Cons.prems(2) co by (simp add: get_debt_def)
  have g: "asset_id pays = asset_id g" "g1 = mk_asset (amount g + amount pays) (asset_id g)"
    using g1 by (auto simp: asset_plus_def fc_safe_simps [OF F])
  obtain co' where E: "trade d d1 (\<lambda>a. if_asset a (get_debt co) - if_asset a pays)" "limit_orders d1 = limit_orders d"
      "force_settlements d1 = force_settlements d" "index_find (call_orders d1) = (index_find (call_orders d))(i := None)"
    using fill_call_order_effect [OF F Cons.prems(1) f] by auto
  obtain y where y: "dyn_of d1 mia = Some y" "current_supply y = current_supply x - debt co"
    using fill_call_order_supply [OF F Cons.prems(1) f] Cons.prems(3) by (auto simp: ty) (simp add: get_debt_def)
  have "\<forall>i\<in>set is. \<forall>co. index_find (call_orders d1) i = Some co \<longrightarrow> debt_type co = mia" using Cons.prems(2) E(4) by simp
  from Cons.IH [OF trade_ok [OF E(1)] this y(1) rest] obtain n z where I: "asset_id g' = asset_id g1" "limit_orders d' = limit_orders d1"
      "force_settlements d' = force_settlements d1" "calls_kept d1 d'"
      "trade d1 d' (\<lambda>a. if_asset a (mk_asset n mia) - if_asset a (mk_asset (amount g' - amount g1) (asset_id g1)))"
      "dyn_of d' mia = Some z" "current_supply z = current_supply y - n" by blast
  have "trade d d' (\<lambda>a. if_asset a (mk_asset (debt co + n) mia) - if_asset a (mk_asset (amount g' - amount g) (asset_id g)))"
    by (rule trade_cong [OF trade_trans [OF E(1) I(5)]]) (use ty g in \<open>auto simp: if_asset_def get_debt_def\<close>)
  moreover have "calls_kept d d'" using calls_kept_trans [OF fill_call_order_kept [OF F Cons.prems(1) f] I(4)] .
  ultimately show ?case using I g E(2,3) y(2) by (intro conjI exI [of _ "debt co + n"] exI [of _ z]) simp_all
qed

lemma set_settlement_effect:
  assumes ok: "db_ok d" and run: "modify_bitasset i (set_settlement p n) d = Inr d'"
  shows "\<exists>b ix. index_find (bitassets d) i = Some b \<and> d' = d\<lparr>bitassets := ix\<rparr> \<and> index_find ix = (index_find (bitassets d))(i \<mapsto> set_settlement p n b) \<and>
     db_ok d' \<and> (\<forall>a. excess d' a = excess d a + if_asset a (mk_asset (n - settlement_fund b) (short_backing_asset (bit_options b))))"
proof -
  obtain ix where ix: "ix_modify i (\<lambda>b. Inr (set_settlement p n b)) (bitassets d) = Inr ix" "d' = d\<lparr>bitassets := ix\<rparr>"
    using run by (auto simp: modify_bitasset_def)
  have iok: "ix_ok (bitassets d)" using ok by (simp add: db_ok_def assets_ok_def)
  obtain b b' where b: "index_find (bitassets d) i = Some b" "Inr (set_settlement p n b) = (Inr b' :: asset_bitasset_data_object result)"
      "index_find ix = (index_find (bitassets d))(i \<mapsto> b')" "ix_ok ix" "\<And>f. ix_sum f ix = ix_sum f (bitassets d) + f b' - f b"
    using ix_modifyE [OF iok ix(1)] by metis
  have b': "b' = set_settlement p n b" using b(2) by simp
  have "excess d' a = excess d a + if_asset a (mk_asset (n - settlement_fund b) (short_backing_asset (bit_options b)))" for a
    using b(5) by (simp add: excess_defs ix(2) b' set_settlement_def)
  moreover have "db_ok d'" using ok b(4) by (simp add: db_ok_def assets_ok_def ix(2))
  ultimately show ?thesis using b ix(2) b' by blast
qed

lemma set_settlement_keeps [simp]:
  "bit_asset_id (set_settlement p n b) = bit_asset_id b" "bit_options (set_settlement p n b) = bit_options b" "current_feed (set_settlement p n b) = current_feed b"
  "settlement_fund (set_settlement p n b) = n" "bit_settlement_price (set_settlement p n b) = p"
  by (simp_all add: set_settlement_def)

lemma settled_market:
  assumes ok: "market_ok d" and t: "same_setup d d1" "limit_orders d1 = limit_orders d" "calls_kept d d1" and db: "db_ok d'" and e: "excess d' = excess d"
    and d': "same_setup (d1\<lparr>bitassets := bitassets d'\<rparr>) d'" "limit_orders d' = limit_orders d1" "call_orders d' = call_orders d1"
    and b: "index_find (bitassets d) i = Some b" "index_find (bitassets d') = (index_find (bitassets d))(i \<mapsto> set_settlement p n b)"
      "fund_ok (set_settlement p n b)"
  shows "market_step d d'"
proof -
  have "options_ok d'" using market_okD(2) [OF ok] t(1) d'(1) by (simp add: options_ok_def same_setup_def)
  moreover have "orders_ok d'" using market_okD(3) [OF ok] t(2) d'(2) by (simp add: orders_ok_def)
  moreover have "funds_ok d'" using market_okD(4) [OF ok] b(2,3) by (auto simp: funds_ok_def)
  moreover have s: "same_chain d d'" using t(1) d'(1) b(1,2) by (simp add: same_chain_def same_setup_def)
  moreover have "calls_ok d'" using calls_kept_ok [OF s _ market_okD(5) [OF ok]] t(3) d'(3) by (simp add: calls_kept_def)
  moreover have "bids_ok d'" by (rule bids_kept_ok [OF s _ market_okD(6) [OF ok]]) (use t(1) d'(1) in \<open>simp add: same_setup_def\<close>)
  moreover have "links_ok d'" by (rule same_chain_links [OF s market_okD(7) [OF ok]])
  ultimately show ?thesis using db e by (simp add: market_step_def market_ok_def)
qed

lemma globally_settle_asset_step:
  assumes F: "fc_lib_ok F" and ok: "market_ok d" and run: "globally_settle_asset F mia p d = Inr d'"
  shows "market_step d d'"
proof -
  obtain a bi b dyn calls g d1 q d2 where a: "index_find (assets d) mia = Some a" and bi: "bitasset_data_id a = Some bi" and b: "index_find (bitassets d) bi = Some b"
      "\<not> has_settlement b" and dyn: "index_find (asset_dyn_data d) (dynamic_asset_data_id a) = Some dyn"
    and c: "calls_of (short_backing_asset (bit_options b)) mia d = Inr calls"
    and s: "settle_calls F p calls (mk_asset 0 (short_backing_asset (bit_options b))) d = Inr (g, d1)"
    and q: "price_div (mk_asset (current_supply dyn) mia) g = Inr q" and m: "modify_bitasset bi (set_settlement q (amount g)) d1 = Inr d2"
    and r: "modify_dyn_data (dynamic_asset_data_id a) (\<lambda>x. Inr (x\<lparr>current_supply := current_supply dyn\<rparr>)) d2 = Inr d'"
    using run by (auto simp: globally_settle_asset_def)
  let ?s = "short_backing_asset (bit_options b)"
  have db: "db_ok d" by (rule market_okD(1) [OF ok])
  have ty: "\<forall>i\<in>set calls. \<forall>co. index_find (call_orders d) i = Some co \<longrightarrow> debt_type co = mia" using calls_of_market [OF db c] by fastforce
  have dy: "dyn_of d mia = Some dyn" using a dyn by (simp add: dyn_of_def)
  obtain n x where kept: "calls_kept d d1" and S: "asset_id g = ?s" "limit_orders d1 = limit_orders d" "trade d d1 (\<lambda>a. if_asset a (mk_asset n mia) - if_asset a (mk_asset (amount g) ?s))"
      "dyn_of d1 mia = Some x" "current_supply x = current_supply dyn - n"
    using settle_calls_effect [OF F db ty dy s] by auto
  have fund: "settlement_fund b = 0" using market_okD(4) [OF ok] b by (auto simp: funds_ok_def fund_ok_def)
  have b1: "bitassets d1 = bitassets d" "assets d1 = assets d" using trade_keeps [OF S(3)] by simp_all
  obtain ix where M: "d2 = d1\<lparr>bitassets := ix\<rparr>" "index_find ix = (index_find (bitassets d))(bi \<mapsto> set_settlement q (amount g) b)" "db_ok d2"
      "\<forall>a. excess d2 a = excess d1 a + if_asset a (mk_asset (amount g) ?s)"
    using set_settlement_effect [OF trade_ok [OF S(3)] m] b1 b(1) fund by auto
  have i2: "asset_dyn_id d2 mia = Inr (dynamic_asset_data_id a)" "dyn_of d2 mia = Some x"
    using a b1 M(1) S(4) by (simp_all add: asset_dyn_id_def index_get_def dyn_of_def)
  obtain y ix2 where D: "d' = d2\<lparr>asset_dyn_data := ix2\<rparr>" "db_ok d'" "y = x\<lparr>current_supply := current_supply dyn\<rparr>"
      "\<forall>a. excess d' a = excess d2 a + (if a = mia then held_in_dyn y - held_in_dyn x else 0) + (if a = 0 then fee_pool y - fee_pool x else 0)"
    using asset_dyn_effect [OF F M(3) i2(1) r] i2(2) by auto
  have "excess d' a = excess d a" for a
    using D(4) M(4) S(3,5) by (simp add: trade_def D(3) held_in_dyn_def if_asset_def)
  moreover have "bit_asset_id b = mia" using market_okD(7) [OF ok] a bi b(1) by (fastforce simp: links_ok_def)
  then have "fund_ok (set_settlement q (amount g) b)"
    using q S(1) by (auto simp: price_div_def price_is_null_def fund_ok_def has_settlement_def)
  ultimately show ?thesis
    using kept S(2,3) b(1) M(1,2) D(1,2) by (intro settled_market [OF ok, where ?d1.0 = d1 and d' = d' and i = bi and b = b and p = q and n = "amount g"]) (auto simp: trade_def same_setup_def)
qed

lemma check_for_blackswan_step:
  assumes F: "fc_lib_ok F" and ok: "market_ok d" and run: "check_for_blackswan F mia en d = Inr (r, d')"
  shows "market_step d d'" and "\<not> r \<Longrightarrow> d' = d"
proof -
  obtain a where a: "index_get (assets d) mia = Inr a" using run by (auto simp: check_for_blackswan_def)
  have "d' = d \<or> r \<and> (\<exists>p. globally_settle_asset F mia p d = Inr d')"
  proof (cases "is_market_issued a")
    case True
    obtain b where b: "bitasset_data d a = Inr b" using run a True by (auto simp: check_for_blackswan_def)
    show ?thesis
    proof (cases "has_settlement b \<or> price_is_null (settlement_price (current_feed b))")
      case False
      obtain calls where c: "calls_of (short_backing_asset (bit_options b)) mia d = Inr calls" using run a True b False by (auto simp: check_for_blackswan_def)
      show ?thesis
      proof (cases calls)
        case (Cons k ks)
        obtain h call lc where hc: "highest_bid F mia b d = Inr h" "index_get (call_orders d) k = Inr call" "collateralization call = Inr lc"
          using run a True b False c Cons by (auto simp: check_for_blackswan_def)
        show ?thesis
          using run a True b False c Cons hc by (cases "price_ge (price_invert lc) h") (auto simp: check_for_blackswan_def)
      qed (use run a True b False c in \<open>auto simp: check_for_blackswan_def\<close>)
    qed (use run a True b in \<open>auto simp: check_for_blackswan_def split: if_splits\<close>)
  qed (use run a in \<open>auto simp: check_for_blackswan_def\<close>)
  then show "market_step d d'" "\<not> r \<Longrightarrow> d' = d" using globally_settle_asset_step [OF F ok] ok by auto
qed

section \<open>Margin calls\<close>

lemma margin_call_step:
  assumes F: "fc_lib_ok F" and ok: "market_ok d" and run: "margin_call F mia en c l fl d = Inr (r, d')"
  shows "market_step d d'"
proof -
  have "d' = d \<or> (\<exists>p. globally_settle_asset F mia p d = Inr d') \<or> (\<exists>m x y p. fill_margin_call F m c l x y p fl d = Inr (r, d'))"
    using run unfolding margin_call_def Let_def by (auto split: if_splits)
  then show ?thesis using globally_settle_asset_step [OF F ok] fill_margin_call_step [OF F ok] ok by auto
qed

lemma call_loop_step:
  assumes F: "fc_lib_ok F"
  shows "market_ok d \<Longrightarrow> call_loop F ci mia en n calls limits fl mc d = Inr (r, d') \<Longrightarrow> market_step d d'"
proof (induction n arbitrary: calls limits fl mc d)
  case (Suc n)
  obtain swan d1 where b: "check_for_blackswan F mia en d = Inr (swan, d1)" using Suc.prems(2) by auto
  note S1 = check_for_blackswan_step(1) [OF F Suc.prems(1) b]
  show ?case
  proof (cases "swan \<or> calls = [] \<or> limits = []")
    case True
    then have "d' = d1" using Suc.prems(2) b by (auto split: list.splits)
    then show ?thesis using S1 by simp
  next
    case False
    then obtain c cs l ls where cl: "calls = c # cs" "limits = l # ls" by (auto simp: neq_Nil_conv)
    obtain out d2 where m: "margin_call F mia en c l fl d1 = Inr (out, d2)" using Suc.prems(2) b False cl by auto
    note S2 = market_step_trans [OF S1 margin_call_step [OF F market_step_ok [OF S1] m]]
    show ?thesis
    proof (cases out)
      case (Called fc ld rf)
      then obtain calls' limits' where "call_loop F ci mia en n calls' limits' ld True d2 = Inr (r, d')"
        using Suc.prems(2) b False cl m by auto
      from market_step_trans [OF S2 Suc.IH [OF market_step_ok [OF S2] this]] show ?thesis .
    qed (use Suc.prems(2) b False cl m S2 in auto)
  qed
qed simp

lemma check_call_orders_step:
  assumes F: "fc_lib_ok F" and ok: "market_ok d" and run: "check_call_orders F n mia en fn d = Inr (r, d')"
  shows "market_step d d'"
proof -
  obtain a where a: "(if \<not> is_market_issued a then Inr (False, d)
      else rbind (check_for_blackswan F mia en d) (\<lambda>(swan, d1).
        if swan then Inr (False, d1)
        else rbind (bitasset_data d1 a) (\<lambda>b.
             if is_prediction_market b then Inr (False, d1)
             else if price_is_null (settlement_price (current_feed b)) then Inr (False, d1)
             else rbind (price_max mia (short_backing_asset (bit_options b))) (\<lambda>max_price.
                  rbind (max_short_squeeze_price F (current_feed b)) (\<lambda>min_price.
                  let limits = limit_range max_price min_price d1
                  in if limits = [] then Inr (False, d1)
                     else rbind (calls_of (short_backing_asset (bit_options b)) mia d1) (\<lambda>calls.
                          call_loop F (short_backing_asset (bit_options b)) mia en n calls limits False False d1)))))) = Inr (r, d')"
    using run by (auto simp: check_call_orders_def)
  show ?thesis
  proof (cases "is_market_issued a")
    case False
    then show ?thesis using a ok by simp
  next
    case True
    obtain swan d1 where b: "check_for_blackswan F mia en d = Inr (swan, d1)" using a True by auto
    note S1 = check_for_blackswan_step(1) [OF F ok b]
    have "d' = d1 \<or> (\<exists>ci calls limits. call_loop F ci mia en n calls limits False False d1 = Inr (r, d'))"
      using a True b by (auto simp: Let_def split: if_splits)
    then show ?thesis using S1 market_step_trans [OF S1 call_loop_step [OF F market_step_ok [OF S1]]] by auto
  qed
qed

section \<open>New orders\<close>

lemma match_limits_step:
  assumes F: "fc_lib_ok F"
  shows "market_ok d \<Longrightarrow> match_limits F i stop ls d = Inr (r, ls', d') \<Longrightarrow> market_step d d'"
proof (induction ls arbitrary: d)
  case (Cons l ls)
  obtain old where o: "index_find (limit_orders d) l = Some old"
    and rest: "(if stop old then Inr (False, l # ls, d)
     else rbind (match_limit_orders F i l (sell_price old) d) (\<lambda>(filled, d1).
          if filled \<noteq> 2 then Inr (True, ls, d1) else match_limits F i stop ls d1)) = Inr (r, ls', d')"
    using Cons.prems(2) by (auto simp: index_get_def split: option.splits)
  show ?case
  proof (cases "stop old")
    case True
    then show ?thesis using rest Cons.prems(1) by simp
  next
    case False
    then obtain filled d1 where m: "match_limit_orders F i l (sell_price old) d = Inr (filled, d1)"
      and r: "(if filled \<noteq> 2 then Inr (True, ls, d1) else match_limits F i stop ls d1) = Inr (r, ls', d')" using rest by auto
    note S1 = match_limit_orders_step [OF F Cons.prems(1) m]
    have "d' = d1 \<or> match_limits F i stop ls d1 = Inr (r, ls', d')" using r by (auto split: if_splits)
    then show ?thesis using S1 Cons.IH [OF market_step_ok [OF S1]] market_step_trans by blast
  qed
qed simp

lemma match_calls_step:
  assumes F: "fc_lib_ok F"
  shows "market_ok d \<Longrightarrow> match_calls F i s lo n feed p d = Inr (r, d') \<Longrightarrow> market_step d d'"
proof (induction n arbitrary: d)
  case (Suc n)
  show ?case
  proof (cases "first_call lo d")
    case None
    then show ?thesis using Suc.prems by simp
  next
    case (Some x)
    obtain c call where x: "x = (c, call)" by (cases x)
    show ?thesis
    proof (cases "debt_type call \<noteq> s \<or> price_greater (co_call_price call) (price_invert (settlement_price feed))")
      case True
      then show ?thesis using Suc.prems Some x by simp
    next
      case False
      then obtain filled d1 where m: "match_limit_call F i c p (settlement_price feed) (maintenance_collateral_ratio feed) d = Inr (filled, d1)"
        and r: "(if filled = 1 \<or> filled = 3 then Inr (True, d1) else match_calls F i s lo n feed p d1) = Inr (r, d')"
        using Suc.prems(2) Some x by auto
      note S1 = match_limit_call_step [OF F Suc.prems(1) m]
      have "d' = d1 \<or> match_calls F i s lo n feed p d1 = Inr (r, d')" using r by (auto split: if_splits)
      then show ?thesis using S1 Suc.IH [OF market_step_ok [OF S1]] market_step_trans by blast
    qed
  qed
qed simp

lemma apply_order_step:
  assumes F: "fc_lib_ok F" and ok: "market_ok d" and run: "apply_order F n i d = Inr (r, d')"
  shows "market_step d d'"
proof -
  obtain order where o: "index_get (limit_orders d) i = Inr order" using run by (auto simp: apply_order_def)
  show ?thesis
  proof (cases "behind_another d i order")
    case True
    then show ?thesis using run o ok by (simp add: apply_order_def)
  next
    case False
    obtain hi check fin ls d3 fin' ls' d4 where c: "callable_market F order d = Inr check"
      and 1: "(case check of
                      None \<Rightarrow> Inr (False, limit_range hi (price_invert (sell_price order)) d, d)
                    | Some (feed, call_match_price) \<Rightarrow>
                        rbind (match_limits F i (\<lambda>old. \<not> price_greater (sell_price old) call_match_price) (limit_range hi (price_invert (sell_price order)) d) d) (\<lambda>(finished, limits, d1).
                        if finished then Inr (True, limits, d1)
                        else rbind (price_min (receive_asset_id order) (sell_asset_id order)) (\<lambda>call_min.
                             rbind (match_calls F i (sell_asset_id order) call_min n feed call_match_price d1) (\<lambda>(finished, d2).
                             Inr (finished, limits, d2))))) = Inr (fin, ls, d3)"
      and 2: "(if fin then Inr (True, ls, d3) else match_limits F i (\<lambda>_. False) ls d3) = Inr (fin', ls', d4)"
      and 3: "cull_new_order F i d4 = Inr (r, d')"
      using run o False by (auto simp: apply_order_def Let_def)
    have S3: "market_step d d3"
    proof (cases check)
      case None
      then show ?thesis using 1 ok by simp
    next
      case (Some x)
      obtain feed p where x: "x = (feed, p)" by (cases x)
      obtain f1 l1 d1 where m: "match_limits F i (\<lambda>old. \<not> price_greater (sell_price old) p) (limit_range hi (price_invert (sell_price order)) d) d = Inr (f1, l1, d1)"
        using 1 Some x by auto
      note S1 = match_limits_step [OF F ok m]
      have "d3 = d1 \<or> (\<exists>lo f2. match_calls F i (sell_asset_id order) lo n feed p d1 = Inr (f2, d3))"
        using 1 Some x m by (cases f1) auto
      then show ?thesis using S1 match_calls_step [OF F market_step_ok [OF S1]] market_step_trans by blast
    qed
    have "d4 = d3 \<or> match_limits F i (\<lambda>_. False) ls d3 = Inr (fin', ls', d4)" using 2 by (cases fin) auto
    then have S4: "market_step d d4" using S3 match_limits_step [OF F market_step_ok [OF S3]] market_step_trans by blast
    show ?thesis by (rule market_step_trans [OF S4 cull_new_order_step [OF F market_step_ok [OF S4] 3]])
  qed
qed

lemma apply_order_before_hardfork_625_step:
  assumes F: "fc_lib_ok F" and ok: "market_ok d" and run: "apply_order_before_hardfork_625 F n i en d = Inr (r, d')"
  shows "market_step d d'"
proof -
  obtain order :: limit_order_object and x :: asset and c1 d1 c2 d2 where 1: "check_call_orders F n (asset_id (amount_for_sale order)) en True d = Inr (c1, d1)"
    and 2: "check_call_orders F n (asset_id x) en True d1 = Inr (c2, d2)"
    and rest: "(if (c1 \<or> c2) \<and> index_find (limit_orders d2) i = None then Inr (True, d2)
     else rbind (price_max (receive_asset_id order) (sell_asset_id order)) (\<lambda>hi.
          rbind (match_limits F i (\<lambda>_. False) (limit_range hi (price_invert (sell_price order)) d2) d2) (\<lambda>(_, _, d3).
          rbind (check_call_orders F n (asset_id (amount_for_sale order)) en False d3) (\<lambda>(_, d4).
          rbind (check_call_orders F n (asset_id x) en False d4) (\<lambda>(_, d5).
          if index_find (limit_orders d5) i \<noteq> None \<and> head_block_time d5 \<le> HARDFORK_555_TIME then Inr (False, d5)
          else cull_new_order F i d5))))) = Inr (r, d')"
    using run by (auto simp: apply_order_before_hardfork_625_def)
  note S1 = check_call_orders_step [OF F ok 1]
  note S2 = market_step_trans [OF S1 check_call_orders_step [OF F market_step_ok [OF S1] 2]]
  show ?thesis
  proof (cases "(c1 \<or> c2) \<and> index_find (limit_orders d2) i = None")
    case True
    then have "d' = d2" using rest unfolding if_P [OF True] by simp
    then show ?thesis using S2 by simp
  next
    case False
    obtain hi f ls d3 u d4 v d5 where m: "match_limits F i (\<lambda>_. False) (limit_range hi (price_invert (sell_price order)) d2) d2 = Inr (f, ls, d3)"
      and 4: "check_call_orders F n (asset_id (amount_for_sale order)) en False d3 = Inr (u, d4)" and 5: "check_call_orders F n (asset_id x) en False d4 = Inr (v, d5)"
      and 6: "(if index_find (limit_orders d5) i \<noteq> None \<and> head_block_time d5 \<le> HARDFORK_555_TIME then Inr (False, d5)
          else cull_new_order F i d5) = Inr (r, d')"
      using rest unfolding if_not_P [OF False] by (auto simp del: if_split)
    note S3 = market_step_trans [OF S2 match_limits_step [OF F market_step_ok [OF S2] m]]
    note S4 = market_step_trans [OF S3 check_call_orders_step [OF F market_step_ok [OF S3] 4]]
    note S5 = market_step_trans [OF S4 check_call_orders_step [OF F market_step_ok [OF S4] 5]]
    have "d' = d5 \<or> cull_new_order F i d5 = Inr (r, d')" using 6 by (auto split: if_splits)
    then show ?thesis using S5 cull_new_order_step [OF F market_step_ok [OF S5]] market_step_trans by blast
  qed
qed

section \<open>Bids and revival\<close>

lemma remove_bid_effect:
  assumes ok: "db_ok d" and run: "remove_bid i d = Inr d'"
  shows "\<exists>b ix. index_find (collateral_bids d) i = Some b \<and> d' = d\<lparr>collateral_bids := ix\<rparr> \<and>
     index_find ix = (index_find (collateral_bids d))(i := None) \<and> db_ok d' \<and> (\<forall>a. excess d' a = excess d a - if_asset a (base (inv_swan_price b)))"
proof -
  obtain ix where ix: "index_remove i (collateral_bids d) = Inr ix" "d' = d\<lparr>collateral_bids := ix\<rparr>"
    using run by (auto simp: remove_bid_def)
  have iok: "ix_ok (collateral_bids d)" using ok by (simp add: db_ok_def)
  obtain b where b: "index_find (collateral_bids d) i = Some b" "\<And>f. ix_sum f ix = ix_sum f (collateral_bids d) - f b" "ix_ok ix"
      "index_find ix = (index_find (collateral_bids d))(i := None)"
    using ix_removeE [OF iok ix(1)] by metis
  have "excess d' a = excess d a - if_asset a (base (inv_swan_price b))" for a by (simp add: ix(2) excess_defs b(2))
  moreover have "db_ok d'" using ok b(3) by (simp add: db_ok_def assets_ok_def ix(2))
  ultimately show ?thesis using b ix(2) by blast
qed

text \<open>Steps that move money in the market but keep its conditions.\<close>

definition market_flow :: "database \<Rightarrow> database \<Rightarrow> (nat \<Rightarrow> int) \<Rightarrow> bool" where
  "market_flow d d' v \<longleftrightarrow> db_ok d' \<and> same_chain d d' \<and> limit_orders d' = limit_orders d \<and> bitassets d' = bitassets d \<and>
     (calls_ok d \<longrightarrow> bids_ok d \<longrightarrow> calls_ok d' \<and> bids_ok d') \<and> (\<forall>a. excess d' a = excess d a + v a)"

lemma market_flow_trans: "market_flow d d1 v \<Longrightarrow> market_flow d1 d2 w \<Longrightarrow> market_flow d d2 (\<lambda>a. v a + w a)"
  using same_chain_trans by (auto simp: market_flow_def)

lemma market_flow_cong: "market_flow d d' v \<Longrightarrow> (\<And>a. v a = w a) \<Longrightarrow> market_flow d d' w"
  by (simp add: market_flow_def)

lemma flow_market_flow: "flow d d' v \<Longrightarrow> market_flow d d' v"
  by (auto simp: flow_def money_only_def market_flow_def same_chain_def calls_ok_def bids_ok_def backed_def)

lemma market_flow_ok: "market_flow d d' v \<Longrightarrow> market_ok d \<Longrightarrow> market_ok d'"
  using same_chain_links [of d d'] by (auto simp: market_flow_def market_ok_def options_ok_def orders_ok_def funds_ok_def same_chain_def)

lemma market_flow_step: "market_flow d d' v \<Longrightarrow> (\<And>a. v a = 0) \<Longrightarrow> market_ok d \<Longrightarrow> market_step d d'"
  using market_flow_ok [of d d' v] by (auto simp: market_step_def market_flow_def fun_eq_iff)

lemma backed_cong: "assets d' = assets d \<Longrightarrow> bitassets d' = bitassets d \<Longrightarrow> backed d' = backed d"
  by (simp add: backed_def fun_eq_iff)

lemma remove_bid_flow:
  assumes "db_ok d" and "remove_bid i d = Inr d'" and "index_find (collateral_bids d) i = Some bid"
  shows "market_flow d d' (\<lambda>a. - if_asset a (base (inv_swan_price bid)))"
proof -
  obtain ix where R: "d' = d\<lparr>collateral_bids := ix\<rparr>" "index_find ix = (index_find (collateral_bids d))(i := None)" "db_ok d'"
      "\<forall>a. excess d' a = excess d a - if_asset a (base (inv_swan_price bid))"
    using remove_bid_effect [OF assms(1,2)] assms(3) by auto
  have "backed d' = backed d" by (rule backed_cong) (simp_all add: R(1))
  then show ?thesis using R by (auto simp: market_flow_def same_chain_def calls_ok_def bids_ok_def)
qed

lemma cancel_bid_step:
  assumes F: "fc_lib_ok F" and ok: "market_ok d" and run: "cancel_bid F i d = Inr d'"
  shows "market_step d d' \<and> bitassets d' = bitassets d"
proof -
  obtain bid d1 where P: "index_find (collateral_bids d) i = Some bid" "adjust_balance F (bidder bid) (base (inv_swan_price bid)) d = Inr d1" "remove_bid i d1 = Inr d'"
    using run by (auto simp: cancel_bid_def)
  note f = adjust_balance_flow [OF F market_okD(1) [OF ok] P(2)]
  have b: "index_find (collateral_bids d1) i = Some bid" using P(1) flow_keeps [OF f] by simp
  note g = market_flow_trans [OF flow_market_flow [OF f] remove_bid_flow [OF flow_ok [OF f] P(3) b]]
  have "market_step d d'" by (rule market_flow_step [OF g _ ok]) simp
  then show ?thesis using g by (simp add: market_flow_def)
qed

lemma cancel_bids_step:
  assumes F: "fc_lib_ok F"
  shows "market_ok d \<Longrightarrow> cancel_bids F is d = Inr d' \<Longrightarrow> market_step d d' \<and> bitassets d' = bitassets d"
proof (induction "is" arbitrary: d)
  case (Cons i "is")
  then obtain d1 where d1: "cancel_bid F i d = Inr d1" "cancel_bids F is d1 = Inr d'" by auto
  note S = cancel_bid_step [OF F Cons.prems(1) d1(1)]
  show ?case using S Cons.IH [OF market_step_ok d1(2)] market_step_trans by auto
qed simp

lemma call_price_ids: "call_price F x y m = Inr p \<Longrightarrow> asset_id (base p) = asset_id y \<and> asset_id (quote p) = asset_id x"
  by (auto simp: call_price_def price_div_def price_invert_def)

lemma create_call_order_flow:
  assumes ok: "db_ok d" and run: "create_call_order co d = Inr (i, d')" and b: "backed d (collateral_type co) (debt_type co)"
  shows "market_flow d d' (\<lambda>a. if_asset a (get_collateral co)) \<and> (\<exists>ix. d' = d\<lparr>call_orders := ix\<rparr>) \<and> index_find (call_orders d') = (index_find (call_orders d))(i \<mapsto> co)"
proof -
  obtain ix where c: "ix_create co (call_orders d) = (i, ix)" and d': "d' = d\<lparr>call_orders := ix\<rparr>"
    using run by (cases "ix_create co (call_orders d)") (auto simp: create_call_order_def)
  have "ix_ok (call_orders d)" using ok by (simp add: db_ok_def)
  note C = ix_create_facts [OF this c]
  have e: "backed (d\<lparr>call_orders := ix\<rparr>) = backed d" by (rule backed_cong) simp_all
  have "db_ok (d\<lparr>call_orders := ix\<rparr>)" using ok C by (simp add: db_ok_def assets_ok_def)
  moreover have "calls_ok d \<longrightarrow> bids_ok d \<longrightarrow> calls_ok (d\<lparr>call_orders := ix\<rparr>) \<and> bids_ok (d\<lparr>call_orders := ix\<rparr>)"
    using C b by (auto simp: calls_ok_def bids_ok_def e)
  ultimately show ?thesis using C by (auto simp: market_flow_def same_chain_def excess_defs d')
qed

lemma create_bid_flow:
  assumes ok: "db_ok d" and run: "create_bid bid d = Inr (i, d')"
    and b: "backed d (asset_id (base (inv_swan_price bid))) (asset_id (quote (inv_swan_price bid)))"
  shows "market_flow d d' (\<lambda>a. if_asset a (base (inv_swan_price bid))) \<and> index_find (collateral_bids d') i = Some bid"
proof -
  obtain ix where c: "ix_create bid (collateral_bids d) = (i, ix)" and d': "d' = d\<lparr>collateral_bids := ix\<rparr>"
    using run by (cases "ix_create bid (collateral_bids d)") (auto simp: create_bid_def)
  have "ix_ok (collateral_bids d)" using ok by (simp add: db_ok_def)
  note C = ix_create_facts [OF this c]
  have e: "backed (d\<lparr>collateral_bids := ix\<rparr>) = backed d" by (rule backed_cong) simp_all
  have "db_ok (d\<lparr>collateral_bids := ix\<rparr>)" using ok C by (simp add: db_ok_def assets_ok_def)
  moreover have "calls_ok d \<longrightarrow> bids_ok d \<longrightarrow> calls_ok (d\<lparr>collateral_bids := ix\<rparr>) \<and> bids_ok (d\<lparr>collateral_bids := ix\<rparr>)"
    using C b by (auto simp: calls_ok_def bids_ok_def e)
  ultimately show ?thesis using C by (simp add: market_flow_def same_chain_def excess_defs d')
qed

lemma execute_bid_flow:
  assumes F: "fc_lib_ok F" and ok: "db_ok d" and bid: "index_find (collateral_bids d) i = Some bid"
    and b: "backed d (asset_id (base (inv_swan_price bid))) (asset_id (quote (inv_swan_price bid)))" and run: "execute_bid F i n k feed d = Inr d'"
  shows "market_flow d d' (\<lambda>a. if_asset a (mk_asset k (asset_id (base (inv_swan_price bid)))))"
proof -
  let ?c = "asset_id (base (inv_swan_price bid))"
  let ?co = "\<lambda>coll p. \<lparr>borrower = bidder bid, collateral = coll, debt = n, co_call_price = p, target_collateral_ratio = None\<rparr>"
  obtain coll p j d1 d2 where coll: "coll = amount (base (inv_swan_price bid)) + k"
    and p: "call_price F (mk_asset n (asset_id (quote (inv_swan_price bid)))) (mk_asset coll ?c) (maintenance_collateral_ratio feed) = Inr p"
    and c: "create_call_order (?co coll p) d = Inr (j, d1)"
    and s: "(if ?c = 0 then modify_stats_of (bidder bid) (add_core_in_orders F coll) d1 else Inr d1) = Inr d2"
    and r: "remove_bid i d2 = Inr d'"
    using run bid by (auto simp: execute_bid_def index_get_def fc_safe_simps [OF F] simp del: if_split)
  have C: "market_flow d d1 (\<lambda>a. if_asset a (mk_asset coll ?c)) \<and> (\<exists>ix. d1 = d\<lparr>call_orders := ix\<rparr>)"
    using create_call_order_flow [OF ok c] b call_price_ids [OF p] by (auto simp: collateral_type_def debt_type_def get_collateral_def)
  have ok1: "db_ok d1" and k1: "collateral_bids d1 = collateral_bids d" using C by (auto simp: market_flow_def)
  have f2: "market_flow d1 d2 (\<lambda>_. 0) \<and> collateral_bids d2 = collateral_bids d"
  proof (cases "?c = 0")
    case True
    then have "flow d1 d2 (\<lambda>_. 0)" using s by (intro core_orders_flow [OF ok1]) (auto dest: add_core_in_orders_pending)
    then show ?thesis using flow_market_flow flow_keeps k1 by fastforce
  next
    case False
    then show ?thesis using s flow_market_flow [OF flow_refl [OF ok1]] k1 by auto
  qed
  have ok2: "db_ok d2" "index_find (collateral_bids d2) i = Some bid" using f2 bid by (simp_all add: market_flow_def)
  note f = market_flow_trans [OF market_flow_trans [OF conjunct1 [OF C] conjunct1 [OF f2]] remove_bid_flow [OF ok2(1) r ok2(2)]]
  show ?thesis
    by (rule market_flow_cong [OF f]) (use coll in \<open>auto simp: if_asset_def\<close>)
qed

lemma cancel_bids_and_revive_flow:
  assumes F: "fc_lib_ok F" and ok: "market_ok d" and run: "cancel_bids_and_revive_mpa F mia d = Inr d'"
  shows "\<exists>a bi b. index_find (assets d) mia = Some a \<and> bitasset_data_id a = Some bi \<and> index_find (bitassets d) bi = Some b \<and> market_ok d' \<and> same_chain d d' \<and>
     (\<forall>a. excess d' a = excess d a - if_asset a (mk_asset (settlement_fund b) (short_backing_asset (bit_options b))))"
proof -
  obtain a bi b hi d1 where a: "index_find (assets d) mia = Some a" "bitasset_data_id a = Some bi" "index_find (bitassets d) bi = Some b"
    and c: "cancel_bids F (bids_of mia hi d) d = Inr d1" and m: "modify_bitasset bi (set_settlement null_price 0) d1 = Inr d'"
    using run by (auto simp: cancel_bids_and_revive_mpa_def)
  note S = cancel_bids_step [OF F ok c]
  have ok1: "market_ok d1" using S market_step_ok by blast
  obtain ix where M: "d' = d1\<lparr>bitassets := ix\<rparr>" "index_find ix = (index_find (bitassets d))(bi \<mapsto> set_settlement null_price 0 b)" "db_ok d'"
      "\<forall>a. excess d' a = excess d1 a - if_asset a (mk_asset (settlement_fund b) (short_backing_asset (bit_options b)))"
    using set_settlement_effect [OF market_okD(1) [OF ok1] m] S a(3) by auto
  have s: "same_chain d1 d'" using S M(1,2) a(3) by (auto simp: same_chain_def)
  have "calls_ok d'" using calls_kept_ok [OF s _ market_okD(5) [OF ok1]] M(1) by simp
  moreover have "bids_ok d'" by (rule bids_kept_ok [OF s _ market_okD(6) [OF ok1]]) (simp add: M(1))
  moreover have "fund_ok (set_settlement null_price 0 b)" by (simp add: fund_ok_def has_settlement_def null_price_def price_is_null_def)
  ultimately have "market_ok d'"
    using ok1 M(1-3) S same_chain_links [OF s] by (auto simp: market_ok_def options_ok_def orders_ok_def funds_ok_def)
  moreover have "same_chain d d'" using S s same_chain_trans by (auto simp: market_step_def)
  moreover have "excess d1 = excess d" using S by (simp add: market_step_def)
  ultimately show ?thesis using a M(4) by auto
qed

lemma revive_bitasset_step:
  assumes F: "fc_lib_ok F" and ok: "market_ok d" and run: "revive_bitasset F mia d = Inr d'"
  shows "market_step d d'"
proof -
  obtain a bad d1 and bdd :: asset_dynamic_data_object where a: "index_find (assets d) mia = Some a" and b: "bitasset_data d a = Inr bad"
    and 1: "(if current_supply bdd > 0
               then rbind (price_div (mk_asset 0 (short_backing_asset (bit_options bad))) (mk_asset (current_supply bdd) mia)) (\<lambda>p.
                    rbind (create_bid \<lparr>bidder = issuer a, inv_swan_price = p\<rparr> d) (\<lambda>(i, d1).
                    execute_bid F i (current_supply bdd) (settlement_fund bad) (current_feed bad) d1))
               else require (settlement_fund bad = 0) Assert_failed (Inr d)) = Inr d1"
    and 2: "cancel_bids_and_revive_mpa F mia d1 = Inr d'"
    using run unfolding revive_bitasset_def rbind_eq_Inr require_eq_Inr by (auto simp del: if_split)
  let ?v = "\<lambda>a. if_asset a (mk_asset (settlement_fund bad) (short_backing_asset (bit_options bad)))"
  have f: "market_flow d d1 ?v"
  proof (cases "current_supply bdd > 0")
    case True
    let ?p = "mk_price (mk_asset 0 (short_backing_asset (bit_options bad))) (mk_asset (current_supply bdd) mia)"
    obtain i d0 where c: "create_bid \<lparr>bidder = issuer a, inv_swan_price = ?p\<rparr> d = Inr (i, d0)"
      and e: "execute_bid F i (current_supply bdd) (settlement_fund bad) (current_feed bad) d0 = Inr d1"
      using 1 True by (auto simp: price_div_def)
    have bk: "backed d (short_backing_asset (bit_options bad)) mia" using a b by (auto simp: backed_def bitasset_data_def)
    have C: "market_flow d d0 (\<lambda>a. if_asset a (base ?p)) \<and> index_find (collateral_bids d0) i = Some \<lparr>bidder = issuer a, inv_swan_price = ?p\<rparr>"
      using create_bid_flow [OF market_okD(1) [OF ok] c] bk by simp
    have bk': "backed d0 (short_backing_asset (bit_options bad)) mia" using same_chain_backed [OF _ bk] C by (simp add: market_flow_def)
    have okc: "db_ok d0" using C by (simp add: market_flow_def)
    show ?thesis
      by (rule market_flow_cong [OF market_flow_trans [OF conjunct1 [OF C] execute_bid_flow [OF F okc conjunct2 [OF C] _ e]]]) (use bk' in simp_all)
  next
    case False
    then show ?thesis using 1 flow_market_flow [OF flow_refl [OF market_okD(1) [OF ok]]] by (auto intro: market_flow_cong)
  qed
  obtain bi where bi: "bitasset_data_id a = Some bi" "index_find (bitassets d) bi = Some bad" using b by (auto simp: bitasset_data_def)
  have k: "assets d1 = assets d" "bitassets d1 = bitassets d" using f by (simp_all add: market_flow_def same_chain_def)
  have R: "market_ok d' \<and> same_chain d1 d' \<and> (\<forall>a. excess d' a = excess d1 a - ?v a)"
    using cancel_bids_and_revive_flow [OF F market_flow_ok [OF f ok] 2] a bi k by auto
  then have "same_chain d d'" using f same_chain_trans by (auto simp: market_flow_def)
  then show ?thesis using R f by (auto simp: market_step_def market_flow_def fun_eq_iff)
qed

end
