(* ===== verification/Market_Ops.thy ===== *)
theory Market_Ops
  imports Engine_Proofs
begin

text \<open>
  The operations on the market (\<^verbatim>\<open>market_evaluator.cpp\<close>, \<^verbatim>\<open>protocol/market.cpp\<close>): limit orders, margin
  positions and bids on settled assets, and the operations of \<^verbatim>\<open>asset_evaluator.cpp\<close> that reach the market:
  settlement, feeds and the options of a bitasset.

  An evaluator keeps pointers from \<^verbatim>\<open>do_evaluate\<close> to \<^verbatim>\<open>do_apply\<close>. Between the two only the fee is booked,
  which touches none of those objects, so \<open>do_apply\<close> looks them up again. The step counter of the
  margin-call loop is an argument of the operations that start it.
\<close>

section \<open>Limit orders\<close>

record limit_order_create_operation =
  lc_fee :: asset
  lc_seller :: nat
  lc_amount_to_sell :: asset
  lc_min_to_receive :: asset
  lc_expiration :: time
  lc_fill_or_kill :: bool

definition limit_order_create_validate :: "limit_order_create_operation \<Rightarrow> unit result" where
  "limit_order_create_validate op =
     require (asset_id (lc_amount_to_sell op) \<noteq> asset_id (lc_min_to_receive op)) Assert_failed
     (require (amount (lc_fee op) \<ge> 0) Assert_failed
     (require (amount (lc_amount_to_sell op) > 0) Assert_failed
     (require (amount (lc_min_to_receive op) > 0) Assert_failed (Inr ()))))"

definition limit_order_create_do_evaluate :: "limit_order_create_operation \<Rightarrow> database \<Rightarrow> unit result" where
  "limit_order_create_do_evaluate op d =
     require (lc_expiration op \<ge> head_block_time d) Assert_failed
     (rbind (index_get (accounts d) (lc_seller op)) (\<lambda>seller_account.
      rbind (index_get (assets d) (asset_id (lc_amount_to_sell op))) (\<lambda>sell_asset.
      rbind (index_get (assets d) (asset_id (lc_min_to_receive op))) (\<lambda>receive_asset.
      require (whitelist_markets (options sell_asset) \<noteq> [] \<longrightarrow>
                 asset_id (lc_min_to_receive op) \<in> set (whitelist_markets (options sell_asset))) Assert_failed
      (require (blacklist_markets (options sell_asset) \<noteq> [] \<longrightarrow>
                 asset_id (lc_min_to_receive op) \<notin> set (blacklist_markets (options sell_asset))) Assert_failed
      (require (is_authorized_asset d seller_account (asset_id (lc_amount_to_sell op)) sell_asset) Assert_failed
      (require (is_authorized_asset d seller_account (asset_id (lc_min_to_receive op)) receive_asset) Assert_failed
      (require (amount (get_balance d (lc_seller op) (asset_id (lc_amount_to_sell op))) \<ge> amount (lc_amount_to_sell op)) Assert_failed
      (Inr ())))))))))"

definition limit_order_create_convert_fee ::
  "fc_lib \<Rightarrow> transaction_evaluation_state \<Rightarrow> fee_state \<Rightarrow> database \<Rightarrow> database result" where
  "limit_order_create_convert_fee F S fs d =
     (if head_block_time d \<le> HARDFORK_CORE_604_TIME then convert_fee F S fs d
      else if \<not> skip_fee S \<and> asset_id (fee_from_account fs) \<noteq> 0
      then modify_dyn_data (fee_asset_dyn_data fs) (\<lambda>x.
             rbind (of_option Overflow (safe_sub F (fee_pool x) (core_fee_paid fs))) (\<lambda>pool.
             Inr (x\<lparr>fee_pool := pool\<rparr>))) d
      else Inr d)"

text \<open>The fee that is kept with the order: in the core asset, and as it was paid.\<close>

definition limit_order_create_pay_fee ::
  "fc_lib \<Rightarrow> transaction_evaluation_state \<Rightarrow> fee_state \<Rightarrow> database \<Rightarrow> ((int \<times> asset) \<times> database) result" where
  "limit_order_create_pay_fee F S fs d =
     (if head_block_time d \<le> HARDFORK_445_TIME
      then rbind (pay_fee F S fs d) (\<lambda>(_, d1). Inr ((0, mk_asset 0 0), d1))
      else Inr ((core_fee_paid fs,
                 if head_block_time d > HARDFORK_CORE_604_TIME \<and> asset_id (fee_from_account fs) \<noteq> 0 then fee_from_account fs
                 else mk_asset 0 0), d))"

definition new_limit_order :: "limit_order_create_operation \<Rightarrow> int \<Rightarrow> asset \<Rightarrow> price \<Rightarrow> limit_order_object" where
  "new_limit_order op deferred deferred_paid p =
     \<lparr>lo_expiration = lc_expiration op, seller = lc_seller op, for_sale = amount (lc_amount_to_sell op), sell_price = p,
      deferred_fee = deferred, deferred_paid_fee = deferred_paid\<rparr>"

definition limit_order_create_do_apply ::
  "fc_lib \<Rightarrow> nat \<Rightarrow> limit_order_create_operation \<Rightarrow> int \<times> asset \<Rightarrow> database \<Rightarrow> (nat \<times> database) result" where
  "limit_order_create_do_apply F n op deferred d =
     rbind (modify_stats_of (lc_seller op) (\<lambda>s.
              if asset_id (lc_amount_to_sell op) = 0 then add_core_in_orders F (amount (lc_amount_to_sell op)) s else Inr s) d) (\<lambda>d1.
     rbind (asset_neg F (lc_amount_to_sell op)) (\<lambda>neg.
     rbind (adjust_balance F (lc_seller op) neg d1) (\<lambda>d2.
     rbind (price_div (lc_amount_to_sell op) (lc_min_to_receive op)) (\<lambda>p.
     case ix_create (new_limit_order op (fst deferred) (snd deferred) p) (limit_orders d2) of
       (order_id, ix) \<Rightarrow>
         rbind (if next_maintenance_time d2 \<le> HARDFORK_CORE_625_TIME
                then apply_order_before_hardfork_625 F n order_id True (d2\<lparr>limit_orders := ix\<rparr>)
                else apply_order F n order_id (d2\<lparr>limit_orders := ix\<rparr>)) (\<lambda>(filled, d3).
         require (\<not> lc_fill_or_kill op \<or> filled) Assert_failed (Inr (order_id, d3)))))))"

record limit_order_cancel_operation =
  lx_fee :: asset
  lx_order :: nat
  lx_fee_paying_account :: nat

definition limit_order_cancel_validate :: "limit_order_cancel_operation \<Rightarrow> unit result" where
  "limit_order_cancel_validate op = require (amount (lx_fee op) \<ge> 0) Assert_failed (Inr ())"

definition limit_order_cancel_do_evaluate :: "limit_order_cancel_operation \<Rightarrow> database \<Rightarrow> unit result" where
  "limit_order_cancel_do_evaluate op d =
     rbind (index_get (limit_orders d) (lx_order op)) (\<lambda>order.
     require (seller order = lx_fee_paying_account op) Assert_failed (Inr ()))"

definition limit_order_cancel_do_apply ::
  "fc_lib \<Rightarrow> nat \<Rightarrow> limit_order_cancel_operation \<Rightarrow> database \<Rightarrow> (asset \<times> database) result" where
  "limit_order_cancel_do_apply F n op d =
     rbind (index_get (limit_orders d) (lx_order op)) (\<lambda>order.
     rbind (cancel_limit_order F (lx_order op) False False d) (\<lambda>d1.
     if next_maintenance_time d1 \<le> HARDFORK_CORE_606_TIME
     then rbind (check_call_orders F n (sell_asset_id order) True False d1) (\<lambda>(_, d2).
          rbind (check_call_orders F n (receive_asset_id order) True False d2) (\<lambda>(_, d3).
          Inr (amount_for_sale order, d3)))
     else Inr (amount_for_sale order, d1)))"

section \<open>Margin positions\<close>

record call_order_update_operation =
  cu_fee :: asset
  cu_funding_account :: nat
  cu_delta_collateral :: asset
  cu_delta_debt :: asset
  cu_target_collateral_ratio :: "nat option"

definition call_order_update_validate :: "call_order_update_operation \<Rightarrow> unit result" where
  "call_order_update_validate op =
     require (amount (cu_fee op) \<ge> 0) Assert_failed
     (require (asset_id (cu_delta_collateral op) \<noteq> asset_id (cu_delta_debt op)) Assert_failed
     (require (amount (cu_delta_collateral op) \<noteq> 0 \<or> amount (cu_delta_debt op) \<noteq> 0) Assert_failed (Inr ())))"

definition call_order_update_do_evaluate :: "call_order_update_operation \<Rightarrow> database \<Rightarrow> unit result" where
  "call_order_update_do_evaluate op d =
     require (next_maintenance_time d \<le> HARDFORK_CORE_834_TIME \<longrightarrow> cu_target_collateral_ratio op = None) Assert_failed
     (rbind (index_get (accounts d) (cu_funding_account op)) (\<lambda>_.
      rbind (index_get (assets d) (asset_id (cu_delta_debt op))) (\<lambda>a.
      require (is_market_issued a) Assert_failed
      (rbind (bitasset_data d a) (\<lambda>b.
       require (\<not> has_settlement b) Assert_failed
       (require (asset_id (cu_delta_collateral op) = short_backing_asset (bit_options b)) Assert_failed
       (rbind (if is_prediction_market b
               then require (amount (cu_delta_collateral op) = amount (cu_delta_debt op)) Assert_failed (Inr ())
               else require (\<not> price_is_null (settlement_price (current_feed b))) Insufficient_feeds (Inr ())) (\<lambda>_.
        if amount (cu_delta_collateral op) > 0
        then rbind (index_get (assets d) (short_backing_asset (bit_options b))) (\<lambda>_.
             require (amount (get_balance d (cu_funding_account op) (short_backing_asset (bit_options b))) \<ge> amount (cu_delta_collateral op))
               Assert_failed (Inr ()))
        else Inr ()))))))))"

definition change_debt :: "fc_lib \<Rightarrow> call_order_update_operation \<Rightarrow> database \<Rightarrow> database result" where
  "change_debt F op d =
     (if amount (cu_delta_debt op) \<noteq> 0
      then rbind (adjust_balance F (cu_funding_account op) (cu_delta_debt op) d) (\<lambda>d1.
           rbind (asset_dyn_id d1 (asset_id (cu_delta_debt op))) (\<lambda>i.
           modify_dyn_data i (\<lambda>x.
             rbind (of_option Overflow (safe_add F (current_supply x) (amount (cu_delta_debt op)))) (\<lambda>s.
             require (s \<ge> 0) Assert_failed (Inr (x\<lparr>current_supply := s\<rparr>)))) d1))
      else Inr d)"

definition change_collateral :: "fc_lib \<Rightarrow> call_order_update_operation \<Rightarrow> database \<Rightarrow> database result" where
  "change_collateral F op d =
     (if amount (cu_delta_collateral op) \<noteq> 0
      then rbind (asset_neg F (cu_delta_collateral op)) (\<lambda>neg.
           rbind (adjust_balance F (cu_funding_account op) neg d) (\<lambda>d1.
           if asset_id (cu_delta_collateral op) = 0
           then modify_stats_of (cu_funding_account op) (add_core_in_orders F (amount (cu_delta_collateral op))) d1
           else Inr d1))
      else Inr d)"

definition changed_position ::
  "fc_lib \<Rightarrow> call_order_update_operation \<Rightarrow> int \<Rightarrow> call_order_object \<Rightarrow> call_order_object result" where
  "changed_position F op mcr co =
     rbind (of_option Overflow (safe_add F (collateral co) (amount (cu_delta_collateral op)))) (\<lambda>c.
     rbind (of_option Overflow (safe_add F (debt co) (amount (cu_delta_debt op)))) (\<lambda>n.
     let co1 = co\<lparr>collateral := c, debt := n\<rparr>
     in rbind (if n > 0 then call_price F (get_debt co1) (get_collateral co1) mcr else Inr (co_call_price co1)) (\<lambda>p.
        Inr (co1\<lparr>co_call_price := p, target_collateral_ratio := cu_target_collateral_ratio op\<rparr>))))"

text \<open>The position, created or changed, with its collateralization and debt of before when it was there.\<close>

definition update_position ::
  "fc_lib \<Rightarrow> call_order_update_operation \<Rightarrow> int \<Rightarrow> database \<Rightarrow> (nat \<times> (price \<times> int) option \<times> database) result" where
  "update_position F op mcr d =
     (case find_call_order d (cu_funding_account op) (asset_id (cu_delta_debt op)) of
        None \<Rightarrow>
          require (amount (cu_delta_collateral op) > 0) Assert_failed
          (require (amount (cu_delta_debt op) > 0) Assert_failed
          (rbind (call_price F (cu_delta_debt op) (cu_delta_collateral op) mcr) (\<lambda>p.
           rbind (create_call_order \<lparr>borrower = cu_funding_account op, collateral = amount (cu_delta_collateral op),
                    debt = amount (cu_delta_debt op), co_call_price = p, target_collateral_ratio = cu_target_collateral_ratio op\<rparr> d) (\<lambda>(i, d1).
           Inr (i, None, d1)))))
      | Some (i, co) \<Rightarrow>
          rbind (collateralization co) (\<lambda>old.
          rbind (of_option Overflow (safe_add F (collateral co) (amount (cu_delta_collateral op)))) (\<lambda>c.
          rbind (of_option Overflow (safe_add F (debt co) (amount (cu_delta_debt op)))) (\<lambda>n.
          require (\<not> (c = 0 \<and> n \<noteq> 0)) Assert_failed
          (rbind (modify_call_order i (changed_position F op mcr) d) (\<lambda>d1.
           Inr (i, Some (old, debt co), d1)))))))"

text \<open>Whether a position that is left as it is may stay when no margin call was filled.\<close>

definition position_allowed :: "(price \<times> int) option \<Rightarrow> price \<Rightarrow> call_order_object \<Rightarrow> database \<Rightarrow> unit result" where
  "position_allowed old feed co d =
     (if head_block_time d \<le> HARDFORK_CORE_583_TIME
      then require (price_less (price_invert (co_call_price co)) feed) Unfilled_margin_call (Inr ())
      else rbind (case old of
                    None \<Rightarrow> Inr False
                  | Some (old_collateralization, old_debt) \<Rightarrow>
                      if debt co \<le> old_debt
                      then rbind (collateralization co) (\<lambda>c. Inr (price_greater c old_collateralization)) else Inr False) (\<lambda>improved.
           require (improved \<or> price_less (price_invert (co_call_price co)) feed) Assert_failed (Inr ())))"

definition check_position ::
  "fc_lib \<Rightarrow> nat \<Rightarrow> nat \<Rightarrow> nat \<Rightarrow> (price \<times> int) option \<Rightarrow> price \<Rightarrow> database \<Rightarrow> (unit \<times> database) result" where
  "check_position F n mia i old feed d =
     rbind (check_call_orders F n mia False False d) (\<lambda>(called, d1).
     if called then require (index_find (call_orders d1) i = None) Unfilled_margin_call (Inr ((), d1))
     else rbind (of_option Assert_failed (index_find (call_orders d1) i)) (\<lambda>co.
          rbind (position_allowed old feed co d1) (\<lambda>_. Inr ((), d1))))"

definition call_order_update_do_apply ::
  "fc_lib \<Rightarrow> nat \<Rightarrow> call_order_update_operation \<Rightarrow> database \<Rightarrow> (unit \<times> database) result" where
  "call_order_update_do_apply F n op d =
     rbind (index_get (assets d) (asset_id (cu_delta_debt op))) (\<lambda>a.
     rbind (bitasset_data d a) (\<lambda>b.
     rbind (change_debt F op d) (\<lambda>d1.
     rbind (change_collateral F op d1) (\<lambda>d2.
     rbind (update_position F op (maintenance_collateral_ratio (current_feed b)) d2) (\<lambda>(i, old, d3).
     rbind (index_get (call_orders d3) i) (\<lambda>co.
     if debt co = 0
     then require (collateral co = 0) Assert_failed (rbind (remove_call_order i d3) (\<lambda>d4. Inr ((), d4)))
     else require (collateral co > 0 \<and> debt co > 0) Assert_failed
          (if is_prediction_market b then Inr ((), d3)
           else check_position F n (asset_id (cu_delta_debt op)) i old (settlement_price (current_feed b)) d3)))))))"

section \<open>Bids on settled assets\<close>

record bid_collateral_operation =
  bc_fee :: asset
  bc_bidder :: nat
  bc_additional_collateral :: asset
  bc_debt_covered :: asset

definition bid_collateral_validate :: "bid_collateral_operation \<Rightarrow> unit result" where
  "bid_collateral_validate op =
     require (amount (bc_fee op) \<ge> 0) Assert_failed
     (require (amount (bc_debt_covered op) = 0 \<or> (amount (bc_debt_covered op) > 0 \<and> amount (bc_additional_collateral op) > 0)) Assert_failed
     (Inr ()))"

definition bid_collateral_do_evaluate :: "bid_collateral_operation \<Rightarrow> database \<Rightarrow> unit result" where
  "bid_collateral_do_evaluate op d =
     require (head_block_time d > HARDFORK_CORE_216_TIME) Assert_failed
     (rbind (index_get (accounts d) (bc_bidder op)) (\<lambda>_.
      rbind (index_get (assets d) (asset_id (bc_debt_covered op))) (\<lambda>a.
      require (is_market_issued a) Assert_failed
      (rbind (bitasset_data d a) (\<lambda>b.
       require (has_settlement b) Assert_failed
       (require (asset_id (bc_additional_collateral op) = short_backing_asset (bit_options b)) Assert_failed
       (require (\<not> is_prediction_market b) Assert_failed
       (rbind (if amount (bc_additional_collateral op) > 0
               then rbind (index_get (assets d) (short_backing_asset (bit_options b))) (\<lambda>_.
                    require (amount (get_balance d (bc_bidder op) (short_backing_asset (bit_options b))) \<ge> amount (bc_additional_collateral op))
                      Assert_failed (Inr ()))
               else Inr ()) (\<lambda>_.
        require (find_bid d (asset_id (bc_debt_covered op)) (bc_bidder op) \<noteq> None \<or> amount (bc_debt_covered op) > 0) Assert_failed (Inr ()))))))))))"

definition bid_collateral_do_apply :: "fc_lib \<Rightarrow> bid_collateral_operation \<Rightarrow> database \<Rightarrow> (unit \<times> database) result" where
  "bid_collateral_do_apply F op d =
     rbind (case find_bid d (asset_id (bc_debt_covered op)) (bc_bidder op) of
              None \<Rightarrow> Inr d | Some (i, _) \<Rightarrow> cancel_bid F i d) (\<lambda>d1.
     if amount (bc_debt_covered op) = 0 then Inr ((), d1)
     else rbind (asset_neg F (bc_additional_collateral op)) (\<lambda>neg.
          rbind (adjust_balance F (bc_bidder op) neg d1) (\<lambda>d2.
          rbind (price_div (bc_additional_collateral op) (bc_debt_covered op)) (\<lambda>p.
          rbind (create_bid \<lparr>bidder = bc_bidder op, inv_swan_price = p\<rparr> d2) (\<lambda>(_, d3).
          Inr ((), d3))))))"

section \<open>Settlement\<close>

record asset_global_settle_operation =
  gs_fee :: asset
  gs_issuer :: nat
  gs_asset_to_settle :: nat
  gs_settle_price :: price

definition asset_global_settle_validate :: "asset_global_settle_operation \<Rightarrow> unit result" where
  "asset_global_settle_validate op =
     require (amount (gs_fee op) \<ge> 0) Assert_failed
     (require (gs_asset_to_settle op = asset_id (base (gs_settle_price op))) Assert_failed (Inr ()))"

text \<open>The positions by collateralization (\<^verbatim>\<open>by_collateral\<close>); the first one from a price on.\<close>

definition collateral_before :: "nat \<times> call_order_object \<Rightarrow> nat \<times> call_order_object \<Rightarrow> bool" where
  "collateral_before x y \<longleftrightarrow>
     (let px = mk_price (get_collateral (snd x)) (get_debt (snd x)); py = mk_price (get_collateral (snd y)) (get_debt (snd y))
      in price_less px py \<or> \<not> price_less py px \<and> fst x < fst y)"

definition least_collateralized :: "price \<Rightarrow> database \<Rightarrow> (nat \<times> call_order_object) option" where
  "least_collateralized lo d =
     (case filter (\<lambda>x. \<not> price_less (mk_price (get_collateral (snd x)) (get_debt (snd x))) lo)
             (sorted_by collateral_before (objects (call_orders d))) of
        [] \<Rightarrow> None
      | x # _ \<Rightarrow> Some x)"

text \<open>The source asserts, in debug builds only, that there is a position; the failure of that assertion is the error here.\<close>

definition asset_global_settle_do_evaluate :: "asset_global_settle_operation \<Rightarrow> database \<Rightarrow> unit result" where
  "asset_global_settle_do_evaluate op d =
     rbind (index_get (assets d) (gs_asset_to_settle op)) (\<lambda>a.
     require (is_market_issued a) Assert_failed
     (require (can_global_settle a) Assert_failed
     (require (issuer a = gs_issuer op) Assert_failed
     (rbind (index_get (asset_dyn_data d) (dynamic_asset_data_id a)) (\<lambda>dyn.
      require (current_supply dyn > 0) Assert_failed
      (rbind (bitasset_data d a) (\<lambda>b.
       require (\<not> has_settlement b) Assert_failed
       (rbind (price_min (short_backing_asset (bit_options b)) (gs_asset_to_settle op)) (\<lambda>lo.
        rbind (of_option Assert_failed (least_collateralized lo d)) (\<lambda>(_, least).
        require (debt_type least = gs_asset_to_settle op) Assert_failed
        (rbind (asset_mult (get_debt least) (gs_settle_price op)) (\<lambda>due.
         rbind (asset_le due (get_collateral least)) (\<lambda>enough.
         require enough Assert_failed (Inr ()))))))))))))))"

definition asset_global_settle_do_apply :: "fc_lib \<Rightarrow> asset_global_settle_operation \<Rightarrow> database \<Rightarrow> (unit \<times> database) result" where
  "asset_global_settle_do_apply F op d =
     rbind (globally_settle_asset F (gs_asset_to_settle op) (gs_settle_price op) d) (\<lambda>d1. Inr ((), d1))"

record asset_settle_operation =
  as_fee :: asset
  as_account :: nat
  as_amount :: asset

definition asset_settle_validate :: "asset_settle_operation \<Rightarrow> unit result" where
  "asset_settle_validate op =
     require (amount (as_fee op) \<ge> 0) Assert_failed (require (amount (as_amount op) \<ge> 0) Assert_failed (Inr ()))"

definition asset_settle_do_evaluate :: "asset_settle_operation \<Rightarrow> database \<Rightarrow> unit result" where
  "asset_settle_do_evaluate op d =
     rbind (index_get (assets d) (asset_id (as_amount op))) (\<lambda>a.
     require (is_market_issued a) Assert_failed
     (rbind (bitasset_data d a) (\<lambda>b.
      require (can_force_settle a \<or> has_settlement b) Assert_failed
      (rbind (if is_prediction_market b then require (has_settlement b) Assert_failed (Inr ())
              else require (\<not> (price_is_null (settlement_price (current_feed b)) \<and>
                               (head_block_time d \<le> HARDFORK_CORE_216_TIME \<or> \<not> has_settlement b))) Insufficient_feeds (Inr ())) (\<lambda>_.
       rbind (index_get (accounts d) (as_account op)) (\<lambda>_.
       require (amount (get_balance d (as_account op) (asset_id (as_amount op))) \<ge> amount (as_amount op)) Assert_failed (Inr ())))))))"

datatype settle_result = Settled_amount asset | Settle_order nat

text \<open>What a holder gets from the settlement fund, and what is taken for it.\<close>

definition settled_amounts ::
  "asset_settle_operation \<Rightarrow> int \<Rightarrow> asset_bitasset_data_object \<Rightarrow> database \<Rightarrow> (asset \<times> asset) result" where
  "settled_amounts op supply b d =
     rbind (asset_mult (as_amount op) (bit_settlement_price b)) (\<lambda>worth.
     rbind (if amount (as_amount op) = supply then Inr (worth\<lparr>amount := settlement_fund b\<rparr>)
            else require (amount worth \<le> settlement_fund b) Assert_failed (Inr worth)) (\<lambda>settled.
     require (\<not> (amount settled = 0 \<and> \<not> is_prediction_market b \<and> next_maintenance_time d > HARDFORK_CORE_184_TIME)) Assert_failed
     (rbind (if amount (as_amount op) \<noteq> supply \<and> amount settled \<noteq> 0 \<and> next_maintenance_time d > HARDFORK_CORE_342_TIME
             then multiply_and_round_up settled (bit_settlement_price b) else Inr (as_amount op)) (\<lambda>pays.
      Inr (settled, pays)))))"

definition pay_from_fund :: "fc_lib \<Rightarrow> nat \<Rightarrow> nat \<Rightarrow> asset \<Rightarrow> database \<Rightarrow> database result" where
  "pay_from_fund F who bi settled d =
     (if amount settled > 0
      then rbind (ix_modify bi (\<lambda>b. rbind (of_option Overflow (safe_sub F (settlement_fund b) (amount settled))) (\<lambda>n.
                    Inr (b\<lparr>settlement_fund := n\<rparr>))) (bitassets d)) (\<lambda>ix.
           adjust_balance F who settled (d\<lparr>bitassets := ix\<rparr>))
      else Inr d)"

definition asset_settle_do_apply :: "fc_lib \<Rightarrow> asset_settle_operation \<Rightarrow> database \<Rightarrow> (settle_result \<times> database) result" where
  "asset_settle_do_apply F op d =
     rbind (index_get (assets d) (asset_id (as_amount op))) (\<lambda>a.
     rbind (of_option Assert_failed (bitasset_data_id a)) (\<lambda>bi.
     rbind (index_get (bitassets d) bi) (\<lambda>b.
     if has_settlement b
     then rbind (index_get (asset_dyn_data d) (dynamic_asset_data_id a)) (\<lambda>dyn.
          rbind (settled_amounts op (current_supply dyn) b d) (\<lambda>(settled, pays).
          rbind (asset_neg F pays) (\<lambda>neg.
          rbind (adjust_balance F (as_account op) neg d) (\<lambda>d1.
          rbind (pay_from_fund F (as_account op) bi settled d1) (\<lambda>d2.
          rbind (reduce_supply F (asset_id (as_amount op)) (amount pays) d2) (\<lambda>d3.
          Inr (Settled_amount settled, d3)))))))
     else rbind (asset_neg F (as_amount op)) (\<lambda>neg.
          rbind (adjust_balance F (as_account op) neg d) (\<lambda>d1.
          case ix_create \<lparr>fs_owner = as_account op, fs_balance = as_amount op,
                  settlement_date = head_block_time d1 + force_settlement_delay_sec (bit_options b)\<rparr> (force_settlements d1) of
            (i, ix) \<Rightarrow> Inr (Settle_order i, d1\<lparr>force_settlements := ix\<rparr>))))))"

section \<open>Feeds and options of bitassets\<close>

definition revivable :: "fc_lib \<Rightarrow> nat \<Rightarrow> int \<Rightarrow> asset_bitasset_data_object \<Rightarrow> bool result" where
  "revivable F mia supply b =
     (if price_is_null (settlement_price (current_feed b)) then Inr False
      else if supply = 0 then Inr True
      else rbind (call_price F (mk_asset supply mia) (mk_asset (settlement_fund b) (short_backing_asset (bit_options b)))
                    (maintenance_collateral_ratio (current_feed b))) (\<lambda>p.
           Inr (price_less (price_invert p) (settlement_price (current_feed b)))))"

definition asset_publish_feed_do_apply ::
  "fc_lib \<Rightarrow> nth_element \<Rightarrow> nat \<Rightarrow> asset_publish_feed_operation \<Rightarrow> database \<Rightarrow> (unit \<times> database) result" where
  "asset_publish_feed_do_apply F N n op d =
     rbind (index_get (assets d) (pf_asset_id op)) (\<lambda>a.
     rbind (of_option Assert_failed (bitasset_data_id a)) (\<lambda>bi.
     rbind (index_get (bitassets d) bi) (\<lambda>old.
     rbind (modify_bitasset bi (publish_feed_object N op d) d) (\<lambda>d1.
     rbind (index_get (bitassets d1) bi) (\<lambda>bad.
     if price_feed_eq (current_feed old) (current_feed bad) then Inr ((), d1)
     else rbind (if has_settlement bad
                 then rbind (index_get (asset_dyn_data d1) (dynamic_asset_data_id a)) (\<lambda>dyn.
                      rbind (revivable F (pf_asset_id op) (current_supply dyn) bad) (\<lambda>revive.
                      if revive then revive_bitasset F (pf_asset_id op) d1 else Inr d1))
                 else Inr d1) (\<lambda>d2.
          rbind (check_call_orders F n (pf_asset_id op) True False d2) (\<lambda>(_, d3).
          Inr ((), d3))))))))"

definition asset_update_bitasset_do_apply ::
  "fc_lib \<Rightarrow> nth_element \<Rightarrow> nat \<Rightarrow> asset_update_bitasset_operation \<Rightarrow> database \<Rightarrow> (unit \<times> database) result" where
  "asset_update_bitasset_do_apply F N n op d =
     rbind (index_get (assets d) (ub_asset_to_update op)) (\<lambda>a.
     rbind (of_option Assert_failed (bitasset_data_id a)) (\<lambda>bi.
     rbind (index_get (bitassets d) bi) (\<lambda>b.
     rbind (modify_bitasset bi (\<lambda>b. fst (update_bitasset_object_options N op d a b)) d) (\<lambda>d1.
     if snd (update_bitasset_object_options N op d a b)
     then rbind (check_call_orders F n (ub_asset_to_update op) True False d1) (\<lambda>(_, d2). Inr ((), d2))
     else Inr ((), d1)))))"

definition asset_update_feed_producers_validate :: "asset_update_feed_producers_operation \<Rightarrow> unit result" where
  "asset_update_feed_producers_validate op = require (amount (up_fee op) \<ge> 0) Assert_failed (Inr ())"

definition asset_update_feed_producers_do_apply ::
  "fc_lib \<Rightarrow> nth_element \<Rightarrow> nat \<Rightarrow> asset_update_feed_producers_operation \<Rightarrow> database \<Rightarrow> (unit \<times> database) result" where
  "asset_update_feed_producers_do_apply F N n op d =
     rbind (asset_update_feed_producers_map N op d) (\<lambda>d1.
     rbind (check_call_orders F n (up_asset_to_update op) True False d1) (\<lambda>(_, d2). Inr ((), d2)))"

end
