(* ===== verification/Ops_Proofs.thy ===== *)
theory Ops_Proofs
  imports Market_Ops
begin

text \<open>
  The market operations keep the state of the market and create no value. \<open>market_operation\<close> is what an evaluator has to
  guarantee for that, its own conversion and booking of the fee included; \<open>plain_market_operation\<close> is the case of an
  evaluator that leaves the fee to \<^verbatim>\<open>generic_evaluator\<close>.
\<close>

section \<open>The interface\<close>

text \<open>Times and parameters only change between operations.\<close>

abbreviation same_clock :: "database \<Rightarrow> database \<Rightarrow> bool" where
  "same_clock d d' \<equiv> head_block_time d' = head_block_time d \<and> next_maintenance_time d' = next_maintenance_time d \<and> parameters d' = parameters d"

lemma flow_clock: "flow d d' v \<Longrightarrow> same_clock d d'"
  by (simp add: flow_def money_only_def)

lemma market_step_kept: "market_step d d' \<Longrightarrow> market_ok d' \<and> excess d' = excess d \<and> same_clock d d'"
  by (simp add: market_step_def same_chain_def)

definition run_converted ::
  "fc_lib \<Rightarrow> transaction_evaluation_state \<Rightarrow> int \<Rightarrow> nat \<Rightarrow> asset \<Rightarrow> (database \<Rightarrow> unit result) \<Rightarrow> (fee_state \<Rightarrow> database \<Rightarrow> database result) \<Rightarrow>
   (fee_state \<Rightarrow> database \<Rightarrow> ('s \<times> database) result) \<Rightarrow> ('s \<Rightarrow> database \<Rightarrow> ('r \<times> database) result) \<Rightarrow> database \<Rightarrow> ('r \<times> database) result" where
  "run_converted F S required_fee payer fee do_evaluate convert pay do_apply d =
     rbind (evaluate_operation S required_fee payer fee do_evaluate d) (\<lambda>fs. apply_converted F convert payer pay do_apply fs d)"

lemma start_evaluate_converted:
  "start_evaluate F S required payer fee do_evaluate pay do_apply d =
     run_converted F S required payer fee do_evaluate (convert_fee F S) pay do_apply d"
  by (simp add: start_evaluate_def run_converted_def apply_evaluated_def)

lemma prepare_fee_core:
  assumes "prepare_fee payer fee d = Inr fs"
  shows "0 \<le> core_fee_paid fs"
  using assms by (auto simp: prepare_fee_def Let_def split: if_splits dest!: asset_mult_range)

lemma links_cong: "assets d' = assets d \<Longrightarrow> bitassets d' = bitassets d \<Longrightarrow> links_ok d' = links_ok d"
  by (simp add: links_ok_def)

lemma flow_market_ok: "flow d d' v \<Longrightarrow> market_ok d \<Longrightarrow> market_ok d'"
  by (rule market_flow_ok [OF flow_market_flow])

locale market_operation =
  fixes F :: fc_lib and S :: transaction_evaluation_state
    and pre :: "database \<Rightarrow> bool"
    and convert :: "fee_state \<Rightarrow> database \<Rightarrow> database result"
    and pay :: "fee_state \<Rightarrow> database \<Rightarrow> ('s \<times> database) result"
    and do_apply :: "'s \<Rightarrow> database \<Rightarrow> ('r \<times> database) result"
  assumes applied: "fc_lib_ok F \<Longrightarrow> \<not> skip_fee S \<Longrightarrow> market_ok d \<Longrightarrow> pre d \<Longrightarrow> fee_state_of d payer fee fs \<Longrightarrow> 0 \<le> core_fee_paid fs \<Longrightarrow>
       convert fs d = Inr d1 \<Longrightarrow> pay fs d1 = Inr (s, d2) \<Longrightarrow> do_apply s d2 = Inr (r, d3) \<Longrightarrow>
       market_ok d3 \<and> (\<forall>a. excess d3 a = excess d a + if_asset a fee) \<and> same_clock d d3"
begin

lemma keeps_market:
  assumes F: "fc_lib_ok F" and S: "\<not> skip_fee S" and ok: "market_ok d" and pre: "pre d"
    and run: "run_converted F S required payer fee do_evaluate convert pay do_apply d = Inr (r, d')"
  shows "market_ok d' \<and> excess d' = excess d \<and> same_clock d d'"
proof -
  obtain fs d1 s d2 d3 neg where P: "prepare_fee payer fee d = Inr fs" "convert fs d = Inr d1" "pay fs d1 = Inr (s, d2)"
      "do_apply s d2 = Inr (r, d3)" "asset_neg F (fee_from_account fs) = Inr neg" "adjust_balance F payer neg d3 = Inr d'"
    using run by (auto simp: run_converted_def evaluate_operation_def apply_converted_def)
  have fs: "fee_state_of d payer fee fs" by (rule prepare_fee_state [OF P(1)])
  have neg: "neg = mk_asset (- amount fee) (asset_id fee)"
    using P(5) fs by (auto simp: asset_neg_def fc_safe_simps [OF F] fee_state_of_def)
  note A = applied [OF F S ok pre fs prepare_fee_core [OF P(1)] P(2-4)]
  note f = adjust_balance_flow [OF F market_okD(1) [OF conjunct1 [OF A]] P(6)]
  have "market_ok d'" by (rule flow_market_ok [OF f conjunct1 [OF A]])
  then show ?thesis using A f flow_clock [OF f] by (auto simp: fun_eq_iff flow_def neg if_asset_def)
qed

end

locale plain_market_operation =
  fixes F :: fc_lib and S :: transaction_evaluation_state
    and pre :: "database \<Rightarrow> bool"
    and do_apply :: "database \<Rightarrow> ('r \<times> database) result"
  assumes keeps: "fc_lib_ok F \<Longrightarrow> market_ok d \<Longrightarrow> pre d0 \<Longrightarrow> money_only d0 d \<Longrightarrow> do_apply d = Inr (r, d') \<Longrightarrow>
      market_ok d' \<and> excess d' = excess d \<and> same_clock d d'"

lemma convert_fee_flow:
  assumes "fc_lib_ok F" and "db_ok d" and "fee_state_of d payer fee fs" and "\<not> skip_fee S" and "convert_fee F S fs d = Inr d'"
  shows "flow d d' (\<lambda>a. if_asset a fee - if_asset a (mk_asset (core_fee_paid fs) 0))"
  using convert_fee_effect [OF assms] by (auto simp: flow_def money_only_def)

lemma pay_fee_core_flow:
  assumes "fc_lib_ok F" and "db_ok d" and "\<not> skip_fee S" and "pay_fee F S fs d = Inr (u, d')"
  shows "flow d d' (\<lambda>a. if_asset a (mk_asset (core_fee_paid fs) 0))"
proof -
  have "pay_core_fee F S (fee_paying_account_statistics fs) (core_fee_paid fs) d = Inr d'" using assms(4) by (auto simp: pay_fee_def)
  from pay_core_fee_effect [OF assms(1-3) this] show ?thesis by (auto simp: flow_def money_only_def)
qed

sublocale plain_market_operation \<subseteq> booked: market_operation F S pre "convert_fee F S" "pay_fee F S" "\<lambda>_. do_apply"
proof unfold_locales
  fix d payer fee fs d1 s d2 r d3
  assume F: "fc_lib_ok F" and S: "\<not> skip_fee S" and ok: "market_ok d" and pre: "pre d" and fs: "fee_state_of d payer fee fs"
    and run: "convert_fee F S fs d = Inr d1" "pay_fee F S fs d1 = Inr (s, d2)" "do_apply d2 = Inr (r, d3)"
  note f1 = convert_fee_flow [OF F market_okD(1) [OF ok] fs S run(1)]
  note f2 = flow_trans [OF f1 pay_fee_core_flow [OF F flow_ok [OF f1] S run(2)]]
  have f: "flow d d2 (\<lambda>a. if_asset a fee)" by (rule flow_cong [OF f2]) simp
  have "money_only d d2" using f by (simp add: flow_def)
  from keeps [OF F flow_market_ok [OF f ok] pre this run(3)] f flow_clock [OF f]
  show "market_ok d3 \<and> (\<forall>a. excess d3 a = excess d a + if_asset a fee) \<and> same_clock d d3" by (simp add: flow_def)
qed

section \<open>Limit orders\<close>

lemma create_limit_order_market:
  assumes ok: "market_ok d" and c: "ix_create lo (limit_orders d) = (i, ix)" and lo: "fees_ok lo" "for_sale lo < 2 ^ 63"
  shows "market_ok (d\<lparr>limit_orders := ix\<rparr>) \<and> (\<forall>a. excess (d\<lparr>limit_orders := ix\<rparr>) a = excess d a + order_value a lo)"
proof -
  have "ix_ok (limit_orders d)" using market_okD(1) [OF ok] by (simp add: db_ok_def)
  note C = ix_create_facts [OF this c]
  have e: "excess (d\<lparr>limit_orders := ix\<rparr>) a = excess d a + order_value a lo" for a
    by (subst excess_limit_orders [where n = "\<lambda>f. f lo"]) (use C in \<open>simp_all add: order_value_def\<close>)
  have b: "backed (d\<lparr>limit_orders := ix\<rparr>) = backed d" by (rule backed_cong) simp_all
  have l: "links_ok (d\<lparr>limit_orders := ix\<rparr>) = links_ok d" by (rule links_cong) simp_all
  have "db_ok (d\<lparr>limit_orders := ix\<rparr>)" using market_okD(1) [OF ok] C by (simp add: db_ok_def assets_ok_def)
  moreover have "orders_ok (d\<lparr>limit_orders := ix\<rparr>)" using market_okD(3) [OF ok] C lo by (auto simp: orders_ok_def)
  ultimately show ?thesis
    using ok e by (simp add: market_ok_def options_ok_def funds_ok_def calls_ok_def bids_ok_def l b)
qed

text \<open>The part of the fee that is kept with the order.\<close>

definition deferred_value :: "nat \<Rightarrow> int \<times> asset \<Rightarrow> int" where
  "deferred_value a x = if_asset a (mk_asset (fst x) 0) + if_asset a (snd x)"

lemma limit_order_create_fee:
  assumes F: "fc_lib_ok F" and S: "\<not> skip_fee S" and ok: "db_ok d" and fs: "fee_state_of d payer fee fs"
    and conv: "limit_order_create_convert_fee F S fs d = Inr d1" and pay: "limit_order_create_pay_fee F S fs d1 = Inr (s, d2)"
    and core: "0 \<le> core_fee_paid fs"
  shows "flow d d2 (\<lambda>a. if_asset a fee - deferred_value a s) \<and> 0 \<le> fst s \<and> 0 \<le> amount (snd s)"
proof -
  have fee: "fee_from_account fs = fee" "0 \<le> amount fee" using fs by (simp_all add: fee_state_of_def)
  obtain fa where fa: "index_find (assets d) (asset_id fee) = Some fa" "fee_asset_dyn_data fs = dynamic_asset_data_id fa"
    using fs by (auto simp: fee_state_of_def)
  consider (old) "head_block_time d \<le> HARDFORK_CORE_604_TIME" | (new) "head_block_time d > HARDFORK_CORE_604_TIME" by fastforce
  then show ?thesis
  proof cases
    case old
    then have "convert_fee F S fs d = Inr d1" using conv by (simp add: limit_order_create_convert_fee_def)
    note f1 = convert_fee_flow [OF F ok fs S this]
    have t: "head_block_time d1 = head_block_time d" using flow_keeps [OF f1] by simp
    show ?thesis
    proof (cases "head_block_time d \<le> HARDFORK_445_TIME")
      case True
      then have p: "pay_fee F S fs d1 = Inr ((), d2)" "s = (0, mk_asset 0 0)" using pay t by (auto simp: limit_order_create_pay_fee_def)
      have "flow d d2 (\<lambda>a. if_asset a fee - deferred_value a s)"
        by (rule flow_cong [OF flow_trans [OF f1 pay_fee_core_flow [OF F flow_ok [OF f1] S p(1)]]]) (simp add: p(2) deferred_value_def)
      then show ?thesis using p(2) by simp
    next
      case False
      then have "s = (core_fee_paid fs, mk_asset 0 0)" "d2 = d1" using pay t old by (auto simp: limit_order_create_pay_fee_def)
      then show ?thesis using f1 core by (auto simp: deferred_value_def intro: flow_cong)
    qed
  next
    case new
    then have new': "\<not> head_block_time d \<le> HARDFORK_CORE_604_TIME" by (simp add: not_le)
    have hf: "head_block_time d > HARDFORK_445_TIME"
      using new by (rule order.strict_trans [rotated]) (simp add: HARDFORK_445_TIME_def HARDFORK_CORE_604_TIME_def)
    show ?thesis
    proof (cases "asset_id fee = 0")
      case True
      then have d1: "d1 = d" using conv new' fee by (simp add: limit_order_create_convert_fee_def)
      then have "s = (amount fee, mk_asset 0 0)" "d2 = d"
        using pay hf new True fs fee by (auto simp: limit_order_create_pay_fee_def fee_state_of_def split: if_splits)
      then show ?thesis using True fee(2) by (auto simp: deferred_value_def if_asset_def intro: flow_cong [OF flow_refl [OF ok]])
    next
      case False
      then have m: "modify_dyn_data (dynamic_asset_data_id fa) (\<lambda>x. rbind (of_option Overflow (safe_sub F (fee_pool x) (core_fee_paid fs))) (\<lambda>pool.
             Inr (x\<lparr>fee_pool := pool\<rparr>))) d = Inr d1"
        using conv new' fee fa S by (simp add: limit_order_create_convert_fee_def)
      have i: "asset_dyn_id d (asset_id fee) = Inr (dynamic_asset_data_id fa)" using fa by (simp add: asset_dyn_id_def index_get_def)
      have f: "flow d d1 (\<lambda>a. if_asset a (mk_asset 0 (asset_id fee)) + if_asset a (mk_asset (- core_fee_paid fs) 0))"
        by (rule dyn_flow [OF F ok i m]) (auto simp: held_in_dyn_def fc_safe_simps [OF F])
      have "head_block_time d1 = head_block_time d" using flow_keeps [OF f] by simp
      then have "s = (core_fee_paid fs, fee)" "d2 = d1" using pay hf new False fee by (auto simp: limit_order_create_pay_fee_def not_le split: if_splits)
      then show ?thesis using f core fee(2) by (auto simp: deferred_value_def intro: flow_cong)
    qed
  qed
qed

lemma limit_order_create_apply:
  assumes F: "fc_lib_ok F" and ok: "market_ok d" and def: "0 \<le> fst df" "0 \<le> amount (snd df)"
    and sell: "amount (lc_amount_to_sell op) < 2 ^ 63" and run: "limit_order_create_do_apply F n op df d = Inr (r, d')"
  shows "market_ok d' \<and> (\<forall>a. excess d' a = excess d a + deferred_value a df) \<and> same_clock d d'"
proof -
  let ?s = "lc_amount_to_sell op"
  obtain d1 neg d2 p where 1: "modify_stats_of (lc_seller op) (\<lambda>s. if asset_id ?s = 0 then add_core_in_orders F (amount ?s) s else Inr s) d = Inr d1"
    and neg: "asset_neg F ?s = Inr neg" and 2: "adjust_balance F (lc_seller op) neg d1 = Inr d2" and p: "price_div ?s (lc_min_to_receive op) = Inr p"
    and 3: "(case ix_create (new_limit_order op (fst df) (snd df) p) (limit_orders d2) of
       (order_id, ix) \<Rightarrow>
         rbind (if next_maintenance_time d2 \<le> HARDFORK_CORE_625_TIME
                then apply_order_before_hardfork_625 F n order_id True (d2\<lparr>limit_orders := ix\<rparr>)
                else apply_order F n order_id (d2\<lparr>limit_orders := ix\<rparr>)) (\<lambda>(filled, d3).
         require (\<not> lc_fill_or_kill op \<or> filled) Assert_failed (Inr (order_id, d3)))) = Inr (r, d')"
    using run unfolding limit_order_create_do_apply_def rbind_eq_Inr by (elim exE conjE) (rule that, assumption+)
  obtain i ix where c: "ix_create (new_limit_order op (fst df) (snd df) p) (limit_orders d2) = (i, ix)" by (rule prod.exhaust)
  obtain fl where 4: "(if next_maintenance_time d2 \<le> HARDFORK_CORE_625_TIME
                then apply_order_before_hardfork_625 F n i True (d2\<lparr>limit_orders := ix\<rparr>)
                else apply_order F n i (d2\<lparr>limit_orders := ix\<rparr>)) = Inr (fl, d')"
    using 3 c by (auto simp del: if_split)
  have f1: "flow d d1 (\<lambda>_. 0)" by (rule core_orders_flow [OF market_okD(1) [OF ok] 1]) (auto split: if_splits dest: add_core_in_orders_pending)
  note f2 = flow_trans [OF f1 adjust_balance_flow [OF F flow_ok [OF f1] 2]]
  have neg': "neg = mk_asset (- amount ?s) (asset_id ?s)" using neg by (auto simp: asset_neg_def fc_safe_simps [OF F])
  have pb: "base p = ?s" using p by (auto simp: price_div_def)
  have "market_ok d2" by (rule flow_market_ok [OF f2 ok])
  from create_limit_order_market [OF this c] def sell
  have C: "market_ok (d2\<lparr>limit_orders := ix\<rparr>)" "\<And>a. excess (d2\<lparr>limit_orders := ix\<rparr>) a = excess d2 a + order_value a (new_limit_order op (fst df) (snd df) p)"
    by (auto simp: fees_ok_def new_limit_order_def)
  have S: "market_step (d2\<lparr>limit_orders := ix\<rparr>) d'"
    using 4 apply_order_step [OF F C(1)] apply_order_before_hardfork_625_step [OF F C(1)] by (auto split: if_splits)
  show ?thesis
    using market_step_kept [OF S] C(2) f2 flow_clock [OF f2] pb by (auto simp: flow_def neg' deferred_value_def order_value_def new_limit_order_def amount_for_sale_def if_asset_def)
qed

interpretation limit_order_create: market_operation F S "\<lambda>_. amount (lc_amount_to_sell op) < 2 ^ 63"
  "limit_order_create_convert_fee F S" "limit_order_create_pay_fee F S" "limit_order_create_do_apply F n op" for F S n op
proof unfold_locales
  fix d payer fee fs d1 s d2 r d3
  assume F: "fc_lib_ok F" and S: "\<not> skip_fee S" and ok: "market_ok d" and sell: "amount (lc_amount_to_sell op) < 2 ^ 63"
    and fs: "fee_state_of d payer fee fs" and core: "0 \<le> core_fee_paid fs"
    and run: "limit_order_create_convert_fee F S fs d = Inr d1" "limit_order_create_pay_fee F S fs d1 = Inr (s, d2)"
      "limit_order_create_do_apply F n op s d2 = Inr (r, d3)"
  note A = limit_order_create_fee [OF F S market_okD(1) [OF ok] fs run(1,2) core]
  have "market_ok d2" using A flow_market_ok [OF _ ok] by blast
  from limit_order_create_apply [OF F this _ _ sell run(3)] A flow_clock [OF conjunct1 [OF A]]
  show "market_ok d3 \<and> (\<forall>a. excess d3 a = excess d a + if_asset a fee) \<and> same_clock d d3" by (auto simp: flow_def)
qed

lemma limit_order_cancel_apply:
  assumes F: "fc_lib_ok F" and ok: "market_ok d" and run: "limit_order_cancel_do_apply F n op d = Inr (r, d')"
  shows "market_step d d'"
proof -
  obtain order :: limit_order_object and d1 where 1: "cancel_limit_order F (lx_order op) False False d = Inr d1"
    and 2: "(if next_maintenance_time d1 \<le> HARDFORK_CORE_606_TIME
     then rbind (check_call_orders F n (sell_asset_id order) True False d1) (\<lambda>(_, d2).
          rbind (check_call_orders F n (receive_asset_id order) True False d2) (\<lambda>(_, d3).
          Inr (amount_for_sale order, d3)))
     else Inr (amount_for_sale order, d1)) = Inr (r, d')"
    using run unfolding limit_order_cancel_do_apply_def rbind_eq_Inr by (elim exE conjE) (rule that, assumption+)
  note S = cancel_limit_order_step [OF F ok 1]
  show ?thesis
  proof (cases "next_maintenance_time d1 \<le> HARDFORK_CORE_606_TIME")
    case True
    then obtain b1 b2 d2 where "check_call_orders F n (sell_asset_id order) True False d1 = Inr (b1, d2)"
        "check_call_orders F n (receive_asset_id order) True False d2 = Inr (b2, d')" using 2 by auto
    then show ?thesis using S check_call_orders_step [OF F] market_step_ok market_step_trans by metis
  next
    case False
    then show ?thesis using 2 S by simp
  qed
qed

interpretation limit_order_cancel: plain_market_operation F S "\<lambda>_. True" "limit_order_cancel_do_apply F n op" for F S n op
  by unfold_locales (use limit_order_cancel_apply market_step_kept in blast)

section \<open>Margin positions\<close>

lemma backed_backing: "backed d c m \<longleftrightarrow> backing d m = Some c"
  by (auto simp: backed_def backing_def bind_eq_Some_conv)

lemma backed_unique: "backed d c m \<Longrightarrow> backed d c' m \<Longrightarrow> c = c'"
  by (simp add: backed_backing)

lemma money_only_backed: "money_only d d' \<Longrightarrow> backed d' = backed d"
  by (rule backed_cong) (simp_all add: money_only_def)

lemma change_debt_flow:
  assumes F: "fc_lib_ok F" and ok: "db_ok d" and run: "change_debt F op d = Inr d'"
  shows "flow d d' (\<lambda>_. 0)"
proof (cases "amount (cu_delta_debt op) = 0")
  case True
  then show ?thesis using run flow_refl [OF ok] by (simp add: change_debt_def)
next
  case False
  then obtain d1 i where 1: "adjust_balance F (cu_funding_account op) (cu_delta_debt op) d = Inr d1"
    and i: "asset_dyn_id d1 (asset_id (cu_delta_debt op)) = Inr i"
    and 2: "modify_dyn_data i (\<lambda>x. rbind (of_option Overflow (safe_add F (current_supply x) (amount (cu_delta_debt op)))) (\<lambda>s.
             require (s \<ge> 0) Assert_failed (Inr (x\<lparr>current_supply := s\<rparr>)))) d1 = Inr d'"
    using run by (auto simp: change_debt_def)
  note f1 = adjust_balance_flow [OF F ok 1]
  have "flow d1 d' (\<lambda>a. if_asset a (mk_asset (- amount (cu_delta_debt op)) (asset_id (cu_delta_debt op))) + if_asset a (mk_asset 0 0))"
    by (rule dyn_flow [OF F flow_ok [OF f1] i 2]) (auto simp: held_in_dyn_def fc_safe_simps [OF F])
  from flow_trans [OF f1 this] show ?thesis by (rule flow_cong) (simp add: if_asset_def)
qed

lemma change_collateral_flow:
  assumes F: "fc_lib_ok F" and ok: "db_ok d" and run: "change_collateral F op d = Inr d'"
  shows "flow d d' (\<lambda>a. - if_asset a (cu_delta_collateral op))"
proof (cases "amount (cu_delta_collateral op) = 0")
  case True
  then have "d' = d" using run by (simp add: change_collateral_def)
  then show ?thesis using True by (auto simp: if_asset_def intro: flow_cong [OF flow_refl [OF ok]])
next
  case False
  then obtain neg d1 where neg: "asset_neg F (cu_delta_collateral op) = Inr neg" and 1: "adjust_balance F (cu_funding_account op) neg d = Inr d1"
    and 2: "(if asset_id (cu_delta_collateral op) = 0
           then modify_stats_of (cu_funding_account op) (add_core_in_orders F (amount (cu_delta_collateral op))) d1 else Inr d1) = Inr d'"
    using run by (auto simp: change_collateral_def simp del: if_split)
  have neg': "neg = mk_asset (- amount (cu_delta_collateral op)) (asset_id (cu_delta_collateral op))"
    using neg by (auto simp: asset_neg_def fc_safe_simps [OF F])
  note f1 = adjust_balance_flow [OF F ok 1]
  have "flow d1 d' (\<lambda>_. 0)"
    using 2 flow_refl [OF flow_ok [OF f1]] core_orders_flow [OF flow_ok [OF f1]] add_core_in_orders_pending by (auto split: if_splits)
  from flow_trans [OF f1 this] show ?thesis by (rule flow_cong) (simp add: if_asset_def neg')
qed

lemma find_call_order_SomeD:
  assumes "db_ok d" and "find_call_order d who mia = Some (i, co)"
  shows "index_find (call_orders d) i = Some co \<and> borrower co = who \<and> debt_type co = mia"
proof -
  have "(i, co) \<in> set (objects (call_orders d))" "borrower co = who" "debt_type co = mia"
    using assms(2) by (auto simp: find_call_order_def dest!: find_SomeD)
  then show ?thesis using assms(1) by (simp add: db_ok_def index_mem_iff)
qed

lemma changed_position_types:
  assumes F: "fc_lib_ok F" and run: "changed_position F op mcr co = Inr co'"
  shows "collateral_type co' = collateral_type co \<and> debt_type co' = debt_type co \<and>
     collateral co' = collateral co + amount (cu_delta_collateral op)"
  using run by (auto simp: changed_position_def Let_def fc_safe_simps [OF F] get_debt_def get_collateral_def collateral_type_def debt_type_def
      split: if_splits dest!: call_price_ids)

lemma modify_call_order_flow:
  assumes ok: "db_ok d" and run: "modify_call_order i m d = Inr d'" and co: "index_find (call_orders d) i = Some co"
    and m: "\<And>co'. m co = Inr co' \<Longrightarrow> collateral_type co' = collateral_type co \<and> debt_type co' = debt_type co \<and> collateral co' = collateral co + k"
  shows "market_flow d d' (\<lambda>a. if_asset a (mk_asset k (collateral_type co)))"
proof -
  obtain co' ix where M: "m co = Inr co'" "d' = d\<lparr>call_orders := ix\<rparr>" "index_find ix = (index_find (call_orders d))(i \<mapsto> co')" "db_ok d'"
      "\<forall>a. excess d' a = excess d a + if_asset a (get_collateral co') - if_asset a (get_collateral co)"
    using modify_call_order_effect [OF ok run] co by auto
  have e: "backed d' = backed d" by (rule backed_cong) (simp_all add: M(2))
  have "calls_ok d \<longrightarrow> bids_ok d \<longrightarrow> calls_ok d' \<and> bids_ok d'"
    unfolding calls_ok_def bids_ok_def e using M(2,3) m [OF M(1)] co by auto
  then show ?thesis using M m [OF M(1)] by (auto simp: market_flow_def same_chain_def get_collateral_def)
qed

lemma update_position_flow:
  assumes F: "fc_lib_ok F" and ok: "market_ok d" and b: "backed d (asset_id (cu_delta_collateral op)) (asset_id (cu_delta_debt op))"
    and run: "update_position F op mcr d = Inr (i, old, d')"
  shows "market_flow d d' (\<lambda>a. if_asset a (cu_delta_collateral op))"
proof (cases "find_call_order d (cu_funding_account op) (asset_id (cu_delta_debt op))")
  case None
  then obtain p where p: "call_price F (cu_delta_debt op) (cu_delta_collateral op) mcr = Inr p"
    and c: "create_call_order \<lparr>borrower = cu_funding_account op, collateral = amount (cu_delta_collateral op),
                    debt = amount (cu_delta_debt op), co_call_price = p, target_collateral_ratio = cu_target_collateral_ratio op\<rparr> d = Inr (i, d')"
    using run by (auto simp: update_position_def)
  show ?thesis
    using create_call_order_flow [OF market_okD(1) [OF ok] c] b call_price_ids [OF p]
    by (auto simp: get_collateral_def collateral_type_def debt_type_def if_asset_def intro: market_flow_cong)
next
  case (Some x)
  obtain j co where x: "x = (j, co)" by (cases x)
  have co: "index_find (call_orders d) j = Some co" "debt_type co = asset_id (cu_delta_debt op)"
    using find_call_order_SomeD [OF market_okD(1) [OF ok]] Some x by auto
  have m: "modify_call_order j (changed_position F op mcr) d = Inr d'" using run Some x by (auto simp: update_position_def)
  have "collateral_type co = asset_id (cu_delta_collateral op)"
    using market_okD(5) [OF ok] co b backed_unique by (fastforce simp: calls_ok_def)
  moreover have "market_flow d d' (\<lambda>a. if_asset a (mk_asset (amount (cu_delta_collateral op)) (collateral_type co)))"
    by (rule modify_call_order_flow [OF market_okD(1) [OF ok] m co(1)]) (rule changed_position_types [OF F])
  ultimately show ?thesis by (auto simp: if_asset_def intro: market_flow_cong)
qed

lemma remove_call_order_flow:
  assumes ok: "db_ok d" and run: "remove_call_order i d = Inr d'" and co: "index_find (call_orders d) i = Some co"
  shows "market_flow d d' (\<lambda>a. - if_asset a (get_collateral co))"
proof -
  obtain ix where R: "d' = d\<lparr>call_orders := ix\<rparr>" "index_find ix = (index_find (call_orders d))(i := None)" "db_ok d'"
      "\<forall>a. excess d' a = excess d a - if_asset a (get_collateral co)"
    using remove_call_order_effect [OF ok run] co by auto
  have "backed d' = backed d" by (rule backed_cong) (simp_all add: R(1))
  then show ?thesis using R by (auto simp: market_flow_def same_chain_def calls_ok_def bids_ok_def)
qed

lemma check_position_step:
  assumes F: "fc_lib_ok F" and ok: "market_ok d" and run: "check_position F n mia i old feed d = Inr (u, d')"
  shows "market_step d d'"
proof -
  obtain c where "check_call_orders F n mia False False d = Inr (c, d')" using run by (auto simp: check_position_def split: if_splits)
  then show ?thesis by (rule check_call_orders_step [OF F ok])
qed

lemma call_order_update_evaluated:
  assumes "call_order_update_do_evaluate op d = Inr ()"
  shows "backed d (asset_id (cu_delta_collateral op)) (asset_id (cu_delta_debt op))"
  using assms by (auto simp: call_order_update_do_evaluate_def bitasset_data_def backed_def)

lemma call_order_update_apply:
  assumes F: "fc_lib_ok F" and ok: "market_ok d" and b: "backed d (asset_id (cu_delta_collateral op)) (asset_id (cu_delta_debt op))"
    and run: "call_order_update_do_apply F n op d = Inr (u, d')"
  shows "market_step d d'"
proof -
  obtain bd :: asset_bitasset_data_object and d1 d2 i old d3 co where 1: "change_debt F op d = Inr d1" and 2: "change_collateral F op d1 = Inr d2"
    and 3: "update_position F op (maintenance_collateral_ratio (current_feed bd)) d2 = Inr (i, old, d3)"
    and co: "index_find (call_orders d3) i = Some co"
    and 4: "(if debt co = 0
     then require (collateral co = 0) Assert_failed (rbind (remove_call_order i d3) (\<lambda>d4. Inr ((), d4)))
     else require (collateral co > 0 \<and> debt co > 0) Assert_failed
          (if is_prediction_market bd then Inr ((), d3)
           else check_position F n (asset_id (cu_delta_debt op)) i old (settlement_price (current_feed bd)) d3)) = Inr (u, d')"
    using run unfolding call_order_update_do_apply_def by (auto simp del: if_split)
  note f1 = change_debt_flow [OF F market_okD(1) [OF ok] 1]
  note f2 = flow_trans [OF f1 change_collateral_flow [OF F flow_ok [OF f1] 2]]
  have ok2: "market_ok d2" by (rule flow_market_ok [OF f2 ok])
  have b2: "backed d2 (asset_id (cu_delta_collateral op)) (asset_id (cu_delta_debt op))"
    using b money_only_backed [of d d2] f2 by (simp add: flow_def)
  note f3 = market_flow_trans [OF flow_market_flow [OF f2] update_position_flow [OF F ok2 b2 3]]
  have s3: "market_step d d3" by (rule market_flow_step [OF f3 _ ok]) simp
  show ?thesis
  proof (cases "debt co = 0")
    case True
    then have r: "remove_call_order i d3 = Inr d'" "collateral co = 0" using 4 by auto
    have "market_step d3 d'"
      by (rule market_flow_step [OF remove_call_order_flow [OF market_okD(1) [OF market_step_ok [OF s3]] r(1) co] _ market_step_ok [OF s3]])
        (simp add: r(2) get_collateral_def)
    then show ?thesis by (rule market_step_trans [OF s3])
  next
    case False
    then show ?thesis
      using 4 s3 check_position_step [OF F market_step_ok [OF s3]] market_step_trans by (auto split: if_splits)
  qed
qed

interpretation call_order_update: plain_market_operation F S "\<lambda>d. call_order_update_do_evaluate op d = Inr ()" "call_order_update_do_apply F n op" for F S n op
  by unfold_locales (rule market_step_kept, rule call_order_update_apply, assumption+,
      use call_order_update_evaluated money_only_backed in auto)

section \<open>Bids\<close>

lemma find_bid_SomeD:
  assumes "db_ok d" and "find_bid d mia who = Some (i, bid)"
  shows "index_find (collateral_bids d) i = Some bid"
proof -
  have "(i, bid) \<in> set (objects (collateral_bids d))" using assms(2) by (auto simp: find_bid_def dest!: find_SomeD)
  then show ?thesis using assms(1) by (simp add: db_ok_def index_mem_iff)
qed

lemma bid_collateral_evaluated:
  assumes "bid_collateral_do_evaluate op d = Inr ()"
  shows "backed d (asset_id (bc_additional_collateral op)) (asset_id (bc_debt_covered op))"
  using assms by (auto simp: bid_collateral_do_evaluate_def bitasset_data_def backed_def)

lemma bid_collateral_apply:
  assumes F: "fc_lib_ok F" and ok: "market_ok d" and b: "backed d (asset_id (bc_additional_collateral op)) (asset_id (bc_debt_covered op))"
    and run: "bid_collateral_do_apply F op d = Inr (u, d')"
  shows "market_step d d'"
proof -
  obtain d1 where 1: "(case find_bid d (asset_id (bc_debt_covered op)) (bc_bidder op) of
              None \<Rightarrow> Inr d | Some (i, _) \<Rightarrow> cancel_bid F i d) = Inr d1"
    and 2: "(if amount (bc_debt_covered op) = 0 then Inr ((), d1)
     else rbind (asset_neg F (bc_additional_collateral op)) (\<lambda>neg.
          rbind (adjust_balance F (bc_bidder op) neg d1) (\<lambda>d2.
          rbind (price_div (bc_additional_collateral op) (bc_debt_covered op)) (\<lambda>p.
          rbind (create_bid \<lparr>bidder = bc_bidder op, inv_swan_price = p\<rparr> d2) (\<lambda>(_, d3).
          Inr ((), d3)))))) = Inr (u, d')"
    using run by (auto simp: bid_collateral_do_apply_def simp del: if_split)
  have s1: "market_step d d1"
    using 1 cancel_bid_step [OF F ok] ok by (auto split: option.splits)
  show ?thesis
  proof (cases "amount (bc_debt_covered op) = 0")
    case True
    then show ?thesis using 2 s1 by simp
  next
    case False
    then obtain neg d2 p i where neg: "asset_neg F (bc_additional_collateral op) = Inr neg" and 3: "adjust_balance F (bc_bidder op) neg d1 = Inr d2"
      and p: "price_div (bc_additional_collateral op) (bc_debt_covered op) = Inr p"
      and 4: "create_bid \<lparr>bidder = bc_bidder op, inv_swan_price = p\<rparr> d2 = Inr (i, d')"
      using 2 by auto
    have neg': "neg = mk_asset (- amount (bc_additional_collateral op)) (asset_id (bc_additional_collateral op))"
      using neg by (auto simp: asset_neg_def fc_safe_simps [OF F])
    have p': "p = mk_price (bc_additional_collateral op) (bc_debt_covered op)" using p by (auto simp: price_div_def)
    note f = adjust_balance_flow [OF F market_okD(1) [OF market_step_ok [OF s1]] 3]
    have "backed d1 (asset_id (bc_additional_collateral op)) (asset_id (bc_debt_covered op))"
      using b s1 same_chain_backed unfolding market_step_def by blast
    then have "backed d2 (asset_id (bc_additional_collateral op)) (asset_id (bc_debt_covered op))"
      using money_only_backed [of d1 d2] f by (simp add: flow_def)
    then have "market_flow d2 d' (\<lambda>a. if_asset a (bc_additional_collateral op))"
      using create_bid_flow [OF flow_ok [OF f] 4] p' by simp
    from market_flow_trans [OF flow_market_flow [OF f] this]
    have "market_step d1 d'" by (rule market_flow_step) (simp_all add: neg' if_asset_def market_step_ok [OF s1])
    then show ?thesis by (rule market_step_trans [OF s1])
  qed
qed

interpretation bid_collateral: plain_market_operation F S "\<lambda>d. bid_collateral_do_evaluate op d = Inr ()" "bid_collateral_do_apply F op" for F S op
  by unfold_locales (rule market_step_kept, rule bid_collateral_apply, assumption+,
      use bid_collateral_evaluated money_only_backed in auto)

section \<open>Settlement\<close>

interpretation asset_global_settle: plain_market_operation F S "\<lambda>_. True" "asset_global_settle_do_apply F op" for F S op
  by unfold_locales (rule market_step_kept, use globally_settle_asset_step in \<open>auto simp: asset_global_settle_do_apply_def\<close>)

lemma asset_mult_base: "asset_mult x p = Inr y \<Longrightarrow> asset_id x = asset_id (base p) \<Longrightarrow> asset_id y = asset_id (quote p)"
  by (auto simp: asset_mult_def Let_def split: if_splits)

lemma round_up_quote:
  "multiply_and_round_up x p = Inr y \<Longrightarrow> asset_id x = asset_id (quote p) \<Longrightarrow> asset_id x \<noteq> asset_id (base p) \<Longrightarrow> asset_id y = asset_id (base p)"
  by (auto simp: multiply_and_round_up_def Let_def split: if_splits)

lemma settled_amounts_ids:
  assumes "fund_ok b" and "has_settlement b" and "bit_asset_id b = asset_id (as_amount op)" and "settled_amounts op supply b d = Inr (settled, pays)"
  shows "asset_id settled = short_backing_asset (bit_options b) \<and> asset_id pays = asset_id (as_amount op)"
proof -
  have p: "asset_id (base (bit_settlement_price b)) = asset_id (as_amount op)" "asset_id (quote (bit_settlement_price b)) = short_backing_asset (bit_options b)"
      "asset_id (as_amount op) \<noteq> short_backing_asset (bit_options b)"
    using assms(1-3) by (auto simp: fund_ok_def)
  obtain worth where w: "asset_mult (as_amount op) (bit_settlement_price b) = Inr worth"
    and s: "settled = worth \<or> settled = worth\<lparr>amount := settlement_fund b\<rparr>"
    and y: "pays = as_amount op \<or> multiply_and_round_up settled (bit_settlement_price b) = Inr pays"
    using assms(4) by (auto simp: settled_amounts_def split: if_splits)
  have "asset_id settled = short_backing_asset (bit_options b)" using asset_mult_base [OF w] p s by auto
  then show ?thesis using y round_up_quote [of settled "bit_settlement_price b" pays] p by auto
qed

text \<open>Only the amount of a settlement fund changes.\<close>

lemma modify_fund_market:
  assumes ok: "market_ok d" and run: "ix_modify bi m (bitassets d) = Inr ix"
    and b: "index_find (bitassets d) bi = Some b" "m b = Inr (b\<lparr>settlement_fund := n\<rparr>)" "has_settlement b"
  shows "market_ok (d\<lparr>bitassets := ix\<rparr>) \<and>
     (\<forall>a. excess (d\<lparr>bitassets := ix\<rparr>) a = excess d a + if_asset a (mk_asset (n - settlement_fund b) (short_backing_asset (bit_options b))))"
proof -
  let ?d = "d\<lparr>bitassets := ix\<rparr>"
  have iok: "ix_ok (bitassets d)" using market_okD(1) [OF ok] by (simp add: db_ok_def assets_ok_def)
  have M: "index_find ix = (index_find (bitassets d))(bi \<mapsto> b\<lparr>settlement_fund := n\<rparr>)" "ix_ok ix"
      "\<And>f. ix_sum f ix = ix_sum f (bitassets d) + f (b\<lparr>settlement_fund := n\<rparr>) - f b"
    using ix_modifyE [OF iok run] b(1,2) by (metis option.inject sum.inject(2))+
  have e: "excess ?d a = excess d a + if_asset a (mk_asset (n - settlement_fund b) (short_backing_asset (bit_options b)))" for a
    using M(3) by (simp add: excess_defs)
  have s: "same_chain d ?d" using M(1) b(1) by (simp add: same_chain_def)
  have "calls_ok ?d" by (rule calls_kept_ok [OF s _ market_okD(5) [OF ok]]) simp
  moreover have "bids_ok ?d" by (rule bids_kept_ok [OF s _ market_okD(6) [OF ok]]) simp
  moreover have "funds_ok ?d" using market_okD(4) [OF ok] M(1) b(1,3) by (auto simp: funds_ok_def fund_ok_def has_settlement_def)
  moreover have "db_ok ?d" using market_okD(1) [OF ok] M(2) by (simp add: db_ok_def assets_ok_def)
  ultimately show ?thesis using ok e same_chain_links [OF s] by (simp add: market_ok_def options_ok_def orders_ok_def)
qed

lemma pay_from_fund_market:
  assumes F: "fc_lib_ok F" and ok: "market_ok d" and b: "index_find (bitassets d) bi = Some b" "has_settlement b"
    and id: "asset_id settled = short_backing_asset (bit_options b)" and run: "pay_from_fund F who bi settled d = Inr d'"
  shows "market_ok d' \<and> excess d' = excess d \<and> same_clock d d'"
proof (cases "amount settled > 0")
  case True
  let ?m = "\<lambda>b. rbind (of_option Overflow (safe_sub F (settlement_fund b) (amount settled))) (\<lambda>n. Inr (b\<lparr>settlement_fund := n\<rparr>))"
  obtain ix where 1: "ix_modify bi ?m (bitassets d) = Inr ix" and 2: "adjust_balance F who settled (d\<lparr>bitassets := ix\<rparr>) = Inr d'"
    using run True by (auto simp: pay_from_fund_def)
  have m: "?m b = Inr (b\<lparr>settlement_fund := settlement_fund b - amount settled\<rparr>)"
    using 1 b(1) by (auto simp: ix_modify_def index_get_def fc_safe_simps [OF F])
  note M = modify_fund_market [OF ok 1 b(1) m b(2)]
  note f = adjust_balance_flow [OF F market_okD(1) [OF conjunct1 [OF M]] 2]
  have "market_ok d'" by (rule flow_market_ok [OF f conjunct1 [OF M]])
  moreover have "excess d' a = excess d a" for a using M f id by (simp add: flow_def if_asset_def)
  ultimately show ?thesis using flow_clock [OF f] by (simp add: fun_eq_iff)
next
  case False
  then show ?thesis using run ok by (simp add: pay_from_fund_def)
qed

lemma create_settlement_market:
  assumes ok: "market_ok d" and c: "ix_create s (force_settlements d) = (i, ix)"
  shows "market_ok (d\<lparr>force_settlements := ix\<rparr>) \<and> (\<forall>a. excess (d\<lparr>force_settlements := ix\<rparr>) a = excess d a + if_asset a (fs_balance s))"
proof -
  let ?d = "d\<lparr>force_settlements := ix\<rparr>"
  have "ix_ok (force_settlements d)" using market_okD(1) [OF ok] by (simp add: db_ok_def)
  note C = ix_create_facts [OF this c]
  have "excess ?d a = excess d a + if_asset a (fs_balance s)" for a using C by (simp add: excess_defs)
  moreover have "db_ok ?d" using market_okD(1) [OF ok] C by (simp add: db_ok_def assets_ok_def)
  moreover have "backed ?d = backed d" by (rule backed_cong) simp_all
  moreover have "links_ok ?d = links_ok d" by (rule links_cong) simp_all
  ultimately show ?thesis using ok by (simp add: market_ok_def options_ok_def orders_ok_def funds_ok_def calls_ok_def bids_ok_def)
qed

lemma settle_from_fund:
  assumes F: "fc_lib_ok F" and ok: "market_ok d" and b: "index_find (bitassets d) bi = Some b" "has_settlement b"
    and ids: "asset_id settled = short_backing_asset (bit_options b)"
    and run: "asset_neg F pays = Inr neg" "adjust_balance F who neg d = Inr d1" "pay_from_fund F who bi settled d1 = Inr d2"
      "reduce_supply F (asset_id pays) (amount pays) d2 = Inr d'"
  shows "market_ok d' \<and> excess d' = excess d \<and> same_clock d d'"
proof -
  have neg: "neg = mk_asset (- amount pays) (asset_id pays)" using run(1) by (auto simp: asset_neg_def fc_safe_simps [OF F])
  note f1 = adjust_balance_flow [OF F market_okD(1) [OF ok] run(2)]
  have ok1: "market_ok d1" by (rule flow_market_ok [OF f1 ok])
  have "index_find (bitassets d1) bi = Some b" using b(1) flow_keeps [OF f1] by simp
  note P = pay_from_fund_market [OF F ok1 this b(2) ids run(3)]
  note f3 = reduce_supply_flow [OF F market_okD(1) [OF conjunct1 [OF P]] run(4)]
  have "market_ok d'" by (rule flow_market_ok [OF f3 conjunct1 [OF P]])
  moreover have "excess d' a = excess d a" for a using f1 P f3 by (simp add: flow_def neg if_asset_def)
  ultimately show ?thesis using P flow_clock [OF f1] flow_clock [OF f3] by (simp add: fun_eq_iff)
qed

lemma asset_settle_apply:
  assumes F: "fc_lib_ok F" and ok: "market_ok d" and run: "asset_settle_do_apply F op d = Inr (r, d')"
  shows "market_ok d' \<and> excess d' = excess d \<and> same_clock d d'"
proof -
  let ?x = "as_amount op"
  obtain a bi b where a: "index_find (assets d) (asset_id ?x) = Some a" "bitasset_data_id a = Some bi" "index_find (bitassets d) bi = Some b"
    using run by (auto simp: asset_settle_do_apply_def)
  have id: "bit_asset_id b = asset_id ?x" using market_okD(7) [OF ok] a by (fastforce simp: links_ok_def)
  have fb: "fund_ok b" using market_okD(4) [OF ok] a(3) by (auto simp: funds_ok_def)
  show ?thesis
  proof (cases "has_settlement b")
    case True
    then obtain n settled pays neg d1 d2 where am: "settled_amounts op n b d = Inr (settled, pays)" and neg: "asset_neg F pays = Inr neg"
      and 1: "adjust_balance F (as_account op) neg d = Inr d1" and 2: "pay_from_fund F (as_account op) bi settled d1 = Inr d2"
      and 3: "reduce_supply F (asset_id ?x) (amount pays) d2 = Inr d'"
      using run a by (auto simp: asset_settle_do_apply_def index_get_def)
    note ids = settled_amounts_ids [OF fb True id am]
    show ?thesis using settle_from_fund [OF F ok a(3) True _ neg 1 2] ids 3 by simp
  next
    case False
    then obtain neg d1 where neg: "asset_neg F ?x = Inr neg" and 1: "adjust_balance F (as_account op) neg d = Inr d1"
      and 2: "(case ix_create \<lparr>fs_owner = as_account op, fs_balance = ?x,
                  settlement_date = head_block_time d1 + force_settlement_delay_sec (bit_options b)\<rparr> (force_settlements d1) of
            (i, ix) \<Rightarrow> Inr (Settle_order i, d1\<lparr>force_settlements := ix\<rparr>)) = (Inr (r, d') :: (settle_result \<times> database) result)"
      using run a by (auto simp: asset_settle_do_apply_def index_get_def simp del: if_split)
    obtain i ix where c: "ix_create \<lparr>fs_owner = as_account op, fs_balance = ?x,
                  settlement_date = head_block_time d1 + force_settlement_delay_sec (bit_options b)\<rparr> (force_settlements d1) = (i, ix)"
      by (rule prod.exhaust)
    have neg': "neg = mk_asset (- amount ?x) (asset_id ?x)" using neg by (auto simp: asset_neg_def fc_safe_simps [OF F])
    note f = adjust_balance_flow [OF F market_okD(1) [OF ok] 1]
    have "market_ok d1" by (rule flow_market_ok [OF f ok])
    from create_settlement_market [OF this c] 2 c f flow_clock [OF f] show ?thesis by (auto simp: flow_def neg' fun_eq_iff if_asset_def)
  qed
qed

interpretation asset_settle: plain_market_operation F S "\<lambda>_. True" "asset_settle_do_apply F op" for F S op
  by unfold_locales (rule asset_settle_apply)

section \<open>Feeds and options\<close>

text \<open>What a change of a bitasset has to leave alone.\<close>

definition same_terms :: "asset_bitasset_data_object \<Rightarrow> asset_bitasset_data_object \<Rightarrow> bool" where
  "same_terms b b' \<longleftrightarrow> bit_asset_id b' = bit_asset_id b \<and> short_backing_asset (bit_options b') = short_backing_asset (bit_options b) \<and>
     bit_settlement_price b' = bit_settlement_price b \<and> settlement_fund b' = settlement_fund b"

lemma modify_terms_market:
  assumes ok: "market_ok d" and run: "modify_bitasset bi f d = Inr d'"
    and f: "\<And>b. index_find (bitassets d) bi = Some b \<Longrightarrow> same_terms b (f b)"
  shows "market_ok d' \<and> excess d' = excess d \<and> same_clock d d' \<and> (\<exists>ix. d' = d\<lparr>bitassets := ix\<rparr>)"
proof -
  obtain ix where ix: "ix_modify bi (\<lambda>b. Inr (f b)) (bitassets d) = Inr ix" "d' = d\<lparr>bitassets := ix\<rparr>"
    using run by (auto simp: modify_bitasset_def)
  have iok: "ix_ok (bitassets d)" using market_okD(1) [OF ok] by (simp add: db_ok_def assets_ok_def)
  obtain b b' where b: "index_find (bitassets d) bi = Some b" "Inr (f b) = (Inr b' :: asset_bitasset_data_object result)"
      "index_find ix = (index_find (bitassets d))(bi \<mapsto> b')" "ix_ok ix" "\<And>f. ix_sum f ix = ix_sum f (bitassets d) + f b' - f b"
    using ix_modifyE [OF iok ix(1)] by metis
  have t: "same_terms b b'" using f [OF b(1)] b(2) by simp
  have "excess d' a = excess d a" for a using b(5) t by (simp add: excess_defs ix(2) same_terms_def)
  moreover have "map_option (\<lambda>b. short_backing_asset (bit_options b)) (index_find ix i) =
      map_option (\<lambda>b. short_backing_asset (bit_options b)) (index_find (bitassets d) i)" for i
    using b(1,3) t by (simp add: same_terms_def)
  then have "backed d' = backed d" by (simp add: fun_eq_iff backed_backing backing_def ix(2))
  moreover have "db_ok d'" using market_okD(1) [OF ok] b(4) by (simp add: db_ok_def assets_ok_def ix(2))
  moreover have "funds_ok d'" using market_okD(4) [OF ok] b(1,3) t ix(2) by (auto simp: funds_ok_def fund_ok_def has_settlement_def same_terms_def)
  moreover have "links_ok d'" using market_okD(7) [OF ok] b(1,3) t ix(2) unfolding links_ok_def same_terms_def by fastforce
  ultimately show ?thesis
    using ok ix(2) by (auto simp: market_ok_def options_ok_def orders_ok_def calls_ok_def bids_ok_def fun_eq_iff)
qed

lemma update_median_feeds_terms: "same_terms b (update_median_feeds N t b)"
  by (simp add: same_terms_def update_median_feeds_def Let_def)

lemma same_terms_trans: "same_terms b b1 \<Longrightarrow> same_terms b1 b2 \<Longrightarrow> same_terms b b2"
  by (simp add: same_terms_def)

lemma publish_feed_terms: "same_terms b (publish_feed_object N op d b)"
  unfolding publish_feed_object_def by (rule same_terms_trans [OF _ update_median_feeds_terms]) (simp add: same_terms_def)

lemma update_feed_producers_terms: "same_terms b (update_feed_producers_object N op d b)"
  unfolding update_feed_producers_object_def by (rule same_terms_trans [OF _ update_median_feeds_terms]) (simp add: same_terms_def)

lemma update_bitasset_terms:
  assumes "short_backing_asset (ub_new_options op) = short_backing_asset (bit_options b)"
  shows "same_terms b (fst (update_bitasset_object_options N op d a b))"
  using assms update_median_feeds_terms [of _ N "head_block_time d"] same_terms_trans
  by (auto simp: update_bitasset_object_options_def Let_def) (auto simp: same_terms_def)

lemma checked_market:
  assumes "fc_lib_ok F" and "market_ok d" and "check_call_orders F n mia True False d = Inr (c, d')"
  shows "market_ok d' \<and> excess d' = excess d \<and> same_clock d d'"
  by (rule market_step_kept [OF check_call_orders_step [OF assms]])

lemma asset_publish_feed_apply:
  assumes F: "fc_lib_ok F" and ok: "market_ok d" and run: "asset_publish_feed_do_apply F N n op d = Inr (u, d')"
  shows "market_ok d' \<and> excess d' = excess d \<and> same_clock d d'"
proof -
  obtain a :: asset_object and bi d1 and old bad :: asset_bitasset_data_object where m: "modify_bitasset bi (publish_feed_object N op d) d = Inr d1"
    and 1: "(if price_feed_eq (current_feed old) (current_feed bad) then Inr ((), d1)
     else rbind (if has_settlement bad
                 then rbind (index_get (asset_dyn_data d1) (dynamic_asset_data_id a)) (\<lambda>dyn.
                      rbind (revivable F (pf_asset_id op) (current_supply dyn) bad) (\<lambda>revive.
                      if revive then revive_bitasset F (pf_asset_id op) d1 else Inr d1))
                 else Inr d1) (\<lambda>d2.
          rbind (check_call_orders F n (pf_asset_id op) True False d2) (\<lambda>(_, d3).
          Inr ((), d3)))) = Inr (u, d')"
    using run unfolding asset_publish_feed_do_apply_def rbind_eq_Inr by (elim exE conjE) (rule that, assumption+)
  note M = modify_terms_market [OF ok m publish_feed_terms]
  show ?thesis
  proof (cases "price_feed_eq (current_feed old) (current_feed bad)")
    case True
    then show ?thesis using 1 M by simp
  next
    case False
    then obtain d2 c where r: "d2 = d1 \<or> revive_bitasset F (pf_asset_id op) d1 = Inr d2"
      and c: "check_call_orders F n (pf_asset_id op) True False d2 = Inr (c, d')"
      using 1 by (auto split: if_splits)
    have "market_ok d2 \<and> excess d2 = excess d1 \<and> same_clock d1 d2"
      using r M revive_bitasset_step [OF F conjunct1 [OF M]] market_step_kept by blast
    then show ?thesis using checked_market [OF F _ c] M by simp
  qed
qed

interpretation asset_publish_feed: plain_market_operation F S "\<lambda>_. True" "asset_publish_feed_do_apply F N n op" for F S N n op
  by unfold_locales (rule asset_publish_feed_apply)

lemma asset_update_feed_producers_apply:
  assumes F: "fc_lib_ok F" and ok: "market_ok d" and run: "asset_update_feed_producers_do_apply F N n op d = Inr (u, d')"
  shows "market_ok d' \<and> excess d' = excess d \<and> same_clock d d'"
proof -
  obtain bi d1 c where m: "modify_bitasset bi (update_feed_producers_object N op d) d = Inr d1"
    and c: "check_call_orders F n (up_asset_to_update op) True False d1 = Inr (c, d')"
    using run by (auto simp: asset_update_feed_producers_do_apply_def asset_update_feed_producers_map_def)
  note M = modify_terms_market [OF ok m update_feed_producers_terms]
  show ?thesis using checked_market [OF F conjunct1 [OF M] c] M by simp
qed

interpretation asset_update_feed_producers: plain_market_operation F S "\<lambda>_. True" "asset_update_feed_producers_do_apply F N n op" for F S N n op
  by unfold_locales (rule asset_update_feed_producers_apply)

text \<open>New options of a bitasset that leave its backing asset.\<close>

definition keeps_backing :: "asset_update_bitasset_operation \<Rightarrow> database \<Rightarrow> bool" where
  "keeps_backing op d \<longleftrightarrow> backing d (ub_asset_to_update op) = Some (short_backing_asset (ub_new_options op))"

lemma asset_update_bitasset_apply:
  assumes F: "fc_lib_ok F" and ok: "market_ok d" and k: "keeps_backing op d" and run: "asset_update_bitasset_do_apply F N n op d = Inr (u, d')"
  shows "market_ok d' \<and> excess d' = excess d \<and> same_clock d d'"
proof -
  obtain a bi b d1 where a: "index_find (assets d) (ub_asset_to_update op) = Some a" "bitasset_data_id a = Some bi" "index_find (bitassets d) bi = Some b"
    and m: "modify_bitasset bi (\<lambda>b. fst (update_bitasset_object_options N op d a b)) d = Inr d1"
    and c: "(if snd (update_bitasset_object_options N op d a b)
     then rbind (check_call_orders F n (ub_asset_to_update op) True False d1) (\<lambda>(_, d2). Inr ((), d2)) else Inr ((), d1)) = Inr (u, d')"
    using run by (auto simp: asset_update_bitasset_do_apply_def simp del: if_split)
  have "same_terms b' (fst (update_bitasset_object_options N op d a b'))" if "index_find (bitassets d) bi = Some b'" for b'
    using that k a by (intro update_bitasset_terms) (simp add: keeps_backing_def backing_def)
  note M = modify_terms_market [OF ok m this]
  show ?thesis using c M checked_market [OF F conjunct1 [OF M]] by (auto split: if_splits)
qed

lemma keeps_backing_cong: "money_only d d' \<Longrightarrow> keeps_backing op d' = keeps_backing op d"
  by (simp add: keeps_backing_def backing_def money_only_def)

interpretation asset_update_bitasset: plain_market_operation F S "keeps_backing op" "asset_update_bitasset_do_apply F N n op" for F S N n op
  by unfold_locales (use asset_update_bitasset_apply keeps_backing_cong in blast)

end
