(* ===== verification/Withdrawals.thy ===== *)
theory Withdrawals
  imports Ops_Proofs
begin

text \<open>
  Withdrawal permissions (\<^verbatim>\<open>withdraw_permission_evaluator.cpp\<close>, \<^verbatim>\<open>withdraw_permission_object.hpp\<close>,
  \<^verbatim>\<open>protocol/withdraw_permission.cpp\<close>) and the operations on vesting balances (\<^verbatim>\<open>vesting_balance_evaluator.cpp\<close>,
  \<^verbatim>\<open>protocol/vesting.hpp\<close>).

  Times and periods are 32-bit words and wrap. The number of periods passed is the quotient of an exact
  difference of times, truncated towards zero; \<^verbatim>\<open>validate\<close> keeps the period from being zero.
\<close>

section \<open>Withdrawal permissions\<close>

record withdraw_permission_create_operation =
  wc_fee :: asset
  wc_withdraw_from_account :: nat
  wc_authorized_account :: nat
  wc_withdrawal_limit :: asset
  wc_withdrawal_period_sec :: "32 word"
  wc_periods_until_expiration :: "32 word"
  wc_period_start_time :: time

definition withdraw_permission_create_validate :: "withdraw_permission_create_operation \<Rightarrow> unit result" where
  "withdraw_permission_create_validate op =
     require (amount (wc_fee op) \<ge> 0) Assert_failed
     (require (wc_withdraw_from_account op \<noteq> wc_authorized_account op) Assert_failed
     (require (amount (wc_withdrawal_limit op) > 0) Assert_failed
     (require (wc_withdrawal_period_sec op > 0) Assert_failed
     (require (wc_periods_until_expiration op > 0) Assert_failed (Inr ())))))"

definition withdraw_permission_create_do_evaluate :: "withdraw_permission_create_operation \<Rightarrow> database \<Rightarrow> unit result" where
  "withdraw_permission_create_do_evaluate op d =
     require (index_find (accounts d) (wc_withdraw_from_account op) \<noteq> None) Assert_failed
     (require (index_find (accounts d) (wc_authorized_account op) \<noteq> None) Assert_failed
     (require (index_find (assets d) (asset_id (wc_withdrawal_limit op)) \<noteq> None) Assert_failed
     (require (wc_period_start_time op > head_block_time d) Assert_failed
     (require (wc_period_start_time op + wc_periods_until_expiration op * wc_withdrawal_period_sec op > head_block_time d) Assert_failed
     (require (wc_withdrawal_period_sec op \<ge> block_interval (parameters d)) Assert_failed (Inr ()))))))"

definition withdraw_permission_create_do_apply :: "withdraw_permission_create_operation \<Rightarrow> database \<Rightarrow> (nat \<times> database) result" where
  "withdraw_permission_create_do_apply op d =
     (case ix_create \<lparr>withdraw_from_account = wc_withdraw_from_account op, authorized_account = wc_authorized_account op,
             withdrawal_limit = wc_withdrawal_limit op, withdrawal_period_sec = wc_withdrawal_period_sec op,
             period_start_time = wc_period_start_time op,
             expiration = wc_period_start_time op + wc_periods_until_expiration op * wc_withdrawal_period_sec op,
             claimed_this_period = 0\<rparr> (withdraw_permissions d) of
        (i, ix) \<Rightarrow> Inr (i, d\<lparr>withdraw_permissions := ix\<rparr>))"

definition available_this_period :: "fc_lib \<Rightarrow> withdraw_permission_object \<Rightarrow> time \<Rightarrow> asset result" where
  "available_this_period F p now =
     (if now \<ge> period_start_time p + withdrawal_period_sec p then Inr (withdrawal_limit p)
      else if amount (withdrawal_limit p) > claimed_this_period p
      then rbind (of_option Overflow (safe_sub F (amount (withdrawal_limit p)) (claimed_this_period p))) (\<lambda>n.
           Inr (mk_asset n (asset_id (withdrawal_limit p))))
      else Inr (mk_asset 0 (asset_id (withdrawal_limit p))))"

record withdraw_permission_claim_operation =
  wl_fee :: asset
  wl_withdraw_permission :: nat
  wl_withdraw_from_account :: nat
  wl_withdraw_to_account :: nat
  wl_amount_to_withdraw :: asset

definition withdraw_permission_claim_validate :: "withdraw_permission_claim_operation \<Rightarrow> unit result" where
  "withdraw_permission_claim_validate op =
     require (wl_withdraw_to_account op \<noteq> wl_withdraw_from_account op) Assert_failed
     (require (amount (wl_amount_to_withdraw op) > 0) Assert_failed
     (require (amount (wl_fee op) \<ge> 0) Assert_failed (Inr ())))"

definition withdraw_permission_claim_do_evaluate :: "fc_lib \<Rightarrow> withdraw_permission_claim_operation \<Rightarrow> database \<Rightarrow> unit result" where
  "withdraw_permission_claim_do_evaluate F op d =
     rbind (index_get (withdraw_permissions d) (wl_withdraw_permission op)) (\<lambda>permit.
     require (expiration permit > head_block_time d) Assert_failed
     (require (authorized_account permit = wl_withdraw_to_account op) Assert_failed
     (require (withdraw_from_account permit = wl_withdraw_from_account op) Assert_failed
     (require (head_block_time d \<ge> HARDFORK_23_TIME \<longrightarrow> period_start_time permit \<le> head_block_time d) Assert_failed
     (rbind (available_this_period F permit (head_block_time d)) (\<lambda>available.
      rbind (asset_le (wl_amount_to_withdraw op) available) (\<lambda>enough.
      require enough Assert_failed
      (require (amount (get_balance d (wl_withdraw_from_account op) (asset_id (wl_amount_to_withdraw op))) \<ge> amount (wl_amount_to_withdraw op)) Assert_failed
      (rbind (index_get (assets d) (asset_id (wl_amount_to_withdraw op))) (\<lambda>a.
       require (is_transfer_restricted a \<longrightarrow> issuer a = authorized_account permit \<or> issuer a = withdraw_from_account permit) Assert_failed
       (rbind (index_get (accounts d) (authorized_account permit)) (\<lambda>to_account.
        require (is_authorized_asset d to_account (asset_id (wl_amount_to_withdraw op)) a) Assert_failed
        (rbind (index_get (accounts d) (wl_withdraw_from_account op)) (\<lambda>from_account.
         require (head_block_time d > HARDFORK_CORE_942_TIME \<longrightarrow> is_authorized_asset d from_account (asset_id (wl_amount_to_withdraw op)) a) Assert_failed
         (Inr ())))))))))))))))"

definition trunc_div :: "int \<Rightarrow> int \<Rightarrow> int" where
  "trunc_div a b = (if a < 0 then - ((- a) div b) else a div b)"

definition claim_permission :: "fc_lib \<Rightarrow> int \<Rightarrow> time \<Rightarrow> withdraw_permission_object \<Rightarrow> withdraw_permission_object result" where
  "claim_permission F n now p =
     (let periods = trunc_div (uint now - uint (period_start_time p)) (uint (withdrawal_period_sec p));
          p1 = p\<lparr>period_start_time := period_start_time p + of_int periods * withdrawal_period_sec p\<rparr>
      in if periods = 0
         then rbind (of_option Overflow (safe_add F (claimed_this_period p1) n)) (\<lambda>c. Inr (p1\<lparr>claimed_this_period := c\<rparr>))
         else Inr (p1\<lparr>claimed_this_period := n\<rparr>))"

definition withdraw_permission_claim_do_apply :: "fc_lib \<Rightarrow> withdraw_permission_claim_operation \<Rightarrow> database \<Rightarrow> (unit \<times> database) result" where
  "withdraw_permission_claim_do_apply F op d =
     rbind (ix_modify (wl_withdraw_permission op) (claim_permission F (amount (wl_amount_to_withdraw op)) (head_block_time d))
              (withdraw_permissions d)) (\<lambda>ix.
     move_balance F (wl_withdraw_from_account op) (wl_withdraw_to_account op) (wl_amount_to_withdraw op) (d\<lparr>withdraw_permissions := ix\<rparr>))"

record withdraw_permission_update_operation =
  wu_fee :: asset
  wu_withdraw_from_account :: nat
  wu_authorized_account :: nat
  wu_permission_to_update :: nat
  wu_withdrawal_limit :: asset
  wu_withdrawal_period_sec :: "32 word"
  wu_period_start_time :: time
  wu_periods_until_expiration :: "32 word"

definition withdraw_permission_update_validate :: "withdraw_permission_update_operation \<Rightarrow> unit result" where
  "withdraw_permission_update_validate op =
     require (amount (wu_withdrawal_limit op) > 0) Assert_failed
     (require (amount (wu_fee op) \<ge> 0) Assert_failed
     (require (wu_withdrawal_period_sec op > 0) Assert_failed
     (require (wu_withdraw_from_account op \<noteq> wu_authorized_account op) Assert_failed
     (require (wu_periods_until_expiration op > 0) Assert_failed (Inr ())))))"

definition withdraw_permission_update_do_evaluate :: "withdraw_permission_update_operation \<Rightarrow> database \<Rightarrow> unit result" where
  "withdraw_permission_update_do_evaluate op d =
     rbind (index_get (withdraw_permissions d) (wu_permission_to_update op)) (\<lambda>permit.
     require (authorized_account permit = wu_authorized_account op) Assert_failed
     (require (withdraw_from_account permit = wu_withdraw_from_account op) Assert_failed
     (require (index_find (assets d) (asset_id (wu_withdrawal_limit op)) \<noteq> None) Assert_failed
     (require (wu_period_start_time op \<ge> head_block_time d) Assert_failed
     (require (wu_period_start_time op + wu_periods_until_expiration op * wu_withdrawal_period_sec op > head_block_time d) Assert_failed
     (require (wu_withdrawal_period_sec op \<ge> block_interval (parameters d)) Assert_failed (Inr ())))))))"

definition withdraw_permission_update_do_apply :: "withdraw_permission_update_operation \<Rightarrow> database \<Rightarrow> (unit \<times> database) result" where
  "withdraw_permission_update_do_apply op d =
     rbind (ix_modify (wu_permission_to_update op) (\<lambda>p. Inr (p\<lparr>period_start_time := wu_period_start_time op,
              expiration := wu_period_start_time op + wu_periods_until_expiration op * wu_withdrawal_period_sec op,
              withdrawal_limit := wu_withdrawal_limit op, withdrawal_period_sec := wu_withdrawal_period_sec op\<rparr>))
              (withdraw_permissions d)) (\<lambda>ix.
     Inr ((), d\<lparr>withdraw_permissions := ix\<rparr>))"

record withdraw_permission_delete_operation =
  wd_fee :: asset
  wd_withdraw_from_account :: nat
  wd_authorized_account :: nat
  wd_withdrawal_permission :: nat

definition withdraw_permission_delete_validate :: "withdraw_permission_delete_operation \<Rightarrow> unit result" where
  "withdraw_permission_delete_validate op =
     require (amount (wd_fee op) \<ge> 0) Assert_failed
     (require (wd_withdraw_from_account op \<noteq> wd_authorized_account op) Assert_failed (Inr ()))"

definition withdraw_permission_delete_do_evaluate :: "withdraw_permission_delete_operation \<Rightarrow> database \<Rightarrow> unit result" where
  "withdraw_permission_delete_do_evaluate op d =
     rbind (index_get (withdraw_permissions d) (wd_withdrawal_permission op)) (\<lambda>permit.
     require (authorized_account permit = wd_authorized_account op) Assert_failed
     (require (withdraw_from_account permit = wd_withdraw_from_account op) Assert_failed (Inr ())))"

definition withdraw_permission_delete_do_apply :: "withdraw_permission_delete_operation \<Rightarrow> database \<Rightarrow> (unit \<times> database) result" where
  "withdraw_permission_delete_do_apply op d =
     rbind (index_remove (wd_withdrawal_permission op) (withdraw_permissions d)) (\<lambda>ix. Inr ((), d\<lparr>withdraw_permissions := ix\<rparr>))"

section \<open>Vesting balances\<close>

datatype vesting_policy_initializer =
    Linear_initializer time "32 word" "32 word"
  | Cdd_initializer time "32 word"

fun init_policy :: "int \<Rightarrow> time \<Rightarrow> vesting_policy_initializer \<Rightarrow> vesting_policy" where
  "init_policy init_balance now (Linear_initializer begin_time cliff duration) =
     Linear \<lparr>begin_timestamp = begin_time, vesting_cliff_seconds = cliff, vesting_duration_seconds = duration, begin_balance = init_balance\<rparr>"
| "init_policy init_balance now (Cdd_initializer claim seconds) =
     Cdd \<lparr>vesting_seconds = seconds, coin_seconds_earned = 0, start_claim = claim, coin_seconds_earned_last_update = now\<rparr>"

record vesting_balance_create_operation =
  vc_fee :: asset
  vc_creator :: nat
  vc_owner :: nat
  vc_amount :: asset
  vc_policy :: vesting_policy_initializer

definition vesting_balance_create_validate :: "vesting_balance_create_operation \<Rightarrow> unit result" where
  "vesting_balance_create_validate op =
     require (amount (vc_fee op) \<ge> 0) Assert_failed (require (amount (vc_amount op) > 0) Assert_failed (Inr ()))"

definition vesting_balance_create_do_evaluate :: "vesting_balance_create_operation \<Rightarrow> database \<Rightarrow> unit result" where
  "vesting_balance_create_do_evaluate op d =
     rbind (index_get (accounts d) (vc_creator op)) (\<lambda>_.
     rbind (index_get (accounts d) (vc_owner op)) (\<lambda>_.
     require (amount (vc_amount op) > 0) Assert_failed
     (require (amount (get_balance d (vc_creator op) (asset_id (vc_amount op))) \<ge> amount (vc_amount op)) Assert_failed
     (rbind (index_get (assets d) (asset_id (vc_amount op))) (\<lambda>a.
      require (\<not> is_transfer_restricted a) Assert_failed (Inr ()))))))"

definition vesting_balance_create_do_apply :: "fc_lib \<Rightarrow> vesting_balance_create_operation \<Rightarrow> database \<Rightarrow> (nat \<times> database) result" where
  "vesting_balance_create_do_apply F op d =
     require (amount (get_balance d (vc_creator op) (asset_id (vc_amount op))) \<ge> amount (vc_amount op)) Assert_failed
     (rbind (asset_neg F (vc_amount op)) (\<lambda>neg.
      rbind (adjust_balance F (vc_creator op) neg d) (\<lambda>d1.
      case ix_create \<lparr>vb_owner = vc_owner op, vb_balance = vc_amount op,
              vb_policy = init_policy (amount (vc_amount op)) (head_block_time d) (vc_policy op)\<rparr> (vesting_balances d1) of
        (i, ix) \<Rightarrow> Inr (i, d1\<lparr>vesting_balances := ix\<rparr>))))"

record vesting_balance_withdraw_operation =
  vw_fee :: asset
  vw_vesting_balance :: nat
  vw_owner :: nat
  vw_amount :: asset

definition vesting_balance_withdraw_validate :: "vesting_balance_withdraw_operation \<Rightarrow> unit result" where
  "vesting_balance_withdraw_validate op =
     require (amount (vw_fee op) \<ge> 0) Assert_failed (require (amount (vw_amount op) > 0) Assert_failed (Inr ()))"

definition vesting_balance_withdraw_do_evaluate :: "fc_lib \<Rightarrow> vesting_balance_withdraw_operation \<Rightarrow> database \<Rightarrow> unit result" where
  "vesting_balance_withdraw_do_evaluate F op d =
     rbind (index_get (vesting_balances d) (vw_vesting_balance op)) (\<lambda>vbo.
     require (vw_owner op = vb_owner vbo) Assert_failed
     (rbind (vb_is_withdraw_allowed F vbo (head_block_time d) (vw_amount op)) (\<lambda>allowed.
      require allowed Assert_failed
      (rbind (index_get (accounts d) (vw_owner op)) (\<lambda>_. Inr ())))))"

definition vesting_balance_withdraw_do_apply :: "fc_lib \<Rightarrow> vesting_balance_withdraw_operation \<Rightarrow> database \<Rightarrow> (unit \<times> database) result" where
  "vesting_balance_withdraw_do_apply F op d =
     rbind (ix_modify (vw_vesting_balance op) (\<lambda>v. vb_withdraw F v (head_block_time d) (vw_amount op)) (vesting_balances d)) (\<lambda>ix.
     rbind (adjust_balance F (vw_owner op) (vw_amount op) (d\<lparr>vesting_balances := ix\<rparr>)) (\<lambda>d1.
     Inr ((), d1)))"

section \<open>Value\<close>

lemma market_frame:
  assumes "market_ok d" and "db_ok d'" and "assets d' = assets d" and "bitassets d' = bitassets d" and "limit_orders d' = limit_orders d"
    and "call_orders d' = call_orders d" and "collateral_bids d' = collateral_bids d"
  shows "market_ok d'"
  using assms backed_cong [OF assms(3,4)] links_cong [OF assms(3,4)]
  by (simp add: market_ok_def options_ok_def orders_ok_def funds_ok_def calls_ok_def bids_ok_def)

lemma permissions_market:
  assumes ok: "market_ok d" and "ix_ok ix"
  shows "market_ok (d\<lparr>withdraw_permissions := ix\<rparr>) \<and> excess (d\<lparr>withdraw_permissions := ix\<rparr>) = excess d"
proof -
  have "db_ok (d\<lparr>withdraw_permissions := ix\<rparr>)" using market_okD(1) [OF ok] assms(2) by (simp add: db_ok_def assets_ok_def)
  from market_frame [OF ok this] show ?thesis by (simp add: excess_defs fun_eq_iff)
qed

lemma permissions_ok: "market_ok d \<Longrightarrow> ix_ok (withdraw_permissions d)"
  using market_okD(1) by (simp add: db_ok_def)

lemma move_balance_market:
  assumes F: "fc_lib_ok F" and ok: "market_ok d" and run: "move_balance F p q x d = Inr (u, d')"
  shows "market_ok d' \<and> excess d' = excess d \<and> same_clock d d'"
proof -
  note M = move_balance_effect [OF F market_okD(1) [OF ok] run]
  show ?thesis using market_frame [OF ok M(1)] M(2,4) by auto
qed

interpretation withdraw_permission_create: plain_market_operation F S "\<lambda>_. True" "withdraw_permission_create_do_apply op" for F S op
proof unfold_locales
  fix d d' r
  assume ok: "market_ok d" and run: "withdraw_permission_create_do_apply op d = Inr (r, d')"
  then obtain w ix where "ix_create w (withdraw_permissions d) = (r, ix)" "d' = d\<lparr>withdraw_permissions := ix\<rparr>"
    by (auto simp: withdraw_permission_create_do_apply_def split: prod.splits)
  then show "market_ok d' \<and> excess d' = excess d \<and> same_clock d d'"
    using ix_create_facts [OF permissions_ok [OF ok]] permissions_market [OF ok, of ix] by fastforce
qed

lemma modify_permission_market:
  assumes ok: "market_ok d" and "ix_modify i m (withdraw_permissions d) = Inr ix"
  shows "market_ok (d\<lparr>withdraw_permissions := ix\<rparr>) \<and> excess (d\<lparr>withdraw_permissions := ix\<rparr>) = excess d"
  using permissions_market [OF ok] ix_modifyE [OF permissions_ok [OF ok] assms(2)] by metis

interpretation withdraw_permission_claim: plain_market_operation F S "\<lambda>_. True" "withdraw_permission_claim_do_apply F op" for F S op
proof unfold_locales
  fix d d' r
  assume F: "fc_lib_ok F" and ok: "market_ok d" and run: "withdraw_permission_claim_do_apply F op d = Inr (r, d')"
  then obtain ix where ix: "ix_modify (wl_withdraw_permission op) (claim_permission F (amount (wl_amount_to_withdraw op)) (head_block_time d)) (withdraw_permissions d) = Inr ix"
      "move_balance F (wl_withdraw_from_account op) (wl_withdraw_to_account op) (wl_amount_to_withdraw op) (d\<lparr>withdraw_permissions := ix\<rparr>) = Inr (r, d')"
    by (auto simp: withdraw_permission_claim_do_apply_def)
  note M = modify_permission_market [OF ok ix(1)]
  show "market_ok d' \<and> excess d' = excess d \<and> same_clock d d'" using move_balance_market [OF F conjunct1 [OF M] ix(2)] M by simp
qed

interpretation withdraw_permission_update: plain_market_operation F S "\<lambda>_. True" "withdraw_permission_update_do_apply op" for F S op
  by unfold_locales (use modify_permission_market in \<open>auto simp: withdraw_permission_update_do_apply_def\<close>)

interpretation withdraw_permission_delete: plain_market_operation F S "\<lambda>_. True" "withdraw_permission_delete_do_apply op" for F S op
proof unfold_locales
  fix d d' r
  assume ok: "market_ok d" and run: "withdraw_permission_delete_do_apply op d = Inr (r, d')"
  then obtain ix where ix: "index_remove (wd_withdrawal_permission op) (withdraw_permissions d) = Inr ix" "d' = d\<lparr>withdraw_permissions := ix\<rparr>"
    by (auto simp: withdraw_permission_delete_do_apply_def)
  have "ix_ok ix" using ix_removeE [OF permissions_ok [OF ok] ix(1)] by metis
  then show "market_ok d' \<and> excess d' = excess d \<and> same_clock d d'" using permissions_market [OF ok] ix(2) by simp
qed

lemma vesting_market:
  assumes ok: "market_ok d" and "ix_ok ix"
  shows "market_ok (d\<lparr>vesting_balances := ix\<rparr>)"
  using market_frame [OF ok vesting_upd(1) [OF market_okD(1) [OF ok] assms(2)]] by simp

interpretation vesting_balance_create: plain_market_operation F S "\<lambda>_. True" "vesting_balance_create_do_apply F op" for F S op
proof unfold_locales
  fix d d' r
  assume F: "fc_lib_ok F" and ok: "market_ok d" and run: "vesting_balance_create_do_apply F op d = Inr (r, d')"
  let ?v = "\<lparr>vb_owner = vc_owner op, vb_balance = vc_amount op, vb_policy = init_policy (amount (vc_amount op)) (head_block_time d) (vc_policy op)\<rparr>"
  obtain neg d1 where neg: "asset_neg F (vc_amount op) = Inr neg" and 1: "adjust_balance F (vc_creator op) neg d = Inr d1"
    and 2: "(case ix_create ?v (vesting_balances d1) of (i, ix) \<Rightarrow> Inr (i, d1\<lparr>vesting_balances := ix\<rparr>)) = (Inr (r, d') :: (nat \<times> database) result)"
    using run by (auto simp: vesting_balance_create_do_apply_def)
  then obtain ix where c: "ix_create ?v (vesting_balances d1) = (r, ix)" and d': "d' = d1\<lparr>vesting_balances := ix\<rparr>"
    by (cases "ix_create ?v (vesting_balances d1)") auto
  have neg': "neg = mk_asset (- amount (vc_amount op)) (asset_id (vc_amount op))" using neg by (auto simp: asset_neg_def fc_safe_simps [OF F])
  note f = adjust_balance_flow [OF F market_okD(1) [OF ok] 1]
  have iok: "ix_ok (vesting_balances d1)" using flow_ok [OF f] by (simp add: db_ok_def)
  note C = ix_create_facts [OF iok c]
  have "excess d' a = excess d a" for a
    using vesting_upd(2) [OF flow_ok [OF f]] C f by (simp add: d' flow_def neg' if_asset_def)
  then show "market_ok d' \<and> excess d' = excess d \<and> same_clock d d'" using vesting_market [OF flow_market_ok [OF f ok]] C flow_clock [OF f] by (simp add: d' fun_eq_iff)
qed

interpretation vesting_balance_withdraw: plain_market_operation F S "\<lambda>_. True" "vesting_balance_withdraw_do_apply F op" for F S op
proof unfold_locales
  fix d d' r
  assume F: "fc_lib_ok F" and ok: "market_ok d" and run: "vesting_balance_withdraw_do_apply F op d = Inr (r, d')"
  obtain ix where m: "ix_modify (vw_vesting_balance op) (\<lambda>v. vb_withdraw F v (head_block_time d) (vw_amount op)) (vesting_balances d) = Inr ix"
    and 1: "adjust_balance F (vw_owner op) (vw_amount op) (d\<lparr>vesting_balances := ix\<rparr>) = Inr d'"
    using run by (auto simp: vesting_balance_withdraw_do_apply_def)
  have iok: "ix_ok (vesting_balances d)" using market_okD(1) [OF ok] by (simp add: db_ok_def)
  obtain v v' where v: "vb_withdraw F v (head_block_time d) (vw_amount op) = Inr v'" "\<And>f. ix_sum f ix = ix_sum f (vesting_balances d) + f v' - f v" "ix_ok ix"
    using ix_modifyE [OF iok m] by metis
  have "if_asset a (vb_balance v') = if_asset a (vb_balance v) - if_asset a (vw_amount op)" for a
    using v(1) by (auto simp: vb_withdraw_def asset_minus_def fc_safe_simps [OF F] if_asset_def)
  then have e: "excess (d\<lparr>vesting_balances := ix\<rparr>) a = excess d a - if_asset a (vw_amount op)" for a
    using vesting_upd(2) [OF market_okD(1) [OF ok] v(3)] v(2) by simp
  have m1: "market_ok (d\<lparr>vesting_balances := ix\<rparr>)" by (rule vesting_market [OF ok v(3)])
  note f = adjust_balance_flow [OF F market_okD(1) [OF m1] 1]
  have "market_ok d'" by (rule flow_market_ok [OF f m1])
  then show "market_ok d' \<and> excess d' = excess d \<and> same_clock d d'" using f e flow_clock [OF f] by (simp add: flow_def fun_eq_iff)
qed

section \<open>Limits of withdrawals\<close>

lemma uint_time_add: "uint (a :: 32 word) + uint b < 2 ^ 32 \<Longrightarrow> uint (a + b) = uint a + uint b"
  using uint_plus_if' [of a b] by simp

text \<open>The end of the period wraps around when the start and the length of the period do not fit 32 bits: then the whole limit is available at any time, while a claim
  is still added to the period.\<close>

lemma wrapped_period_unlimited:
  assumes "period_start_time p \<le> now" and "2 ^ 32 \<le> uint (period_start_time p) + uint (withdrawal_period_sec p)"
  shows "available_this_period F p now = Inr (withdrawal_limit p)"
    and "trunc_div (uint now - uint (period_start_time p)) (uint (withdrawal_period_sec p)) = 0"
proof -
  have "uint (period_start_time p + withdrawal_period_sec p) = uint (period_start_time p) + uint (withdrawal_period_sec p) - 2 ^ 32"
    using assms(2) uint_plus_if' [of "period_start_time p" "withdrawal_period_sec p"] by simp
  moreover have "uint (withdrawal_period_sec p) < 2 ^ 32" "uint now < 2 ^ 32" using uint_lt2p [of "withdrawal_period_sec p"] uint_lt2p [of now] by simp_all
  moreover have "uint (period_start_time p) \<le> uint now" using assms(1) by (simp add: word_le_def)
  ultimately show "available_this_period F p now = Inr (withdrawal_limit p)"
    "trunc_div (uint now - uint (period_start_time p)) (uint (withdrawal_period_sec p)) = 0"
    using assms(2) by (simp_all add: available_this_period_def word_le_def trunc_div_def div_pos_pos_trivial)
qed

lemma claim_permission_limit:
  assumes F: "fc_lib_ok F" and p: "0 < withdrawal_period_sec p" and start: "period_start_time p \<le> now"
    and avail: "available_this_period F p now = Inr x" and n: "0 < n" "n \<le> amount x" and run: "claim_permission F n now p = Inr p'"
  shows "let start = uint (period_start_time p); start' = uint (period_start_time p'); period = uint (withdrawal_period_sec p); t = uint now in
     withdrawal_limit p' = withdrawal_limit p \<and> withdrawal_period_sec p' = withdrawal_period_sec p \<and>
     start' \<le> t \<and> t < start' + period \<and> period dvd start' - start \<and>
     claimed_this_period p' = (if t < start + period then claimed_this_period p else 0) + n \<and> n \<le> amount (withdrawal_limit p) - (if start + period < 2 ^ 32 \<and> t < start + period then claimed_this_period p else 0)"
proof -
  let ?s = "uint (period_start_time p)" and ?w = "uint (withdrawal_period_sec p)" and ?t = "uint now"
  let ?k = "(?t - ?s) div ?w"
  have w: "0 < ?w" using p by (simp add: word_less_def)
  have st: "?s \<le> ?t" using start by (simp add: word_le_def)
  have k: "0 \<le> ?k" "?k * ?w \<le> ?t - ?s" "?t - ?s < ?k * ?w + ?w"
    using st w by (simp_all add: pos_imp_zdiv_nonneg_iff minus_mod_eq_div_mult [symmetric])
  have kt: "?s + ?k * ?w < 2 ^ 32" using k(2) uint_lt2p [of now] by simp
  have "?s + ?k * ?w = (?s + ?k * ?w) mod 2 ^ 32" using kt k(1) w uint_ge_0 [of "period_start_time p"] by (intro mod_pos_pos_trivial [symmetric]) auto
  then have s': "uint (period_start_time p + of_int ?k * withdrawal_period_sec p) = ?s + ?k * ?w"
    by (simp add: uint_word_ariths uint_word_of_int mod_simps)
  have tr: "trunc_div (?t - ?s) ?w = ?k" using st by (simp add: trunc_div_def)
  have k0: "?k = 0 \<longleftrightarrow> ?t < ?s + ?w" using st w k by (auto simp: div_pos_pos_trivial)
  have ends: "period_start_time p + withdrawal_period_sec p \<le> now \<longleftrightarrow> \<not> ?t < ?s + ?w" if "?s + ?w < 2 ^ 32"
    using uint_time_add [OF that] by (simp add: word_le_def not_less)
  have lim: "n \<le> amount (withdrawal_limit p) - (if ?s + ?w < 2 ^ 32 \<and> ?t < ?s + ?w then claimed_this_period p else 0)"
  proof (cases "?s + ?w < 2 ^ 32")
    case True
    then show ?thesis using avail ends n by (auto simp: available_this_period_def fc_safe_simps [OF F] split: if_splits)
  next
    case False
    then show ?thesis using avail n wrapped_period_unlimited(1) [OF start, of F] by auto
  qed
  show ?thesis
  proof (cases "?t < ?s + ?w")
    case True
    then have "p' = p\<lparr>period_start_time := period_start_time p + of_int ?k * withdrawal_period_sec p, claimed_this_period := claimed_this_period p + n\<rparr>"
      using run tr k0 by (auto simp: claim_permission_def Let_def fc_safe_simps [OF F])
    then show ?thesis using s' k True k0 lim by (simp add: Let_def)
  next
    case False
    then have "p' = p\<lparr>period_start_time := period_start_time p + of_int ?k * withdrawal_period_sec p, claimed_this_period := n\<rparr>"
      using run tr k0 by (auto simp: claim_permission_def Let_def)
    then show ?thesis using s' k False lim by (simp add: Let_def)
  qed
qed

text \<open>C36. From hardfork 23 on, a withdrawal permission is a budget per period: a claim that passes evaluation moves exactly the amount from
  the account to the authorized account, adds it to what was claimed in the period that contains the time of the block (a new
  period starts from zero and begins a whole number of periods after the old one), and is itself within the limit. What is claimed in a period does not
  exceed the limit if the end of the period is within the 32 bits of the clock. A permission for which it is not may be created; its periods have no limit,
  only its single claims have.\<close>

theorem withdraw_claim_within_limit:
  assumes F: "fc_lib_ok F" and ok: "market_ok d" and hf: "head_block_time d \<ge> HARDFORK_23_TIME"
    and p: "index_find (withdraw_permissions d) (wl_withdraw_permission op) = Some p" "0 < withdrawal_period_sec p" "0 \<le> claimed_this_period p"
    and val: "withdraw_permission_claim_validate op = Inr ()" and ev: "withdraw_permission_claim_do_evaluate F op d = Inr ()"
    and run: "withdraw_permission_claim_do_apply F op d = Inr (u, d')"
  shows "\<exists>p'. let start = uint (period_start_time p); start' = uint (period_start_time p'); period = uint (withdrawal_period_sec p);
            t = uint (head_block_time d); x = wl_amount_to_withdraw op in
     index_find (withdraw_permissions d') = (index_find (withdraw_permissions d))(wl_withdraw_permission op \<mapsto> p') \<and>
     authorized_account p = wl_withdraw_to_account op \<and> withdraw_from_account p = wl_withdraw_from_account op \<and> t < uint (expiration p) \<and>
     asset_id x = asset_id (withdrawal_limit p) \<and>
     start' \<le> t \<and> t < start' + period \<and> period dvd start' - start \<and>
     claimed_this_period p' = (if t < start + period then claimed_this_period p else 0) + amount x \<and>
     amount x \<le> amount (withdrawal_limit p) \<and> (start + period < 2 ^ 32 \<longrightarrow> claimed_this_period p' \<le> amount (withdrawal_limit p)) \<and>
     market_ok d' \<and> excess d' = excess d \<and>
     (\<forall>who b. balance_of d' who b = balance_of d who b + (if b = asset_id x
        then (if who = wl_withdraw_to_account op then amount x else 0) - (if who = wl_withdraw_from_account op then amount x else 0) else 0))"
proof -
  let ?x = "wl_amount_to_withdraw op" and ?i = "wl_withdraw_permission op"
  obtain ix where m: "ix_modify ?i (claim_permission F (amount ?x) (head_block_time d)) (withdraw_permissions d) = Inr ix"
    and mv: "move_balance F (wl_withdraw_from_account op) (wl_withdraw_to_account op) ?x (d\<lparr>withdraw_permissions := ix\<rparr>) = Inr (u, d')"
    using run by (auto simp: withdraw_permission_claim_do_apply_def)
  obtain p' where c: "claim_permission F (amount ?x) (head_block_time d) p = Inr p'"
    and ix: "index_find ix = (index_find (withdraw_permissions d))(?i \<mapsto> p')"
    using ix_modifyE [OF permissions_ok [OF ok] m] p(1) by (metis option.inject)
  obtain x where x: "available_this_period F p (head_block_time d) = Inr x" "amount ?x \<le> amount x" "asset_id ?x = asset_id x"
    and e: "head_block_time d < expiration p" "authorized_account p = wl_withdraw_to_account op" "withdraw_from_account p = wl_withdraw_from_account op"
      "period_start_time p \<le> head_block_time d"
    using ev p(1) hf by (auto simp: withdraw_permission_claim_do_evaluate_def index_get_def asset_le_def asset_less_def)
  have id: "asset_id x = asset_id (withdrawal_limit p)" using x(1) by (auto simp: available_this_period_def split: if_splits)
  have n: "0 < amount ?x" using val by (simp add: withdraw_permission_claim_validate_def)
  note L = claim_permission_limit [OF F p(2) e(4) x(1) n x(2) c, unfolded Let_def]
  have lim: "amount ?x \<le> amount (withdrawal_limit p)"
    "uint (period_start_time p) + uint (withdrawal_period_sec p) < 2 ^ 32 \<longrightarrow> claimed_this_period p' \<le> amount (withdrawal_limit p)"
    using L p(3) by (auto split: if_splits)
  note M = modify_permission_market [OF ok m]
  note B = move_balance_effect [OF F market_okD(1) [OF conjunct1 [OF M]] mv]
  have bal: "balance_of (d\<lparr>withdraw_permissions := ix\<rparr>) = balance_of d" by (simp add: balance_of_def find_balance_def get_balance_def fun_eq_iff)
  have "withdraw_permissions d' = ix" using B(4) by auto
  then show ?thesis
    using L lim ix e x(3) id B(5) bal move_balance_market [OF F conjunct1 [OF M] mv] M
    by (intro exI [of _ p']) (simp add: Let_def word_less_def)
qed

definition sample_permission :: withdraw_permission_object where
  "sample_permission = \<lparr>withdraw_from_account = 6, authorized_account = 5, withdrawal_limit = mk_asset 100 0, withdrawal_period_sec = 600,
     period_start_time = 1599999000, expiration = 1700000000, claimed_this_period = 40\<rparr>"

definition sample_claim :: withdraw_permission_claim_operation where
  "sample_claim = \<lparr>wl_fee = mk_asset 0 0, wl_withdraw_permission = 0, wl_withdraw_from_account = 6, wl_withdraw_to_account = 5,
     wl_amount_to_withdraw = mk_asset 80 0\<rparr>"

lemma sample_db_market: "market_ok sample_db"
  unfolding market_ok_def
  by (intro conjI, rule sample_db_ok) (auto simp: options_ok_def orders_ok_def funds_ok_def calls_ok_def bids_ok_def links_ok_def sample_defs
      index_find_def upt_rec GRAPHENE_100_PERCENT_def split: if_splits)

theorem withdraw_claim_within_limit_witness:
  "\<exists>d'. withdraw_permission_claim_do_apply fc_reference sample_claim (sample_db\<lparr>withdraw_permissions := list_index [sample_permission]\<rparr>) = Inr ((), d') \<and>
     (\<exists>p'. index_find (withdraw_permissions d') 0 = Some p' \<and> claimed_this_period p' = 80) \<and> balance_of d' 6 0 = 2920"
proof -
  let ?d = "sample_db\<lparr>withdraw_permissions := list_index [sample_permission]\<rparr>"
  have "ix_ok (list_index [sample_permission])" by (simp add: ix_ok_def list_index_def)
  then have ok: "market_ok ?d" using permissions_market [OF sample_db_market] by blast
  have p: "index_find (withdraw_permissions ?d) (wl_withdraw_permission sample_claim) = Some sample_permission" "0 < withdrawal_period_sec sample_permission" "0 \<le> claimed_this_period sample_permission"
    by code_simp+
  have hf: "head_block_time ?d \<ge> HARDFORK_23_TIME" by code_simp
  have v: "withdraw_permission_claim_validate sample_claim = Inr ()" by code_simp
  have e: "withdraw_permission_claim_do_evaluate fc_reference sample_claim ?d = Inr ()" by code_simp
  have "succeeds (withdraw_permission_claim_do_apply fc_reference sample_claim ?d)" by code_simp
  then obtain d' where d': "withdraw_permission_claim_do_apply fc_reference sample_claim ?d = Inr ((), d')" by (auto simp: succeeds_iff)
  have b: "balance_of ?d 6 0 = 3000" by code_simp
  show ?thesis
    using withdraw_claim_within_limit [OF fc_reference_ok ok hf p v e d'] d' b
    by (auto simp: Let_def sample_claim_def sample_permission_def sample_db_def)
qed

end
