(* ===== verification/Operations.thy ===== *)
theory Operations
  imports Withdrawals
begin

text \<open>
  Operations and transactions: \<^verbatim>\<open>database::apply_operation\<close>, the part of \<^verbatim>\<open>_apply_transaction\<close> that validates and runs the
  operations (\<^verbatim>\<open>db_block.cpp\<close>), \<^verbatim>\<open>operation_validate\<close> (\<^verbatim>\<open>protocol/operations.cpp\<close>) and the fee payers of
  the operations. \<open>operation\<close> has a constructor for each operation whose evaluator is modelled. The required
  fee of an operation is the argument \<open>fee_of\<close>.

  The theorem of this theory is the one the development works towards: whatever sequence of these operations is applied,
  accepted or refused, what is held of every asset stays in step with its supply.
\<close>

section \<open>The remaining operations keep the market\<close>

lemma adjust_balance_money: "adjust_balance F who x d = Inr d' \<Longrightarrow> money_only d d'"
  by (auto simp: adjust_balance_def money_only_def split: option.splits if_splits)

lemma modify_dyn_data_money: "modify_dyn_data i m d = Inr d' \<Longrightarrow> money_only d d'"
  by (auto simp: modify_dyn_data_def money_only_def)

lemma money_market:
  assumes "market_ok d" and "db_ok d' \<and> excess d' = excess d" and "money_only d d'"
  shows "market_ok d' \<and> excess d' = excess d \<and> same_clock d d'"
  using market_frame [OF assms(1)] assms(2,3) by (simp add: money_only_def)

interpretation transfer_market: plain_market_operation F S "\<lambda>_. True" "transfer_do_apply F op" for F S op
  by unfold_locales (use move_balance_market in \<open>auto simp: transfer_do_apply_def\<close>)

interpretation override_transfer_market: plain_market_operation F S "\<lambda>_. True" "override_transfer_do_apply F op" for F S op
  by unfold_locales (use move_balance_market in \<open>auto simp: override_transfer_do_apply_def\<close>)

interpretation asset_issue_market: plain_market_operation F S "\<lambda>_. True" "asset_issue_do_apply F op" for F S op
  by unfold_locales
    (rule money_market, assumption, use asset_issue_effect market_okD(1) in blast,
      auto simp: asset_issue_do_apply_def change_supply_def dest!: adjust_balance_money modify_dyn_data_money intro: money_only_trans)

interpretation asset_reserve_market: plain_market_operation F S "\<lambda>_. True" "asset_reserve_do_apply F op" for F S op
  by unfold_locales
    (rule money_market, assumption, use asset_reserve_effect market_okD(1) in blast,
      auto simp: asset_reserve_do_apply_def dest!: adjust_balance_money modify_dyn_data_money intro: money_only_trans)

interpretation asset_fund_fee_pool_market: plain_market_operation F S "\<lambda>_. True" "asset_fund_fee_pool_do_apply F op" for F S op
  by unfold_locales
    (rule money_market, assumption, use fund_fee_pool_effect market_okD(1) in blast,
      auto simp: asset_fund_fee_pool_do_apply_def dest!: adjust_balance_money modify_dyn_data_money intro: money_only_trans)

interpretation asset_claim_fees_market: plain_market_operation F S "\<lambda>_. True" "asset_claim_fees_do_apply F op" for F S op
  by unfold_locales
    (rule money_market, assumption, use claim_fees_effect market_okD(1) in blast,
      auto simp: asset_claim_fees_do_apply_def dest!: adjust_balance_money modify_dyn_data_money intro: money_only_trans)

interpretation asset_claim_pool_market: plain_market_operation F S "\<lambda>_. asset_claim_pool_validate op = Inr ()" "asset_claim_pool_do_apply F op" for F S op
  by unfold_locales
    (rule money_market, assumption, use claim_pool_effect market_okD(1) in \<open>fastforce simp: asset_claim_pool_validate_def\<close>,
      auto simp: asset_claim_pool_do_apply_def dest!: adjust_balance_money modify_dyn_data_money intro: money_only_trans)

lemma modify_asset_market:
  assumes ok: "market_ok d" and run: "modify_asset i m d = Inr d'"
    and m: "\<And>a. dynamic_asset_data_id (m a) = dynamic_asset_data_id a \<and> bitasset_data_id (m a) = bitasset_data_id a"
      "\<And>a. index_find (assets d) i = Some a \<Longrightarrow>
         int (market_fee_percent (options (m a))) \<le> GRAPHENE_100_PERCENT \<and> 0 \<le> max_market_fee (options (m a))"
  shows "market_ok d' \<and> excess d' = excess d \<and> same_clock d d'"
proof -
  obtain a ix where M: "index_find (assets d) i = Some a" "d' = d\<lparr>assets := ix\<rparr>" "index_find ix = (index_find (assets d))(i \<mapsto> m a)"
      "db_ok d'" "excess d' = excess d"
    using modify_asset_effect [OF market_okD(1) [OF ok] run] m(1) by blast
  have "backed d' c k = backed d c k" for c k by (cases "k = i") (simp_all add: backed_def M(1-3) m(1))
  then have b: "backed d' = backed d" by (simp add: fun_eq_iff)
  have l: "links_ok d'" using market_okD(7) [OF ok] M(1) m(1) unfolding links_ok_def M(2) by (auto simp: M(3))
  have "options_ok d'" using market_okD(2) [OF ok] m(2) [OF M(1)] by (auto simp: options_ok_def M(2,3))
  then show ?thesis using ok M(2,4,5) b l by (simp add: market_ok_def orders_ok_def funds_ok_def calls_ok_def bids_ok_def)
qed

lemma cancel_settle_orders_market:
  assumes F: "fc_lib_ok F"
  shows "market_ok d \<Longrightarrow> cancel_settle_orders F is d = Inr d' \<Longrightarrow> market_step d d'"
proof (induction "is" arbitrary: d)
  case (Cons i "is")
  then obtain d1 where d1: "cancel_settle_order F i d = Inr d1" "cancel_settle_orders F is d1 = Inr d'" by auto
  note T = cancel_settle_order_trade [OF F market_okD(1) [OF Cons.prems(1)] d1(1)]
  have "market_step d d1" using T market_okD(3) [OF Cons.prems(1)] by (intro trade_step [OF _ _ _ Cons.prems(1)]) (auto simp: orders_ok_def)
  then show ?case using Cons.IH [OF market_step_ok d1(2)] market_step_trans by blast
qed simp

lemma mark_cer_updated_market:
  assumes ok: "market_ok d" and run: "mark_cer_updated op a d = Inr d'"
  shows "market_ok d' \<and> excess d' = excess d \<and> same_clock d d'"
proof -
  have "d' = d \<or> (\<exists>i. modify_bitasset i (\<lambda>b. b\<lparr>asset_cer_updated := True\<rparr>) d = Inr d')"
    using run by (simp add: mark_cer_updated_def split: option.splits if_splits) blast+
  then show ?thesis
  proof
    assume "\<exists>i. modify_bitasset i (\<lambda>b. b\<lparr>asset_cer_updated := True\<rparr>) d = Inr d'"
    then obtain i where "modify_bitasset i (\<lambda>b. b\<lparr>asset_cer_updated := True\<rparr>) d = Inr d'" ..
    from modify_terms_market [OF ok this] show ?thesis by (simp add: same_terms_def)
  qed (simp add: ok)
qed

lemma asset_options_validate_fees:
  "asset_options_validate o' = Inr () \<Longrightarrow> int (market_fee_percent o') \<le> GRAPHENE_100_PERCENT \<and> 0 \<le> max_market_fee o'"
  by (auto simp: asset_options_validate_def)

lemma asset_update_market_apply:
  assumes F: "fc_lib_ok F" and ok: "market_ok d" and v: "asset_update_validate op = Inr ()" and run: "asset_update_do_apply F op d = Inr (u, d')"
  shows "market_ok d' \<and> excess d' = excess d \<and> same_clock d d'"
proof -
  obtain a d1 d2 where 1: "(if has_flag (flags (au_new_options op)) disable_force_settle \<and> can_force_settle a
            then cancel_settle_orders F (settle_orders_of d (au_asset_to_update op)) d else Inr d) = Inr d1"
    and 2: "mark_cer_updated op a d1 = Inr d2"
    and 3: "modify_asset (au_asset_to_update op) (\<lambda>a. a\<lparr>
              issuer := (case au_new_issuer op of None \<Rightarrow> issuer a | Some i \<Rightarrow> i), options := au_new_options op\<rparr>) d2 = Inr d'"
    using run by (auto simp: asset_update_do_apply_def simp del: if_split)
  have S: "market_step d d1" using 1 ok cancel_settle_orders_market [OF F ok] by (auto split: if_splits)
  note M = mark_cer_updated_market [OF market_step_ok [OF S] 2]
  have f: "int (market_fee_percent (au_new_options op)) \<le> GRAPHENE_100_PERCENT \<and> 0 \<le> max_market_fee (au_new_options op)"
    using v by (intro asset_options_validate_fees) (auto simp: asset_update_validate_def)
  have "market_ok d' \<and> excess d' = excess d2 \<and> same_clock d2 d'" by (rule modify_asset_market [OF conjunct1 [OF M] 3]) (simp_all add: f)
  then show ?thesis using M market_step_kept [OF S] by simp
qed

interpretation asset_update_market: plain_market_operation F S "\<lambda>_. asset_update_validate op = Inr ()" "asset_update_do_apply F op" for F S op
  by unfold_locales (rule asset_update_market_apply)

lemma asset_update_issuer_market_apply:
  assumes ok: "market_ok d" and run: "asset_update_issuer_do_apply op d = Inr (u, d')"
  shows "market_ok d' \<and> excess d' = excess d \<and> same_clock d d'"
proof -
  have m: "modify_asset (ui_asset_to_update op) (\<lambda>a. a\<lparr>issuer := ui_new_issuer op\<rparr>) d = Inr d'"
    using run by (auto simp: asset_update_issuer_do_apply_def)
  show ?thesis by (rule modify_asset_market [OF ok m]) (use market_okD(2) [OF ok] in \<open>auto simp: options_ok_def\<close>)
qed

interpretation asset_update_issuer_market: plain_market_operation F S "\<lambda>_. True" "asset_update_issuer_do_apply op" for F S op
  by unfold_locales (rule asset_update_issuer_market_apply)

text \<open>A new asset: its options are checked, its bitasset is not settled, and nothing refers to it yet.\<close>

lemma set_exchange_asset_fees [simp]:
  "market_fee_percent (set_exchange_asset a o') = market_fee_percent o'" "max_market_fee (set_exchange_asset a o') = max_market_fee o'"
  by (simp_all add: set_exchange_asset_def Let_def)

lemma asset_create_market_apply:
  assumes F: "fc_lib_ok F" and ok: "market_ok d" and v: "asset_create_validate op = Inr ()" and run: "asset_create_do_apply F op fee d = Inr (r, d')"
  shows "market_ok d' \<and> same_clock d d'"
proof -
  have db: "db_ok d" by (rule market_okD(1) [OF ok])
  have db': "db_ok d'" using asset_create_apply_effect(1) [OF F db] run by (cases fee) auto
  obtain ao where t: "same_clock d d'" and k: "limit_orders d' = limit_orders d" "call_orders d' = call_orders d" "collateral_bids d' = collateral_bids d"
    and new: "index_find (assets d) r = None" and A: "index_find (assets d') = (index_find (assets d))(r \<mapsto> ao)"
      "options ao = set_exchange_asset r (ac_common_options op)"
    and B: "case ac_bitasset_opts op of
          None \<Rightarrow> bitasset_data_id ao = None \<and> bitassets d' = bitassets d
        | Some opts \<Rightarrow> (\<exists>i. bitasset_data_id ao = Some i \<and> index_find (bitassets d) i = None \<and>
            index_find (bitassets d') = (index_find (bitassets d))(i \<mapsto> new_bitasset r opts (ac_is_prediction_market op)))"
    using asset_create_state [OF F db run] by blast
  have f: "int (market_fee_percent (ac_common_options op)) \<le> GRAPHENE_100_PERCENT \<and> 0 \<le> max_market_fee (ac_common_options op)"
    using v by (intro asset_options_validate_fees) (auto simp: asset_create_validate_def)
  have keep: "index_find (bitassets d') i = Some b" if "index_find (bitassets d) i = Some b" for i b
    using that B by (auto split: option.splits)
  have nb: "fund_ok (new_bitasset r opts pm)" for opts pm
    by (simp add: fund_ok_def new_bitasset_def has_settlement_def null_price_def price_is_null_def)
  have fb: "fund_ok b" if "index_find (bitassets d') i = Some b" for i b
    using that B market_okD(4) [OF ok] nb by (auto simp: funds_ok_def split: option.splits if_splits)
  have bk: "backed d' c m" if "backed d c m" for c m
  proof -
    obtain a i b where b: "index_find (assets d) m = Some a" "bitasset_data_id a = Some i" "index_find (bitassets d) i = Some b"
        "short_backing_asset (bit_options b) = c" using \<open>backed d c m\<close> unfolding backed_def by blast
    then have "index_find (assets d') m = Some a" using A(1) new by auto
    then show ?thesis using b keep [OF b(3)] unfolding backed_def by blast
  qed
  have r0: "r \<noteq> 0" using new market_okD(7) [OF ok] unfolding links_ok_def by (cases "r = 0") auto
  have own: "\<exists>b. index_find (bitassets d') i = Some b \<and> bit_asset_id b = r" if "bitasset_data_id ao = Some i" for i
    using that B by (auto simp: new_bitasset_def split: option.splits)
  have "links_ok d'"
    using market_okD(7) [OF ok] own keep r0 unfolding links_ok_def A(1) by (auto split: if_splits) blast
  moreover have "options_ok d'" using market_okD(2) [OF ok] f by (auto simp: options_ok_def A)
  ultimately show ?thesis
    using ok db' k bk fb t by (auto simp: market_ok_def orders_ok_def funds_ok_def calls_ok_def bids_ok_def)
qed

interpretation asset_create_market: market_operation F S "\<lambda>_. asset_create_validate op = Inr ()"
  "convert_fee F S" "asset_create_pay_fee F S" "asset_create_do_apply F op" for F S op
proof unfold_locales
  fix d payer fee fs d1 s d2 r d3
  assume F: "fc_lib_ok F" and S: "\<not> skip_fee S" and ok: "market_ok d" and v: "asset_create_validate op = Inr ()"
    and fs: "fee_state_of d payer fee fs"
    and run: "convert_fee F S fs d = Inr d1" "asset_create_pay_fee F S fs d1 = Inr (s, d2)" "asset_create_do_apply F op s d2 = Inr (r, d3)"
  note f1 = convert_fee_flow [OF F market_okD(1) [OF ok] fs S run(1)]
  have ok1: "market_ok d1" by (rule flow_market_ok [OF f1 ok])
  obtain core where "pay_core_fee F S (fee_paying_account_statistics fs) core d1 = Inr d2"
    using run(2) by (auto simp: asset_create_pay_fee_def)
  note P = pay_core_fee_effect [OF F market_okD(1) [OF ok1] S this]
  have ok2: "market_ok d2" "same_clock d1 d2" using market_frame [OF ok1 conjunct1 [OF P]] P by auto
  have "\<forall>a. excess d3 a = excess d1 a + if_asset a (mk_asset (core_fee_paid fs) 0)"
    using asset_create.step [OF F S market_okD(1) [OF ok1] run(2,3)] by simp
  then show "market_ok d3 \<and> (\<forall>a. excess d3 a = excess d a + if_asset a fee) \<and> same_clock d d3"
    using asset_create_market_apply [OF F ok2(1) v run(3)] f1 ok2(2) flow_clock [OF f1] by (simp add: flow_def)
qed

section \<open>Operations\<close>

text \<open>The report of a contribution: it only pays a fee.\<close>

record pio_operation =
  pio_fee :: asset
  pio_from :: nat
  pio_rpc_addr :: string
  pio_contribution :: "32 word"

definition pio_validate :: "pio_operation \<Rightarrow> unit result" where
  "pio_validate op = require (amount (pio_fee op) \<ge> 0) Assert_failed (Inr ())"

definition pio_do_evaluate :: "pio_operation \<Rightarrow> database \<Rightarrow> unit result" where
  "pio_do_evaluate op d = rbind (index_get (accounts d) (pio_from op)) (\<lambda>_. Inr ())"

definition pio_do_apply :: "pio_operation \<Rightarrow> database \<Rightarrow> (unit \<times> database) result" where
  "pio_do_apply op d = Inr ((), d)"

interpretation pio: plain_market_operation F S "\<lambda>_. True" "pio_do_apply op" for F S op
  by unfold_locales (simp add: pio_do_apply_def)

datatype operation =
    Transfer transfer_operation
  | Limit_order_create limit_order_create_operation
  | Limit_order_cancel limit_order_cancel_operation
  | Call_order_update call_order_update_operation
  | Asset_create asset_create_operation
  | Asset_update asset_update_operation
  | Asset_update_bitasset asset_update_bitasset_operation
  | Asset_update_feed_producers asset_update_feed_producers_operation
  | Asset_issue asset_issue_operation
  | Asset_reserve asset_reserve_operation
  | Asset_fund_fee_pool asset_fund_fee_pool_operation
  | Asset_settle asset_settle_operation
  | Asset_global_settle asset_global_settle_operation
  | Asset_publish_feed asset_publish_feed_operation
  | Withdraw_permission_create withdraw_permission_create_operation
  | Withdraw_permission_update withdraw_permission_update_operation
  | Withdraw_permission_claim withdraw_permission_claim_operation
  | Withdraw_permission_delete withdraw_permission_delete_operation
  | Vesting_balance_create vesting_balance_create_operation
  | Vesting_balance_withdraw vesting_balance_withdraw_operation
  | Override_transfer override_transfer_operation
  | Asset_claim_fees asset_claim_fees_operation
  | Bid_collateral bid_collateral_operation
  | Pio pio_operation
  | Asset_claim_pool asset_claim_pool_operation
  | Asset_update_issuer asset_update_issuer_operation

datatype operation_result = Void_result | Object_id_result nat | Asset_result asset

fun operation_validate :: "fc_lib \<Rightarrow> operation \<Rightarrow> unit result" where
  "operation_validate F (Transfer op) = transfer_validate op"
| "operation_validate F (Limit_order_create op) = limit_order_create_validate op"
| "operation_validate F (Limit_order_cancel op) = limit_order_cancel_validate op"
| "operation_validate F (Call_order_update op) = call_order_update_validate op"
| "operation_validate F (Asset_create op) = asset_create_validate op"
| "operation_validate F (Asset_update op) = asset_update_validate op"
| "operation_validate F (Asset_update_bitasset op) = asset_update_bitasset_validate op"
| "operation_validate F (Asset_update_feed_producers op) = asset_update_feed_producers_validate op"
| "operation_validate F (Asset_issue op) = asset_issue_validate op"
| "operation_validate F (Asset_reserve op) = asset_reserve_validate op"
| "operation_validate F (Asset_fund_fee_pool op) = asset_fund_fee_pool_validate op"
| "operation_validate F (Asset_settle op) = asset_settle_validate op"
| "operation_validate F (Asset_global_settle op) = asset_global_settle_validate op"
| "operation_validate F (Asset_publish_feed op) = asset_publish_feed_validate F op"
| "operation_validate F (Withdraw_permission_create op) = withdraw_permission_create_validate op"
| "operation_validate F (Withdraw_permission_update op) = withdraw_permission_update_validate op"
| "operation_validate F (Withdraw_permission_claim op) = withdraw_permission_claim_validate op"
| "operation_validate F (Withdraw_permission_delete op) = withdraw_permission_delete_validate op"
| "operation_validate F (Vesting_balance_create op) = vesting_balance_create_validate op"
| "operation_validate F (Vesting_balance_withdraw op) = vesting_balance_withdraw_validate op"
| "operation_validate F (Override_transfer op) = override_transfer_validate op"
| "operation_validate F (Asset_claim_fees op) = asset_claim_fees_validate op"
| "operation_validate F (Bid_collateral op) = bid_collateral_validate op"
| "operation_validate F (Pio op) = pio_validate op"
| "operation_validate F (Asset_claim_pool op) = asset_claim_pool_validate op"
| "operation_validate F (Asset_update_issuer op) = asset_update_issuer_validate op"

text \<open>What an evaluator returns, as the variant the transaction stores.\<close>

definition with_result :: "('r \<Rightarrow> operation_result) \<Rightarrow> ('r \<times> database) result \<Rightarrow> (operation_result \<times> database) result" where
  "with_result f m = rbind m (\<lambda>(r, d). Inr (f r, d))"

fun settle_operation_result :: "settle_result \<Rightarrow> operation_result" where
  "settle_operation_result (Settled_amount x) = Asset_result x"
| "settle_operation_result (Settle_order i) = Object_id_result i"

text \<open>The arguments: the library, \<^verbatim>\<open>nth_element\<close>, the flags of the transaction, the step counter of the margin-call
  loops and the required fee.\<close>

record apply_env =
  env_lib :: fc_lib
  env_nth_element :: nth_element
  env_state :: transaction_evaluation_state
  env_fuel :: nat
  env_fee :: "operation \<Rightarrow> int"

definition run_plain ::
  "apply_env \<Rightarrow> operation \<Rightarrow> nat \<Rightarrow> asset \<Rightarrow> (database \<Rightarrow> unit result) \<Rightarrow> (database \<Rightarrow> ('r \<times> database) result) \<Rightarrow> ('r \<Rightarrow> operation_result) \<Rightarrow>
   database \<Rightarrow> (operation_result \<times> database) result" where
  "run_plain E op payer fee do_evaluate do_apply f d =
     with_result f (start_evaluate (env_lib E) (env_state E) (env_fee E op) payer fee do_evaluate (pay_fee (env_lib E) (env_state E)) (\<lambda>_. do_apply) d)"

fun apply_operation :: "apply_env \<Rightarrow> operation \<Rightarrow> database \<Rightarrow> (operation_result \<times> database) result" where
  "apply_operation E (Transfer op) d = run_plain E (Transfer op) (tr_from op) (tr_fee op)
     (transfer_do_evaluate op) (transfer_do_apply (env_lib E) op) (\<lambda>_. Void_result) d"
| "apply_operation E (Limit_order_create op) d =
     with_result Object_id_result (run_converted (env_lib E) (env_state E) (env_fee E (Limit_order_create op)) (lc_seller op) (lc_fee op)
       (limit_order_create_do_evaluate op) (limit_order_create_convert_fee (env_lib E) (env_state E))
       (limit_order_create_pay_fee (env_lib E) (env_state E)) (limit_order_create_do_apply (env_lib E) (env_fuel E) op) d)"
| "apply_operation E (Limit_order_cancel op) d = run_plain E (Limit_order_cancel op) (lx_fee_paying_account op) (lx_fee op)
     (limit_order_cancel_do_evaluate op) (limit_order_cancel_do_apply (env_lib E) (env_fuel E) op) Asset_result d"
| "apply_operation E (Call_order_update op) d = run_plain E (Call_order_update op) (cu_funding_account op) (cu_fee op)
     (call_order_update_do_evaluate op) (call_order_update_do_apply (env_lib E) (env_fuel E) op) (\<lambda>_. Void_result) d"
| "apply_operation E (Asset_create op) d =
     with_result Object_id_result (start_evaluate (env_lib E) (env_state E) (env_fee E (Asset_create op)) (ac_issuer op) (ac_fee op)
       (asset_create_do_evaluate op) (asset_create_pay_fee (env_lib E) (env_state E)) (asset_create_do_apply (env_lib E) op) d)"
| "apply_operation E (Asset_update op) d = run_plain E (Asset_update op) (au_issuer op) (au_fee op)
     (asset_update_do_evaluate op) (asset_update_do_apply (env_lib E) op) (\<lambda>_. Void_result) d"
| "apply_operation E (Asset_update_bitasset op) d = run_plain E (Asset_update_bitasset op) (ub_issuer op) (ub_fee op)
     (asset_update_bitasset_do_evaluate op) (asset_update_bitasset_do_apply (env_lib E) (env_nth_element E) (env_fuel E) op) (\<lambda>_. Void_result) d"
| "apply_operation E (Asset_update_feed_producers op) d = run_plain E (Asset_update_feed_producers op) (up_issuer op) (up_fee op)
     (asset_update_feed_producers_do_evaluate op) (asset_update_feed_producers_do_apply (env_lib E) (env_nth_element E) (env_fuel E) op) (\<lambda>_. Void_result) d"
| "apply_operation E (Asset_issue op) d = run_plain E (Asset_issue op) (ai_issuer op) (ai_fee op)
     (asset_issue_do_evaluate (env_lib E) op) (asset_issue_do_apply (env_lib E) op) (\<lambda>_. Void_result) d"
| "apply_operation E (Asset_reserve op) d = run_plain E (Asset_reserve op) (ar_payer op) (ar_fee op)
     (asset_reserve_do_evaluate (env_lib E) op) (asset_reserve_do_apply (env_lib E) op) (\<lambda>_. Void_result) d"
| "apply_operation E (Asset_fund_fee_pool op) d = run_plain E (Asset_fund_fee_pool op) (fp_from_account op) (fp_fee op)
     (asset_fund_fee_pool_do_evaluate op) (asset_fund_fee_pool_do_apply (env_lib E) op) (\<lambda>_. Void_result) d"
| "apply_operation E (Asset_settle op) d = run_plain E (Asset_settle op) (as_account op) (as_fee op)
     (asset_settle_do_evaluate op) (asset_settle_do_apply (env_lib E) op) settle_operation_result d"
| "apply_operation E (Asset_global_settle op) d = run_plain E (Asset_global_settle op) (gs_issuer op) (gs_fee op)
     (asset_global_settle_do_evaluate op) (asset_global_settle_do_apply (env_lib E) op) (\<lambda>_. Void_result) d"
| "apply_operation E (Asset_publish_feed op) d = run_plain E (Asset_publish_feed op) (pf_publisher op) (pf_fee op)
     (asset_publish_feed_do_evaluate op) (asset_publish_feed_do_apply (env_lib E) (env_nth_element E) (env_fuel E) op) (\<lambda>_. Void_result) d"
| "apply_operation E (Withdraw_permission_create op) d = run_plain E (Withdraw_permission_create op) (wc_withdraw_from_account op) (wc_fee op)
     (withdraw_permission_create_do_evaluate op) (withdraw_permission_create_do_apply op) Object_id_result d"
| "apply_operation E (Withdraw_permission_update op) d = run_plain E (Withdraw_permission_update op) (wu_withdraw_from_account op) (wu_fee op)
     (withdraw_permission_update_do_evaluate op) (withdraw_permission_update_do_apply op) (\<lambda>_. Void_result) d"
| "apply_operation E (Withdraw_permission_claim op) d = run_plain E (Withdraw_permission_claim op) (wl_withdraw_to_account op) (wl_fee op)
     (withdraw_permission_claim_do_evaluate (env_lib E) op) (withdraw_permission_claim_do_apply (env_lib E) op) (\<lambda>_. Void_result) d"
| "apply_operation E (Withdraw_permission_delete op) d = run_plain E (Withdraw_permission_delete op) (wd_withdraw_from_account op) (wd_fee op)
     (withdraw_permission_delete_do_evaluate op) (withdraw_permission_delete_do_apply op) (\<lambda>_. Void_result) d"
| "apply_operation E (Vesting_balance_create op) d = run_plain E (Vesting_balance_create op) (vc_creator op) (vc_fee op)
     (vesting_balance_create_do_evaluate op) (vesting_balance_create_do_apply (env_lib E) op) Object_id_result d"
| "apply_operation E (Vesting_balance_withdraw op) d = run_plain E (Vesting_balance_withdraw op) (vw_owner op) (vw_fee op)
     (vesting_balance_withdraw_do_evaluate (env_lib E) op) (vesting_balance_withdraw_do_apply (env_lib E) op) (\<lambda>_. Void_result) d"
| "apply_operation E (Override_transfer op) d = run_plain E (Override_transfer op) (ot_issuer op) (ot_fee op)
     (override_transfer_do_evaluate op) (override_transfer_do_apply (env_lib E) op) (\<lambda>_. Void_result) d"
| "apply_operation E (Asset_claim_fees op) d = run_plain E (Asset_claim_fees op) (cf_issuer op) (cf_fee op)
     (asset_claim_fees_do_evaluate op) (asset_claim_fees_do_apply (env_lib E) op) (\<lambda>_. Void_result) d"
| "apply_operation E (Bid_collateral op) d = run_plain E (Bid_collateral op) (bc_bidder op) (bc_fee op)
     (bid_collateral_do_evaluate op) (bid_collateral_do_apply (env_lib E) op) (\<lambda>_. Void_result) d"
| "apply_operation E (Pio op) d = run_plain E (Pio op) (pio_from op) (pio_fee op)
     (pio_do_evaluate op) (pio_do_apply op) (\<lambda>_. Void_result) d"
| "apply_operation E (Asset_claim_pool op) d = run_plain E (Asset_claim_pool op) (cp_issuer op) (cp_fee op)
     (asset_claim_pool_do_evaluate op) (asset_claim_pool_do_apply (env_lib E) op) (\<lambda>_. Void_result) d"
| "apply_operation E (Asset_update_issuer op) d = run_plain E (Asset_update_issuer op) (ui_issuer op) (ui_fee op)
     (asset_update_issuer_do_evaluate op) (asset_update_issuer_do_apply op) (\<lambda>_. Void_result) d"

fun apply_operations :: "apply_env \<Rightarrow> operation list \<Rightarrow> database \<Rightarrow> (operation_result list \<times> database) result" where
  "apply_operations E [] d = Inr ([], d)"
| "apply_operations E (op # ops) d =
     rbind (apply_operation E op d) (\<lambda>(r, d1).
     rbind (apply_operations E ops d1) (\<lambda>(rs, d2). Inr (r # rs, d2)))"

section \<open>Operations create no value\<close>

text \<open>What the model asks of an operation beyond \<^verbatim>\<open>validate\<close>: the amount of an order is in the range of its type, and
  new options of a bitasset leave its backing asset.\<close>

fun admissible :: "operation \<Rightarrow> database \<Rightarrow> bool" where
  "admissible (Limit_order_create op) d \<longleftrightarrow> amount (lc_amount_to_sell op) < 2 ^ 63"
| "admissible (Asset_update_bitasset op) d \<longleftrightarrow> keeps_backing op d"
| "admissible _ d \<longleftrightarrow> True"

context plain_market_operation
begin

lemma started:
  assumes "fc_lib_ok F" and "\<not> skip_fee S" and "market_ok d" and "pre d"
    and "start_evaluate F S required payer fee ev (pay_fee F S) (\<lambda>_. do_apply) d = Inr (r, d')"
  shows "market_ok d' \<and> excess d' = excess d \<and> same_clock d d'"
  by (rule booked.keeps_market [OF assms(1-4) assms(5) [unfolded start_evaluate_converted]])

end

lemma run_plain_market:
  assumes op: "plain_market_operation (env_lib E) pre ap" and env: "fc_lib_ok (env_lib E)" "\<not> skip_fee (env_state E)" and ok: "market_ok d"
    and pre: "ev d = Inr () \<Longrightarrow> pre d" and run: "run_plain E op' payer fee ev ap f d = Inr (r, d')"
  shows "market_ok d' \<and> excess d' = excess d \<and> same_clock d d'"
proof -
  obtain x where x: "start_evaluate (env_lib E) (env_state E) (env_fee E op') payer fee ev (pay_fee (env_lib E) (env_state E)) (\<lambda>_. ap) d = Inr (x, d')"
    using run by (auto simp: run_plain_def with_result_def)
  have "ev d = Inr ()" using x by (auto simp: start_evaluate_def evaluate_operation_def)
  then show ?thesis
    by (rule plain_market_operation.started [OF op env ok pre x])
qed

lemma apply_operation_market:
  assumes env: "fc_lib_ok (env_lib E)" "\<not> skip_fee (env_state E)" and ok: "market_ok d"
    and val: "operation_validate (env_lib E) op = Inr ()" and adm: "admissible op d" and run: "apply_operation E op d = Inr (r, d')"
  shows "market_ok d' \<and> excess d' = excess d \<and> same_clock d d'"
proof (cases op)
  case (Transfer x)
  show ?thesis
    by (rule run_plain_market [OF transfer_market.plain_market_operation_axioms env ok _ run [unfolded Transfer apply_operation.simps]])
      (use Transfer val adm in simp_all)
next
  case (Limit_order_create x)
  then have "amount (lc_amount_to_sell x) < 2 ^ 63" using adm by simp
  then show ?thesis
    using Limit_order_create run limit_order_create.keeps_market [OF env ok] by (auto simp: with_result_def)
next
  case (Limit_order_cancel x)
  show ?thesis
    by (rule run_plain_market [OF limit_order_cancel.plain_market_operation_axioms env ok _ run [unfolded Limit_order_cancel apply_operation.simps]])
      (use Limit_order_cancel val adm in simp_all)
next
  case (Call_order_update x)
  show ?thesis
    by (rule run_plain_market [OF call_order_update.plain_market_operation_axioms env ok _ run [unfolded Call_order_update apply_operation.simps]])
      (use Call_order_update val adm in simp_all)
next
  case (Asset_create x)
  then have "asset_create_validate x = Inr ()" using val by simp
  then show ?thesis
    using Asset_create run asset_create_market.keeps_market [OF env ok] by (auto simp: with_result_def start_evaluate_converted)
next
  case (Asset_update x)
  show ?thesis
    by (rule run_plain_market [OF asset_update_market.plain_market_operation_axioms env ok _ run [unfolded Asset_update apply_operation.simps]])
      (use Asset_update val adm in simp_all)
next
  case (Asset_update_bitasset x)
  show ?thesis
    by (rule run_plain_market [OF asset_update_bitasset.plain_market_operation_axioms env ok _ run [unfolded Asset_update_bitasset apply_operation.simps]])
      (use Asset_update_bitasset val adm in simp_all)
next
  case (Asset_update_feed_producers x)
  show ?thesis
    by (rule run_plain_market [OF asset_update_feed_producers.plain_market_operation_axioms env ok _ run [unfolded Asset_update_feed_producers apply_operation.simps]])
      (use Asset_update_feed_producers val adm in simp_all)
next
  case (Asset_issue x)
  show ?thesis
    by (rule run_plain_market [OF asset_issue_market.plain_market_operation_axioms env ok _ run [unfolded Asset_issue apply_operation.simps]])
      (use Asset_issue val adm in simp_all)
next
  case (Asset_reserve x)
  show ?thesis
    by (rule run_plain_market [OF asset_reserve_market.plain_market_operation_axioms env ok _ run [unfolded Asset_reserve apply_operation.simps]])
      (use Asset_reserve val adm in simp_all)
next
  case (Asset_fund_fee_pool x)
  show ?thesis
    by (rule run_plain_market [OF asset_fund_fee_pool_market.plain_market_operation_axioms env ok _ run [unfolded Asset_fund_fee_pool apply_operation.simps]])
      (use Asset_fund_fee_pool val adm in simp_all)
next
  case (Asset_settle x)
  show ?thesis
    by (rule run_plain_market [OF asset_settle.plain_market_operation_axioms env ok _ run [unfolded Asset_settle apply_operation.simps]])
      (use Asset_settle val adm in simp_all)
next
  case (Asset_global_settle x)
  show ?thesis
    by (rule run_plain_market [OF asset_global_settle.plain_market_operation_axioms env ok _ run [unfolded Asset_global_settle apply_operation.simps]])
      (use Asset_global_settle val adm in simp_all)
next
  case (Asset_publish_feed x)
  show ?thesis
    by (rule run_plain_market [OF asset_publish_feed.plain_market_operation_axioms env ok _ run [unfolded Asset_publish_feed apply_operation.simps]])
      (use Asset_publish_feed val adm in simp_all)
next
  case (Withdraw_permission_create x)
  show ?thesis
    by (rule run_plain_market [OF withdraw_permission_create.plain_market_operation_axioms env ok _ run [unfolded Withdraw_permission_create apply_operation.simps]])
      (use Withdraw_permission_create val adm in simp_all)
next
  case (Withdraw_permission_update x)
  show ?thesis
    by (rule run_plain_market [OF withdraw_permission_update.plain_market_operation_axioms env ok _ run [unfolded Withdraw_permission_update apply_operation.simps]])
      (use Withdraw_permission_update val adm in simp_all)
next
  case (Withdraw_permission_claim x)
  show ?thesis
    by (rule run_plain_market [OF withdraw_permission_claim.plain_market_operation_axioms env ok _ run [unfolded Withdraw_permission_claim apply_operation.simps]])
      (use Withdraw_permission_claim val adm in simp_all)
next
  case (Withdraw_permission_delete x)
  show ?thesis
    by (rule run_plain_market [OF withdraw_permission_delete.plain_market_operation_axioms env ok _ run [unfolded Withdraw_permission_delete apply_operation.simps]])
      (use Withdraw_permission_delete val adm in simp_all)
next
  case (Vesting_balance_create x)
  show ?thesis
    by (rule run_plain_market [OF vesting_balance_create.plain_market_operation_axioms env ok _ run [unfolded Vesting_balance_create apply_operation.simps]])
      (use Vesting_balance_create val adm in simp_all)
next
  case (Vesting_balance_withdraw x)
  show ?thesis
    by (rule run_plain_market [OF vesting_balance_withdraw.plain_market_operation_axioms env ok _ run [unfolded Vesting_balance_withdraw apply_operation.simps]])
      (use Vesting_balance_withdraw val adm in simp_all)
next
  case (Override_transfer x)
  show ?thesis
    by (rule run_plain_market [OF override_transfer_market.plain_market_operation_axioms env ok _ run [unfolded Override_transfer apply_operation.simps]])
      (use Override_transfer val adm in simp_all)
next
  case (Asset_claim_fees x)
  show ?thesis
    by (rule run_plain_market [OF asset_claim_fees_market.plain_market_operation_axioms env ok _ run [unfolded Asset_claim_fees apply_operation.simps]])
      (use Asset_claim_fees val adm in simp_all)
next
  case (Bid_collateral x)
  show ?thesis
    by (rule run_plain_market [OF bid_collateral.plain_market_operation_axioms env ok _ run [unfolded Bid_collateral apply_operation.simps]])
      (use Bid_collateral val adm in simp_all)
next
  case (Pio x)
  show ?thesis
    by (rule run_plain_market [OF pio.plain_market_operation_axioms env ok _ run [unfolded Pio apply_operation.simps]])
      (use Pio val adm in simp_all)
next
  case (Asset_claim_pool x)
  show ?thesis
    by (rule run_plain_market [OF asset_claim_pool_market.plain_market_operation_axioms env ok _ run [unfolded Asset_claim_pool apply_operation.simps]])
      (use Asset_claim_pool val adm in simp_all)
next
  case (Asset_update_issuer x)
  show ?thesis
    by (rule run_plain_market [OF asset_update_issuer_market.plain_market_operation_axioms env ok _ run [unfolded Asset_update_issuer apply_operation.simps]])
      (use Asset_update_issuer val adm in simp_all)
qed

text \<open>The operations of a transaction, in order; each one is admissible in the state it meets.\<close>

fun admissible_all :: "apply_env \<Rightarrow> operation list \<Rightarrow> database \<Rightarrow> bool" where
  "admissible_all E [] d \<longleftrightarrow> True"
| "admissible_all E (op # ops) d \<longleftrightarrow> admissible op d \<and>
     (case apply_operation E op d of Inl _ \<Rightarrow> True | Inr (_, d1) \<Rightarrow> admissible_all E ops d1)"

lemma apply_operations_market:
  assumes env: "fc_lib_ok (env_lib E)" "\<not> skip_fee (env_state E)"
  shows "market_ok d \<Longrightarrow> \<forall>op\<in>set ops. operation_validate (env_lib E) op = Inr () \<Longrightarrow> admissible_all E ops d \<Longrightarrow>
     apply_operations E ops d = Inr (rs, d') \<Longrightarrow> market_ok d' \<and> excess d' = excess d \<and> same_clock d d' \<and> length rs = length ops"
proof (induction ops arbitrary: d rs)
  case (Cons op ops)
  obtain r d1 rs' where 1: "apply_operation E op d = Inr (r, d1)" and 2: "apply_operations E ops d1 = Inr (rs', d')" and rs: "rs = r # rs'"
    using Cons.prems(4) by auto
  have S: "market_ok d1 \<and> excess d1 = excess d \<and> same_clock d d1"
    using apply_operation_market [OF env Cons.prems(1) _ _ 1] Cons.prems(2,3) by simp
  show ?case using Cons.IH [OF _ _ _ 2] Cons.prems(2,3) S 1 rs by simp
qed simp

end
