(* ===== verification/Transactions.thy ===== *)
theory Transactions
  imports Operations
begin

text \<open>
  Transactions: \<^verbatim>\<open>database::_apply_transaction\<close> and the temporary session around it in \<^verbatim>\<open>_push_transaction\<close> (\<^verbatim>\<open>db_block.cpp\<close>),
  \<^verbatim>\<open>transaction::validate\<close> (\<^verbatim>\<open>protocol/transaction.cpp\<close>), the index of known transactions (\<^verbatim>\<open>transaction_object.hpp\<close>)
  and \<^verbatim>\<open>clear_expired_transactions\<close> (\<^verbatim>\<open>db_update.cpp\<close>).

  The id of a transaction is a hash of the library \<^verbatim>\<open>fc\<close>, the argument \<open>hash\<close>. The check of the signatures is the argument
  \<open>verify\<close>, which sees the transaction and the state.
\<close>

section \<open>Model\<close>

record signed_transaction =
  tx_ref_block_num :: "16 word"
  tx_ref_block_prefix :: "32 word"
  tx_expiration :: time
  tx_operations :: "operation list"
  tx_signatures :: "nat list"

record transaction_object =
  to_trx :: signed_transaction
  to_trx_id :: nat

text \<open>The parts of the state a transaction touches: the objects, the known transactions, the second word of the block id in each
  block summary, and the number of the head block.\<close>

record chain_state =
  cs_db :: database
  cs_transactions :: "transaction_object index"
  cs_block_summaries :: "(32 word) index"
  cs_head_block_num :: "32 word"

definition skip_transaction_signatures :: "32 word" where "skip_transaction_signatures = 2"
definition skip_transaction_dupe_check :: "32 word" where "skip_transaction_dupe_check = 4"
definition skip_tapos_check :: "32 word" where "skip_tapos_check = 32"
definition skip_authority_check :: "32 word" where "skip_authority_check = 64"

definition transaction_validate :: "fc_lib \<Rightarrow> signed_transaction \<Rightarrow> unit result" where
  "transaction_validate F trx =
     require (tx_operations trx \<noteq> []) Assert_failed (rall (operation_validate F) (tx_operations trx))"

definition known_transaction :: "chain_state \<Rightarrow> nat \<Rightarrow> bool" where
  "known_transaction s i \<longleftrightarrow> (\<exists>x\<in>set (objects (cs_transactions s)). to_trx_id (snd x) = i)"

definition check_tapos :: "32 word \<Rightarrow> signed_transaction \<Rightarrow> chain_state \<Rightarrow> unit result" where
  "check_tapos skip trx s =
     (if and skip skip_tapos_check = 0
      then rbind (index_get (cs_block_summaries s) (unat (tx_ref_block_num trx))) (\<lambda>prefix.
           require (tx_ref_block_prefix trx = prefix) Assert_failed (Inr ()))
      else Inr ())"

definition check_expiration :: "signed_transaction \<Rightarrow> database \<Rightarrow> unit result" where
  "check_expiration trx d =
     require (tx_expiration trx \<le> head_block_time d + maximum_time_until_expiration (parameters d)) Assert_failed
     (require (head_block_time d \<le> tx_expiration trx) Assert_failed (Inr ()))"

definition note_transaction :: "32 word \<Rightarrow> nat \<Rightarrow> signed_transaction \<Rightarrow> chain_state \<Rightarrow> chain_state" where
  "note_transaction skip i trx s =
     (if and skip skip_transaction_dupe_check = 0
      then s\<lparr>cs_transactions := snd (ix_create \<lparr>to_trx = trx, to_trx_id = i\<rparr> (cs_transactions s))\<rparr> else s)"

definition temp_account_empty :: "database \<Rightarrow> bool" where
  "temp_account_empty d \<longleftrightarrow> (\<forall>x\<in>set (objects (balances d)). bal_owner (snd x) = GRAPHENE_TEMP_ACCOUNT \<longrightarrow> bal_balance (snd x) = 0)"

definition fresh_evaluation_state :: transaction_evaluation_state where
  "fresh_evaluation_state = \<lparr>skip_fee = False, skip_fee_schedule_check = False\<rparr>"

definition apply_transaction ::
  "apply_env \<Rightarrow> (signed_transaction \<Rightarrow> nat) \<Rightarrow> (signed_transaction \<Rightarrow> database \<Rightarrow> unit result) \<Rightarrow> 32 word \<Rightarrow> signed_transaction \<Rightarrow>
   chain_state \<Rightarrow> (operation_result list \<times> chain_state) result" where
  "apply_transaction E hash verify skip trx s =
     rbind (transaction_validate (env_lib E) trx) (\<lambda>_.
     require (and skip skip_transaction_dupe_check \<noteq> 0 \<or> \<not> known_transaction s (hash trx)) Assert_failed
     (rbind (if and skip (or skip_transaction_signatures skip_authority_check) = 0 then verify trx (cs_db s) else Inr ()) (\<lambda>_.
      rbind (if cs_head_block_num s > 0 then rbind (check_tapos skip trx s) (\<lambda>_. check_expiration trx (cs_db s)) else Inr ()) (\<lambda>_.
      rbind (apply_operations (E\<lparr>env_state := fresh_evaluation_state\<rparr>) (tx_operations trx) (cs_db s)) (\<lambda>(results, d).
      require (head_block_time d < HARDFORK_CORE_1040_TIME \<longrightarrow> temp_account_empty d) Assert_failed
      (Inr (results, (note_transaction skip (hash trx) trx s)\<lparr>cs_db := d\<rparr>)))))))"

text \<open>A pushed transaction that fails leaves the state: its temporary session is undone.\<close>

definition push_transaction ::
  "apply_env \<Rightarrow> (signed_transaction \<Rightarrow> nat) \<Rightarrow> (signed_transaction \<Rightarrow> database \<Rightarrow> unit result) \<Rightarrow> 32 word \<Rightarrow> signed_transaction \<Rightarrow>
   chain_state \<Rightarrow> chain_state" where
  "push_transaction E hash verify skip trx s =
     (case apply_transaction E hash verify skip trx s of Inl _ \<Rightarrow> s | Inr (_, s') \<Rightarrow> s')"

definition expired_first :: "transaction_object index \<Rightarrow> (nat \<times> transaction_object) list" where
  "expired_first ix = sort_key (\<lambda>x. tx_expiration (to_trx (snd x))) (objects ix)"

definition clear_expired_transactions :: "chain_state \<Rightarrow> chain_state" where
  "clear_expired_transactions s =
     s\<lparr>cs_transactions := (cs_transactions s)\<lparr>objects :=
        fold (\<lambda>x. AList.delete (fst x)) (takeWhile (\<lambda>x. head_block_time (cs_db s) > tx_expiration (to_trx (snd x))) (expired_first (cs_transactions s)))
          (objects (cs_transactions s))\<rparr>\<rparr>"

section \<open>Transactions create no value\<close>

lemma transaction_validate_all:
  "transaction_validate F trx = Inr () \<Longrightarrow> op \<in> set (tx_operations trx) \<Longrightarrow> operation_validate F op = Inr ()"
  by (simp add: transaction_validate_def rall_Inr)

definition admissible_transaction :: "apply_env \<Rightarrow> signed_transaction \<Rightarrow> chain_state \<Rightarrow> bool" where
  "admissible_transaction E trx s \<longleftrightarrow> admissible_all (E\<lparr>env_state := fresh_evaluation_state\<rparr>) (tx_operations trx) (cs_db s)"

lemma apply_transaction_market:
  assumes F: "fc_lib_ok (env_lib E)" and ok: "market_ok (cs_db s)" and adm: "admissible_transaction E trx s"
    and run: "apply_transaction E hash verify skip trx s = Inr (rs, s')"
  shows "market_ok (cs_db s') \<and> excess (cs_db s') = excess (cs_db s) \<and> same_clock (cs_db s) (cs_db s') \<and>
     cs_transactions s' = cs_transactions (note_transaction skip (hash trx) trx s) \<and> cs_head_block_num s' = cs_head_block_num s \<and>
     cs_block_summaries s' = cs_block_summaries s \<and> length rs = length (tx_operations trx)"
proof -
  obtain d where v: "transaction_validate (env_lib E) trx = Inr ()"
    and a: "apply_operations (E\<lparr>env_state := fresh_evaluation_state\<rparr>) (tx_operations trx) (cs_db s) = Inr (rs, d)"
    and s': "s' = (note_transaction skip (hash trx) trx s)\<lparr>cs_db := d\<rparr>"
    using run by (auto simp: apply_transaction_def)
  have "market_ok d \<and> excess d = excess (cs_db s) \<and> same_clock (cs_db s) d \<and> length rs = length (tx_operations trx)"
    using apply_operations_market [of "E\<lparr>env_state := fresh_evaluation_state\<rparr>" "cs_db s" "tx_operations trx" rs d] F ok v adm a
      transaction_validate_all by (auto simp: fresh_evaluation_state_def admissible_transaction_def)
  then show ?thesis by (auto simp: s' note_transaction_def)
qed

text \<open>Transactions pushed one after the other.\<close>

fun push_transactions ::
  "apply_env \<Rightarrow> (signed_transaction \<Rightarrow> nat) \<Rightarrow> (signed_transaction \<Rightarrow> database \<Rightarrow> unit result) \<Rightarrow> 32 word \<Rightarrow> signed_transaction list \<Rightarrow>
   chain_state \<Rightarrow> chain_state" where
  "push_transactions E hash verify skip [] s = s"
| "push_transactions E hash verify skip (trx # trxs) s = push_transactions E hash verify skip trxs (push_transaction E hash verify skip trx s)"

fun admissible_transactions ::
  "apply_env \<Rightarrow> (signed_transaction \<Rightarrow> nat) \<Rightarrow> (signed_transaction \<Rightarrow> database \<Rightarrow> unit result) \<Rightarrow> 32 word \<Rightarrow> signed_transaction list \<Rightarrow>
   chain_state \<Rightarrow> bool" where
  "admissible_transactions E hash verify skip [] s \<longleftrightarrow> True"
| "admissible_transactions E hash verify skip (trx # trxs) s \<longleftrightarrow> admissible_transaction E trx s \<and>
     admissible_transactions E hash verify skip trxs (push_transaction E hash verify skip trx s)"

lemma push_transaction_market:
  assumes "fc_lib_ok (env_lib E)" and "market_ok (cs_db s)" and "admissible_transaction E trx s"
  shows "market_ok (cs_db (push_transaction E hash verify skip trx s)) \<and>
     excess (cs_db (push_transaction E hash verify skip trx s)) = excess (cs_db s) \<and>
     same_clock (cs_db s) (cs_db (push_transaction E hash verify skip trx s))"
proof (cases "apply_transaction E hash verify skip trx s")
  case (Inr x)
  then show ?thesis using apply_transaction_market [OF assms, of hash verify skip "fst x" "snd x"] by (cases x) (simp add: push_transaction_def)
qed (simp add: push_transaction_def assms(2))

text \<open>Transactions create and destroy no value: whatever transactions are pushed, with any operations of the model in any
  order, accepted or refused, and whatever the market engine does on the way (matches, margin calls, global settlements,
  revivals), what is held of every asset \<open>a\<close> stays in step with its supply, and the state of the market stays well formed.\<close>

theorem transactions_conserve_value:
  assumes "fc_lib_ok (env_lib E)" and "market_ok (cs_db s)" and "admissible_transactions E hash verify skip trxs s"
  shows "market_ok (cs_db (push_transactions E hash verify skip trxs s)) \<and>
     excess (cs_db (push_transactions E hash verify skip trxs s)) a = excess (cs_db s) a"
  using assms(2,3)
proof (induction trxs arbitrary: s)
  case (Cons trx trxs)
  note P = push_transaction_market [OF assms(1) Cons.prems(1), of trx hash verify skip]
  show ?case using Cons.IH [of "push_transaction E hash verify skip trx s"] Cons.prems(2) P by simp
qed simp

section \<open>No transaction is applied twice\<close>

lemma fold_delete: "fold (\<lambda>x. AList.delete (fst x)) xs al = filter (\<lambda>y. fst y \<notin> fst ` set xs) al"
  by (induction xs arbitrary: al) (auto simp: AList.delete_eq intro!: filter_cong)

lemma expired_sound:
  assumes "x \<in> set (objects (cs_transactions s))" and "x \<notin> set (objects (cs_transactions (clear_expired_transactions s)))"
    and ok: "ix_ok (cs_transactions s)"
  shows "tx_expiration (to_trx (snd x)) < head_block_time (cs_db s)"
proof -
  let ?T = "takeWhile (\<lambda>x. head_block_time (cs_db s) > tx_expiration (to_trx (snd x))) (expired_first (cs_transactions s))"
  obtain y where y: "y \<in> set ?T" "fst y = fst x" using assms(1,2) by (auto simp: clear_expired_transactions_def fold_delete)
  have "y \<in> set (objects (cs_transactions s))" using set_takeWhileD [OF y(1)] by (simp add: expired_first_def)
  then have "y = x" using ok assms(1) y(2) by (auto simp: ix_ok_def distinct_map inj_on_def)
  then show ?thesis using set_takeWhileD [OF y(1)] by simp
qed

lemma clear_expired_ok: "ix_ok (cs_transactions s) \<Longrightarrow> ix_ok (cs_transactions (clear_expired_transactions s))"
  by (auto simp: clear_expired_transactions_def fold_delete ix_ok_def distinct_map inj_on_def)

lemma clear_expired_subset: "set (objects (cs_transactions (clear_expired_transactions s))) \<subseteq> set (objects (cs_transactions s))"
  by (auto simp: clear_expired_transactions_def fold_delete)

text \<open>The steps of a chain as far as transactions are concerned: a transaction is applied with its checks on, expired transactions
  are forgotten, which happens in a block and so with a head block, and anything else that leaves the known transactions and does not
  turn back the clock. The label is the id of the transaction applied.\<close>

inductive chain_step ::
  "apply_env \<Rightarrow> (signed_transaction \<Rightarrow> nat) \<Rightarrow> (signed_transaction \<Rightarrow> database \<Rightarrow> unit result) \<Rightarrow> nat option \<Rightarrow> chain_state \<Rightarrow> chain_state \<Rightarrow> bool"
  for E hash verify where
  applied: "apply_transaction E hash verify skip trx s = Inr (rs, s') \<Longrightarrow> and skip skip_transaction_dupe_check = 0 \<Longrightarrow>
     admissible_transaction E trx s \<Longrightarrow> chain_step E hash verify (Some (hash trx)) s s'"
| cleared: "0 < cs_head_block_num s \<Longrightarrow> chain_step E hash verify None s (clear_expired_transactions s)"
| passed: "cs_transactions s' = cs_transactions s \<Longrightarrow> market_ok (cs_db s') \<Longrightarrow>
     head_block_time (cs_db s) \<le> head_block_time (cs_db s') \<Longrightarrow> cs_head_block_num s \<le> cs_head_block_num s' \<Longrightarrow> chain_step E hash verify None s s'"

inductive chain_run ::
  "apply_env \<Rightarrow> (signed_transaction \<Rightarrow> nat) \<Rightarrow> (signed_transaction \<Rightarrow> database \<Rightarrow> unit result) \<Rightarrow> nat list \<Rightarrow> chain_state \<Rightarrow> chain_state \<Rightarrow> bool"
  for E hash verify where
  start: "chain_run E hash verify [] s s"
| step: "chain_run E hash verify ids s s1 \<Longrightarrow> chain_step E hash verify l s1 s2 \<Longrightarrow>
     chain_run E hash verify (case l of None \<Rightarrow> ids | Some i \<Rightarrow> i # ids) s s2"

text \<open>An id that was applied is known, or all transactions with that id have expired.\<close>

definition known_or_expired :: "(signed_transaction \<Rightarrow> nat) \<Rightarrow> chain_state \<Rightarrow> nat \<Rightarrow> bool" where
  "known_or_expired hash s i \<longleftrightarrow> known_transaction s i \<or>
     0 < cs_head_block_num s \<and> (\<forall>trx. hash trx = i \<longrightarrow> tx_expiration trx < head_block_time (cs_db s))"

definition transactions_ok :: "(signed_transaction \<Rightarrow> nat) \<Rightarrow> chain_state \<Rightarrow> bool" where
  "transactions_ok hash s \<longleftrightarrow> market_ok (cs_db s) \<and> ix_ok (cs_transactions s) \<and>
     (\<forall>x\<in>set (objects (cs_transactions s)). to_trx_id (snd x) = hash (to_trx (snd x)))"

lemma apply_transaction_new:
  assumes run: "apply_transaction E hash verify skip trx s = Inr (rs, s')" and skip: "and skip skip_transaction_dupe_check = 0"
  shows "\<not> known_or_expired hash s (hash trx)"
proof -
  have "\<not> known_transaction s (hash trx)" using run skip by (auto simp: apply_transaction_def)
  moreover have "0 < cs_head_block_num s \<Longrightarrow> head_block_time (cs_db s) \<le> tx_expiration trx"
    using run by (auto simp: apply_transaction_def check_expiration_def)
  ultimately show ?thesis unfolding known_or_expired_def using leD by blast
qed

lemma chain_step_keeps:
  assumes F: "fc_lib_ok (env_lib E)" and h: "\<And>t t'. hash t = hash t' \<Longrightarrow> tx_expiration t = tx_expiration t'"
    and step: "chain_step E hash verify l s s'" and ok: "transactions_ok hash s"
  shows "transactions_ok hash s' \<and> (\<forall>i. known_or_expired hash s i \<longrightarrow> known_or_expired hash s' i) \<and>
     (\<forall>i. l = Some i \<longrightarrow> \<not> known_or_expired hash s i \<and> known_or_expired hash s' i)"
  using step
proof cases
  case (applied skip trx rs)
  have M: "market_ok (cs_db s')" "same_clock (cs_db s) (cs_db s')" "cs_head_block_num s' = cs_head_block_num s"
      "cs_transactions s' = snd (ix_create \<lparr>to_trx = trx, to_trx_id = hash trx\<rparr> (cs_transactions s))"
    using apply_transaction_market [OF F _ applied(4,2)] ok applied(3) by (auto simp: transactions_ok_def note_transaction_def)
  have ob: "set (objects (cs_transactions s')) = insert (next_id (cs_transactions s), \<lparr>to_trx = trx, to_trx_id = hash trx\<rparr>) (set (objects (cs_transactions s)))"
    by (simp add: M(4) ix_create_def)
  have "ix_ok (cs_transactions s')"
    using ok ix_create_facts [of "cs_transactions s" "\<lparr>to_trx = trx, to_trx_id = hash trx\<rparr>"] unfolding M(4) transactions_ok_def by (metis prod.collapse)
  then have "transactions_ok hash s'" using ok M(1) ob by (auto simp: transactions_ok_def)
  moreover have "known_or_expired hash s' i" if "known_or_expired hash s i" for i
    using that ob M by (auto simp: known_or_expired_def known_transaction_def)
  moreover have "known_or_expired hash s' (hash trx)" using ob by (auto simp: known_or_expired_def known_transaction_def)
  ultimately show ?thesis using apply_transaction_new [OF applied(2,3)] applied(1) by auto
next
  case cleared
  have keep: "known_or_expired hash s' i" if k: "known_or_expired hash s i" for i
  proof (cases "known_transaction s i \<and> \<not> known_transaction s' i")
    case True
    then obtain x where x: "x \<in> set (objects (cs_transactions s))" "to_trx_id (snd x) = i" "x \<notin> set (objects (cs_transactions s'))"
      by (auto simp: known_transaction_def)
    have "tx_expiration (to_trx (snd x)) < head_block_time (cs_db s)"
      using expired_sound [of x s] x cleared(2) ok by (simp add: transactions_ok_def)
    moreover have "hash (to_trx (snd x)) = i" using ok x(1,2) by (auto simp: transactions_ok_def)
    ultimately have "tx_expiration trx < head_block_time (cs_db s)" if "hash trx = i" for trx using h [of trx "to_trx (snd x)"] that by simp
    then show ?thesis using cleared by (auto simp: known_or_expired_def clear_expired_transactions_def)
  next
    case False
    then show ?thesis using k cleared by (auto simp: known_or_expired_def clear_expired_transactions_def)
  qed
  have "cs_db s' = cs_db s" using cleared by (simp add: clear_expired_transactions_def)
  then have "transactions_ok hash s'"
    using ok clear_expired_ok [of s] clear_expired_subset [of s] cleared(2) by (auto simp: transactions_ok_def)
  then show ?thesis using keep cleared(1) by auto
next
  case passed
  have "known_or_expired hash s' i" if "known_or_expired hash s i" for i
    using that passed by (auto simp: known_or_expired_def known_transaction_def)
  then show ?thesis using passed ok by (auto simp: transactions_ok_def)
qed

text \<open>C4. No transaction is applied twice: in any run of a chain, across blocks, with expired transactions forgotten on the
  way, the ids of the applied transactions are distinct and were not known at the start, as long as transactions with the same
  id have the same expiration.\<close>

theorem no_transaction_replay:
  assumes F: "fc_lib_ok (env_lib E)" and h: "\<And>t t'. hash t = hash t' \<Longrightarrow> tx_expiration t = tx_expiration t'"
    and run: "chain_run E hash verify ids s s'" and ok: "transactions_ok hash s"
  shows "distinct ids \<and> (\<forall>i\<in>set ids. \<not> known_transaction s i \<and> known_or_expired hash s' i) \<and> transactions_ok hash s'"
proof -
  have "distinct ids \<and> transactions_ok hash s' \<and> (\<forall>i\<in>set ids. \<not> known_or_expired hash s i \<and> known_or_expired hash s' i) \<and>
      (\<forall>i. known_or_expired hash s i \<longrightarrow> known_or_expired hash s' i)"
    using run ok
  proof (induction rule: chain_run.induct)
    case (step ids s s1 l s2)
    note K = chain_step_keeps [OF F h step.hyps(2)]
    show ?case using step.IH step.prems K by (cases l) auto
  qed simp
  then show ?thesis by (auto simp: known_or_expired_def)
qed

section \<open>A transaction on concrete input\<close>

definition sample_env :: apply_env where
  "sample_env = \<lparr>env_lib = fc_reference, env_nth_element = (\<lambda>cmp n xs. xs), env_state = sample_state, env_fuel = 10, env_fee = (\<lambda>_. 10)\<rparr>"

definition sample_transaction :: signed_transaction where
  "sample_transaction = \<lparr>tx_ref_block_num = 7, tx_ref_block_prefix = 9, tx_expiration = 1600000030, tx_operations = [Transfer sample_transfer],
     tx_signatures = []\<rparr>"

definition sample_chain :: chain_state where
  "sample_chain = \<lparr>cs_db = sample_db, cs_transactions = list_index [], cs_block_summaries = list_index [1, 2, 3, 4, 5, 6, 8, 9],
     cs_head_block_num = 7\<rparr>"

definition sample_hash :: "signed_transaction \<Rightarrow> nat" where "sample_hash trx = unat (tx_expiration trx)"

lemma sample_hash_expiration: "sample_hash t = sample_hash t' \<Longrightarrow> tx_expiration t = tx_expiration t'"
  by (simp add: sample_hash_def word_unat_eq_iff)

lemmas sample_transaction_defs = sample_env_def sample_transaction_def sample_chain_def sample_state_def fresh_evaluation_state_def

lemma sample_admissible: "admissible_transaction sample_env sample_transaction sample_chain"
  by (auto simp: admissible_transaction_def sample_transaction_defs split: sum.splits)

lemma sample_checks:
  "transaction_validate fc_reference sample_transaction = Inr ()"
  "check_tapos 0 sample_transaction sample_chain = Inr ()"
  "check_expiration sample_transaction sample_db = Inr ()"
  "\<not> known_transaction sample_chain i"
  by (simp_all add: transaction_validate_def sample_transaction_defs transfer_validate_def sample_transfer_def check_tapos_def index_get_def
      index_find_def list_index_def check_expiration_def known_transaction_def sample_defs require_def upt_rec)

lemma sample_transaction_runs:
  "succeeds (apply_transaction sample_env sample_hash (\<lambda>_ _. Inr ()) 0 sample_transaction sample_chain)"
proof -
  let ?E = "sample_env\<lparr>env_state := fresh_evaluation_state\<rparr>"
  obtain d' where d': "run_transfer fc_reference sample_state 10 sample_transfer sample_db = Inr ((), d')"
    using sample_transfer_runs by (auto simp: succeeds_iff)
  then have a: "apply_operations ?E (tx_operations sample_transaction) sample_db = Inr ([Void_result], d')"
    by (simp add: sample_transaction_defs run_plain_def with_result_def run_transfer_def)
  have "same_clock sample_db d'"
    using apply_operations_market [OF _ _ sample_db_market _ _ a] sample_checks(1) sample_admissible transaction_validate_all [of fc_reference sample_transaction]
    by (auto simp: admissible_transaction_def sample_env_def fresh_evaluation_state_def fc_reference_ok sample_chain_def)
  then have "HARDFORK_CORE_1040_TIME \<le> head_block_time d'" by (simp add: sample_db_def HARDFORK_CORE_1040_TIME_def)
  then show ?thesis using sample_checks a by (simp add: apply_transaction_def sample_env_def sample_chain_def require_def succeeds_iff not_less [symmetric])
qed

theorem transactions_conserve_value_witness:
  "market_ok (cs_db (push_transactions sample_env sample_hash (\<lambda>_ _. Inr ()) 0 [sample_transaction] sample_chain)) \<and>
   excess (cs_db (push_transactions sample_env sample_hash (\<lambda>_ _. Inr ()) 0 [sample_transaction] sample_chain)) 1 = 0"
  using transactions_conserve_value [of sample_env sample_chain sample_hash "\<lambda>_ _. Inr ()" 0 "[sample_transaction]" 1] sample_admissible
    sample_db_market fc_reference_ok sample_db_excess(2) by (simp add: sample_env_def sample_chain_def)

theorem no_transaction_replay_witness:
  "\<exists>s'. chain_run sample_env sample_hash (\<lambda>_ _. Inr ()) [1600000030] sample_chain s' \<and> known_or_expired sample_hash s' 1600000030"
proof -
  obtain rs s' where r: "apply_transaction sample_env sample_hash (\<lambda>_ _. Inr ()) 0 sample_transaction sample_chain = Inr (rs, s')"
    using sample_transaction_runs by (auto simp: succeeds_iff)
  have "chain_step sample_env sample_hash (\<lambda>_ _. Inr ()) (Some (sample_hash sample_transaction)) sample_chain s'"
    by (rule chain_step.applied [OF r _ sample_admissible]) simp
  from chain_run.step [OF chain_run.start this] have c: "chain_run sample_env sample_hash (\<lambda>_ _. Inr ()) [1600000030] sample_chain s'"
    by (simp add: sample_hash_def sample_transaction_def)
  have "transactions_ok sample_hash sample_chain"
    by (simp add: transactions_ok_def sample_chain_def sample_db_market list_index_def ix_ok_def)
  note R = no_transaction_replay [OF _ sample_hash_expiration c this]
  have "fc_lib_ok (env_lib sample_env)" by (simp add: sample_env_def fc_reference_ok)
  from R [OF this] c show ?thesis by (auto intro!: exI [of _ s'])
qed

end
