(* ===== verification/Price_Ratio.thy ===== *)
theory Price_Ratio
  imports Asset
begin

text \<open>
  A price times or divided by a ratio: \<^verbatim>\<open>operator *\<close> and \<^verbatim>\<open>operator /\<close> on \<^verbatim>\<open>price\<close> and \<^verbatim>\<open>ratio_type\<close> in
  \<^verbatim>\<open>protocol/asset.cpp\<close>, which give the price of a forced settlement.

  The comparison of two distances between rationals is arithmetic of \<^verbatim>\<open>boost::rational<int128_t>\<close>, the argument \<open>closer\<close>:
  \<open>closer x y z\<close> says that \<open>x\<close> is nearer to \<open>z\<close> than \<open>y\<close> is. No law is asked of it.
\<close>

section \<open>Model\<close>

type_synonym fraction = "int \<times> int"

text \<open>The loop; its second result is the flag \<^verbatim>\<open>shrinked\<close>. An \<^verbatim>\<open>int128_t\<close> has 127 value bits, so a fuel of 128 passes is enough
  (\<open>ratio_loop_returns\<close>).\<close>

fun ratio_loop :: "fc_lib \<Rightarrow> nat \<Rightarrow> fraction \<Rightarrow> bool \<Rightarrow> (fraction \<times> bool) result" where
  "ratio_loop F 0 cp shrinked = Inl Out_of_fuel"
| "ratio_loop F (Suc fuel) cp shrinked =
     (if fst cp > GRAPHENE_MAX_SHARE_SUPPLY \<or> snd cp > GRAPHENE_MAX_SHARE_SUPPLY
      then if fst cp = 1 then rbind (of_option Bad_rational (rational_of F 1 GRAPHENE_MAX_SHARE_SUPPLY)) (\<lambda>cp. Inr (cp, shrinked))
           else if snd cp = 1 then rbind (of_option Bad_rational (rational_of F GRAPHENE_MAX_SHARE_SUPPLY 1)) (\<lambda>cp. Inr (cp, shrinked))
           else rbind (of_option Bad_rational (rational_of F (fst cp div 2) (snd cp div 2))) (\<lambda>cp. ratio_loop F fuel cp True)
      else Inr (cp, shrinked))"

definition whole_ratio :: "fraction \<Rightarrow> fraction" where
  "whole_ratio ocp =
     (if fst ocp > snd ocp then (min (fst ocp div snd ocp) GRAPHENE_MAX_SHARE_SUPPLY, 1)
      else (1, min (snd ocp div fst ocp) GRAPHENE_MAX_SHARE_SUPPLY))"

definition refine_ratio :: "fc_lib \<Rightarrow> (fraction \<Rightarrow> fraction \<Rightarrow> fraction \<Rightarrow> bool) \<Rightarrow> fraction \<Rightarrow> fraction \<Rightarrow> fraction result" where
  "refine_ratio F closer ocp cp =
     (let (num, den) = whole_ratio ocp
      in rbind (of_option Bad_rational (rational_of F num den)) (\<lambda>ncp.
         Inr (if num = GRAPHENE_MAX_SHARE_SUPPLY \<or> den = GRAPHENE_MAX_SHARE_SUPPLY \<or> closer ncp cp ocp then ncp else cp)))"

definition price_times_ratio :: "fc_lib \<Rightarrow> (fraction \<Rightarrow> fraction \<Rightarrow> fraction \<Rightarrow> bool) \<Rightarrow> price \<Rightarrow> fraction \<Rightarrow> price result" where
  "price_times_ratio F closer p r =
     rbind (price_validate p) (\<lambda>_.
     require (fst r > 0 \<and> snd r > 0) Assert_failed
     (if fst r = snd r then Inr p
      else rbind (of_option Bad_rational (rational_of F (amount (base p)) (amount (quote p)))) (\<lambda>p128.
           rbind (of_option Bad_rational (rational_of F (fst r) (snd r))) (\<lambda>r128.
           let ocp = rational_mul F p128 r128
           in rbind (ratio_loop F 128 ocp False) (\<lambda>(cp, shrinked).
              rbind (if shrinked then refine_ratio F closer ocp cp else Inr cp) (\<lambda>cp.
              rbind (price_div (mk_asset (fst cp) (asset_id (base p))) (mk_asset (snd cp) (asset_id (quote p)))) (\<lambda>np.
              let np = (if fst r > snd r \<and> price_less np p \<or> fst r < snd r \<and> price_less p np then p else np)
              in rbind (price_validate np) (\<lambda>_. Inr np))))))))"

definition price_over_ratio :: "fc_lib \<Rightarrow> (fraction \<Rightarrow> fraction \<Rightarrow> fraction \<Rightarrow> bool) \<Rightarrow> price \<Rightarrow> fraction \<Rightarrow> price result" where
  "price_over_ratio F closer p r =
     rbind (of_option Bad_rational (rational_of F (snd r) (fst r))) (price_times_ratio F closer p)"

section \<open>The product returns, and on the right side\<close>

definition share_fraction :: "fraction \<Rightarrow> bool" where
  "share_fraction x \<longleftrightarrow> 0 < fst x \<and> fst x \<le> GRAPHENE_MAX_SHARE_SUPPLY \<and> 0 < snd x \<and> snd x \<le> GRAPHENE_MAX_SHARE_SUPPLY"

lemma share_fraction_normal: "0 < n \<Longrightarrow> n \<le> GRAPHENE_MAX_SHARE_SUPPLY \<Longrightarrow> 0 < m \<Longrightarrow> m \<le> GRAPHENE_MAX_SHARE_SUPPLY \<Longrightarrow> share_fraction (normal_fraction n m)"
  using normal_fraction_pos [of n m] by (auto simp: share_fraction_def)

lemma half_pos: "0 < (x::int) \<Longrightarrow> x \<noteq> 1 \<Longrightarrow> 0 < x div 2"
  by presburger

lemma ratio_loop_returns:
  assumes ok: "fc_lib_ok F"
  shows "0 < fst x \<Longrightarrow> fst x \<le> GRAPHENE_MAX_SHARE_SUPPLY * 2 ^ k \<Longrightarrow> 0 < snd x \<Longrightarrow> snd x \<le> GRAPHENE_MAX_SHARE_SUPPLY * 2 ^ k \<Longrightarrow> k < fuel \<Longrightarrow>
    \<exists>cp b. ratio_loop F fuel x s = Inr (cp, b) \<and> share_fraction cp"
proof (induction k arbitrary: x fuel s)
  case 0
  then show ?case by (cases fuel) (simp_all add: share_fraction_def)
next
  case (Suc k)
  obtain f where f: "fuel = Suc f" "k < f" using Suc.prems(5) by (cases fuel) auto
  note R = fc_safe_simps(4) [OF ok]
  have one: "share_fraction (normal_fraction 1 GRAPHENE_MAX_SHARE_SUPPLY)" "share_fraction (normal_fraction GRAPHENE_MAX_SHARE_SUPPLY 1)"
    by (intro share_fraction_normal; simp add: config_defs)+
  show ?case
  proof (cases "(fst x > GRAPHENE_MAX_SHARE_SUPPLY \<or> snd x > GRAPHENE_MAX_SHARE_SUPPLY) \<and> fst x \<noteq> 1 \<and> snd x \<noteq> 1")
    case True
    let ?y = "normal_fraction (fst x div 2) (snd x div 2)"
    have h: "0 < fst x div 2" "0 < snd x div 2" using True Suc.prems(1,3) half_pos by auto
    have l: "fst x div 2 \<le> GRAPHENE_MAX_SHARE_SUPPLY * 2 ^ k" "snd x div 2 \<le> GRAPHENE_MAX_SHARE_SUPPLY * 2 ^ k"
      using Suc.prems(2,4) by simp_all
    note N = normal_fraction_pos [OF h]
    have "fst ?y \<le> GRAPHENE_MAX_SHARE_SUPPLY * 2 ^ k" "snd ?y \<le> GRAPHENE_MAX_SHARE_SUPPLY * 2 ^ k" using N l by linarith+
    from Suc.IH [OF N(1) this(1) N(2) this(2) f(2)] have "\<exists>cp b. ratio_loop F f ?y True = Inr (cp, b) \<and> share_fraction cp" .
    then show ?thesis using True h by (simp add: f R)
  next
    case False
    show ?thesis
    proof (cases "fst x > GRAPHENE_MAX_SHARE_SUPPLY \<or> snd x > GRAPHENE_MAX_SHARE_SUPPLY")
      case True
      then show ?thesis using False one by (auto simp: f R config_defs simp del: split_paired_Ex)
    next
      case False
      then show ?thesis using Suc.prems by (simp add: f share_fraction_def)
    qed
  qed
qed

lemma whole_ratio_share:
  assumes "0 < fst x" and "0 < snd x"
  shows "share_fraction (whole_ratio x)"
proof (cases "fst x > snd x")
  case True
  then show ?thesis using assms by (auto simp: whole_ratio_def share_fraction_def pos_imp_zdiv_pos_iff config_defs)
next
  case False
  then show ?thesis using assms by (auto simp: whole_ratio_def share_fraction_def pos_imp_zdiv_pos_iff config_defs)
qed

lemma refine_ratio_share:
  assumes ok: "fc_lib_ok F" and "0 < fst ocp" and "0 < snd ocp" and "share_fraction cp"
  shows "\<exists>x. refine_ratio F closer ocp cp = Inr x \<and> share_fraction x"
proof -
  obtain n m where nm: "whole_ratio ocp = (n, m)" by (rule prod.exhaust)
  have s: "share_fraction (n, m)" using whole_ratio_share [OF assms(2,3)] nm by simp
  then have "share_fraction (normal_fraction n m)" by (intro share_fraction_normal) (simp_all add: share_fraction_def)
  then show ?thesis using s assms(4) by (auto simp: refine_ratio_def nm fc_safe_simps(4) [OF ok] share_fraction_def)
qed

text \<open>A valid price times a ratio of two positive 31-bit numbers: the raw quotient of the code.\<close>

lemma price_product:
  assumes ok: "fc_lib_ok F" and p: "price_ok p" and r: "0 < fst r" "fst r < 2 ^ 31" "0 < snd r" "snd r < 2 ^ 31" "fst r \<noteq> snd r"
    and d: "asset_id (base p) \<noteq> asset_id (quote p)"
  shows "\<exists>x. share_fraction x \<and> (let np = mk_price (mk_asset (fst x) (asset_id (base p))) (mk_asset (snd x) (asset_id (quote p)))
       in price_times_ratio F closer p r = Inr (if fst r > snd r \<and> price_less np p \<or> fst r < snd r \<and> price_less p np then p else np)) \<and>
     (amount (base p) * fst r \<le> GRAPHENE_MAX_SHARE_SUPPLY \<and> amount (quote p) * snd r \<le> GRAPHENE_MAX_SHARE_SUPPLY \<longrightarrow>
        fst x * (amount (quote p) * snd r) = (amount (base p) * fst r) * snd x)"
proof -
  have pos: "0 < amount (base p)" "0 < amount (quote p)" "amount (base p) < 2 ^ 63" "amount (quote p) < 2 ^ 63" using p by (simp_all add: price_ok_def pos64_def)
  obtain n m where nm: "rational_mul F (normal_fraction (amount (base p)) (amount (quote p))) (normal_fraction (fst r) (snd r)) = (n, m)"
      "0 < n" "n \<le> amount (base p) * fst r" "0 < m" "m \<le> amount (quote p) * snd r"
      "n * (amount (quote p) * snd r) = (amount (base p) * fst r) * m"
    using rational_product_bounds [OF ok pos(1,2) r(1,3)] by auto
  have "amount (base p) * fst r \<le> 2 ^ 63 * 2 ^ 31" "amount (quote p) * snd r \<le> 2 ^ 63 * 2 ^ 31" using pos r by (intro mult_mono; simp)+
  then have b: "n \<le> GRAPHENE_MAX_SHARE_SUPPLY * 2 ^ 50" "m \<le> GRAPHENE_MAX_SHARE_SUPPLY * 2 ^ 50" using nm(3,5) by (simp_all add: config_defs)
  obtain cp s where cp: "ratio_loop F 128 (n, m) False = Inr (cp, s)" "share_fraction cp"
  proof -
    have "\<exists>cp s. ratio_loop F 128 (n, m) False = Inr (cp, s) \<and> share_fraction cp"
      by (rule ratio_loop_returns [OF ok, of "(n, m)" 50]) (use nm(2,4) b in simp_all)
    then show thesis using that by blast
  qed
  obtain x where x: "(if s then refine_ratio F closer (n, m) cp else Inr cp) = Inr x" "share_fraction x"
    using refine_ratio_share [OF ok _ _ cp(2), of "(n, m)" closer] nm(2,4) cp(2) by (cases s) (auto simp del: split_paired_Ex split_paired_All)
  let ?np = "mk_price (mk_asset (fst x) (asset_id (base p))) (mk_asset (snd x) (asset_id (quote p)))"
  have "price_times_ratio F closer p r = Inr (if fst r > snd r \<and> price_less ?np p \<or> fst r < snd r \<and> price_less p ?np then p else ?np)"
  proof -
    have v: "price_validate p = Inr ()" "price_validate ?np = Inr ()" using pos d x(2) by (simp_all add: price_validate_def share_fraction_def)
    have w: "price_validate (if fst r > snd r \<and> price_less ?np p \<or> fst r < snd r \<and> price_less p ?np then p else ?np) = Inr ()" using v by simp
    note S = v fc_safe_simps(4) [OF ok] price_div_def nm(1) cp(1)
    show ?thesis
    proof (cases s)
      case True
      then have "refine_ratio F closer (n, m) cp = Inr x" using x(1) by simp
      then show ?thesis using r pos d True unfolding price_times_ratio_def Let_def by (simp add: S del: rbind_eq_Inr)
    next
      case False
      then have "cp = x" using x(1) by simp
      then show ?thesis using r pos d False unfolding price_times_ratio_def Let_def by (simp add: S del: rbind_eq_Inr)
    qed
  qed
  moreover have "x = (n, m)" if "amount (base p) * fst r \<le> GRAPHENE_MAX_SHARE_SUPPLY" "amount (quote p) * snd r \<le> GRAPHENE_MAX_SHARE_SUPPLY"
  proof -
    have "n \<le> GRAPHENE_MAX_SHARE_SUPPLY" "m \<le> GRAPHENE_MAX_SHARE_SUPPLY" using that nm(3,5) by simp_all
    then have "ratio_loop F 128 (n, m) False = Inr ((n, m), False)" by (simp add: numeral_eq_Suc)
    then show ?thesis using cp(1) x(1) by simp
  qed
  ultimately show ?thesis using x(2) nm(6) by (intro exI [of _ x]) (auto simp: Let_def)
qed

lemma scaled_direction:
  fixes x y b f q s :: int
  assumes h: "x * (q * s) = (b * f) * y" and pos: "0 < b" "0 < y" "0 < s" "0 < f"
  shows "s < f \<Longrightarrow> \<not> x * q < b * y" and "f < s \<Longrightarrow> \<not> b * y < x * q"
proof -
  have bp: "0 < b * y" using pos by simp
  have e: "x * q * s = b * y * f" using h by (simp add: algebra_simps)
  show "\<not> x * q < b * y" if "s < f"
  proof
    assume "x * q < b * y"
    then have "x * q * s < b * y * s" using pos(3) by simp
    moreover have "b * y * s < b * y * f" using mult_strict_left_mono [OF that bp] .
    ultimately show False using e by simp
  qed
  show "\<not> b * y < x * q" if "f < s"
  proof
    assume "b * y < x * q"
    then have "b * y * s < x * q * s" using pos(3) by simp
    moreover have "b * y * f < b * y * s" using mult_strict_left_mono [OF that bp] .
    ultimately show False using e by simp
  qed
qed

lemma price_ratio_returns:
  assumes ok: "fc_lib_ok F" and p: "price_ok p" and r: "0 < fst r" "fst r < 2 ^ 31" "0 < snd r" "snd r < 2 ^ 31"
    and d: "asset_id (base p) \<noteq> asset_id (quote p)"
  shows "\<exists>q. price_times_ratio F closer p r = Inr q \<and> price_ok q \<and> asset_id (base q) = asset_id (base p) \<and> asset_id (quote q) = asset_id (quote p) \<and>
     (snd r \<le> fst r \<longrightarrow> \<not> price_less q p) \<and> (fst r \<le> snd r \<longrightarrow> \<not> price_less p q) \<and>
     (amount (base p) * fst r \<le> GRAPHENE_MAX_SHARE_SUPPLY \<and> amount (quote p) * snd r \<le> GRAPHENE_MAX_SHARE_SUPPLY \<longrightarrow>
        amount (base q) * (amount (quote p) * snd r) = (amount (base p) * fst r) * amount (quote q))"
proof -
  have irr: "\<not> price_less p p" using p by (simp add: price_less_cross same_market_def price_ok_def pos64_def)
  have pos: "0 < amount (base p)" "0 < amount (quote p)" using p by (simp_all add: price_ok_def pos64_def)
  show ?thesis
  proof (cases "fst r = snd r")
    case True
    then have "price_times_ratio F closer p r = Inr p" using pos d r by (simp add: price_times_ratio_def price_validate_def)
    then show ?thesis using True irr p by (intro exI [of _ p]) simp
  next
    case False
    obtain x where x: "share_fraction x" and e: "let np = mk_price (mk_asset (fst x) (asset_id (base p))) (mk_asset (snd x) (asset_id (quote p)))
       in price_times_ratio F closer p r = Inr (if fst r > snd r \<and> price_less np p \<or> fst r < snd r \<and> price_less p np then p else np)"
      and fit: "amount (base p) * fst r \<le> GRAPHENE_MAX_SHARE_SUPPLY \<and> amount (quote p) * snd r \<le> GRAPHENE_MAX_SHARE_SUPPLY \<longrightarrow>
        fst x * (amount (quote p) * snd r) = (amount (base p) * fst r) * snd x"
      using price_product [OF ok p r False d, of closer] by blast
    define np where "np = mk_price (mk_asset (fst x) (asset_id (base p))) (mk_asset (snd x) (asset_id (quote p)))"
    let ?q = "if fst r > snd r \<and> price_less np p \<or> fst r < snd r \<and> price_less p np then p else np"
    have np: "price_ok np" using x by (simp add: np_def share_fraction_def price_ok_def pos64_def config_defs)
    have less: "price_less np p \<longleftrightarrow> fst x * amount (quote p) < amount (base p) * snd x" "price_less p np \<longleftrightarrow> amount (base p) * snd x < fst x * amount (quote p)"
      using np p by (simp_all add: price_less_cross same_market_def np_def price_ok_def pos64_def)
    have "?q = np" if h: "fst x * (amount (quote p) * snd r) = (amount (base p) * fst r) * snd x"
      using scaled_direction [OF h pos(1) _ r(3,1)] x less by (auto simp: share_fraction_def)
    moreover have "price_times_ratio F closer p r = Inr ?q" using e by (simp add: np_def Let_def)
    moreover have "price_ok ?q \<and> asset_id (base ?q) = asset_id (base p) \<and> asset_id (quote ?q) = asset_id (quote p)" using p np by (simp add: np_def)
    moreover have "(snd r \<le> fst r \<longrightarrow> \<not> price_less ?q p) \<and> (fst r \<le> snd r \<longrightarrow> \<not> price_less p ?q)" using irr False by auto
    ultimately show ?thesis using fit by (intro exI [of _ ?q]) (simp add: np_def del: if_split)
  qed
qed

text \<open>C37. Scaling a valid price by a ratio of positive 31-bit numbers returns: the loop ends, nothing is divided by zero, and the result is a
  valid price of the same two assets. A ratio of at least one never lowers the price, one of at most one never raises it, and the
  result is exact whenever the two products fit the share supply.\<close>

theorem price_times_ratio_correct:
  assumes ok: "fc_lib_ok F" and p: "price_ok p" and r: "0 < fst r" "fst r < 2 ^ 31" "0 < snd r" "snd r < 2 ^ 31"
    and d: "asset_id (base p) \<noteq> asset_id (quote p)"
  shows "\<exists>q. price_times_ratio F closer p r = Inr q \<and> price_ok q \<and> asset_id (base q) = asset_id (base p) \<and> asset_id (quote q) = asset_id (quote p) \<and>
     (snd r \<le> fst r \<longrightarrow> \<not> price_less q p) \<and> (fst r \<le> snd r \<longrightarrow> \<not> price_less p q) \<and>
     (amount (base p) * fst r \<le> GRAPHENE_MAX_SHARE_SUPPLY \<and> amount (quote p) * snd r \<le> GRAPHENE_MAX_SHARE_SUPPLY \<longrightarrow>
        amount (base q) * (amount (quote p) * snd r) = (amount (base p) * fst r) * amount (quote q))"
  by (rule price_ratio_returns [OF assms])

lemma price_over_ratio_returns:
  assumes ok: "fc_lib_ok F" and p: "price_ok p" and r: "0 < fst r" "fst r < 2 ^ 31" "0 < snd r" "snd r < 2 ^ 31"
    and d: "asset_id (base p) \<noteq> asset_id (quote p)"
  shows "\<exists>q. price_over_ratio F closer p r = Inr q \<and> price_ok q \<and> asset_id (base q) = asset_id (base p) \<and> asset_id (quote q) = asset_id (quote p)"
proof -
  let ?r = "normal_fraction (snd r) (fst r)"
  note N = normal_fraction_pos [OF r(3,1)]
  have "fst ?r < 2 ^ 31" "snd ?r < 2 ^ 31" using N(3,4) r(2,4) by linarith+
  from price_ratio_returns [OF ok p N(1) this(1) N(2) this(2) d, of closer] show ?thesis
    using r by (auto simp: price_over_ratio_def fc_safe_simps(4) [OF ok])
qed

theorem price_times_ratio_correct_witness:
  "\<exists>q. price_times_ratio fc_reference (\<lambda>x y z. False) (mk_price (mk_asset 300 1) (mk_asset 7 0)) (11, 10) = Inr q \<and>
     \<not> price_less q (mk_price (mk_asset 300 1) (mk_asset 7 0)) \<and> amount (base q) * 70 = 3300 * amount (quote q)"
  using price_times_ratio_correct [of fc_reference "mk_price (mk_asset 300 1) (mk_asset 7 0)" "(11, 10)" "\<lambda>x y z. False"]
  by (auto simp: price_ok_def pos64_def config_defs)

end
