(* ===== verification/Block_Updates.thy ===== *)
theory Block_Updates
  imports Transactions Price_Ratio
begin

text \<open>
  The updates the chain makes at the end of a block (\<^verbatim>\<open>db_update.cpp\<close>): expired limit orders and forced settlements that
  are due (\<^verbatim>\<open>clear_expired_orders\<close>), expired price feeds (\<^verbatim>\<open>update_expired_feeds\<close>), core exchange rates
  (\<^verbatim>\<open>update_core_exchange_rates\<close>) and expired withdrawal permissions (\<^verbatim>\<open>update_withdraw_permissions\<close>).
\<close>

section \<open>Expired limit orders\<close>

definition limit_expires_before :: "nat \<times> limit_order_object \<Rightarrow> nat \<times> limit_order_object \<Rightarrow> bool" where
  "limit_expires_before x y \<longleftrightarrow>
     lo_expiration (snd x) < lo_expiration (snd y) \<or> lo_expiration (snd x) = lo_expiration (snd y) \<and> fst x < fst y"

definition first_expired_limit :: "database \<Rightarrow> (nat \<times> limit_order_object) option" where
  "first_expired_limit d =
     (case sorted_by limit_expires_before (objects (limit_orders d)) of
        [] \<Rightarrow> None
      | x # _ \<Rightarrow> if lo_expiration (snd x) \<le> head_block_time d then Some x else None)"

definition check_both_calls :: "fc_lib \<Rightarrow> nat \<Rightarrow> price \<Rightarrow> database \<Rightarrow> database result" where
  "check_both_calls F n p d =
     (if next_maintenance_time d \<le> HARDFORK_CORE_606_TIME
      then rbind (check_call_orders F n (asset_id (base p)) True False d) (\<lambda>(_, d1).
           rbind (check_call_orders F n (asset_id (quote p)) True False d1) (\<lambda>(_, d2). Inr d2))
      else Inr d)"

text \<open>Each pass removes an order, so as many passes as there are orders and one more are enough (\<open>expired_limits_cleared\<close>).\<close>

fun cancel_expired_limits :: "fc_lib \<Rightarrow> nat \<Rightarrow> nat \<Rightarrow> database \<Rightarrow> database result" where
  "cancel_expired_limits F n 0 d = Inl Out_of_fuel"
| "cancel_expired_limits F n (Suc fuel) d =
     (case first_expired_limit d of
        None \<Rightarrow> Inr d
      | Some (i, order) \<Rightarrow>
          rbind (cancel_limit_order F i True False d) (\<lambda>d1.
          rbind (check_both_calls F n (sell_price order) d1) (cancel_expired_limits F n fuel)))"

section \<open>Forced settlements that are due\<close>

text \<open>The variables the loop keeps between two requests.\<close>

record settle_vars =
  sv_current_asset :: nat
  sv_max_volume :: asset
  sv_fill_price :: price
  sv_price :: price
  sv_finished :: bool

definition settlement_before :: "nat \<times> force_settlement_object \<Rightarrow> nat \<times> force_settlement_object \<Rightarrow> bool" where
  "settlement_before x y \<longleftrightarrow>
     asset_id (fs_balance (snd x)) < asset_id (fs_balance (snd y)) \<or>
     asset_id (fs_balance (snd x)) = asset_id (fs_balance (snd y)) \<and>
       (settlement_date (snd x) < settlement_date (snd y) \<or> settlement_date (snd x) = settlement_date (snd y) \<and> fst x < fst y)"

definition settlement_book :: "database \<Rightarrow> (nat \<times> force_settlement_object) list" where
  "settlement_book d = sorted_by settlement_before (objects (force_settlements d))"

definition settlement_lower_bound :: "nat \<Rightarrow> database \<Rightarrow> (nat \<times> force_settlement_object) option" where
  "settlement_lower_bound a d = find (\<lambda>x. a \<le> asset_id (fs_balance (snd x))) (settlement_book d)"

definition next_settlement_asset :: "nat \<Rightarrow> database \<Rightarrow> nat option" where
  "next_settlement_asset a d = map_option (\<lambda>x. asset_id (fs_balance (snd x))) (find (\<lambda>x. a < asset_id (fs_balance (snd x))) (settlement_book d))"

text \<open>One request against the least collateralized positions. A black swan cancels the request; the source
  asserts, in debug builds only, that there is a position of the asset, and the failure of that assertion is the error here.\<close>

definition settle_against :: "database \<Rightarrow> nat \<Rightarrow> nat result" where
  "settle_against d mia =
     rbind (index_get (assets d) mia) (\<lambda>a.
     rbind (bitasset_data d a) (\<lambda>b.
     rbind (price_min (short_backing_asset (bit_options b)) mia) (\<lambda>lo.
     rbind (of_option Assert_failed (least_collateralized lo d)) (\<lambda>(c, call).
     require (debt_type call = mia) Assert_failed (Inr c)))))"

fun match_settlement :: "fc_lib \<Rightarrow> nat \<Rightarrow> nat \<Rightarrow> nat \<Rightarrow> asset \<Rightarrow> price \<Rightarrow> asset \<Rightarrow> database \<Rightarrow> (asset \<times> bool \<times> database) result" where
  "match_settlement F 0 mia i max_volume p settled d = Inl Out_of_fuel"
| "match_settlement F (Suc fuel) mia i max_volume p settled d =
     rbind (asset_less settled max_volume) (\<lambda>more.
     case index_find (force_settlements d) i of
       None \<Rightarrow> Inr (settled, False, d)
     | Some order \<Rightarrow>
         if \<not> more then Inr (settled, False, d)
         else rbind (settle_against d mia) (\<lambda>c.
              rbind (asset_minus F max_volume settled) (\<lambda>max_settlement.
              if amount (fs_balance order) = 0 then rbind (cancel_settle_order F i d) (\<lambda>d1. Inr (settled, False, d1))
              else case match_call_settle F c i p max_settlement d of
                     Inl e \<Rightarrow> if e = Black_swan then rbind (cancel_settle_order F i d) (\<lambda>d1. Inr (settled, False, d1)) else Inl e
                   | Inr (new_settled, d1) \<Rightarrow>
                       if next_maintenance_time d > HARDFORK_CORE_184_TIME \<and> amount new_settled = 0
                       then Inr (settled, index_find (force_settlements d1) i \<noteq> None, d1)
                       else rbind (asset_plus F settled new_settled) (\<lambda>settled. match_settlement F fuel mia i max_volume p settled d1))))"

text \<open>The price of a settlement: the feed price with the offset of the asset. The two prices are computed once per asset, except for
  the one before hardfork 342, which is computed for every request.\<close>

definition offset_price ::
  "fc_lib \<Rightarrow> (fraction \<Rightarrow> fraction \<Rightarrow> fraction \<Rightarrow> bool) \<Rightarrow> asset_bitasset_data_object \<Rightarrow> price result" where
  "offset_price F closer b =
     rbind (of_option Bad_rational (rational_of F (GRAPHENE_100_PERCENT - int (force_settlement_offset_percent (bit_options b))) GRAPHENE_100_PERCENT))
       (price_over_ratio F closer (settlement_price (current_feed b)))"

definition price_before_342 :: "asset_bitasset_data_object \<Rightarrow> force_settlement_object \<Rightarrow> price result" where
  "price_before_342 b order =
     rbind (asset_mult (fs_balance order) (settlement_price (current_feed b))) (\<lambda>receives.
     price_div (fs_balance order)
       (receives\<lparr>amount := uint (ucast ((of_int (amount receives) * of_int (GRAPHENE_100_PERCENT - int (force_settlement_offset_percent (bit_options b))) ::
          uint128) div of_int GRAPHENE_100_PERCENT) :: 64 word)\<rparr>))"

definition settlement_prices ::
  "fc_lib \<Rightarrow> (fraction \<Rightarrow> fraction \<Rightarrow> fraction \<Rightarrow> bool) \<Rightarrow> database \<Rightarrow> nat \<Rightarrow> asset_bitasset_data_object \<Rightarrow> force_settlement_object \<Rightarrow> settle_vars \<Rightarrow>
   settle_vars result" where
  "settlement_prices F closer d cur b order v =
     rbind (if asset_id (base (sv_fill_price v)) \<noteq> cur then offset_price F closer b else Inr (sv_fill_price v)) (\<lambda>fill.
     rbind (if next_maintenance_time d \<le> HARDFORK_CORE_342_TIME then price_before_342 b order
            else if asset_id (base (sv_price v)) \<noteq> cur then Inr fill else Inr (sv_price v)) (\<lambda>p.
     Inr (v\<lparr>sv_fill_price := fill, sv_price := p\<rparr>)))"

definition max_volume ::
  "fc_lib \<Rightarrow> database \<Rightarrow> nat \<Rightarrow> asset_object \<Rightarrow> asset_bitasset_data_object \<Rightarrow> settle_vars \<Rightarrow> asset result" where
  "max_volume F d cur a b v =
     (if asset_id (sv_max_volume v) \<noteq> cur
      then rbind (index_get (asset_dyn_data d) (dynamic_asset_data_id a)) (\<lambda>dyn.
           rbind (max_force_settlement_volume F b (current_supply dyn)) (\<lambda>n. Inr (mk_asset n cur)))
      else Inr (sv_max_volume v))"

definition set_settled_volume :: "asset_object \<Rightarrow> int \<Rightarrow> database \<Rightarrow> database result" where
  "set_settled_volume a n d =
     rbind (bitasset_data d a) (\<lambda>b.
     if force_settled_volume b \<noteq> n
     then rbind (of_option Not_found (bitasset_data_id a)) (\<lambda>i. modify_bitasset i (\<lambda>b. b\<lparr>force_settled_volume := n\<rparr>) d)
     else Inr d)"

definition skip_asset :: "settle_vars \<Rightarrow> nat \<Rightarrow> database \<Rightarrow> (settle_vars \<times> database) option" where
  "skip_asset v cur d = map_option (\<lambda>a. (v\<lparr>sv_current_asset := a, sv_finished := False\<rparr>, d)) (next_settlement_asset cur d)"

text \<open>One pass of the loop: the variables and the state for the next pass, or \<open>None\<close> when the loop ends.\<close>

definition settle_request ::
  "fc_lib \<Rightarrow> (fraction \<Rightarrow> fraction \<Rightarrow> fraction \<Rightarrow> bool) \<Rightarrow> nat \<Rightarrow> nat \<Rightarrow> force_settlement_object \<Rightarrow> settle_vars \<Rightarrow> database \<Rightarrow>
   (settle_vars \<times> database) option result" where
  "settle_request F closer n i order v d =
     (let cur = asset_id (fs_balance order); v = v\<lparr>sv_current_asset := cur\<rparr>
      in rbind (index_get (assets d) cur) (\<lambda>a.
         rbind (bitasset_data d a) (\<lambda>b.
         if has_settlement b then rbind (cancel_settle_order F i d) (\<lambda>d1. Inr (Some (v, d1)))
         else if settlement_date order > head_block_time d then Inr (skip_asset v cur d)
         else if price_is_null (settlement_price (current_feed b)) then rbind (cancel_settle_order F i d) (\<lambda>d1. Inr (Some (v, d1)))
         else rbind (max_volume F d cur a b v) (\<lambda>mx.
              let v = v\<lparr>sv_max_volume := mx\<rparr>
              in if force_settled_volume b \<ge> amount mx \<or> sv_finished v then Inr (skip_asset v cur d)
                 else rbind (settlement_prices F closer d cur b order v) (\<lambda>v.
                      rbind (match_settlement F n cur i mx (sv_price v) (mk_asset (force_settled_volume b) cur) d) (\<lambda>(settled, finished, d1).
                      rbind (set_settled_volume a (amount settled) d1) (\<lambda>d2.
                      Inr (Some (v\<lparr>sv_finished := finished\<rparr>, d2)))))))))"

fun settle_due :: "fc_lib \<Rightarrow> (fraction \<Rightarrow> fraction \<Rightarrow> fraction \<Rightarrow> bool) \<Rightarrow> nat \<Rightarrow> nat \<Rightarrow> settle_vars \<Rightarrow> database \<Rightarrow> database result" where
  "settle_due F closer n 0 v d = Inl Out_of_fuel"
| "settle_due F closer n (Suc fuel) v d =
     (case settlement_lower_bound (sv_current_asset v) d of
        None \<Rightarrow> Inr d
      | Some (i, order) \<Rightarrow>
          rbind (settle_request F closer n i order v d) (\<lambda>pass.
          case pass of None \<Rightarrow> Inr d | Some (v1, d1) \<Rightarrow> settle_due F closer n fuel v1 d1))"

definition default_settle_vars :: "nat \<Rightarrow> settle_vars" where
  "default_settle_vars a = \<lparr>sv_current_asset = a, sv_max_volume = mk_asset 0 0, sv_fill_price = null_price, sv_price = null_price, sv_finished = False\<rparr>"

definition clear_expired_orders :: "fc_lib \<Rightarrow> (fraction \<Rightarrow> fraction \<Rightarrow> fraction \<Rightarrow> bool) \<Rightarrow> nat \<Rightarrow> database \<Rightarrow> database result" where
  "clear_expired_orders F closer n d =
     rbind (cancel_expired_limits F n (Suc (length (objects (limit_orders d)))) d) (\<lambda>d1.
     case settlement_book d1 of
       [] \<Rightarrow> Inr d1
     | x # _ \<Rightarrow> settle_due F closer n n (default_settle_vars (asset_id (fs_balance (snd x)))) d1)"

section \<open>Feeds, exchange rates and permissions\<close>

definition feed_expires_before :: "nat \<times> asset_bitasset_data_object \<Rightarrow> nat \<times> asset_bitasset_data_object \<Rightarrow> bool" where
  "feed_expires_before x y \<longleftrightarrow>
     feed_expiration_time (snd x) < feed_expiration_time (snd y) \<or>
     feed_expiration_time (snd x) = feed_expiration_time (snd y) \<and> bit_asset_id (snd x) < bit_asset_id (snd y)"

text \<open>The expired feeds are visited in the order of their expiration. The iterator steps to the next object before the current one is
  updated, so an update that moves an object behind the iterator can bring it up a second time only when its feeds live for zero
  seconds; that second visit changes nothing and is left out.\<close>

definition expired_feeds :: "database \<Rightarrow> nat list" where
  "expired_feeds d =
     map fst (takeWhile (\<lambda>x. feed_is_expired (snd x) (head_block_time d)) (sorted_by feed_expires_before (objects (bitassets d))))"

definition set_core_exchange_rate :: "nat \<Rightarrow> price \<Rightarrow> database \<Rightarrow> database result" where
  "set_core_exchange_rate i p d =
     rbind (index_get (assets d) i) (\<lambda>a.
     if price_eq (opt_core_exchange_rate (options a)) p then Inr d
     else modify_asset i (\<lambda>a. a\<lparr>options := (options a)\<lparr>opt_core_exchange_rate := p\<rparr>\<rparr>) d)"

definition reset_cer_flags :: "asset_bitasset_data_object \<Rightarrow> asset_bitasset_data_object" where
  "reset_cer_flags b = b\<lparr>asset_cer_updated := False, feed_cer_updated := False\<rparr>"

definition expire_feed :: "fc_lib \<Rightarrow> nth_element \<Rightarrow> nat \<Rightarrow> nat \<Rightarrow> database \<Rightarrow> database result" where
  "expire_feed F N n i d =
     rbind (index_get (bitassets d) i) (\<lambda>b.
     if HARDFORK_615_TIME \<le> head_block_time d \<or> feed_is_expired_before_hardfork_615 b (head_block_time d)
     then let b1 = update_median_feeds N (head_block_time d) b;
              update_cer = need_to_update_cer b1;
              b2 = (if update_cer then reset_cer_flags b1 else b1)
          in rbind (modify_bitasset i (\<lambda>_. b2) d) (\<lambda>d1.
             rbind (if \<not> price_is_null (settlement_price (current_feed b2)) \<and> \<not> price_feed_eq (current_feed b2) (current_feed b)
                    then rbind (check_call_orders F n (bit_asset_id b) True False d1) (\<lambda>(_, d2). Inr d2) else Inr d1) (\<lambda>d2.
             if update_cer then set_core_exchange_rate (bit_asset_id b) (core_exchange_rate (current_feed b2)) d2 else Inr d2))
     else Inr d)"

fun check_calls_of :: "fc_lib \<Rightarrow> nat \<Rightarrow> nat list \<Rightarrow> database \<Rightarrow> database result" where
  "check_calls_of F n [] d = Inr d"
| "check_calls_of F n (a # as) d = rbind (check_call_orders F n a True False d) (\<lambda>(_, d1). check_calls_of F n as d1)"

fun expire_feeds :: "fc_lib \<Rightarrow> nth_element \<Rightarrow> nat \<Rightarrow> nat list \<Rightarrow> database \<Rightarrow> database result" where
  "expire_feeds F N n [] d = Inr d"
| "expire_feeds F N n (i # is) d = rbind (expire_feed F N n i d) (expire_feeds F N n is)"

definition update_expired_feeds :: "fc_lib \<Rightarrow> nth_element \<Rightarrow> nat \<Rightarrow> database \<Rightarrow> database result" where
  "update_expired_feeds F N n d =
     rbind (expire_feeds F N n (expired_feeds d) d) (\<lambda>d1.
     if head_block_time d < HARDFORK_615_TIME then check_calls_of F n (issue_453_affected_assets d1) d1 else Inr d1)"

text \<open>The objects that need an update are the last ones of the index \<^verbatim>\<open>by_cer_update\<close>, and are visited from its end.\<close>

definition cer_updates :: "database \<Rightarrow> nat list" where
  "cer_updates d = rev (map fst (filter (\<lambda>x. need_to_update_cer (snd x)) (objects (bitassets d))))"

definition update_core_exchange_rate :: "nat \<Rightarrow> database \<Rightarrow> database result" where
  "update_core_exchange_rate i d =
     rbind (index_get (bitassets d) i) (\<lambda>b.
     rbind (set_core_exchange_rate (bit_asset_id b) (core_exchange_rate (current_feed b)) d) (modify_bitasset i reset_cer_flags))"

fun update_rates :: "nat list \<Rightarrow> database \<Rightarrow> database result" where
  "update_rates [] d = Inr d"
| "update_rates (i # is) d = rbind (update_core_exchange_rate i d) (update_rates is)"

definition update_core_exchange_rates :: "database \<Rightarrow> database result" where
  "update_core_exchange_rates d = update_rates (cer_updates d) d"

definition update_withdraw_permissions :: "database \<Rightarrow> database" where
  "update_withdraw_permissions d =
     d\<lparr>withdraw_permissions := (withdraw_permissions d)\<lparr>objects :=
        fold (\<lambda>x. AList.delete (fst x)) (takeWhile (\<lambda>x. expiration (snd x) \<le> head_block_time d)
          (sort_key (\<lambda>x. expiration (snd x)) (objects (withdraw_permissions d)))) (objects (withdraw_permissions d))\<rparr>\<rparr>"

text \<open>The updates of a block on the objects of the chain, in the order of \<^verbatim>\<open>_apply_block\<close>.\<close>

definition block_updates ::
  "fc_lib \<Rightarrow> (fraction \<Rightarrow> fraction \<Rightarrow> fraction \<Rightarrow> bool) \<Rightarrow> nth_element \<Rightarrow> nat \<Rightarrow> database \<Rightarrow> database result" where
  "block_updates F closer N n d =
     rbind (clear_expired_orders F closer n d) (\<lambda>d1.
     rbind (update_expired_feeds F N n d1) (\<lambda>d2.
     rbind (update_core_exchange_rates d2) (\<lambda>d3.
     Inr (update_withdraw_permissions d3))))"

section \<open>Expired orders go\<close>

lemma sorted_by_empty [simp]: "sorted_by lt xs = [] \<longleftrightarrow> xs = []"
  using set_sorted_by [of lt xs] by (metis set_empty)

lemma hd_sorted_by_Cons: "xs \<noteq> [] \<Longrightarrow> hd (sorted_by lt (x # xs)) = (if lt (hd (sorted_by lt xs)) x then hd (sorted_by lt xs) else x)"
proof -
  assume "xs \<noteq> []"
  then obtain h t where "sorted_by lt xs = h # t" using sorted_by_empty [of lt xs] by (cases "sorted_by lt xs") auto
  moreover have "sorted_by lt (x # xs) = insert_by lt x (sorted_by lt xs)" by (simp add: sorted_by_def)
  ultimately show ?thesis by simp
qed

lemma hd_sorted_by:
  assumes irr: "\<And>x. \<not> lt x x" and neg: "\<And>x y z. \<not> lt x y \<Longrightarrow> \<not> lt y z \<Longrightarrow> \<not> lt x z" and asym: "\<And>x y. lt x y \<Longrightarrow> \<not> lt y x"
  shows "y \<in> set xs \<Longrightarrow> \<not> lt y (hd (sorted_by lt xs))"
proof (induction xs arbitrary: y)
  case (Cons x xs)
  let ?h = "hd (sorted_by lt xs)"
  show ?case
  proof (cases "xs = []")
    case True
    then show ?thesis using Cons.prems irr by (simp add: sorted_by_def)
  next
    case False
    note h = hd_sorted_by_Cons [OF False, of lt x]
    show ?thesis
    proof (cases "lt ?h x")
      case True
      then show ?thesis unfolding h using Cons asym by auto
    next
      case False
      have "\<not> lt z x" if "z \<in> set xs" for z using neg [OF Cons.IH [OF that] False] .
      then show ?thesis unfolding h using False Cons.prems irr by auto
    qed
  qed
qed simp

lemma no_expired_limit:
  assumes "first_expired_limit d = None" and "db_ok d" and "index_find (limit_orders d) i = Some lo"
  shows "head_block_time d < lo_expiration lo"
proof -
  let ?s = "sorted_by limit_expires_before (objects (limit_orders d))"
  have mem: "(i, lo) \<in> set (objects (limit_orders d))" using assms(2,3) by (simp add: index_mem_iff db_ok_def)
  then have "?s \<noteq> []" by auto
  then have "head_block_time d < lo_expiration (snd (hd ?s))" using assms(1) by (auto simp: first_expired_limit_def split: list.splits if_splits)
  moreover have "\<not> limit_expires_before (i, lo) (hd ?s)"
    by (rule hd_sorted_by [OF _ _ _ mem]) (auto simp: limit_expires_before_def)
  ultimately show ?thesis by (auto simp: limit_expires_before_def)
qed

lemma first_expired_limitD:
  assumes "first_expired_limit d = Some (i, lo)" and "db_ok d"
  shows "index_find (limit_orders d) i = Some lo" and "lo_expiration lo \<le> head_block_time d"
proof -
  obtain t where "sorted_by limit_expires_before (objects (limit_orders d)) = (i, lo) # t" and e: "lo_expiration lo \<le> head_block_time d"
    using assms(1) by (auto simp: first_expired_limit_def split: list.splits if_splits)
  then have "(i, lo) \<in> set (objects (limit_orders d))" by (metis list.set_intros(1) set_sorted_by)
  then show "index_find (limit_orders d) i = Some lo" "lo_expiration lo \<le> head_block_time d" using assms(2) e by (simp_all add: index_mem_iff db_ok_def)
qed

lemma index_find_dom: "dom (index_find ix) = set (map fst (objects ix))"
proof -
  have "index_find ix = map_of (objects ix)" by (simp add: fun_eq_iff index_find_def)
  then show ?thesis by (simp add: dom_map_of_conv_image_fst)
qed

lemma index_size_delete:
  assumes "ix_ok ix" and "ix_ok ix'" and "index_find ix' = (index_find ix)(i := None)" and "index_find ix i \<noteq> None"
  shows "length (objects ix') < length (objects ix)"
proof -
  have size: "length (objects x) = card (dom (index_find x))" if "ix_ok x" for x :: "'a index"
    using that distinct_card [of "map fst (objects x)"] by (simp add: ix_ok_def index_find_dom)
  have "finite (dom (index_find ix))" by (simp add: index_find_dom)
  moreover have "dom (index_find ix') \<subset> dom (index_find ix)" using assms(3,4) by auto
  ultimately show ?thesis using psubset_card_mono size [OF assms(1)] size [OF assms(2)] by metis
qed

text \<open>After hardfork 606 the loop over the expired limit orders ends within its fuel: more passes change nothing.\<close>

lemma cancel_expired_limits_fuel:
  assumes F: "fc_lib_ok F" 
  shows "market_ok d \<Longrightarrow> HARDFORK_CORE_606_TIME < next_maintenance_time d \<Longrightarrow> length (objects (limit_orders d)) < k \<Longrightarrow> length (objects (limit_orders d)) < k' \<Longrightarrow>
     cancel_expired_limits F n k d = cancel_expired_limits F n k' d"
proof (induction k arbitrary: d k')
  case (Suc k)
  obtain j where j: "k' = Suc j" using Suc.prems(4) by (cases k') auto
  show ?case
  proof (cases "first_expired_limit d")
    case (Some x)
    obtain i lo where x: "x = (i, lo)" by (rule prod.exhaust)
    show ?thesis
    proof (cases "cancel_limit_order F i True False d")
      case (Inr d1)
      note E = cancel_limit_order_effect [OF F market_okD(1) [OF Suc.prems(1)] Inr] and S = cancel_limit_order_step [OF F Suc.prems(1) Inr]
      have ok: "ix_ok (limit_orders d)" "ix_ok (limit_orders d1)"
        using market_okD(1) [OF Suc.prems(1)] market_okD(1) [OF market_step_ok [OF S]] by (simp_all add: db_ok_def)
      have "length (objects (limit_orders d1)) < length (objects (limit_orders d))" by (rule index_size_delete [OF ok]) (use E in blast)+
      moreover have after: "HARDFORK_CORE_606_TIME < next_maintenance_time d1" using S Suc.prems(2) by (simp add: market_step_def same_chain_def)
      ultimately have "cancel_expired_limits F n k d1 = cancel_expired_limits F n j d1"
        using Suc.IH [OF market_step_ok [OF S], of j] Suc.prems(3,4) j by simp
      moreover have "check_both_calls F n (sell_price lo) d1 = Inr d1" using after by (auto simp: check_both_calls_def)
      ultimately show ?thesis using Some x Inr by (simp add: j)
    qed (simp add: Some x j)
  qed (simp add: j)
qed simp

lemma check_both_calls_step:
  assumes F: "fc_lib_ok F" and ok: "market_ok d" and run: "check_both_calls F n p d = Inr d'"
  shows "market_step d d'"
proof (cases "next_maintenance_time d \<le> HARDFORK_CORE_606_TIME")
  case True
  then obtain x d1 y where 1: "check_call_orders F n (asset_id (base p)) True False d = Inr (x, d1)" and 2: "check_call_orders F n (asset_id (quote p)) True False d1 = Inr (y, d')"
    using run by (auto simp: check_both_calls_def)
  note S = check_call_orders_step [OF F ok 1]
  show ?thesis by (rule market_step_trans [OF S check_call_orders_step [OF F market_step_ok [OF S] 2]])
qed (use run ok in \<open>simp add: check_both_calls_def\<close>)

lemma cancel_expired_limits_step:
  assumes F: "fc_lib_ok F"
  shows "market_ok d \<Longrightarrow> cancel_expired_limits F n k d = Inr d' \<Longrightarrow> market_step d d' \<and> first_expired_limit d' = None"
proof (induction k arbitrary: d)
  case (Suc k)
  show ?case
  proof (cases "first_expired_limit d")
    case (Some x)
    obtain i lo where x: "x = (i, lo)" by (rule prod.exhaust)
    obtain d1 d2 where 1: "cancel_limit_order F i True False d = Inr d1" and 2: "check_both_calls F n (sell_price lo) d1 = Inr d2"
      and 3: "cancel_expired_limits F n k d2 = Inr d'" using Suc.prems(2) Some x by auto
    note S1 = cancel_limit_order_step [OF F Suc.prems(1) 1]
    note S2 = market_step_trans [OF S1 check_both_calls_step [OF F market_step_ok [OF S1] 2]]
    show ?thesis using Suc.IH [OF market_step_ok [OF S2] 3] market_step_trans [OF S2] by blast
  qed (use Suc.prems in simp)
qed simp

section \<open>Settlements keep the books\<close>

text \<open>What a settlement needs: requests and feed prices in their ranges.\<close>

definition good_price :: "price \<Rightarrow> bool" where
  "good_price p \<longleftrightarrow> price_ok p \<and> asset_id (base p) \<noteq> asset_id (quote p)"

definition feeds_priced :: "database \<Rightarrow> bool" where
  "feeds_priced d \<longleftrightarrow> (\<forall>i b. index_find (bitassets d) i = Some b \<longrightarrow>
     price_is_null (settlement_price (current_feed b)) \<or> good_price (settlement_price (current_feed b)))"

definition requests_ok :: "database \<Rightarrow> bool" where
  "requests_ok d \<longleftrightarrow> (\<forall>i s. index_find (force_settlements d) i = Some s \<longrightarrow> nonneg64 (amount (fs_balance s)))"

definition settleable :: "database \<Rightarrow> bool" where
  "settleable d \<longleftrightarrow> market_ok d \<and> feeds_priced d \<and> requests_ok d"

definition settle_step :: "database \<Rightarrow> database \<Rightarrow> bool" where
  "settle_step d d' \<longleftrightarrow> settleable d' \<and> excess d' = excess d \<and> same_clock d d' \<and> limit_orders d' = limit_orders d"

lemma settle_step_refl [simp]: "settleable d \<Longrightarrow> settle_step d d"
  by (simp add: settle_step_def)

lemma settle_step_trans: "settle_step d d1 \<Longrightarrow> settle_step d1 d2 \<Longrightarrow> settle_step d d2"
  by (simp add: settle_step_def)

lemma same_chain_feeds: "same_chain d d' \<Longrightarrow> feeds_priced d \<Longrightarrow> feeds_priced d'"
  unfolding feeds_priced_def
proof (intro allI impI)
  fix i b'
  assume s: "same_chain d d'" and p: "\<forall>i b. index_find (bitassets d) i = Some b \<longrightarrow>
      price_is_null (settlement_price (current_feed b)) \<or> good_price (settlement_price (current_feed b))" and b: "index_find (bitassets d') i = Some b'"
  have "map_option (\<lambda>b. (bit_asset_id b, bit_options b, current_feed b)) (index_find (bitassets d) i) = Some (bit_asset_id b', bit_options b', current_feed b')"
  proof -
    have "map_option (\<lambda>b. (bit_asset_id b, bit_options b, current_feed b)) (index_find (bitassets d') i) =
        map_option (\<lambda>b. (bit_asset_id b, bit_options b, current_feed b)) (index_find (bitassets d) i)" using s by (simp add: same_chain_def)
    then show ?thesis using b by simp
  qed
  then obtain b where "index_find (bitassets d) i = Some b" "current_feed b = current_feed b'" by auto
  then show "price_is_null (settlement_price (current_feed b')) \<or> good_price (settlement_price (current_feed b'))" using p [rule_format, of i b] by simp
qed

lemma market_settle_step:
  assumes "market_step d d'" and "settleable d" and "requests_ok d'"
  shows "settleable d' \<and> excess d' = excess d \<and> same_clock d d'"
proof -
  have "same_chain d d'" using assms(1) by (simp add: market_step_def)
  then show ?thesis using assms same_chain_feeds market_step_kept [OF assms(1)] by (auto simp: settleable_def)
qed

lemma cancel_settle_order_step:
  assumes F: "fc_lib_ok F" and ok: "settleable d" and run: "cancel_settle_order F i d = Inr d'"
  shows "settle_step d d'"
proof -
  have m: "market_ok d" using ok by (simp add: settleable_def)
  note E = cancel_settle_order_trade [OF F market_okD(1) [OF m] run]
  have "orders_ok d'" using E market_okD(3) [OF m] by (simp add: orders_ok_def)
  then have "market_step d d'" using E by (intro trade_step [OF conjunct1 [OF E] _ _ m]) simp_all
  moreover have "requests_ok d'" using ok E by (auto simp: settleable_def requests_ok_def)
  ultimately show ?thesis using market_settle_step [OF _ ok] E by (simp add: settle_step_def)
qed

lemma match_call_settle_step:
  assumes F: "fc_lib_ok F" and ok: "settleable d" and p: "HARDFORK_CORE_342_TIME < next_maintenance_time d \<Longrightarrow> good_price p" and mx: "0 \<le> amount mx"
    and run: "match_call_settle F c i p mx d = Inr (r, d')"
  shows "settle_step d d'"
proof -
  have m: "market_ok d" using ok by (simp add: settleable_def)
  obtain s where s: "index_find (force_settlements d) i = Some s" using run by (auto simp: match_call_settle_def index_get_def split: option.splits)
  have n: "nonneg64 (amount (fs_balance s))" using ok s by (auto simp: settleable_def requests_ok_def)
  note E = match_call_settle_effect [OF F market_okD(1) [OF m] market_okD(2) [OF m] s n p [unfolded good_price_def] mx run]
  have "orders_ok d'" using E market_okD(3) [OF m] by (simp add: orders_ok_def)
  then have "market_step d d'" using E by (intro trade_step [OF conjunct1 [OF E] _ _ m]) simp_all
  moreover have "requests_ok d'" using ok E unfolding settleable_def requests_ok_def by blast
  ultimately show ?thesis using market_settle_step [OF _ ok] E by (simp add: settle_step_def)
qed

lemma match_settlement_step:
  assumes F: "fc_lib_ok F"
  shows "settleable d \<Longrightarrow> (HARDFORK_CORE_342_TIME < next_maintenance_time d \<Longrightarrow> good_price p) \<Longrightarrow>
     match_settlement F k mia i mx p settled d = Inr (r, f, d') \<Longrightarrow> settle_step d d'"
proof (induction k arbitrary: d settled)
  case (Suc k)
  obtain more where more: "asset_less settled mx = Inr more" using Suc.prems(3) by auto
  show ?case
  proof (cases "index_find (force_settlements d) i = None \<or> \<not> more")
    case True
    then show ?thesis using Suc.prems more by (auto split: option.splits)
  next
    case False
    then obtain order where o: "index_find (force_settlements d) i = Some order" and m: more by auto
    obtain c rest where c: "settle_against d mia = Inr c" and rest: "asset_minus F mx settled = Inr rest" using Suc.prems(3) more o m by auto
    have pos: "0 \<le> amount rest" using rest more m by (auto simp: asset_minus_def asset_less_def fc_safe_simps [OF F])
    show ?thesis
    proof (cases "amount (fs_balance order) = 0 \<or> match_call_settle F c i p rest d = Inl Black_swan")
      case True
      then have "cancel_settle_order F i d = Inr d'" using Suc.prems(3) more o m c rest by (auto split: if_splits)
      then show ?thesis using cancel_settle_order_step [OF F Suc.prems(1)] by blast
    next
      case False
      then obtain new d1 where new: "match_call_settle F c i p rest d = Inr (new, d1)"
        using Suc.prems(3) more o m c rest by (auto split: sum.splits if_splits)
      note S = match_call_settle_step [OF F Suc.prems(1,2) pos new]
      show ?thesis
      proof (cases "next_maintenance_time d > HARDFORK_CORE_184_TIME \<and> amount new = 0")
        case True
        then have "d' = d1" using Suc.prems(3) more o m c rest new False by (simp split: if_splits)
        then show ?thesis using S by simp
      next
        case nz: False
        obtain s where "match_settlement F k mia i mx p s d1 = Inr (r, f, d')" using Suc.prems(3) more o m c rest new False nz by (auto split: if_splits)
        from Suc.IH [OF _ _ this] show ?thesis using S Suc.prems(2) settle_step_trans [OF S] by (auto simp: settle_step_def)
      qed
    qed
  qed
qed simp

lemma bitasset_data_find: "bitasset_data d a = Inr b \<Longrightarrow> \<exists>i. bitasset_data_id a = Some i \<and> index_find (bitassets d) i = Some b"
  by (auto simp: bitasset_data_def index_get_def split: option.splits)

lemma modify_feed_kept:
  assumes ok: "settleable d" and run: "modify_bitasset i f d = Inr d'" and f: "\<And>b. index_find (bitassets d) i = Some b \<Longrightarrow> same_terms b (f b)"
    and p: "\<And>b. index_find (bitassets d) i = Some b \<Longrightarrow> price_is_null (settlement_price (current_feed (f b))) \<or> good_price (settlement_price (current_feed (f b)))"
  shows "settle_step d d'"
proof -
  have m: "market_ok d" using ok by (simp add: settleable_def)
  note M = modify_terms_market [OF m run f]
  obtain ix where ix: "ix_modify i (\<lambda>b. Inr (f b)) (bitassets d) = Inr ix" "d' = d\<lparr>bitassets := ix\<rparr>" using run by (auto simp: modify_bitasset_def)
  have iok: "ix_ok (bitassets d)" using market_okD(1) [OF m] by (simp add: db_ok_def assets_ok_def)
  obtain b b' where b: "index_find (bitassets d) i = Some b" "Inr (f b) = (Inr b' :: asset_bitasset_data_object result)" "index_find ix = (index_find (bitassets d))(i \<mapsto> b')"
    using ix_modifyE [OF iok ix(1)] by metis
  have "feeds_priced d'" using ok p [OF b(1)] b(2,3) by (auto simp: settleable_def feeds_priced_def ix(2))
  moreover have "requests_ok d'" using ok by (simp add: settleable_def requests_ok_def ix(2))
  ultimately show ?thesis using M by (auto simp: settle_step_def settleable_def)
qed

lemma set_settled_volume_step:
  assumes ok: "settleable d" and run: "set_settled_volume a n d = Inr d'"
  shows "settle_step d d'"
proof -
  obtain b where b: "bitasset_data d a = Inr b" using run by (auto simp: set_settled_volume_def)
  obtain i where i: "bitasset_data_id a = Some i" "index_find (bitassets d) i = Some b" using bitasset_data_find [OF b] by blast
  show ?thesis
  proof (cases "force_settled_volume b = n")
    case False
    then have "modify_bitasset i (\<lambda>b. b\<lparr>force_settled_volume := n\<rparr>) d = Inr d'" using run b i(1) by (simp add: set_settled_volume_def)
    then show ?thesis by (rule modify_feed_kept [OF ok]) (use ok in \<open>auto simp: same_terms_def settleable_def feeds_priced_def\<close>)
  qed (use run b ok in \<open>simp add: set_settled_volume_def\<close>)
qed

text \<open>A settled price is valid unless it is the one before hardfork 342, whose amounts are not rounded again.\<close>

definition vars_ok :: "database \<Rightarrow> settle_vars \<Rightarrow> bool" where
  "vars_ok d v \<longleftrightarrow> (sv_fill_price v = null_price \<or> good_price (sv_fill_price v)) \<and>
     (HARDFORK_CORE_342_TIME < next_maintenance_time d \<longrightarrow> sv_price v = null_price \<or> good_price (sv_price v))"

lemma vars_ok_simps [simp]:
  "vars_ok d (v\<lparr>sv_current_asset := a\<rparr>) = vars_ok d v" "vars_ok d (v\<lparr>sv_max_volume := mx\<rparr>) = vars_ok d v" "vars_ok d (v\<lparr>sv_finished := b\<rparr>) = vars_ok d v"
  by (simp_all add: vars_ok_def)

lemma vars_ok_cong: "same_clock d d' \<Longrightarrow> vars_ok d' v = vars_ok d v"
  by (simp add: vars_ok_def)

lemma not_positive_ratio:
  assumes F: "fc_lib_ok F" and "fst r \<le> 0" and "0 < snd r"
  shows "price_over_ratio F closer p r \<noteq> Inr q"
proof (cases "fst r = 0")
  case True
  then show ?thesis by (simp add: price_over_ratio_def fc_safe_simps(4) [OF F])
next
  case False
  then have neg: "fst r < 0" using assms(2) by simp
  let ?g = "gcd (snd r) (fst r)"
  have "?g \<le> snd r" "0 < ?g" using assms(3) by (simp_all add: gcd_le1_int)
  then have "0 < snd r div ?g" by (simp add: pos_imp_zdiv_pos_iff)
  moreover have "(- snd r) div ?g = - (snd r div ?g)" by (simp add: dvd_neg_div)
  ultimately have "fst (normal_fraction (snd r) (fst r)) < 0" using neg by (simp add: normal_fraction_def)
  then show ?thesis using False by (auto simp: price_over_ratio_def fc_safe_simps(4) [OF F] price_times_ratio_def)
qed

lemma offset_price_good:
  assumes F: "fc_lib_ok F" and g: "good_price (settlement_price (current_feed b))" and run: "offset_price F closer b = Inr p"
  shows "good_price p"
proof -
  let ?n = "GRAPHENE_100_PERCENT - int (force_settlement_offset_percent (bit_options b))"
  let ?r = "normal_fraction ?n GRAPHENE_100_PERCENT" and ?q = "settlement_price (current_feed b)"
  have run': "price_over_ratio F closer ?q ?r = Inr p" using run by (simp add: offset_price_def fc_safe_simps(4) [OF F] config_defs)
  have pos: "0 < ?n"
  proof (rule ccontr)
    assume "\<not> 0 < ?n"
    then have "fst ?r \<le> 0" by (simp add: normal_fraction_def config_defs div_nonpos_pos_le0)
    moreover have "0 < snd ?r" by (simp add: normal_fraction_def config_defs pos_imp_zdiv_pos_iff gcd_le2_int)
    ultimately show False using run' not_positive_ratio [OF F] by blast
  qed
  have le: "0 < fst ?r" "fst ?r \<le> ?n" "0 < snd ?r" "snd ?r \<le> GRAPHENE_100_PERCENT" using normal_fraction_pos [OF pos, of GRAPHENE_100_PERCENT] by (simp_all add: config_defs)
  have "fst ?r < 2 ^ 31" "snd ?r < 2 ^ 31" using le by (simp_all add: config_defs)
  with le obtain q where "price_over_ratio F closer ?q ?r = Inr q" "price_ok q" "asset_id (base q) = asset_id (base ?q)" "asset_id (quote q) = asset_id (quote ?q)"
    using price_over_ratio_returns [OF F, of ?q ?r closer] g by (auto simp: good_price_def)
  then show ?thesis using run' g by (simp add: good_price_def)
qed

lemma settlement_prices_ok:
  assumes F: "fc_lib_ok F" and v: "vars_ok d v" and cur: "cur \<noteq> 0" and g: "good_price (settlement_price (current_feed b))"
    and run: "settlement_prices F closer d cur b order v = Inr v'"
  shows "vars_ok d v' \<and> (HARDFORK_CORE_342_TIME < next_maintenance_time d \<longrightarrow> good_price (sv_price v'))"
proof -
  have null: "asset_id (base null_price) = 0" by (simp add: null_price_def)
  obtain fill p where fill: "(if asset_id (base (sv_fill_price v)) \<noteq> cur then offset_price F closer b else Inr (sv_fill_price v)) = Inr fill"
    and p: "(if next_maintenance_time d \<le> HARDFORK_CORE_342_TIME then price_before_342 b order
            else if asset_id (base (sv_price v)) \<noteq> cur then Inr fill else Inr (sv_price v)) = Inr p"
    and v': "v' = v\<lparr>sv_fill_price := fill, sv_price := p\<rparr>" using run by (auto simp: settlement_prices_def simp del: if_split)
  have "good_price fill" using fill v cur null offset_price_good [OF F g] by (auto simp: vars_ok_def split: if_splits)
  moreover have "good_price p" if "HARDFORK_CORE_342_TIME < next_maintenance_time d"
    using p that calculation v cur null by (auto simp: vars_ok_def split: if_splits)
  ultimately show ?thesis by (simp add: vars_ok_def v')
qed

lemma settle_match_step:
  assumes F: "fc_lib_ok F" and ok: "settleable d" and v: "vars_ok d v" and a: "index_find (assets d) cur = Some a" and b: "bitasset_data d a = Inr b"
    and nn: "\<not> price_is_null (settlement_price (current_feed b))" and w: "settlement_prices F closer d cur b order v = Inr w"
    and m: "match_settlement F n cur i mx (sv_price w) x d = Inr (settled, fin, d1)" and s: "set_settled_volume a (amount settled) d1 = Inr d2"
  shows "settle_step d d2 \<and> vars_ok d2 w"
proof -
  obtain bi where bi: "bitasset_data_id a = Some bi" "index_find (bitassets d) bi = Some b" using bitasset_data_find [OF b] by blast
  have "cur \<noteq> 0"
  proof
    assume "cur = 0"
    then show False using a bi(1) market_okD(7) [of d] ok by (auto simp: settleable_def links_ok_def)
  qed
  moreover have "good_price (settlement_price (current_feed b))" using bi(2) nn ok by (auto simp: settleable_def feeds_priced_def)
  ultimately have P: "vars_ok d w" "HARDFORK_CORE_342_TIME < next_maintenance_time d \<Longrightarrow> good_price (sv_price w)"
    using settlement_prices_ok [OF F v _ _ w] by auto
  note S1 = match_settlement_step [OF F ok P(2) m]
  have "settleable d1" using S1 by (simp add: settle_step_def)
  note S2 = settle_step_trans [OF S1 set_settled_volume_step [OF this s]]
  then show ?thesis using P(1) by (simp add: settle_step_def vars_ok_def)
qed

lemma settle_request_step:
  assumes F: "fc_lib_ok F" and ok: "settleable d" and v: "vars_ok d v" and run: "settle_request F closer n i order v d = Inr (Some (v', d'))"
  shows "settle_step d d' \<and> vars_ok d' v'"
proof -
  let ?cur = "asset_id (fs_balance order)" and ?v = "v\<lparr>sv_current_asset := asset_id (fs_balance order)\<rparr>"
  have cancelled: "settle_step d d1 \<and> vars_ok d1 ?v" if "cancel_settle_order F i d = Inr d1" for d1
    using cancel_settle_order_step [OF F ok that] v by (simp add: settle_step_def vars_ok_def)
  have skipped: "settle_step d d' \<and> vars_ok d' v'" if "skip_asset w ?cur d = Some (v', d')" "vars_ok d w" for w
    using that ok by (auto simp: skip_asset_def)
  obtain a b where a: "index_find (assets d) ?cur = Some a" and b: "bitasset_data d a = Inr b" using run by (auto simp: settle_request_def Let_def)
  note R = run [unfolded settle_request_def Let_def index_get_def a of_option_Some rbind_Inr b]
  consider "has_settlement b" | "\<not> has_settlement b" "settlement_date order > head_block_time d"
    | "\<not> has_settlement b" "\<not> settlement_date order > head_block_time d" "price_is_null (settlement_price (current_feed b))"
    | "\<not> has_settlement b" "\<not> settlement_date order > head_block_time d" "\<not> price_is_null (settlement_price (current_feed b))" by blast
  then show ?thesis
  proof cases
    case 1
    then show ?thesis using R cancelled by auto
  next
    case 2
    then show ?thesis using R skipped [of ?v] v by simp
  next
    case 3
    then show ?thesis using R cancelled by auto
  next
    case 4
    obtain mx where mx: "max_volume F d ?cur a b ?v = Inr mx" using R 4 by auto
    note R4 = R [unfolded if_not_P [OF 4(1)] if_not_P [OF 4(2)] if_not_P [OF 4(3)] mx rbind_Inr]
    show ?thesis
    proof (cases "force_settled_volume b \<ge> amount mx \<or> sv_finished v")
      case True
      then show ?thesis using R4 skipped [of "?v\<lparr>sv_max_volume := mx\<rparr>"] v by simp
    next
      case False
      then obtain w settled fin d1 where w: "settlement_prices F closer d ?cur b order (?v\<lparr>sv_max_volume := mx\<rparr>) = Inr w"
        and m: "match_settlement F n ?cur i mx (sv_price w) (mk_asset (force_settled_volume b) ?cur) d = Inr (settled, fin, d1)"
        and s: "set_settled_volume a (amount settled) d1 = Inr d'" and v': "v' = w\<lparr>sv_finished := fin\<rparr>"
        using R4 by auto
      show ?thesis using settle_match_step [OF F ok _ a b 4(3) w m s] v by (simp add: v')
    qed
  qed
qed

lemma settle_due_step:
  assumes F: "fc_lib_ok F"
  shows "settleable d \<Longrightarrow> vars_ok d v \<Longrightarrow> settle_due F closer n k v d = Inr d' \<Longrightarrow> settle_step d d'"
proof (induction k arbitrary: d v)
  case (Suc k)
  show ?case
  proof (cases "settlement_lower_bound (sv_current_asset v) d")
    case (Some x)
    obtain i order where x: "x = (i, order)" by (rule prod.exhaust)
    obtain pass where p: "settle_request F closer n i order v d = Inr pass" using Suc.prems(3) Some x by auto
    show ?thesis
    proof (cases pass)
      case (Some y)
      obtain v1 d1 where y: "y = (v1, d1)" by (rule prod.exhaust)
      note S = settle_request_step [OF F Suc.prems(1,2) p [unfolded Some y]]
      have "settle_due F closer n k v1 d1 = Inr d'" using Suc.prems(3) \<open>settlement_lower_bound _ _ = _\<close> x p Some y by simp
      from Suc.IH [OF _ _ this] show ?thesis using S settle_step_trans [OF conjunct1 [OF S]] by (simp add: settle_step_def)
    qed (use Suc.prems Some x p in simp)
  qed (use Suc.prems in simp)
qed simp

text \<open>Since hardfork 606 the removal of an expired order checks no positions, so it leaves the requests alone.\<close>

lemma cancel_expired_limits_requests:
  assumes F: "fc_lib_ok F"
  shows "market_ok d \<Longrightarrow> HARDFORK_CORE_606_TIME < next_maintenance_time d \<Longrightarrow> cancel_expired_limits F n k d = Inr d' \<Longrightarrow>
     force_settlements d' = force_settlements d"
proof (induction k arbitrary: d)
  case (Suc k)
  show ?case
  proof (cases "first_expired_limit d")
    case (Some x)
    obtain i lo where x: "x = (i, lo)" by (rule prod.exhaust)
    obtain d1 d2 where 1: "cancel_limit_order F i True False d = Inr d1" and 2: "check_both_calls F n (sell_price lo) d1 = Inr d2"
      and 3: "cancel_expired_limits F n k d2 = Inr d'" using Suc.prems(3) Some x by auto
    note S = cancel_limit_order_step [OF F Suc.prems(1) 1]
    have after: "HARDFORK_CORE_606_TIME < next_maintenance_time d1" using S Suc.prems(2) by (simp add: market_step_def same_chain_def)
    then have "d2 = d1" using 2 by (auto simp: check_both_calls_def split: if_splits)
    then show ?thesis
      using Suc.IH [OF market_step_ok [OF S] after] 3 cancel_limit_order_effect [OF F market_okD(1) [OF Suc.prems(1)] 1] by simp
  qed (use Suc.prems in simp)
qed simp

lemma clear_expired_orders_effect:
  assumes F: "fc_lib_ok F" and ok: "settleable d" and after: "HARDFORK_CORE_606_TIME < next_maintenance_time d" and run: "clear_expired_orders F closer n d = Inr d'"
  shows "settleable d' \<and> excess d' = excess d \<and> same_clock d d' \<and>
     (\<forall>i lo. index_find (limit_orders d') i = Some lo \<longrightarrow> head_block_time d < lo_expiration lo)"
proof -
  have m: "market_ok d" using ok by (simp add: settleable_def)
  obtain d1 where 1: "cancel_expired_limits F n (Suc (length (objects (limit_orders d)))) d = Inr d1"
    and 2: "(case settlement_book d1 of [] \<Rightarrow> Inr d1 | x # _ \<Rightarrow> settle_due F closer n n (default_settle_vars (asset_id (fs_balance (snd x)))) d1) = Inr d'"
    using run by (auto simp: clear_expired_orders_def simp del: cancel_expired_limits.simps)
  note L = cancel_expired_limits_step [OF F m 1]
  have "requests_ok d1" using ok cancel_expired_limits_requests [OF F m after 1] by (simp add: settleable_def requests_ok_def)
  then have S: "settleable d1 \<and> excess d1 = excess d \<and> same_clock d d1" using market_settle_step [OF conjunct1 [OF L] ok] by simp
  have live: "head_block_time d < lo_expiration lo" if "index_find (limit_orders d1) i = Some lo" for i lo
    using no_expired_limit [OF conjunct2 [OF L] _ that] S market_okD(1) [of d1] by (simp add: settleable_def)
  have v: "vars_ok d1 (default_settle_vars a)" for a by (simp add: default_settle_vars_def vars_ok_def)
  have "settle_step d1 d'"
  proof (cases "settlement_book d1")
    case (Cons x xs)
    then have "settle_due F closer n n (default_settle_vars (asset_id (fs_balance (snd x)))) d1 = Inr d'" using 2 by simp
    from settle_due_step [OF F conjunct1 [OF S] v this] show ?thesis .
  qed (use 2 S in simp)
  then show ?thesis using S live by (auto simp: settle_step_def)
qed

section \<open>The updates of a block keep the books\<close>

text \<open>What every update keeps.\<close>

definition kept :: "database \<Rightarrow> database \<Rightarrow> bool" where
  "kept d d' \<longleftrightarrow> market_ok d' \<and> excess d' = excess d \<and> same_clock d d'"

lemma kept_refl [simp]: "market_ok d \<Longrightarrow> kept d d"
  by (simp add: kept_def)

lemma kept_trans: "kept d d1 \<Longrightarrow> kept d1 d2 \<Longrightarrow> kept d d2"
  by (simp add: kept_def)

lemma kept_ok: "kept d d' \<Longrightarrow> market_ok d'"
  by (simp add: kept_def)

lemma set_core_exchange_rate_kept:
  assumes ok: "market_ok d" and run: "set_core_exchange_rate i p d = Inr d'"
  shows "kept d d'"
proof -
  obtain a :: asset_object where e: "(if price_eq (opt_core_exchange_rate (options a)) p then Inr d
     else modify_asset i (\<lambda>a. a\<lparr>options := (options a)\<lparr>opt_core_exchange_rate := p\<rparr>\<rparr>) d) = Inr d'"
    using run by (auto simp: set_core_exchange_rate_def simp del: if_split)
  show ?thesis
  proof (cases "price_eq (opt_core_exchange_rate (options a)) p")
    case False
    note m = e [unfolded if_not_P [OF False]]
    show ?thesis unfolding kept_def by (rule modify_asset_market [OF ok m]) (use market_okD(2) [OF ok] in \<open>auto simp: options_ok_def\<close>)
  qed (use e ok in simp)
qed

lemma reset_cer_terms: "same_terms b (reset_cer_flags b)"
  by (simp add: same_terms_def reset_cer_flags_def)

lemma modify_terms_kept:
  "market_ok d \<Longrightarrow> modify_bitasset i f d = Inr d' \<Longrightarrow> (\<And>b. index_find (bitassets d) i = Some b \<Longrightarrow> same_terms b (f b)) \<Longrightarrow> kept d d'"
  using modify_terms_market [of d i f d'] by (simp add: kept_def)

lemma check_call_orders_kept: "fc_lib_ok F \<Longrightarrow> market_ok d \<Longrightarrow> check_call_orders F n a True False d = Inr (r, d') \<Longrightarrow> kept d d'"
  using checked_market [of F d n a r d'] by (simp add: kept_def)

lemma expire_feed_kept:
  assumes F: "fc_lib_ok F" and ok: "market_ok d" and run: "expire_feed F N n i d = Inr d'"
  shows "kept d d'"
proof -
  obtain b where b: "index_find (bitassets d) i = Some b" using run by (auto simp: expire_feed_def index_get_def)
  let ?b1 = "update_median_feeds N (head_block_time d) b"
  define b2 where "b2 = (if need_to_update_cer ?b1 then reset_cer_flags ?b1 else ?b1)"
  show ?thesis
  proof (cases "HARDFORK_615_TIME \<le> head_block_time d \<or> feed_is_expired_before_hardfork_615 b (head_block_time d)")
    case True
    obtain d1 d2 where 1: "modify_bitasset i (\<lambda>_. b2) d = Inr d1"
      and 2: "(if \<not> price_is_null (settlement_price (current_feed b2)) \<and> \<not> price_feed_eq (current_feed b2) (current_feed b)
                    then rbind (check_call_orders F n (bit_asset_id b) True False d1) (\<lambda>(_, d2). Inr d2) else Inr d1) = Inr d2"
      and 3: "(if need_to_update_cer ?b1 then set_core_exchange_rate (bit_asset_id b) (core_exchange_rate (current_feed b2)) d2 else Inr d2) = Inr d'"
      using run b True unfolding expire_feed_def index_get_def Let_def b2_def by (auto simp del: if_split simp: if_P)
    have K1: "kept d d1" by (rule modify_terms_kept [OF ok 1]) (use b same_terms_trans [OF update_median_feeds_terms reset_cer_terms] update_median_feeds_terms in \<open>auto simp: b2_def\<close>)
    have K2: "kept d1 d2" using 2 kept_ok [OF K1] check_call_orders_kept [OF F kept_ok [OF K1]] by (auto split: if_splits)
    have "kept d2 d'" using 3 set_core_exchange_rate_kept [OF kept_ok [OF K2]] kept_ok [OF K2] by (auto split: if_splits)
    then show ?thesis using K1 K2 kept_trans by blast
  next
    case False
    then show ?thesis using run b ok unfolding expire_feed_def index_get_def by (auto simp del: if_split simp: if_not_P)
  qed
qed

lemma expire_feeds_kept:
  "fc_lib_ok F \<Longrightarrow> market_ok d \<Longrightarrow> expire_feeds F N n is d = Inr d' \<Longrightarrow> kept d d'"
proof (induction "is" arbitrary: d)
  case (Cons i "is")
  then obtain d1 where 1: "expire_feed F N n i d = Inr d1" "expire_feeds F N n is d1 = Inr d'" by auto
  have K: "kept d d1" by (rule expire_feed_kept [OF Cons.prems(1,2) 1(1)])
  show ?case by (rule kept_trans [OF K Cons.IH [OF Cons.prems(1) kept_ok [OF K] 1(2)]])
qed simp

lemma check_calls_of_kept:
  "fc_lib_ok F \<Longrightarrow> market_ok d \<Longrightarrow> check_calls_of F n as d = Inr d' \<Longrightarrow> kept d d'"
proof (induction "as" arbitrary: d)
  case (Cons a "as")
  then obtain r d1 where 1: "check_call_orders F n a True False d = Inr (r, d1)" "check_calls_of F n as d1 = Inr d'" by auto
  have K: "kept d d1" by (rule check_call_orders_kept [OF Cons.prems(1,2) 1(1)])
  show ?case by (rule kept_trans [OF K Cons.IH [OF Cons.prems(1) kept_ok [OF K] 1(2)]])
qed simp

lemma update_expired_feeds_kept:
  assumes F: "fc_lib_ok F" and ok: "market_ok d" and run: "update_expired_feeds F N n d = Inr d'"
  shows "kept d d'"
proof -
  obtain d1 where 1: "expire_feeds F N n (expired_feeds d) d = Inr d1"
    and 2: "(if head_block_time d < HARDFORK_615_TIME then check_calls_of F n (issue_453_affected_assets d1) d1 else Inr d1) = Inr d'"
    using run by (auto simp: update_expired_feeds_def simp del: if_split)
  note K = expire_feeds_kept [OF F ok 1]
  show ?thesis using 2 check_calls_of_kept [OF F kept_ok [OF K]] kept_trans [OF K] K by (auto split: if_splits)
qed

lemma update_rates_kept: "market_ok d \<Longrightarrow> update_rates is d = Inr d' \<Longrightarrow> kept d d'"
proof (induction "is" arbitrary: d)
  case (Cons i "is")
  obtain b :: asset_bitasset_data_object and d1 d2 where 1: "set_core_exchange_rate (bit_asset_id b) (core_exchange_rate (current_feed b)) d = Inr d1"
    and 2: "modify_bitasset i reset_cer_flags d1 = Inr d2" and 3: "update_rates is d2 = Inr d'"
    using Cons.prems(2) by (auto simp: update_core_exchange_rate_def)
  note K1 = set_core_exchange_rate_kept [OF Cons.prems(1) 1]
  note K2 = kept_trans [OF K1 modify_terms_kept [OF kept_ok [OF K1] 2 reset_cer_terms]]
  show ?case by (rule kept_trans [OF K2 Cons.IH [OF kept_ok [OF K2] 3]])
qed simp

lemma update_withdraw_permissions_kept:
  assumes "market_ok d" shows "kept d (update_withdraw_permissions d)"
proof -
  have "ix_ok (withdraw_permissions (update_withdraw_permissions d))"
    using market_okD(1) [OF assms] by (auto simp: update_withdraw_permissions_def fold_delete db_ok_def ix_ok_def distinct_map inj_on_def)
  from permissions_market [OF assms this] show ?thesis by (simp add: kept_def update_withdraw_permissions_def)
qed

lemma block_updates_kept:
  assumes F: "fc_lib_ok F" and ok: "settleable d" and after: "HARDFORK_CORE_606_TIME < next_maintenance_time d" and run: "block_updates F closer N n d = Inr d'"
  shows "kept d d'"
proof -
  obtain d1 d2 d3 where 1: "clear_expired_orders F closer n d = Inr d1" and 2: "update_expired_feeds F N n d1 = Inr d2"
    and 3: "update_rates (cer_updates d2) d2 = Inr d3" and d': "d' = update_withdraw_permissions d3"
    using run by (auto simp: block_updates_def update_core_exchange_rates_def)
  have K1: "kept d d1" using clear_expired_orders_effect [OF F ok after 1] by (simp add: kept_def settleable_def)
  note K2 = kept_trans [OF K1 update_expired_feeds_kept [OF F kept_ok [OF K1] 2]]
  note K3 = kept_trans [OF K2 update_rates_kept [OF kept_ok [OF K2] 3]]
  show ?thesis unfolding d' by (rule kept_trans [OF K3 update_withdraw_permissions_kept [OF kept_ok [OF K3]]])
qed

text \<open>The updates at the end of a block create and destroy no value: expired limit orders are refunded, settlements that are due are
  matched against the least collateralized positions, expired feeds are recomputed with the margin calls they trigger, and still what is held
  of every asset stays in step with its supply and the market stays well formed. Clearing the orders leaves no expired limit
  order behind, and its loop over them ends within its fuel.\<close>

theorem block_updates_conserve:
  assumes F: "fc_lib_ok F" and ok: "settleable d" and after: "HARDFORK_CORE_606_TIME < next_maintenance_time d"
  shows "(\<forall>d'. block_updates F closer N n d = Inr d' \<longrightarrow> market_ok d' \<and> excess d' = excess d) \<and>
     (\<forall>d'. clear_expired_orders F closer n d = Inr d' \<longrightarrow>
        (\<forall>i lo. index_find (limit_orders d') i = Some lo \<longrightarrow> head_block_time d < lo_expiration lo)) \<and>
     (\<forall>k>length (objects (limit_orders d)).
        cancel_expired_limits F n k d = cancel_expired_limits F n (Suc (length (objects (limit_orders d)))) d)"
proof (intro conjI allI impI)
  have m: "market_ok d" using ok by (simp add: settleable_def)
  fix d' assume run: "block_updates F closer N n d = Inr d'"
  have "kept d d'" by (rule block_updates_kept [OF F ok after run])
  then show "market_ok d'" "excess d' = excess d" by (simp_all add: kept_def)
next
  fix d' i lo assume "clear_expired_orders F closer n d = Inr d'" "index_find (limit_orders d') i = Some lo"
  then show "head_block_time d < lo_expiration lo" using clear_expired_orders_effect [OF F ok after] by blast
next
  fix k assume "length (objects (limit_orders d)) < k"
  then show "cancel_expired_limits F n k d = cancel_expired_limits F n (Suc (length (objects (limit_orders d)))) d"
    using ok by (intro cancel_expired_limits_fuel [OF F _ after]) (simp_all add: settleable_def)
qed

section \<open>A settlement offset of one hundred percent\<close>

text \<open>An asset may have a settlement offset of one hundred percent: its options are valid. The price of its settlements then divides by a ratio of zero, and the
  pass over a request that is due throws; the request stays, so no block can be applied any more.\<close>

lemma full_offset_stops_settlement:
  assumes F: "fc_lib_ok F" and a: "index_find (assets d) (asset_id (fs_balance order)) = Some a" and b: "bitasset_data d a = Inr b"
    and off: "int (force_settlement_offset_percent (bit_options b)) = GRAPHENE_100_PERCENT"
    and due: "\<not> has_settlement b" "settlement_date order \<le> head_block_time d" "\<not> price_is_null (settlement_price (current_feed b))"
    and v: "max_volume F d (asset_id (fs_balance order)) a b (v\<lparr>sv_current_asset := asset_id (fs_balance order)\<rparr>) = Inr mx" "force_settled_volume b < amount mx"
      "\<not> sv_finished v" "asset_id (base (sv_fill_price v)) \<noteq> asset_id (fs_balance order)"
    and first: "settlement_lower_bound (sv_current_asset v) d = Some (i, order)"
  shows "settle_due F closer n (Suc k) v d = Inl Bad_rational"
proof -
  have "offset_price F closer b = Inl Bad_rational"
    using off by (simp add: offset_price_def price_over_ratio_def fc_safe_simps(4) [OF F] config_defs normal_fraction_def)
  then have "settlement_prices F closer d (asset_id (fs_balance order)) b order (v\<lparr>sv_current_asset := asset_id (fs_balance order), sv_max_volume := mx\<rparr>) = Inl Bad_rational"
    using v(4) by (simp add: settlement_prices_def)
  then have "settle_request F closer n i order v d = Inl Bad_rational"
    using a b due v unfolding settle_request_def Let_def index_get_def by (simp add: not_less)
  then show ?thesis using first by simp
qed

section \<open>The updates on concrete input\<close>

lemma sample_settleable: "settleable sample_db"
  by (simp add: settleable_def sample_db_market feeds_priced_def requests_ok_def) (simp add: sample_db_def list_index_def index_find_def)

lemma sample_updates: "block_updates fc_reference (\<lambda>_ _ _. False) sort_by 10 sample_db = Inr sample_db"
  by (simp add: block_updates_def clear_expired_orders_def first_expired_limit_def sample_db_def list_index_def sorted_by_def settlement_book_def
      update_expired_feeds_def expired_feeds_def update_core_exchange_rates_def cer_updates_def update_withdraw_permissions_def hardfork_defs)

theorem block_updates_conserve_witness:
  "\<exists>d'. block_updates fc_reference (\<lambda>_ _ _. False) sort_by 10 sample_db = Inr d' \<and> market_ok d' \<and> excess d' 1 = 0"
proof -
  have "HARDFORK_CORE_606_TIME < next_maintenance_time sample_db" by (simp add: sample_db_def HARDFORK_CORE_606_TIME_def)
  from block_updates_conserve [OF fc_reference_ok sample_settleable this, of "\<lambda>_ _ _. False" sort_by 10] show ?thesis
    using sample_updates sample_db_excess(2) by auto
qed

end
