(* ===== verification/Authority.thy ===== *)
theory Authority
  imports Transactions
begin

text \<open>
  Who has signed: \<^verbatim>\<open>sign_state\<close> and \<^verbatim>\<open>verify_authority\<close> of \<^verbatim>\<open>protocol/transaction.cpp\<close>, and the authorities that operations
  require (\<^verbatim>\<open>protocol/operations.cpp\<close>).

  Public keys and addresses are numbers. The addresses of a key (\<^verbatim>\<open>pts_address\<close> in four forms and \<^verbatim>\<open>address\<close>) are hashes and
  enter as the argument \<open>sp_addresses\<close>; the key that a signature recovers is an argument as well. \<^verbatim>\<open>get_active\<close> and \<^verbatim>\<open>get_owner\<close>
  may throw or return a null pointer, so they return \<open>authority option result\<close>.
\<close>

section \<open>Model\<close>

record authority =
  weight_threshold :: "32 word"
  account_auths :: "(nat \<times> 16 word) list"
  key_auths :: "(nat \<times> 16 word) list"
  address_auths :: "(nat \<times> 16 word) list"

definition is_impossible :: "authority \<Rightarrow> bool" where
  "is_impossible auth \<longleftrightarrow>
     (sum_list (map (\<lambda>x. ucast (snd x)) (account_auths auth @ key_auths auth @ address_auths auth)) :: 64 word) < ucast (weight_threshold auth)"

definition num_auths :: "authority \<Rightarrow> nat" where
  "num_auths auth = length (account_auths auth) + length (key_auths auth) + length (address_auths auth)"

definition flat_insert :: "nat \<Rightarrow> nat list \<Rightarrow> nat list" where
  "flat_insert x xs = (if x \<in> set xs then xs else insort x xs)"

definition add_authority_accounts :: "nat list \<Rightarrow> authority \<Rightarrow> nat list" where
  "add_authority_accounts res a = fold (\<lambda>x. flat_insert (fst x)) (account_auths a) res"

text \<open>The authorities an operation requires: those of its fee payer, and the owner authority for a change of issuer. No operation of the model
  adds an authority that is not of an account.\<close>

fun fee_payer :: "operation \<Rightarrow> nat" where
  "fee_payer (Transfer op) = tr_from op"
| "fee_payer (Limit_order_create op) = lc_seller op"
| "fee_payer (Limit_order_cancel op) = lx_fee_paying_account op"
| "fee_payer (Call_order_update op) = cu_funding_account op"
| "fee_payer (Asset_create op) = ac_issuer op"
| "fee_payer (Asset_update op) = au_issuer op"
| "fee_payer (Asset_update_bitasset op) = ub_issuer op"
| "fee_payer (Asset_update_feed_producers op) = up_issuer op"
| "fee_payer (Asset_issue op) = ai_issuer op"
| "fee_payer (Asset_reserve op) = ar_payer op"
| "fee_payer (Asset_fund_fee_pool op) = fp_from_account op"
| "fee_payer (Asset_settle op) = as_account op"
| "fee_payer (Asset_global_settle op) = gs_issuer op"
| "fee_payer (Asset_publish_feed op) = pf_publisher op"
| "fee_payer (Withdraw_permission_create op) = wc_withdraw_from_account op"
| "fee_payer (Withdraw_permission_update op) = wu_withdraw_from_account op"
| "fee_payer (Withdraw_permission_claim op) = wl_withdraw_to_account op"
| "fee_payer (Withdraw_permission_delete op) = wd_withdraw_from_account op"
| "fee_payer (Vesting_balance_create op) = vc_creator op"
| "fee_payer (Vesting_balance_withdraw op) = vw_owner op"
| "fee_payer (Override_transfer op) = ot_issuer op"
| "fee_payer (Asset_claim_fees op) = cf_issuer op"
| "fee_payer (Bid_collateral op) = bc_bidder op"
| "fee_payer (Pio op) = pio_from op"
| "fee_payer (Asset_claim_pool op) = cp_issuer op"
| "fee_payer (Asset_update_issuer op) = ui_issuer op"

fun required_owner_authorities :: "operation \<Rightarrow> nat list" where
  "required_owner_authorities (Asset_update_issuer op) = [ui_issuer op]"
| "required_owner_authorities _ = []"

record required_authorities =
  ra_active :: "nat list"
  ra_owner :: "nat list"
  ra_other :: "authority list"

definition operation_get_required_authorities :: "operation \<Rightarrow> required_authorities \<Rightarrow> required_authorities" where
  "operation_get_required_authorities op r =
     r\<lparr>ra_active := flat_insert (fee_payer op) (ra_active r), ra_owner := fold flat_insert (required_owner_authorities op) (ra_owner r)\<rparr>"

definition operations_required :: "operation list \<Rightarrow> required_authorities" where
  "operations_required ops = fold operation_get_required_authorities ops \<lparr>ra_active = [], ra_owner = [], ra_other = []\<rparr>"

definition get_required_authorities :: "operation list \<Rightarrow> required_authorities" where
  "get_required_authorities ops =
     (let r = operations_required ops in r\<lparr>ra_active := filter (\<lambda>a. a \<notin> set (ra_owner r)) (ra_active r)\<rparr>)"

text \<open>\<^verbatim>\<open>sign_state\<close>. The maps of addresses are built at the first address that is looked up.\<close>

record sign_params =
  sp_get_active :: "nat \<Rightarrow> authority option result"
  sp_available_keys :: "nat list"
  sp_addresses :: "nat \<Rightarrow> nat list"

record sign_state =
  ss_provided_signatures :: "(nat \<times> bool) list"
  ss_address_sigs :: "((nat \<times> nat) list \<times> (nat \<times> nat) list) option"
  ss_approved_by :: "nat list"

definition initial_sign_state :: "nat list \<Rightarrow> sign_state" where
  "initial_sign_state sigs = \<lparr>ss_provided_signatures = map (\<lambda>k. (k, False)) sigs, ss_address_sigs = None, ss_approved_by = [GRAPHENE_TEMP_ACCOUNT]\<rparr>"

definition mark_key :: "nat \<Rightarrow> sign_state \<Rightarrow> sign_state" where
  "mark_key k s = s\<lparr>ss_provided_signatures := AList.update k True (ss_provided_signatures s)\<rparr>"

definition signed_by :: "sign_params \<Rightarrow> nat \<Rightarrow> sign_state \<Rightarrow> (bool \<times> sign_state) result" where
  "signed_by P k s =
     (if map_of (ss_provided_signatures s) k = None
      then if k \<in> set (sp_available_keys P) then Inr (True, mark_key k s) else Inr (False, s)
      else Inr (True, mark_key k s))"

definition address_sigs :: "sign_params \<Rightarrow> nat list \<Rightarrow> (nat \<times> nat) list" where
  "address_sigs P ks = fold (\<lambda>k. fold (\<lambda>a. AList.update a k) (sp_addresses P k)) ks []"

text \<open>An address that no key has is looked up in neither map, and the end of the map is dereferenced.\<close>

definition signed_by_address :: "sign_params \<Rightarrow> nat \<Rightarrow> sign_state \<Rightarrow> (bool \<times> sign_state) result" where
  "signed_by_address P a s =
     (let maps = (case ss_address_sigs s of
            None \<Rightarrow> (address_sigs P (sp_available_keys P), address_sigs P (map fst (ss_provided_signatures s)))
          | Some m \<Rightarrow> m);
          s1 = s\<lparr>ss_address_sigs := Some maps\<rparr>
      in case map_of (snd maps) a of
           Some k \<Rightarrow> Inr (True, mark_key k s1)
         | None \<Rightarrow>
             (case map_of (fst maps) a of
                Some k \<Rightarrow> if k \<in> set (sp_available_keys P) then Inr (True, mark_key k s1) else Inr (False, s1)
              | None \<Rightarrow> Inl Bad_iterator))"

text \<open>The three loops of \<^verbatim>\<open>check_authority\<close> have one shape: add the weight of what passes the test, and return as soon as the threshold is reached.\<close>

fun weigh :: "(nat \<Rightarrow> sign_state \<Rightarrow> (bool \<times> sign_state) result) \<Rightarrow> 32 word \<Rightarrow> (nat \<times> 16 word) list \<Rightarrow> 32 word \<Rightarrow> sign_state \<Rightarrow>
   (bool \<times> 32 word \<times> sign_state) result" where
  "weigh t threshold [] total_weight s = Inr (False, total_weight, s)"
| "weigh t threshold ((x, w) # xs) total_weight s =
     rbind (t x s) (\<lambda>(ok, s1).
     if ok
     then let total = total_weight + ucast w in if threshold \<le> total then Inr (True, total, s1) else weigh t threshold xs total s1
     else weigh t threshold xs total_weight s1)"

definition approved :: "nat \<Rightarrow> sign_state \<Rightarrow> bool" where
  "approved a s \<longleftrightarrow> a \<in> set (ss_approved_by s)"

definition approve :: "nat \<Rightarrow> sign_state \<Rightarrow> sign_state" where
  "approve a s = s\<lparr>ss_approved_by := flat_insert a (ss_approved_by s)\<rparr>"

type_synonym checker = "authority option \<Rightarrow> sign_state \<Rightarrow> (bool \<times> sign_state) result"

definition account_approves :: "sign_params \<Rightarrow> checker option \<Rightarrow> nat \<Rightarrow> sign_state \<Rightarrow> (bool \<times> sign_state) result" where
  "account_approves P deeper a s =
     (if approved a s then Inr (True, s)
      else case deeper of
             None \<Rightarrow> Inr (False, s)
           | Some check \<Rightarrow>
               rbind (sp_get_active P a) (\<lambda>au. rbind (check au s) (\<lambda>(ok, s1). Inr (ok, if ok then approve a s1 else s1))))"

definition check_one :: "sign_params \<Rightarrow> checker option \<Rightarrow> checker" where
  "check_one P deeper au s =
     (case au of
        None \<Rightarrow> Inr (False, s)
      | Some auth \<Rightarrow>
          rbind (weigh (signed_by P) (weight_threshold auth) (key_auths auth) 0 s) (\<lambda>(ok, total, s1).
          if ok then Inr (True, s1)
          else rbind (weigh (signed_by_address P) (weight_threshold auth) (address_auths auth) total s1) (\<lambda>(ok, total, s2).
          if ok then Inr (True, s2)
          else rbind (weigh (account_approves P deeper) (weight_threshold auth) (account_auths auth) total s2) (\<lambda>(ok, total, s3).
          if ok then Inr (True, s3) else Inr (weight_threshold auth \<le> total, s3)))))"

text \<open>The number is what is left of \<^verbatim>\<open>max_recursion\<close> at the depth of the call.\<close>

primrec check_authority :: "sign_params \<Rightarrow> nat \<Rightarrow> checker" where
  "check_authority P 0 = check_one P None"
| "check_authority P (Suc n) = check_one P (Some (check_authority P n))"

definition check_account :: "sign_params \<Rightarrow> nat \<Rightarrow> nat \<Rightarrow> sign_state \<Rightarrow> (bool \<times> sign_state) result" where
  "check_account P n a s = (if approved a s then Inr (True, s) else rbind (sp_get_active P a) (\<lambda>au. check_authority P n au s))"

definition remove_unused_signatures :: "sign_state \<Rightarrow> bool \<times> sign_state" where
  "remove_unused_signatures s =
     (let sigs = ss_provided_signatures s
      in (\<exists>x\<in>set sigs. \<not> snd x, s\<lparr>ss_provided_signatures := filter snd sigs\<rparr>))"

text \<open>\<^verbatim>\<open>s.check_authority(id) || s.check_authority(get_owner(id))\<close>\<close>

definition check_active_or_owner :: "sign_params \<Rightarrow> (nat \<Rightarrow> authority option result) \<Rightarrow> nat \<Rightarrow> nat \<Rightarrow> sign_state \<Rightarrow> (bool \<times> sign_state) result" where
  "check_active_or_owner P get_owner n a s =
     rbind (check_account P n a s) (\<lambda>(ok, s1).
     if ok then Inr (True, s1) else rbind (get_owner a) (\<lambda>au. check_authority P n au s1))"

text \<open>A loop of assertions over the required authorities.\<close>

fun check_each :: "('x \<Rightarrow> sign_state \<Rightarrow> (bool \<times> sign_state) result) \<Rightarrow> error \<Rightarrow> 'x list \<Rightarrow> sign_state \<Rightarrow> sign_state result" where
  "check_each t e [] s = Inr s"
| "check_each t e (x # xs) s = rbind (t x s) (\<lambda>(ok, s1). require ok e (check_each t e xs s1))"

record approvals =
  ap_active :: "nat list"
  ap_owner :: "nat list"

definition no_approvals :: approvals where "no_approvals = \<lparr>ap_active = [], ap_owner = []\<rparr>"

definition owner_approved :: "sign_params \<Rightarrow> (nat \<Rightarrow> authority option result) \<Rightarrow> nat list \<Rightarrow> nat \<Rightarrow> nat \<Rightarrow> sign_state \<Rightarrow> (bool \<times> sign_state) result" where
  "owner_approved P get_owner approvals n a s =
     (if a \<in> set approvals then Inr (True, s) else rbind (get_owner a) (\<lambda>au. check_authority P n au s))"

definition verify_authority :: "sign_params \<Rightarrow> (nat \<Rightarrow> authority option result) \<Rightarrow> nat \<Rightarrow> bool \<Rightarrow> approvals \<Rightarrow> operation list \<Rightarrow> nat list \<Rightarrow> unit result" where
  "verify_authority P get_owner n allow_committe ap ops sigs =
     (let r = operations_required ops; Q = P\<lparr>sp_available_keys := []\<rparr>;
          s = fold approve (ap_owner ap) (fold approve (ap_active ap) (initial_sign_state sigs))
      in require (allow_committe \<or> GRAPHENE_COMMITTEE_ACCOUNT \<notin> set (ra_active r)) Invalid_committee_approval
         (rbind (check_each (\<lambda>auth. check_authority Q n (Some auth)) Tx_missing_other_auth (ra_other r) s) (\<lambda>s1.
          rbind (check_each (check_active_or_owner Q get_owner n) Tx_missing_active_auth (ra_active r) s1) (\<lambda>s2.
          rbind (check_each (owner_approved Q get_owner (ap_owner ap) n) Tx_missing_owner_auth (ra_owner r) s2) (\<lambda>s3.
          require (\<not> fst (remove_unused_signatures s3)) Tx_irrelevant_sig (Inr ()))))))"

fun get_signature_keys :: "(nat \<Rightarrow> nat) \<Rightarrow> nat list \<Rightarrow> nat list \<Rightarrow> nat list result" where
  "get_signature_keys recover res [] = Inr res"
| "get_signature_keys recover res (sig # sigs) =
     require (recover sig \<notin> set res) Tx_duplicate_sig (get_signature_keys recover (flat_insert (recover sig) res) sigs)"

definition verify_transaction_authority ::
  "sign_params \<Rightarrow> (nat \<Rightarrow> authority option result) \<Rightarrow> nat \<Rightarrow> (signed_transaction \<Rightarrow> nat \<Rightarrow> nat) \<Rightarrow> signed_transaction \<Rightarrow> unit result" where
  "verify_transaction_authority P get_owner n recover trx =
     rbind (get_signature_keys (recover trx) [] (tx_signatures trx)) (verify_authority P get_owner n False no_approvals (tx_operations trx))"

text \<open>The results of the checks are not used here: the loops only mark keys.\<close>

fun try_each :: "('x \<Rightarrow> sign_state \<Rightarrow> (bool \<times> sign_state) result) \<Rightarrow> 'x list \<Rightarrow> sign_state \<Rightarrow> sign_state result" where
  "try_each t [] s = Inr s"
| "try_each t (x # xs) s = rbind (t x s) (\<lambda>(_, s1). try_each t xs s1)"

definition get_required_signatures ::
  "sign_params \<Rightarrow> (nat \<Rightarrow> authority option result) \<Rightarrow> nat \<Rightarrow> (signed_transaction \<Rightarrow> nat \<Rightarrow> nat) \<Rightarrow> signed_transaction \<Rightarrow> nat list result" where
  "get_required_signatures P get_owner n recover trx =
     (let r = get_required_authorities (tx_operations trx)
      in rbind (get_signature_keys (recover trx) [] (tx_signatures trx)) (\<lambda>keys.
         rbind (try_each (\<lambda>auth. check_authority P n (Some auth)) (ra_other r) (initial_sign_state keys)) (\<lambda>s1.
         rbind (try_each (\<lambda>a s. rbind (get_owner a) (\<lambda>au. check_authority P n au s)) (ra_owner r) s1) (\<lambda>s2.
         rbind (try_each (check_active_or_owner P get_owner n) (ra_active r) s2) (\<lambda>s3.
         Inr (fold flat_insert (filter (\<lambda>k. k \<in> set (sp_available_keys P) \<and> k \<notin> set keys)
           (map fst (ss_provided_signatures (snd (remove_unused_signatures s3))))) []))))))"

definition is_missing_auth :: "error \<Rightarrow> bool" where
  "is_missing_auth e \<longleftrightarrow> e = Tx_missing_owner_auth \<or> e = Tx_missing_active_auth \<or> e = Tx_missing_other_auth"

fun minimize_keys :: "(nat list \<Rightarrow> unit result) \<Rightarrow> nat list \<Rightarrow> nat list \<Rightarrow> nat list result" where
  "minimize_keys verify [] res = Inr res"
| "minimize_keys verify (k # ks) res =
     (case verify (filter (\<lambda>x. x \<noteq> k) res) of
        Inr _ \<Rightarrow> minimize_keys verify ks (filter (\<lambda>x. x \<noteq> k) res)
      | Inl e \<Rightarrow> if is_missing_auth e then minimize_keys verify ks res else Inl e)"

definition minimize_required_signatures ::
  "sign_params \<Rightarrow> (nat \<Rightarrow> authority option result) \<Rightarrow> nat \<Rightarrow> (signed_transaction \<Rightarrow> nat \<Rightarrow> nat) \<Rightarrow> signed_transaction \<Rightarrow> nat list result" where
  "minimize_required_signatures P get_owner n recover trx =
     rbind (get_required_signatures P get_owner n recover trx) (\<lambda>ks.
     minimize_keys (verify_authority P get_owner n False no_approvals (tx_operations trx)) ks ks)"

section \<open>What it means to be authorized\<close>

text \<open>\<open>K\<close> are the keys that sign, \<open>D\<close> the addresses they have, \<open>A\<close> the accounts that approved already and \<open>G\<close> the active authorities. An account is in order at depth
  \<open>n + 1\<close> if it approved already or the weights of the keys, addresses and accounts in order at depth \<open>n\<close> reach the threshold of its authority.\<close>

fun weight_of :: "(nat \<Rightarrow> bool) \<Rightarrow> (nat \<times> 16 word) list \<Rightarrow> nat" where
  "weight_of p [] = 0"
| "weight_of p ((x, w) # xs) = (if p x then unat w else 0) + weight_of p xs"

definition supported :: "(nat \<Rightarrow> bool) \<Rightarrow> (nat \<Rightarrow> bool) \<Rightarrow> (nat \<Rightarrow> bool) \<Rightarrow> authority \<Rightarrow> nat" where
  "supported K D C auth = weight_of K (key_auths auth) + weight_of D (address_auths auth) + weight_of C (account_auths auth)"

fun account_ok :: "(nat \<Rightarrow> bool) \<Rightarrow> (nat \<Rightarrow> bool) \<Rightarrow> (nat \<Rightarrow> bool) \<Rightarrow> (nat \<Rightarrow> authority option result) \<Rightarrow> nat \<Rightarrow> nat \<Rightarrow> bool" where
  "account_ok K D A G 0 a \<longleftrightarrow> A a"
| "account_ok K D A G (Suc n) a \<longleftrightarrow> A a \<or>
     (case G a of Inr (Some au) \<Rightarrow> unat (weight_threshold au) \<le> supported K D (account_ok K D A G n) au | _ \<Rightarrow> False)"

definition authority_ok :: "(nat \<Rightarrow> bool) \<Rightarrow> (nat \<Rightarrow> bool) \<Rightarrow> (nat \<Rightarrow> bool) \<Rightarrow> (nat \<Rightarrow> authority option result) \<Rightarrow> nat \<Rightarrow> authority \<Rightarrow> bool" where
  "authority_ok K D A G n auth \<longleftrightarrow> unat (weight_threshold auth) \<le> supported K D (account_ok K D A G n) auth"

text \<open>The authorities the walk may look at.\<close>

inductive consulted :: "(nat \<Rightarrow> authority option result) \<Rightarrow> (authority \<Rightarrow> bool) \<Rightarrow> authority \<Rightarrow> bool" for G roots where
  root: "roots au \<Longrightarrow> consulted G roots au"
| member: "consulted G roots au \<Longrightarrow> (a, w) \<in> set (account_auths au) \<Longrightarrow> G a = Inr (Some au') \<Longrightarrow> consulted G roots au'"

lemma weight_of_mono: "(\<And>x. x \<in> fst ` set xs \<Longrightarrow> p x \<Longrightarrow> q x) \<Longrightarrow> weight_of p xs \<le> weight_of q xs"
proof (induction xs)
  case (Cons x xs)
  then have "weight_of p xs \<le> weight_of q xs" by simp
  then show ?case using Cons.prems by (cases x) auto
qed simp

lemma account_ok_Suc: "account_ok K D A G n a \<Longrightarrow> account_ok K D A G (Suc n) a"
proof (induction n arbitrary: a)
  case (Suc n)
  have "supported K D (account_ok K D A G n) au \<le> supported K D (account_ok K D A G (Suc n)) au" for au
    unfolding supported_def using Suc.IH by (intro add_mono weight_of_mono) auto
  then show ?case using Suc.prems by (auto split: sum.splits option.splits) (meson order.trans)+
qed simp

lemma account_ok_mono: "n \<le> m \<Longrightarrow> account_ok K D A G n a \<Longrightarrow> account_ok K D A G m a"
  by (induction m) (auto simp: le_Suc_eq simp del: account_ok.simps intro: account_ok_Suc)

lemma weight_of_some_depth: "\<exists>n. weight_of (\<lambda>a. \<exists>n. account_ok K D A G n a) xs \<le> weight_of (account_ok K D A G n) xs"
proof (induction xs)
  case (Cons y xs)
  obtain x w where y: "y = (x, w)" by (cases y)
  from Cons.IH obtain n where n: "weight_of (\<lambda>a. \<exists>n. account_ok K D A G n a) xs \<le> weight_of (account_ok K D A G n) xs" by blast
  show ?case
  proof (cases "\<exists>m. account_ok K D A G m x")
    case True
    then obtain m where m: "account_ok K D A G m x" by blast
    have "weight_of (account_ok K D A G n) xs \<le> weight_of (account_ok K D A G (max n m)) xs"
      by (rule weight_of_mono) (metis account_ok_mono max.cobounded1)
    moreover have "account_ok K D A G (max n m) x" using m account_ok_mono max.cobounded2 by metis
    ultimately show ?thesis using n True y by (intro exI [of _ "max n m"]) simp
  next
    case False
    then show ?thesis using n y by (intro exI [of _ n]) simp
  qed
qed simp

section \<open>Checks accept only what is authorized\<close>

lemma unat_ucast_up: "unat (ucast w :: 32 word) = unat w" for w :: "16 word"
  using unsigned_less [of w, where ?'a = nat] by (simp add: unsigned_ucast_eq take_bit_nat_eq_self)

lemma unat_add_le: "unat (a + b :: 32 word) \<le> unat a + unat b"
  by (simp add: unat_word_ariths)

lemma weigh_sound:
  assumes "\<And>x s b s'. x \<in> fst ` set xs \<Longrightarrow> I s \<Longrightarrow> t x s = Inr (b, s') \<Longrightarrow> I s' \<and> (b \<longrightarrow> p x)"
  shows "I s \<Longrightarrow> weigh t threshold xs tot s = Inr (r, tot', s') \<Longrightarrow>
     I s' \<and> unat tot' \<le> unat tot + weight_of p xs \<and> (r \<longrightarrow> threshold \<le> tot')"
  using assms
proof (induction xs arbitrary: tot s)
  case (Cons y xs)
  obtain x w where y: "y = (x, w)" by (cases y)
  obtain ok s1 where t: "t x s = Inr (ok, s1)" using Cons.prems(2) y by auto
  have p: "I s1" "ok \<longrightarrow> p x" using Cons.prems(3) [OF _ Cons.prems(1) t] y by auto
  have w: "unat (tot + ucast w) \<le> unat tot + unat w"
    using unat_add_le [of tot "ucast w"] by (simp add: unat_ucast_up)
  have keeps: "\<And>z q b q'. z \<in> fst ` set xs \<Longrightarrow> I q \<Longrightarrow> t z q = Inr (b, q') \<Longrightarrow> I q' \<and> (b \<longrightarrow> p z)"
    by (rule Cons.prems(3)) simp_all
  consider "ok" "threshold \<le> tot + ucast w" | "ok" "\<not> threshold \<le> tot + ucast w" | "\<not> ok" by blast
  then show ?case
  proof cases
    case 1
    then show ?thesis using Cons.prems(2) t p w y by (auto simp: Let_def)
  next
    case 2
    then have "weigh t threshold xs (tot + ucast w) s1 = Inr (r, tot', s')" using Cons.prems(2) t y by (simp add: Let_def)
    then have "I s' \<and> unat tot' \<le> unat (tot + ucast w) + weight_of p xs \<and> (r \<longrightarrow> threshold \<le> tot')"
      by (rule Cons.IH [OF p(1)]) (rule keeps)
    then show ?thesis using w p(2) 2(1) y by auto
  next
    case 3
    then have "weigh t threshold xs tot s1 = Inr (r, tot', s')" using Cons.prems(2) t y by simp
    then have "I s' \<and> unat tot' \<le> unat tot + weight_of p xs \<and> (r \<longrightarrow> threshold \<le> tot')" by (rule Cons.IH [OF p(1)]) (rule keeps)
    then show ?thesis using y by auto
  qed
qed simp

text \<open>The state of the walk: it keeps the signatures, every key it knows signs, its maps of addresses lead to such keys, every account it takes as approved is in order, and
  every key it has marked is relevant.\<close>

record signing =
  sg_signatures :: "nat \<Rightarrow> bool"
  sg_keys :: "nat \<Rightarrow> bool"
  sg_approved :: "nat \<Rightarrow> bool"
  sg_relevant :: "nat \<Rightarrow> bool"

definition signing_addresses :: "sign_params \<Rightarrow> signing \<Rightarrow> nat \<Rightarrow> bool" where
  "signing_addresses P g a \<longleftrightarrow> (\<exists>k. sg_keys g k \<and> a \<in> set (sp_addresses P k))"

abbreviation account_signs :: "sign_params \<Rightarrow> signing \<Rightarrow> nat \<Rightarrow> nat \<Rightarrow> bool" where
  "account_signs P g \<equiv> account_ok (sg_keys g) (signing_addresses P g) (sg_approved g) (sp_get_active P)"

abbreviation authority_signs :: "sign_params \<Rightarrow> signing \<Rightarrow> nat \<Rightarrow> authority \<Rightarrow> bool" where
  "authority_signs P g \<equiv> authority_ok (sg_keys g) (signing_addresses P g) (sg_approved g) (sp_get_active P)"

definition address_map_ok :: "sign_params \<Rightarrow> signing \<Rightarrow> (nat \<times> nat) list \<Rightarrow> bool" where
  "address_map_ok P g m \<longleftrightarrow> (\<forall>a k. map_of m a = Some k \<longrightarrow> sg_keys g k \<and> a \<in> set (sp_addresses P k))"

definition sign_ok :: "sign_params \<Rightarrow> signing \<Rightarrow> sign_state \<Rightarrow> bool" where
  "sign_ok P g s \<longleftrightarrow> (\<forall>k. sg_signatures g k \<longrightarrow> map_of (ss_provided_signatures s) k \<noteq> None) \<and> (\<forall>k \<in> set (sp_available_keys P). sg_keys g k) \<and>
     (\<forall>k b. map_of (ss_provided_signatures s) k = Some b \<longrightarrow> sg_keys g k \<and> (b \<longrightarrow> sg_relevant g k)) \<and>
     (\<forall>m. ss_address_sigs s = Some m \<longrightarrow> address_map_ok P g (fst m) \<and> address_map_ok P g (snd m)) \<and>
     (\<forall>a \<in> set (ss_approved_by s). \<exists>n. account_signs P g n a)"

text \<open>The keys and addresses of an authority are relevant.\<close>

definition relevant_for :: "sign_params \<Rightarrow> signing \<Rightarrow> authority \<Rightarrow> bool" where
  "relevant_for P g au \<longleftrightarrow> (\<forall>k \<in> fst ` set (key_auths au). sg_relevant g k) \<and>
     (\<forall>a \<in> fst ` set (address_auths au). \<forall>k. a \<in> set (sp_addresses P k) \<longrightarrow> sg_relevant g k)"

lemma mark_key_ok: "sign_ok P g s \<Longrightarrow> sg_keys g k \<Longrightarrow> sg_relevant g k \<Longrightarrow> sign_ok P g (mark_key k s)"
  by (auto simp: sign_ok_def mark_key_def update_conv' split: if_splits)

lemma signed_by_sound:
  assumes "sign_ok P g s" and "sg_relevant g k" and "signed_by P k s = Inr (b, s')"
  shows "sign_ok P g s' \<and> (b \<longrightarrow> sg_keys g k)"
proof -
  have "sg_keys g k" if "map_of (ss_provided_signatures s) k \<noteq> None \<or> k \<in> set (sp_available_keys P)"
    using that assms(1) by (auto simp: sign_ok_def)
  then show ?thesis using assms mark_key_ok by (auto simp: signed_by_def split: if_splits)
qed

lemma address_map_update:
  "address_map_ok P g m \<Longrightarrow> sg_keys g k \<Longrightarrow> a \<in> set (sp_addresses P k) \<Longrightarrow> address_map_ok P g (AList.update a k m)"
  by (simp add: address_map_ok_def update_conv')

lemma address_map_fold:
  "address_map_ok P g m \<Longrightarrow> sg_keys g k \<Longrightarrow> set as \<subseteq> set (sp_addresses P k) \<Longrightarrow> address_map_ok P g (fold (\<lambda>a. AList.update a k) as m)"
  by (induction as arbitrary: m) (simp_all add: address_map_update)

lemma address_sigs_ok:
  assumes "\<forall>k \<in> set ks. sg_keys g k"
  shows "address_map_ok P g (address_sigs P ks)"
proof -
  have "\<forall>k \<in> set ks. sg_keys g k \<Longrightarrow> address_map_ok P g m \<Longrightarrow> address_map_ok P g (fold (\<lambda>k. fold (\<lambda>a. AList.update a k) (sp_addresses P k)) ks m)" for m
    by (induction ks arbitrary: m) (simp_all add: address_map_fold)
  from this [OF assms, of "[]"] show ?thesis by (simp add: address_sigs_def address_map_ok_def)
qed

lemma signed_by_address_sound:
  assumes ok: "sign_ok P g s" and rel: "\<And>k. a \<in> set (sp_addresses P k) \<Longrightarrow> sg_relevant g k" and run: "signed_by_address P a s = Inr (b, s')"
  shows "sign_ok P g s' \<and> (b \<longrightarrow> signing_addresses P g a)"
proof -
  define maps where "maps = (case ss_address_sigs s of None \<Rightarrow> (address_sigs P (sp_available_keys P), address_sigs P (map fst (ss_provided_signatures s))) | Some m \<Rightarrow> m)"
  have "sg_keys g k" if "k \<in> fst ` set (ss_provided_signatures s)" for k
    using that ok weak_map_of_SomeI [of k _ "ss_provided_signatures s"] by (fastforce simp: sign_ok_def)
  then have "address_map_ok P g (address_sigs P (map fst (ss_provided_signatures s)))" by (intro address_sigs_ok) simp
  moreover have "address_map_ok P g (address_sigs P (sp_available_keys P))" using ok by (intro address_sigs_ok) (simp add: sign_ok_def)
  ultimately have m: "address_map_ok P g (fst maps)" "address_map_ok P g (snd maps)"
    using ok by (auto simp: maps_def sign_ok_def split: option.split)
  then have s1: "sign_ok P g (s\<lparr>ss_address_sigs := Some maps\<rparr>)" using ok by (auto simp: sign_ok_def)
  have hit: "sign_ok P g (mark_key k (s\<lparr>ss_address_sigs := Some maps\<rparr>)) \<and> signing_addresses P g a"
    if "map_of (snd maps) a = Some k \<or> map_of (fst maps) a = Some k" for k
  proof -
    have k: "sg_keys g k" "a \<in> set (sp_addresses P k)" using that m unfolding address_map_ok_def by blast+
    then show ?thesis using mark_key_ok [OF s1 k(1) rel [OF k(2)]] by (auto simp: signing_addresses_def)
  qed
  show ?thesis using run hit s1 unfolding signed_by_address_def Let_def maps_def [symmetric]
    by (auto split: option.splits if_splits)
qed

definition checker_sound :: "sign_params \<Rightarrow> signing \<Rightarrow> (authority \<Rightarrow> bool) \<Rightarrow> checker \<Rightarrow> bool" where
  "checker_sound P g U check \<longleftrightarrow> (\<forall>au s b s'. (\<forall>auth. au = Some auth \<longrightarrow> U auth) \<longrightarrow> sign_ok P g s \<longrightarrow> check au s = Inr (b, s') \<longrightarrow>
     sign_ok P g s' \<and> (b \<longrightarrow> (\<exists>auth n. au = Some auth \<and> authority_signs P g n auth)))"

lemma checker_soundD:
  assumes "checker_sound P g U check" and "\<And>auth. au = Some auth \<Longrightarrow> U auth" and "sign_ok P g s" and "check au s = Inr (b, s')"
  shows "sign_ok P g s' \<and> (b \<longrightarrow> (\<exists>auth n. au = Some auth \<and> authority_signs P g n auth))"
  by (rule assms(1) [unfolded checker_sound_def, THEN spec, THEN spec, THEN spec, THEN spec, THEN mp, THEN mp, THEN mp])
    (use assms(2-4) in simp_all)

text \<open>A set of authorities that contains those of its accounts, with relevant keys.\<close>

definition closed_set :: "sign_params \<Rightarrow> signing \<Rightarrow> (authority \<Rightarrow> bool) \<Rightarrow> bool" where
  "closed_set P g U \<longleftrightarrow> (\<forall>auth. U auth \<longrightarrow> relevant_for P g auth \<and>
     (\<forall>a w au. (a, w) \<in> set (account_auths auth) \<longrightarrow> sp_get_active P a = Inr (Some au) \<longrightarrow> U au))"

lemma approve_ok: "sign_ok P g s \<Longrightarrow> account_signs P g n a \<Longrightarrow> sign_ok P g (approve a s)"
  by (auto simp: sign_ok_def approve_def flat_insert_def set_insort_key)

lemma account_approves_sound:
  assumes deeper: "\<And>check. deeper = Some check \<Longrightarrow> checker_sound P g U check" and U: "\<And>au. sp_get_active P a = Inr (Some au) \<Longrightarrow> U au"
    and ok: "sign_ok P g s" and run: "account_approves P deeper a s = Inr (b, s')"
  shows "sign_ok P g s' \<and> (b \<longrightarrow> (\<exists>n. account_signs P g n a))"
proof (cases "approved a s \<or> deeper = None")
  case True
  then have "s' = s" "b \<longrightarrow> approved a s" using run by (auto simp: account_approves_def split: if_splits)
  then show ?thesis using ok unfolding sign_ok_def approved_def by blast
next
  case False
  then obtain check au s1 where c: "deeper = Some check" "sp_get_active P a = Inr au" "check au s = Inr (b, s1)" "s' = (if b then approve a s1 else s1)"
    using run by (auto simp: account_approves_def)
  have S: "sign_ok P g s1 \<and> (b \<longrightarrow> (\<exists>auth n. au = Some auth \<and> authority_signs P g n auth))"
    by (rule checker_soundD [OF deeper [OF c(1)] _ ok c(3)]) (simp add: U c(2))
  show ?thesis
  proof (cases b)
    case True
    then obtain auth n where "au = Some auth" "authority_signs P g n auth" using S by blast
    then have "account_signs P g (Suc n) a" using c(2) by (simp add: authority_ok_def)
    then show ?thesis using S c(4) approve_ok True by (auto simp del: account_ok.simps)
  qed (use S c(4) in simp)
qed

lemma key_weight_sound:
  assumes "relevant_for P g auth" and "sign_ok P g s" and "weigh (signed_by P) threshold (key_auths auth) tot s = Inr (r, tot', s')"
  shows "sign_ok P g s' \<and> unat tot' \<le> unat tot + weight_of (sg_keys g) (key_auths auth) \<and> (r \<longrightarrow> threshold \<le> tot')"
proof (rule weigh_sound [where I = "sign_ok P g", OF _ assms(2,3)])
  fix k q b q' assume "k \<in> fst ` set (key_auths auth)" "sign_ok P g q" "signed_by P k q = Inr (b, q')"
  moreover from this have "sg_relevant g k" using assms(1) unfolding relevant_for_def by blast
  ultimately show "sign_ok P g q' \<and> (b \<longrightarrow> sg_keys g k)" using signed_by_sound by blast
qed

lemma address_weight_sound:
  assumes "relevant_for P g auth" and "sign_ok P g s" and "weigh (signed_by_address P) threshold (address_auths auth) tot s = Inr (r, tot', s')"
  shows "sign_ok P g s' \<and> unat tot' \<le> unat tot + weight_of (signing_addresses P g) (address_auths auth) \<and> (r \<longrightarrow> threshold \<le> tot')"
proof (rule weigh_sound [where I = "sign_ok P g", OF _ assms(2,3)])
  fix a q b q' assume "a \<in> fst ` set (address_auths auth)" "sign_ok P g q" "signed_by_address P a q = Inr (b, q')"
  moreover from this have "\<And>k. a \<in> set (sp_addresses P k) \<Longrightarrow> sg_relevant g k" using assms(1) unfolding relevant_for_def by blast
  ultimately show "sign_ok P g q' \<and> (b \<longrightarrow> signing_addresses P g a)" using signed_by_address_sound by blast
qed

lemma account_weight_sound:
  assumes deeper: "\<And>check. deeper = Some check \<Longrightarrow> checker_sound P g U check" and U: "closed_set P g U" "U auth"
    and ok: "sign_ok P g s" and run: "weigh (account_approves P deeper) threshold (account_auths auth) tot s = Inr (r, tot', s')"
  shows "sign_ok P g s' \<and> unat tot' \<le> unat tot + weight_of (\<lambda>a. \<exists>n. account_signs P g n a) (account_auths auth) \<and> (r \<longrightarrow> threshold \<le> tot')"
proof (rule weigh_sound [where I = "sign_ok P g", OF _ ok run])
  fix a q b q' assume a: "a \<in> fst ` set (account_auths auth)" and q: "sign_ok P g q" and r: "account_approves P deeper a q = Inr (b, q')"
  have "sp_get_active P a = Inr (Some au) \<Longrightarrow> U au" for au using a U by (force simp: closed_set_def)
  from account_approves_sound [OF deeper this q r] show "sign_ok P g q' \<and> (b \<longrightarrow> (\<exists>n. account_signs P g n a))" by blast
qed

lemma authority_reached:
  assumes "weight_threshold auth \<le> tot" and "unat tot \<le> supported (sg_keys g) (signing_addresses P g) (\<lambda>a. \<exists>n. account_signs P g n a) auth"
  shows "\<exists>n. authority_signs P g n auth"
proof -
  obtain n where "weight_of (\<lambda>a. \<exists>n. account_signs P g n a) (account_auths auth) \<le> weight_of (account_signs P g n) (account_auths auth)"
    using weight_of_some_depth by blast
  then have "unat (weight_threshold auth) \<le> supported (sg_keys g) (signing_addresses P g) (account_signs P g n) auth"
    using assms unfolding word_le_nat_alt supported_def by linarith
  then show ?thesis by (auto simp: authority_ok_def)
qed

lemma check_one_auth_sound:
  assumes deeper: "\<And>check. deeper = Some check \<Longrightarrow> checker_sound P g U check" and U: "closed_set P g U" "U auth"
    and ok: "sign_ok P g s" and run: "check_one P deeper (Some auth) s = Inr (b, s')"
  shows "sign_ok P g s' \<and> (b \<longrightarrow> (\<exists>n. authority_signs P g n auth))"
proof -
  have rel: "relevant_for P g auth" using U by (simp add: closed_set_def)
  let ?th = "weight_threshold auth"
  obtain r1 t1 s1 where 1: "weigh (signed_by P) ?th (key_auths auth) 0 s = Inr (r1, t1, s1)" using run by (auto simp: check_one_def)
  note W1 = key_weight_sound [OF rel ok 1] and reach = authority_reached [of auth _ g P]
  show ?thesis
  proof (cases r1)
    case True
    then show ?thesis using run 1 W1 reach [of t1] by (simp add: check_one_def supported_def)
  next
    case n1: False
    then obtain r2 t2 s2 where 2: "weigh (signed_by_address P) ?th (address_auths auth) t1 s1 = Inr (r2, t2, s2)" using run 1 by (auto simp: check_one_def)
    note W2 = address_weight_sound [OF rel conjunct1 [OF W1] 2]
    show ?thesis
    proof (cases r2)
      case True
      then show ?thesis using run 1 n1 2 W1 W2 reach [of t2] by (simp add: check_one_def supported_def)
    next
      case n2: False
      then obtain r3 t3 where 3: "weigh (account_approves P deeper) ?th (account_auths auth) t2 s2 = Inr (r3, t3, s')" and b: "b \<longleftrightarrow> r3 \<or> ?th \<le> t3"
        using run 1 n1 2 by (auto simp: check_one_def split: if_splits)
      note W3 = account_weight_sound [OF deeper U conjunct1 [OF W2] 3]
      show ?thesis using b reach [of t3] W1 W2 W3 unfolding supported_def by fastforce
    qed
  qed
qed

lemma check_one_sound:
  assumes "\<And>check. deeper = Some check \<Longrightarrow> checker_sound P g U check" and "closed_set P g U"
  shows "checker_sound P g U (check_one P deeper)"
  unfolding checker_sound_def
proof (intro allI impI)
  fix au s b s'
  assume root: "\<forall>auth. au = Some auth \<longrightarrow> U auth" and ok: "sign_ok P g s" and run: "check_one P deeper au s = Inr (b, s')"
  show "sign_ok P g s' \<and> (b \<longrightarrow> (\<exists>auth n. au = Some auth \<and> authority_signs P g n auth))"
  proof (cases au)
    case None
    then show ?thesis using ok run by (simp add: check_one_def)
  next
    case (Some auth)
    then show ?thesis using check_one_auth_sound [OF assms _ ok, where auth = auth and b = b and s' = s'] root run by auto
  qed
qed

lemma check_authority_sound: "closed_set P g U \<Longrightarrow> checker_sound P g U (check_authority P n)"
  by (induction n) (auto intro!: check_one_sound)

lemma check_each_sound:
  assumes t: "\<And>x s b s'. x \<in> set xs \<Longrightarrow> I s \<Longrightarrow> t x s = Inr (b, s') \<Longrightarrow> I s' \<and> (b \<longrightarrow> p x)"
  shows "I s \<Longrightarrow> check_each t e xs s = Inr s' \<Longrightarrow> I s' \<and> (\<forall>x \<in> set xs. p x)"
  using t
proof (induction xs arbitrary: s)
  case (Cons x xs)
  obtain s1 where 1: "t x s = Inr (True, s1)" and 2: "check_each t e xs s1 = Inr s'" using Cons.prems(2) by auto
  have x: "I s1 \<and> p x" using Cons.prems(3) [OF _ Cons.prems(1) 1] by simp
  have "I s' \<and> (\<forall>x \<in> set xs. p x)" by (rule Cons.IH [OF conjunct1 [OF x] 2]) (rule Cons.prems(3), simp_all)
  then show ?case using x by simp
qed simp

text \<open>The signatures of a transaction and what is approved; the relevant keys are those of the authorities that are looked at.\<close>

definition required_roots :: "sign_params \<Rightarrow> (nat \<Rightarrow> authority option result) \<Rightarrow> operation list \<Rightarrow> authority \<Rightarrow> bool" where
  "required_roots P get_owner ops au \<longleftrightarrow> au \<in> set (ra_other (operations_required ops)) \<or>
     (\<exists>a \<in> set (ra_active (operations_required ops)). sp_get_active P a = Inr (Some au) \<or> get_owner a = Inr (Some au)) \<or>
     (\<exists>a \<in> set (ra_owner (operations_required ops)). get_owner a = Inr (Some au))"

definition transaction_signing :: "sign_params \<Rightarrow> (nat \<Rightarrow> authority option result) \<Rightarrow> approvals \<Rightarrow> operation list \<Rightarrow> nat list \<Rightarrow> signing" where
  "transaction_signing P get_owner ap ops sigs =
     \<lparr>sg_signatures = (\<lambda>k. k \<in> set sigs), sg_keys = (\<lambda>k. k \<in> set sigs),
      sg_approved = (\<lambda>a. a = GRAPHENE_TEMP_ACCOUNT \<or> a \<in> set (ap_active ap) \<or> a \<in> set (ap_owner ap)),
      sg_relevant = (\<lambda>k. \<exists>au. consulted (sp_get_active P) (required_roots P get_owner ops) au \<and>
        (k \<in> fst ` set (key_auths au) \<or> (\<exists>a \<in> fst ` set (address_auths au). a \<in> set (sp_addresses P k))))\<rparr>"

lemma transaction_closed: "closed_set P (transaction_signing P get_owner ap ops sigs) (consulted (sp_get_active P) (required_roots P get_owner ops))"
  unfolding closed_set_def relevant_for_def transaction_signing_def by (auto intro: consulted.member)

lemma fold_approve: "fold approve xs s = s\<lparr>ss_approved_by := fold flat_insert xs (ss_approved_by s)\<rparr>"
  by (induction xs arbitrary: s) (simp_all add: approve_def)

lemma set_fold_flat_insert [simp]: "set (fold flat_insert xs ys) = set xs \<union> set ys"
  by (induction xs arbitrary: ys) (auto simp: flat_insert_def set_insort_key)

lemma initial_sign_ok:
  assumes "sp_available_keys P = []"
  shows "sign_ok P (transaction_signing P get_owner ap ops sigs) (fold approve (ap_owner ap) (fold approve (ap_active ap) (initial_sign_state sigs)))"
proof -
  have "map_of (map (\<lambda>k. (k, False)) sigs) k = (if k \<in> set sigs then Some False else None)" for k
    by (induction sigs) auto
  moreover have "account_signs P (transaction_signing P get_owner ap ops sigs) 0 a" if "a = GRAPHENE_TEMP_ACCOUNT \<or> a \<in> set (ap_active ap) \<or> a \<in> set (ap_owner ap)" for a
    using that by (simp add: transaction_signing_def)
  ultimately show ?thesis using assms
    by (auto simp: sign_ok_def fold_approve initial_sign_state_def transaction_signing_def simp del: account_ok.simps split: if_splits)
qed

definition owner_signs :: "sign_params \<Rightarrow> signing \<Rightarrow> (nat \<Rightarrow> authority option result) \<Rightarrow> nat \<Rightarrow> bool" where
  "owner_signs P g get_owner a \<longleftrightarrow> (\<exists>au n. get_owner a = Inr (Some au) \<and> authority_signs P g n au)"

lemma owner_check_sound:
  assumes U: "closed_set P g U" and root: "\<And>au. get_owner a = Inr (Some au) \<Longrightarrow> U au" and ok: "sign_ok P g s"
    and run: "rbind (get_owner a) (\<lambda>au. check_authority P n au s) = Inr (b, s')"
  shows "sign_ok P g s' \<and> (b \<longrightarrow> owner_signs P g get_owner a)"
proof -
  obtain au where au: "get_owner a = Inr au" and c: "check_authority P n au s = Inr (b, s')" using run by auto
  have "sign_ok P g s' \<and> (b \<longrightarrow> (\<exists>auth n. au = Some auth \<and> authority_signs P g n auth))"
    by (rule checker_soundD [OF check_authority_sound [OF U] _ ok c]) (simp add: root au)
  then show ?thesis using au by (auto simp: owner_signs_def)
qed

lemma check_account_sound:
  assumes U: "closed_set P g U" and root: "\<And>au. sp_get_active P a = Inr (Some au) \<Longrightarrow> U au" and ok: "sign_ok P g s" and run: "check_account P n a s = Inr (b, s')"
  shows "sign_ok P g s' \<and> (b \<longrightarrow> (\<exists>m. account_signs P g m a))"
proof (cases "approved a s")
  case True
  then show ?thesis using ok run by (auto simp: check_account_def approved_def sign_ok_def)
next
  case False
  then have "rbind (sp_get_active P a) (\<lambda>au. check_authority P n au s) = Inr (b, s')" using run by (simp add: check_account_def)
  from owner_check_sound [where get_owner = "sp_get_active P" and a = a, OF U root ok this] obtain au m where "sign_ok P g s' \<and> (b \<longrightarrow> sp_get_active P a = Inr (Some au) \<and> authority_signs P g m au)"
    unfolding owner_signs_def by blast
  then have "sign_ok P g s' \<and> (b \<longrightarrow> account_signs P g (Suc m) a)" by (auto simp: authority_ok_def)
  then show ?thesis by blast
qed

lemma check_active_or_owner_sound:
  assumes U: "closed_set P g U" and root: "\<And>au. sp_get_active P a = Inr (Some au) \<or> get_owner a = Inr (Some au) \<Longrightarrow> U au"
    and ok: "sign_ok P g s" and run: "check_active_or_owner P get_owner n a s = Inr (b, s')"
  shows "sign_ok P g s' \<and> (b \<longrightarrow> (\<exists>m. account_signs P g m a) \<or> owner_signs P g get_owner a)"
proof -
  obtain b1 s1 where 1: "check_account P n a s = Inr (b1, s1)"
    and 2: "(if b1 then Inr (True, s1) else rbind (get_owner a) (\<lambda>au. check_authority P n au s1)) = Inr (b, s')"
    using run by (auto simp: check_active_or_owner_def simp del: if_split)
  have A: "sign_ok P g s1 \<and> (b1 \<longrightarrow> (\<exists>m. account_signs P g m a))" by (rule check_account_sound [OF U _ ok 1]) (simp add: root)
  show ?thesis
  proof (cases b1)
    case True
    then show ?thesis using A 2 by auto
  next
    case False
    then have "rbind (get_owner a) (\<lambda>au. check_authority P n au s1) = Inr (b, s')" using 2 by simp
    then have "sign_ok P g s' \<and> (b \<longrightarrow> owner_signs P g get_owner a)" by (rule owner_check_sound [where get_owner = get_owner and a = a, OF U _ conjunct1 [OF A], rotated]) (simp add: root)
    then show ?thesis by blast
  qed
qed

lemma verify_authority_parts:
  fixes P get_owner ap ops sigs
  defines "Q \<equiv> P\<lparr>sp_available_keys := []\<rparr>" and "r \<equiv> operations_required ops"
  defines "g \<equiv> transaction_signing Q get_owner ap ops sigs"
  assumes run: "verify_authority P get_owner n allow ap ops sigs = Inr ()"
  shows "(allow \<or> GRAPHENE_COMMITTEE_ACCOUNT \<notin> set (ra_active r)) \<and> (\<forall>au \<in> set (ra_other r). \<exists>m. authority_signs Q g m au) \<and>
     (\<forall>a \<in> set (ra_active r). (\<exists>m. account_signs Q g m a) \<or> owner_signs Q g get_owner a) \<and>
     (\<forall>a \<in> set (ra_owner r). a \<in> set (ap_owner ap) \<or> owner_signs Q g get_owner a) \<and> (\<forall>k \<in> set sigs. sg_relevant g k)"
proof -
  define U where "U = consulted (sp_get_active Q) (required_roots Q get_owner ops)"
  have U: "closed_set Q g U" unfolding U_def g_def by (rule transaction_closed)
  have roots: "required_roots Q get_owner ops au \<Longrightarrow> U au" for au unfolding U_def by (rule consulted.root)
  let ?s = "fold approve (ap_owner ap) (fold approve (ap_active ap) (initial_sign_state sigs))"
  have ok: "sign_ok Q g ?s" unfolding g_def by (rule initial_sign_ok) (simp add: Q_def)
  obtain s1 s2 s3 where c: "allow \<or> GRAPHENE_COMMITTEE_ACCOUNT \<notin> set (ra_active r)"
    and 1: "check_each (\<lambda>auth. check_authority Q n (Some auth)) Tx_missing_other_auth (ra_other r) ?s = Inr s1"
    and 2: "check_each (check_active_or_owner Q get_owner n) Tx_missing_active_auth (ra_active r) s1 = Inr s2"
    and 3: "check_each (owner_approved Q get_owner (ap_owner ap) n) Tx_missing_owner_auth (ra_owner r) s2 = Inr s3"
    and 4: "\<not> fst (remove_unused_signatures s3)"
    using run unfolding verify_authority_def Let_def Q_def [symmetric] r_def [symmetric] by (auto simp: Let_def)
  have A1: "sign_ok Q g s1 \<and> (\<forall>au \<in> set (ra_other r). \<exists>m. authority_signs Q g m au)"
  proof (rule check_each_sound [where I = "sign_ok Q g", OF _ ok 1])
    fix au q b q' assume "au \<in> set (ra_other r)" "sign_ok Q g q" "check_authority Q n (Some au) q = Inr (b, q')"
    then show "sign_ok Q g q' \<and> (b \<longrightarrow> (\<exists>m. authority_signs Q g m au))"
      using checker_soundD [OF check_authority_sound [OF U], of "Some au" q n b q'] roots by (auto simp: required_roots_def r_def)
  qed
  have A2: "sign_ok Q g s2 \<and> (\<forall>a \<in> set (ra_active r). (\<exists>m. account_signs Q g m a) \<or> owner_signs Q g get_owner a)"
  proof (rule check_each_sound [where I = "sign_ok Q g", OF _ conjunct1 [OF A1] 2])
    fix a q b q' assume a: "a \<in> set (ra_active r)" "sign_ok Q g q" "check_active_or_owner Q get_owner n a q = Inr (b, q')"
    show "sign_ok Q g q' \<and> (b \<longrightarrow> (\<exists>m. account_signs Q g m a) \<or> owner_signs Q g get_owner a)"
      by (rule check_active_or_owner_sound [OF U _ a(2,3)]) (use roots a(1) in \<open>auto simp: required_roots_def r_def\<close>)
  qed
  have A3: "sign_ok Q g s3 \<and> (\<forall>a \<in> set (ra_owner r). a \<in> set (ap_owner ap) \<or> owner_signs Q g get_owner a)"
  proof (rule check_each_sound [where I = "sign_ok Q g", OF _ conjunct1 [OF A2] 3])
    fix a q b q' assume a: "a \<in> set (ra_owner r)" "sign_ok Q g q" "owner_approved Q get_owner (ap_owner ap) n a q = Inr (b, q')"
    have "get_owner a = Inr (Some au) \<Longrightarrow> U au" for au using roots a(1) by (auto simp: required_roots_def r_def)
    from owner_check_sound [where get_owner = get_owner and a = a, OF U this a(2)] show "sign_ok Q g q' \<and> (b \<longrightarrow> a \<in> set (ap_owner ap) \<or> owner_signs Q g get_owner a)"
      using a by (auto simp: owner_approved_def split: if_splits)
  qed
  have "sg_relevant g k" if "k \<in> set sigs" for k
  proof -
    have "sg_signatures g k" using that by (simp add: g_def transaction_signing_def)
    then obtain b where b: "map_of (ss_provided_signatures s3) k = Some b" using A3 unfolding sign_ok_def by blast
    then have "b" using 4 map_of_SomeD [OF b] by (auto simp: remove_unused_signatures_def Let_def)
    then show ?thesis using A3 b unfolding sign_ok_def by blast
  qed
  then show ?thesis using c A1 A2 A3 by blast
qed

lemma operations_required_active: "op \<in> set ops \<Longrightarrow> fee_payer op \<in> set (ra_active (operations_required ops))"
  and operations_required_owner: "op \<in> set ops \<Longrightarrow> set (required_owner_authorities op) \<subseteq> set (ra_owner (operations_required ops))"
proof -
  have in_flat: "set (flat_insert x xs) = insert x (set xs)" for x xs by (auto simp: flat_insert_def set_insort_key)
  have step: "set (ra_active (operation_get_required_authorities x r)) = insert (fee_payer x) (set (ra_active r))"
    "set (ra_owner (operation_get_required_authorities x r)) = set (required_owner_authorities x) \<union> set (ra_owner r)" for x r
    by (simp_all add: operation_get_required_authorities_def in_flat)
  have grows: "set (ra_active r) \<subseteq> set (ra_active (fold operation_get_required_authorities ops r)) \<and>
      set (ra_owner r) \<subseteq> set (ra_owner (fold operation_get_required_authorities ops r))" for r ops
  proof (induction ops arbitrary: r)
    case (Cons op ops)
    show ?case using Cons [of "operation_get_required_authorities op r"] by (simp add: step)
  qed simp
  have "op \<in> set ops \<Longrightarrow> fee_payer op \<in> set (ra_active (fold operation_get_required_authorities ops r)) \<and>
      set (required_owner_authorities op) \<subseteq> set (ra_owner (fold operation_get_required_authorities ops r))" for r
  proof (induction ops arbitrary: r)
    case (Cons x ops)
    show ?case
    proof (cases "op = x")
      case True
      then show ?thesis using grows [of "operation_get_required_authorities x r" ops] by (simp add: step)
    next
      case False
      then show ?thesis using Cons by simp
    qed
  qed simp
  then show "op \<in> set ops \<Longrightarrow> fee_payer op \<in> set (ra_active (operations_required ops))"
    "op \<in> set ops \<Longrightarrow> set (required_owner_authorities op) \<subseteq> set (ra_owner (operations_required ops))" by (simp_all add: operations_required_def)
qed

text \<open>C5. Nothing happens to an account without its authority. If a transaction is applied with the checks on, then for each of its operations the signatures
  reach the threshold of the active or the owner authority of the account that acts, the issuer of an asset changes only with the owner authority, the committee account acts
  through proposals only, and every signature belongs to a key of an authority that had to be looked at. Weights count through the authorities of accounts, to some depth. The sums of
  weights may wrap around: that never lets a transaction pass.\<close>

theorem applied_transaction_authorized:
  assumes run: "apply_transaction E hash (\<lambda>trx d. verify_transaction_authority (P d) (get_owner d) n recover trx) skip trx s = Inr (rs, s')"
    and checked: "and skip (or skip_transaction_signatures skip_authority_check) = 0"
  shows "\<exists>sigs. get_signature_keys (recover trx) [] (tx_signatures trx) = Inr sigs \<and>
     (let Q = (P (cs_db s))\<lparr>sp_available_keys := []\<rparr>; own = get_owner (cs_db s); g = transaction_signing Q own no_approvals (tx_operations trx) sigs
      in (\<forall>op \<in> set (tx_operations trx). fee_payer op \<noteq> GRAPHENE_COMMITTEE_ACCOUNT \<and>
            ((\<exists>m. account_signs Q g m (fee_payer op)) \<or> owner_signs Q g own (fee_payer op)) \<and>
            (\<forall>a \<in> set (required_owner_authorities op). owner_signs Q g own a)) \<and>
         (\<forall>k \<in> set sigs. sg_relevant g k))"
proof -
  have "verify_transaction_authority (P (cs_db s)) (get_owner (cs_db s)) n recover trx = Inr ()"
    using run checked by (auto simp: apply_transaction_def)
  then obtain sigs where sigs: "get_signature_keys (recover trx) [] (tx_signatures trx) = Inr sigs"
    and v: "verify_authority (P (cs_db s)) (get_owner (cs_db s)) n False no_approvals (tx_operations trx) sigs = Inr ()"
    by (auto simp: verify_transaction_authority_def)
  define Q own g where "Q = (P (cs_db s))\<lparr>sp_available_keys := []\<rparr>" and "own = get_owner (cs_db s)" and "g = transaction_signing Q own no_approvals (tx_operations trx) sigs"
  note V = verify_authority_parts [OF v, folded Q_def own_def, folded g_def]
  have none: "ap_owner no_approvals = []" by (simp add: no_approvals_def)
  have "fee_payer op \<noteq> GRAPHENE_COMMITTEE_ACCOUNT \<and> ((\<exists>m. account_signs Q g m (fee_payer op)) \<or> owner_signs Q g own (fee_payer op)) \<and>
      (\<forall>a \<in> set (required_owner_authorities op). owner_signs Q g own a)" if op: "op \<in> set (tx_operations trx)" for op
    using V operations_required_active [OF op] operations_required_owner [OF op] none by (metis empty_iff list.set(1) subsetD)
  then show ?thesis using sigs V unfolding Let_def Q_def [symmetric] own_def [symmetric] by (intro exI [of _ sigs]) (simp add: g_def [symmetric])
qed

section \<open>Checks accept whatever is authorized within the depth\<close>

lemma weigh_complete:
  assumes t: "\<And>x s. x \<in> fst ` set xs \<Longrightarrow> J s \<Longrightarrow> \<exists>b s'. t x s = Inr (b, s') \<and> J s' \<and> (q x \<longrightarrow> b)"
    and "unat tot + weight_of (\<lambda>_. True) xs < 2 ^ 32" and "J s"
  shows "\<exists>r tot' s'. weigh t threshold xs tot s = Inr (r, tot', s') \<and> J s' \<and> (r \<or> unat tot + weight_of q xs \<le> unat tot') \<and>
     unat tot' \<le> unat tot + weight_of (\<lambda>_. True) xs"
  using assms
proof (induction xs arbitrary: tot s)
  case (Cons y xs)
  obtain x w where y: "y = (x, w)" by (cases y)
  obtain b s1 where b: "t x s = Inr (b, s1)" "J s1" "q x \<longrightarrow> b" using Cons.prems(1) [OF _ Cons.prems(3), of x] y by auto
  have w: "unat (tot + ucast w) = unat tot + unat w" using Cons.prems(2) y by (simp add: unat_word_ariths unat_ucast_up)
  define tot1 where "tot1 = (if b then tot + ucast w else tot)"
  have small: "unat tot1 + weight_of (\<lambda>_. True) xs < 2 ^ 32" using Cons.prems(2) w y by (simp add: tot1_def)
  have "\<exists>r tot' s'. weigh t threshold xs tot1 s1 = Inr (r, tot', s') \<and> J s' \<and> (r \<or> unat tot1 + weight_of q xs \<le> unat tot') \<and>
     unat tot' \<le> unat tot1 + weight_of (\<lambda>_. True) xs"
    by (rule Cons.IH [OF _ small b(2)]) (rule Cons.prems(1), simp_all)
  then obtain r tot' s' where r: "weigh t threshold xs tot1 s1 = Inr (r, tot', s')" "J s'" "r \<or> unat tot1 + weight_of q xs \<le> unat tot'"
     "unat tot' \<le> unat tot1 + weight_of (\<lambda>_. True) xs" by blast
  show ?case
  proof (cases "b \<and> threshold \<le> tot + ucast w")
    case True
    then show ?thesis using b w y by (auto simp: Let_def)
  next
    case False
    then have "weigh t threshold (y # xs) tot s = weigh t threshold xs tot1 s1" using b(1) y by (simp add: tot1_def Let_def)
    moreover have "r \<or> unat tot + weight_of q (y # xs) \<le> unat tot'" using r(3) b(3) w y by (cases b) (auto simp: tot1_def)
    moreover have "unat tot' \<le> unat tot + weight_of (\<lambda>_. True) (y # xs)" using r(4) w y by (cases b) (auto simp: tot1_def)
    ultimately show ?thesis using r(1,2) by metis
  qed
qed auto

definition sign_full :: "sign_params \<Rightarrow> signing \<Rightarrow> sign_state \<Rightarrow> bool" where
  "sign_full P g s \<longleftrightarrow> (\<forall>k. sg_keys g k \<longrightarrow> map_of (ss_provided_signatures s) k \<noteq> None \<or> k \<in> set (sp_available_keys P)) \<and>
     (\<forall>a. sg_approved g a \<longrightarrow> approved a s)"

text \<open>Authorities without addresses, whose weights do not overflow, and whose accounts exist.\<close>

definition plain_set :: "sign_params \<Rightarrow> (authority \<Rightarrow> bool) \<Rightarrow> bool" where
  "plain_set P V \<longleftrightarrow> (\<forall>auth. V auth \<longrightarrow> address_auths auth = [] \<and>
     weight_of (\<lambda>_. True) (key_auths auth) + weight_of (\<lambda>_. True) (account_auths auth) < 2 ^ 32 \<and>
     (\<forall>a \<in> fst ` set (account_auths auth). \<exists>au. sp_get_active P a = Inr au \<and> (\<forall>x. au = Some x \<longrightarrow> V x)))"

definition checker_complete :: "sign_params \<Rightarrow> signing \<Rightarrow> (authority \<Rightarrow> bool) \<Rightarrow> nat \<Rightarrow> checker \<Rightarrow> bool" where
  "checker_complete P g V n check \<longleftrightarrow> (\<forall>au s. (\<forall>auth. au = Some auth \<longrightarrow> V auth) \<longrightarrow> sign_full P g s \<longrightarrow>
     (\<exists>b s'. check au s = Inr (b, s') \<and> sign_full P g s' \<and> (\<forall>auth. au = Some auth \<longrightarrow> authority_signs P g n auth \<longrightarrow> b)))"

lemma checker_completeD:
  assumes "checker_complete P g V n check" and "\<And>auth. au = Some auth \<Longrightarrow> V auth" and "sign_full P g s"
  obtains b s' where "check au s = Inr (b, s')" "sign_full P g s'" "\<And>auth. au = Some auth \<Longrightarrow> authority_signs P g n auth \<Longrightarrow> b"
proof -
  have "\<exists>b s'. check au s = Inr (b, s') \<and> sign_full P g s' \<and> (\<forall>auth. au = Some auth \<longrightarrow> authority_signs P g n auth \<longrightarrow> b)"
    by (rule assms(1) [unfolded checker_complete_def, THEN spec, THEN spec, THEN mp, THEN mp]) (use assms(2,3) in simp_all)
  then show ?thesis using that by blast
qed

lemma signed_by_complete: "sign_full P g s \<Longrightarrow> \<exists>b s'. signed_by P k s = Inr (b, s') \<and> sign_full P g s' \<and> (sg_keys g k \<longrightarrow> b)"
proof -
  assume full: "sign_full P g s"
  then have "sign_full P g (mark_key k s)" by (auto simp: sign_full_def mark_key_def approved_def update_conv')
  moreover have "sg_keys g k \<Longrightarrow> map_of (ss_provided_signatures s) k \<noteq> None \<or> k \<in> set (sp_available_keys P)" using full unfolding sign_full_def by blast
  ultimately show ?thesis using full by (auto simp: signed_by_def simp del: not_None_eq)
qed

lemma approve_full: "sign_full P g s \<Longrightarrow> sign_full P g (approve a s)"
  by (auto simp: sign_full_def approve_def approved_def flat_insert_def set_insort_key)

lemma account_approves_complete:
  assumes deeper: "n = 0 \<and> deeper = None \<or> (\<exists>m check. n = Suc m \<and> deeper = Some check \<and> checker_complete P g V m check)"
    and a: "sp_get_active P a = Inr au" "\<And>x. au = Some x \<Longrightarrow> V x" and full: "sign_full P g s"
  shows "\<exists>b s'. account_approves P deeper a s = Inr (b, s') \<and> sign_full P g s' \<and> (account_signs P g n a \<longrightarrow> b)"
proof (cases "approved a s")
  case True
  then show ?thesis using full by (auto simp: account_approves_def)
next
  case False
  then have na: "\<not> sg_approved g a" using full by (auto simp: sign_full_def)
  show ?thesis
  proof (cases deeper)
    case None
    then show ?thesis using False deeper full na by (auto simp: account_approves_def)
  next
    case (Some check)
    then obtain m where m: "n = Suc m" "checker_complete P g V m check" using deeper by auto
    obtain b s1 where b: "check au s = Inr (b, s1)" "sign_full P g s1" "\<And>auth. au = Some auth \<Longrightarrow> authority_signs P g m auth \<Longrightarrow> b"
      using checker_completeD [OF m(2) a(2) full] by blast
    have "account_signs P g n a \<longrightarrow> b" using b(3) na a(1) m(1) by (auto simp: authority_ok_def split: option.splits)
    then show ?thesis using False Some a(1) b(1,2) approve_full by (auto simp: account_approves_def)
  qed
qed

lemma check_one_complete:
  assumes deeper: "n = 0 \<and> deeper = None \<or> (\<exists>m check. n = Suc m \<and> deeper = Some check \<and> checker_complete P g V m check)" and V: "plain_set P V"
    and auth: "V auth" and full: "sign_full P g s"
  shows "\<exists>b s'. check_one P deeper (Some auth) s = Inr (b, s') \<and> sign_full P g s' \<and> (authority_signs P g n auth \<longrightarrow> b)"
proof -
  let ?th = "weight_threshold auth" and ?all = "weight_of (\<lambda>_. True)"
  have v: "address_auths auth = []" "?all (key_auths auth) + ?all (account_auths auth) < 2 ^ 32" using V auth by (simp_all add: plain_set_def)
  have "\<exists>r tot' s'. weigh (signed_by P) ?th (key_auths auth) 0 s = Inr (r, tot', s') \<and> sign_full P g s' \<and>
      (r \<or> unat (0 :: 32 word) + weight_of (sg_keys g) (key_auths auth) \<le> unat tot') \<and> unat tot' \<le> unat (0 :: 32 word) + ?all (key_auths auth)"
    by (rule weigh_complete [where J = "sign_full P g", OF _ _ full]) (use signed_by_complete v(2) in auto)
  then obtain r1 t1 s1 where 1: "weigh (signed_by P) ?th (key_auths auth) 0 s = Inr (r1, t1, s1)" "sign_full P g s1"
    "r1 \<or> weight_of (sg_keys g) (key_auths auth) \<le> unat t1" "unat t1 \<le> ?all (key_auths auth)" by auto
  show ?thesis
  proof (cases r1)
    case True
    then show ?thesis using 1 by (auto simp: check_one_def)
  next
    case False
    have "\<exists>r tot' s'. weigh (account_approves P deeper) ?th (account_auths auth) t1 s1 = Inr (r, tot', s') \<and> sign_full P g s' \<and>
        (r \<or> unat t1 + weight_of (account_signs P g n) (account_auths auth) \<le> unat tot') \<and> unat tot' \<le> unat t1 + ?all (account_auths auth)"
    proof (rule weigh_complete [where J = "sign_full P g", OF _ _ 1(2)])
      fix a q assume a: "a \<in> fst ` set (account_auths auth)" and q: "sign_full P g q"
      obtain au where "sp_get_active P a = Inr au" "\<forall>x. au = Some x \<longrightarrow> V x" using a V auth unfolding plain_set_def by blast
      then show "\<exists>b q'. account_approves P deeper a q = Inr (b, q') \<and> sign_full P g q' \<and> (account_signs P g n a \<longrightarrow> b)"
        using account_approves_complete [OF deeper _ _ q] by blast
    qed (use 1(4) v(2) in linarith)
    then obtain r3 t3 s3 where 3: "weigh (account_approves P deeper) ?th (account_auths auth) t1 s1 = Inr (r3, t3, s3)" "sign_full P g s3"
      "r3 \<or> unat t1 + weight_of (account_signs P g n) (account_auths auth) \<le> unat t3" by blast
    have "authority_signs P g n auth \<longrightarrow> r3 \<or> ?th \<le> t3"
      using 1(3) 3(3) False v(1) by (auto simp: authority_ok_def supported_def word_le_nat_alt)
    then show ?thesis using 1(1) 3 False v(1) by (auto simp: check_one_def)
  qed
qed

lemma check_authority_complete: "plain_set P V \<Longrightarrow> checker_complete P g V n (check_authority P n)"
proof (induction n)
  case 0
  then show ?case using check_one_complete [of 0 None P g V]
    unfolding checker_complete_def by (auto simp: check_one_def split: option.split)
next
  case (Suc n)
  then show ?case using check_one_complete [of "Suc n" "Some (check_authority P n)" P g V]
    unfolding checker_complete_def by (auto simp: check_one_def split: option.split)
qed

lemma check_each_complete:
  assumes "\<And>x s. x \<in> set xs \<Longrightarrow> J s \<Longrightarrow> \<exists>s'. t x s = Inr (True, s') \<and> J s'" and "J s"
  shows "\<exists>s'. check_each t e xs s = Inr s' \<and> J s'"
  using assms
proof (induction xs arbitrary: s)
  case (Cons x xs)
  obtain s1 where s1: "t x s = Inr (True, s1)" "J s1" using Cons.prems(1) [OF _ Cons.prems(2), of x] by auto
  have "\<exists>s'. check_each t e xs s1 = Inr s' \<and> J s'" by (rule Cons.IH [OF _ s1(2)]) (rule Cons.prems(1), simp_all)
  then show ?case using s1(1) by simp
qed simp

lemma initial_sign_full:
  assumes "sp_available_keys P = []"
  shows "sign_full P (transaction_signing P get_owner ap ops sigs) (fold approve (ap_owner ap) (fold approve (ap_active ap) (initial_sign_state sigs)))"
proof -
  have "map_of (map (\<lambda>k. (k, False)) sigs) k = (if k \<in> set sigs then Some False else None)" for k
    by (induction sigs) auto
  then show ?thesis by (auto simp: sign_full_def fold_approve initial_sign_state_def transaction_signing_def approved_def)
qed

text \<open>The signatures reach the threshold of an authority within the depth of the walk.\<close>

definition signs_within :: "sign_params \<Rightarrow> signing \<Rightarrow> nat \<Rightarrow> authority option result \<Rightarrow> bool" where
  "signs_within P g n au \<longleftrightarrow> (case au of Inr (Some auth) \<Rightarrow> authority_signs P g n auth | _ \<Rightarrow> False)"

definition known_authority :: "(authority \<Rightarrow> bool) \<Rightarrow> authority option result \<Rightarrow> bool" where
  "known_authority V au \<longleftrightarrow> (case au of Inr (Some auth) \<Rightarrow> V auth | Inr None \<Rightarrow> True | Inl _ \<Rightarrow> False)"

lemma check_known:
  assumes "plain_set P V" and "known_authority V au" and "sign_full P g s"
  shows "\<exists>b s'. rbind au (\<lambda>x. check_authority P n x s) = Inr (b, s') \<and> sign_full P g s' \<and> (signs_within P g n au \<longrightarrow> b)"
proof -
  obtain x where x: "au = Inr x" "\<And>auth. x = Some auth \<Longrightarrow> V auth" using assms(2) by (auto simp: known_authority_def split: sum.splits option.splits)
  obtain b s' where "check_authority P n x s = Inr (b, s')" "sign_full P g s'" "\<And>auth. x = Some auth \<Longrightarrow> authority_signs P g n auth \<Longrightarrow> b"
    using checker_completeD [OF check_authority_complete [OF assms(1)] x(2) assms(3)] by blast
  then show ?thesis using x(1) by (auto simp: signs_within_def split: option.splits)
qed

lemma check_active_or_owner_complete:
  assumes V: "plain_set P V" and k: "known_authority V (sp_get_active P a)" "known_authority V (get_owner a)" and full: "sign_full P g s"
    and signs: "sg_approved g a \<or> signs_within P g n (sp_get_active P a) \<or> signs_within P g n (get_owner a)"
  shows "\<exists>s'. check_active_or_owner P get_owner n a s = Inr (True, s') \<and> sign_full P g s'"
proof (cases "approved a s")
  case True
  then show ?thesis using full by (simp add: check_active_or_owner_def check_account_def)
next
  case False
  then have na: "\<not> sg_approved g a" using full by (auto simp: sign_full_def)
  obtain b s1 where 1: "rbind (sp_get_active P a) (\<lambda>x. check_authority P n x s) = Inr (b, s1)" "sign_full P g s1" "signs_within P g n (sp_get_active P a) \<longrightarrow> b"
    using check_known [OF V k(1) full] by blast
  obtain b2 s2 where 2: "rbind (get_owner a) (\<lambda>x. check_authority P n x s1) = Inr (b2, s2)" "sign_full P g s2" "signs_within P g n (get_owner a) \<longrightarrow> b2"
    using check_known [OF V k(2) 1(2)] by blast
  have acc: "check_account P n a s = Inr (b, s1)" using False 1(1) by (simp add: check_account_def)
  show ?thesis
  proof (cases b)
    case True
    then show ?thesis using acc 1(2) by (simp add: check_active_or_owner_def)
  next
    case no: False
    then have "b2" using na signs 1(3) 2(3) by blast
    then have "check_active_or_owner P get_owner n a s = Inr (True, s2)" using no acc 2(1) by (simp add: check_active_or_owner_def)
    then show ?thesis using 2(2) by blast
  qed
qed

text \<open>C38. A transaction that is signed well enough is not turned away for missing authority, if every authority that is looked at has no addresses, weights that add up to less than
  a full word and only accounts that exist (\<open>plain_set\<close>), and the committee is not required or is allowed: when the signatures reach the thresholds within the depth of
  the walk, the check passes or complains only of an unnecessary signature.\<close>

theorem verify_authority_complete:
  fixes P get_owner ap ops sigs
  defines "Q \<equiv> P\<lparr>sp_available_keys := []\<rparr>" and "r \<equiv> operations_required ops"
  defines "g \<equiv> transaction_signing Q get_owner ap ops sigs"
  assumes V: "plain_set Q V" and committee: "allow \<or> GRAPHENE_COMMITTEE_ACCOUNT \<notin> set (ra_active r)"
    and other: "\<forall>au \<in> set (ra_other r). V au \<and> authority_signs Q g n au"
    and active: "\<forall>a \<in> set (ra_active r). known_authority V (sp_get_active Q a) \<and> known_authority V (get_owner a) \<and>
      (sg_approved g a \<or> signs_within Q g n (sp_get_active Q a) \<or> signs_within Q g n (get_owner a))"
    and owner: "\<forall>a \<in> set (ra_owner r). a \<in> set (ap_owner ap) \<or> known_authority V (get_owner a) \<and> signs_within Q g n (get_owner a)"
  shows "verify_authority P get_owner n allow ap ops sigs \<in> {Inr (), Inl Tx_irrelevant_sig}"
proof -
  let ?s = "fold approve (ap_owner ap) (fold approve (ap_active ap) (initial_sign_state sigs))"
  have full: "sign_full Q g ?s" unfolding g_def by (rule initial_sign_full) (simp add: Q_def)
  have "\<exists>s'. check_each (\<lambda>auth. check_authority Q n (Some auth)) Tx_missing_other_auth (ra_other r) ?s = Inr s' \<and> sign_full Q g s'"
  proof (rule check_each_complete [where J = "sign_full Q g", OF _ full])
    fix au q assume a: "au \<in> set (ra_other r)" "sign_full Q g q"
    then show "\<exists>q'. check_authority Q n (Some au) q = Inr (True, q') \<and> sign_full Q g q'"
      using check_known [OF V, of "Inr (Some au)" g q n] other by (auto simp: known_authority_def signs_within_def)
  qed
  then obtain s1 where 1: "check_each (\<lambda>auth. check_authority Q n (Some auth)) Tx_missing_other_auth (ra_other r) ?s = Inr s1" "sign_full Q g s1" by blast
  have "\<exists>s'. check_each (check_active_or_owner Q get_owner n) Tx_missing_active_auth (ra_active r) s1 = Inr s' \<and> sign_full Q g s'"
    by (rule check_each_complete [where J = "sign_full Q g", OF _ 1(2)]) (rule check_active_or_owner_complete [OF V], use active in auto)
  then obtain s2 where 2: "check_each (check_active_or_owner Q get_owner n) Tx_missing_active_auth (ra_active r) s1 = Inr s2" "sign_full Q g s2" by blast
  have "\<exists>s'. check_each (owner_approved Q get_owner (ap_owner ap) n) Tx_missing_owner_auth (ra_owner r) s2 = Inr s' \<and> sign_full Q g s'"
  proof (rule check_each_complete [where J = "sign_full Q g", OF _ 2(2)])
    fix a q assume a: "a \<in> set (ra_owner r)" "sign_full Q g q"
    show "\<exists>q'. owner_approved Q get_owner (ap_owner ap) n a q = Inr (True, q') \<and> sign_full Q g q'"
    proof (cases "a \<in> set (ap_owner ap)")
      case True
      then show ?thesis using a(2) by (simp add: owner_approved_def)
    next
      case False
      then have k: "known_authority V (get_owner a)" "signs_within Q g n (get_owner a)" using owner a(1) by blast+
      obtain b q' where b: "rbind (get_owner a) (\<lambda>x. check_authority Q n x q) = Inr (b, q')" "sign_full Q g q'" "signs_within Q g n (get_owner a) \<longrightarrow> b"
        using check_known [OF V k(1) a(2), where n = n] by blast
      then show ?thesis using k(2) unfolding owner_approved_def if_not_P [OF False] by auto
    qed
  qed
  then obtain s3 where 3: "check_each (owner_approved Q get_owner (ap_owner ap) n) Tx_missing_owner_auth (ra_owner r) s2 = Inr s3" by blast
  show ?thesis using committee 1(1) 2(1) 3 unfolding verify_authority_def Let_def Q_def [symmetric] r_def [symmetric] by (simp add: require_def)
qed

section \<open>Addresses without a signature\<close>

lemma address_sigs_None:
  assumes "\<forall>k \<in> set ks. a \<notin> set (sp_addresses P k)"
  shows "map_of (address_sigs P ks) a = None"
proof -
  have one: "map_of m a = None \<Longrightarrow> a \<notin> set as \<Longrightarrow> map_of (fold (\<lambda>x. AList.update x k) as m) a = None" for as k and m :: "(nat \<times> nat) list"
    by (induction as arbitrary: m) (simp_all add: update_conv')
  have "\<forall>k \<in> set ks. a \<notin> set (sp_addresses P k) \<Longrightarrow> map_of m a = None \<Longrightarrow> map_of (fold (\<lambda>k. fold (\<lambda>x. AList.update x k) (sp_addresses P k)) ks m) a = None" for m
    by (induction ks arbitrary: m) (simp_all add: one)
  from this [OF assms, of "[]"] show ?thesis by (simp add: address_sigs_def)
qed

text \<open>C39. An authority with an address that none of the signing or available keys has is not just not satisfied: the lookup falls through both
  maps and dereferences their end, whatever the rest of the authority says.\<close>

theorem missing_address_undefined:
  assumes keys: "key_auths auth = []" and address: "address_auths auth = (a, w) # rest" and fresh: "ss_address_sigs s = None"
    and none: "\<forall>k \<in> fst ` set (ss_provided_signatures s) \<union> set (sp_available_keys P). a \<notin> set (sp_addresses P k)"
  shows "check_authority P n (Some auth) s = Inl Bad_iterator"
proof -
  have "signed_by_address P a s = Inl Bad_iterator"
    using fresh none by (simp add: signed_by_address_def Let_def address_sigs_None)
  then have "check_one P deeper (Some auth) s = Inl Bad_iterator" for deeper using keys address by (simp add: check_one_def)
  then show ?thesis by (cases n) simp_all
qed

section \<open>Keys that suffice\<close>

text \<open>Minimizing a set of keys that verifies gives a part of it that verifies.\<close>

lemma minimize_keys_verifies:
  "minimize_keys verify ks res = Inr res' \<Longrightarrow> set res' \<subseteq> set res \<and> (verify res = Inr () \<longrightarrow> verify res' = Inr ())"
proof (induction verify ks res rule: minimize_keys.induct)
  case (2 verify k ks res)
  then show ?case by (auto split: sum.splits if_splits)
qed simp

section \<open>Signatures on concrete input\<close>

text \<open>Account 6 acts with the key 11 and account 5 together, and account 5 acts with the key 12.\<close>

definition sample_authorities :: "nat \<Rightarrow> authority option result" where
  "sample_authorities a =
     (if a = 6 then Inr (Some \<lparr>weight_threshold = 3, account_auths = [(5, 1)], key_auths = [(11, 2)], address_auths = []\<rparr>)
      else Inr (Some \<lparr>weight_threshold = 1, account_auths = [], key_auths = [(12, 1)], address_auths = []\<rparr>))"

definition sample_sign :: sign_params where
  "sample_sign = \<lparr>sp_get_active = sample_authorities, sp_available_keys = [], sp_addresses = (\<lambda>k. [k + 100])\<rparr>"

definition sample_owners :: "nat \<Rightarrow> authority option result" where
  "sample_owners a = Inr (Some \<lparr>weight_threshold = 1, account_auths = [], key_auths = [(99, 1)], address_auths = []\<rparr>)"

lemmas sample_sign_defs = sample_authorities_def sample_sign_def sample_owners_def sample_transfer_def

lemma sample_verifies: "verify_authority sample_sign sample_owners 2 False no_approvals [Transfer sample_transfer] [11, 12] = Inr ()"
  by code_simp

lemma sample_sign_closed: "sample_sign\<lparr>sp_available_keys := []\<rparr> = sample_sign"
  by (simp add: sample_sign_def)

definition sample_signed :: signed_transaction where
  "sample_signed = sample_transaction\<lparr>tx_signatures := [11, 12]\<rparr>"

definition sample_recover :: "signed_transaction \<Rightarrow> nat \<Rightarrow> nat" where "sample_recover trx sig = sig"

definition sample_check :: "signed_transaction \<Rightarrow> database \<Rightarrow> unit result" where
  "sample_check = (\<lambda>trx d. verify_transaction_authority sample_sign sample_owners 2 sample_recover trx)"

lemma sample_signed_keys: "get_signature_keys (sample_recover sample_signed) [] (tx_signatures sample_signed) = Inr [11, 12]"
  by (simp add: sample_signed_def sample_recover_def flat_insert_def)

lemma sample_signed_runs: "succeeds (apply_transaction Transactions.sample_env sample_hash sample_check 0 sample_signed sample_chain)"
proof -
  have "tx_operations sample_signed = [Transfer sample_transfer]" by (simp add: sample_signed_def sample_transaction_def)
  then have "sample_check sample_signed d = Inr ()" for d
    using sample_verifies sample_signed_keys by (simp add: sample_check_def verify_transaction_authority_def)
  then have "apply_transaction Transactions.sample_env sample_hash sample_check 0 sample_signed sample_chain =
      rbind (apply_transaction Transactions.sample_env sample_hash (\<lambda>_ _. Inr ()) 0 sample_transaction sample_chain) (\<lambda>(rs, s).
        Inr (rs, (note_transaction 0 (sample_hash sample_signed) sample_signed sample_chain)\<lparr>cs_db := cs_db s\<rparr>))"
    by (simp add: apply_transaction_def sample_signed_def transaction_validate_def check_tapos_def check_expiration_def sample_hash_def rbind_def require_def split: sum.split)
  then show ?thesis using sample_transaction_runs by (auto simp: succeeds_iff)
qed

theorem applied_transaction_authorized_witness:
  "let g = transaction_signing sample_sign sample_owners no_approvals [Transfer sample_transfer] [11, 12]
   in ((\<exists>m. account_signs sample_sign g m 6) \<or> owner_signs sample_sign g sample_owners 6) \<and> sg_relevant g 12"
proof -
  obtain rs s' where run: "apply_transaction Transactions.sample_env sample_hash sample_check 0 sample_signed sample_chain = Inr (rs, s')"
    using sample_signed_runs by (auto simp: succeeds_iff)
  have ops: "tx_operations sample_signed = [Transfer sample_transfer]" "tr_from sample_transfer = 6"
    by (simp_all add: sample_signed_def sample_transaction_def sample_transfer_def)
  show ?thesis using applied_transaction_authorized [OF run [unfolded sample_check_def]] by (simp add: sample_signed_keys sample_sign_closed ops Let_def)
qed

definition sample_plain :: "authority \<Rightarrow> bool" where
  "sample_plain au \<longleftrightarrow> sample_authorities 6 = Inr (Some au) \<or> sample_authorities 5 = Inr (Some au) \<or> sample_owners 6 = Inr (Some au)"

lemma sample_plain_set: "plain_set sample_sign sample_plain"
  by (auto simp: plain_set_def sample_plain_def sample_sign_defs)

theorem verify_authority_complete_witness:
  "verify_authority sample_sign sample_owners 2 False no_approvals [Transfer sample_transfer] [11, 12, 13] \<in> {Inr (), Inl Tx_irrelevant_sig}"
proof -
  have r: "operations_required [Transfer sample_transfer] = \<lparr>ra_active = [6], ra_owner = [], ra_other = []\<rparr>" by code_simp
  let ?g = "transaction_signing sample_sign sample_owners no_approvals [Transfer sample_transfer] [11, 12, 13]"
  have k: "sg_keys ?g 11" "sg_keys ?g 12" by (simp_all add: transaction_signing_def)
  have "account_signs sample_sign ?g (Suc 1) 5" using k by (simp add: supported_def sample_sign_def sample_authorities_def)
  then have "account_signs sample_sign ?g 2 5" by (metis Suc_1)
  then have "signs_within sample_sign ?g 2 (sample_authorities 6)"
    using k by (simp add: signs_within_def authority_ok_def supported_def sample_authorities_def del: account_ok.simps)
  moreover have "known_authority sample_plain (sample_authorities 6)" "known_authority sample_plain (sample_owners 6)"
    by (simp_all add: known_authority_def sample_plain_def sample_authorities_def sample_owners_def)
  ultimately show ?thesis using sample_plain_set
    by (intro verify_authority_complete [where V = sample_plain]) (simp_all add: sample_sign_closed r GRAPHENE_COMMITTEE_ACCOUNT_def, simp_all add: sample_sign_def)
qed

theorem missing_address_undefined_witness:
  "check_authority sample_sign 2 (Some \<lparr>weight_threshold = 1, account_auths = [(GRAPHENE_TEMP_ACCOUNT, 1)], key_auths = [], address_auths = [(7, 1)]\<rparr>)
     (initial_sign_state [11, 12]) = Inl Bad_iterator"
  by (rule missing_address_undefined) (auto simp: initial_sign_state_def sample_sign_def)

end
