(* ===== verification/Proposals.thy ===== *)
theory Proposals
  imports Authority
begin

text \<open>
  Proposals at the end of their life: \<^verbatim>\<open>proposal_object\<close> and \<^verbatim>\<open>is_authorized_to_execute\<close> (\<^verbatim>\<open>proposal_object.hpp\<close>, \<^verbatim>\<open>proposal_object.cpp\<close>), \<^verbatim>\<open>push_proposal\<close>
  (\<^verbatim>\<open>db_block.cpp\<close>) and \<^verbatim>\<open>clear_expired_proposals\<close> (\<^verbatim>\<open>db_update.cpp\<close>).

  A proposed transaction is the list of its operations, those of \<open>Operations\<close>; the operations on proposals themselves are not among them, so running a proposal
  changes no other one. The authorities of the accounts, which account objects of this development do not hold, and the depth of the walk, a chain parameter, are
  arguments, as in \<open>Authority\<close>. The session of a proposal that throws is undone, so the state is the one before it; that the undo history grows by one entry for
  the session is not modelled. \<^verbatim>\<open>fail_reason\<close> is read by no code of the chain and left out.
\<close>

section \<open>Model\<close>

record proposal_object =
  pr_expiration_time :: time
  pr_review_period_time :: "time option"
  pr_operations :: "operation list"
  pr_required_active_approvals :: "nat list"
  pr_available_active_approvals :: "nat list"
  pr_required_owner_approvals :: "nat list"
  pr_available_owner_approvals :: "nat list"
  pr_available_key_approvals :: "nat list"
  pr_proposer :: nat

record authority_env =
  au_active :: "database \<Rightarrow> nat \<Rightarrow> authority option result"
  au_owner :: "database \<Rightarrow> nat \<Rightarrow> authority option result"
  au_addresses :: "nat \<Rightarrow> nat list"
  au_max_depth :: nat

text \<open>The database and the index of proposals.\<close>

type_synonym proposal_state = "database \<times> proposal_object index"

definition is_authorized_to_execute :: "authority_env \<Rightarrow> proposal_object \<Rightarrow> database \<Rightarrow> bool" where
  "is_authorized_to_execute A p d \<longleftrightarrow>
     verify_authority \<lparr>sp_get_active = au_active A d, sp_available_keys = [], sp_addresses = au_addresses A\<rparr> (au_owner A d) (au_max_depth A) True
       \<lparr>ap_active = pr_available_active_approvals p, ap_owner = pr_available_owner_approvals p\<rparr> (pr_operations p) (pr_available_key_approvals p) = Inr ()"

definition remove_proposal :: "nat \<Rightarrow> proposal_object index \<Rightarrow> proposal_object index" where
  "remove_proposal i ix = ix\<lparr>objects := AList.delete i (objects ix)\<rparr>"

text \<open>The guard on the nesting of proposals counts to twice the number of active witnesses; the depth is that of the proposals that are being run. \<^verbatim>\<open>_is_proposed_trx\<close> is
  read by no operation of the model.\<close>

definition push_proposal :: "apply_env \<Rightarrow> nat \<Rightarrow> nat \<Rightarrow> nat \<Rightarrow> proposal_object \<Rightarrow> proposal_state \<Rightarrow> (operation_result list \<times> proposal_state) result" where
  "push_proposal E active_witnesses depth i p = (\<lambda>(d, ix).
     require (depth < active_witnesses * 2) Assert_failed
     (rbind (apply_operations (E\<lparr>env_state := fresh_evaluation_state\<rparr>) (pr_operations p) d) (\<lambda>(results, d1).
      Inr (results, d1, remove_proposal i ix))))"

text \<open>The order of the index \<^verbatim>\<open>by_expiration\<close>, and its first proposal if it has expired.\<close>

definition proposal_before :: "nat \<times> proposal_object \<Rightarrow> nat \<times> proposal_object \<Rightarrow> bool" where
  "proposal_before x y \<longleftrightarrow> pr_expiration_time (snd x) < pr_expiration_time (snd y) \<or>
     pr_expiration_time (snd x) = pr_expiration_time (snd y) \<and> fst x < fst y"

definition first_expired_proposal :: "time \<Rightarrow> proposal_object index \<Rightarrow> (nat \<times> proposal_object) option" where
  "first_expired_proposal now ix =
     (case sorted_by proposal_before (objects ix) of
        [] \<Rightarrow> None
      | x # _ \<Rightarrow> if pr_expiration_time (snd x) \<le> now then Some x else None)"

text \<open>One iteration: a proposal that is authorized is run; one that is not, or that fails, is only removed.\<close>

definition expire_proposal :: "apply_env \<Rightarrow> authority_env \<Rightarrow> nat \<Rightarrow> nat \<Rightarrow> proposal_object \<Rightarrow> proposal_state \<Rightarrow> proposal_state" where
  "expire_proposal E A active_witnesses i p = (\<lambda>(d, ix).
     if is_authorized_to_execute A p d
     then case push_proposal E active_witnesses 0 i p (d, ix) of
            Inr (_, s) \<Rightarrow> s
          | Inl _ \<Rightarrow> (d, remove_proposal i ix)
     else (d, remove_proposal i ix))"

lemma expire_proposal_index: "snd (expire_proposal E A n i p s) = remove_proposal i (snd s)"
  by (cases s) (auto simp: expire_proposal_def push_proposal_def split: sum.splits)

lemma first_expired_member:
  assumes "first_expired_proposal now ix = Some x"
  shows "x \<in> set (objects ix)" and "pr_expiration_time (snd x) \<le> now"
proof -
  obtain xs where s: "sorted_by proposal_before (objects ix) = x # xs" and e: "pr_expiration_time (snd x) \<le> now"
    using assms by (auto simp: first_expired_proposal_def split: list.splits if_splits)
  have "mset (objects ix) = mset (x # xs)" using sorted_by_mset [of proposal_before "objects ix"] s by simp
  then show "x \<in> set (objects ix)" by (metis list.set_intros(1) set_mset_mset)
  show "pr_expiration_time (snd x) \<le> now" by (rule e)
qed

lemma remove_proposal_shorter: "x \<in> set (objects ix) \<Longrightarrow> length (objects (remove_proposal (fst x) ix)) < length (objects ix)"
  by (auto simp: remove_proposal_def AList.delete_eq intro!: length_filter_less [of x])

text \<open>Every iteration removes a proposal, so the loop ends.\<close>

function clear_expired_proposals :: "apply_env \<Rightarrow> authority_env \<Rightarrow> nat \<Rightarrow> proposal_state \<Rightarrow> proposal_state" where
  "clear_expired_proposals E A n s =
     (case first_expired_proposal (head_block_time (fst s)) (snd s) of
        None \<Rightarrow> s
      | Some (i, p) \<Rightarrow> clear_expired_proposals E A n (expire_proposal E A n i p s))"
  by pat_completeness auto

termination
  by (relation "measure (\<lambda>(E, A, n, s). length (objects (snd s)))")
    (auto simp: expire_proposal_index dest!: first_expired_member(1) dest: remove_proposal_shorter)

declare clear_expired_proposals.simps [simp del]

section \<open>Proposals create no value\<close>

text \<open>The operations of a proposal that is run were validated when it was created, and are in their ranges in the state they meet.\<close>

function admissible_proposals :: "apply_env \<Rightarrow> authority_env \<Rightarrow> nat \<Rightarrow> proposal_state \<Rightarrow> bool" where
  "admissible_proposals E A n s \<longleftrightarrow>
     (case first_expired_proposal (head_block_time (fst s)) (snd s) of
        None \<Rightarrow> True
      | Some (i, p) \<Rightarrow>
          (is_authorized_to_execute A p (fst s) \<longrightarrow> (\<forall>op\<in>set (pr_operations p). operation_validate (env_lib E) op = Inr ()) \<and>
             admissible_all (E\<lparr>env_state := fresh_evaluation_state\<rparr>) (pr_operations p) (fst s)) \<and>
          admissible_proposals E A n (expire_proposal E A n i p s))"
  by pat_completeness auto

termination
  by (relation "measure (\<lambda>(E, A, n, s). length (objects (snd s)))")
    (auto simp: expire_proposal_index dest!: first_expired_member(1) dest: remove_proposal_shorter)

declare admissible_proposals.simps [simp del]

lemma expire_proposal_kept:
  assumes F: "fc_lib_ok (env_lib E)" and ok: "market_ok (fst s)"
    and adm: "is_authorized_to_execute A p (fst s) \<longrightarrow> (\<forall>op\<in>set (pr_operations p). operation_validate (env_lib E) op = Inr ()) \<and>
      admissible_all (E\<lparr>env_state := fresh_evaluation_state\<rparr>) (pr_operations p) (fst s)"
    and d': "d' = fst (expire_proposal E A n i p s)"
  shows "market_ok d' \<and> excess d' = excess (fst s) \<and> same_clock (fst s) d'"
proof (cases "is_authorized_to_execute A p (fst s) \<and> (\<exists>rs d1. apply_operations (E\<lparr>env_state := fresh_evaluation_state\<rparr>) (pr_operations p) (fst s) = Inr (rs, d1) \<and> 0 < n)")
  case True
  then obtain rs d1 where r: "apply_operations (E\<lparr>env_state := fresh_evaluation_state\<rparr>) (pr_operations p) (fst s) = Inr (rs, d1)" "0 < n" by blast
  then have "d' = d1" using True by (cases s) (simp add: d' expire_proposal_def push_proposal_def)
  moreover have "market_ok d1 \<and> excess d1 = excess (fst s) \<and> same_clock (fst s) d1"
    using apply_operations_market [OF _ _ ok _ _ r(1)] F adm True by (simp add: fresh_evaluation_state_def)
  ultimately show ?thesis by simp
next
  case False
  then have "d' = fst s" by (cases s) (auto simp: d' expire_proposal_def push_proposal_def require_def split: sum.splits)
  then show ?thesis using ok by simp
qed

text \<open>Running and removing the expired proposals keeps the books.\<close>

lemma clear_expired_proposals_kept:
  assumes F: "fc_lib_ok (env_lib E)"
  shows "market_ok (fst s) \<Longrightarrow> admissible_proposals E A n s \<Longrightarrow>
     (let d' = fst (clear_expired_proposals E A n s) in market_ok d' \<and> excess d' = excess (fst s) \<and> same_clock (fst s) d')"
  using F
proof (induction E A n s rule: clear_expired_proposals.induct)
  case (1 E A n s)
  show ?case
  proof (cases "first_expired_proposal (head_block_time (fst s)) (snd s)")
    case None
    then show ?thesis using 1 by (simp add: clear_expired_proposals.simps)
  next
    case (Some x)
    obtain i p where x: "x = (i, p)" by (cases x)
    let ?s = "expire_proposal E A n i p s"
    have adm: "is_authorized_to_execute A p (fst s) \<longrightarrow> (\<forall>op\<in>set (pr_operations p). operation_validate (env_lib E) op = Inr ()) \<and>
        admissible_all (E\<lparr>env_state := fresh_evaluation_state\<rparr>) (pr_operations p) (fst s)" "admissible_proposals E A n ?s"
      using "1.prems"(2) Some x by (subst (asm) admissible_proposals.simps; simp)+
    note K = expire_proposal_kept [OF "1.prems"(3,1) adm(1) refl, of n i]
    have "clear_expired_proposals E A n s = clear_expired_proposals E A n ?s" using Some x by (subst clear_expired_proposals.simps) simp
    then show ?thesis using "1.IH" [OF Some x [symmetric] _ adm(2) "1.prems"(3)] K by (simp add: Let_def)
  qed
qed

text \<open>Afterwards exactly the proposals that have not expired are left.\<close>

lemma first_expired_none:
  assumes "first_expired_proposal now ix = None" and "distinct (map fst (objects ix))" and "x \<in> set (objects ix)"
  shows "now < pr_expiration_time (snd x)"
proof -
  let ?xs = "sorted_by proposal_before (objects ix)"
  have "strict_weak proposal_before (set (objects ix))" by (auto simp: strict_weak_def proposal_before_def)
  then have "sorted_wrt (\<lambda>a b. \<not> proposal_before b a) ?xs" by (rule sorted_by_sorted)
  moreover have "x \<in> set ?xs" using assms(3) by (metis sorted_by_mset set_mset_mset)
  ultimately show ?thesis using assms(1) by (cases ?xs) (auto simp: first_expired_proposal_def proposal_before_def not_less split: if_splits)
qed

theorem expired_proposals_cleared:
  assumes "fc_lib_ok (env_lib E)" and "market_ok (fst s)" and "admissible_proposals E A n s" and "distinct (map fst (objects (snd s)))"
  shows "objects (snd (clear_expired_proposals E A n s)) = filter (\<lambda>x. head_block_time (fst s) < pr_expiration_time (snd x)) (objects (snd s))"
  using assms
proof (induction E A n s rule: clear_expired_proposals.induct)
  case (1 E A n s)
  show ?case
  proof (cases "first_expired_proposal (head_block_time (fst s)) (snd s)")
    case None
    then show ?thesis using first_expired_none [OF None "1.prems"(4)] by (simp add: clear_expired_proposals.simps filter_id_conv)
  next
    case (Some x)
    obtain i p where x: "x = (i, p)" by (cases x)
    let ?s = "expire_proposal E A n i p s"
    have adm: "is_authorized_to_execute A p (fst s) \<longrightarrow> (\<forall>op\<in>set (pr_operations p). operation_validate (env_lib E) op = Inr ()) \<and>
        admissible_all (E\<lparr>env_state := fresh_evaluation_state\<rparr>) (pr_operations p) (fst s)" "admissible_proposals E A n ?s"
      using "1.prems"(3) Some x by (subst (asm) admissible_proposals.simps; simp)+
    note K = expire_proposal_kept [OF "1.prems"(1,2) adm(1) refl, of n i]
    note M = first_expired_member [OF Some]
    have ix: "objects (snd ?s) = filter (\<lambda>y. fst y \<noteq> i) (objects (snd s))"
      by (auto simp: expire_proposal_index remove_proposal_def AList.delete_eq case_prod_beta intro: filter_cong)
    have "y = x" if "y \<in> set (objects (snd s))" "fst y = i" for y using eq_key_imp_eq_value "1.prems"(4) that M(1) x by (metis fst_conv prod.collapse)
    then have f: "filter (\<lambda>y. head_block_time (fst s) < pr_expiration_time (snd y)) (objects (snd ?s)) =
        filter (\<lambda>y. head_block_time (fst s) < pr_expiration_time (snd y)) (objects (snd s))"
      using M(2) unfolding ix filter_filter by (intro filter_cong) auto
    have "distinct (map fst (objects (snd ?s)))" using "1.prems"(4) by (simp add: ix distinct_map_filter)
    moreover have "clear_expired_proposals E A n s = clear_expired_proposals E A n ?s" using Some x by (subst clear_expired_proposals.simps) simp
    ultimately show ?thesis using "1.IH" [OF Some x [symmetric] "1.prems"(1) _ adm(2)] K f by simp
  qed
qed

end
