(* ===== verification/Witness_Schedule.thy ===== *)
theory Witness_Schedule
  imports Fork_Database Proposals
begin

text \<open>
  Block production: slots and the shuffled schedule of witnesses (\<^verbatim>\<open>db_witness_schedule.cpp\<close>), the check of a block header
  (\<^verbatim>\<open>validate_block_header\<close> of \<^verbatim>\<open>db_block.cpp\<close>), and the bookkeeping of blocks, pay and irreversibility
  (\<^verbatim>\<open>db_update.cpp\<close>).

  \<^verbatim>\<open>std::nth_element\<close> on the witnesses is the argument \<open>N\<close>, as for price feeds.
\<close>

section \<open>Model\<close>

text \<open>The state a block changes beyond the objects and transactions: the rest of the dynamic global properties, the active
  witnesses and the schedule, and the index of proposals. The time, the next maintenance time and the witness budget are in the database, the number of the head
  block is in the chain state.\<close>

record block_state =
  bs_chain :: chain_state
  bs_head_block_id :: block_id
  bs_current_witness :: nat
  bs_current_aslot :: "64 word"
  bs_recent_slots_filled :: "128 word"
  bs_recently_missed_count :: "32 word"
  bs_dynamic_flags :: "32 word"
  bs_last_irreversible_block_num :: "32 word"
  bs_maintenance_skip_slots :: "8 word"
  bs_active_witnesses :: "nat list"
  bs_current_shuffled_witnesses :: "nat list"
  bs_proposals :: "proposal_object index"

text \<open>A block of the fork database whose body has the time, the witness and the transactions; its number and its id come from the link to
  the block before and the hash \<open>sha\<close>.\<close>

record block_body =
  bb_timestamp :: time
  bb_witness :: nat
  bb_transactions :: "signed_transaction list"

type_synonym chain_block = "block_body signed_block"

abbreviation blk_timestamp :: "chain_block \<Rightarrow> time" where
  "blk_timestamp b \<equiv> bb_timestamp (body b)"

abbreviation blk_witness :: "chain_block \<Rightarrow> nat" where
  "blk_witness b \<equiv> bb_witness (body b)"

abbreviation blk_transactions :: "chain_block \<Rightarrow> signed_transaction list" where
  "blk_transactions b \<equiv> bb_transactions (body b)"

abbreviation bs_db :: "block_state \<Rightarrow> database" where
  "bs_db s \<equiv> cs_db (bs_chain s)"

abbreviation bs_head_block_num :: "block_state \<Rightarrow> 32 word" where
  "bs_head_block_num s \<equiv> cs_head_block_num (bs_chain s)"

definition set_db :: "database \<Rightarrow> block_state \<Rightarrow> block_state" where
  "set_db d s = s\<lparr>bs_chain := (bs_chain s)\<lparr>cs_db := d\<rparr>\<rparr>"

definition maintenance_flag :: "32 word" where "maintenance_flag = 1"

definition GRAPHENE_RECENTLY_MISSED_COUNT_INCREMENT :: "32 word" where "GRAPHENE_RECENTLY_MISSED_COUNT_INCREMENT = 4"
definition GRAPHENE_RECENTLY_MISSED_COUNT_DECREMENT :: "32 word" where "GRAPHENE_RECENTLY_MISSED_COUNT_DECREMENT = 3"
definition GRAPHENE_IRREVERSIBLE_THRESHOLD :: nat where "GRAPHENE_IRREVERSIBLE_THRESHOLD = 7000"
definition GRAPHENE_MAX_UNDO_HISTORY :: "32 word" where "GRAPHENE_MAX_UNDO_HISTORY = 30000"

definition skip_witness_signature :: "32 word" where "skip_witness_signature = 1"
definition skip_undo_history_check :: "32 word" where "skip_undo_history_check = 512"
definition skip_witness_schedule_check :: "32 word" where "skip_witness_schedule_check = 1024"

text \<open>The vector access is unchecked in the source; an empty schedule is the error here.\<close>

definition get_scheduled_witness :: "block_state \<Rightarrow> 32 word \<Rightarrow> nat result" where
  "get_scheduled_witness s slot_num =
     (let current_aslot = bs_current_aslot s + ucast slot_num; n = length (bs_current_shuffled_witnesses s)
      in require (n \<noteq> 0) Assert_failed (Inr (bs_current_shuffled_witnesses s ! (unat current_aslot mod n))))"

definition get_slot_time :: "block_state \<Rightarrow> 32 word \<Rightarrow> time" where
  "get_slot_time s slot_num =
     (if slot_num = 0 then 0
      else let interval = block_interval (parameters (bs_db s))
           in if bs_head_block_num s = 0 then head_block_time (bs_db s) + slot_num * interval
              else let head_slot_time = head_block_time (bs_db s) div interval * interval;
                       slots = (if and (bs_dynamic_flags s) maintenance_flag \<noteq> 0 then slot_num + ucast (bs_maintenance_skip_slots s) else slot_num)
                   in head_slot_time + slots * interval)"

definition get_slot_at_time :: "block_state \<Rightarrow> time \<Rightarrow> 32 word" where
  "get_slot_at_time s when =
     (let first_slot_time = get_slot_time s 1
      in if when < first_slot_time then 0 else (when - first_slot_time) div block_interval (parameters (bs_db s)) + 1)"

definition validate_block_header :: "(chain_block \<Rightarrow> database \<Rightarrow> bool) \<Rightarrow> 32 word \<Rightarrow> chain_block \<Rightarrow> block_state \<Rightarrow> unit result" where
  "validate_block_header validate_signee skip b s =
     require (bs_head_block_id s = previous b) Assert_failed
     (require (head_block_time (bs_db s) < blk_timestamp b) Assert_failed
     (rbind (index_get (witnesses (bs_db s)) (blk_witness b)) (\<lambda>_.
      require (and skip skip_witness_signature \<noteq> 0 \<or> validate_signee b (bs_db s)) Assert_failed
      (if and skip skip_witness_schedule_check = 0
       then let slot_num = get_slot_at_time s (blk_timestamp b)
            in require (slot_num > 0) Assert_failed
               (rbind (get_scheduled_witness s slot_num) (\<lambda>w. require (blk_witness b = w) Assert_failed (Inr ())))
       else Inr ()))))"

fun note_missed :: "block_state \<Rightarrow> 32 word list \<Rightarrow> database \<Rightarrow> database result" where
  "note_missed s [] d = Inr d"
| "note_missed s (i # is) d =
     rbind (get_scheduled_witness s (i + 1)) (\<lambda>w.
     rbind (ix_modify w (\<lambda>x. Inr (x\<lparr>total_missed := Suc (total_missed x)\<rparr>)) (witnesses d)) (\<lambda>ix.
     note_missed s is (d\<lparr>witnesses := ix\<rparr>)))"

definition update_witness_missed_blocks :: "chain_block \<Rightarrow> block_state \<Rightarrow> (32 word \<times> block_state) result" where
  "update_witness_missed_blocks b s =
     (let slot = get_slot_at_time s (blk_timestamp b)
      in require (slot \<noteq> 0) Assert_failed
         (let missed_blocks = slot - 1
          in rbind (if unat missed_blocks < length (bs_current_shuffled_witnesses s)
                    then note_missed s (map of_nat [0..<unat missed_blocks]) (bs_db s) else Inr (bs_db s)) (\<lambda>d.
             Inr (missed_blocks, set_db d s))))"

definition witness_participation_rate :: "block_state \<Rightarrow> nat" where
  "witness_participation_rate s = nat GRAPHENE_100_PERCENT * length (filter (bit (bs_recent_slots_filled s)) [0..<128]) div 128"

text \<open>The sequence \<^verbatim>\<open>xorshift\<close> at index \<open>i\<close>, and the shuffle that draws from it.\<close>

definition schedule_random :: "time \<Rightarrow> nat \<Rightarrow> 64 word" where
  "schedule_random now i =
     (let k = push_bit 32 (ucast now) + of_nat i * 2685821657736338717;
          k = xor k (drop_bit 12 k);
          k = xor k (push_bit 25 k);
          k = xor k (drop_bit 27 k)
      in k * 2685821657736338717)"

fun shuffle_from :: "time \<Rightarrow> nat list \<Rightarrow> 'a list \<Rightarrow> 'a list" where
  "shuffle_from now [] xs = xs"
| "shuffle_from now (i # is) xs =
     (let j = i + unat (schedule_random now i mod of_nat (length xs - i))
      in shuffle_from now is (xs[i := xs ! j, j := xs ! i]))"

text \<open>The modulus is zero when there is no active witness; that division is the error here.\<close>

definition update_witness_schedule :: "block_state \<Rightarrow> block_state result" where
  "update_witness_schedule s =
     (let n = length (bs_active_witnesses s)
      in require (n \<noteq> 0) Assert_failed
         (Inr (if unat (bs_head_block_num s) mod n = 0
               then s\<lparr>bs_current_shuffled_witnesses := shuffle_from (head_block_time (bs_db s)) [0..<n] (bs_active_witnesses s)\<rparr>
               else s)))"

definition new_missed_count :: "32 word option \<Rightarrow> 32 word \<Rightarrow> 32 word \<Rightarrow> 32 word \<Rightarrow> 32 word" where
  "new_missed_count last_checkpoint number missed_blocks n =
     (if number = 1 then 0
      else if (case last_checkpoint of None \<Rightarrow> False | Some c \<Rightarrow> number \<le> c) then 0
      else if missed_blocks \<noteq> 0 then n + GRAPHENE_RECENTLY_MISSED_COUNT_INCREMENT * missed_blocks
      else if n > GRAPHENE_RECENTLY_MISSED_COUNT_INCREMENT then n - GRAPHENE_RECENTLY_MISSED_COUNT_DECREMENT
      else if n > 0 then n - 1 else n)"

text \<open>The bounds of the undo and fork databases that the function also sets are those of their own theories.\<close>

definition update_global_dynamic_data ::
  "(chain_block \<Rightarrow> nat) \<Rightarrow> 32 word option \<Rightarrow> 32 word \<Rightarrow> chain_block \<Rightarrow> 32 word \<Rightarrow> block_state \<Rightarrow> block_state result" where
  "update_global_dynamic_data sha last_checkpoint skip b missed_blocks s =
     (let s1 = s\<lparr>bs_recently_missed_count := new_missed_count last_checkpoint (block_num b) missed_blocks (bs_recently_missed_count s),
                 bs_chain := (bs_chain s)\<lparr>cs_head_block_num := block_num b, cs_db := (bs_db s)\<lparr>head_block_time := blk_timestamp b\<rparr>\<rparr>,
                 bs_head_block_id := block_id_of sha b,
                 bs_current_witness := blk_witness b,
                 bs_recent_slots_filled := push_bit (unat missed_blocks) (push_bit 1 (bs_recent_slots_filled s) + 1),
                 bs_current_aslot := bs_current_aslot s + ucast (missed_blocks + 1)\<rparr>
      in require (and skip skip_undo_history_check \<noteq> 0 \<or> block_num b - bs_last_irreversible_block_num s < GRAPHENE_MAX_UNDO_HISTORY) Undo_database_exception
         (Inr s1))"

definition update_signing_witness :: "fc_lib \<Rightarrow> chain_block \<Rightarrow> block_state \<Rightarrow> block_state result" where
  "update_signing_witness F b s =
     (let new_block_aslot = bs_current_aslot s + ucast (get_slot_at_time s (blk_timestamp b));
          d = bs_db s; pay = min (witness_pay_per_block (parameters d)) (witness_budget d)
      in rbind (of_option Overflow (safe_sub F (witness_budget d) pay)) (\<lambda>budget.
         rbind (deposit_witness_pay F (blk_witness b) pay (d\<lparr>witness_budget := budget\<rparr>)) (\<lambda>d1.
         rbind (ix_modify (blk_witness b) (\<lambda>w. Inr (w\<lparr>last_aslot := unat new_block_aslot, last_confirmed_block_num := block_num b\<rparr>)) (witnesses d1)) (\<lambda>ix.
         Inr (set_db (d1\<lparr>witnesses := ix\<rparr>) s)))))"

type_synonym nth_witness = "(witness_object \<Rightarrow> witness_object \<Rightarrow> bool) \<Rightarrow> nat \<Rightarrow> witness_object list \<Rightarrow> witness_object list"

definition irreversible_offset :: "nat \<Rightarrow> nat" where
  "irreversible_offset n = (nat GRAPHENE_100_PERCENT - GRAPHENE_IRREVERSIBLE_THRESHOLD) * n div nat GRAPHENE_100_PERCENT"

fun get_objects :: "'o index \<Rightarrow> nat list \<Rightarrow> 'o list result" where
  "get_objects ix [] = Inr []"
| "get_objects ix (i # is) = rbind (index_get ix i) (\<lambda>x. rbind (get_objects ix is) (\<lambda>xs. Inr (x # xs)))"

definition update_last_irreversible_block :: "nth_witness \<Rightarrow> block_state \<Rightarrow> block_state result" where
  "update_last_irreversible_block N s =
     rbind (get_objects (witnesses (bs_db s)) (bs_active_witnesses s)) (\<lambda>ws.
     let offset = irreversible_offset (length ws)
     in require (offset < length ws) Assert_failed
        (let new = last_confirmed_block_num (N (\<lambda>a b. last_confirmed_block_num a < last_confirmed_block_num b) offset ws ! offset)
         in Inr (if new > bs_last_irreversible_block_num s then s\<lparr>bs_last_irreversible_block_num := new\<rparr> else s)))"

definition update_maintenance_flag :: "bool \<Rightarrow> block_state \<Rightarrow> block_state" where
  "update_maintenance_flag new_flag s =
     s\<lparr>bs_dynamic_flags := or (and (bs_dynamic_flags s) (not maintenance_flag)) (if new_flag then maintenance_flag else 0)\<rparr>"

section \<open>Every active witness has its turn\<close>

lemma shuffle_from_mset:
  "(\<And>i. i \<in> set is \<Longrightarrow> i < length xs) \<Longrightarrow> length xs < 2 ^ 64 \<Longrightarrow> mset (shuffle_from now is xs) = mset xs \<and> length (shuffle_from now is xs) = length xs"
proof (induction "is" arbitrary: xs)
  case (Cons i "is")
  let ?j = "i + unat (schedule_random now i mod of_nat (length xs - i))"
  have i: "i < length xs" using Cons.prems(1) by simp
  have "unat (schedule_random now i mod of_nat (length xs - i)) < length xs - i"
  proof -
    have n: "unat (of_nat (length xs - i) :: 64 word) = length xs - i" using Cons.prems(2) by (simp add: unsigned_of_nat take_bit_nat_eq_self)
    have "unat (schedule_random now i mod of_nat (length xs - i)) = unat (schedule_random now i) mod (length xs - i)" by (simp add: unat_mod_distrib n)
    then show ?thesis using i by simp
  qed
  then have j: "?j < length xs" using i by simp
  have "mset (xs[i := xs ! ?j, ?j := xs ! i]) = mset xs" using mset_swap [OF i j] by (metis list_update_swap list_update_overwrite)
  then show ?case using Cons.IH [of "xs[i := xs ! ?j, ?j := xs ! i]"] Cons.prems by (simp add: Let_def)
qed simp

lemma schedule_window:
  assumes n: "n = length xs" "0 < n"
  shows "mset (map (\<lambda>k. xs ! ((b + k) mod n)) [0..<n]) = mset xs"
proof -
  have "map (\<lambda>k. xs ! ((b + k) mod n)) [0..<n] = rotate b xs"
    by (rule nth_equalityI) (use n in \<open>simp_all add: nth_rotate\<close>)
  moreover have "mset (rotate b xs) = mset xs" by (metis add.commute append_take_drop_id mset_append rotate_drop_take)
  ultimately show ?thesis by simp
qed

lemma scheduled_witness_at:
  assumes "bs_current_shuffled_witnesses s \<noteq> []" and "k < 2 ^ 32" and "unat (bs_current_aslot s) + k < 2 ^ 64"
  shows "get_scheduled_witness s (of_nat k) = Inr (bs_current_shuffled_witnesses s ! ((unat (bs_current_aslot s) + k) mod length (bs_current_shuffled_witnesses s)))"
proof -
  have k: "unat (ucast (of_nat k :: 32 word) :: 64 word) = k" using assms(2) by (simp add: unsigned_ucast_eq unsigned_of_nat take_bit_nat_eq_self)
  then have "unat (bs_current_aslot s + ucast (of_nat k :: 32 word)) = unat (bs_current_aslot s) + k"
    using assms(3) by (simp add: unat_word_ariths)
  then show ?thesis using assms(1) by (simp add: get_scheduled_witness_def Let_def)
qed

text \<open>C9. The schedule is fair: a reshuffle keeps exactly the active witnesses, whatever the random numbers, and in any row of as many
  slots as there are active witnesses, starting at any slot, each of them is scheduled exactly once.\<close>

theorem witness_schedule_fair:
  assumes upd: "update_witness_schedule s = Inr s'" and now: "unat (bs_head_block_num s) mod length (bs_active_witnesses s) = 0"
    and n: "n = length (bs_active_witnesses s)" and range: "a + n \<le> 2 ^ 32" "unat (bs_current_aslot s) + a + n \<le> 2 ^ 64"
  shows "\<exists>ws. map (\<lambda>k. get_scheduled_witness s' (of_nat (a + k))) [0..<n] = map Inr ws \<and> mset ws = mset (bs_active_witnesses s)"
proof -
  define xs where "xs = shuffle_from (head_block_time (bs_db s)) [0..<n] (bs_active_witnesses s)"
  have s': "s' = s\<lparr>bs_current_shuffled_witnesses := xs\<rparr>" and pos: "0 < n" using upd now n by (auto simp: update_witness_schedule_def xs_def Let_def)
  have xs: "mset xs = mset (bs_active_witnesses s)" "length xs = n"
    using shuffle_from_mset [of "[0..<n]" "bs_active_witnesses s" "head_block_time (bs_db s)"] n range(1) by (simp_all add: xs_def)
  have ne: "xs \<noteq> []" using xs(2) pos by auto
  have "get_scheduled_witness s' (of_nat (a + k)) = Inr (xs ! ((unat (bs_current_aslot s) + a + k) mod n))" if "k < n" for k
    using scheduled_witness_at [of s' "a + k"] that range xs(2) ne by (simp add: s' add.assoc)
  then have "map (\<lambda>k. get_scheduled_witness s' (of_nat (a + k))) [0..<n] = map Inr (map (\<lambda>k. xs ! ((unat (bs_current_aslot s) + a + k) mod n)) [0..<n])" by simp
  moreover have "mset (map (\<lambda>k. xs ! ((unat (bs_current_aslot s) + a + k) mod n)) [0..<n]) = mset (bs_active_witnesses s)"
    using schedule_window [of n xs "unat (bs_current_aslot s) + a"] xs pos by simp
  ultimately show ?thesis by blast
qed

section \<open>Slots divide the time\<close>

definition slot_base :: "block_state \<Rightarrow> nat" where
  "slot_base s = (let t = unat (head_block_time (bs_db s)); i = unat (block_interval (parameters (bs_db s)))
     in if bs_head_block_num s = 0 then t else t div i * i)"

definition skipped_slots :: "block_state \<Rightarrow> nat" where
  "skipped_slots s = (if bs_head_block_num s \<noteq> 0 \<and> and (bs_dynamic_flags s) maintenance_flag \<noteq> 0 then unat (bs_maintenance_skip_slots s) else 0)"

definition slot_second :: "block_state \<Rightarrow> nat \<Rightarrow> nat" where
  "slot_second s k = slot_base s + (k + skipped_slots s) * unat (block_interval (parameters (bs_db s)))"

lemma get_slot_time_nat:
  assumes "0 < k" and "k < 2 ^ 32" and "slot_second s k < 2 ^ 32"
  shows "unat (get_slot_time s (of_nat k)) = slot_second s k"
proof -
  let ?i = "block_interval (parameters (bs_db s))" and ?t = "head_block_time (bs_db s)"
  have b: "of_nat (slot_base s) = (if bs_head_block_num s = 0 then ?t else ?t div ?i * ?i)"
    by (simp add: slot_base_def Let_def word_unat_eq_iff [symmetric] flip: unat_div_distrib)
  have sk: "(of_nat (skipped_slots s) :: 32 word) = (if bs_head_block_num s \<noteq> 0 \<and> and (bs_dynamic_flags s) maintenance_flag \<noteq> 0 then ucast (bs_maintenance_skip_slots s) else 0)"
    by (simp add: skipped_slots_def)
  have nz: "(of_nat k :: 32 word) \<noteq> 0" using assms(1,2) by (simp add: word_unat_eq_iff unsigned_of_nat take_bit_nat_eq_self)
  have "get_slot_time s (of_nat k) = of_nat (slot_second s k)"
    using nz by (auto simp: get_slot_time_def Let_def slot_second_def b sk)
  then show ?thesis using assms(3) by (simp add: unsigned_of_nat take_bit_nat_eq_self)
qed

lemma get_slot_at_time_nat:
  assumes i: "0 < block_interval (parameters (bs_db s))" and first: "slot_second s 1 \<le> unat t"
  shows "unat (get_slot_at_time s t) = (unat t - slot_second s 1) div unat (block_interval (parameters (bs_db s))) + 1"
proof -
  let ?i = "block_interval (parameters (bs_db s))"
  have t32: "unat t < 2 ^ 32" using unsigned_less [of t, where ?'a = nat] by simp
  have lt: "slot_second s 1 < 2 ^ 32" using first t32 by linarith
  have f: "unat (get_slot_time s 1) = slot_second s 1" using get_slot_time_nat [of 1 s] lt by simp
  have ipos: "0 < unat ?i" using i by (simp add: word_less_nat_alt)
  then have f1: "0 < slot_second s 1" by (simp add: slot_second_def)
  have le: "get_slot_time s 1 \<le> t" using f first by (simp add: word_le_nat_alt)
  have d: "unat ((t - get_slot_time s 1) div ?i) = (unat t - slot_second s 1) div unat ?i" using le f by (simp add: unat_div_distrib unat_sub)
  have "(unat t - slot_second s 1) div unat ?i \<le> unat t - slot_second s 1" by (rule div_le_dividend)
  also have "\<dots> < 2 ^ 32 - 1" using f1 first t32 by linarith
  finally have "unat ((t - get_slot_time s 1) div ?i + 1) = (unat t - slot_second s 1) div unat ?i + 1"
    using d by (simp add: unat_word_ariths)
  then show ?thesis using le by (simp add: get_slot_at_time_def Let_def not_less [symmetric])
qed

lemma slot_second_step: "slot_second s (k + j) = slot_second s k + j * unat (block_interval (parameters (bs_db s)))"
  by (simp add: slot_second_def algebra_simps)

text \<open>Slots divide the time after the head block: the slot that starts at the time of slot \<open>k\<close> is slot \<open>k\<close>, also after a maintenance block, and a later time
  belongs to the slot whose block interval contains it. Times before the first slot belong to none.\<close>

theorem slots_divide_time:
  assumes i: "0 < block_interval (parameters (bs_db s))" and k: "0 < k" "k < 2 ^ 32" "slot_second s k < 2 ^ 32"
  shows "get_slot_at_time s (get_slot_time s (of_nat k)) = of_nat k \<and>
     (\<forall>t. unat t < slot_second s 1 \<longrightarrow> get_slot_at_time s t = 0) \<and>
     (\<forall>t. slot_second s 1 \<le> unat t \<longrightarrow> (let j = unat (get_slot_at_time s t)
        in 0 < j \<and> slot_second s j \<le> unat t \<and> unat t < slot_second s j + unat (block_interval (parameters (bs_db s)))))"
proof (intro conjI allI impI)
  let ?i = "unat (block_interval (parameters (bs_db s)))"
  have ipos: "0 < ?i" using i by (simp add: word_less_nat_alt)
  have step: "slot_second s k = slot_second s 1 + (k - 1) * ?i" using slot_second_step [of s 1 "k - 1"] k(1) by simp
  have t: "unat (get_slot_time s (of_nat k)) = slot_second s k" by (rule get_slot_time_nat [OF k])
  have "unat (get_slot_at_time s (get_slot_time s (of_nat k))) = k"
    using get_slot_at_time_nat [OF i, of "get_slot_time s (of_nat k)"] step ipos k(1) by (simp add: t)
  then show "get_slot_at_time s (get_slot_time s (of_nat k)) = of_nat k" by (metis of_nat_unat ucast_id)
  have "slot_second s 1 < 2 ^ 32" using step k(3) by simp
  then have f: "unat (get_slot_time s 1) = slot_second s 1" using get_slot_time_nat [of 1 s] by simp
  show "get_slot_at_time s t = 0" if "unat t < slot_second s 1" for t using that f by (simp add: get_slot_at_time_def word_less_nat_alt)
  fix t :: time assume first: "slot_second s 1 \<le> unat t"
  let ?q = "(unat t - slot_second s 1) div ?i"
  have "?q * ?i \<le> unat t - slot_second s 1" "unat t - slot_second s 1 < ?q * ?i + ?i"
    using dividend_less_div_times [OF ipos, of "unat t - slot_second s 1"] by (simp_all add: div_times_less_eq_dividend add.commute)
  moreover have "slot_second s (?q + 1) = slot_second s 1 + ?q * ?i" using slot_second_step [of s 1 ?q] by (simp add: add.commute)
  ultimately show "let j = unat (get_slot_at_time s t) in 0 < j \<and> slot_second s j \<le> unat t \<and> unat t < slot_second s j + ?i"
    using first unfolding get_slot_at_time_nat [OF i first] Let_def by linarith
qed

section \<open>Irreversible blocks are confirmed by seventy percent\<close>

definition nth_witness_ok :: "nth_witness \<Rightarrow> bool" where
  "nth_witness_ok N \<longleftrightarrow> (\<forall>lt n xs. n < length xs \<and> strict_weak lt (set xs) \<longrightarrow>
     mset (N lt n xs) = mset xs \<and> (\<forall>i<n. \<not> lt (N lt n xs ! n) (N lt n xs ! i)) \<and>
     (\<forall>i. n < i \<and> i < length xs \<longrightarrow> \<not> lt (N lt n xs ! i) (N lt n xs ! n)))"

lemma nth_witness_count:
  assumes N: "nth_witness_ok N" and n: "n < length ws"
  defines "ys \<equiv> N (\<lambda>a b. last_confirmed_block_num a < last_confirmed_block_num b) n ws"
  shows "length ws - n \<le> length (filter (\<lambda>w. last_confirmed_block_num (ys ! n) \<le> last_confirmed_block_num w) ws)"
proof -
  let ?lt = "\<lambda>a b. last_confirmed_block_num a < last_confirmed_block_num (b :: witness_object)"
  let ?P = "\<lambda>w. last_confirmed_block_num (ys ! n) \<le> last_confirmed_block_num w"
  have sw: "strict_weak ?lt (set ws)" by (auto simp: strict_weak_def)
  have ys: "mset ys = mset ws" "\<And>i. n < i \<Longrightarrow> i < length ws \<Longrightarrow> \<not> ?lt (ys ! i) (ys ! n)"
    using N n sw unfolding nth_witness_ok_def ys_def by blast+
  have len: "length ys = length ws" using ys(1) by (metis size_mset)
  have "\<forall>w\<in>set (drop n ys). ?P w"
  proof
    fix w assume "w \<in> set (drop n ys)"
    then obtain j where j: "j < length ys - n" "w = ys ! (n + j)" by (auto simp: in_set_conv_nth)
    show "?P w"
    proof (cases "j = 0")
      case False
      then show ?thesis using ys(2) [of "n + j"] j len by (simp add: not_less)
    qed (simp add: j(2))
  qed
  then have "filter ?P (drop n ys) = drop n ys" by (simp add: filter_True)
  then have "length (drop n ys) \<le> length (filter ?P (take n ys)) + length (filter ?P (drop n ys))" by simp
  also have "\<dots> = length (filter ?P ys)" by (metis append_take_drop_id filter_append length_append)
  finally have "length ys - n \<le> length (filter ?P ys)" by simp
  moreover have "length (filter ?P ys) = length (filter ?P ws)" using ys(1) by (metis mset_filter size_mset)
  ultimately show ?thesis using len by simp
qed

text \<open>C10. The last irreversible block never goes back, and when it moves, at least seventy percent of the active witnesses have confirmed a block of that number or a later
  one. Nothing else changes.\<close>

theorem irreversible_confirmed:
  assumes N: "nth_witness_ok N" and run: "update_last_irreversible_block N s = Inr s'" and ws: "get_objects (witnesses (bs_db s)) (bs_active_witnesses s) = Inr ws"
  shows "bs_last_irreversible_block_num s \<le> bs_last_irreversible_block_num s' \<and>
     (s' = s \<or> s' = s\<lparr>bs_last_irreversible_block_num := bs_last_irreversible_block_num s'\<rparr> \<and>
        7 * length ws \<le> 10 * length (filter (\<lambda>w. bs_last_irreversible_block_num s' \<le> last_confirmed_block_num w) ws))"
proof -
  let ?n = "irreversible_offset (length ws)"
  let ?new = "last_confirmed_block_num (N (\<lambda>a b. last_confirmed_block_num a < last_confirmed_block_num b) ?n ws ! ?n)"
  have n: "?n < length ws" and s': "s' = (if ?new > bs_last_irreversible_block_num s then s\<lparr>bs_last_irreversible_block_num := ?new\<rparr> else s)"
    using run ws by (auto simp: update_last_irreversible_block_def Let_def)
  have "10 * ?n \<le> 3 * length ws" by (simp add: irreversible_offset_def GRAPHENE_IRREVERSIBLE_THRESHOLD_def config_defs)
  then have "7 * length ws \<le> 10 * length (filter (\<lambda>w. ?new \<le> last_confirmed_block_num w) ws)" using nth_witness_count [OF N n] by linarith
  then show ?thesis using s' by auto
qed

section \<open>The pay of the witness\<close>

text \<open>The pay comes out of the budget, so paying the witness moves value and creates none.\<close>

lemma set_db_simps [simp]:
  "bs_db (set_db d s) = d" "cs_transactions (bs_chain (set_db d s)) = cs_transactions (bs_chain s)" "bs_head_block_num (set_db d s) = bs_head_block_num s"
  "bs_active_witnesses (set_db d s) = bs_active_witnesses s"
  by (simp_all add: set_db_def)

lemma witnesses_market:
  assumes ok: "market_ok d" and "ix_ok ix"
  shows "market_ok (d\<lparr>witnesses := ix\<rparr>) \<and> excess (d\<lparr>witnesses := ix\<rparr>) = excess d"
proof -
  have "db_ok (d\<lparr>witnesses := ix\<rparr>)" using market_okD(1) [OF ok] assms(2) by (simp add: db_ok_def assets_ok_def)
  from market_frame [OF ok this] show ?thesis by (simp add: excess_defs fun_eq_iff)
qed

lemma modify_witness_market:
  assumes ok: "market_ok d" and run: "ix_modify w m (witnesses d) = Inr ix"
  shows "market_ok (d\<lparr>witnesses := ix\<rparr>) \<and> excess (d\<lparr>witnesses := ix\<rparr>) = excess d"
proof -
  have "ix_ok (witnesses d)" using market_okD(1) [OF ok] by (simp add: db_ok_def)
  then have "ix_ok ix" using ix_modifyE [OF _ run] by metis
  then show ?thesis by (rule witnesses_market [OF ok])
qed

definition paid :: "database \<Rightarrow> database \<Rightarrow> bool" where
  "paid d d' \<longleftrightarrow> market_ok d' \<and> excess d' = excess d \<and> same_clock d d'"

lemma note_missed_paid: "market_ok d \<Longrightarrow> note_missed s is d = Inr d' \<Longrightarrow> paid d d'"
proof (induction "is" arbitrary: d)
  case (Cons i "is")
  then obtain w ix where ix: "ix_modify w (\<lambda>x. Inr (x\<lparr>total_missed := Suc (total_missed x)\<rparr>)) (witnesses d) = Inr ix" and rest: "note_missed s is (d\<lparr>witnesses := ix\<rparr>) = Inr d'"
    by auto
  note M = modify_witness_market [OF Cons.prems(1) ix]
  show ?case using Cons.IH [OF conjunct1 [OF M] rest] M by (simp add: paid_def)
qed (simp add: paid_def)

lemma deposit_witness_pay_market:
  assumes F: "fc_lib_ok F" and ok: "market_ok d" and run: "deposit_witness_pay F w amt d = Inr d'"
  shows "market_ok d' \<and> same_clock d d' \<and> (\<forall>a. excess d' a = excess d a + if_asset a (mk_asset amt 0))"
proof (cases "amt = 0")
  case True
  then show ?thesis using run ok by (auto simp: deposit_witness_pay_def if_asset_def)
next
  case False
  then obtain wo :: witness_object and v d1 where 1: "deposit_lazy_vesting F (pay_vb wo) amt (witness_pay_vesting_seconds (parameters d)) (witness_account wo) True d = Inr (v, d1)"
    and 2: "(case v of None \<Rightarrow> Inr d1
       | Some i \<Rightarrow> rbind (ix_modify w (\<lambda>w. Inr (w\<lparr>pay_vb := Some i\<rparr>)) (witnesses d1)) (\<lambda>ix. Inr (d1\<lparr>witnesses := ix\<rparr>))) = Inr d'"
    using run by (auto simp: deposit_witness_pay_def)
  note E = deposit_lazy_vesting_effect [OF F market_okD(1) [OF ok] 1]
  obtain ix where ix: "d1 = d\<lparr>vesting_balances := ix\<rparr>" using E(1) by blast
  have ok1: "market_ok d1" by (rule market_frame [OF ok E(2)]) (simp_all add: ix)
  show ?thesis
  proof (cases v)
    case None
    then have "d' = d1" using 2 by simp
    then show ?thesis using E(3) ok1 by (simp add: ix)
  next
    case (Some i)
    then obtain wx where wx: "ix_modify w (\<lambda>w. Inr (w\<lparr>pay_vb := Some i\<rparr>)) (witnesses d1) = Inr wx" "d' = d1\<lparr>witnesses := wx\<rparr>" using 2 by auto
    show ?thesis using modify_witness_market [OF ok1 wx(1)] E(3) ix by (simp add: wx(2))
  qed
qed

lemma budget_excess: "excess (d\<lparr>witness_budget := witness_budget d - p\<rparr>) a = excess d a - if_asset a (mk_asset p 0)"
  by (cases "a = 0") (simp_all add: excess_defs)

lemma update_signing_witness_paid:
  assumes F: "fc_lib_ok F" and ok: "market_ok (bs_db s)" and run: "update_signing_witness F b s = Inr s'"
  shows "paid (bs_db s) (bs_db s') \<and> (\<exists>d. s' = set_db d s)"
proof -
  let ?d = "bs_db s" and ?pay = "min (witness_pay_per_block (parameters (bs_db s))) (witness_budget (bs_db s))"
  obtain budget d1 ix where b: "budget = witness_budget ?d - ?pay" and 1: "deposit_witness_pay F (blk_witness b) ?pay (?d\<lparr>witness_budget := budget\<rparr>) = Inr d1"
    and 2: "ix_modify (blk_witness b) (\<lambda>w. Inr (w\<lparr>last_aslot := unat (bs_current_aslot s + ucast (get_slot_at_time s (blk_timestamp b))), last_confirmed_block_num := block_num b\<rparr>))
      (witnesses d1) = Inr ix" and s': "s' = set_db (d1\<lparr>witnesses := ix\<rparr>) s"
    using run by (auto simp: update_signing_witness_def Let_def fc_safe_simps [OF F])
  let ?paid = "?d\<lparr>witness_budget := budget\<rparr>"
  have "db_ok ?paid" using market_okD(1) [OF ok] by (simp add: db_ok_def assets_ok_def)
  then have ok0: "market_ok ?paid" by (rule market_frame [OF ok]) simp_all
  have e0: "excess ?paid a = excess ?d a - if_asset a (mk_asset ?pay 0)" for a unfolding b by (rule budget_excess)
  note P = deposit_witness_pay_market [OF F ok0 1]
  show ?thesis using modify_witness_market [OF conjunct1 [OF P] 2] P e0 by (auto simp: paid_def s' fun_eq_iff)
qed

section \<open>Block production on concrete input\<close>

definition sample_witness_object :: "32 word \<Rightarrow> witness_object" where
  "sample_witness_object n = \<lparr>witness_account = 5, pay_vb = None, last_aslot = 0, total_missed = 0, last_confirmed_block_num = n\<rparr>"

definition sample_proposal :: "nat list \<Rightarrow> proposal_object" where
  "sample_proposal approvals = \<lparr>pr_expiration_time = 1600000010, pr_review_period_time = None,
     pr_operations = [Transfer \<lparr>tr_fee = mk_asset 20 0, tr_from = 5, tr_to = 6, tr_amount = mk_asset 100 1\<rparr>],
     pr_required_active_approvals = [5], pr_available_active_approvals = approvals, pr_required_owner_approvals = [], pr_available_owner_approvals = [],
     pr_available_key_approvals = [], pr_proposer = 6\<rparr>"

definition sample_production :: block_state where
  "sample_production = \<lparr>bs_chain = sample_chain\<lparr>cs_head_block_num := 6,
       cs_db := sample_db\<lparr>witnesses := list_index (map sample_witness_object [5, 6, 4])\<rparr>\<rparr>,
     bs_head_block_id = Block_id 6 1, bs_current_witness = 1, bs_current_aslot = 90, bs_recent_slots_filled = 7, bs_recently_missed_count = 0,
     bs_dynamic_flags = 1, bs_last_irreversible_block_num = 3, bs_maintenance_skip_slots = 3, bs_active_witnesses = [0, 1, 2],
     bs_current_shuffled_witnesses = [2, 0, 1], bs_proposals = list_index [sample_proposal [5], sample_proposal []]\<rparr>"

lemmas sample_production_defs = sample_production_def sample_chain_def sample_witness_object_def

theorem witness_schedule_fair_witness:
  "\<exists>s' ws. update_witness_schedule sample_production = Inr s' \<and>
     map (\<lambda>k. get_scheduled_witness s' (of_nat (4 + k))) [0..<3] = map Inr ws \<and> mset ws = {#0, 1, 2#}"
proof -
  obtain s' where s': "update_witness_schedule sample_production = Inr s'" by (simp add: update_witness_schedule_def sample_production_defs)
  have "\<exists>ws. map (\<lambda>k. get_scheduled_witness s' (of_nat (4 + k))) [0..<3] = map Inr ws \<and> mset ws = mset (bs_active_witnesses sample_production)"
    by (rule witness_schedule_fair [OF s']) (simp_all add: sample_production_def sample_chain_def)
  moreover have "mset (bs_active_witnesses sample_production) = {#0, 1, 2#}" by (simp add: sample_production_def)
  ultimately show ?thesis using s' by metis
qed

theorem slots_divide_time_witness:
  "get_slot_at_time sample_production (get_slot_time sample_production 5) = 5"
  using slots_divide_time [of sample_production 5]
  by (simp add: sample_production_defs slot_second_def slot_base_def skipped_slots_def sample_db_def sample_parameters_def Let_def)

lemma sort_witnesses_ok: "nth_witness_ok (\<lambda>lt n xs. sorted_by lt xs)"
  unfolding nth_witness_ok_def using sorted_by_pivot by blast

theorem irreversible_confirmed_witness:
  "\<exists>s'. update_last_irreversible_block (\<lambda>lt n xs. sorted_by lt xs) sample_production = Inr s' \<and> bs_last_irreversible_block_num s' = 4 \<and>
     7 * 3 \<le> 10 * length (filter (\<lambda>w. 4 \<le> last_confirmed_block_num w) (map sample_witness_object [5, 6, 4]))"
proof -
  let ?N = "\<lambda>lt (n :: nat) xs. sorted_by lt xs" and ?s = "sample_production\<lparr>bs_last_irreversible_block_num := 4\<rparr>"
  have ws: "get_objects (witnesses (bs_db sample_production)) (bs_active_witnesses sample_production) = Inr (map sample_witness_object [5, 6, 4])"
    by (simp add: sample_production_def sample_chain_def list_index_def index_get_def index_find_def upt_rec)
  have run: "update_last_irreversible_block ?N sample_production = Inr ?s"
    using ws by (simp add: update_last_irreversible_block_def ws irreversible_offset_def GRAPHENE_IRREVERSIBLE_THRESHOLD_def config_defs sorted_by_def
        sample_witness_object_def Let_def) (simp add: sample_production_def)
  have "?s \<noteq> sample_production" by (simp add: sample_production_def)
  then show ?thesis using irreversible_confirmed [OF sort_witnesses_ok run ws] run by auto
qed

end
