(* ===== verification/Apply_Block.thy ===== *)
theory Apply_Block
  imports Block_Chain Block_Updates Witness_Schedule
begin

text \<open>
  Applying a block: \<^verbatim>\<open>database::_apply_block\<close> of \<^verbatim>\<open>db_block.cpp\<close>, which checks the header, applies the transactions, keeps the records of block production
  and runs the updates at the end of a block.

  Chain maintenance is an argument, as are the Merkle root, the signature of the block and its id, and the state that a block leaves when it throws.
\<close>

section \<open>Model\<close>

definition skip_merkle_check :: "32 word" where "skip_merkle_check = 128"

record block_env =
  be_apply :: apply_env
  be_hash :: "signed_transaction \<Rightarrow> nat"
  be_verify :: "signed_transaction \<Rightarrow> database \<Rightarrow> unit result"
  be_merkle_ok :: "chain_block \<Rightarrow> bool"
  be_validate_signee :: "chain_block \<Rightarrow> database \<Rightarrow> bool"
  be_sha :: "chain_block \<Rightarrow> nat"
  be_id_prefix :: "block_id \<Rightarrow> 32 word"
  be_checkpoints :: "(32 word \<times> block_id) list"
  be_closer :: "fraction \<Rightarrow> fraction \<Rightarrow> fraction \<Rightarrow> bool"
  be_nth_witness :: nth_witness
  be_maintenance :: "chain_block \<Rightarrow> block_state \<Rightarrow> block_state result"
  be_authority :: authority_env
  be_left :: "32 word \<Rightarrow> chain_block \<Rightarrow> block_state \<Rightarrow> block_state"

text \<open>Checkpoints are a map ordered by block number; the last entry is the latest.\<close>

definition last_checkpoint_num :: "block_env \<Rightarrow> 32 word option" where
  "last_checkpoint_num B = (if be_checkpoints B = [] then None else Some (fst (last (be_checkpoints B))))"

fun apply_transactions :: "block_env \<Rightarrow> 32 word \<Rightarrow> signed_transaction list \<Rightarrow> chain_state \<Rightarrow> chain_state result" where
  "apply_transactions B skip [] c = Inr c"
| "apply_transactions B skip (trx # trxs) c =
     rbind (apply_transaction (be_apply B) (be_hash B) (be_verify B) skip trx c) (\<lambda>(_, c1). apply_transactions B skip trxs c1)"

definition create_block_summary :: "block_env \<Rightarrow> chain_block \<Rightarrow> block_state \<Rightarrow> block_state result" where
  "create_block_summary B b s =
     rbind (ix_modify (unat (and (block_num b) 0xffff)) (\<lambda>_. Inr (be_id_prefix B (block_id_of (be_sha B) b))) (cs_block_summaries (bs_chain s))) (\<lambda>ix.
     Inr (s\<lparr>bs_chain := (bs_chain s)\<lparr>cs_block_summaries := ix\<rparr>\<rparr>))"

definition clear_affected_assets :: "block_state \<Rightarrow> block_state" where
  "clear_affected_assets s = set_db ((bs_db s)\<lparr>issue_453_affected_assets := []\<rparr>) s"

definition update_production :: "block_env \<Rightarrow> 32 word \<Rightarrow> chain_block \<Rightarrow> block_state \<Rightarrow> block_state result" where
  "update_production B skip b s =
     rbind (update_witness_missed_blocks b s) (\<lambda>(missed, s1).
     rbind (update_global_dynamic_data (be_sha B) (last_checkpoint_num B) skip b missed s1) (\<lambda>s2.
     rbind (update_signing_witness (env_lib (be_apply B)) b s2) (update_last_irreversible_block (be_nth_witness B))))"

definition expire_proposals :: "block_env \<Rightarrow> block_state \<Rightarrow> block_state" where
  "expire_proposals B s =
     (case clear_expired_proposals (be_apply B) (be_authority B) (length (bs_active_witnesses s)) (bs_db s, bs_proposals s) of
        (d, ix) \<Rightarrow> (set_db d s)\<lparr>bs_proposals := ix\<rparr>)"

text \<open>The block up to the expired proposals, up to the updates at its end, and those updates.\<close>

definition apply_block_front :: "block_env \<Rightarrow> 32 word \<Rightarrow> chain_block \<Rightarrow> block_state \<Rightarrow> (bool \<times> block_state) result" where
  "apply_block_front B skip b s =
     require (and skip skip_merkle_check \<noteq> 0 \<or> be_merkle_ok B b) Assert_failed
     (rbind (validate_block_header (be_validate_signee B) skip b s) (\<lambda>_.
      let maint_needed = next_maintenance_time (bs_db s) \<le> blk_timestamp b; s0 = clear_affected_assets s
      in rbind (apply_transactions B skip (blk_transactions b) (bs_chain s0)) (\<lambda>c.
         rbind (update_production B skip b (s0\<lparr>bs_chain := c\<rparr>)) (\<lambda>s1.
         rbind (if maint_needed then be_maintenance B b s1 else Inr s1) (\<lambda>s2.
         rbind (create_block_summary B b s2) (\<lambda>s3.
         Inr (maint_needed, s3\<lparr>bs_chain := clear_expired_transactions (bs_chain s3)\<rparr>)))))))"

definition apply_block_body :: "block_env \<Rightarrow> 32 word \<Rightarrow> chain_block \<Rightarrow> block_state \<Rightarrow> (bool \<times> block_state) result" where
  "apply_block_body B skip b s = rbind (apply_block_front B skip b s) (\<lambda>(maint_needed, s1). Inr (maint_needed, expire_proposals B s1))"

definition apply_block_end :: "block_env \<Rightarrow> bool \<Rightarrow> block_state \<Rightarrow> block_state result" where
  "apply_block_end B maint_needed s =
     rbind (block_updates (env_lib (be_apply B)) (be_closer B) (env_nth_element (be_apply B)) (env_fuel (be_apply B)) (bs_db s)) (\<lambda>d.
     update_witness_schedule (update_maintenance_flag maint_needed (set_db d s)))"

definition apply_block_steps :: "block_env \<Rightarrow> 32 word \<Rightarrow> chain_block \<Rightarrow> block_state \<Rightarrow> block_state result" where
  "apply_block_steps B skip b s = rbind (apply_block_body B skip b s) (\<lambda>(maint_needed, s1). apply_block_end B maint_needed s1)"

text \<open>The size to which the undo history and the fork database are set while the block is applied; none when it fails before.\<close>

definition block_histories :: "block_env \<Rightarrow> 32 word \<Rightarrow> chain_block \<Rightarrow> block_state \<Rightarrow> 32 word option" where
  "block_histories B skip b s =
     (let s0 = clear_affected_assets s
      in case require (and skip skip_merkle_check \<noteq> 0 \<or> be_merkle_ok B b) Assert_failed
           (rbind (validate_block_header (be_validate_signee B) skip b s) (\<lambda>_.
            rbind (apply_transactions B skip (blk_transactions b) (bs_chain s0)) (\<lambda>c.
            rbind (update_witness_missed_blocks b (s0\<lparr>bs_chain := c\<rparr>)) (\<lambda>(missed, s1).
            update_global_dynamic_data (be_sha B) (last_checkpoint_num B) skip b missed s1)))) of
           Inl _ \<Rightarrow> None
         | Inr s2 \<Rightarrow> Some (bs_head_block_num s2 - bs_last_irreversible_block_num s2 + 1))"

text \<open>The chain of \<open>Block_Chain\<close> on the state of this theory: what a block and a transaction do is no longer an argument. Transactions that wait are
  applied with the flags \<open>skip\<close>.\<close>

definition graphene_chain :: "block_env \<Rightarrow> 32 word \<Rightarrow> (block_body, signed_transaction, block_state) chain_env" where
  "graphene_chain B skip = \<lparr>env_sha = be_sha B, env_head_id = bs_head_block_id, env_head_num = (\<lambda>s. bs_head_block_num s),
     env_apply = (\<lambda>k b s. (block_histories B k b s, apply_block_steps B k b s)),
     env_left = be_left B, env_transactions = (\<lambda>b. blk_transactions b),
     env_apply_tx = (\<lambda>trx s. rbind (apply_transaction (be_apply B) (be_hash B) (be_verify B) skip trx (bs_chain s)) (\<lambda>(_, c). Inr (trx, s\<lparr>bs_chain := c\<rparr>))),
     env_known_tx = (\<lambda>trx s. known_transaction (bs_chain s) (be_hash B trx))\<rparr>"

section \<open>Blocks create no value\<close>

fun admissible_block_transactions :: "block_env \<Rightarrow> 32 word \<Rightarrow> signed_transaction list \<Rightarrow> chain_state \<Rightarrow> bool" where
  "admissible_block_transactions B skip [] c \<longleftrightarrow> True"
| "admissible_block_transactions B skip (trx # trxs) c \<longleftrightarrow> admissible_transaction (be_apply B) trx c \<and>
     (case apply_transaction (be_apply B) (be_hash B) (be_verify B) skip trx c of
        Inl _ \<Rightarrow> True | Inr (_, c1) \<Rightarrow> admissible_block_transactions B skip trxs c1)"

lemma apply_transactions_kept:
  assumes F: "fc_lib_ok (env_lib (be_apply B))"
  shows "market_ok (cs_db c) \<Longrightarrow> admissible_block_transactions B skip trxs c \<Longrightarrow> apply_transactions B skip trxs c = Inr c' \<Longrightarrow>
     kept (cs_db c) (cs_db c') \<and> cs_head_block_num c' = cs_head_block_num c"
proof (induction trxs arbitrary: c)
  case (Cons trx trxs)
  obtain rs c1 where 1: "apply_transaction (be_apply B) (be_hash B) (be_verify B) skip trx c = Inr (rs, c1)" and 2: "apply_transactions B skip trxs c1 = Inr c'"
    using Cons.prems(3) by auto
  have a: "admissible_transaction (be_apply B) trx c" "admissible_block_transactions B skip trxs c1" using Cons.prems(2) 1 by simp_all
  note M = apply_transaction_market [OF F Cons.prems(1) a(1) 1]
  have K: "kept (cs_db c) (cs_db c1)" using M by (simp add: kept_def)
  show ?case using Cons.IH [OF _ a(2) 2] M kept_trans [OF K] by simp
qed simp

text \<open>The transactions and the proposals of a block are in their ranges, and so are the requests and feeds when the updates are reached.\<close>

definition admissible_block :: "block_env \<Rightarrow> 32 word \<Rightarrow> chain_block \<Rightarrow> block_state \<Rightarrow> bool" where
  "admissible_block B skip b s \<longleftrightarrow> admissible_block_transactions B skip (blk_transactions b) (bs_chain (clear_affected_assets s)) \<and>
     (case apply_block_front B skip b s of
        Inl _ \<Rightarrow> True
      | Inr (_, s1) \<Rightarrow> admissible_proposals (be_apply B) (be_authority B) (length (bs_active_witnesses s1)) (bs_db s1, bs_proposals s1) \<and>
          feeds_priced (bs_db (expire_proposals B s1)) \<and> requests_ok (bs_db (expire_proposals B s1)))"

lemma clock_market: "market_ok d \<Longrightarrow> market_ok (d\<lparr>head_block_time := t\<rparr>) \<and> excess (d\<lparr>head_block_time := t\<rparr>) = excess d"
proof -
  assume ok: "market_ok d"
  have "db_ok (d\<lparr>head_block_time := t\<rparr>)" using market_okD(1) [OF ok] by (simp add: db_ok_def assets_ok_def)
  from market_frame [OF ok this] show ?thesis by (simp add: excess_defs fun_eq_iff)
qed

lemma affected_market: "market_ok d \<Longrightarrow> kept d (d\<lparr>issue_453_affected_assets := x\<rparr>)"
proof -
  assume ok: "market_ok d"
  have "db_ok (d\<lparr>issue_453_affected_assets := x\<rparr>)" using market_okD(1) [OF ok] by (simp add: db_ok_def assets_ok_def)
  from market_frame [OF ok this] show ?thesis by (simp add: excess_defs fun_eq_iff kept_def)
qed

lemma update_production_kept:
  assumes F: "fc_lib_ok (env_lib (be_apply B))" and ok: "market_ok (bs_db s)" and run: "update_production B skip b s = Inr s'"
  shows "market_ok (bs_db s') \<and> excess (bs_db s') = excess (bs_db s) \<and> head_block_time (bs_db s') = blk_timestamp b \<and>
     next_maintenance_time (bs_db s') = next_maintenance_time (bs_db s) \<and> bs_head_block_id s' = block_id_of (be_sha B) b"
proof -
  obtain missed s1 s2 s3 where 1: "update_witness_missed_blocks b s = Inr (missed, s1)"
    and 2: "update_global_dynamic_data (be_sha B) (last_checkpoint_num B) skip b missed s1 = Inr s2"
    and 3: "update_signing_witness (env_lib (be_apply B)) b s2 = Inr s3" and 4: "update_last_irreversible_block (be_nth_witness B) s3 = Inr s'"
    using run by (auto simp: update_production_def)
  have p1: "paid (bs_db s) (bs_db s1)"
    using 1 note_missed_paid [OF ok] ok by (auto simp: update_witness_missed_blocks_def Let_def paid_def split: if_splits)
  have db2: "bs_db s2 = (bs_db s1)\<lparr>head_block_time := blk_timestamp b\<rparr>" using 2 by (auto simp: update_global_dynamic_data_def Let_def)
  have p2: "market_ok (bs_db s2)" "excess (bs_db s2) = excess (bs_db s)" "next_maintenance_time (bs_db s2) = next_maintenance_time (bs_db s)" using clock_market p1 by (auto simp: db2 paid_def)
  have p3: "paid (bs_db s2) (bs_db s3)" using update_signing_witness_paid [OF F p2(1) 3] by blast
  have "bs_db s' = bs_db s3" using 4 by (auto simp: update_last_irreversible_block_def Let_def split: if_splits)
  moreover have "bs_head_block_id s2 = block_id_of (be_sha B) b" using 2 by (auto simp: update_global_dynamic_data_def Let_def)
  moreover have "bs_head_block_id s' = bs_head_block_id s2"
    using 4 update_signing_witness_paid [OF F p2(1) 3] by (auto simp: update_last_irreversible_block_def Let_def set_db_def split: if_splits)
  ultimately show ?thesis using p2 p3 db2 by (simp add: paid_def)
qed

lemma expire_proposals_kept:
  assumes "fc_lib_ok (env_lib (be_apply B))" and "market_ok (bs_db s)"
    and "admissible_proposals (be_apply B) (be_authority B) (length (bs_active_witnesses s)) (bs_db s, bs_proposals s)"
  shows "kept (bs_db s) (bs_db (expire_proposals B s)) \<and> bs_head_block_id (expire_proposals B s) = bs_head_block_id s"
  using clear_expired_proposals_kept [OF assms(1) _ assms(3)] assms(2)
  by (simp add: expire_proposals_def kept_def Let_def set_db_def case_prod_beta)

text \<open>A step of the chain on the block \<open>b\<close>: value is kept, the time and the head are those of the block, and the next maintenance is where it was.\<close>

definition block_kept :: "block_env \<Rightarrow> chain_block \<Rightarrow> block_state \<Rightarrow> block_state \<Rightarrow> bool" where
  "block_kept B b s s' \<longleftrightarrow> market_ok (bs_db s') \<and> excess (bs_db s') = excess (bs_db s) \<and> head_block_time (bs_db s') = blk_timestamp b \<and>
     next_maintenance_time (bs_db s') = next_maintenance_time (bs_db s) \<and> head_block_time (bs_db s) < blk_timestamp b \<and>
     bs_head_block_id s = previous b \<and> bs_head_block_id s' = block_id_of (be_sha B) b"

lemma block_kept_trans: "block_kept B b s s1 \<Longrightarrow> kept (bs_db s1) (bs_db s2) \<Longrightarrow> bs_head_block_id s2 = bs_head_block_id s1 \<Longrightarrow> block_kept B b s s2"
  by (simp add: block_kept_def kept_def)

lemma apply_block_front_kept:
  assumes F: "fc_lib_ok (env_lib (be_apply B))" and ok: "market_ok (bs_db s)" and between: "blk_timestamp b < next_maintenance_time (bs_db s)"
    and adm: "admissible_block_transactions B skip (blk_transactions b) (bs_chain (clear_affected_assets s))"
    and run: "apply_block_front B skip b s = Inr (m, s')"
  shows "block_kept B b s s'"
proof -
  let ?p = "clear_affected_assets s"
  obtain c s1 s3 where h: "validate_block_header (be_validate_signee B) skip b s = Inr ()"
    and 1: "apply_transactions B skip (blk_transactions b) (bs_chain ?p) = Inr c" and 2: "update_production B skip b (?p\<lparr>bs_chain := c\<rparr>) = Inr s1"
    and 4: "create_block_summary B b s1 = Inr s3" and s': "s' = s3\<lparr>bs_chain := clear_expired_transactions (bs_chain s3)\<rparr>"
    using run between by (auto simp: apply_block_front_def Let_def not_le)
  have K0: "kept (bs_db s) (bs_db ?p)" using affected_market [OF ok] by (simp add: clear_affected_assets_def)
  have K1: "kept (bs_db s) (cs_db c)" using kept_trans [OF K0] apply_transactions_kept [OF F kept_ok [OF K0] adm 1] by blast
  have P: "market_ok (bs_db s1) \<and> excess (bs_db s1) = excess (bs_db s) \<and> head_block_time (bs_db s1) = blk_timestamp b \<and>
      next_maintenance_time (bs_db s1) = next_maintenance_time (bs_db s) \<and> bs_head_block_id s1 = block_id_of (be_sha B) b"
    using update_production_kept [OF F _ 2] K1 by (simp add: kept_def)
  have "bs_db s' = bs_db s1" "bs_head_block_id s' = bs_head_block_id s1"
    using 4 by (auto simp: s' create_block_summary_def clear_expired_transactions_def)
  moreover have "head_block_time (bs_db s) < blk_timestamp b" "bs_head_block_id s = previous b" using h by (auto simp: validate_block_header_def)
  ultimately show ?thesis using P by (simp add: block_kept_def)
qed

lemma apply_block_steps_kept:
  assumes F: "fc_lib_ok (env_lib (be_apply B))" and ok: "market_ok (bs_db s)" and between: "blk_timestamp b < next_maintenance_time (bs_db s)"
    and hf: "HARDFORK_CORE_606_TIME < next_maintenance_time (bs_db s)" and adm: "admissible_block B skip b s"
    and run: "apply_block_steps B skip b s = Inr s'"
  shows "block_kept B b s s'"
proof -
  obtain m s1 d where 1: "apply_block_front B skip b s = Inr (m, s1)"
    and 2: "block_updates (env_lib (be_apply B)) (be_closer B) (env_nth_element (be_apply B)) (env_fuel (be_apply B)) (bs_db (expire_proposals B s1)) = Inr d"
    and 3: "update_witness_schedule (update_maintenance_flag m (set_db d (expire_proposals B s1))) = Inr s'"
    using run by (auto simp: apply_block_steps_def apply_block_body_def apply_block_end_def)
  have a: "admissible_block_transactions B skip (blk_transactions b) (bs_chain (clear_affected_assets s))"
    "admissible_proposals (be_apply B) (be_authority B) (length (bs_active_witnesses s1)) (bs_db s1, bs_proposals s1)"
    "feeds_priced (bs_db (expire_proposals B s1))" "requests_ok (bs_db (expire_proposals B s1))" using adm 1 by (simp_all add: admissible_block_def)
  have K1: "block_kept B b s s1" by (rule apply_block_front_kept [OF F ok between a(1) 1])
  have K2: "block_kept B b s (expire_proposals B s1)"
    using block_kept_trans [OF K1] expire_proposals_kept [OF F _ a(2)] K1 by (simp add: block_kept_def)
  have "kept (bs_db (expire_proposals B s1)) d"
    by (rule block_updates_kept [OF F _ _ 2]) (use K2 hf a(3,4) in \<open>simp_all add: settleable_def block_kept_def\<close>)
  moreover have "bs_db s' = d" "bs_head_block_id s' = bs_head_block_id (expire_proposals B s1)"
    using 3 by (auto simp: update_witness_schedule_def update_maintenance_flag_def set_db_def Let_def)
  ultimately show ?thesis using block_kept_trans [OF K2] by simp
qed

text \<open>A run of blocks whose parts are in their ranges when they are reached.\<close>

fun admissible_blocks :: "block_env \<Rightarrow> 32 word \<Rightarrow> chain_block list \<Rightarrow> block_state \<Rightarrow> bool" where
  "admissible_blocks B skip [] s \<longleftrightarrow> True"
| "admissible_blocks B skip (b # bs) s \<longleftrightarrow>
     (case checkpoint_skip (be_sha B) (be_checkpoints B) b skip of
        Inl _ \<Rightarrow> True
      | Inr k \<Rightarrow> admissible_block B k b s \<and>
          (case apply_block_steps B k b s of Inl _ \<Rightarrow> True | Inr s1 \<Rightarrow> admissible_blocks B skip bs s1))"

text \<open>C1. Between two maintenances, after hardfork CORE-606, a run of blocks that apply creates and destroys no value: the transactions, the pay of the witnesses,
  the expired proposals that are run, and the refunds, settlements and margin calls at the end of each block leave what is held of every asset in step with its supply,
  and the market stays well formed. The blocks form a chain: each names the one before it, the times increase, and the last block is the head. The operations of
  transactions and proposals that are reached change no backing asset, and where the updates of a block begin its feeds are priced and its settlement requests positive
  (\<open>admissible_blocks\<close>).\<close>

theorem blocks_conserve_value:
  assumes F: "fc_lib_ok (env_lib (be_apply B))" and ok: "market_ok (bs_db s)"
    and between: "\<forall>b\<in>set bs. blk_timestamp b < next_maintenance_time (bs_db s)" and hf: "HARDFORK_CORE_606_TIME < next_maintenance_time (bs_db s)"
    and adm: "admissible_blocks B skip bs s" and run: "replay (graphene_chain B k) (be_checkpoints B) skip bs s = Inr s'"
  shows "market_ok (bs_db s') \<and> excess (bs_db s') = excess (bs_db s) \<and>
     (let ids = bs_head_block_id s # map (block_id_of (be_sha B)) bs in map previous bs = butlast ids \<and> bs_head_block_id s' = last ids) \<and>
     (let ts = head_block_time (bs_db s) # map (\<lambda>b. blk_timestamp b) bs in sorted_wrt (<) ts \<and> head_block_time (bs_db s') = last ts)"
  using ok between hf adm run
proof (induction bs arbitrary: s)
  case (Cons b bs)
  obtain j s1 where j: "checkpoint_skip (be_sha B) (be_checkpoints B) b skip = Inr j" and 1: "apply_block_steps B j b s = Inr s1"
    and 2: "replay (graphene_chain B k) (be_checkpoints B) skip bs s1 = Inr s'"
    using Cons.prems(5) by (auto simp: graphene_chain_def)
  have a: "admissible_block B j b s" "admissible_blocks B skip bs s1" using Cons.prems(4) j 1 by simp_all
  have K: "block_kept B b s s1" by (rule apply_block_steps_kept [OF F Cons.prems(1) _ Cons.prems(3) a(1) 1]) (use Cons.prems(2) in simp)
  have n: "\<forall>b\<in>set bs. blk_timestamp b < next_maintenance_time (bs_db s1)" "HARDFORK_CORE_606_TIME < next_maintenance_time (bs_db s1)" "market_ok (bs_db s1)"
    using Cons.prems(2,3) K by (simp_all add: block_kept_def)
  note IH = Cons.IH [OF n(3,1,2) a(2) 2, unfolded Let_def]
  have "sorted_wrt (<) (head_block_time (bs_db s) # blk_timestamp b # map (\<lambda>b. blk_timestamp b) bs)"
    using IH K by (auto simp: block_kept_def intro: order.strict_trans)
  then show ?case using IH K unfolding Let_def block_kept_def by auto
qed simp

section \<open>A block on concrete input\<close>

text \<open>The block is in the first slot after the maintenance slots, so nothing is missed. It has a transfer; of the two proposals that have expired one is approved and runs.\<close>

definition sample_authority_env :: authority_env where
  "sample_authority_env = \<lparr>au_active = (\<lambda>_ _. Inr None), au_owner = (\<lambda>_ _. Inr None), au_addresses = (\<lambda>k. [k]), au_max_depth = 2\<rparr>"

definition sample_block_env :: block_env where
  "sample_block_env = \<lparr>be_apply = Transactions.sample_env\<lparr>env_nth_element := sort_by\<rparr>, be_hash = sample_hash, be_verify = (\<lambda>_ _. Inr ()), be_merkle_ok = (\<lambda>_. True),
     be_validate_signee = (\<lambda>_ _. True), be_sha = (\<lambda>b. unat (blk_timestamp b)), be_id_prefix = (\<lambda>i. of_nat (id_hash i)), be_checkpoints = [],
     be_closer = (\<lambda>_ _ _. False), be_nth_witness = (\<lambda>lt n xs. sorted_by lt xs), be_maintenance = (\<lambda>_. Inr), be_authority = sample_authority_env,
     be_left = (\<lambda>_ _ s. s)\<rparr>"

definition sample_chain_block :: chain_block where
  "sample_chain_block = \<lparr>previous = Block_id 6 1, body = \<lparr>bb_timestamp = 1600000020, bb_witness = 0, bb_transactions = [sample_transaction]\<rparr>\<rparr>"

lemma sample_production_market: "market_ok (bs_db sample_production) \<and> excess (bs_db sample_production) = excess sample_db"
  using witnesses_market [OF sample_db_market, of "list_index (map sample_witness_object [5, 6, 4])"]
  by (simp add: sample_production_def sample_chain_def ix_ok_def list_index_def)

text \<open>The database after the transfer and after the proposal: core and the other asset of the accounts 5 and 6, and the fees they owe.\<close>

definition sample_moved :: "witness_object index \<Rightarrow> time \<Rightarrow> int \<Rightarrow> int \<Rightarrow> int \<Rightarrow> int \<Rightarrow> int \<Rightarrow> int \<Rightarrow> database" where
  "sample_moved W t x5 x6 y5 y6 f5 f6 = sample_db\<lparr>witnesses := W, head_block_time := t,
     balances := list_index [maintenance_flag_update (\<lambda>_. x5 \<noteq> 5000) (sample_balance 5 0 x5), maintenance_flag_update (\<lambda>_. True) (sample_balance 6 0 x6), sample_balance 6 1 y6, sample_balance 5 1 y5],
     account_stats := list_index (map sample_stats [0, 0, 0, 0, 0] @ [(sample_stats 0)\<lparr>pending_vested_fees := f5\<rparr>, (sample_stats 1000)\<lparr>pending_vested_fees := f6\<rparr>])\<rparr>"

lemmas sample_run_defs = run_plain_def with_result_def start_evaluate_def evaluate_operation_def prepare_fee_def apply_evaluated_def apply_converted_def
  convert_fee_def pay_fee_def pay_core_fee_def transfer_do_evaluate_def transfer_do_apply_def move_balance_def adjust_balance_def sample_transfer_def
  fresh_evaluation_state_def modify_stats_def stats_pay_fee_def is_authorized_asset_def slow_is_authorized_asset_def is_transfer_restricted_def has_flag_def
  white_list_def transfer_restricted_def get_balance_def find_balance_def balance_key_def ix_modify_def ix_create_def asset_neg_def asset_ge_def asset_le_def
  asset_less_def balance_object_adjust_def checked64_def in_int64_def hardfork_defs sample_defs index_get_def index_find_def sample_block_env_def Transactions.sample_env_def

lemma sample_transaction_moves:
  "apply_operations ((be_apply sample_block_env)\<lparr>env_state := fresh_evaluation_state\<rparr>) (tx_operations sample_transaction) (sample_db\<lparr>witnesses := W\<rparr>) =
     Inr ([Void_result], sample_moved W 1600000000 5000 2980 500 200 0 20)"
  by (simp add: sample_run_defs sample_transaction_def sample_moved_def Let_def upt_rec)

lemma sample_proposal_moves:
  "apply_operations ((be_apply sample_block_env)\<lparr>env_state := fresh_evaluation_state\<rparr>) (pr_operations (sample_proposal as)) (sample_moved W 1600000020 5000 2980 500 200 0 20) =
     Inr ([Void_result], sample_moved W 1600000020 4980 2980 400 300 20 20)"
  by (simp add: sample_run_defs sample_proposal_def sample_moved_def Let_def upt_rec)

lemma sample_authorized:
  "is_authorized_to_execute (be_authority sample_block_env) (sample_proposal [5]) d" "\<not> is_authorized_to_execute (be_authority sample_block_env) (sample_proposal []) d"
  by (simp_all add: is_authorized_to_execute_def sample_proposal_def sample_block_env_def sample_authority_env_def verify_authority_def operations_required_def
      operation_get_required_authorities_def flat_insert_def initial_sign_state_def approve_def approved_def check_active_or_owner_def check_account_def
      check_one_def remove_unused_signatures_def GRAPHENE_TEMP_ACCOUNT_def numeral_2_eq_2 Let_def)

lemma sample_order: "first_expired_proposal 1600000020 \<lparr>next_id = n, objects = []\<rparr> = None"
  "first_expired_proposal 1600000020 \<lparr>next_id = n, objects = [(1, sample_proposal as)]\<rparr> = Some (1, sample_proposal as)"
  "first_expired_proposal 1600000020 \<lparr>next_id = n, objects = [(0, sample_proposal as), (1, sample_proposal bs)]\<rparr> = Some (0, sample_proposal as)"
  by (simp_all add: first_expired_proposal_def sorted_by_def proposal_before_def sample_proposal_def)

lemma sample_proposals_cleared:
  "clear_expired_proposals (be_apply sample_block_env) (be_authority sample_block_env) 3
     (sample_moved W 1600000020 5000 2980 500 200 0 20, \<lparr>next_id = 2, objects = [(0, sample_proposal [5]), (1, sample_proposal [])]\<rparr>) =
   (sample_moved W 1600000020 4980 2980 400 300 20 20, \<lparr>next_id = 2, objects = []\<rparr>)" (is "clear_expired_proposals ?E ?A 3 (?d, ?ps) = (?e, ?none)")
    and sample_proposals_admissible: "admissible_proposals (be_apply sample_block_env) (be_authority sample_block_env) 3
     (sample_moved W 1600000020 5000 2980 500 200 0 20, \<lparr>next_id = 2, objects = [(0, sample_proposal [5]), (1, sample_proposal [])]\<rparr>)"
proof -
  let ?last = "\<lparr>next_id = 2, objects = [(1 :: nat, sample_proposal [])]\<rparr>"
  have t: "head_block_time ?d = 1600000020" "head_block_time ?e = 1600000020" by (simp_all add: sample_moved_def)
  have 1: "expire_proposal ?E ?A 3 0 (sample_proposal [5]) (?d, ?ps) = (?e, ?last)"
    using sample_proposal_moves [of "[5]" W] by (simp add: expire_proposal_def push_proposal_def sample_authorized remove_proposal_def)
  have 2: "expire_proposal ?E ?A 3 1 (sample_proposal []) (?e, ?last) = (?e, ?none)" by (simp add: expire_proposal_def sample_authorized remove_proposal_def)
  show "clear_expired_proposals ?E ?A 3 (?d, ?ps) = (?e, ?none)"
    by (subst clear_expired_proposals.simps, simp add: t sample_order 1 del: One_nat_def, subst clear_expired_proposals.simps, simp add: t sample_order 2 del: One_nat_def,
        subst clear_expired_proposals.simps, simp add: t sample_order)
  have v: "\<forall>op\<in>set (pr_operations (sample_proposal [5])). operation_validate (env_lib ?E) op = Inr () \<and> admissible op ?d"
    by (simp add: sample_proposal_def transfer_validate_def)
  have a: "admissible_all (?E\<lparr>env_state := fresh_evaluation_state\<rparr>) (pr_operations (sample_proposal [5])) ?d"
    by (simp add: sample_proposal_def split: sum.split)
  show "admissible_proposals ?E ?A 3 (?d, ?ps)"
    by (subst admissible_proposals.simps, simp add: t sample_order 1 v a del: One_nat_def, subst admissible_proposals.simps, simp add: t sample_order 2 sample_authorized del: One_nat_def,
        subst admissible_proposals.simps, simp add: t sample_order)
qed

definition sample_witnesses :: "witness_object index" where "sample_witnesses = list_index (map sample_witness_object [5, 6, 4])"

definition sample_confirmed :: "witness_object index" where
  "sample_confirmed = list_index [(sample_witness_object 7)\<lparr>last_aslot := 91\<rparr>, sample_witness_object 6, sample_witness_object 4]"

lemma sample_header: "validate_block_header (\<lambda>_ _. True) 0 sample_chain_block sample_production = Inr ()"
  by (simp add: validate_block_header_def sample_chain_block_def sample_production_defs sample_db_def sample_parameters_def list_index_def index_get_def index_find_def
      get_slot_at_time_def get_slot_time_def get_scheduled_witness_def maintenance_flag_def skip_witness_signature_def skip_witness_schedule_check_def Let_def upt_rec)

lemma sample_clear [simp]: "clear_affected_assets sample_production = sample_production"
  by (simp add: clear_affected_assets_def set_db_def sample_production_def sample_chain_def sample_db_def)

definition sample_applied :: chain_state where
  "sample_applied = (note_transaction 0 (sample_hash sample_transaction) sample_transaction (bs_chain sample_production))
     \<lparr>cs_db := sample_moved sample_witnesses 1600000000 5000 2980 500 200 0 20\<rparr>"

lemma sample_applied_simps [simp]:
  "cs_head_block_num sample_applied = 6" "cs_block_summaries sample_applied = list_index [1, 2, 3, 4, 5, 6, 8, 9]"
  "cs_db sample_applied = sample_moved sample_witnesses 1600000000 5000 2980 500 200 0 20"
  by (simp_all add: sample_applied_def note_transaction_def sample_production_def sample_chain_def Let_def split: prod.split)

lemma sample_transactions_apply:
  "apply_transactions sample_block_env 0 (blk_transactions sample_chain_block) (bs_chain sample_production) = Inr sample_applied"
proof -
  let ?c = "bs_chain sample_production"
  have d: "cs_db ?c = sample_db\<lparr>witnesses := sample_witnesses\<rparr>" by (simp add: sample_production_def sample_witnesses_def)
  have k: "\<not> known_transaction ?c i" for i using sample_checks(4) [of i] by (simp add: known_transaction_def sample_production_def)
  have t: "check_tapos 0 sample_transaction ?c = Inr ()" using sample_checks(2) by (simp add: check_tapos_def sample_production_def)
  have x: "check_expiration sample_transaction (cs_db ?c) = Inr ()" using sample_checks(3) by (simp add: check_expiration_def d)
  have h: "\<not> head_block_time (sample_moved W 1600000000 a b e f g i) < HARDFORK_CORE_1040_TIME" for W a b e f g i by (simp add: sample_moved_def HARDFORK_CORE_1040_TIME_def)
  have m: "apply_operations ((be_apply sample_block_env)\<lparr>env_state := fresh_evaluation_state\<rparr>) (tx_operations sample_transaction) (cs_db ?c) =
      Inr ([Void_result], sample_moved sample_witnesses 1600000000 5000 2980 500 200 0 20)" unfolding d by (rule sample_transaction_moves)
  have e: "env_lib (be_apply sample_block_env) = fc_reference" "be_hash sample_block_env = sample_hash" "be_verify sample_block_env = (\<lambda>_ _. Inr ())"
    by (simp_all add: sample_block_env_def Transactions.sample_env_def)
  have n: "cs_head_block_num ?c > 0" by (simp add: sample_production_def)
  have "apply_transaction (be_apply sample_block_env) sample_hash (\<lambda>_ _. Inr ()) 0 sample_transaction ?c = Inr ([Void_result], sample_applied)"
    unfolding apply_transaction_def e sample_applied_def using sample_checks(1) k t x n h m by (simp add: require_def)
  then show ?thesis by (simp add: sample_chain_block_def e)
qed

definition sample_produced :: block_state where
  "sample_produced = sample_production\<lparr>bs_chain := sample_applied\<lparr>cs_head_block_num := 7, cs_db := sample_moved sample_confirmed 1600000020 5000 2980 500 200 0 20\<rparr>,
     bs_head_block_id := Block_id 7 1600000020, bs_current_witness := 0, bs_current_aslot := 91, bs_recent_slots_filled := 15, bs_last_irreversible_block_num := 4\<rparr>"

lemmas sample_block_defs = sample_chain_block_def sample_block_env_def block_num_def block_id_of_def num_from_id_def sample_witnesses_def sample_confirmed_def
  sample_moved_def sample_produced_def

lemma sample_pay_steps:
  "update_witness_missed_blocks sample_chain_block (sample_production\<lparr>bs_chain := sample_applied\<rparr>) = Inr (0, sample_production\<lparr>bs_chain := sample_applied\<rparr>)"
  "update_global_dynamic_data (be_sha sample_block_env) (last_checkpoint_num sample_block_env) 0 sample_chain_block 0 (sample_production\<lparr>bs_chain := sample_applied\<rparr>) =
     Inr (set_db (sample_moved sample_witnesses 1600000020 5000 2980 500 200 0 20) (sample_produced\<lparr>bs_last_irreversible_block_num := 3\<rparr>))"
  "update_signing_witness fc_reference sample_chain_block
     (set_db (sample_moved sample_witnesses 1600000020 5000 2980 500 200 0 20) (sample_produced\<lparr>bs_last_irreversible_block_num := 3\<rparr>)) =
     Inr (sample_produced\<lparr>bs_last_irreversible_block_num := 3\<rparr>)"
  "update_last_irreversible_block (be_nth_witness sample_block_env) (sample_produced\<lparr>bs_last_irreversible_block_num := 3\<rparr>) = Inr sample_produced"
  subgoal by (simp add: update_witness_missed_blocks_def get_slot_at_time_def get_slot_time_def Witness_Schedule.maintenance_flag_def sample_block_defs sample_production_def
      sample_db_def sample_parameters_def set_db_def Let_def)
  subgoal by (simp add: update_global_dynamic_data_def last_checkpoint_num_def new_missed_count_def sample_block_defs sample_production_def set_db_def Let_def
      GRAPHENE_MAX_UNDO_HISTORY_def skip_undo_history_check_def require_def)
  subgoal by (simp add: update_signing_witness_def deposit_witness_pay_def get_slot_at_time_def get_slot_time_def Witness_Schedule.maintenance_flag_def sample_block_defs sample_production_def
      sample_db_def sample_parameters_def set_db_def list_index_def index_get_def index_find_def ix_modify_def sample_witness_object_def upt_rec Let_def
      fc_safe_simps [OF fc_reference_ok])
  subgoal by (simp add: update_last_irreversible_block_def sample_block_defs sample_production_def list_index_def index_get_def index_find_def
      irreversible_offset_def GRAPHENE_IRREVERSIBLE_THRESHOLD_def config_defs sorted_by_def sample_witness_object_def upt_rec Let_def)
  done

lemma sample_updated:
  "block_updates fc_reference (\<lambda>_ _ _. False) sort_by 10 (sample_moved W 1600000020 a b c d e f) = Inr (sample_moved W 1600000020 a b c d e f)"
  by (simp add: block_updates_def clear_expired_orders_def first_expired_limit_def sample_moved_def sample_db_def list_index_def sorted_by_def settlement_book_def
      update_expired_feeds_def expired_feeds_def update_core_exchange_rates_def cer_updates_def update_withdraw_permissions_def hardfork_defs)

lemma sample_front:
  "\<exists>s1. apply_block_front sample_block_env 0 sample_chain_block sample_production = Inr (False, s1) \<and>
     bs_db s1 = sample_moved sample_confirmed 1600000020 5000 2980 500 200 0 20 \<and> bs_active_witnesses s1 = [0, 1, 2] \<and>
     bs_proposals s1 = \<lparr>next_id = 2, objects = [(0, sample_proposal [5]), (1, sample_proposal [])]\<rparr>"
proof -
  let ?b = sample_chain_block and ?p = "sample_production\<lparr>bs_chain := sample_applied\<rparr>"
  have p: "update_production sample_block_env 0 ?b ?p = Inr sample_produced"
    using sample_pay_steps by (simp add: update_production_def) (simp add: sample_block_env_def Transactions.sample_env_def)
  have m: "\<not> next_maintenance_time (bs_db sample_production) \<le> blk_timestamp ?b" by (simp add: sample_production_def sample_db_def sample_chain_block_def)
  obtain s3 where s3: "create_block_summary sample_block_env ?b sample_produced = Inr s3" "bs_db s3 = bs_db sample_produced" "bs_active_witnesses s3 = [0, 1, 2]"
      "bs_proposals s3 = bs_proposals sample_production"
    by (simp add: create_block_summary_def sample_production_def sample_block_defs list_index_def ix_modify_def index_get_def index_find_def upt_rec)
  have v: "validate_block_header (be_validate_signee sample_block_env) 0 ?b sample_production = Inr ()" "be_merkle_ok sample_block_env ?b"
    using sample_header by (simp_all add: sample_block_env_def)
  have "bs_proposals sample_production = \<lparr>next_id = 2, objects = [(0, sample_proposal [5]), (1, sample_proposal [])]\<rparr>"
    by (simp add: sample_production_def list_index_def upt_rec)
  moreover have "bs_db sample_produced = sample_moved sample_confirmed 1600000020 5000 2980 500 200 0 20" by (simp add: sample_produced_def)
  ultimately show ?thesis
    using v sample_transactions_apply p m s3 by (simp add: apply_block_front_def clear_expired_transactions_def)
qed

lemma sample_block_applies:
  "\<exists>s'. apply_block_steps sample_block_env 0 sample_chain_block sample_production = Inr s' \<and>
     bs_db s' = sample_moved sample_confirmed 1600000020 4980 2980 400 300 20 20 \<and> objects (bs_proposals s') = []"
    and sample_block_admissible: "admissible_blocks sample_block_env 0 [sample_chain_block] sample_production"
proof -
  obtain s1 where s1: "apply_block_front sample_block_env 0 sample_chain_block sample_production = Inr (False, s1)"
    "bs_db s1 = sample_moved sample_confirmed 1600000020 5000 2980 500 200 0 20" "bs_active_witnesses s1 = [0, 1, 2]"
    "bs_proposals s1 = \<lparr>next_id = 2, objects = [(0, sample_proposal [5]), (1, sample_proposal [])]\<rparr>" using sample_front by blast
  have e: "bs_db (expire_proposals sample_block_env s1) = sample_moved sample_confirmed 1600000020 4980 2980 400 300 20 20"
    "objects (bs_proposals (expire_proposals sample_block_env s1)) = []" "bs_active_witnesses (expire_proposals sample_block_env s1) = [0, 1, 2]"
    using s1(2,3,4) sample_proposals_cleared [of sample_confirmed, unfolded numeral_3_eq_3] by (simp_all add: expire_proposals_def set_db_def)
  have u: "block_updates (env_lib (be_apply sample_block_env)) (be_closer sample_block_env) (env_nth_element (be_apply sample_block_env)) (env_fuel (be_apply sample_block_env))
      (bs_db (expire_proposals sample_block_env s1)) = Inr (bs_db (expire_proposals sample_block_env s1))"
    unfolding e(1) using sample_updated by (simp add: sample_block_env_def Transactions.sample_env_def)
  show "\<exists>s'. apply_block_steps sample_block_env 0 sample_chain_block sample_production = Inr s' \<and>
     bs_db s' = sample_moved sample_confirmed 1600000020 4980 2980 400 300 20 20 \<and> objects (bs_proposals s') = []"
    using s1(1) u e by (simp add: apply_block_steps_def apply_block_body_def apply_block_end_def update_witness_schedule_def update_maintenance_flag_def set_db_def Let_def)
  have q: "feeds_priced (sample_moved W t a b c d f g) \<and> requests_ok (sample_moved W t a b c d f g)" for W t a b c d f g
    by (simp add: sample_moved_def feeds_priced_def requests_ok_def) (simp add: sample_db_def list_index_def index_find_def)
  have a: "admissible_block_transactions sample_block_env 0 (blk_transactions sample_chain_block) (bs_chain sample_production)"
    by (auto simp: sample_chain_block_def admissible_transaction_def sample_transaction_def split: sum.split)
  have p: "admissible_proposals (be_apply sample_block_env) (be_authority sample_block_env) (length (bs_active_witnesses s1)) (bs_db s1, bs_proposals s1)"
    using sample_proposals_admissible [of sample_confirmed, unfolded numeral_3_eq_3] s1 by simp
  have "checkpoint_skip (be_sha sample_block_env) (be_checkpoints sample_block_env) sample_chain_block 0 = Inr 0" by (simp add: checkpoint_skip_def sample_block_env_def)
  then show "admissible_blocks sample_block_env 0 [sample_chain_block] sample_production"
    using s1(1) a p q e(1) by (simp add: admissible_block_def split: sum.split)
qed

theorem blocks_conserve_value_witness:
  "\<exists>s'. replay (graphene_chain sample_block_env 0) [] 0 [sample_chain_block] sample_production = Inr s' \<and> market_ok (bs_db s') \<and>
     excess (bs_db s') 1 = 0 \<and> bs_head_block_id s' = Block_id 7 1600000020 \<and> head_block_time (bs_db s') = 1600000020 \<and>
     balance_of (bs_db s') 6 1 = 300 \<and> objects (bs_proposals s') = []"
proof -
  let ?B = sample_block_env
  have F: "fc_lib_ok (env_lib (be_apply ?B))" by (simp add: sample_block_env_def Transactions.sample_env_def fc_reference_ok)
  have c: "be_checkpoints ?B = []" by (simp add: sample_block_env_def)
  have m: "\<forall>b\<in>set [sample_chain_block]. blk_timestamp b < next_maintenance_time (bs_db sample_production)" "HARDFORK_CORE_606_TIME < next_maintenance_time (bs_db sample_production)"
    by (simp_all add: sample_chain_block_def sample_production_def sample_db_def HARDFORK_CORE_606_TIME_def)
  obtain s' where s': "replay (graphene_chain ?B 0) (be_checkpoints ?B) 0 [sample_chain_block] sample_production = Inr s'"
    "bs_db s' = sample_moved sample_confirmed 1600000020 4980 2980 400 300 20 20" "objects (bs_proposals s') = []"
    using sample_block_applies by (auto simp: graphene_chain_def checkpoint_skip_def c)
  have b: "balance_of (bs_db s') 6 1 = 300"
    by (simp add: s'(2) balance_of_def get_balance_def find_balance_def balance_key_def sample_moved_def sample_balance_def list_index_def upt_rec)
  show ?thesis
    using blocks_conserve_value [OF F conjunct1 [OF sample_production_market] m sample_block_admissible s'(1)] s' c b sample_production_market sample_db_excess(2)
    by (auto simp: sample_chain_block_def block_num_def block_id_of_def num_from_id_def sample_block_env_def)
qed

end
