(* ===== verification/Budget.thy ===== *)
theory Budget
  imports Witness_Schedule
begin

text \<open>
  The budget of a maintenance interval: workers and their pay (\<^verbatim>\<open>worker_object.hpp\<close>, \<^verbatim>\<open>worker_evaluator.cpp\<close>), the budget for witnesses
  and workers (\<^verbatim>\<open>pay_workers\<close>, \<^verbatim>\<open>initialize_budget_record\<close>, \<^verbatim>\<open>process_budget\<close> of \<^verbatim>\<open>db_maint.cpp\<close>) and the time
  of the next maintenance.
\<close>

section \<open>Model\<close>

datatype worker_type =
    Refund_worker (total_burned: int)
  | Vesting_balance_worker (pay_balance: nat)
  | Burn_worker (total_burned: int)

record worker_object =
  wk_account :: nat
  work_begin_date :: time
  work_end_date :: time
  daily_pay :: int
  wk_worker :: worker_type
  total_votes_for :: "64 word"
  total_votes_against :: "64 word"

definition worker_is_active :: "worker_object \<Rightarrow> time \<Rightarrow> bool" where
  "worker_is_active w now \<longleftrightarrow> now \<ge> work_begin_date w \<and> now \<le> work_end_date w"

definition approving_stake :: "worker_object \<Rightarrow> int" where
  "approving_stake w = int64_wrap (sint (total_votes_for w) - sint (total_votes_against w))"

record budget_record =
  time_since_last_budget :: nat
  from_initial_reserve :: int
  from_accumulated_fees :: int
  from_unused_witness_budget :: int
  requested_witness_budget :: int
  total_budget :: int
  br_witness_budget :: int
  br_worker_budget :: int
  leftover_worker_funds :: int
  supply_delta :: int

text \<open>The state of the budget beside the database: the workers, the rest of the dynamic global properties it uses, a chain parameter and the records.\<close>

record budget_state =
  bg_db :: database
  bg_workers :: "worker_object index"
  bg_last_budget_time :: time
  bg_worker_budget_per_day :: int
  bg_records :: "(time \<times> budget_record) index"

definition GRAPHENE_CORE_ASSET_CYCLE_RATE :: nat where "GRAPHENE_CORE_ASSET_CYCLE_RATE = 17"
definition GRAPHENE_CORE_ASSET_CYCLE_RATE_BITS :: nat where "GRAPHENE_CORE_ASSET_CYCLE_RATE_BITS = 32"

text \<open>The three kinds of workers.\<close>

fun pay_worker :: "fc_lib \<Rightarrow> int \<Rightarrow> worker_type \<Rightarrow> database \<Rightarrow> (worker_type \<times> database) result" where
  "pay_worker F pay (Refund_worker burned) d =
     rbind (of_option Overflow (safe_add F burned pay)) (\<lambda>t.
     rbind (modify_dyn_data 0 (\<lambda>x. rbind (of_option Overflow (safe_sub F (current_supply x) pay)) (\<lambda>s. Inr (x\<lparr>current_supply := s\<rparr>))) d) (\<lambda>d1.
     Inr (Refund_worker t, d1)))"
| "pay_worker F pay (Vesting_balance_worker i) d =
     rbind (ix_modify i (\<lambda>v. vb_deposit F v (head_block_time d) (mk_asset pay 0)) (vesting_balances d)) (\<lambda>ix.
     Inr (Vesting_balance_worker i, d\<lparr>vesting_balances := ix\<rparr>))"
| "pay_worker F pay (Burn_worker burned) d =
     rbind (of_option Overflow (safe_add F burned pay)) (\<lambda>t.
     rbind (adjust_balance F GRAPHENE_NULL_ACCOUNT (mk_asset pay 0) d) (\<lambda>d1. Inr (Burn_worker t, d1)))"

definition active_workers :: "budget_state \<Rightarrow> (nat \<times> worker_object) list" where
  "active_workers s =
     sorted_by (\<lambda>a b. if approving_stake (snd a) \<noteq> approving_stake (snd b) then approving_stake (snd a) > approving_stake (snd b) else fst a < fst b)
       (filter (\<lambda>x. worker_is_active (snd x) (head_block_time (bg_db s)) \<and> approving_stake (snd x) > 0) (objects (bg_workers s)))"

text \<open>Microseconds since the last budget, of those of a day, in 128 bits and read back from 64.\<close>

definition requested_pay :: "budget_state \<Rightarrow> worker_object \<Rightarrow> int" where
  "requested_pay s w =
     (let passed_time_count = (uint (head_block_time (bg_db s)) - uint (bg_last_budget_time s)) * 1000000
      in sint (ucast ((of_int (daily_pay w) * of_int passed_time_count :: 128 word) div 86400000000) :: 64 word))"

fun pay_each :: "fc_lib \<Rightarrow> (nat \<times> worker_object) list \<Rightarrow> int \<Rightarrow> budget_state \<Rightarrow> (int \<times> budget_state) result" where
  "pay_each F [] budget s = Inr (budget, s)"
| "pay_each F ((i, w) # ws) budget s =
     (if budget > 0
      then let actual_pay = min budget (requested_pay s w)
           in rbind (index_get (bg_workers s) i) (\<lambda>x.
              rbind (pay_worker F actual_pay (wk_worker x) (bg_db s)) (\<lambda>(t, d).
              rbind (ix_modify i (\<lambda>x. Inr (x\<lparr>wk_worker := t\<rparr>)) (bg_workers s)) (\<lambda>ix.
              rbind (of_option Overflow (safe_sub F budget actual_pay)) (\<lambda>rest.
              pay_each F ws rest (s\<lparr>bg_db := d, bg_workers := ix\<rparr>)))))
      else Inr (budget, s))"

definition pay_workers :: "fc_lib \<Rightarrow> int \<Rightarrow> budget_state \<Rightarrow> (int \<times> budget_state) result" where
  "pay_workers F budget s = pay_each F (active_workers s) budget s"

definition asset_reserved :: "fc_lib \<Rightarrow> nat \<Rightarrow> database \<Rightarrow> int result" where
  "asset_reserved F a d =
     rbind (index_get (assets d) a) (\<lambda>ao. rbind (index_get (asset_dyn_data d) (dynamic_asset_data_id ao)) (\<lambda>x.
     of_option Overflow (safe_sub F (max_supply (options ao)) (current_supply x))))"

definition empty_budget_record :: budget_record where
  "empty_budget_record = \<lparr>time_since_last_budget = 0, from_initial_reserve = 0, from_accumulated_fees = 0, from_unused_witness_budget = 0,
     requested_witness_budget = 0, total_budget = 0, br_witness_budget = 0, br_worker_budget = 0, leftover_worker_funds = 0, supply_delta = 0\<rparr>"

text \<open>The part of the reserve released in \<open>dt\<close> seconds, rounded up, at most all of it.\<close>

definition released_budget :: "int \<Rightarrow> nat \<Rightarrow> int" where
  "released_budget reserve dt =
     (let budget = drop_bit GRAPHENE_CORE_ASSET_CYCLE_RATE_BITS
            ((of_int reserve :: 128 word) * of_nat dt * of_nat GRAPHENE_CORE_ASSET_CYCLE_RATE + (push_bit GRAPHENE_CORE_ASSET_CYCLE_RATE_BITS 1 - 1))
      in if budget < of_int reserve then sint (ucast budget :: 64 word) else reserve)"

definition initialize_budget_record :: "fc_lib \<Rightarrow> time \<Rightarrow> budget_state \<Rightarrow> budget_record result" where
  "initialize_budget_record F now s =
     (let d = bg_db s
      in rbind (asset_reserved F 0 d) (\<lambda>from_reserve.
         rbind (index_get (asset_dyn_data d) 0) (\<lambda>core.
         let rec = empty_budget_record\<lparr>from_initial_reserve := from_reserve, from_accumulated_fees := accumulated_fees core, from_unused_witness_budget := witness_budget d\<rparr>
         in if bg_last_budget_time s = 0 \<or> now \<le> bg_last_budget_time s then Inr rec
            else let dt = unat now - unat (bg_last_budget_time s)
                 in rbind (of_option Overflow (safe_add F from_reserve (accumulated_fees core))) (\<lambda>r1.
                    rbind (of_option Overflow (safe_add F r1 (witness_budget d))) (\<lambda>reserve.
                    Inr (rec\<lparr>time_since_last_budget := dt, total_budget := released_budget reserve dt\<rparr>))))))"

definition worker_budget_for :: "budget_state \<Rightarrow> nat \<Rightarrow> int \<Rightarrow> int" where
  "worker_budget_for s time_to_maint available_funds =
     (let budget = (of_int (bg_worker_budget_per_day s) * of_nat time_to_maint :: 128 word) div 86400
      in if budget \<ge> of_int available_funds then available_funds else sint (ucast budget :: 64 word))"

text \<open>The steps of \<^verbatim>\<open>process_budget\<close> after the record is set up.\<close>

definition spend_budget :: "fc_lib \<Rightarrow> int \<Rightarrow> nat \<Rightarrow> budget_record \<Rightarrow> budget_state \<Rightarrow> budget_state result" where
  "spend_budget F requested time_to_maint rec s =
     (let for_witnesses = min requested (total_budget rec)
      in rbind (of_option Overflow (safe_sub F (total_budget rec) for_witnesses)) (\<lambda>available_funds.
         let for_workers = worker_budget_for s time_to_maint available_funds
         in rbind (pay_workers F for_workers s) (\<lambda>(leftover, s1).
            rbind (of_option Overflow (safe_add F for_witnesses for_workers)) (\<lambda>x1.
            rbind (of_option Overflow (safe_sub F x1 leftover)) (\<lambda>x2.
            rbind (of_option Overflow (safe_sub F x2 (from_accumulated_fees rec))) (\<lambda>x3.
            rbind (of_option Overflow (safe_sub F x3 (from_unused_witness_budget rec))) (\<lambda>delta.
            rbind (modify_dyn_data 0 (\<lambda>x. rbind (of_option Overflow (safe_add F (current_supply x) delta)) (\<lambda>n.
              Inr (x\<lparr>current_supply := n, accumulated_fees := 0\<rparr>))) (bg_db s1)) (\<lambda>d1.
            let now = head_block_time (bg_db s);
                rec' = rec\<lparr>requested_witness_budget := requested, br_witness_budget := for_witnesses, br_worker_budget := for_workers,
                  leftover_worker_funds := leftover, supply_delta := delta\<rparr>
            in Inr (s1\<lparr>bg_db := d1\<lparr>witness_budget := for_witnesses\<rparr>, bg_last_budget_time := now,
                  bg_records := snd (ix_create (now, rec') (bg_records s1))\<rparr>)))))))))"

text \<open>The two assertions of the source on the time that is left are checks here.\<close>

definition process_budget :: "fc_lib \<Rightarrow> budget_state \<Rightarrow> budget_state result" where
  "process_budget F s =
     (let d = bg_db s; now = head_block_time d; interval = unat (block_interval (parameters d));
          time_to_maint = unat (next_maintenance_time d - now); blocks_to_maint = (time_to_maint + interval - 1) div interval
      in require (now < next_maintenance_time d \<and> interval > 0) Assert_failed
         (rbind (initialize_budget_record F now s) (\<lambda>rec.
          spend_budget F (sint (of_int (witness_pay_per_block (parameters d)) * of_nat blocks_to_maint :: 64 word)) time_to_maint rec s)))"

text \<open>The next maintenance.\<close>

definition next_maintenance :: "32 word \<Rightarrow> 32 word \<Rightarrow> time \<Rightarrow> time \<Rightarrow> time \<Rightarrow> time" where
  "next_maintenance interval block_number block_time head_time next =
     (if next \<le> block_time
      then if block_number = 1 then (block_time div interval + 1) * interval
           else next + ((head_time - next) div interval + 1) * interval
      else next)"

section \<open>The budget moves value and creates none\<close>

text \<open>What a worker has returned to the reserve, which is what it has taken off the supply.\<close>

definition refund_of :: "worker_type \<Rightarrow> int" where
  "refund_of w = (case w of Refund_worker burned \<Rightarrow> burned | Vesting_balance_worker i \<Rightarrow> 0 | Burn_worker burned \<Rightarrow> 0)"

definition refunds :: "budget_state \<Rightarrow> int" where
  "refunds s = ix_sum (\<lambda>x. refund_of (wk_worker x)) (bg_workers s)"

text \<open>\<open>worker_paid p r d d'\<close>: \<open>p\<close> of the core asset has been paid out, and the supply is lower by \<open>r\<close>.\<close>

definition worker_paid :: "int \<Rightarrow> int \<Rightarrow> database \<Rightarrow> database \<Rightarrow> bool" where
  "worker_paid p r d d' \<longleftrightarrow> market_ok d' \<and> same_clock d d' \<and> witness_budget d' = witness_budget d \<and> assets d' = assets d \<and>
     (\<forall>a. excess d' a = excess d a + if_asset a (mk_asset p 0)) \<and>
     (\<forall>x. dyn_of d 0 = Some x \<longrightarrow> (\<exists>x'. dyn_of d' 0 = Some x' \<and> accumulated_fees x' = accumulated_fees x \<and>
        current_supply x' = current_supply x - r))"

lemma pay_worker_paid:
  assumes F: "fc_lib_ok F" and ok: "market_ok d" and run: "pay_worker F p w d = Inr (w', d')"
  shows "worker_paid p (refund_of w' - refund_of w) d d' \<and> refund_of w' - refund_of w \<in> {0, p}"
proof (cases w)
  case (Refund_worker burned)
  then have "modify_dyn_data 0 (\<lambda>x. rbind (of_option Overflow (safe_sub F (current_supply x) p)) (\<lambda>s. Inr (x\<lparr>current_supply := s\<rparr>))) d = Inr d'"
    using run by auto
  from modify_core_effect [OF market_okD(1) [OF ok] this] obtain x x' ix where x: "dyn_of d 0 = Some x" "d' = d\<lparr>asset_dyn_data := ix\<rparr>" "dyn_of d' 0 = Some x'" "db_ok d'"
      "rbind (of_option Overflow (safe_sub F (current_supply x) p)) (\<lambda>s. Inr (x\<lparr>current_supply := s\<rparr>)) = Inr x'"
      "\<forall>a. excess d' a = excess d a + (if a = 0 then held_in_dyn x' - held_in_dyn x + fee_pool x' - fee_pool x else 0)" by blast
  have x': "x' = x\<lparr>current_supply := current_supply x - p\<rparr>" using x(5) by (auto simp: fc_safe_simps [OF F])
  have "market_ok d'" by (rule market_frame [OF ok x(4)]) (simp_all add: x(2))
  moreover have "w' = Refund_worker (burned + p)" using run Refund_worker by (auto simp: fc_safe_simps [OF F])
  ultimately show ?thesis using x(1,3,6) Refund_worker by (simp add: worker_paid_def x(2) x' held_in_dyn_def refund_of_def)
next
  case (Vesting_balance_worker i)
  then obtain ix where ix: "ix_modify i (\<lambda>v. vb_deposit F v (head_block_time d) (mk_asset p 0)) (vesting_balances d) = Inr ix" "d' = d\<lparr>vesting_balances := ix\<rparr>"
    using run by auto
  have "ix_ok (vesting_balances d)" using market_okD(1) [OF ok] by (simp add: db_ok_def)
  then obtain v v' where v: "vb_deposit F v (head_block_time d) (mk_asset p 0) = Inr v'" "\<And>f. ix_sum f ix = ix_sum f (vesting_balances d) + f v' - f v" "ix_ok ix"
    using ix_modifyE [OF _ ix(1)] by metis
  have e: "excess d' a = excess d a + if_asset a (mk_asset p 0)" for a
    using vesting_upd [OF market_okD(1) [OF ok] v(3)] v(2) [of "\<lambda>v. if_asset a (vb_balance v)"] vb_deposit_value(1) [OF F v(1)] by (simp add: ix(2))
  have "db_ok d'" using vesting_upd [OF market_okD(1) [OF ok] v(3)] by (simp add: ix(2))
  then have "market_ok d'" by (rule market_frame [OF ok]) (simp_all add: ix(2))
  moreover have "w' = w" using run Vesting_balance_worker by auto
  ultimately show ?thesis using e by (simp add: worker_paid_def ix(2) dyn_of_def)
next
  case (Burn_worker burned)
  then have a: "adjust_balance F GRAPHENE_NULL_ACCOUNT (mk_asset p 0) d = Inr d'" using run by auto
  note E = adjust_balance_effect [OF F market_okD(1) [OF ok] a]
  obtain ix where ix: "d' = d\<lparr>balances := ix\<rparr>" using E(1) by blast
  have "market_ok d'" by (rule market_frame [OF ok E(2)]) (simp_all add: ix)
  moreover have "refund_of w' = 0" using run Burn_worker by (auto simp: refund_of_def)
  ultimately show ?thesis using E(3) Burn_worker by (simp add: worker_paid_def ix dyn_of_def refund_of_def)
qed

text \<open>Payments are not negative: the product of the daily pay and the time fits.\<close>

definition pays_ok :: "budget_state \<Rightarrow> bool" where
  "pays_ok s \<longleftrightarrow> (\<forall>x \<in> set (objects (bg_workers s)). 0 \<le> requested_pay s (snd x))"

definition workers_paid :: "int \<Rightarrow> budget_state \<Rightarrow> budget_state \<Rightarrow> bool" where
  "workers_paid p s s' \<longleftrightarrow> market_ok (bg_db s') \<and> same_clock (bg_db s) (bg_db s') \<and> witness_budget (bg_db s') = witness_budget (bg_db s) \<and>
     assets (bg_db s') = assets (bg_db s) \<and> bg_last_budget_time s' = bg_last_budget_time s \<and> bg_records s' = bg_records s \<and>
     (\<forall>a. excess (bg_db s') a = excess (bg_db s) a + if_asset a (mk_asset p 0)) \<and>
     (\<forall>x. dyn_of (bg_db s) 0 = Some x \<longrightarrow> (\<exists>x'. dyn_of (bg_db s') 0 = Some x' \<and> accumulated_fees x' = accumulated_fees x \<and>
        current_supply x' = current_supply x - (refunds s' - refunds s))) \<and> ix_ok (bg_workers s') \<and> 0 \<le> refunds s' - refunds s \<and> refunds s' - refunds s \<le> p"

lemma pay_each_paid:
  assumes F: "fc_lib_ok F"
  shows "market_ok (bg_db s) \<Longrightarrow> ix_ok (bg_workers s) \<Longrightarrow> 0 \<le> budget \<Longrightarrow> (\<forall>x \<in> set ws. 0 \<le> requested_pay s (snd x)) \<Longrightarrow> pay_each F ws budget s = Inr (left, s') \<Longrightarrow>
     workers_paid (budget - left) s s' \<and> 0 \<le> left \<and> left \<le> budget"
proof (induction ws arbitrary: budget s)
  case (Cons y ws)
  obtain i w where y: "y = (i, w)" by (cases y)
  show ?case
  proof (cases "budget > 0")
    case False
    then show ?thesis using Cons.prems y by (auto simp: workers_paid_def)
  next
    case True
    let ?p = "min budget (requested_pay s w)"
    let ?s = "\<lambda>d ix. s\<lparr>bg_db := d, bg_workers := ix\<rparr>"
    obtain x :: worker_object and t d ix where x: "index_find (bg_workers s) i = Some x" and 1: "pay_worker F ?p (wk_worker x) (bg_db s) = Inr (t, d)"
      and m: "ix_modify i (\<lambda>x. Inr (x\<lparr>wk_worker := t\<rparr>)) (bg_workers s) = Inr ix" and 2: "pay_each F ws (budget - ?p) (?s d ix) = Inr (left, s')"
      using Cons.prems(5) True y by (auto simp: Let_def index_get_def fc_safe_simps [OF F])
    define r where "r = refund_of t - refund_of (wk_worker x)"
    have W: "worker_paid ?p r (bg_db s) d" and r: "r \<in> {0, ?p}" using pay_worker_paid [OF F Cons.prems(1) 1] by (simp_all add: r_def)
    have p: "0 \<le> ?p" using Cons.prems(3,4) y by simp
    obtain ob ob' where m': "index_find (bg_workers s) i = Some ob" "Inr (ob\<lparr>wk_worker := t\<rparr>) = (Inr ob' :: worker_object result)"
      "\<And>f. ix_sum f ix = ix_sum f (bg_workers s) + f ob' - f ob" "ix_ok ix"
      by (rule ix_modifyE [OF Cons.prems(2) m]) blast
    have R: "refunds (?s d ix) - refunds s = r" using m'(1,2,3) x by (auto simp: refunds_def r_def)
    have q: "requested_pay (?s d ix) v = requested_pay s v" for v using W by (simp add: requested_pay_def worker_paid_def)
    have I: "workers_paid (budget - ?p - left) (?s d ix) s' \<and> 0 \<le> left \<and> left \<le> budget - ?p"
      by (rule Cons.IH [OF _ _ _ _ 2]) (use W m'(4) Cons.prems(4) q in \<open>auto simp: worker_paid_def\<close>)
    have "\<exists>z'. dyn_of (bg_db s') 0 = Some z' \<and> accumulated_fees z' = accumulated_fees z \<and> current_supply z' = current_supply z - (refunds s' - refunds s)"
      if z: "dyn_of (bg_db s) 0 = Some z" for z
    proof -
      obtain z1 where z1: "dyn_of d 0 = Some z1" "accumulated_fees z1 = accumulated_fees z" "current_supply z1 = current_supply z - r"
        using W z by (auto simp: worker_paid_def)
      then obtain z' where "dyn_of (bg_db s') 0 = Some z'" "accumulated_fees z' = accumulated_fees z1" "current_supply z' = current_supply z1 - (refunds s' - refunds (?s d ix))"
        using I unfolding workers_paid_def by auto
      then show ?thesis using z1 R by simp
    qed
    moreover have "0 \<le> refunds s' - refunds s" "refunds s' - refunds s \<le> budget - left"
      using I R r p unfolding workers_paid_def by auto
    ultimately show ?thesis using W I p unfolding workers_paid_def worker_paid_def by (auto simp: if_asset_def)
  qed
qed (simp add: workers_paid_def)

lemma small_budget:
  fixes b :: "128 word"
  assumes "b < of_int r" and "0 \<le> r" and "r < 2 ^ 63"
  shows "0 \<le> sint (ucast b :: 64 word)" and "sint (ucast b :: 64 word) < r"
proof -
  have "uint (of_int r :: 128 word) = r" using assms(2,3) by (simp add: unsigned_of_int take_bit_int_eq_self)
  then have b: "uint b < r" using assms(1) by (simp add: word_less_def)
  then have u: "uint (ucast b :: 64 word) = uint b" using assms(3) by (simp add: unsigned_ucast_eq take_bit_int_eq_self)
  have "sint (ucast b :: 64 word) = signed_take_bit 63 (uint (ucast b :: 64 word))" by (simp add: sint_uint)
  also have "\<dots> = uint b" unfolding u using b assms(3) by (intro signed_take_bit_int_eq_self) (auto intro: order.trans [of _ 0])
  finally show "0 \<le> sint (ucast b :: 64 word)" "sint (ucast b :: 64 word) < r" using b by simp_all
qed

lemma released_budget_bounds: "0 \<le> r \<Longrightarrow> r < 2 ^ 63 \<Longrightarrow> 0 \<le> released_budget r dt \<and> released_budget r dt \<le> r"
  using small_budget [of _ r] by (auto simp: released_budget_def Let_def intro: less_imp_le)

lemma worker_budget_bounds: "0 \<le> a \<Longrightarrow> a < 2 ^ 63 \<Longrightarrow> 0 \<le> worker_budget_for s n a \<and> worker_budget_for s n a \<le> a"
  using small_budget [of _ a] by (auto simp: worker_budget_for_def Let_def not_le intro: less_imp_le)

definition budget_ok :: "budget_state \<Rightarrow> asset_object \<Rightarrow> asset_dynamic_data_object \<Rightarrow> bool" where
  "budget_ok s core x \<longleftrightarrow> market_ok (bg_db s) \<and> pays_ok s \<and> index_find (assets (bg_db s)) 0 = Some core \<and> dyn_of (bg_db s) 0 = Some x \<and>
     ix_ok (bg_workers s) \<and> ix_ok (bg_records s) \<and> current_supply x \<le> max_supply (options core) \<and> 0 \<le> accumulated_fees x \<and> 0 \<le> witness_budget (bg_db s)"

lemma core_dyn: "db_ok d \<Longrightarrow> index_find (assets d) 0 = Some core \<Longrightarrow> dynamic_asset_data_id core = 0 \<and> dyn_of d 0 = index_find (asset_dyn_data d) 0"
  by (auto simp: db_ok_def assets_ok_def dyn_of_def)

lemma budget_record_bounds:
  assumes F: "fc_lib_ok F" and ok: "budget_ok s core x" and run: "initialize_budget_record F now s = Inr rec"
  shows "from_initial_reserve rec = max_supply (options core) - current_supply x \<and> from_accumulated_fees rec = accumulated_fees x \<and> from_unused_witness_budget rec = witness_budget (bg_db s) \<and> 0 \<le> total_budget rec \<and> total_budget rec < 2 ^ 63 \<and>
     total_budget rec \<le> max_supply (options core) - current_supply x + accumulated_fees x + witness_budget (bg_db s)"
proof -
  let ?d = "bg_db s" and ?r = "max_supply (options core) - current_supply x"
  have b: "market_ok ?d" "index_find (assets ?d) 0 = Some core" "dyn_of ?d 0 = Some x" "current_supply x \<le> max_supply (options core)" "0 \<le> accumulated_fees x" "0 \<le> witness_budget ?d"
    using ok by (simp_all add: budget_ok_def)
  have c: "dynamic_asset_data_id core = 0" "index_find (asset_dyn_data ?d) 0 = Some x" using core_dyn [OF market_okD(1) [OF b(1)] b(2)] b(3) by simp_all
  show ?thesis
  proof (cases "bg_last_budget_time s = 0 \<or> now \<le> bg_last_budget_time s")
    case True
    then show ?thesis using run b c by (auto simp: initialize_budget_record_def Let_def asset_reserved_def index_get_def empty_budget_record_def fc_safe_simps [OF F])
  next
    case False
    let ?all = "?r + accumulated_fees x + witness_budget ?d"
    obtain rec1 where rec: "rec = rec1\<lparr>time_since_last_budget := unat now - unat (bg_last_budget_time s), total_budget := released_budget ?all (unat now - unat (bg_last_budget_time s))\<rparr>"
      "from_initial_reserve rec1 = ?r" "from_accumulated_fees rec1 = accumulated_fees x" "from_unused_witness_budget rec1 = witness_budget ?d" and "in_int64 ?all"
      using run False b(2) c by (auto simp: initialize_budget_record_def Let_def asset_reserved_def index_get_def fc_safe_simps [OF F])
    then have "?all < 2 ^ 63" by (simp add: in_int64_def)
    then show ?thesis using released_budget_bounds [of ?all "unat now - unat (bg_last_budget_time s)"] b rec by auto
  qed
qed

text \<open>C11. The budget creates no value, and its record says what happened. What the witnesses and workers get comes out of the reserve, the collected fees and the unused
  budget of the last interval, within the total released: what is held of every asset stays in step with its supply, whatever the kinds of the workers, and the
  collected fees are used up. A record is added with the sources, the shares of witnesses and workers and the change \<open>supply_delta\<close>; the supply of the core
  asset moves by it, less what refund workers were paid and gave back to the reserve, which the record does not count, and never exceeds its maximum.\<close>

theorem process_budget_conserves:
  assumes F: "fc_lib_ok F" and ok: "budget_ok s core x" and run: "process_budget F s = Inr s'"
  shows "market_ok (bg_db s') \<and> excess (bg_db s') = excess (bg_db s) \<and> bg_last_budget_time s' = head_block_time (bg_db s') \<and>
     (\<exists>x' rec. index_find (bg_records s') = (index_find (bg_records s))(next_id (bg_records s) \<mapsto> (head_block_time (bg_db s), rec)) \<and>
        from_initial_reserve rec = max_supply (options core) - current_supply x \<and> from_accumulated_fees rec = accumulated_fees x \<and>
        from_unused_witness_budget rec = witness_budget (bg_db s) \<and> br_witness_budget rec = witness_budget (bg_db s') \<and>
        br_witness_budget rec + br_worker_budget rec \<le> total_budget rec \<and>
        total_budget rec \<le> from_initial_reserve rec + from_accumulated_fees rec + from_unused_witness_budget rec \<and>
        0 \<le> leftover_worker_funds rec \<and> leftover_worker_funds rec \<le> br_worker_budget rec \<and>
        supply_delta rec = br_witness_budget rec + br_worker_budget rec - leftover_worker_funds rec - from_accumulated_fees rec - from_unused_witness_budget rec \<and>
        dyn_of (bg_db s') 0 = Some x' \<and> accumulated_fees x' = 0 \<and> current_supply x' = current_supply x + supply_delta rec - (refunds s' - refunds s) \<and>
        0 \<le> refunds s' - refunds s \<and> refunds s' - refunds s \<le> br_worker_budget rec - leftover_worker_funds rec \<and> current_supply x' \<le> max_supply (options core))"
proof -
  let ?d = "bg_db s"
  obtain rec requested t where 1: "initialize_budget_record F (head_block_time ?d) s = Inr rec" and spend: "spend_budget F requested t rec s = Inr s'"
    using run by (auto simp: process_budget_def Let_def)
  define for_witnesses where "for_witnesses = min requested (total_budget rec)"
  obtain left s1 delta d1 for_workers rec' where fw: "for_witnesses \<le> total_budget rec" "in_int64 (total_budget rec - for_witnesses)"
    and fk: "for_workers = worker_budget_for s t (total_budget rec - for_witnesses)"
    and 2: "pay_workers F for_workers s = Inr (left, s1)"
    and delta: "delta = for_witnesses + for_workers - left - from_accumulated_fees rec - from_unused_witness_budget rec"
    and 3: "modify_dyn_data 0 (\<lambda>x. rbind (of_option Overflow (safe_add F (current_supply x) delta)) (\<lambda>n. Inr (x\<lparr>current_supply := n, accumulated_fees := 0\<rparr>))) (bg_db s1) = Inr d1"
    and rec': "rec' = rec\<lparr>requested_witness_budget := requested, br_witness_budget := for_witnesses, br_worker_budget := for_workers,
        leftover_worker_funds := left, supply_delta := delta\<rparr>"
    and s': "s' = s1\<lparr>bg_db := d1\<lparr>witness_budget := for_witnesses\<rparr>, bg_last_budget_time := head_block_time ?d,
        bg_records := snd (ix_create (head_block_time ?d, rec') (bg_records s1))\<rparr>"
    using spend unfolding spend_budget_def for_witnesses_def [symmetric] by (auto simp: Let_def fc_safe_simps [OF F] for_witnesses_def)
  note R = budget_record_bounds [OF F ok 1]
  have b: "market_ok ?d" "dyn_of ?d 0 = Some x" "pays_ok s" "ix_ok (bg_workers s)" "ix_ok (bg_records s)" using ok by (simp_all add: budget_ok_def)
  have W: "0 \<le> for_workers" "for_workers \<le> total_budget rec - for_witnesses"
    using worker_budget_bounds [of "total_budget rec - for_witnesses" s t] fw by (simp_all add: fk in_int64_def)
  have "\<forall>y \<in> set (active_workers s). 0 \<le> requested_pay s (snd y)" using b(3) by (simp add: active_workers_def pays_ok_def)
  then have P: "workers_paid (for_workers - left) s s1" "0 \<le> left" "left \<le> for_workers"
    using pay_each_paid [OF F b(1,4) W(1)] 2 by (simp_all add: pay_workers_def)
  have ok1: "market_ok (bg_db s1)" using P(1) by (simp add: workers_paid_def)
  obtain x1 where x1: "dyn_of (bg_db s1) 0 = Some x1" "accumulated_fees x1 = accumulated_fees x" "current_supply x1 = current_supply x - (refunds s1 - refunds s)"
    using P(1) b(2) by (auto simp: workers_paid_def)
  have rf: "refunds s' = refunds s1" "0 \<le> refunds s1 - refunds s" "refunds s1 - refunds s \<le> for_workers - left"
    using P(1) by (simp_all add: workers_paid_def) (simp add: refunds_def s')
  from modify_core_effect [OF market_okD(1) [OF ok1] 3] obtain x2 ix where x2: "d1 = (bg_db s1)\<lparr>asset_dyn_data := ix\<rparr>" "dyn_of d1 0 = Some x2" "db_ok d1"
      "rbind (of_option Overflow (safe_add F (current_supply x1) delta)) (\<lambda>n. Inr (x1\<lparr>current_supply := n, accumulated_fees := 0\<rparr>)) = Inr x2"
      "\<forall>a. excess d1 a = excess (bg_db s1) a + (if a = 0 then held_in_dyn x2 - held_in_dyn x1 + fee_pool x2 - fee_pool x1 else 0)"
    using x1(1) by auto
  have v: "x2 = x1\<lparr>current_supply := current_supply x1 + delta, accumulated_fees := 0\<rparr>" using x2(4) by (auto simp: fc_safe_simps [OF F])
  have same: "witness_budget d1 = witness_budget ?d" "head_block_time d1 = head_block_time ?d" using P(1) by (simp_all add: x2(1) workers_paid_def)
  have "market_ok d1" by (rule market_frame [OF ok1 x2(3)]) (simp_all add: x2(1))
  moreover have "db_ok (bg_db s')" using x2(3) by (simp add: s' db_ok_def assets_ok_def)
  ultimately have "market_ok (bg_db s')" by (rule market_frame) (simp_all add: s')
  moreover have "excess (bg_db s') a = excess ?d a" for a
  proof -
    have "excess (bg_db s') a = excess d1 a - if_asset a (mk_asset (witness_budget d1 - for_witnesses) 0)"
      using budget_excess [of d1 "witness_budget d1 - for_witnesses" a] by (simp add: s')
    also have "\<dots> = excess (bg_db s1) a + if_asset a (mk_asset (left - for_workers) 0)"
      using x2(5) R x1(2) by (simp add: v held_in_dyn_def same delta)
    also have "\<dots> = excess ?d a" using P(1) by (simp add: workers_paid_def)
    finally show ?thesis .
  qed
  moreover have "current_supply x2 \<le> max_supply (options core)" using x1(2,3) rf R W(2) P(2) by (simp add: v delta)
  moreover have "dyn_of (bg_db s') 0 = Some x2" using x2(2) by (simp add: s' dyn_of_def)
  moreover have "index_find (bg_records s') = (index_find (bg_records s))(next_id (bg_records s) \<mapsto> (head_block_time ?d, rec'))"
    using ix_create_facts [OF b(5), of "(head_block_time ?d, rec')"] P(1) by (simp add: s' workers_paid_def ix_create_def)
  moreover have "bg_last_budget_time s' = head_block_time (bg_db s')" "witness_budget (bg_db s') = for_witnesses" using same by (simp_all add: s')
  moreover have "accumulated_fees x2 = 0" "current_supply x2 = current_supply x + delta - (refunds s' - refunds s)" using x1(3) by (simp_all add: v rf(1))
  ultimately show ?thesis using R W P(2,3) rf delta
    by (intro conjI exI [of _ x2] exI [of _ rec']) (simp_all add: rec' fun_eq_iff)
qed

section \<open>The next maintenance\<close>

lemma unat_of_nat_small: "n < 2 ^ 32 \<Longrightarrow> unat (of_nat n :: 32 word) = n"
  by (simp add: unsigned_of_nat take_bit_nat_eq_self)

text \<open>The next maintenance is the first after the head block: the new time is the old one plus the smallest number of intervals that takes it past the time of the head
  block.\<close>

theorem next_maintenance_first:
  assumes "0 < interval" and "block_number \<noteq> 1" and due: "next \<le> head_time" and fits: "unat head_time + unat interval < 2 ^ 32"
  shows "\<exists>k > 0. unat (next_maintenance interval block_number head_time head_time next) = unat next + k * unat interval \<and>
     unat head_time < unat next + k * unat interval \<and> (\<forall>j. unat head_time < unat next + j * unat interval \<longrightarrow> k \<le> j)"
proof -
  let ?i = "unat interval" and ?y = "(unat head_time - unat next) div unat interval"
  have i: "0 < ?i" using assms(1) by (simp add: word_less_nat_alt)
  have n: "unat next \<le> unat head_time" using due by (simp add: word_le_nat_alt)
  have y: "?y * ?i \<le> unat head_time - unat next" "unat head_time - unat next < (?y + 1) * ?i"
    using dividend_less_div_times [OF i, of "unat head_time - unat next"] by (simp_all add: div_times_less_eq_dividend algebra_simps)
  have q: "unat ((head_time - next) div interval) = ?y" using due by (simp add: unat_div_distrib unat_sub)
  have q': "(head_time - next) div interval = of_nat ?y" unfolding q [symmetric] by simp
  have "next_maintenance interval block_number head_time head_time next = of_nat (unat next + (?y + 1) * ?i)"
    using assms(2) due by (simp add: next_maintenance_def q' algebra_simps)
  moreover have "unat next + (?y + 1) * ?i < 2 ^ 32"
  proof -
    have "unat next + (?y + 1) * ?i = unat next + ?y * ?i + ?i" by (simp add: algebra_simps)
    then show ?thesis using y(1) n fits by linarith
  qed
  ultimately have e: "unat (next_maintenance interval block_number head_time head_time next) = unat next + (?y + 1) * ?i"
    using unat_of_nat_small by metis
  have "?y + 1 \<le> j" if "unat head_time < unat next + j * ?i" for j
  proof (rule ccontr)
    assume "\<not> ?y + 1 \<le> j"
    then have "j * ?i \<le> ?y * ?i" by simp
    then show False using that y(1) n by linarith
  qed
  then show ?thesis using e y(2) n by (intro exI [of _ "?y + 1"]) auto
qed

section \<open>A budget on concrete input\<close>

definition sample_worker :: "worker_type \<Rightarrow> 64 word \<Rightarrow> worker_object" where
  "sample_worker t v = \<lparr>wk_account = 5, work_begin_date = 1500000000, work_end_date = 1700000000, daily_pay = 1000000, wk_worker = t,
     total_votes_for = v, total_votes_against = 0\<rparr>"

definition sample_budget :: budget_state where
  "sample_budget = \<lparr>bg_db = sample_db, bg_workers = list_index [sample_worker (Refund_worker 0) 5, sample_worker (Burn_worker 7) 9],
     bg_last_budget_time = 1500000000, bg_worker_budget_per_day = 500000, bg_records = list_index []\<rparr>"

lemma sample_budget_ok: "budget_ok sample_budget (sample_asset 0 3 0) (sample_dyn 9500 0)"
  by (simp add: budget_ok_def sample_budget_def sample_db_market pays_ok_def dyn_of_def ix_ok_def)
    (simp add: sample_defs index_find_def requested_pay_def sample_worker_def Let_def)

lemma sample_released: "released_budget 990500 100000000 = 392052"
  by (simp add: released_budget_def GRAPHENE_CORE_ASSET_CYCLE_RATE_def GRAPHENE_CORE_ASSET_CYCLE_RATE_BITS_def Let_def)

lemma sample_worker_budget: "worker_budget_for sample_budget 1000 390052 = 5787"
  by (simp add: worker_budget_for_def sample_budget_def Let_def)

lemma sample_record:
  "initialize_budget_record fc_reference 1600000000 sample_budget =
     Inr (empty_budget_record\<lparr>from_initial_reserve := 990500, time_since_last_budget := 100000000, total_budget := 392052\<rparr>)"
  using sample_released
  by (simp add: initialize_budget_record_def asset_reserved_def sample_budget_def sample_defs index_get_def index_find_def fc_safe_simps [OF fc_reference_ok] in_int64_def Let_def
      empty_budget_record_def)

lemma sample_active: "active_workers sample_budget = [(1, sample_worker (Burn_worker 7) 9), (0, sample_worker (Refund_worker 0) 5)]"
  by (simp add: active_workers_def worker_is_active_def approving_stake_def sample_budget_def sample_worker_def list_index_def sample_db_def sorted_by_def upt_rec int64_wrap_def)

lemma sample_requested: "requested_pay sample_budget (sample_worker w v) = 1157407407"
  by (simp add: requested_pay_def sample_budget_def sample_worker_def sample_db_def Let_def)

lemma sample_paid: "\<exists>s1. pay_workers fc_reference 5787 sample_budget = Inr (0, s1) \<and> asset_dyn_data (bg_db s1) = asset_dyn_data sample_db"
proof -
  have b: "balance_of sample_db GRAPHENE_NULL_ACCOUNT 0 = 0"
    by (simp add: balance_of_def get_balance_def find_balance_def balance_key_def sample_db_def sample_balance_def list_index_def GRAPHENE_NULL_ACCOUNT_def upt_rec)
  obtain d1 where d1: "adjust_balance fc_reference GRAPHENE_NULL_ACCOUNT (mk_asset 5787 0) sample_db = Inr d1"
    using adjust_balance_returns [OF fc_reference_ok sample_db_ok, of GRAPHENE_NULL_ACCOUNT "mk_asset 5787 0"] b by auto
  have "asset_dyn_data d1 = asset_dyn_data sample_db" using adjust_balance_dyn [OF d1] by simp
  then show ?thesis using d1 sample_requested [of "Burn_worker 7" 9]
    by (simp add: pay_workers_def sample_active) (simp add: sample_budget_def list_index_def index_get_def index_find_def ix_modify_def sample_worker_def fc_safe_simps [OF fc_reference_ok] in_int64_def)
qed

lemma sample_budget_runs: "succeeds (process_budget fc_reference sample_budget)"
proof -
  obtain s1 where s1: "pay_workers fc_reference 5787 sample_budget = Inr (0, s1)" "asset_dyn_data (bg_db s1) = asset_dyn_data sample_db"
    using sample_paid by blast
  have "succeeds (spend_budget fc_reference 2000 1000 (empty_budget_record\<lparr>from_initial_reserve := 990500, time_since_last_budget := 100000000, total_budget := 392052\<rparr>) sample_budget)"
    using s1 sample_worker_budget
    by (simp add: succeeds_iff spend_budget_def empty_budget_record_def fc_safe_simps [OF fc_reference_ok] in_int64_def Let_def)
      (simp add: modify_dyn_data_def ix_modify_def index_get_def index_find_def sample_db_def list_index_def sample_dyn_def fc_safe_simps [OF fc_reference_ok] in_int64_def)
  then show ?thesis using sample_record by (simp add: process_budget_def sample_budget_def sample_db_def sample_parameters_def Let_def)
qed

theorem process_budget_conserves_witness:
  "\<exists>s'. process_budget fc_reference sample_budget = Inr s' \<and> market_ok (bg_db s') \<and> excess (bg_db s') 0 = 0 \<and> bg_last_budget_time s' = head_block_time (bg_db s') \<and>
     (\<exists>rec. index_find (bg_records s') 0 = Some (1600000000, rec) \<and> from_initial_reserve rec = 990500)"
proof -
  obtain s' where s': "process_budget fc_reference sample_budget = Inr s'" using sample_budget_runs by (auto simp: succeeds_iff)
  have v: "head_block_time (bg_db sample_budget) = 1600000000" "next_id (bg_records sample_budget) = 0" "bg_db sample_budget = sample_db"
    "max_supply (options (sample_asset 0 3 0)) - current_supply (sample_dyn 9500 0) = 990500"
    by (simp_all add: sample_budget_def sample_defs)
  from process_budget_conserves [OF fc_reference_ok sample_budget_ok s'] show ?thesis using s' sample_db_excess(1) v by auto
qed

theorem next_maintenance_first_witness:
  "\<exists>k > 0. unat (next_maintenance 3600 7 1008000 1008000 1000000) = 1000000 + k * 3600 \<and> (1008000 :: nat) < 1000000 + k * 3600"
proof -
  have "\<exists>k > 0. unat (next_maintenance 3600 7 1008000 1008000 1000000) = unat (1000000 :: time) + k * unat (3600 :: 32 word) \<and>
     unat (1008000 :: time) < unat (1000000 :: time) + k * unat (3600 :: 32 word) \<and>
     (\<forall>j. unat (1008000 :: time) < unat (1000000 :: time) + j * unat (3600 :: 32 word) \<longrightarrow> k \<le> j)"
    by (rule next_maintenance_first) simp_all
  then show ?thesis by auto
qed

end
