(* ===== verification/Smart_Contracts.thy ===== *)
theory Smart_Contracts
  imports Object_Index
begin

text \<open>
  Smart contracts: the contract objects of \<^verbatim>\<open>account_object.hpp\<close>, the five evaluators of \<^verbatim>\<open>account_evaluator.cpp\<close> (deploy, activate, deactivate,
  kill, call), \<^verbatim>\<open>update_contract_activate_status\<close> of \<^verbatim>\<open>db_balance.cpp\<close> and the lookup of \<^verbatim>\<open>database_api.cpp\<close>.

  The virtual machine is a submodule: \<^verbatim>\<open>construct_smart_contract\<close> and \<^verbatim>\<open>call_smart_contract\<close> are arguments, as is \<^verbatim>\<open>fc::sha256\<close>. Nothing is
  assumed of them; each may throw.

  The detailed evaluators work on the object index with its unique key. The abstract specification is a map from addresses to contracts.
\<close>

section \<open>Model\<close>

record contract_object =
  co_owner :: nat
  co_contract_addr :: nat
  co_bytecode :: string
  co_abi_json :: string
  co_construct_data :: string
  co_contract_name :: string
  co_activated :: bool
  co_contract_state :: string

record contract_vm =
  sha256 :: "string \<Rightarrow> nat"
  construct_smart_contract :: "string \<Rightarrow> nat \<Rightarrow> string \<Rightarrow> string \<Rightarrow> string result"
  call_smart_contract :: "string \<Rightarrow> nat \<Rightarrow> string \<Rightarrow> string \<Rightarrow> string \<Rightarrow> string result"

record smart_contract_deploy_operation =
  sd_owner :: nat
  sd_contract_addr :: nat
  sd_bytecode :: string
  sd_abi_json :: string
  sd_construct_data :: string
  sd_contract_name :: string

record smart_contract_activate_operation =
  sa_activator :: nat
  sa_contract_addr :: nat

record smart_contract_deactivate_operation =
  se_deactivator :: nat
  se_contract_addr :: nat

record smart_contract_kill_operation =
  sk_killer :: nat
  sk_contract_addr :: nat

record smart_contract_call_operation =
  sc_caller :: nat
  sc_contract_addr :: nat
  sc_call_data :: string

type_synonym contract_index = "contract_object index"

text \<open>The unique key \<^verbatim>\<open>by_contract_addr\<close>.\<close>

definition same_addr :: "contract_object \<Rightarrow> contract_object \<Rightarrow> bool" where
  "same_addr a b \<longleftrightarrow> co_contract_addr a = co_contract_addr b"

definition find_contract :: "nat \<Rightarrow> contract_index \<Rightarrow> (nat \<times> contract_object) option" where
  "find_contract a ix = List.find (\<lambda>x. co_contract_addr (snd x) = a) (objects ix)"

definition modify_contract :: "nat \<Rightarrow> (contract_object \<Rightarrow> contract_object) \<Rightarrow> contract_index \<Rightarrow> contract_index result" where
  "modify_contract i m ix = (let (ix', fine) = index_modify same_addr i m ix in require fine Assert_failed (Inr ix'))"

definition update_contract_activate_status :: "nat \<Rightarrow> bool \<Rightarrow> contract_index \<Rightarrow> (bool \<times> contract_index) result" where
  "update_contract_activate_status a activated ix =
     (case find_contract a ix of
        None \<Rightarrow> Inr (False, ix)
      | Some (i, c) \<Rightarrow>
          require (co_activated c \<noteq> activated) Assert_failed
          (rbind (modify_contract i (\<lambda>b. b\<lparr>co_activated := activated\<rparr>) ix) (\<lambda>ix'. Inr (True, ix'))))"

definition smart_contract_deploy :: "contract_vm \<Rightarrow> smart_contract_deploy_operation \<Rightarrow> contract_index \<Rightarrow> (nat \<times> contract_index) result" where
  "smart_contract_deploy V op ix =
     require (sd_abi_json op \<noteq> []) Assert_failed
     (require (sd_contract_addr op = sha256 V (sd_bytecode op @ sd_abi_json op @ sd_construct_data op)) Assert_failed
      (index_create same_addr (\<lambda>_.
         rbind (construct_smart_contract V (sd_bytecode op) (sd_contract_addr op) (sd_construct_data op) (sd_abi_json op)) (\<lambda>st.
         Inr \<lparr>co_owner = sd_owner op, co_contract_addr = sd_contract_addr op, co_bytecode = sd_bytecode op, co_abi_json = sd_abi_json op,
              co_construct_data = sd_construct_data op, co_contract_name = sd_contract_name op, co_activated = True, co_contract_state = st\<rparr>)) ix))"

definition smart_contract_activate :: "smart_contract_activate_operation \<Rightarrow> contract_index \<Rightarrow> contract_index result" where
  "smart_contract_activate op ix =
     rbind (of_option Assert_failed (find_contract (sa_contract_addr op) ix)) (\<lambda>(i, c).
     require (co_owner c = sa_activator op) Assert_failed
     (rbind (update_contract_activate_status (sa_contract_addr op) True ix) (\<lambda>(_, ix'). Inr ix')))"

definition smart_contract_deactivate :: "smart_contract_deactivate_operation \<Rightarrow> contract_index \<Rightarrow> contract_index result" where
  "smart_contract_deactivate op ix =
     rbind (of_option Assert_failed (find_contract (se_contract_addr op) ix)) (\<lambda>(i, c).
     require (co_owner c = se_deactivator op) Assert_failed
     (rbind (update_contract_activate_status (se_contract_addr op) False ix) (\<lambda>(_, ix'). Inr ix')))"

definition smart_contract_kill :: "smart_contract_kill_operation \<Rightarrow> contract_index \<Rightarrow> contract_index result" where
  "smart_contract_kill op ix =
     rbind (of_option Assert_failed (find_contract (sk_contract_addr op) ix)) (\<lambda>(i, c).
     require (co_owner c = sk_killer op) Assert_failed (index_remove i ix))"

definition smart_contract_call :: "contract_vm \<Rightarrow> smart_contract_call_operation \<Rightarrow> contract_index \<Rightarrow> contract_index result" where
  "smart_contract_call V op ix =
     rbind (of_option Assert_failed (find_contract (sc_contract_addr op) ix)) (\<lambda>(i, c).
     require (co_activated c) Assert_failed
     (rbind (call_smart_contract V (co_bytecode c) (co_contract_addr c) (sc_call_data op) (co_abi_json c) (co_contract_state c)) (\<lambda>st.
      modify_contract i (\<lambda>b. b\<lparr>co_contract_state := st\<rparr>) ix)))"

definition lookup_contracts :: "nat list \<Rightarrow> contract_index \<Rightarrow> contract_object option list" where
  "lookup_contracts addrs ix =
     map (\<lambda>a. case find_contract a ix of None \<Rightarrow> None | Some (i, c) \<Rightarrow> index_find ix i) addrs"

datatype contract_operation =
    Deploy smart_contract_deploy_operation
  | Activate smart_contract_activate_operation
  | Deactivate smart_contract_deactivate_operation
  | Kill smart_contract_kill_operation
  | Call smart_contract_call_operation

fun apply_contract_operation :: "contract_vm \<Rightarrow> contract_operation \<Rightarrow> contract_index \<Rightarrow> contract_index result" where
  "apply_contract_operation V (Deploy op) ix = rbind (smart_contract_deploy V op ix) (\<lambda>(_, ix'). Inr ix')"
| "apply_contract_operation V (Activate op) ix = smart_contract_activate op ix"
| "apply_contract_operation V (Deactivate op) ix = smart_contract_deactivate op ix"
| "apply_contract_operation V (Kill op) ix = smart_contract_kill op ix"
| "apply_contract_operation V (Call op) ix = smart_contract_call V op ix"

text \<open>A block's contract operations: one that throws leaves the index as it was.\<close>

definition run_contract_operations :: "contract_vm \<Rightarrow> contract_operation list \<Rightarrow> contract_index \<Rightarrow> contract_index" where
  "run_contract_operations V ops ix = fold (\<lambda>op ix. case apply_contract_operation V op ix of Inr ix' \<Rightarrow> ix' | Inl _ \<Rightarrow> ix) ops ix"

section \<open>Specification: a registry\<close>

type_synonym registry = "nat \<rightharpoonup> contract_object"

fun registry_step :: "contract_vm \<Rightarrow> contract_operation \<Rightarrow> registry \<Rightarrow> registry result" where
  "registry_step V (Deploy op) R =
     require (sd_abi_json op \<noteq> [] \<and> sd_contract_addr op = sha256 V (sd_bytecode op @ sd_abi_json op @ sd_construct_data op)) Assert_failed
     (rbind (construct_smart_contract V (sd_bytecode op) (sd_contract_addr op) (sd_construct_data op) (sd_abi_json op)) (\<lambda>st.
      require (R (sd_contract_addr op) = None) Assert_failed
      (Inr (R(sd_contract_addr op \<mapsto>
         \<lparr>co_owner = sd_owner op, co_contract_addr = sd_contract_addr op, co_bytecode = sd_bytecode op, co_abi_json = sd_abi_json op,
          co_construct_data = sd_construct_data op, co_contract_name = sd_contract_name op, co_activated = True, co_contract_state = st\<rparr>)))))"
| "registry_step V (Activate op) R =
     (case R (sa_contract_addr op) of
        Some c \<Rightarrow> require (co_owner c = sa_activator op \<and> \<not> co_activated c) Assert_failed (Inr (R(sa_contract_addr op \<mapsto> c\<lparr>co_activated := True\<rparr>)))
      | None \<Rightarrow> Inl Assert_failed)"
| "registry_step V (Deactivate op) R =
     (case R (se_contract_addr op) of
        Some c \<Rightarrow> require (co_owner c = se_deactivator op \<and> co_activated c) Assert_failed (Inr (R(se_contract_addr op \<mapsto> c\<lparr>co_activated := False\<rparr>)))
      | None \<Rightarrow> Inl Assert_failed)"
| "registry_step V (Kill op) R =
     (case R (sk_contract_addr op) of
        Some c \<Rightarrow> require (co_owner c = sk_killer op) Assert_failed (Inr (R(sk_contract_addr op := None)))
      | None \<Rightarrow> Inl Assert_failed)"
| "registry_step V (Call op) R =
     (case R (sc_contract_addr op) of
        Some c \<Rightarrow> require (co_activated c) Assert_failed
          (rbind (call_smart_contract V (co_bytecode c) (sc_contract_addr op) (sc_call_data op) (co_abi_json c) (co_contract_state c)) (\<lambda>st.
           Inr (R(sc_contract_addr op \<mapsto> c\<lparr>co_contract_state := st\<rparr>))))
      | None \<Rightarrow> Inl Assert_failed)"

definition contract_registry :: "contract_index \<Rightarrow> registry" where
  "contract_registry ix a = map_option snd (find_contract a ix)"

definition contracts_ok :: "contract_index \<Rightarrow> bool" where
  "contracts_ok ix \<longleftrightarrow> index_ok ix \<and> clash_free same_addr (index_find ix)"

section \<open>Refinement\<close>

lemma find_mem: "List.find P xs = Some x \<Longrightarrow> x \<in> set xs \<and> P x"
  by (auto simp: find_Some_iff)

lemma find_contract_iff:
  assumes "contracts_ok ix"
  shows "find_contract a ix = Some (i, c) \<longleftrightarrow> index_find ix i = Some c \<and> co_contract_addr c = a"
proof -
  have d: "distinct (map fst (objects ix))" and cf: "clash_free same_addr (index_find ix)" using assms by (simp_all add: contracts_ok_def index_ok_def)
  have mem: "index_find ix j = Some b \<longleftrightarrow> (j, b) \<in> set (objects ix)" for j b using d by (simp add: index_find_def)
  show ?thesis
  proof
    assume "find_contract a ix = Some (i, c)"
    then show "index_find ix i = Some c \<and> co_contract_addr c = a" by (auto simp: find_contract_def mem dest: find_mem)
  next
    assume r: "index_find ix i = Some c \<and> co_contract_addr c = a"
    then obtain j b where jb: "find_contract a ix = Some (j, b)" by (cases "find_contract a ix") (auto simp: find_contract_def find_None_iff mem)
    then have "index_find ix j = Some b" "co_contract_addr b = a" by (auto simp: find_contract_def mem dest: find_mem)
    moreover have "j = i" using cf r calculation unfolding clash_free_def same_addr_def by blast
    ultimately show "find_contract a ix = Some (i, c)" using jb r by simp
  qed
qed

lemma contract_registry_iff:
  "contracts_ok ix \<Longrightarrow> contract_registry ix a = Some c \<longleftrightarrow> (\<exists>i. index_find ix i = Some c \<and> co_contract_addr c = a)"
  using find_contract_iff by (force simp: contract_registry_def)

lemma contract_registry_eqI:
  assumes "contracts_ok ix" and "\<And>a c. R a = Some c \<longleftrightarrow> (\<exists>i. index_find ix i = Some c \<and> co_contract_addr c = a)"
  shows "contract_registry ix = R"
proof
  fix a
  have "contract_registry ix a = Some c \<longleftrightarrow> R a = Some c" for c using assms(2) contract_registry_iff [OF assms(1)] by simp
  then show "contract_registry ix a = R a" by (metis not_None_eq)
qed

lemma contract_addr_unique:
  assumes "contracts_ok ix" and "index_find ix i = Some a" and "index_find ix j = Some b" and "co_contract_addr a = co_contract_addr b"
  shows "i = j"
  using assms unfolding contracts_ok_def clash_free_def same_addr_def by blast

text \<open>One object of the index changes and keeps its address: so does the registry at that address.\<close>

lemma contract_registry_update:
  assumes ok: "contracts_ok ix" "contracts_ok ix'" and f: "index_find ix' = (index_find ix)(i := x)"
    and x: "\<forall>b. x = Some b \<longrightarrow> co_contract_addr b = k" and o: "\<forall>j b. index_find ix j = Some b \<longrightarrow> (j = i \<longleftrightarrow> co_contract_addr b = k)"
  shows "contract_registry ix' = (contract_registry ix)(k := x)"
proof (rule contract_registry_eqI [OF ok(2)])
  fix a b
  show "((contract_registry ix)(k := x)) a = Some b \<longleftrightarrow> (\<exists>j. index_find ix' j = Some b \<and> co_contract_addr b = a)"
  proof (cases "a = k")
    case True
    have "(\<exists>j. ((index_find ix)(i := x)) j = Some b \<and> co_contract_addr b = k) \<longleftrightarrow> x = Some b" using x o by (metis fun_upd_apply)
    then show ?thesis using True f by simp
  next
    case False
    then have "(\<exists>j. ((index_find ix)(i := x)) j = Some b \<and> co_contract_addr b = a) \<longleftrightarrow> (\<exists>j. index_find ix j = Some b \<and> co_contract_addr b = a)"
      using x o by (metis fun_upd_apply)
    then show ?thesis using False f contract_registry_iff [OF ok(1)] by simp
  qed
qed

lemma modify_contract_refines:
  assumes ok: "contracts_ok ix" and i: "index_find ix i = Some c" and key: "co_contract_addr (m c) = co_contract_addr c"
  obtains ix' where "modify_contract i m ix = Inr ix'" "contracts_ok ix'" "contract_registry ix' = (contract_registry ix)(co_contract_addr c \<mapsto> m c)"
proof -
  have iok: "index_ok ix" and d: "distinct (map fst (objects ix))" using ok by (simp_all add: contracts_ok_def index_ok_def)
  have other: "\<forall>j b. index_find ix j = Some b \<longrightarrow> (j = i \<longleftrightarrow> co_contract_addr b = co_contract_addr c)"
    using contract_addr_unique [OF ok] i by (metis option.inject)
  then have "\<not> clashes same_addr ix i (m c)" using key by (auto simp: clashes_iff [OF d] same_addr_def)
  then obtain ix' where md: "index_modify same_addr i m ix = (ix', True)" using i by (simp add: index_modify_def)
  have f: "index_find ix' = (index_find ix)(i \<mapsto> m c)" and iok': "index_ok ix'" using gi.modify_law [OF iok md] i by auto
  have "clash_free same_addr (index_find ix')" unfolding f clash_free_def same_addr_def
    using contract_addr_unique [OF ok] i key by (metis fun_upd_apply option.inject)
  then have ok': "contracts_ok ix'" using iok' by (simp add: contracts_ok_def)
  show ?thesis using that [of ix'] md ok' contract_registry_update [OF ok ok' f _ other] key by (simp add: modify_contract_def)
qed

lemma remove_contract_refines:
  assumes ok: "contracts_ok ix" and i: "index_find ix i = Some c"
  obtains ix' where "index_remove i ix = Inr ix'" "contracts_ok ix'" "contract_registry ix' = (contract_registry ix)(co_contract_addr c := None)"
proof -
  have iok: "index_ok ix" using ok by (simp add: contracts_ok_def)
  have other: "\<forall>j b. index_find ix j = Some b \<longrightarrow> (j = i \<longleftrightarrow> co_contract_addr b = co_contract_addr c)"
    using contract_addr_unique [OF ok] i by (metis option.inject)
  obtain ix' where rm: "index_remove i ix = Inr ix'" using i by (simp add: index_remove_def)
  have f: "index_find ix' = (index_find ix)(i := None)" and iok': "index_ok ix'" using gi.remove_law [OF iok rm] by auto
  have "clash_free same_addr (index_find ix')" unfolding f clash_free_def same_addr_def
    using contract_addr_unique [OF ok] by (metis fun_upd_apply option.distinct(1))
  then have ok': "contracts_ok ix'" using iok' by (simp add: contracts_ok_def)
  show ?thesis using that [of ix'] rm ok' contract_registry_update [OF ok ok' f _ other] by simp
qed

lemma create_contract_taken:
  assumes ok: "contracts_ok ix" and "contract_registry ix (co_contract_addr c) = Some b"
  shows "index_create same_addr (\<lambda>_. Inr c) ix = Inl Assert_failed"
proof -
  obtain j where j: "index_find ix j = Some b" "co_contract_addr b = co_contract_addr c" using assms contract_registry_iff [OF ok] by blast
  moreover have "j \<noteq> next_id ix" using ok j(1) by (auto simp: contracts_ok_def index_ok_def)
  moreover have "distinct (map fst (objects ix))" using ok by (simp add: contracts_ok_def index_ok_def)
  ultimately have "clashes same_addr ix (next_id ix) c" by (auto simp: clashes_iff same_addr_def)
  then show ?thesis by (simp add: index_create_def index_insert_def)
qed

lemma create_contract_refines:
  assumes ok: "contracts_ok ix" and free: "contract_registry ix (co_contract_addr c) = None"
  obtains i ix' where "index_create same_addr (\<lambda>_. Inr c) ix = Inr (i, ix')" "contracts_ok ix'" "contract_registry ix' = (contract_registry ix)(co_contract_addr c \<mapsto> c)"
proof -
  have iok: "index_ok ix" and d: "distinct (map fst (objects ix))" using ok by (simp_all add: contracts_ok_def index_ok_def)
  have none: "index_find ix (next_id ix) = None" using iok by (cases "index_find ix (next_id ix)") (auto simp: index_ok_def)
  have nc: "index_find ix j = Some b \<Longrightarrow> co_contract_addr b \<noteq> co_contract_addr c" for j b
    using free contract_registry_iff [OF ok, of "co_contract_addr c" b] by auto
  then have "\<not> clashes same_addr ix (next_id ix) c" by (auto simp: clashes_iff [OF d] same_addr_def)
  then obtain ix' where cr: "index_create same_addr (\<lambda>_. Inr c) ix = Inr (next_id ix, ix')" using none by (simp add: index_create_def index_insert_def)
  have f: "index_find ix' = (index_find ix)(next_id ix \<mapsto> c)" and iok': "index_ok ix'" using gi.create_law [OF iok cr] by auto
  have "clash_free same_addr (index_find ix')" unfolding f clash_free_def same_addr_def
    using contract_addr_unique [OF ok] nc by (metis fun_upd_apply option.inject)
  then have ok': "contracts_ok ix'" using iok' by (simp add: contracts_ok_def)
  have other: "\<forall>j b. index_find ix j = Some b \<longrightarrow> (j = next_id ix \<longleftrightarrow> co_contract_addr b = co_contract_addr c)" using nc none by auto
  show ?thesis using that cr ok' contract_registry_update [OF ok ok' f _ other] by simp
qed

lemma find_contract_cases [consumes 1, case_names none some]:
  assumes "contracts_ok ix"
  obtains (none) "find_contract a ix = None" "contract_registry ix a = None"
  | (some) i c where "find_contract a ix = Some (i, c)" "index_find ix i = Some c" "co_contract_addr c = a" "contract_registry ix a = Some c"
  using find_contract_iff [OF assms, of a] by (cases "find_contract a ix") (auto simp: contract_registry_def)

text \<open>What each evaluator does in terms of the registry.\<close>

definition implements :: "contract_index result \<Rightarrow> registry result \<Rightarrow> bool" where
  "implements r R \<longleftrightarrow> map_sum id contract_registry r = R \<and> (\<forall>ix'. r = Inr ix' \<longrightarrow> contracts_ok ix')"

lemma implements_simps [simp]:
  "implements (Inl e) R \<longleftrightarrow> R = Inl e" "implements (Inr ix) R \<longleftrightarrow> R = Inr (contract_registry ix) \<and> contracts_ok ix"
  by (auto simp: implements_def)

lemma modify_contract_implements:
  assumes "contracts_ok ix" and "index_find ix i = Some c" and "co_contract_addr c = a" and "co_contract_addr (m c) = a"
  shows "implements (modify_contract i m ix) (Inr ((contract_registry ix)(a \<mapsto> m c)))"
  using modify_contract_refines [OF assms(1,2), of m] assms(3,4) by (metis implements_simps(2))

lemma activate_status_implements:
  assumes ok: "contracts_ok ix" and c: "contract_registry ix a = Some c"
  shows "implements (rbind (update_contract_activate_status a b ix) (\<lambda>(_, ix'). Inr ix'))
    (require (co_activated c \<noteq> b) Assert_failed (Inr ((contract_registry ix)(a \<mapsto> c\<lparr>co_activated := b\<rparr>))))"
  using ok
proof (cases rule: find_contract_cases [where a = a])
  case (some i d)
  then have "implements (modify_contract i (\<lambda>x. x\<lparr>co_activated := b\<rparr>) ix) (Inr ((contract_registry ix)(a \<mapsto> c\<lparr>co_activated := b\<rparr>)))"
    using modify_contract_implements [OF ok some(2,3), of "\<lambda>x. x\<lparr>co_activated := b\<rparr>"] c by simp
  then show ?thesis using some c by (cases "modify_contract i (\<lambda>x. x\<lparr>co_activated := b\<rparr>) ix") (auto simp: update_contract_activate_status_def require_def)
qed (use c in simp)

lemma activate_implements:
  assumes ok: "contracts_ok ix"
  shows "implements (smart_contract_activate op ix) (registry_step V (Activate op) (contract_registry ix))"
  using ok
proof (cases rule: find_contract_cases [where a = "sa_contract_addr op"])
  case (some i c)
  show ?thesis using activate_status_implements [OF ok some(4), of True] some by (auto simp: smart_contract_activate_def require_def)
qed (simp_all add: smart_contract_activate_def of_option_def)

lemma deactivate_implements:
  assumes ok: "contracts_ok ix"
  shows "implements (smart_contract_deactivate op ix) (registry_step V (Deactivate op) (contract_registry ix))"
  using ok
proof (cases rule: find_contract_cases [where a = "se_contract_addr op"])
  case (some i c)
  show ?thesis using activate_status_implements [OF ok some(4), of False] some by (auto simp: smart_contract_deactivate_def require_def)
qed (simp_all add: smart_contract_deactivate_def of_option_def)

lemma kill_implements:
  assumes ok: "contracts_ok ix"
  shows "implements (smart_contract_kill op ix) (registry_step V (Kill op) (contract_registry ix))"
  using ok
proof (cases rule: find_contract_cases [where a = "sk_contract_addr op"])
  case (some i c)
  obtain ix' where "index_remove i ix = Inr ix'" "contracts_ok ix'" "contract_registry ix' = (contract_registry ix)(sk_contract_addr op := None)"
    using remove_contract_refines [OF ok some(2)] some(3) by metis
  then show ?thesis using some by (simp add: smart_contract_kill_def require_def)
qed (simp_all add: smart_contract_kill_def of_option_def)

lemma call_implements:
  assumes ok: "contracts_ok ix"
  shows "implements (smart_contract_call V op ix) (registry_step V (Call op) (contract_registry ix))"
  using ok
proof (cases rule: find_contract_cases [where a = "sc_contract_addr op"])
  case (some i c)
  have "implements (modify_contract i (\<lambda>x. x\<lparr>co_contract_state := st\<rparr>) ix) (Inr ((contract_registry ix)(sc_contract_addr op \<mapsto> c\<lparr>co_contract_state := st\<rparr>)))" for st
    using modify_contract_implements [OF ok some(2,3), of "\<lambda>x. x\<lparr>co_contract_state := st\<rparr>"] some(3) by simp
  then show ?thesis using some by (cases "call_smart_contract V (co_bytecode c) (sc_contract_addr op) (sc_call_data op) (co_abi_json c) (co_contract_state c)")
      (simp_all add: smart_contract_call_def require_def)
qed (simp_all add: smart_contract_call_def of_option_def)

lemma deploy_implements:
  assumes ok: "contracts_ok ix"
  shows "implements (rbind (smart_contract_deploy V op ix) (\<lambda>(_, ix'). Inr ix')) (registry_step V (Deploy op) (contract_registry ix))"
proof (cases "sd_abi_json op \<noteq> [] \<and> sd_contract_addr op = sha256 V (sd_bytecode op @ sd_abi_json op @ sd_construct_data op)")
  case True
  show ?thesis
  proof (cases "construct_smart_contract V (sd_bytecode op) (sd_contract_addr op) (sd_construct_data op) (sd_abi_json op)")
    case (Inl e)
    then show ?thesis using True by (simp add: smart_contract_deploy_def require_def index_create_def)
  next
    case (Inr st)
    let ?c = "\<lparr>co_owner = sd_owner op, co_contract_addr = sd_contract_addr op, co_bytecode = sd_bytecode op, co_abi_json = sd_abi_json op,
      co_construct_data = sd_construct_data op, co_contract_name = sd_contract_name op, co_activated = True, co_contract_state = st\<rparr>"
    have run: "smart_contract_deploy V op ix = index_create same_addr (\<lambda>_. Inr ?c) ix" using True Inr by (simp add: smart_contract_deploy_def require_def)
    show ?thesis
    proof (cases "contract_registry ix (sd_contract_addr op)")
      case None
      obtain i ix' where "index_create same_addr (\<lambda>_. Inr ?c) ix = Inr (i, ix')" "contracts_ok ix'" "contract_registry ix' = (contract_registry ix)(sd_contract_addr op \<mapsto> ?c)"
        using create_contract_refines [OF ok, of ?c] None by auto
      then show ?thesis using run True Inr None by (simp add: require_def)
    next
      case (Some b)
      then show ?thesis using run True Inr create_contract_taken [OF ok, of ?c b] by (simp add: require_def)
    qed
  qed
next
  case False
  then show ?thesis by (auto simp: smart_contract_deploy_def require_def)
qed

lemma contract_operation_implements:
  "contracts_ok ix \<Longrightarrow> implements (apply_contract_operation V op ix) (registry_step V op (contract_registry ix))"
  using activate_implements deactivate_implements kill_implements call_implements deploy_implements
  by (cases op) (simp_all only: apply_contract_operation.simps)

text \<open>C3. The five contract operations on the object index implement the registry: from a well-formed index, an operation succeeds exactly when the registry's step
  does, with the same error otherwise, the index it leaves represents the registry's next state and is well-formed, and a lookup returns what the registry holds.\<close>

theorem contract_operations_refine:
  assumes "contracts_ok ix"
  shows "map_sum id contract_registry (apply_contract_operation V op ix) = registry_step V op (contract_registry ix) \<and>
    (\<forall>ix'. apply_contract_operation V op ix = Inr ix' \<longrightarrow> contracts_ok ix') \<and> lookup_contracts addrs ix = map (contract_registry ix) addrs"
proof -
  have "(case find_contract a ix of None \<Rightarrow> None | Some (i, c) \<Rightarrow> index_find ix i) = contract_registry ix a" for a
    using assms by (cases rule: find_contract_cases [where a = a]) simp_all
  then show ?thesis using contract_operation_implements [OF assms, of V op] by (simp add: implements_def lookup_contracts_def)
qed

definition sample_vm :: contract_vm where
  "sample_vm = \<lparr>sha256 = length, construct_smart_contract = (\<lambda>_ _ d _. Inr d), call_smart_contract = (\<lambda>_ _ d _ st. Inr (st @ d))\<rparr>"

definition sample_deploy :: smart_contract_deploy_operation where
  "sample_deploy = \<lparr>sd_owner = 7, sd_contract_addr = 3, sd_bytecode = ''b'', sd_abi_json = ''a'', sd_construct_data = ''d'', sd_contract_name = ''n''\<rparr>"

lemma contracts_ok_empty: "contracts_ok empty_index"
  by (simp add: contracts_ok_def index_ok_def clash_free_def empty_index_def index_find_def)

theorem contract_operations_refine_witness:
  "map_sum id contract_registry (apply_contract_operation sample_vm (Deploy sample_deploy) empty_index) = registry_step sample_vm (Deploy sample_deploy) (contract_registry empty_index) \<and>
   (\<exists>ix'. apply_contract_operation sample_vm (Deploy sample_deploy) empty_index = Inr ix' \<and> contracts_ok ix')"
proof -
  obtain ix' where "apply_contract_operation sample_vm (Deploy sample_deploy) empty_index = Inr ix'"
    by (simp add: smart_contract_deploy_def sample_deploy_def sample_vm_def index_create_def index_insert_def clashes_def empty_index_def index_find_def)
  then show ?thesis using contract_operations_refine [OF contracts_ok_empty, of sample_vm "Deploy sample_deploy" "[]"] by auto
qed

section \<open>Who may do what\<close>

definition same_code :: "contract_object \<Rightarrow> contract_object \<Rightarrow> bool" where
  "same_code c c' \<longleftrightarrow> co_owner c' = co_owner c \<and> co_contract_addr c' = co_contract_addr c \<and> co_bytecode c' = co_bytecode c \<and> co_abi_json c' = co_abi_json c \<and>
     co_construct_data c' = co_construct_data c \<and> co_contract_name c' = co_contract_name c"

fun kills :: "nat \<Rightarrow> nat \<Rightarrow> contract_operation \<Rightarrow> bool" where
  "kills who a (Kill op) \<longleftrightarrow> sk_killer op = who \<and> sk_contract_addr op = a"
| "kills who a _ \<longleftrightarrow> False"

fun switches :: "nat \<Rightarrow> nat \<Rightarrow> contract_operation \<Rightarrow> bool" where
  "switches who a (Activate op) \<longleftrightarrow> sa_activator op = who \<and> sa_contract_addr op = a"
| "switches who a (Deactivate op) \<longleftrightarrow> se_deactivator op = who \<and> se_contract_addr op = a"
| "switches who a _ \<longleftrightarrow> False"

definition genuine :: "contract_vm \<Rightarrow> registry \<Rightarrow> bool" where
  "genuine V R \<longleftrightarrow> (\<forall>a c. R a = Some c \<longrightarrow> a = sha256 V (co_bytecode c @ co_abi_json c @ co_construct_data c) \<and> co_abi_json c \<noteq> [])"

lemma registry_step_owner:
  assumes "registry_step V op R = Inr R'" and "R a = Some c" and "\<not> kills (co_owner c) a op"
  shows "\<exists>c'. R' a = Some c' \<and> same_code c c' \<and> (\<not> switches (co_owner c) a op \<longrightarrow> co_activated c' = co_activated c \<and>
    (\<not> co_activated c \<longrightarrow> co_contract_state c' = co_contract_state c))"
  using assms by (cases op) (auto simp: require_def same_code_def split: option.splits if_splits)

lemma registry_step_genuine: "registry_step V op R = Inr R' \<Longrightarrow> genuine V R \<Longrightarrow> genuine V R'"
  by (cases op) (auto simp: require_def genuine_def split: option.splits if_splits)

text \<open>One operation, applied or refused.\<close>

lemma contract_operation_step:
  assumes ok: "contracts_ok ix" and run: "(case apply_contract_operation V op ix of Inr ix' \<Rightarrow> ix' | Inl _ \<Rightarrow> ix) = iy"
  shows "contracts_ok iy \<and> (contract_registry iy = contract_registry ix \<or> registry_step V op (contract_registry ix) = Inr (contract_registry iy))"
proof -
  show ?thesis using ok run contract_operation_implements [OF ok, of V op] by (cases "apply_contract_operation V op ix") auto
qed

text \<open>C2. Whatever contract operations are run, and whatever the virtual machine does: a contract stays, with its owner and code, unless its owner kills it; it is active or
  not as it was unless its owner switches it, and the state of a contract that is not active stays as it was; every contract's address is the hash of its
  code, interface and construction data.\<close>

theorem contract_owner_controls:
  assumes "contracts_ok ix" and "genuine V (contract_registry ix)" and "run_contract_operations V ops ix = iy"
  shows "contracts_ok iy \<and> genuine V (contract_registry iy) \<and>
    (\<forall>a c. contract_registry ix a = Some c \<and> (\<forall>op\<in>set ops. \<not> kills (co_owner c) a op) \<longrightarrow>
       (\<exists>c'. contract_registry iy a = Some c' \<and> same_code c c' \<and>
         ((\<forall>op\<in>set ops. \<not> switches (co_owner c) a op) \<longrightarrow> co_activated c' = co_activated c \<and> (\<not> co_activated c \<longrightarrow> co_contract_state c' = co_contract_state c))))"
  using assms
proof (induction ops arbitrary: ix)
  case Nil
  then show ?case by (auto simp: run_contract_operations_def same_code_def)
next
  case (Cons op ops)
  define iz where "iz = (case apply_contract_operation V op ix of Inr ix' \<Rightarrow> ix' | Inl _ \<Rightarrow> ix)"
  have step: "contracts_ok iz" "contract_registry iz = contract_registry ix \<or> registry_step V op (contract_registry ix) = Inr (contract_registry iz)"
    using contract_operation_step [OF Cons.prems(1) iz_def [symmetric]] by auto
  have gen: "genuine V (contract_registry iz)" using step(2) Cons.prems(2) registry_step_genuine by metis
  have run: "run_contract_operations V ops iz = iy" using Cons.prems(3) by (simp add: run_contract_operations_def iz_def)
  note IH = Cons.IH [OF step(1) gen run]
  have "\<exists>c'. contract_registry iy a = Some c' \<and> same_code c c' \<and>
         ((\<forall>p\<in>set (op # ops). \<not> switches (co_owner c) a p) \<longrightarrow> co_activated c' = co_activated c \<and> (\<not> co_activated c \<longrightarrow> co_contract_state c' = co_contract_state c))"
    if c: "contract_registry ix a = Some c" "\<forall>p\<in>set (op # ops). \<not> kills (co_owner c) a p" for a c
  proof -
    have "\<exists>d. contract_registry iz a = Some d \<and> same_code c d \<and> (\<not> switches (co_owner c) a op \<longrightarrow> co_activated d = co_activated c \<and>
      (\<not> co_activated c \<longrightarrow> co_contract_state d = co_contract_state c))"
      using step(2) registry_step_owner [of V op "contract_registry ix" "contract_registry iz" a c] c by (auto simp: same_code_def)
    then obtain d where d: "contract_registry iz a = Some d" "same_code c d" and sw: "\<not> switches (co_owner c) a op \<longrightarrow> co_activated d = co_activated c \<and>
      (\<not> co_activated c \<longrightarrow> co_contract_state d = co_contract_state c)" by blast
    have o: "co_owner d = co_owner c" using d(2) by (simp add: same_code_def)
    then obtain c' where "contract_registry iy a = Some c'" "same_code d c'"
      "(\<forall>p\<in>set ops. \<not> switches (co_owner c) a p) \<longrightarrow> co_activated c' = co_activated d \<and> (\<not> co_activated d \<longrightarrow> co_contract_state c' = co_contract_state d)"
      using IH d(1) c(2) by fastforce
    then show ?thesis using d(2) sw by (intro exI [of _ c']) (auto simp: same_code_def)
  qed
  then show ?case using IH by blast
qed

definition sample_contract :: contract_object where
  "sample_contract = \<lparr>co_owner = 7, co_contract_addr = 3, co_bytecode = ''b'', co_abi_json = ''a'', co_construct_data = ''d'', co_contract_name = ''n'',
     co_activated = False, co_contract_state = ''s''\<rparr>"

definition sample_contracts :: contract_index where
  "sample_contracts = \<lparr>next_id = 5, objects = [(4, sample_contract)]\<rparr>"

definition sample_contract_operations :: "contract_operation list" where
  "sample_contract_operations = [Kill \<lparr>sk_killer = 8, sk_contract_addr = 3\<rparr>, Call \<lparr>sc_caller = 8, sc_contract_addr = 3, sc_call_data = ''x''\<rparr>, Deploy sample_deploy]"

theorem contract_owner_controls_witness:
  "\<exists>c'. contract_registry (run_contract_operations sample_vm sample_contract_operations sample_contracts) 3 = Some c' \<and> same_code sample_contract c' \<and>
     \<not> co_activated c' \<and> co_contract_state c' = ''s''"
proof -
  have ok: "contracts_ok sample_contracts" by (auto simp: contracts_ok_def index_ok_def clash_free_def sample_contracts_def index_find_def)
  have reg: "contract_registry sample_contracts 3 = Some sample_contract"
    by (simp add: contract_registry_def find_contract_def sample_contracts_def sample_contract_def)
  have gen: "genuine sample_vm (contract_registry sample_contracts)"
    by (auto simp: genuine_def contract_registry_def find_contract_def sample_contracts_def sample_contract_def sample_vm_def split: if_splits)
  have "\<forall>op\<in>set sample_contract_operations. \<not> kills (co_owner sample_contract) 3 op" "\<forall>op\<in>set sample_contract_operations. \<not> switches (co_owner sample_contract) 3 op"
    "\<not> co_activated sample_contract" "co_contract_state sample_contract = ''s''"
    by (simp_all add: sample_contract_operations_def sample_contract_def)
  moreover from this reg contract_owner_controls [OF ok gen refl, of sample_contract_operations]
  obtain c' where "contract_registry (run_contract_operations sample_vm sample_contract_operations sample_contracts) 3 = Some c'" "same_code sample_contract c'"
    "co_activated c' = co_activated sample_contract" "\<not> co_activated sample_contract \<longrightarrow> co_contract_state c' = co_contract_state sample_contract" by blast
  ultimately show ?thesis by auto
qed

end
