(* ===== verification/Voting.thy ===== *)
theory Voting
  imports Authority
begin

text \<open>
  Elections: vote ids (\<^verbatim>\<open>protocol/vote.hpp\<close>), the counter that turns votes into an authority (\<^verbatim>\<open>vote_count.hpp\<close>) and the choice of
  the active witnesses and committee members at maintenance (\<^verbatim>\<open>sort_votable_objects\<close>, \<^verbatim>\<open>update_active_witnesses\<close>,
  \<^verbatim>\<open>update_active_committee_members\<close> of \<^verbatim>\<open>db_maint.cpp\<close>).

  The tally and the histograms are arguments: they are what \<^verbatim>\<open>perform_account_maintenance\<close> leaves in the buffers of the database.
\<close>

section \<open>Model\<close>

text \<open>A vote id is 32 bits: the type in the lower 8, the instance in the others.\<close>

definition vote_id :: "32 word \<Rightarrow> 32 word \<Rightarrow> 32 word" where
  "vote_id ty inst = or (push_bit 8 inst) ty"

definition vote_type_of :: "32 word \<Rightarrow> 32 word" where
  "vote_type_of content = and content 0xff"

definition vote_instance :: "32 word \<Rightarrow> 32 word" where
  "vote_instance content = drop_bit 8 content"

definition get_next_vote_id :: "32 word \<Rightarrow> 32 word \<Rightarrow> 32 word \<times> 32 word" where
  "get_next_vote_id ty next_available = (vote_id ty next_available, next_available + 1)"

text \<open>\<^verbatim>\<open>boost::multiprecision::detail::find_msb\<close>, the index of the highest bit set, is the argument \<open>find_msb\<close>; it says nothing of 0.\<close>

type_synonym msb = "64 word \<Rightarrow> nat"

definition find_msb_ok :: "msb \<Rightarrow> bool" where
  "find_msb_ok find_msb \<longleftrightarrow> (\<forall>v. v \<noteq> 0 \<longrightarrow> 2 ^ find_msb v \<le> unat v \<and> unat v < 2 ^ (find_msb v + 1))"

text \<open>The assertions of the source are checks here. \<open>vc_bitshift\<close> is \<open>None\<close> for \<^verbatim>\<open>-1\<close>.\<close>

record vote_counter =
  vc_last_votes :: "64 word"
  vc_total_votes :: "64 word"
  vc_bitshift :: "nat option"
  vc_auth :: "(nat \<times> 16 word) list"

definition initial_vote_counter :: vote_counter where
  "initial_vote_counter = \<lparr>vc_last_votes = - 1, vc_total_votes = 0, vc_bitshift = None, vc_auth = []\<rparr>"

definition vc_add :: "msb \<Rightarrow> nat \<Rightarrow> 64 word \<Rightarrow> vote_counter \<Rightarrow> vote_counter result" where
  "vc_add find_msb who votes vc =
     (if votes = 0 then Inr vc
      else require (votes \<le> vc_last_votes vc) Assert_failed
        (let bitshift = (case vc_bitshift vc of None \<Rightarrow> find_msb votes - 15 | Some b \<Rightarrow> b);
             scaled_votes = max (drop_bit bitshift votes) 1; tot = vc_total_votes vc + scaled_votes
         in require (scaled_votes \<le> 0xffff) Assert_failed
            (require (tot \<le> 0xffffffff) Assert_failed
             (Inr \<lparr>vc_last_votes = votes, vc_total_votes = tot, vc_bitshift = Some bitshift,
                   vc_auth = sort_key fst (AList.update who (ucast scaled_votes) (vc_auth vc))\<rparr>))))"

definition vc_finish :: "vote_counter \<Rightarrow> authority \<Rightarrow> authority" where
  "vc_finish vc out_auth =
     (if vc_total_votes vc = 0 then out_auth
      else \<lparr>weight_threshold = drop_bit 1 (ucast (vc_total_votes vc)) + 1, account_auths = vc_auth vc, key_auths = [], address_auths = []\<rparr>)"

fun vc_add_all :: "msb \<Rightarrow> (nat \<times> 64 word) list \<Rightarrow> vote_counter \<Rightarrow> vote_counter result" where
  "vc_add_all find_msb [] vc = Inr vc"
| "vc_add_all find_msb ((who, votes) # xs) vc = rbind (vc_add find_msb who votes vc) (vc_add_all find_msb xs)"

text \<open>Witnesses and committee members as the elections see them.\<close>

record votable =
  vo_id :: nat
  vo_account :: nat
  vo_vote_id :: "32 word"
  vo_total_votes :: "64 word"

text \<open>A vote id used as a number is its instance; it indexes the tally.\<close>

definition vote_index :: "votable \<Rightarrow> nat" where
  "vote_index x = unat (vote_instance (vo_vote_id x))"

definition tally_of :: "64 word list \<Rightarrow> votable \<Rightarrow> 64 word" where
  "tally_of tally x = tally ! vote_index x"

text \<open>The order of the candidates compares the votes as signed \<^verbatim>\<open>share_type\<close>.\<close>

definition preferred :: "64 word list \<Rightarrow> votable \<Rightarrow> votable \<Rightarrow> bool" where
  "preferred tally a b \<longleftrightarrow>
     (if sint (tally_of tally a) \<noteq> sint (tally_of tally b) then sint (tally_of tally a) > sint (tally_of tally b) else vote_index a < vote_index b)"

text \<open>Access to the tally is unchecked in the source, and the first of no objects is looked at; both are errors here.\<close>

definition sort_votable_objects :: "64 word list \<Rightarrow> nat \<Rightarrow> votable list \<Rightarrow> votable list result" where
  "sort_votable_objects tally n all_objects =
     require (all_objects \<noteq> [] \<and> (\<forall>x \<in> set all_objects. vote_index x < length tally)) Bad_iterator
     (Inr (take (min n (length all_objects)) (sorted_by (preferred tally) all_objects)))"

text \<open>Counting up the histogram until more than half of the stake is reached, with checked amounts for witnesses and in 64 bits for the committee.\<close>

fun witness_stake_loop :: "fc_lib \<Rightarrow> int \<Rightarrow> 64 word list \<Rightarrow> int \<Rightarrow> nat \<Rightarrow> nat result" where
  "witness_stake_loop F stake_target [] stake_tally n = Inr n"
| "witness_stake_loop F stake_target (h # hs) stake_tally n =
     (if stake_tally \<le> stake_target
      then rbind (of_option Overflow (safe_add F stake_tally (sint h))) (\<lambda>t. witness_stake_loop F stake_target hs t (n + 1))
      else Inr n)"

fun committee_stake_loop :: "int \<Rightarrow> 64 word list \<Rightarrow> 64 word \<Rightarrow> nat \<Rightarrow> nat" where
  "committee_stake_loop stake_target [] stake_tally n = n"
| "committee_stake_loop stake_target (h # hs) stake_tally n =
     (if sint stake_tally \<le> stake_target then committee_stake_loop stake_target hs (stake_tally + h) (n + 1) else n)"

definition stake_target_of :: "64 word \<Rightarrow> 64 word list \<Rightarrow> int" where
  "stake_target_of total_voting_stake histogram = sint ((total_voting_stake - hd histogram) div 2)"

definition active_witness_count :: "fc_lib \<Rightarrow> nat \<Rightarrow> 64 word \<Rightarrow> 64 word list \<Rightarrow> nat result" where
  "active_witness_count F min_witness_count total_voting_stake histogram =
     require (histogram \<noteq> []) Assert_failed
     (let stake_target = stake_target_of total_voting_stake histogram
      in rbind (if stake_target > 0 then witness_stake_loop F stake_target (tl histogram) 0 0 else Inr 0) (\<lambda>n.
         Inr (max (n * 2 + 1) min_witness_count)))"

definition active_committee_count :: "nat \<Rightarrow> 64 word \<Rightarrow> 64 word list \<Rightarrow> nat result" where
  "active_committee_count min_committee_count total_voting_stake histogram =
     require (histogram \<noteq> []) Assert_failed
     (let stake_target = stake_target_of total_voting_stake histogram
      in Inr (max ((if stake_target > 0 then committee_stake_loop stake_target (tl histogram) 0 0 else 0) * 2 + 1) min_committee_count))"

text \<open>The authority before hardfork 533: a map in which the first entry of an account counts, weights cut to 16 bits.\<close>

definition HARDFORK_533_TIME :: time where "HARDFORK_533_TIME = 1456250400"

fun first_weights :: "(nat \<times> 64 word) list \<Rightarrow> (nat \<times> 64 word) list \<Rightarrow> (nat \<times> 64 word) list" where
  "first_weights [] m = m"
| "first_weights ((a, v) # xs) m = first_weights xs (if map_of m a = None then m @ [(a, v)] else m)"

definition authority_before_533 :: "msb \<Rightarrow> (nat \<times> 64 word) list \<Rightarrow> authority \<Rightarrow> authority result" where
  "authority_before_533 find_msb xs old =
     (let total_votes = sum_list (map snd xs)
      in require (total_votes \<noteq> 0) Bad_iterator
        (let bits_to_drop = find_msb total_votes - 15;
             votes = map (\<lambda>(a, v). (a, ucast (max (drop_bit bits_to_drop v) 1) :: 16 word)) (sort_key fst (first_weights xs []))
         in Inr (old\<lparr>weight_threshold := sum_list (map (\<lambda>x. ucast (snd x)) votes) div 2 + 1, account_auths := votes, key_auths := []\<rparr>)))"

definition elected_authority :: "msb \<Rightarrow> time \<Rightarrow> (nat \<times> 64 word) list \<Rightarrow> authority \<Rightarrow> authority result" where
  "elected_authority find_msb now xs old =
     (if now < HARDFORK_533_TIME then authority_before_533 find_msb xs old
      else rbind (vc_add_all find_msb xs initial_vote_counter) (\<lambda>vc. Inr (vc_finish vc old)))"

text \<open>The votes are recorded in the elected objects, or in all of them when standby votes are tracked.\<close>

definition update_total_votes :: "bool \<Rightarrow> 64 word list \<Rightarrow> votable list \<Rightarrow> votable list \<Rightarrow> votable list" where
  "update_total_votes track_standby_votes tally refs all_objects =
     map (\<lambda>x. if track_standby_votes \<or> vo_id x \<in> vo_id ` set refs then x\<lparr>vo_total_votes := tally_of tally x\<rparr> else x) all_objects"

text \<open>What an election reads, and what it writes: the candidates of the index, the active set (sorted by id) and the active authority of the account
  that the elected control.\<close>

record ballot =
  bl_now :: time
  bl_track_standby_votes :: bool
  bl_vote_tally :: "64 word list"
  bl_count_histogram :: "64 word list"
  bl_total_voting_stake :: "64 word"
  bl_min_count :: nat

record body =
  bd_objects :: "votable list"
  bd_active :: "nat list"
  bd_authority :: authority

definition elect :: "msb \<Rightarrow> ballot \<Rightarrow> nat \<Rightarrow> body \<Rightarrow> body result" where
  "elect find_msb B n bd =
     rbind (sort_votable_objects (bl_vote_tally B) n (bd_objects bd)) (\<lambda>refs.
     rbind (elected_authority find_msb (bl_now B) (map (\<lambda>x. (vo_account x, tally_of (bl_vote_tally B) x)) refs) (bd_authority bd)) (\<lambda>auth.
     Inr \<lparr>bd_objects = update_total_votes (bl_track_standby_votes B) (bl_vote_tally B) refs (bd_objects bd),
          bd_active = fold flat_insert (map vo_id refs) [], bd_authority = auth\<rparr>))"

definition update_active_witnesses :: "fc_lib \<Rightarrow> msb \<Rightarrow> ballot \<Rightarrow> body \<Rightarrow> body result" where
  "update_active_witnesses F find_msb B bd =
     rbind (active_witness_count F (bl_min_count B) (bl_total_voting_stake B) (bl_count_histogram B)) (\<lambda>n. elect find_msb B n bd)"

text \<open>For the committee the new authority is copied to the relaxed committee account.\<close>

definition update_active_committee_members :: "msb \<Rightarrow> ballot \<Rightarrow> body \<Rightarrow> (body \<times> authority) result" where
  "update_active_committee_members find_msb B bd =
     rbind (active_committee_count (bl_min_count B) (bl_total_voting_stake B) (bl_count_histogram B)) (\<lambda>n.
     rbind (elect find_msb B n bd) (\<lambda>bd'. Inr (bd', bd_authority bd')))"

section \<open>Vote ids\<close>

lemma vote_id_fields:
  assumes "ty < 2 ^ 8" and "inst < 2 ^ 24"
  shows "vote_type_of (vote_id ty inst) = ty \<and> vote_instance (vote_id ty inst) = inst"
proof -
  have ty: "take_bit 8 ty = ty" and inst: "take_bit 24 inst = inst" using assms by (simp_all add: word_uint_eq_iff unsigned_take_bit_eq take_bit_int_eq_self word_less_def)
  have t: "bit ty n \<Longrightarrow> n < 8" for n using ty by (metis bit_take_bit_iff)
  have i: "bit inst n \<Longrightarrow> n < 24" for n using inst by (metis bit_take_bit_iff)
  have "vote_type_of (vote_id ty inst) = take_bit 8 (vote_id ty inst)" by (simp add: vote_type_of_def take_bit_eq_mask mask_eq_exp_minus_1)
  also have "\<dots> = ty" by (rule bit_word_eqI) (auto simp: vote_id_def bit_simps dest: t)
  finally have "vote_type_of (vote_id ty inst) = ty" .
  moreover have "vote_instance (vote_id ty inst) = inst" unfolding vote_instance_def vote_id_def
    by (rule bit_word_eqI) (auto simp: bit_simps dest: t i)
  ultimately show ?thesis by blast
qed

section \<open>The vote counter\<close>

definition scaled :: "nat \<Rightarrow> 64 word \<Rightarrow> nat" where
  "scaled k v = max (unat v div 2 ^ k) 1"

definition weight_sum :: "(nat \<times> 16 word) list \<Rightarrow> nat" where
  "weight_sum xs = (\<Sum>x\<leftarrow>xs. unat (snd x))"

definition vc_ok :: "vote_counter \<Rightarrow> bool" where
  "vc_ok vc \<longleftrightarrow> unat (vc_total_votes vc) = weight_sum (vc_auth vc) \<and> distinct (map fst (vc_auth vc)) \<and> (\<forall>x\<in>set (vc_auth vc). snd x \<noteq> 0) \<and>
     (\<forall>k. vc_bitshift vc = Some k \<longrightarrow> unat (vc_last_votes vc) div 2 ^ k \<le> 65535)"

lemma weight_sum_mset: "mset xs = mset ys \<Longrightarrow> weight_sum xs = weight_sum ys"
  by (metis weight_sum_def mset_map sum_mset_sum_list)

lemma weight_sum_bound: "weight_sum xs \<le> 65535 * length xs"
proof (induction xs)
  case (Cons x xs)
  have "unat (snd x) < 2 ^ 16" using unsigned_less [of "snd x"] by simp
  then show ?case using Cons by (simp add: weight_sum_def)
qed (simp add: weight_sum_def)

lemma weight_sum_positive: "x \<in> set xs \<Longrightarrow> snd x \<noteq> 0 \<Longrightarrow> 0 < weight_sum xs"
  unfolding weight_sum_def by (induction xs) (auto simp: unat_gt_0)

lemma alist_update_new: "who \<notin> fst ` set m \<Longrightarrow> AList.update who w m = m @ [(who, w)]"
  by (induction m) (auto simp: image_iff)

lemma msb_scale:
  assumes "find_msb_ok find_msb" and "v \<noteq> 0"
  shows "unat v div 2 ^ (find_msb v - 15) \<le> 65535"
proof -
  have "find_msb v + 1 \<le> (find_msb v - 15) + 16" by simp
  then have "(2 :: nat) ^ (find_msb v + 1) \<le> 2 ^ ((find_msb v - 15) + 16)" by (rule power_increasing) simp
  moreover have "unat v < 2 ^ (find_msb v + 1)" using assms unfolding find_msb_ok_def by blast
  ultimately have "unat v < 2 ^ (find_msb v - 15) * 65536" by (simp add: power_add)
  then have "unat v div 2 ^ (find_msb v - 15) < 65536" by (simp add: less_mult_imp_div_less mult.commute)
  then show ?thesis by simp
qed

lemma unat_drop: "unat (drop_bit k (v :: 'a::len word)) = unat v div 2 ^ k"
  by (simp add: unat_drop_bit_eq flip: drop_bit_eq_div)

lemma vc_add_step:
  assumes M: "find_msb_ok find_msb" and ok: "vc_ok vc" and le: "votes \<le> vc_last_votes vc" and nz: "votes \<noteq> 0"
    and new: "who \<notin> fst ` set (vc_auth vc)" and len: "length (vc_auth vc) < 65536"
  obtains vc' k where "vc_add find_msb who votes vc = Inr vc'" "vc_ok vc'" "vc_last_votes vc' = votes" "vc_bitshift vc' = Some k"
    "mset (vc_auth vc') = add_mset (who, of_nat (scaled k votes)) (mset (vc_auth vc))" "\<And>j. vc_bitshift vc = Some j \<Longrightarrow> j = k"
    "scaled k votes \<le> 65535"
proof -
  define k where "k = (case vc_bitshift vc of None \<Rightarrow> find_msb votes - 15 | Some b \<Rightarrow> b)"
  define s where "s = max (drop_bit k votes) 1"
  define w :: "16 word" where "w = ucast s"
  have top: "unat votes div 2 ^ k \<le> 65535"
  proof (cases "vc_bitshift vc")
    case None
    then show ?thesis using msb_scale [OF M nz] by (simp add: k_def)
  next
    case (Some b)
    then have "unat (vc_last_votes vc) div 2 ^ k \<le> 65535" using ok by (simp add: vc_ok_def k_def)
    moreover have "unat votes div 2 ^ k \<le> unat (vc_last_votes vc) div 2 ^ k" using le by (simp add: div_le_mono word_le_nat_alt)
    ultimately show ?thesis by simp
  qed
  have us: "unat s = scaled k votes" by (auto simp: s_def scaled_def unat_drop max_def word_le_nat_alt)
  have s_le: "unat s \<le> 65535" using top us by (simp add: scaled_def)
  have s1: "1 \<le> unat s" using us by (simp add: scaled_def)
  have uw: "unat w = unat s" using s_le by (simp add: w_def unsigned_ucast_eq unsigned_take_bit_eq take_bit_nat_eq_self)
  have w_eq: "w = of_nat (scaled k votes)" by (metis us uw of_nat_unat ucast_id)
  have tot: "unat (vc_total_votes vc) = weight_sum (vc_auth vc)" using ok by (simp add: vc_ok_def)
  have b: "weight_sum (vc_auth vc) \<le> 65535 * 65535" using weight_sum_bound [of "vc_auth vc"] len by (simp add: order_trans)
  have sum: "unat (vc_total_votes vc + s) = weight_sum (vc_auth vc) + unat s"
    using b s_le tot by (subst unat_add_lem [THEN iffD1]) simp_all
  define vc' where "vc' = \<lparr>vc_last_votes = votes, vc_total_votes = vc_total_votes vc + s, vc_bitshift = Some k,
                   vc_auth = sort_key fst (AList.update who w (vc_auth vc))\<rparr>"
  have run: "vc_add find_msb who votes vc = Inr vc'"
    using nz le s_le sum b unfolding vc_add_def Let_def k_def [symmetric] s_def [symmetric] w_def [symmetric] vc'_def
    by (simp add: word_le_nat_alt)
  have ms: "mset (vc_auth vc') = add_mset (who, w) (mset (vc_auth vc))" using new by (simp add: vc'_def alist_update_new)
  have "vc_ok vc'"
  proof -
    have "weight_sum (vc_auth vc') = weight_sum (vc_auth vc) + unat w" using weight_sum_mset [of "vc_auth vc'" "(who, w) # vc_auth vc"] ms
      by (simp add: weight_sum_def)
    moreover have st: "set (vc_auth vc') = insert (who, w) (set (vc_auth vc))" using ms by (metis set_mset_add_mset_insert set_mset_mset)
    moreover have "mset (map fst (vc_auth vc')) = mset (who # map fst (vc_auth vc))" using ms by simp
    then have "distinct (map fst (vc_auth vc'))" using new ok unfolding vc_ok_def
      by (metis distinct.simps(2) list.set_map mset_eq_imp_distinct_iff)
    moreover have "w \<noteq> 0" using uw s1 by auto
    ultimately show ?thesis using ok sum uw top by (auto simp: vc_ok_def vc'_def)
  qed
  moreover have "vc_last_votes vc' = votes" "vc_bitshift vc' = Some k" by (simp_all add: vc'_def)
  moreover have "\<And>j. vc_bitshift vc = Some j \<Longrightarrow> j = k" by (simp add: k_def)
  ultimately show ?thesis using that run ms w_eq s_le us by simp
qed

lemma vc_add_all_runs:
  assumes M: "find_msb_ok find_msb"
  shows "vc_ok vc \<Longrightarrow> sorted_wrt (\<lambda>a b. snd b \<le> snd a) xs \<Longrightarrow> \<forall>x\<in>set xs. snd x \<le> vc_last_votes vc \<Longrightarrow> distinct (map fst xs) \<Longrightarrow>
    fst ` set xs \<inter> fst ` set (vc_auth vc) = {} \<Longrightarrow> length (vc_auth vc) + length xs \<le> 65536 \<Longrightarrow>
    \<exists>vc' k. vc_add_all find_msb xs vc = Inr vc' \<and> vc_ok vc' \<and> (\<forall>j. vc_bitshift vc = Some j \<longrightarrow> j = k) \<and> length (vc_auth vc') \<le> length (vc_auth vc) + length xs \<and>
      (\<forall>x\<in>set xs. snd x \<noteq> 0 \<longrightarrow> scaled k (snd x) \<le> 65535) \<and> set (vc_auth vc') = set (vc_auth vc) \<union> {(p, of_nat (scaled k v)) | p v. (p, v) \<in> set xs \<and> v \<noteq> 0}"
proof (induction xs arbitrary: vc)
  case Nil
  then show ?case by (cases "vc_bitshift vc") auto
next
  case (Cons x xs)
  obtain who votes where x: "x = (who, votes)" by (cases x)
  show ?case
  proof (cases "votes = 0")
    case True
    then have z: "\<forall>y\<in>set xs. snd y = 0" using Cons.prems(2) x by auto
    have "\<exists>vc' k. vc_add_all find_msb xs vc = Inr vc' \<and> vc_ok vc' \<and> (\<forall>j. vc_bitshift vc = Some j \<longrightarrow> j = k) \<and> length (vc_auth vc') \<le> length (vc_auth vc) + length xs \<and>
      (\<forall>x\<in>set xs. snd x \<noteq> 0 \<longrightarrow> scaled k (snd x) \<le> 65535) \<and> set (vc_auth vc') = set (vc_auth vc) \<union> {(p, of_nat (scaled k v)) | p v. (p, v) \<in> set xs \<and> v \<noteq> 0}"
      by (rule Cons.IH) (use Cons.prems in auto)
    then obtain vc' k where "vc_add_all find_msb xs vc = Inr vc'" "vc_ok vc'" "\<forall>j. vc_bitshift vc = Some j \<longrightarrow> j = k"
      "length (vc_auth vc') \<le> length (vc_auth vc) + length xs" "\<forall>x\<in>set xs. snd x \<noteq> 0 \<longrightarrow> scaled k (snd x) \<le> 65535"
      "set (vc_auth vc') = set (vc_auth vc) \<union> {(p, of_nat (scaled k v)) | p v. (p, v) \<in> set xs \<and> v \<noteq> 0}" by blast
    then show ?thesis using True x by (intro exI [of _ vc'] exI [of _ k]) (auto simp: vc_add_def)
  next
    case False
    have le: "votes \<le> vc_last_votes vc" and new: "who \<notin> fst ` set (vc_auth vc)" and len: "length (vc_auth vc) < 65536" using Cons.prems x by auto
    obtain vc1 k where step: "vc_add find_msb who votes vc = Inr vc1" "vc_ok vc1" "vc_last_votes vc1 = votes" "vc_bitshift vc1 = Some k"
      and sc: "scaled k votes \<le> 65535" and ms: "mset (vc_auth vc1) = add_mset (who, of_nat (scaled k votes)) (mset (vc_auth vc))" and kk: "\<And>j. vc_bitshift vc = Some j \<Longrightarrow> j = k"
      using vc_add_step [OF M Cons.prems(1) le False new len] by blast
    have st: "set (vc_auth vc1) = insert (who, of_nat (scaled k votes)) (set (vc_auth vc))" using ms by (metis set_mset_add_mset_insert set_mset_mset)
    have ln: "length (vc_auth vc1) = Suc (length (vc_auth vc))" using ms by (metis size_mset size_add_mset)
    have "\<exists>vc' k'. vc_add_all find_msb xs vc1 = Inr vc' \<and> vc_ok vc' \<and> (\<forall>j. vc_bitshift vc1 = Some j \<longrightarrow> j = k') \<and> length (vc_auth vc') \<le> length (vc_auth vc1) + length xs \<and>
      (\<forall>x\<in>set xs. snd x \<noteq> 0 \<longrightarrow> scaled k' (snd x) \<le> 65535) \<and> set (vc_auth vc') = set (vc_auth vc1) \<union> {(p, of_nat (scaled k' v)) | p v. (p, v) \<in> set xs \<and> v \<noteq> 0}"
      by (rule Cons.IH) (use Cons.prems step st ln x in auto)
    then obtain vc' where "vc_add_all find_msb xs vc1 = Inr vc'" "vc_ok vc'" "length (vc_auth vc') \<le> length (vc_auth vc1) + length xs" "\<forall>x\<in>set xs. snd x \<noteq> 0 \<longrightarrow> scaled k (snd x) \<le> 65535"
      "set (vc_auth vc') = set (vc_auth vc1) \<union> {(p, of_nat (scaled k v)) | p v. (p, v) \<in> set xs \<and> v \<noteq> 0}" using step(4) by auto
    then show ?thesis using False x step(1) st ln kk sc by (intro exI [of _ vc'] exI [of _ k]) auto
  qed
qed

lemma initial_vote_counter_ok: "vc_ok initial_vote_counter"
  by (simp add: vc_ok_def initial_vote_counter_def weight_sum_def)

lemma auth_weights:
  "length xs \<le> 65536 \<Longrightarrow> unat (\<Sum>x\<leftarrow>xs. ucast (snd x :: 16 word) :: 64 word) = weight_sum xs"
proof (induction xs)
  case (Cons x xs)
  have b: "weight_sum xs \<le> 65535 * 65536" using weight_sum_bound [of xs] Cons.prems by simp
  have u: "unat (ucast (snd x) :: 64 word) = unat (snd x)" by (simp add: unsigned_ucast_eq unsigned_take_bit_eq take_bit_nat_eq_self unsigned_less [THEN less_trans])
  have "unat (snd x) < 65536" using unsigned_less [of "snd x"] by simp
  then have "unat ((ucast (snd x) :: 64 word) + (\<Sum>x\<leftarrow>xs. ucast (snd x))) = unat (snd x) + weight_sum xs"
    using b Cons u by (subst unat_add_lem [THEN iffD1]) simp_all
  then show ?case by (simp add: weight_sum_def)
qed (simp add: weight_sum_def)

text \<open>The weight of a vote grows with the votes.\<close>

lemma scaled_mono: "v \<le> u \<Longrightarrow> scaled k v \<le> scaled k u"
  by (auto simp: scaled_def word_le_nat_alt intro: le_max_iff_disj [THEN iffD2] div_le_mono max.coboundedI1)

text \<open>What the counter makes of votes in descending order: the weights, and the threshold of a strict majority.\<close>

lemma vote_counter_result:
  assumes M: "find_msb_ok find_msb" and ord: "sorted_wrt (\<lambda>a b. snd b \<le> snd a) xs" and dist: "distinct (map fst xs)"
    and len: "length xs \<le> 65536" and ex: "\<exists>x\<in>set xs. snd x \<noteq> 0"
  obtains vc k where "vc_add_all find_msb xs initial_vote_counter = Inr vc" "vc_ok vc" "\<forall>x\<in>set xs. snd x \<noteq> 0 \<longrightarrow> scaled k (snd x) \<le> 65535"
    "set (vc_auth vc) = {(p, of_nat (scaled k v)) | p v. (p, v) \<in> set xs \<and> v \<noteq> 0}" "length (vc_auth vc) \<le> 65536"
    "account_auths (vc_finish vc old) = vc_auth vc" "key_auths (vc_finish vc old) = []" "address_auths (vc_finish vc old) = []"
    "unat (weight_threshold (vc_finish vc old)) = weight_sum (vc_auth vc) div 2 + 1" "0 < weight_sum (vc_auth vc)"
proof -
  have "\<exists>vc' k. vc_add_all find_msb xs initial_vote_counter = Inr vc' \<and> vc_ok vc' \<and> (\<forall>j. vc_bitshift initial_vote_counter = Some j \<longrightarrow> j = k) \<and>
      length (vc_auth vc') \<le> length (vc_auth initial_vote_counter) + length xs \<and> (\<forall>x\<in>set xs. snd x \<noteq> 0 \<longrightarrow> scaled k (snd x) \<le> 65535) \<and>
      set (vc_auth vc') = set (vc_auth initial_vote_counter) \<union> {(p, of_nat (scaled k v)) | p v. (p, v) \<in> set xs \<and> v \<noteq> 0}"
    by (rule vc_add_all_runs [OF M initial_vote_counter_ok ord _ dist]) (use len in \<open>auto simp: initial_vote_counter_def\<close>)
  then obtain vc k where run: "vc_add_all find_msb xs initial_vote_counter = Inr vc" and ok: "vc_ok vc"
    and sc: "\<forall>x\<in>set xs. snd x \<noteq> 0 \<longrightarrow> scaled k (snd x) \<le> 65535" and ln: "length (vc_auth vc) \<le> 65536"
    and st: "set (vc_auth vc) = {(p, of_nat (scaled k v)) | p v. (p, v) \<in> set xs \<and> v \<noteq> 0}"
    using len by (auto simp: initial_vote_counter_def)
  have tot: "unat (vc_total_votes vc) = weight_sum (vc_auth vc)" using ok by (simp add: vc_ok_def)
  obtain y where y: "y \<in> set (vc_auth vc)" using ex st by fastforce
  then have pos: "0 < weight_sum (vc_auth vc)" using ok weight_sum_positive unfolding vc_ok_def by blast
  then have nz: "vc_total_votes vc \<noteq> 0" using tot by auto
  have b: "weight_sum (vc_auth vc) \<le> 65535 * 65536" using weight_sum_bound [of "vc_auth vc"] ln by simp
  have "unat (ucast (vc_total_votes vc) :: 32 word) = weight_sum (vc_auth vc)"
    using tot b by (simp add: unsigned_ucast_eq unsigned_take_bit_eq take_bit_nat_eq_self)
  then have "unat (drop_bit 1 (ucast (vc_total_votes vc) :: 32 word)) = weight_sum (vc_auth vc) div 2" by (simp only: unat_drop power_one_right)
  then have "unat (drop_bit 1 (ucast (vc_total_votes vc) :: 32 word) + 1) = weight_sum (vc_auth vc) div 2 + 1"
    using b by (subst unat_add_lem [THEN iffD1]) (simp_all del: drop_bit_eq_div)
  then have "unat (weight_threshold (vc_finish vc old)) = weight_sum (vc_auth vc) div 2 + 1" using nz by (simp add: vc_finish_def)
  then show ?thesis using that run ok sc st ln pos nz by (simp add: vc_finish_def)
qed

text \<open>A concrete \<open>find_msb\<close>.\<close>

fun msb_of :: "nat \<Rightarrow> nat" where
  "msb_of n = (if n < 2 then 0 else Suc (msb_of (n div 2)))"

declare msb_of.simps [simp del]

definition reference_msb :: msb where
  "reference_msb v = msb_of (unat v)"

lemma reference_msb_ok: "find_msb_ok reference_msb"
proof -
  have "0 < n \<Longrightarrow> 2 ^ msb_of n \<le> n \<and> n < 2 ^ (msb_of n + 1)" for n
  proof (induction n rule: msb_of.induct)
    case (1 n)
    show ?case
    proof (cases "n < 2")
      case True
      then show ?thesis using 1 by (simp add: msb_of.simps [of n])
    next
      case False
      then have "2 ^ msb_of (n div 2) \<le> n div 2 \<and> n div 2 < 2 ^ (msb_of (n div 2) + 1)" using 1 by simp
      then show ?thesis using False by (simp add: msb_of.simps [of n]) linarith
    qed
  qed
  then show ?thesis unfolding find_msb_ok_def reference_msb_def by (simp add: unat_gt_0)
qed

text \<open>C12. Once votes are counted in descending order (of at most 65536 accounts, at least one with votes), no assertion of the counter fails, and the
  authority it writes gives a weight to exactly the accounts with votes, no weight is 0, more votes never weigh less, the threshold is a strict majority of the
  weights and can be met, and no two disjoint groups of members can both meet it.\<close>

theorem vote_counter_majority:
  assumes M: "find_msb_ok find_msb" and ord: "sorted_wrt (\<lambda>a b. snd b \<le> snd a) xs" and dist: "distinct (map fst xs)"
    and len: "length xs \<le> 65536" and ex: "\<exists>x\<in>set xs. snd x \<noteq> 0"
  shows "\<exists>vc a. vc_add_all find_msb xs initial_vote_counter = Inr vc \<and> vc_finish vc old = a \<and> key_auths a = [] \<and> address_auths a = [] \<and>
    distinct (map fst (account_auths a)) \<and> fst ` set (account_auths a) = {p. \<exists>v. (p, v) \<in> set xs \<and> v \<noteq> 0} \<and>
    (\<forall>x\<in>set (account_auths a). snd x \<noteq> 0) \<and>
    (\<forall>p v w q u z. (p, v) \<in> set xs \<and> (q, u) \<in> set xs \<and> v \<le> u \<and> (p, w) \<in> set (account_auths a) \<and> (q, z) \<in> set (account_auths a) \<longrightarrow> w \<le> z) \<and>
    unat (weight_threshold a) = weight_sum (account_auths a) div 2 + 1 \<and> \<not> is_impossible a \<and>
    (\<forall>ys zs. mset (account_auths a) = mset ys + mset zs \<and> unat (weight_threshold a) \<le> weight_sum ys \<longrightarrow> weight_sum zs < unat (weight_threshold a))"
proof -
  obtain vc k where run: "vc_add_all find_msb xs initial_vote_counter = Inr vc" and ok: "vc_ok vc"
    and sc: "\<forall>x\<in>set xs. snd x \<noteq> 0 \<longrightarrow> scaled k (snd x) \<le> 65535"
    and st: "set (vc_auth vc) = {(p, of_nat (scaled k v)) | p v. (p, v) \<in> set xs \<and> v \<noteq> 0}" and ln: "length (vc_auth vc) \<le> 65536"
    and au: "account_auths (vc_finish vc old) = vc_auth vc" "key_auths (vc_finish vc old) = []" "address_auths (vc_finish vc old) = []"
    and thr: "unat (weight_threshold (vc_finish vc old)) = weight_sum (vc_auth vc) div 2 + 1" and pos: "0 < weight_sum (vc_auth vc)"
    using vote_counter_result [OF assms] by blast
  have mono: "w \<le> z" if "(p, v) \<in> set xs" "(q, u) \<in> set xs" "v \<le> u" "(p, w) \<in> set (vc_auth vc)" "(q, z) \<in> set (vc_auth vc)" for p v w q u z
  proof -
    have one: "v1 = v2" if "(r, v1) \<in> set xs" "(r, v2) \<in> set xs" for r v1 v2 using dist that by (metis eq_key_imp_eq_value)
    have w: "w = of_nat (scaled k v)" "v \<noteq> 0" and z: "z = of_nat (scaled k u)" "u \<noteq> 0" using that st one by auto
    have "scaled k v \<le> 65535" "scaled k u \<le> 65535" using sc w(2) z(2) that(1,2) by auto
    then show ?thesis using scaled_mono [OF that(3), of k] by (simp add: w z word_le_nat_alt unat_of_nat)
  qed
  have "unat (ucast (weight_threshold (vc_finish vc old)) :: 64 word) \<le> weight_sum (vc_auth vc)"
  proof -
    have "unat (ucast (weight_threshold (vc_finish vc old)) :: 64 word) \<le> unat (weight_threshold (vc_finish vc old))"
      by (simp add: unsigned_ucast_eq unsigned_take_bit_eq take_bit_nat_less_eq_self)
    also have "\<dots> \<le> weight_sum (vc_auth vc)" unfolding thr using pos by linarith
    finally show ?thesis .
  qed
  then have poss: "\<not> is_impossible (vc_finish vc old)" using auth_weights [OF ln] by (simp add: is_impossible_def au word_less_nat_alt)
  have split: "weight_sum zs < unat (weight_threshold (vc_finish vc old))"
    if "mset (vc_auth vc) = mset ys + mset zs" "unat (weight_threshold (vc_finish vc old)) \<le> weight_sum ys" for ys zs
  proof -
    have "weight_sum (vc_auth vc) = weight_sum ys + weight_sum zs" using that(1) weight_sum_mset [of "vc_auth vc" "ys @ zs"] by (simp add: weight_sum_def)
    then show ?thesis using that(2) thr by linarith
  qed
  have dom: "fst ` set (vc_auth vc) = {p. \<exists>v. (p, v) \<in> set xs \<and> v \<noteq> 0}" unfolding st by (auto simp: image_def)
  have ok': "distinct (map fst (vc_auth vc))" "\<forall>x\<in>set (vc_auth vc). snd x \<noteq> 0" using ok by (auto simp: vc_ok_def)
  show ?thesis
  proof (rule exI [of _ vc], rule exI [of _ "vc_finish vc old"], unfold au, intro conjI)
    show "\<forall>p v w q u z. (p, v) \<in> set xs \<and> (q, u) \<in> set xs \<and> v \<le> u \<and> (p, w) \<in> set (vc_auth vc) \<and> (q, z) \<in> set (vc_auth vc) \<longrightarrow> w \<le> z"
      using mono by blast
    show "\<forall>ys zs. mset (vc_auth vc) = mset ys + mset zs \<and> unat (weight_threshold (vc_finish vc old)) \<le> weight_sum ys \<longrightarrow>
        weight_sum zs < unat (weight_threshold (vc_finish vc old))"
      using split by blast
  qed (rule run ok' dom thr poss refl)+
qed

theorem vote_counter_majority_witness:
  "\<exists>vc a. vc_add_all reference_msb [(5, 70000), (9, 40000), (7, 3), (8, 0)] initial_vote_counter = Inr vc \<and>
     vc_finish vc \<lparr>weight_threshold = 0, account_auths = [], key_auths = [], address_auths = []\<rparr> = a \<and>
     fst ` set (account_auths a) = {p. \<exists>v :: 64 word. (p, v) \<in> set [(5, 70000), (9, 40000), (7, 3), (8, 0)] \<and> v \<noteq> 0} \<and>
     unat (weight_threshold a) = weight_sum (account_auths a) div 2 + 1 \<and> \<not> is_impossible a"
  using vote_counter_majority [OF reference_msb_ok, of "[(5, 70000), (9, 40000), (7, 3), (8, 0)]" "\<lparr>weight_threshold = 0, account_auths = [], key_auths = [], address_auths = []\<rparr>"]
  by fastforce

section \<open>Elections\<close>

lemma sint_small: "uint (v :: 64 word) < 2 ^ 63 \<Longrightarrow> sint v = uint v"
  using unsigned_greater_eq [of v] by (simp add: sint_uint signed_take_bit_int_eq_self order.trans [of _ 0])

lemma sum_list_nonneg_uint: "0 \<le> (\<Sum>h\<leftarrow>hs. uint h)"
  by (induction hs) auto

text \<open>The stake loop stops at the first count whose supporters, with those of lower counts, hold more than the target.\<close>

lemma witness_stake_loop_first:
  assumes F: "fc_lib_ok F"
  shows "0 \<le> t \<Longrightarrow> t + (\<Sum>h\<leftarrow>hs. uint h) < 2 ^ 63 \<Longrightarrow>
    \<exists>n. witness_stake_loop F target hs t n0 = Inr (n0 + n) \<and> n \<le> length hs \<and> (\<forall>m<n. t + (\<Sum>h\<leftarrow>take m hs. uint h) \<le> target) \<and>
      (n < length hs \<longrightarrow> target < t + (\<Sum>h\<leftarrow>take n hs. uint h))"
proof (induction hs arbitrary: t n0)
  case (Cons h hs)
  show ?case
  proof (cases "t \<le> target")
    case True
    have b: "t + uint h < 2 ^ 63" "uint h < 2 ^ 63" using Cons.prems sum_list_nonneg_uint [of hs] by (simp_all add: order.strict_trans1)
    have "safe_add F t (sint h) = Some (t + uint h)" 
    proof -
      have "in_int64 (t + uint h)" unfolding in_int64_def using Cons.prems(1) b uint_ge_0 [of h] by linarith
      then show ?thesis using F b by (simp add: fc_safe_simps checked64_def sint_small)
    qed
    moreover obtain n where "witness_stake_loop F target hs (t + uint h) (n0 + 1) = Inr (n0 + 1 + n)" "n \<le> length hs"
      "\<forall>m<n. t + uint h + (\<Sum>h\<leftarrow>take m hs. uint h) \<le> target" "n < length hs \<longrightarrow> target < t + uint h + (\<Sum>h\<leftarrow>take n hs. uint h)"
      using Cons.IH [of "t + uint h" "n0 + 1"] Cons.prems by (auto simp: add.assoc)
    ultimately show ?thesis using True by (intro exI [of _ "Suc n"]) (auto simp: less_Suc_eq_0_disj)
  next
    case False
    then show ?thesis by (intro exI [of _ 0]) simp
  qed
qed simp

lemma preferred_weak: "strict_weak (preferred tally) A"
  by (auto simp: strict_weak_def preferred_def split: if_splits)

text \<open>Sorting and cutting off leaves the preferred ones.\<close>

lemma sort_votable_objects_best:
  assumes "sort_votable_objects tally n objs = Inr refs" and "distinct (map vote_index objs)"
  shows "set refs \<subseteq> set objs \<and> length refs = min n (length objs) \<and> distinct (map vote_index refs) \<and> sorted_wrt (\<lambda>a b. \<not> preferred tally b a) refs \<and>
    (\<forall>a\<in>set refs. \<forall>b\<in>set objs - set refs. preferred tally a b)"
proof -
  let ?s = "sorted_by (preferred tally) objs" and ?n = "min n (length objs)"
  have refs: "refs = take ?n ?s" using assms(1) by (auto simp: sort_votable_objects_def require_def split: if_splits)
  have ms: "mset ?s = mset objs" by simp
  have st: "set ?s = set objs" using ms by (metis set_mset_mset)
  have ln: "length ?s = length objs" using ms by (metis size_mset)
  have "mset (map vote_index ?s) = mset (map vote_index objs)" by simp
  then have d: "distinct (map vote_index ?s)" using assms(2) by (metis mset_eq_imp_distinct_iff)
  have so: "sorted_wrt (\<lambda>a b. \<not> preferred tally b a) ?s" by (rule sorted_by_sorted) (rule preferred_weak)
  have "preferred tally a b" if a: "a \<in> set refs" and b: "b \<in> set objs" "b \<notin> set refs" for a b
  proof -
    obtain q where q: "?s = refs @ q" using refs by (metis append_take_drop_id)
    then have "b \<in> set q" using b st by auto
    moreover have "sorted_wrt (\<lambda>a b. \<not> preferred tally b a) (refs @ q)" "distinct (map vote_index (refs @ q))" using so d q by simp_all
    ultimately have "\<not> preferred tally b a" "vote_index a \<noteq> vote_index b" using a by (auto simp: sorted_wrt_append disjoint_iff)
    then show ?thesis by (auto simp: preferred_def split: if_splits)
  qed
  moreover have "set refs \<subseteq> set objs" using refs st set_take_subset [of ?n ?s] by blast
  moreover have "sorted_wrt (\<lambda>a b. \<not> preferred tally b a) refs" using so refs sorted_wrt_take by blast
  moreover have "distinct (map vote_index refs)" using d refs by (metis distinct_take take_map)
  ultimately show ?thesis using refs ln by simp
qed

definition candidates_ok :: "64 word list \<Rightarrow> votable list \<Rightarrow> bool" where
  "candidates_ok tally objs \<longleftrightarrow> objs \<noteq> [] \<and> length objs \<le> 65536 \<and> distinct (map vo_id objs) \<and> distinct (map vo_account objs) \<and> distinct (map vote_index objs) \<and>
     (\<forall>x\<in>set objs. vote_index x < length tally) \<and> (\<forall>v\<in>set tally. uint v < 2 ^ 63)"

lemma tally_small: "candidates_ok tally objs \<Longrightarrow> x \<in> set objs \<Longrightarrow> sint (tally_of tally x) = uint (tally_of tally x)"
  by (simp add: candidates_ok_def tally_of_def sint_small)

lemma initial_vote_counter_zero: "\<forall>x\<in>set xs. snd x = 0 \<Longrightarrow> vc_add_all find_msb xs initial_vote_counter = Inr initial_vote_counter"
  by (induction xs) (auto simp: vc_add_def)

lemma distinct_key_subset: "distinct (map f xs) \<Longrightarrow> set ys \<subseteq> set xs \<Longrightarrow> distinct ys \<Longrightarrow> distinct (map f ys)"
  by (auto simp: distinct_map intro: inj_on_subset)

lemma sorted_fold_flat_insert: "sorted ys \<Longrightarrow> distinct ys \<Longrightarrow> sorted (fold flat_insert xs ys) \<and> distinct (fold flat_insert xs ys)"
  by (induction xs arbitrary: ys) (auto simp: flat_insert_def sorted_insort distinct_insort)

text \<open>After hardfork 533 every election succeeds, and the objects with the most votes win.\<close>

lemma elect_best:
  assumes M: "find_msb_ok find_msb" and now: "HARDFORK_533_TIME \<le> bl_now B" and c: "candidates_ok (bl_vote_tally B) (bd_objects bd)"
  shows "\<exists>bd' refs. elect find_msb B n bd = Inr bd' \<and> set refs \<subseteq> set (bd_objects bd) \<and> distinct refs \<and> length refs = min n (length (bd_objects bd)) \<and>
    set (bd_active bd') = vo_id ` set refs \<and> sorted (bd_active bd') \<and> distinct (bd_active bd') \<and>
    bd_objects bd' = update_total_votes (bl_track_standby_votes B) (bl_vote_tally B) refs (bd_objects bd) \<and>
    (\<forall>a\<in>set refs. \<forall>b\<in>set (bd_objects bd) - set refs. preferred (bl_vote_tally B) a b)"
proof -
  let ?t = "bl_vote_tally B" and ?f = "\<lambda>x. (vo_account x, tally_of (bl_vote_tally B) x)"
  obtain refs where refs: "sort_votable_objects ?t n (bd_objects bd) = Inr refs"
    using c by (simp add: sort_votable_objects_def require_def candidates_ok_def)
  have dv: "distinct (map vote_index (bd_objects bd))" using c by (simp add: candidates_ok_def)
  note best = sort_votable_objects_best [OF refs dv]
  have sub: "set refs \<subseteq> set (bd_objects bd)" and d: "distinct refs" using best by (auto simp: distinct_map)
  have dist: "distinct (map fst (map ?f refs))" using distinct_key_subset [OF _ sub d, of vo_account] c by (simp add: candidates_ok_def comp_def)
  have len: "length (map ?f refs) \<le> 65536" using best c by (simp add: candidates_ok_def min.coboundedI2)
  have "sorted_wrt (\<lambda>a b. tally_of ?t b \<le> tally_of ?t a) refs"
  proof (rule sorted_wrt_mono_rel [of refs "\<lambda>a b. \<not> preferred ?t b a"])
    fix a b assume ab: "a \<in> set refs" "b \<in> set refs" "\<not> preferred ?t b a"
    then have "sint (tally_of ?t a) = uint (tally_of ?t a)" "sint (tally_of ?t b) = uint (tally_of ?t b)" using tally_small [OF c] sub by auto
    then show "tally_of ?t b \<le> tally_of ?t a" using ab(3) by (auto simp: preferred_def word_le_def split: if_splits)
  qed (use best in blast)
  then have ord: "sorted_wrt (\<lambda>a b. snd b \<le> snd a) (map ?f refs)" by (simp add: sorted_wrt_map)
  have "\<exists>vc. vc_add_all find_msb (map ?f refs) initial_vote_counter = Inr vc"
  proof (cases "\<exists>x\<in>set (map ?f refs). snd x \<noteq> 0")
    case True
    show ?thesis by (rule vote_counter_result [OF M ord dist len True]) blast
  next
    case False
    then show ?thesis using initial_vote_counter_zero by blast
  qed
  then obtain vc where vc: "vc_add_all find_msb (map ?f refs) initial_vote_counter = Inr vc" by blast
  define bd' where "bd' = \<lparr>bd_objects = update_total_votes (bl_track_standby_votes B) ?t refs (bd_objects bd),
          bd_active = fold flat_insert (map vo_id refs) [], bd_authority = vc_finish vc (bd_authority bd)\<rparr>"
  have "elect find_msb B n bd = Inr bd'" using refs vc leD [OF now] by (simp add: elect_def elected_authority_def bd'_def)
  moreover have "set (bd_active bd') = vo_id ` set refs" "sorted (bd_active bd')" "distinct (bd_active bd')"
    using sorted_fold_flat_insert [of "[]" "map vo_id refs"] by (simp_all add: bd'_def)
  moreover have "bd_objects bd' = update_total_votes (bl_track_standby_votes B) ?t refs (bd_objects bd)" by (simp add: bd'_def)
  ultimately show ?thesis using best d by blast
qed

lemma active_witness_count_first:
  assumes "fc_lib_ok F" and "hist \<noteq> []" and "(\<Sum>h\<leftarrow>tl hist. uint h) < 2 ^ 63"
  shows "\<exists>n. active_witness_count F least stake hist = Inr (max (n * 2 + 1) least) \<and> n < length hist \<and>
    (stake_target_of stake hist \<le> 0 \<longrightarrow> n = 0) \<and>
    (0 < stake_target_of stake hist \<longrightarrow> (\<forall>m<n. (\<Sum>h\<leftarrow>take m (tl hist). uint h) \<le> stake_target_of stake hist) \<and>
      (n + 1 < length hist \<longrightarrow> stake_target_of stake hist < (\<Sum>h\<leftarrow>take n (tl hist). uint h)))"
proof (cases "0 < stake_target_of stake hist")
  case True
  obtain n where "witness_stake_loop F (stake_target_of stake hist) (tl hist) 0 0 = Inr n" "n \<le> length (tl hist)"
    "\<forall>m<n. (\<Sum>h\<leftarrow>take m (tl hist). uint h) \<le> stake_target_of stake hist"
    "n < length (tl hist) \<longrightarrow> stake_target_of stake hist < (\<Sum>h\<leftarrow>take n (tl hist). uint h)"
    using witness_stake_loop_first [OF assms(1), of 0 "tl hist" "stake_target_of stake hist" 0] assms(3) by auto
  then show ?thesis using True assms(2) by (intro exI [of _ n], cases hist) (auto simp: active_witness_count_def)
next
  case False
  then show ?thesis using assms(2) by (intro exI [of _ 0]) (auto simp: active_witness_count_def)
qed

text \<open>C13. After hardfork 533 the election of the witnesses succeeds on every well-formed tally: distinct candidates whose votes fit 63 bits, opinions on the number of
  witnesses whose stake does. The number of seats is \<open>2 n + 1\<close>, or the chain's minimum if that is more, but not more than there are candidates, for the
  smallest \<open>n\<close> such that the stake asking for at most \<open>n\<close> exceeds half of the voting stake, and \<open>n = 0\<close> when that half is not positive; as many candidates as there are seats are elected, none of the others is
  preferred to one of them (more votes, or as many and an earlier vote id), the active set is theirs and their votes are recorded.\<close>

theorem active_witnesses_elected:
  assumes "fc_lib_ok F" and "find_msb_ok find_msb" and "HARDFORK_533_TIME \<le> bl_now B" and "candidates_ok (bl_vote_tally B) (bd_objects bd)"
    and "bl_count_histogram B \<noteq> []" and "(\<Sum>h\<leftarrow>tl (bl_count_histogram B). uint h) < 2 ^ 63"
  shows "\<exists>bd' refs n. update_active_witnesses F find_msb B bd = Inr bd' \<and>
    (let target = stake_target_of (bl_total_voting_stake B) (bl_count_histogram B); opinions = tl (bl_count_histogram B) in
       n < length (bl_count_histogram B) \<and> (target \<le> 0 \<longrightarrow> n = 0) \<and>
       (0 < target \<longrightarrow> (\<forall>m<n. (\<Sum>h\<leftarrow>take m opinions. uint h) \<le> target) \<and> (n < length opinions \<longrightarrow> target < (\<Sum>h\<leftarrow>take n opinions. uint h)))) \<and>
    set refs \<subseteq> set (bd_objects bd) \<and> distinct refs \<and> length refs = min (max (n * 2 + 1) (bl_min_count B)) (length (bd_objects bd)) \<and>
    (\<forall>a\<in>set refs. \<forall>b\<in>set (bd_objects bd) - set refs.
       tally_of (bl_vote_tally B) b < tally_of (bl_vote_tally B) a \<or> tally_of (bl_vote_tally B) b = tally_of (bl_vote_tally B) a \<and> vote_index a < vote_index b) \<and>
    set (bd_active bd') = vo_id ` set refs \<and> sorted (bd_active bd') \<and> distinct (bd_active bd') \<and>
    (\<forall>x\<in>set (bd_objects bd'). vo_id x \<in> vo_id ` set refs \<longrightarrow> vo_total_votes x = tally_of (bl_vote_tally B) x)"
proof -
  let ?t = "bl_vote_tally B"
  obtain n where n: "active_witness_count F (bl_min_count B) (bl_total_voting_stake B) (bl_count_histogram B) = Inr (max (n * 2 + 1) (bl_min_count B))"
    "n < length (bl_count_histogram B)" "stake_target_of (bl_total_voting_stake B) (bl_count_histogram B) \<le> 0 \<longrightarrow> n = 0"
    and tgt: "0 < stake_target_of (bl_total_voting_stake B) (bl_count_histogram B) \<longrightarrow>
      (\<forall>m<n. (\<Sum>h\<leftarrow>take m (tl (bl_count_histogram B)). uint h) \<le> stake_target_of (bl_total_voting_stake B) (bl_count_histogram B)) \<and>
      (n + 1 < length (bl_count_histogram B) \<longrightarrow> stake_target_of (bl_total_voting_stake B) (bl_count_histogram B) < (\<Sum>h\<leftarrow>take n (tl (bl_count_histogram B)). uint h))"
    using active_witness_count_first [OF assms(1,5,6)] by blast
  obtain bd' refs where r: "elect find_msb B (max (n * 2 + 1) (bl_min_count B)) bd = Inr bd'" "set refs \<subseteq> set (bd_objects bd)" "distinct refs"
    "length refs = min (max (n * 2 + 1) (bl_min_count B)) (length (bd_objects bd))" "set (bd_active bd') = vo_id ` set refs" "sorted (bd_active bd')" "distinct (bd_active bd')"
    and ob: "bd_objects bd' = update_total_votes (bl_track_standby_votes B) ?t refs (bd_objects bd)"
    and pref: "\<forall>a\<in>set refs. \<forall>b\<in>set (bd_objects bd) - set refs. preferred ?t a b"
    using elect_best [OF assms(2,3,4), of "max (n * 2 + 1) (bl_min_count B)"] by blast
  have "tally_of ?t b < tally_of ?t a \<or> tally_of ?t b = tally_of ?t a \<and> vote_index a < vote_index b" if "a \<in> set refs" "b \<in> set (bd_objects bd) - set refs" for a b
  proof -
    have "preferred ?t a b" using pref that by blast
    moreover have "sint (tally_of ?t a) = uint (tally_of ?t a)" "sint (tally_of ?t b) = uint (tally_of ?t b)" using tally_small [OF assms(4)] that r(2) by auto
    moreover have "x = y" if "uint x = uint y" for x y :: "64 word" using that by (rule unsigned_word_eqI)
    ultimately show ?thesis by (auto simp: preferred_def word_less_def split: if_splits)
  qed
  moreover have "vo_total_votes x = tally_of ?t x" if x: "x \<in> set (bd_objects bd')" "vo_id x \<in> vo_id ` set refs" for x
  proof -
    obtain y where "x = (if bl_track_standby_votes B \<or> vo_id y \<in> vo_id ` set refs then y\<lparr>vo_total_votes := tally_of ?t y\<rparr> else y)" using x(1)
      unfolding ob update_total_votes_def set_map by (rule imageE)
    then show ?thesis using x(2) by (auto simp: tally_of_def vote_index_def split: if_splits)
  qed
  moreover have "update_active_witnesses F find_msb B bd = Inr bd'" using n(1) r(1) by (simp add: update_active_witnesses_def)
  moreover have "length (tl (bl_count_histogram B)) = length (bl_count_histogram B) - 1" by simp
  ultimately show ?thesis using n(2,3) tgt r by (intro exI [of _ bd'] exI [of _ refs] exI [of _ n]) (auto simp: Let_def)
qed

definition sample_ballot :: ballot where
  "sample_ballot = \<lparr>bl_now = 1500000000, bl_track_standby_votes = False, bl_vote_tally = [10, 70000, 3, 70000], bl_count_histogram = [100, 200, 900],
     bl_total_voting_stake = 1200, bl_min_count = 2\<rparr>"

definition sample_body :: body where
  "sample_body = \<lparr>bd_objects = [\<lparr>vo_id = 1, vo_account = 11, vo_vote_id = vote_id 1 0, vo_total_votes = 0\<rparr>, \<lparr>vo_id = 2, vo_account = 12, vo_vote_id = vote_id 1 1, vo_total_votes = 0\<rparr>,
       \<lparr>vo_id = 3, vo_account = 13, vo_vote_id = vote_id 1 3, vo_total_votes = 0\<rparr>], bd_active = [1],
     bd_authority = \<lparr>weight_threshold = 0, account_auths = [], key_auths = [], address_auths = []\<rparr>\<rparr>"

lemma sample_candidates: "candidates_ok (bl_vote_tally sample_ballot) (bd_objects sample_body)"
  by (simp add: candidates_ok_def sample_ballot_def sample_body_def vote_index_def vote_instance_def vote_id_def)

theorem active_witnesses_elected_witness:
  "\<exists>bd' (refs :: votable list) n. update_active_witnesses fc_reference reference_msb sample_ballot sample_body = Inr bd' \<and>
     length refs = min (max (n * 2 + 1) (bl_min_count sample_ballot)) (length (bd_objects sample_body)) \<and> set (bd_active bd') = vo_id ` set refs"
proof -
  have now: "HARDFORK_533_TIME \<le> bl_now sample_ballot" and hist: "bl_count_histogram sample_ballot \<noteq> []"
    and small: "(\<Sum>h\<leftarrow>tl (bl_count_histogram sample_ballot). uint h) < 2 ^ 63"
    by (simp_all add: sample_ballot_def HARDFORK_533_TIME_def)
  show ?thesis using active_witnesses_elected [OF fc_reference_ok reference_msb_ok now sample_candidates hist small]
    by (elim exE conjE) (rule exI, rule exI, rule exI, rule conjI, assumption, rule conjI, assumption, assumption)
qed

end
