(* ===== verification/Account_Names.thy ===== *)
theory Account_Names
  imports Prelude
begin

text \<open>
  Account names (\<^verbatim>\<open>is_valid_name\<close> and \<^verbatim>\<open>is_cheap_name\<close> of \<^verbatim>\<open>protocol/account.cpp\<close>). The check walks the name by index; the specification is the
  grammar that the comment above it gives (RFC 1035, lower case).
\<close>

section \<open>Model\<close>

definition GRAPHENE_MIN_ACCOUNT_NAME_LENGTH :: nat where "GRAPHENE_MIN_ACCOUNT_NAME_LENGTH = 1"

definition GRAPHENE_MAX_ACCOUNT_NAME_LENGTH :: nat where "GRAPHENE_MAX_ACCOUNT_NAME_LENGTH = 63"

definition is_letter :: "char \<Rightarrow> bool" where
  "is_letter c \<longleftrightarrow> c \<in> set ''abcdefghijklmnopqrstuvwxyz''"

definition is_let_dig :: "char \<Rightarrow> bool" where
  "is_let_dig c \<longleftrightarrow> is_letter c \<or> c \<in> set ''0123456789''"

definition is_let_dig_hyp :: "char \<Rightarrow> bool" where
  "is_let_dig_hyp c \<longleftrightarrow> is_let_dig c \<or> c = CHR ''-''"

text \<open>\<^verbatim>\<open>name.find_first_of( '.', begin )\<close>, with the length of the name for \<^verbatim>\<open>npos\<close>.\<close>

function find_dot :: "string \<Rightarrow> nat \<Rightarrow> nat" where
  "find_dot name b = (if b < length name then if name ! b = CHR ''.'' then b else find_dot name (b + 1) else length name)"
  by pat_completeness auto
termination by (relation "measure (\<lambda>(name, b). length name - b)") auto

declare find_dot.simps [simp del]

lemma find_dot_bounds: "b \<le> length name \<Longrightarrow> b \<le> find_dot name b \<and> find_dot name b \<le> length name"
proof (induction name b rule: find_dot.induct)
  case (1 name b)
  then show ?case by (subst (1 2) find_dot.simps) auto
qed

definition label_chars :: "string \<Rightarrow> nat \<Rightarrow> nat \<Rightarrow> bool" where
  "label_chars name b e \<longleftrightarrow> is_letter (name ! b) \<and> is_let_dig (name ! (e - 1)) \<and> list_all (\<lambda>i. is_let_dig_hyp (name ! i)) [b + 1..<e - 1]"

function valid_labels :: "string \<Rightarrow> nat \<Rightarrow> bool" where
  "valid_labels name b =
     (let e = find_dot name b
      in if e - b < GRAPHENE_MIN_ACCOUNT_NAME_LENGTH then False
         else if \<not> label_chars name b e then False
         else if e = length name then True else valid_labels name (e + 1))"
  by pat_completeness auto
termination
proof (relation "measure (\<lambda>(name, b). length name + 1 - b)")
  fix name :: string and b e
  assume e: "e = find_dot name b" and len: "\<not> e - b < GRAPHENE_MIN_ACCOUNT_NAME_LENGTH" and ne: "e \<noteq> length name"
  have "b < e" using len by (simp add: GRAPHENE_MIN_ACCOUNT_NAME_LENGTH_def)
  moreover have "b \<le> length name" using ne e by (cases "b \<le> length name") (auto simp: find_dot.simps)
  then have "e \<le> length name" using e find_dot_bounds by blast
  ultimately show "((name, e + 1), (name, b)) \<in> measure (\<lambda>(name, b). length name + 1 - b)" using ne by auto
qed simp

declare valid_labels.simps [simp del]

definition is_valid_name :: "string \<Rightarrow> bool" where
  "is_valid_name name =
     (let len = length name
      in if len < GRAPHENE_MIN_ACCOUNT_NAME_LENGTH then False
         else if len > GRAPHENE_MAX_ACCOUNT_NAME_LENGTH then False
         else valid_labels name 0)"

fun cheap_loop :: "string \<Rightarrow> bool \<Rightarrow> bool" where
  "cheap_loop [] v = (\<not> v)"
| "cheap_loop (c # cs) v =
     (if c \<in> set ''0123456789'' then True
      else if c \<in> set ''.-/'' then True
      else cheap_loop cs (v \<or> c \<in> set ''aeiouy''))"

definition is_cheap_name :: "string \<Rightarrow> bool" where
  "is_cheap_name n = cheap_loop n False"

section \<open>Specification: the grammar\<close>

inductive label :: "string \<Rightarrow> bool" where
  letter: "is_letter c \<Longrightarrow> label [c]"
| word: "is_letter c \<Longrightarrow> list_all is_let_dig_hyp s \<Longrightarrow> is_let_dig d \<Longrightarrow> label (c # s @ [d])"

inductive subdomain :: "string \<Rightarrow> bool" where
  one: "label l \<Longrightarrow> subdomain l"
| more: "subdomain s \<Longrightarrow> label l \<Longrightarrow> subdomain (s @ CHR ''.'' # l)"

section \<open>The check accepts the grammar\<close>

inductive labels_right :: "string \<Rightarrow> bool" where
  one_right: "label l \<Longrightarrow> labels_right l"
| more_right: "label l \<Longrightarrow> labels_right s \<Longrightarrow> labels_right (l @ CHR ''.'' # s)"

lemma subdomain_prepend: "subdomain s \<Longrightarrow> label l \<Longrightarrow> subdomain (l @ CHR ''.'' # s)"
proof (induction rule: subdomain.induct)
  case (one m)
  then show ?case by (intro subdomain.intros)
next
  case (more s m)
  then show ?case using subdomain.more [of "l @ CHR ''.'' # s" m] by simp
qed

lemma labels_right_append: "labels_right s \<Longrightarrow> label l \<Longrightarrow> labels_right (s @ CHR ''.'' # l)"
proof (induction rule: labels_right.induct)
  case (one_right m)
  then show ?case by (intro labels_right.intros)
next
  case (more_right m s)
  then show ?case using labels_right.more_right [of m "s @ CHR ''.'' # l"] by simp
qed

lemma labels_right_subdomain: "labels_right s \<longleftrightarrow> subdomain s"
proof
  show "labels_right s \<Longrightarrow> subdomain s" by (induction rule: labels_right.induct) (auto intro: subdomain.one subdomain_prepend)
  show "subdomain s \<Longrightarrow> labels_right s" by (induction rule: subdomain.induct) (auto intro: labels_right.one_right labels_right_append)
qed

lemma no_dot: "is_let_dig_hyp c \<Longrightarrow> c \<noteq> CHR ''.''"
  by (auto simp: is_let_dig_hyp_def is_let_dig_def is_letter_def)

lemma class_weaken: "is_letter c \<Longrightarrow> is_let_dig c" "is_let_dig c \<Longrightarrow> is_let_dig_hyp c"
  by (auto simp: is_let_dig_def is_let_dig_hyp_def)

lemma label_no_dot: "label l \<Longrightarrow> CHR ''.'' \<notin> set l"
  by (induction rule: label.induct) (auto simp: list_all_iff dest: no_dot class_weaken)

lemma split_at_first: "x \<notin> set a \<Longrightarrow> x \<notin> set b \<Longrightarrow> a @ x # s = b @ x # t \<longleftrightarrow> a = b \<and> s = t"
proof (induction a arbitrary: b)
  case Nil
  then show ?case by (cases b) auto
next
  case (Cons y ys)
  then show ?case by (cases b) auto
qed

lemma labels_right_split:
  assumes "CHR ''.'' \<notin> set l"
  shows "labels_right l \<longleftrightarrow> label l" and "labels_right (l @ CHR ''.'' # s) \<longleftrightarrow> label l \<and> labels_right s"
proof -
  show "labels_right l \<longleftrightarrow> label l" using assms by (auto elim: labels_right.cases intro: labels_right.one_right)
  have "label l \<and> labels_right s" if "labels_right (l @ CHR ''.'' # s)"
    using that
  proof cases
    case one_right
    then show ?thesis using label_no_dot by fastforce
  next
    case (more_right m t)
    then show ?thesis using split_at_first [OF assms label_no_dot, of m s t] by simp
  qed
  then show "labels_right (l @ CHR ''.'' # s) \<longleftrightarrow> label l \<and> labels_right s" by (auto intro: labels_right.more_right)
qed

text \<open>The part of the name from \<open>b\<close> up to the next dot, and the rest.\<close>

lemma find_dot_split:
  assumes "b \<le> length name"
  shows "CHR ''.'' \<notin> set (take (find_dot name b - b) (drop b name)) \<and>
    (find_dot name b < length name \<longrightarrow> drop b name = take (find_dot name b - b) (drop b name) @ CHR ''.'' # drop (find_dot name b + 1) name)"
  using assms
proof (induction name b rule: find_dot.induct)
  case (1 name b)
  show ?case
  proof (cases "b < length name \<and> name ! b \<noteq> CHR ''.''")
    case True
    then have f: "find_dot name b = find_dot name (b + 1)" and d: "drop b name = name ! b # drop (b + 1) name" by (simp_all add: find_dot.simps [of name b] Cons_nth_drop_Suc)
    have "b + 1 \<le> find_dot name (b + 1)" using True find_dot_bounds [of "b + 1" name] by simp
    then have "find_dot name (b + 1) - b = Suc (find_dot name (b + 1) - (b + 1))" by simp
    then show ?thesis using 1 True by (auto simp add: f d)
  next
    case False
    then show ?thesis using 1(2) Cons_nth_drop_Suc [of b name] by (auto simp: find_dot.simps [of name b])
  qed
qed

lemma label_iff: "label l \<longleftrightarrow> l \<noteq> [] \<and> is_letter (hd l) \<and> is_let_dig (last l) \<and> list_all is_let_dig_hyp (butlast (tl l))"
proof
  show "label l \<Longrightarrow> l \<noteq> [] \<and> is_letter (hd l) \<and> is_let_dig (last l) \<and> list_all is_let_dig_hyp (butlast (tl l))"
    by (induction rule: label.induct) (auto intro: class_weaken)
  assume l: "l \<noteq> [] \<and> is_letter (hd l) \<and> is_let_dig (last l) \<and> list_all is_let_dig_hyp (butlast (tl l))"
  then obtain c t where c: "l = c # t" by (cases l) auto
  show "label l"
  proof (cases "t = []")
    case True
    then show ?thesis using c l label.letter by simp
  next
    case False
    then have "l = c # butlast t @ [last t]" using c by simp
    then show ?thesis using c l False label.word [of c "butlast t" "last t"] by simp
  qed
qed

lemma label_chars_iff:
  assumes "b < e" and "e \<le> length name"
  shows "label (take (e - b) (drop b name)) \<longleftrightarrow> label_chars name b e"
proof -
  let ?l = "take (e - b) (drop b name)"
  have len: "length ?l = e - b" using assms by simp
  have ne: "?l \<noteq> []" using assms by auto
  have at: "i < e - b \<Longrightarrow> ?l ! i = name ! (b + i)" for i using assms by simp
  have "hd ?l = name ! b" using assms by (simp add: hd_conv_nth)
  moreover have "last ?l = name ! (e - 1)" using ne len at [of "e - b - 1"] assms by (simp add: last_conv_nth)
  moreover have "list_all is_let_dig_hyp (butlast (tl ?l)) \<longleftrightarrow> list_all (\<lambda>i. is_let_dig_hyp (name ! i)) [b + 1..<e - 1]"
  proof -
    have "butlast (tl ?l) = map (\<lambda>i. name ! i) [b + 1..<e - 1]"
      by (rule nth_equalityI) (use assms in \<open>auto simp: nth_butlast nth_tl\<close>)
    then show ?thesis by (simp add: list_all_iff)
  qed
  ultimately show ?thesis using ne by (simp add: label_iff label_chars_def)
qed

lemma valid_labels_iff: "b \<le> length name \<Longrightarrow> valid_labels name b \<longleftrightarrow> labels_right (drop b name)"
proof (induction name b rule: valid_labels.induct)
  case (1 name b)
  define e where "e = find_dot name b"
  let ?l = "take (e - b) (drop b name)"
  have e: "b \<le> e" "e \<le> length name" using find_dot_bounds [OF 1(2)] by (simp_all add: e_def)
  have nd: "CHR ''.'' \<notin> set ?l" and sp: "e < length name \<longrightarrow> drop b name = ?l @ CHR ''.'' # drop (e + 1) name"
    using find_dot_split [OF 1(2)] by (simp_all add: e_def)
  have lab: "label ?l \<longleftrightarrow> b < e \<and> label_chars name b e" using e label_chars_iff [of b e name] by (cases "b < e") (auto simp: label_iff)
  show ?case
  proof (cases "e = length name")
    case True
    then have "?l = drop b name" by simp
    then show ?thesis using True lab labels_right_split(1) [OF nd] e by (auto simp: valid_labels.simps [of name b] Let_def GRAPHENE_MIN_ACCOUNT_NAME_LENGTH_def simp flip: e_def)
  next
    case False
    then have "labels_right (drop b name) \<longleftrightarrow> label ?l \<and> labels_right (drop (e + 1) name)" using sp labels_right_split(2) [OF nd, of "drop (e + 1) name"] e
      by (metis le_neq_implies_less)
    moreover have "label ?l \<Longrightarrow> valid_labels name (e + 1) \<longleftrightarrow> labels_right (drop (e + 1) name)"
      using 1(1) [OF e_def] lab False e by (simp add: GRAPHENE_MIN_ACCOUNT_NAME_LENGTH_def)
    ultimately show ?thesis using False lab e by (auto simp: valid_labels.simps [of name b] Let_def GRAPHENE_MIN_ACCOUNT_NAME_LENGTH_def simp flip: e_def)
  qed
qed

text \<open>C16. The check of account names accepts exactly the names of the grammar of RFC 1035 in lower case (labels of letters, digits and hyphens, separated by dots, that begin
  with a letter and end with a letter or a digit) that have at most 63 characters. A label of one character is enough.\<close>

theorem valid_name_grammar: "is_valid_name name \<longleftrightarrow> subdomain name \<and> length name \<le> 63"
proof -
  have "label l \<Longrightarrow> l \<noteq> []" for l by (auto simp: label_iff)
  then have "subdomain name \<Longrightarrow> name \<noteq> []" by (auto elim: subdomain.cases)
  then show ?thesis using valid_labels_iff [of 0 name]
    by (auto simp: is_valid_name_def Let_def GRAPHENE_MIN_ACCOUNT_NAME_LENGTH_def GRAPHENE_MAX_ACCOUNT_NAME_LENGTH_def labels_right_subdomain)
qed

lemma is_cheap_name_iff:
  "is_cheap_name n \<longleftrightarrow> (\<exists>c\<in>set n. c \<in> set ''0123456789.-/'') \<or> (\<forall>c\<in>set n. c \<notin> set ''aeiouy'')"
proof -
  have "cheap_loop n v \<longleftrightarrow> (\<exists>c\<in>set n. c \<in> set ''0123456789.-/'') \<or> (\<not> v \<and> (\<forall>c\<in>set n. c \<notin> set ''aeiouy''))" for v
    by (induction n arbitrary: v) auto
  then show ?thesis by (simp add: is_cheap_name_def)
qed

end
