(* ===== verification/Account_Ops.thy ===== *)
theory Account_Ops
  imports Voting Account_Names
begin

text \<open>
  Account operations: what an account may vote for (\<^verbatim>\<open>account_options::validate\<close> of \<^verbatim>\<open>protocol/account.cpp\<close>, \<^verbatim>\<open>verify_account_votes\<close> of
  \<^verbatim>\<open>account_evaluator.cpp\<close>), white and black lists, and the upgrade of a membership.

  The candidates that votes are checked against are an argument: the vote ids of the indexes of workers, committee members and witnesses.
\<close>

section \<open>Model\<close>

record account_options =
  voting_account :: nat
  num_witness :: "16 word"
  num_committee :: "16 word"
  votes :: "32 word list"

definition options_is_voting :: "account_options \<Rightarrow> bool" where
  "options_is_voting op \<longleftrightarrow> voting_account op \<noteq> 5 \<or> votes op \<noteq> []"

fun needed_votes :: "32 word list \<Rightarrow> 16 word \<times> 16 word \<Rightarrow> 16 word \<times> 16 word" where
  "needed_votes [] n = n"
| "needed_votes (i # ids) (w, c) =
     needed_votes ids
       (if vote_type_of i = 1 \<and> w \<noteq> 0 then (w - 1, c)
        else if vote_type_of i = 0 \<and> c \<noteq> 0 then (w, c - 1) else (w, c))"

definition account_options_validate :: "account_options \<Rightarrow> unit result" where
  "account_options_validate op = require (needed_votes (votes op) (num_witness op, num_committee op) = (0, 0)) Assert_failed (Inr ())"

record candidates =
  maximum_witness_count :: "16 word"
  maximum_committee_count :: "16 word"
  next_available_vote_id :: "32 word"
  workers_for :: "32 word list"
  workers_against :: "32 word list"
  committee_votes :: "32 word list"
  witness_votes :: "32 word list"

definition HARDFORK_607_TIME :: time where "HARDFORK_607_TIME = 1458752400"

definition HARDFORK_CORE_143_TIME :: time where "HARDFORK_CORE_143_TIME = 1512747600"

text \<open>The indexes compare vote ids as numbers, that is by instance.\<close>

definition has_vote_id :: "32 word list \<Rightarrow> 32 word \<Rightarrow> bool" where
  "has_vote_id ids i \<longleftrightarrow> vote_instance i \<in> vote_instance ` set ids"

definition vote_exists :: "candidates \<Rightarrow> 32 word \<Rightarrow> bool" where
  "vote_exists E i =
     (if vote_type_of i = 0 then has_vote_id (committee_votes E) i
      else if vote_type_of i = 1 then has_vote_id (witness_votes E) i
      else if vote_type_of i = 2 then has_vote_id (workers_for E) i else False)"

definition verify_account_votes :: "candidates \<Rightarrow> account_options \<Rightarrow> database \<Rightarrow> unit result" where
  "verify_account_votes E op d =
     require (num_witness op \<le> maximum_witness_count E) Assert_failed
     (require (num_committee op \<le> maximum_committee_count E) Assert_failed
      (require (index_find (accounts d) (voting_account op) \<noteq> None) Assert_failed
       (require (\<forall>i\<in>set (votes op). vote_instance i < next_available_vote_id E) Assert_failed
        (require (head_block_time d \<ge> HARDFORK_607_TIME \<longrightarrow> (\<forall>i\<in>set (votes op). vote_type_of i = 2 \<longrightarrow> \<not> has_vote_id (workers_against E) i)) Assert_failed
         (require (head_block_time d \<ge> HARDFORK_CORE_143_TIME \<longrightarrow> (\<forall>i\<in>set (votes op). vote_exists E i)) Assert_failed (Inr ()))))))"

record account_whitelist_operation =
  aw_fee :: asset
  aw_authorizing_account :: nat
  aw_account_to_list :: nat
  aw_new_listing :: "8 word"

definition account_whitelist_validate :: "account_whitelist_operation \<Rightarrow> unit result" where
  "account_whitelist_validate op = require (amount (aw_fee op) \<ge> 0) Assert_failed (require (aw_new_listing op < 4) Assert_failed (Inr ()))"

definition account_whitelist_do_evaluate :: "account_whitelist_operation \<Rightarrow> database \<Rightarrow> unit result" where
  "account_whitelist_do_evaluate op d =
     rbind (index_get (accounts d) (aw_account_to_list op)) (\<lambda>_.
     if \<not> allow_non_member_whitelists (parameters d)
     then rbind (index_get (accounts d) (aw_authorizing_account op)) (\<lambda>a. require (is_lifetime_member a) Assert_failed (Inr ()))
     else Inr ())"

definition white_listed :: "8 word \<Rightarrow> bool" where "white_listed l \<longleftrightarrow> and l 1 \<noteq> 0"

definition black_listed :: "8 word \<Rightarrow> bool" where "black_listed l \<longleftrightarrow> and l 2 \<noteq> 0"

definition set_listed :: "bool \<Rightarrow> nat \<Rightarrow> nat list \<Rightarrow> nat list" where
  "set_listed b x xs = (if b then flat_insert x xs else filter (\<lambda>y. y \<noteq> x) xs)"

definition account_whitelist_do_apply :: "account_whitelist_operation \<Rightarrow> database \<Rightarrow> database result" where
  "account_whitelist_do_apply op d =
     (let w = white_listed (aw_new_listing op); b = black_listed (aw_new_listing op); by = aw_authorizing_account op; lst = aw_account_to_list op
      in rbind (modify_account lst (\<lambda>a. Inr (a\<lparr>whitelisting_accounts := set_listed w by (whitelisting_accounts a),
                  blacklisting_accounts := set_listed b by (blacklisting_accounts a)\<rparr>)) d) (\<lambda>d1.
         modify_account by (\<lambda>a. Inr (a\<lparr>whitelisted_accounts := set_listed w lst (whitelisted_accounts a),
                  blacklisted_accounts := set_listed b lst (blacklisted_accounts a)\<rparr>)) d1))"

record account_upgrade_operation =
  ag_fee :: asset
  ag_account_to_upgrade :: nat
  ag_upgrade_to_lifetime_member :: bool

definition HARDFORK_613_TIME :: time where "HARDFORK_613_TIME = 1458752400"

definition account_upgrade_validate :: "account_upgrade_operation \<Rightarrow> unit result" where
  "account_upgrade_validate op = require (amount (ag_fee op) \<ge> 0) Assert_failed (Inr ())"

definition account_upgrade_do_evaluate :: "account_upgrade_operation \<Rightarrow> database \<Rightarrow> unit result" where
  "account_upgrade_do_evaluate op d =
     rbind (index_get (accounts d) (ag_account_to_upgrade op)) (\<lambda>a. require (\<not> is_lifetime_member a) Assert_failed (Inr ()))"

definition lifetime_account :: "nat \<Rightarrow> account_object \<Rightarrow> account_object" where
  "lifetime_account i a = a\<lparr>membership_expiration_date := - 1, referrer := i, registrar := i, lifetime_referrer := i,
     lifetime_referrer_fee_percentage := nat ((GRAPHENE_100_PERCENT - int (network_fee_percentage a)) mod 2 ^ 16)\<rparr>"

definition account_upgrade_do_apply :: "fc_lib \<Rightarrow> account_upgrade_operation \<Rightarrow> database \<Rightarrow> database result" where
  "account_upgrade_do_apply F op d =
     (let i = ag_account_to_upgrade op; now = head_block_time d
      in rbind (index_get (accounts d) i) (\<lambda>a.
         if ag_upgrade_to_lifetime_member op
         then rbind (process_fees F (statistics a) i d) (modify_account i (\<lambda>x. Inr (lifetime_account i x)))
         else if is_annual_member a now
         then require (now \<le> HARDFORK_613_TIME) Assert_failed
              (require (uint (membership_expiration_date a) - uint now < 3650 * 86400) Assert_failed
               (modify_account i (\<lambda>x. Inr (x\<lparr>membership_expiration_date := membership_expiration_date x + 365 * 86400\<rparr>)) d))
         else require (now \<le> HARDFORK_613_TIME) Assert_failed
              (rbind (process_fees F (statistics a) i d) (modify_account i (\<lambda>x.
                 require (is_basic_account x now) Assert_failed (Inr (x\<lparr>referrer := i, membership_expiration_date := now + 365 * 86400\<rparr>)))))))"

section \<open>Votes\<close>

lemma vote_type_instance:
  assumes "vote_type_of i = vote_type_of j" and "vote_instance i = vote_instance j"
  shows "i = j"
proof (rule bit_word_eqI)
  fix n assume "n < LENGTH(32)"
  have t: "vote_type_of k = take_bit 8 k" for k by (simp add: vote_type_of_def take_bit_eq_mask mask_eq_exp_minus_1)
  show "bit i n \<longleftrightarrow> bit j n"
  proof (cases "n < 8")
    case True
    then show ?thesis using assms(1) unfolding t by (metis bit_take_bit_iff)
  next
    case False
    then obtain m where m: "n = 8 + m" using le_Suc_ex by (metis not_less)
    then show ?thesis using assms(2) unfolding vote_instance_def by (metis bit_drop_bit_eq comp_apply)
  qed
qed

lemma needed_votes_spec:
  "needed_votes ids (w, c) = (w', c') \<Longrightarrow>
     unat w' = unat w - length (filter (\<lambda>i. vote_type_of i = 1) ids) \<and> unat c' = unat c - length (filter (\<lambda>i. vote_type_of i = 0) ids)"
proof (induction ids arbitrary: w c)
  case (Cons i ids)
  have dec: "x \<noteq> 0 \<Longrightarrow> unat (x - 1) = unat x - 1" for x :: "16 word" by (simp add: unat_minus_one)
  show ?case using Cons by (auto simp: dec split: if_splits)
qed simp

lemma account_options_validate_iff:
  "account_options_validate op = Inr () \<longleftrightarrow> unat (num_witness op) \<le> length (filter (\<lambda>i. vote_type_of i = 1) (votes op)) \<and>
     unat (num_committee op) \<le> length (filter (\<lambda>i. vote_type_of i = 0) (votes op))"
proof -
  obtain w c where n: "needed_votes (votes op) (num_witness op, num_committee op) = (w, c)" by fastforce
  have "(w, c) = (0, 0) \<longleftrightarrow> unat w = 0 \<and> unat c = 0" by (simp add: unat_eq_0)
  then show ?thesis using needed_votes_spec [OF n] n by (auto simp: account_options_validate_def require_def)
qed

text \<open>C40. After hardfork CORE-143, an account whose options are accepted asks for no more witnesses and committee members than it votes for existing ones: its votes of each
  kind are of different objects of the index of that kind, so the numbers it asks for are bounded by the candidates as well as by the chain's maximum.\<close>

theorem accepted_votes_exist:
  assumes "account_options_validate op = Inr ()" and "verify_account_votes E op d = Inr ()" and "HARDFORK_CORE_143_TIME \<le> head_block_time d" and "distinct (votes op)"
  shows "(\<forall>i\<in>set (votes op). vote_exists E i) \<and>
    unat (num_witness op) \<le> card (vote_instance ` {i \<in> set (votes op). vote_type_of i = 1}) \<and>
    vote_instance ` {i \<in> set (votes op). vote_type_of i = 1} \<subseteq> vote_instance ` set (witness_votes E) \<and>
    unat (num_committee op) \<le> card (vote_instance ` {i \<in> set (votes op). vote_type_of i = 0}) \<and>
    vote_instance ` {i \<in> set (votes op). vote_type_of i = 0} \<subseteq> vote_instance ` set (committee_votes E) \<and>
    num_witness op \<le> maximum_witness_count E \<and> num_committee op \<le> maximum_committee_count E"
proof -
  have v: "\<forall>i\<in>set (votes op). vote_exists E i" and mx: "num_witness op \<le> maximum_witness_count E" "num_committee op \<le> maximum_committee_count E"
    using assms(2,3) by (auto simp: verify_account_votes_def require_def split: if_splits)
  have "length (filter (\<lambda>i. vote_type_of i = k) (votes op)) = card (vote_instance ` {i \<in> set (votes op). vote_type_of i = k})" for k
  proof -
    have "inj_on vote_instance {i \<in> set (votes op). vote_type_of i = k}" using vote_type_instance by (auto simp: inj_on_def)
    moreover have "length (filter (\<lambda>i. vote_type_of i = k) (votes op)) = card {i \<in> set (votes op). vote_type_of i = k}"
      using distinct_card [of "filter (\<lambda>i. vote_type_of i = k) (votes op)"] assms(4) by simp
    ultimately show ?thesis by (simp add: card_image)
  qed
  moreover have "vote_instance ` {i \<in> set (votes op). vote_type_of i = 1} \<subseteq> vote_instance ` set (witness_votes E)"
    "vote_instance ` {i \<in> set (votes op). vote_type_of i = 0} \<subseteq> vote_instance ` set (committee_votes E)"
    using v by (auto simp: vote_exists_def has_vote_id_def)
  ultimately show ?thesis using v mx assms(1) by (simp add: account_options_validate_iff)
qed

definition sample_candidates_state :: candidates where
  "sample_candidates_state = \<lparr>maximum_witness_count = 101, maximum_committee_count = 11, next_available_vote_id = 10, workers_for = [], workers_against = [],
     committee_votes = [vote_id 0 3], witness_votes = [vote_id 1 1, vote_id 1 2]\<rparr>"

definition sample_account_options :: account_options where
  "sample_account_options = \<lparr>voting_account = 5, num_witness = 2, num_committee = 1, votes = [vote_id 1 1, vote_id 1 2, vote_id 0 3]\<rparr>"

theorem accepted_votes_exist_witness:
  "unat (num_witness sample_account_options) \<le> card (vote_instance ` {i \<in> set (votes sample_account_options). vote_type_of i = 1})"
proof -
  note defs = sample_account_options_def sample_candidates_state_def vote_id_def vote_type_of_def vote_instance_def
  have "account_options_validate sample_account_options = Inr ()" by (simp add: account_options_validate_def defs)
  moreover have "verify_account_votes sample_candidates_state sample_account_options sample_db = Inr ()"
    by (simp add: verify_account_votes_def vote_exists_def has_vote_id_def defs sample_defs index_find_def upt_rec)
  moreover have "HARDFORK_CORE_143_TIME \<le> head_block_time sample_db" by (simp add: HARDFORK_CORE_143_TIME_def sample_defs)
  moreover have "distinct (votes sample_account_options)" by (simp add: defs)
  ultimately show ?thesis using accepted_votes_exist by blast
qed

section \<open>White and black lists\<close>

text \<open>Both sides of a listing agree: an account is listed by those who list it.\<close>

definition listings_mirror :: "database \<Rightarrow> bool" where
  "listings_mirror d \<longleftrightarrow> (\<forall>i j a b. index_find (accounts d) i = Some a \<and> index_find (accounts d) j = Some b \<longrightarrow>
     (i \<in> set (whitelisting_accounts b) \<longleftrightarrow> j \<in> set (whitelisted_accounts a)) \<and> (i \<in> set (blacklisting_accounts b) \<longleftrightarrow> j \<in> set (blacklisted_accounts a)))"

lemma set_set_listed [simp]: "set (set_listed b x xs) = (if b then insert x (set xs) else set xs - {x})"
  by (auto simp: set_listed_def flat_insert_def set_insort_key)

text \<open>What a listing makes of each account.\<close>

definition note_listing :: "account_whitelist_operation \<Rightarrow> account_object \<Rightarrow> account_object" where
  "note_listing op a = a\<lparr>whitelisting_accounts := set_listed (white_listed (aw_new_listing op)) (aw_authorizing_account op) (whitelisting_accounts a),
     blacklisting_accounts := set_listed (black_listed (aw_new_listing op)) (aw_authorizing_account op) (blacklisting_accounts a)\<rparr>"

definition note_listed :: "account_whitelist_operation \<Rightarrow> account_object \<Rightarrow> account_object" where
  "note_listed op a = a\<lparr>whitelisted_accounts := set_listed (white_listed (aw_new_listing op)) (aw_account_to_list op) (whitelisted_accounts a),
     blacklisted_accounts := set_listed (black_listed (aw_new_listing op)) (aw_account_to_list op) (blacklisted_accounts a)\<rparr>"

definition after_listing :: "account_whitelist_operation \<Rightarrow> nat \<Rightarrow> account_object \<Rightarrow> account_object" where
  "after_listing op i a = (if i = aw_authorizing_account op then note_listed op else id) ((if i = aw_account_to_list op then note_listing op else id) a)"

lemma after_listing_sets:
  "set (whitelisting_accounts (after_listing op i a)) = (if i = aw_account_to_list op then set (set_listed (white_listed (aw_new_listing op)) (aw_authorizing_account op) (whitelisting_accounts a)) else set (whitelisting_accounts a))"
  "set (blacklisting_accounts (after_listing op i a)) = (if i = aw_account_to_list op then set (set_listed (black_listed (aw_new_listing op)) (aw_authorizing_account op) (blacklisting_accounts a)) else set (blacklisting_accounts a))"
  "set (whitelisted_accounts (after_listing op i a)) = (if i = aw_authorizing_account op then set (set_listed (white_listed (aw_new_listing op)) (aw_account_to_list op) (whitelisted_accounts a)) else set (whitelisted_accounts a))"
  "set (blacklisted_accounts (after_listing op i a)) = (if i = aw_authorizing_account op then set (set_listed (black_listed (aw_new_listing op)) (aw_account_to_list op) (blacklisted_accounts a)) else set (blacklisted_accounts a))"
  by (simp_all add: after_listing_def note_listing_def note_listed_def)

lemma whitelist_accounts:
  assumes "db_ok d" and "account_whitelist_do_apply op d = Inr d'"
  shows "db_ok d' \<and> excess d' = excess d \<and> (\<forall>i. index_find (accounts d') i = map_option (after_listing op i) (index_find (accounts d) i))"
proof -
  let ?by = "aw_authorizing_account op" and ?l = "aw_account_to_list op"
  obtain d1 where d1: "modify_account ?l (\<lambda>a. Inr (note_listing op a)) d = Inr d1" and d2: "modify_account ?by (\<lambda>a. Inr (note_listed op a)) d1 = Inr d'"
    using assms(2) by (auto simp: account_whitelist_do_apply_def Let_def note_listing_def note_listed_def)
  obtain x ix where 1: "index_find (accounts d) ?l = Some x" "d1 = d\<lparr>accounts := ix\<rparr>" "index_find ix = (index_find (accounts d))(?l \<mapsto> note_listing op x)"
      "db_ok d1" "excess d1 = excess d"
    using modify_account_effect [OF assms(1) d1] by auto
  obtain y iy where 2: "index_find ix ?by = Some y" "d' = d1\<lparr>accounts := iy\<rparr>" "index_find iy = (index_find ix)(?by \<mapsto> note_listed op y)" "db_ok d'" "excess d' = excess d1"
    using modify_account_effect [OF 1(4) d2] 1(2) by auto
  have "index_find iy i = map_option (after_listing op i) (index_find (accounts d) i)" for i
    using 1(1,3) 2(1,3) by (cases "index_find (accounts d) i") (auto simp: after_listing_def split: if_splits)
  then show ?thesis using 1 2 by simp
qed

text \<open>C15. A listing changes exactly what it says: the authorizing account lists the other white and black as the two bits say, every other listing stays as it was, the
  two sides of all listings agree, no value moves, and an account that an authority of a restricted asset has black-listed may not use the asset.\<close>

theorem account_whitelist_mirrors:
  assumes "db_ok d" and "listings_mirror d" and "account_whitelist_do_apply op d = Inr d'"
  shows "db_ok d' \<and> excess d' = excess d \<and> listings_mirror d' \<and>
    (\<forall>i a. index_find (accounts d) i = Some a \<longrightarrow> (\<exists>a'. index_find (accounts d') i = Some a' \<and>
       (\<forall>j. j \<in> set (whitelisting_accounts a') \<longleftrightarrow> (if i = aw_account_to_list op \<and> j = aw_authorizing_account op then white_listed (aw_new_listing op) else j \<in> set (whitelisting_accounts a))) \<and>
       (\<forall>j. j \<in> set (blacklisting_accounts a') \<longleftrightarrow> (if i = aw_account_to_list op \<and> j = aw_authorizing_account op then black_listed (aw_new_listing op) else j \<in> set (blacklisting_accounts a))) \<and>
       (\<forall>asset ao. i = aw_account_to_list op \<and> black_listed (aw_new_listing op) \<and> has_flag (flags (options ao)) white_list \<and>
          aw_authorizing_account op \<in> set (blacklist_authorities (options ao)) \<longrightarrow> \<not> is_authorized_asset d' a' asset ao)))"
proof -
  have f: "\<And>i. index_find (accounts d') i = map_option (after_listing op i) (index_find (accounts d) i)" and "db_ok d'" and "excess d' = excess d"
    using whitelist_accounts [OF assms(1,3)] by auto
  moreover have "listings_mirror d'"
    unfolding listings_mirror_def
  proof (intro allI impI)
    fix i j a' b' assume "index_find (accounts d') i = Some a' \<and> index_find (accounts d') j = Some b'"
    then obtain a b where ab: "index_find (accounts d) i = Some a" "a' = after_listing op i a" "index_find (accounts d) j = Some b" "b' = after_listing op j b" unfolding f by auto
    have "(i \<in> set (whitelisting_accounts b) \<longleftrightarrow> j \<in> set (whitelisted_accounts a)) \<and> (i \<in> set (blacklisting_accounts b) \<longleftrightarrow> j \<in> set (blacklisted_accounts a))"
      using assms(2) ab(1,3) unfolding listings_mirror_def by blast
    then show "(i \<in> set (whitelisting_accounts b') \<longleftrightarrow> j \<in> set (whitelisted_accounts a')) \<and> (i \<in> set (blacklisting_accounts b') \<longleftrightarrow> j \<in> set (blacklisted_accounts a'))"
      unfolding ab(2,4) after_listing_sets by auto
  qed
  moreover have "\<not> is_authorized_asset d' (after_listing op i a) asset ao" if "i = aw_account_to_list op" "black_listed (aw_new_listing op)"
      "has_flag (flags (options ao)) white_list" "aw_authorizing_account op \<in> set (blacklist_authorities (options ao))" for i a asset ao
  proof -
    have "aw_authorizing_account op \<in> set (blacklisting_accounts (after_listing op i a))" using that by (simp add: after_listing_sets)
    then show ?thesis using that by (auto simp: is_authorized_asset_def slow_is_authorized_asset_def)
  qed
  ultimately show ?thesis by (simp add: after_listing_sets)
qed

lemma modify_account_runs:
  "index_find (accounts d) i = Some x \<Longrightarrow>
     modify_account i (\<lambda>a. Inr (g a)) d = Inr (d\<lparr>accounts := (accounts d)\<lparr>objects := AList.update i (g x) (objects (accounts d))\<rparr>\<rparr>)"
  by (simp add: modify_account_def ix_modify_def index_get_def)

lemma account_whitelist_runs:
  assumes "index_find (accounts d) (aw_account_to_list op) = Some a" and "index_find (accounts d) (aw_authorizing_account op) = Some b"
  obtains d' where "account_whitelist_do_apply op d = Inr d'"
proof -
  obtain d1 c where "modify_account (aw_account_to_list op) (\<lambda>a. Inr (note_listing op a)) d = Inr d1" "index_find (accounts d1) (aw_authorizing_account op) = Some c"
    using modify_account_runs [OF assms(1), of "note_listing op"] assms(2) by (cases "aw_account_to_list op = aw_authorizing_account op") auto
  then show ?thesis using that modify_account_runs [of d1 "aw_authorizing_account op" c "note_listed op"]
    by (simp add: account_whitelist_do_apply_def Let_def note_listing_def note_listed_def)
qed

definition sample_listing :: account_whitelist_operation where
  "sample_listing = \<lparr>aw_fee = mk_asset 0 0, aw_authorizing_account = 5, aw_account_to_list = 6, aw_new_listing = 2\<rparr>"

theorem account_whitelist_mirrors_witness:
  "\<exists>d'. account_whitelist_do_evaluate sample_listing sample_db = Inr () \<and> account_whitelist_do_apply sample_listing sample_db = Inr d' \<and> db_ok d' \<and> listings_mirror d' \<and>
     (\<exists>a'. index_find (accounts d') 6 = Some a' \<and> 5 \<in> set (blacklisting_accounts a') \<and> 5 \<notin> set (whitelisting_accounts a'))"
proof -
  obtain d' where d': "account_whitelist_do_apply sample_listing sample_db = Inr d'"
    by (rule account_whitelist_runs [of sample_db sample_listing]) (simp_all add: sample_listing_def sample_defs index_find_def upt_rec)
  have "account_whitelist_do_evaluate sample_listing sample_db = Inr ()"
    by (simp add: account_whitelist_do_evaluate_def sample_listing_def index_get_def index_find_def sample_defs upt_rec is_lifetime_member_def)
  moreover have m: "listings_mirror sample_db"
    unfolding listings_mirror_def by (auto simp: sample_defs index_find_def upt_rec split: if_splits)
  moreover have "index_find (accounts sample_db) 6 = Some (sample_account 6)" by (simp add: sample_defs index_find_def upt_rec)
  moreover have "aw_account_to_list sample_listing = 6" "aw_authorizing_account sample_listing = 5" "black_listed (aw_new_listing sample_listing)" "\<not> white_listed (aw_new_listing sample_listing)"
    by (simp_all add: sample_listing_def black_listed_def white_listed_def)
  ultimately show ?thesis using account_whitelist_mirrors [OF sample_db_ok m d'] d' by fastforce
qed

section \<open>Memberships\<close>

lemma uint_year:
  assumes "uint t < 2 ^ 31"
  shows "uint (t + 365 * 86400 :: time) = uint t + 365 * 86400" and "t + 365 * 86400 \<noteq> - 1"
proof -
  have "uint (31536000 :: time) = 31536000" by simp
  then show y: "uint (t + 365 * 86400) = uint t + 365 * 86400" using assms by (subst uint_add_lem [THEN iffD1]) simp_all
  show "t + 365 * 86400 \<noteq> - 1"
  proof
    assume "t + 365 * 86400 = - 1"
    then have "uint (t + 365 * 86400) = uint (- 1 :: time)" by (simp only:)
    then show False using y assms by (simp add: unsigned_minus_1_eq_mask mask_eq_exp_minus_1)
  qed
qed

text \<open>C14. An upgrade that goes through is of an account that is no lifetime member and creates no value, and no balance moves. An upgrade to a lifetime membership or from a
  basic account first pays out the fees the account owes: none are pending afterwards and they count as paid; the renewal of an annual membership leaves them pending. A
  lifetime member never expires, refers itself, and the network's and the referrer's parts are the whole fee; it can not be upgraded again. Otherwise
  the chain is not past hardfork 613 and the membership is a year longer, from its end or from now, without wrapping around, and not more than eleven years from now.\<close>

theorem account_upgrade_correct:
  assumes F: "fc_lib_ok F" and ok: "db_ok d" and a: "index_find (accounts d) (ag_account_to_upgrade op) = Some a"
    and s: "index_find (account_stats d) (statistics a) = Some s" "0 \<le> pending_fees s" "0 \<le> pending_vested_fees s"
    and ev: "account_upgrade_do_evaluate op d = Inr ()" and ap: "account_upgrade_do_apply F op d = Inr d'"
  shows "\<not> is_lifetime_member a \<and> db_ok d' \<and> excess d' = excess d \<and> balances d' = balances d \<and>
    (if ag_upgrade_to_lifetime_member op \<or> \<not> is_annual_member a (head_block_time d)
     then \<exists>s'. index_find (account_stats d') (statistics a) = Some s' \<and> pending_fees s' = 0 \<and> pending_vested_fees s' = 0 \<and>
       lifetime_fees_paid s' = lifetime_fees_paid s + pending_fees s + pending_vested_fees s
     else account_stats d' = account_stats d) \<and>
    (\<exists>a'. index_find (accounts d') (ag_account_to_upgrade op) = Some a' \<and>
      (if ag_upgrade_to_lifetime_member op
       then is_lifetime_member a' \<and> referrer a' = ag_account_to_upgrade op \<and> registrar a' = ag_account_to_upgrade op \<and> lifetime_referrer a' = ag_account_to_upgrade op \<and>
         (int (network_fee_percentage a') \<le> GRAPHENE_100_PERCENT \<longrightarrow>
            int (network_fee_percentage a') + int (lifetime_referrer_fee_percentage a') = GRAPHENE_100_PERCENT) \<and>
         account_upgrade_do_evaluate op d' = Inl Assert_failed
       else head_block_time d \<le> HARDFORK_613_TIME \<and> is_annual_member a' (head_block_time d) \<and>
         uint (membership_expiration_date a') = (if is_annual_member a (head_block_time d) then uint (membership_expiration_date a) else uint (head_block_time d)) + 365 * 86400 \<and>
         uint (membership_expiration_date a') < uint (head_block_time d) + 11 * 365 * 86400))"
proof -
  let ?i = "ag_account_to_upgrade op" and ?now = "head_block_time d"
  have nl: "\<not> is_lifetime_member a" using ev a by (auto simp: account_upgrade_do_evaluate_def index_get_def require_def split: if_splits)
  let ?paid = "\<lambda>e. \<exists>s'. index_find (account_stats e) (statistics a) = Some s' \<and> pending_fees s' = 0 \<and> pending_vested_fees s' = 0 \<and>
      lifetime_fees_paid s' = lifetime_fees_paid s + pending_fees s + pending_vested_fees s"
  have pf: "db_ok d1 \<and> excess d1 = excess d \<and> balances d1 = balances d \<and> ?paid d1" if "process_fees F (statistics a) ?i d = Inr d1" for d1
    using process_fees_conserves [OF F ok s that] by blast
  have md: "\<exists>x x'. index_find (accounts d1) ?i = Some x \<and> m x = Inr x' \<and> index_find (accounts d') ?i = Some x' \<and> db_ok d' \<and> excess d' = excess d1 \<and> balances d' = balances d1 \<and> account_stats d' = account_stats d1"
    if "db_ok d1" "modify_account ?i m d1 = Inr d'" for d1 m
    using modify_account_effect [OF that] by auto
  have early: "uint ?now < 2 ^ 31 - 11 * 365 * 86400" if "?now \<le> HARDFORK_613_TIME" using that by (simp add: HARDFORK_613_TIME_def word_le_def)
  consider (life) "ag_upgrade_to_lifetime_member op" | (renew) "\<not> ag_upgrade_to_lifetime_member op" "is_annual_member a ?now"
    | (basic) "\<not> ag_upgrade_to_lifetime_member op" "\<not> is_annual_member a ?now" by blast
  then show ?thesis
  proof cases
    case life
    then obtain d1 where d1: "process_fees F (statistics a) ?i d = Inr d1" "modify_account ?i (\<lambda>x. Inr (lifetime_account ?i x)) d1 = Inr d'"
      using ap a by (auto simp: account_upgrade_do_apply_def Let_def index_get_def)
    obtain x where x: "index_find (accounts d') ?i = Some (lifetime_account ?i x)" "db_ok d'" "excess d' = excess d" "balances d' = balances d" "?paid d'"
      using md [OF _ d1(2)] pf [OF d1(1)] by auto
    moreover have "int (network_fee_percentage x) \<le> GRAPHENE_100_PERCENT \<Longrightarrow> int (network_fee_percentage x) + int (nat ((GRAPHENE_100_PERCENT - int (network_fee_percentage x)) mod 2 ^ 16)) = GRAPHENE_100_PERCENT"
      by (simp add: GRAPHENE_100_PERCENT_def)
    ultimately show ?thesis using nl life by (simp add: lifetime_account_def is_lifetime_member_def account_upgrade_do_evaluate_def index_get_def)
  next
    case renew
    then have r: "?now \<le> HARDFORK_613_TIME" "uint (membership_expiration_date a) - uint ?now < 3650 * 86400"
      and m: "modify_account ?i (\<lambda>x. Inr (x\<lparr>membership_expiration_date := membership_expiration_date x + 365 * 86400\<rparr>)) d = Inr d'"
      using ap a by (auto simp: account_upgrade_do_apply_def Let_def index_get_def require_def split: if_splits)
    have f: "index_find (accounts d') ?i = Some (a\<lparr>membership_expiration_date := membership_expiration_date a + 365 * 86400\<rparr>)" "db_ok d'" "excess d' = excess d" "balances d' = balances d" "account_stats d' = account_stats d"
      using md [OF ok m] a by auto
    have e: "uint (membership_expiration_date a) < 2 ^ 31 - 365 * 86400" using r early [OF r(1)] by linarith
    then have y: "uint (membership_expiration_date a + 365 * 86400) = uint (membership_expiration_date a) + 365 * 86400" and ne: "membership_expiration_date a + 365 * 86400 \<noteq> - 1"
      by (intro uint_year; linarith)+
    have "uint ?now \<le> uint (membership_expiration_date a)" using renew(2) by (simp add: is_annual_member_def is_basic_account_def word_less_def)
    then have "is_annual_member (a\<lparr>membership_expiration_date := membership_expiration_date a + 365 * 86400\<rparr>) ?now"
      using y ne by (simp add: is_annual_member_def is_basic_account_def is_lifetime_member_def word_less_def)
    then show ?thesis using nl renew f y r by simp
  next
    case basic
    then obtain d1 where r: "?now \<le> HARDFORK_613_TIME" and d1: "process_fees F (statistics a) ?i d = Inr d1"
      "modify_account ?i (\<lambda>x. require (is_basic_account x ?now) Assert_failed (Inr (x\<lparr>referrer := ?i, membership_expiration_date := ?now + 365 * 86400\<rparr>))) d1 = Inr d'"
      using ap a by (auto simp: account_upgrade_do_apply_def Let_def index_get_def require_def split: if_splits)
    obtain x where f: "index_find (accounts d') ?i = Some (x\<lparr>referrer := ?i, membership_expiration_date := ?now + 365 * 86400\<rparr>)" "db_ok d'" "excess d' = excess d" "balances d' = balances d" "?paid d'"
      using md [OF _ d1(2)] pf [OF d1(1)] by (auto simp: require_def split: if_splits)
    have y: "uint (?now + 365 * 86400) = uint ?now + 365 * 86400" and "?now + 365 * 86400 \<noteq> - 1" using early [OF r] by (intro uint_year; linarith)+
    then have "is_annual_member (x\<lparr>referrer := ?i, membership_expiration_date := ?now + 365 * 86400\<rparr>) ?now"
      using y by (simp add: is_annual_member_def is_basic_account_def is_lifetime_member_def word_less_def)
    then show ?thesis using nl basic f y r by simp
  qed
qed

definition sample_members :: database where
  "sample_members = sample_db\<lparr>account_stats := list_index (map sample_stats [0, 0, 0, 0, 0, 0, 0])\<rparr>"

definition sample_upgrade :: account_upgrade_operation where
  "sample_upgrade = \<lparr>ag_fee = mk_asset 0 0, ag_account_to_upgrade = 6, ag_upgrade_to_lifetime_member = True\<rparr>"

theorem account_upgrade_correct_witness:
  "\<exists>d' a'. account_upgrade_do_apply fc_reference sample_upgrade sample_members = Inr d' \<and> index_find (accounts d') 6 = Some a' \<and> is_lifetime_member a' \<and> referrer a' = 6 \<and>
     account_upgrade_do_evaluate sample_upgrade d' = Inl Assert_failed"
proof -
  have ok: "db_ok sample_members" by (simp add: sample_members_def db_ok_def balances_ok_def assets_ok_def ix_ok_def sample_defs index_find_def upt_rec)
  have a: "index_find (accounts sample_members) (ag_account_to_upgrade sample_upgrade) = Some (sample_account 6)"
    by (simp add: sample_members_def sample_upgrade_def sample_defs index_find_def upt_rec)
  have s: "index_find (account_stats sample_members) (statistics (sample_account 6)) = Some (sample_stats 0)"
    by (simp add: sample_members_def sample_defs index_find_def upt_rec)
  have p: "0 \<le> pending_fees (sample_stats 0)" "0 \<le> pending_vested_fees (sample_stats 0)" by (simp_all add: sample_stats_def)
  have ev: "account_upgrade_do_evaluate sample_upgrade sample_members = Inr ()"
    using a by (simp add: account_upgrade_do_evaluate_def index_get_def is_lifetime_member_def sample_account_def)
  have "process_fees fc_reference (statistics (sample_account 6)) 6 sample_members = Inr sample_members"
    using s by (simp add: process_fees_def index_get_def sample_stats_def)
  moreover have i: "ag_account_to_upgrade sample_upgrade = 6" "ag_upgrade_to_lifetime_member sample_upgrade" by (simp_all add: sample_upgrade_def)
  ultimately obtain d' where ap: "account_upgrade_do_apply fc_reference sample_upgrade sample_members = Inr d'"
    using a modify_account_runs [of sample_members 6 "sample_account 6" "lifetime_account 6"] by (simp add: account_upgrade_do_apply_def index_get_def)
  show ?thesis using account_upgrade_correct [OF fc_reference_ok ok a s p ev ap] ap i by auto
qed

end
