(* ===== verification/Spec2Isabelle.thy ===== *)
theory Spec2Isabelle
  imports Object_Id Undo_Sessions Apply_Block Budget Smart_Contracts Account_Ops
begin

text \<open>
  A verification development of the chain library of the repository, a Graphene blockchain: the state machine that every node runs on
  blocks and transactions. The code modelled is in \<^verbatim>\<open>libraries/db\<close> (objects, indexes, undo history) and
  \<^verbatim>\<open>libraries/chain\<close> (fork database, blocks, transactions, operations, market).

  \<^bold>\<open>The parts and how they fit.\<close> A block arrives at the fork database, which keeps the tree of recent blocks and decides which tip is
  the head. The chain applies the blocks of the chosen branch, each in an undo session, and can take them back. A block
  is a list of transactions and a series of updates at its end; a transaction is a list of operations, and each operation is run by an evaluator:
  validate, prepare the fee, evaluate (checks only), apply (changes). The evaluators move balances, change assets, and drive the market engine,
  which matches limit orders, margin calls and settlements. All of it works on one database of objects.

  \<^bold>\<open>Conventions.\<close> Code that throws returns \<open>error + 'a\<close> (\<open>result\<close> of \<open>Prelude\<close>), with one constructor per kind of exception; \<open>rbind\<close> is the
  sequence and \<open>require\<close> is \<^verbatim>\<open>FC_ASSERT\<close>. State is passed explicitly. \<^verbatim>\<open>share_type\<close> values are integers and every checked operator on them goes
  through the library record \<open>fc_lib\<close>; \<^verbatim>\<open>uint128\<close>, times and flags are words of their width. The libraries \<^verbatim>\<open>fc\<close> and Boost
  are not part of the sources: what the code uses of them is the argument \<open>F\<close>, and \<open>fc_lib_ok F\<close> states the documented behaviour
  (checked 64-bit operators, normalised rationals); \<open>fc_reference\<close> is an instance, on which the witnesses run. Hashes, signature checks, the
  partial sort of the standard library and the payload of a block are arguments too.

  \<^bold>\<open>Theories, in the order of the code.\<close>

  \<^item> \<open>Prelude\<close>: results, the library record, generic lemmas on lists, options and fractions.
  \<^item> \<open>Object_Id\<close> (\<^verbatim>\<open>db/object_id.hpp\<close>), \<open>Object_Index\<close> (\<^verbatim>\<open>db/index.hpp\<close>, \<^verbatim>\<open>generic_index.hpp\<close>): ids round-trip through 64 bits; insert, modify and
    remove with unique keys.
  \<^item> \<open>Undo_Database\<close>, \<open>Undo_Proofs\<close>, \<open>Undo_Sessions\<close> (\<^verbatim>\<open>db/undo_database.cpp\<close>, \<^verbatim>\<open>object_database.cpp\<close>): sessions record old values, new ids and removals; undo
    restores the state of the start of the session, merge is one undo for two, commits can be popped.
  \<^item> \<open>Fork_Database\<close>, \<open>Fork_Proofs\<close> (\<^verbatim>\<open>fork_database.cpp\<close>, \<^verbatim>\<open>protocol/block.cpp\<close>): reachable states form a tree, the head is a longest tip, branches are
    computed back to their common ancestor.
  \<^item> \<open>Block_Chain\<close> (\<^verbatim>\<open>db_block.cpp\<close>): push, pop and switch of blocks with snapshots; after any push the state is the replay of the blocks of the head, and a
    block that fails leaves no trace.
  \<^item> \<open>Asset\<close>, \<open>Price_Ratio\<close> (\<^verbatim>\<open>protocol/asset.cpp\<close>): amounts, prices, rounding, the order of prices, call and squeeze prices, price times ratio.
  \<^item> \<open>Vesting\<close> (\<^verbatim>\<open>vesting_balance_object.cpp\<close>), \<open>Chain_Objects\<close> (the object headers), \<open>Balances\<close> (\<^verbatim>\<open>db_balance.cpp\<close>, \<^verbatim>\<open>account_object.cpp\<close>): the database record, balances, lazy vesting
    deposits, the split of fees. \<open>excess d a\<close> is what is held of asset \<open>a\<close> in every place minus its supply: value is conserved when it does not change.
  \<^item> \<open>Evaluators\<close> (\<^verbatim>\<open>evaluator.cpp\<close>, \<^verbatim>\<open>transfer_evaluator.cpp\<close>, \<^verbatim>\<open>is_authorized_asset.cpp\<close>): the frame of an operation with its fee, and transfers. The locale
    of an operation has what the frame asks of it as assumptions; every evaluator is an interpretation.
  \<^item> \<open>Asset_Ops\<close>, \<open>Bitassets\<close>, \<open>Price_Feeds\<close> (\<^verbatim>\<open>asset_evaluator.cpp\<close>, \<^verbatim>\<open>asset_object.cpp\<close>, \<^verbatim>\<open>protocol/asset_ops.cpp\<close>): asset operations, rules on backing assets, medians of feeds.
  \<^item> \<open>Target_Ratio\<close> (\<^verbatim>\<open>market_object.cpp\<close>): how much of a position a margin call covers.
  \<^item> \<open>Market\<close>, \<open>Market_Value\<close>, \<open>Market_Engine\<close>, \<open>Engine_Proofs\<close> (\<^verbatim>\<open>db_market.cpp\<close>, \<^verbatim>\<open>db_update.cpp\<close>): filling, matching, cancelling, margin calls, black swans, global settlement,
    bids and revival; \<open>market_ok\<close> is the invariant of the market, kept by every step of the engine together with \<open>excess\<close>.
  \<^item> \<open>Market_Ops\<close>, \<open>Ops_Proofs\<close> (\<^verbatim>\<open>market_evaluator.cpp\<close>, \<^verbatim>\<open>asset_evaluator.cpp\<close>), \<open>Withdrawals\<close> (\<^verbatim>\<open>withdraw_permission_evaluator.cpp\<close>, \<^verbatim>\<open>vesting_balance_evaluator.cpp\<close>): the
    operations that run the engine, withdrawal permissions and vesting balances.
  \<^item> \<open>Operations\<close> (\<^verbatim>\<open>protocol/operations.hpp\<close>, \<^verbatim>\<open>apply_operation\<close>), \<open>Transactions\<close> (\<^verbatim>\<open>_apply_transaction\<close>): the operation variant and its dispatch, transactions, duplicates
    and expiration. No transaction creates value, and none is applied twice.
  \<^item> \<open>Price_Ratio\<close> (\<^verbatim>\<open>protocol/asset.cpp\<close>): prices scaled by a ratio. \<open>Block_Updates\<close> (\<^verbatim>\<open>db_update.cpp\<close>): the updates at the end of a block: expired orders and
    settlement requests, expired feeds, core exchange rates, withdrawal permissions. They keep \<open>market_ok\<close> and \<open>excess\<close>.
  \<^item> \<open>Witness_Schedule\<close> (\<^verbatim>\<open>db_witness_schedule.cpp\<close>, \<^verbatim>\<open>db_update.cpp\<close>): slots, the shuffled schedule, the header check, missed blocks, the pay of witnesses and
    the last irreversible block. The schedule is fair, slots divide the time, and an irreversible block has the confirmations it needs.
  \<^item> \<open>Apply_Block\<close> (\<^verbatim>\<open>_apply_block\<close>): a whole block. \<open>graphene_chain\<close> puts it into the chain of \<open>Block_Chain\<close>, and \<open>blocks_conserve_value\<close> says that a run of
    blocks between two maintenances creates no value.
  \<^item> \<open>Proposals\<close> (\<^verbatim>\<open>proposal_object.cpp\<close>, \<^verbatim>\<open>push_proposal\<close>, \<^verbatim>\<open>clear_expired_proposals\<close>): the check of the approvals of a proposal and its run or removal when it
    expires. The loop ends, leaves no expired proposal and creates no value.
  \<^item> \<open>Authority\<close> (\<^verbatim>\<open>protocol/transaction.cpp\<close>, \<^verbatim>\<open>authority.hpp\<close>): who has signed. The check of an applied transaction is sound for thresholds of weighted keys, addresses and accounts
    up to a depth, and complete up to unnecessary signatures.
  \<^item> \<open>Budget\<close>, \<open>Voting\<close> (\<^verbatim>\<open>db_maint.cpp\<close>, \<^verbatim>\<open>vote_count.hpp\<close>, \<^verbatim>\<open>worker_evaluator.cpp\<close>): the budget of an interval and the pay of workers create no value; the election of witnesses
    and committee, and the authority that the votes become. \<^verbatim>\<open>find_msb\<close> of Boost is an argument with the hypothesis \<open>find_msb_ok\<close>.
  \<^item> \<open>Smart_Contracts\<close> (\<^verbatim>\<open>account_evaluator.cpp\<close>, \<^verbatim>\<open>db_balance.cpp\<close>): the contract operations implement a registry of contracts by address, whatever the virtual machine does; only the owner
    of a contract removes or switches it.
  \<^item> \<open>Account_Names\<close> (\<^verbatim>\<open>is_valid_name\<close> of \<^verbatim>\<open>protocol/account.cpp\<close>): the check accepts exactly the names of its grammar. \<open>Account_Ops\<close> (\<^verbatim>\<open>account_evaluator.cpp\<close>): votes of an account,
    white and black lists, whose two sides agree, and membership upgrades, which create no value.
  \<^bold>\<open>Bounds and fuel.\<close> Loops that are not structural run on fuel and end in the error \<open>Out_of_fuel\<close> when it is used up. The loops on fractions have a fuel of 128,
  the number of bits of their integers, and are proved to return with it. The branch walks of the fork database have as fuel the successor of the larger of the two block numbers, proved to be enough.
  \<^verbatim>\<open>get_max_debt_to_cover\<close> is proved to return. The loops of the market engine take their fuel as an argument; the theorems on them hold for every fuel and speak of the runs that
  return.

  \<^bold>\<open>Not modelled.\<close> Virtual operations pushed for the history; floating-point displays of prices; block storage on disk, the network, the wallet, the application and
  its plugins, which are I/O, clients or observers; confidential transfers, whose commitments are library code; the smart contract library, a submodule that is not in the
  sources: the virtual machine of the contracts is an argument. Creation and update of accounts, the registration of witnesses, committee members and workers, the operations that create, approve and delete proposals, the table of fees, the count of
  the votes over all accounts and the rest of chain maintenance are outside the model: required fees and the tally are arguments, and so is maintenance where a block runs it;
  \<open>Budget\<close> and \<open>Voting\<close> model two of its parts on their own.
\<close>

end
